(* ===== verification/GoPrelude.thy ===== *)
theory GoPrelude
  imports
    Main
    "HOL-Library.State_Monad"
    "HOL-Library.AList"
    "HOL-Library.Char_ord"
    "HOL-Library.List_Lexorder"
    "HOL-Library.Sublist"
begin

text \<open>
  The prelude of the pveforge development: what the Go sources use of the language and of its
  standard library, and the generic lemmas that the components share.

  Strings are byte strings (a \<open>char\<close> is one byte of the UTF-8 text).  Errors are values of
  \<open>gerror\<close>: the typed errors of the program, the sentinels of its packages, and
  \<open>Errorf\<close>, which keeps the pieces of a \<open>fmt.Errorf\<close> format (literal text, \<open>%d\<close>, \<open>%q\<close> and
  \<open>%w\<close>), so that \<open>errors.Is\<close>, \<open>errors.As\<close> and the text of an error are all computed from the same
  value.  A fallible operation returns \<open>gerror + 'a\<close> (\<open>Inl\<close> is the error), a fallible operation
  without a result \<open>gerror option\<close>.  JSON documents are values of \<open>json\<close>; a Go map is an
  association list with distinct keys, whose order stands for the (unspecified) iteration order.
\<close>

named_theorems go_string \<open>evaluation of Go's string functions\<close>
named_theorems go_error \<open>classification of error values\<close>

section \<open>Strings\<close>

definition strings_HasPrefix :: "string \<Rightarrow> string \<Rightarrow> bool" where
  "strings_HasPrefix s p \<longleftrightarrow> prefix p s"

definition strings_HasSuffix :: "string \<Rightarrow> string \<Rightarrow> bool" where
  "strings_HasSuffix s p \<longleftrightarrow> Sublist.suffix p s"

definition strings_TrimPrefix :: "string \<Rightarrow> string \<Rightarrow> string" where
  "strings_TrimPrefix s p = (if prefix p s then drop (length p) s else s)"

definition strings_TrimSuffix :: "string \<Rightarrow> string \<Rightarrow> string" where
  "strings_TrimSuffix s p = (if Sublist.suffix p s then take (length s - length p) s else s)"

definition strings_CutPrefix :: "string \<Rightarrow> string \<Rightarrow> string \<times> bool" where
  "strings_CutPrefix s p = (if prefix p s then (drop (length p) s, True) else (s, False))"

definition strings_Contains :: "string \<Rightarrow> string \<Rightarrow> bool" where
  "strings_Contains s sub \<longleftrightarrow> sublist sub s"

text \<open>\<open>strings.Cut\<close> with a separator of one byte: the text before and after the first one.\<close>

fun strings_Cut :: "string \<Rightarrow> char \<Rightarrow> string \<times> string \<times> bool" where
  "strings_Cut [] c = ([], [], False)"
| "strings_Cut (x # xs) c =
     (if x = c then ([], xs, True)
      else (case strings_Cut xs c of
              (a, b, True) \<Rightarrow> (x # a, b, True)
            | (a, b, False) \<Rightarrow> (x # xs, [], False)))"

text \<open>\<open>strings.Split\<close> with a separator of one byte, and \<open>strings.Join\<close>.\<close>

fun strings_Split :: "string \<Rightarrow> char \<Rightarrow> string list" where
  "strings_Split [] c = [[]]"
| "strings_Split (x # xs) c =
     (if x = c then [] # strings_Split xs c
      else (case strings_Split xs c of [] \<Rightarrow> [[x]] | w # ws \<Rightarrow> (x # w) # ws))"

fun strings_Join :: "string list \<Rightarrow> char \<Rightarrow> string" where
  "strings_Join [] c = []"
| "strings_Join [w] c = w"
| "strings_Join (w # v # ws) c = w @ c # strings_Join (v # ws) c"

lemma strings_Split_not_Nil [simp]: "strings_Split s c \<noteq> []"
  by (induction s) (auto split: list.splits)

lemma strings_Split_append:
  "c \<notin> set w \<Longrightarrow> strings_Split (w @ c # rest) c = w # strings_Split rest c"
  by (induction w) auto

lemma strings_Split_word: "c \<notin> set w \<Longrightarrow> strings_Split w c = [w]"
  by (induction w) auto

lemma strings_Split_Join:
  "ws \<noteq> [] \<Longrightarrow> (\<And>w. w \<in> set ws \<Longrightarrow> c \<notin> set w) \<Longrightarrow> strings_Split (strings_Join ws c) c = ws"
  by (induction ws c rule: strings_Join.induct) (auto simp: strings_Split_append strings_Split_word)

lemma strings_Split_words: "w \<in> set (strings_Split s c) \<Longrightarrow> c \<notin> set w"
  by (induction s arbitrary: w) (auto split: list.splits if_splits)

text \<open>\<open>strings.Join\<close> with any separator.\<close>

fun join_with :: "string \<Rightarrow> string list \<Rightarrow> string" where
  "join_with sep [] = []"
| "join_with sep [w] = w"
| "join_with sep (w # v # ws) = w @ sep @ join_with sep (v # ws)"

definition char_in :: "char \<Rightarrow> char \<Rightarrow> char \<Rightarrow> bool" where
  [simp]: "char_in lo hi c \<longleftrightarrow> lo \<le> c \<and> c \<le> hi"

definition ascii_lower :: "char \<Rightarrow> char" where
  "ascii_lower c = (if char_in (CHR ''A'') (CHR ''Z'') c then char_of (of_char c + 32 :: nat) else c)"

text \<open>
  \<open>strings.ToLower\<close>, as far as its ASCII letters go: beside the capital ASCII letters, the capital I with
  a dot above (\<open>C4 B0\<close>) and the Kelvin sign (\<open>E2 84 AA\<close>) are lowered to ASCII letters.  The sources only
  compare the result with ASCII text, or search it for such text, so other letters are kept.
\<close>

fun strings_ToLower :: "string \<Rightarrow> string" where
  "strings_ToLower [] = []"
| "strings_ToLower (c # cs) =
     (if c = CHR 0xC4 \<and> take 1 cs = [CHR 0xB0] then CHR ''i'' # strings_ToLower (drop 1 cs)
      else if c = CHR 0xE2 \<and> take 2 cs = [CHR 0x84, CHR 0xAA] then CHR ''k'' # strings_ToLower (drop 2 cs)
      else ascii_lower c # strings_ToLower cs)"

text \<open>
  \<open>strings.EqualFold\<close> against ASCII text without the letters k and s, the two that a non-ASCII
  letter folds to.
\<close>

definition strings_EqualFold :: "string \<Rightarrow> string \<Rightarrow> bool" where
  "strings_EqualFold s t \<longleftrightarrow> map ascii_lower s = map ascii_lower t"

text \<open>A byte that continues no encoding, such as an ASCII one, splits the text.\<close>

lemma strings_ToLower_append:
  assumes "c \<notin> {CHR 0xB0, CHR 0x84, CHR 0xAA}"
  shows "strings_ToLower (w @ c # rest) = strings_ToLower w @ strings_ToLower (c # rest)"
proof (induction w rule: strings_ToLower.induct)
  case (2 d w)
  have "take 1 (w @ c # rest) = [CHR 0xB0] \<longleftrightarrow> take 1 w = [CHR 0xB0]" using assms by (cases w) auto
  moreover have "take 2 (w @ c # rest) = [CHR 0x84, CHR 0xAA] \<longleftrightarrow> take 2 w = [CHR 0x84, CHR 0xAA]"
    using assms by (cases w; cases "tl w") auto
  moreover have "drop 1 (w @ c # rest) = drop 1 w @ c # rest" if "take 1 w = [CHR 0xB0]" using that by (cases w) auto
  moreover have "drop 2 (w @ c # rest) = drop 2 w @ c # rest" if "take 2 w = [CHR 0x84, CHR 0xAA]"
    using that by (cases w; cases "tl w") auto
  ultimately show ?case using 2 by (simp del: strings_ToLower.simps(2) add: strings_ToLower.simps(2) [of d])
qed simp

lemma strings_ToLower_ascii: "c \<notin> {CHR 0xC4, CHR 0xE2} \<Longrightarrow> strings_ToLower (c # rest) = ascii_lower c # strings_ToLower rest"
  by simp

lemma strings_ToLower_Nil_iff: "strings_ToLower w = [] \<longleftrightarrow> w = []"
  by (cases w) auto

text \<open>
  \<open>strings.TrimSpace\<close>: \<open>unicode.IsSpace\<close> holds for the six ASCII space bytes and for the code
  points listed here by their UTF-8 encodings.
\<close>

definition space_encodings :: "string list" where
  "space_encodings =
     [[CHR 0x09], [CHR 0x0A], [CHR 0x0B], [CHR 0x0C], [CHR 0x0D], [CHR 0x20],
      [CHR 0xC2, CHR 0x85], [CHR 0xC2, CHR 0xA0], [CHR 0xE1, CHR 0x9A, CHR 0x80],
      [CHR 0xE2, CHR 0x80, CHR 0x80], [CHR 0xE2, CHR 0x80, CHR 0x81],
      [CHR 0xE2, CHR 0x80, CHR 0x82], [CHR 0xE2, CHR 0x80, CHR 0x83],
      [CHR 0xE2, CHR 0x80, CHR 0x84], [CHR 0xE2, CHR 0x80, CHR 0x85],
      [CHR 0xE2, CHR 0x80, CHR 0x86], [CHR 0xE2, CHR 0x80, CHR 0x87],
      [CHR 0xE2, CHR 0x80, CHR 0x88], [CHR 0xE2, CHR 0x80, CHR 0x89],
      [CHR 0xE2, CHR 0x80, CHR 0x8A], [CHR 0xE2, CHR 0x80, CHR 0xA8],
      [CHR 0xE2, CHR 0x80, CHR 0xA9], [CHR 0xE2, CHR 0x80, CHR 0xAF],
      [CHR 0xE2, CHR 0x81, CHR 0x9F], [CHR 0xE3, CHR 0x80, CHR 0x80]]"

fun strip_prefixes :: "string list \<Rightarrow> string \<Rightarrow> string" where
  "strip_prefixes ps [] = []"
| "strip_prefixes ps (x # xs) =
     (case find (\<lambda>p. p \<noteq> [] \<and> prefix p (x # xs)) ps of
        None \<Rightarrow> x # xs
      | Some p \<Rightarrow> strip_prefixes ps (drop (length p - 1) xs))"

definition strings_TrimSpace :: "string \<Rightarrow> string" where
  "strings_TrimSpace s =
     rev (strip_prefixes (map rev space_encodings) (rev (strip_prefixes space_encodings s)))"

lemma strip_prefixes_none: "p \<in> set ps \<Longrightarrow> p \<noteq> [] \<Longrightarrow> \<not> prefix p (strip_prefixes ps s)"
  by (induction ps s rule: strip_prefixes.induct) (auto split: option.split simp: find_None_iff)

lemma strip_prefixes_fix: "(\<And>p. p \<in> set ps \<Longrightarrow> p \<noteq> [] \<Longrightarrow> \<not> prefix p s) \<Longrightarrow> strip_prefixes ps s = s"
  by (cases s) (auto split: option.split simp: find_Some_iff)

lemma strip_prefixes_suffix: "\<exists>cut. s = cut @ strip_prefixes ps s"
proof (induction ps s rule: strip_prefixes.induct)
  case (2 ps x xs)
  show ?case
  proof (cases "find (\<lambda>p. p \<noteq> [] \<and> prefix p (x # xs)) ps")
    case (Some p)
    from 2 [OF Some] obtain cut where "drop (length p - 1) xs = cut @ strip_prefixes ps (drop (length p - 1) xs)" by blast
    then have "xs = (take (length p - 1) xs @ cut) @ strip_prefixes ps (drop (length p - 1) xs)"
      by (metis append.assoc append_take_drop_id)
    with Some show ?thesis by (auto intro: exI [of _ "x # take (length p - 1) xs @ cut"])
  qed simp
qed simp

lemma set_strip_prefixes: "set (strip_prefixes ps s) \<subseteq> set s"
  using strip_prefixes_suffix [of s ps] by (metis Un_upper2 set_append)

lemma set_strings_TrimSpace: "set (strings_TrimSpace s) \<subseteq> set s"
  using set_strip_prefixes unfolding strings_TrimSpace_def by (metis set_rev subset_trans)

lemma strings_TrimSpace_idem [simp]: "strings_TrimSpace (strings_TrimSpace s) = strings_TrimSpace s"
proof -
  let ?a = "strip_prefixes space_encodings s" and ?ps = "map rev space_encodings"
  let ?t = "strip_prefixes ?ps (rev ?a)"
  obtain cut where "rev ?a = cut @ ?t" using strip_prefixes_suffix by blast
  then have "?a = rev ?t @ rev cut" by (metis rev_append rev_rev_ident)
  then have "\<not> prefix p (rev ?t)" if "p \<in> set space_encodings" "p \<noteq> []" for p
    using strip_prefixes_none [OF that, of s] by (metis prefix_prefix)
  then have "strip_prefixes space_encodings (rev ?t) = rev ?t" by (rule strip_prefixes_fix)
  moreover have "strip_prefixes ?ps ?t = ?t" by (rule strip_prefixes_fix) (rule strip_prefixes_none)
  ultimately show ?thesis by (simp add: strings_TrimSpace_def)
qed

definition is_digit :: "char \<Rightarrow> bool" where
  "is_digit c \<longleftrightarrow> CHR ''0'' \<le> c \<and> c \<le> CHR ''9''"

definition is_lower :: "char \<Rightarrow> bool" where
  [simp]: "is_lower c \<longleftrightarrow> char_in (CHR ''a'') (CHR ''z'') c"

definition is_upper :: "char \<Rightarrow> bool" where
  [simp]: "is_upper c \<longleftrightarrow> char_in (CHR ''A'') (CHR ''Z'') c"

definition is_alnum :: "char \<Rightarrow> bool" where
  "is_alnum c \<longleftrightarrow> is_digit c \<or> is_lower c \<or> is_upper c"

text \<open>
  The number of bytes of the first rune of a non-empty byte string, as \<open>range\<close> decodes it: the
  length of a well-formed UTF-8 sequence, one byte when it is not well-formed.
\<close>

definition between :: "nat \<Rightarrow> nat \<Rightarrow> char \<Rightarrow> bool" where
  "between a b c \<longleftrightarrow> a \<le> of_char c \<and> of_char c \<le> b"

definition rune2 :: "char \<Rightarrow> char \<Rightarrow> bool" where
  "rune2 a b \<longleftrightarrow> between 0xC2 0xDF a \<and> between 0x80 0xBF b"

definition rune3 :: "char \<Rightarrow> char \<Rightarrow> char \<Rightarrow> bool" where
  "rune3 a b c \<longleftrightarrow>
     (a = CHR 0xE0 \<and> between 0xA0 0xBF b \<or> a = CHR 0xED \<and> between 0x80 0x9F b
       \<or> (between 0xE1 0xEC a \<or> between 0xEE 0xEF a) \<and> between 0x80 0xBF b)
     \<and> between 0x80 0xBF c"

definition rune4 :: "char \<Rightarrow> char \<Rightarrow> char \<Rightarrow> char \<Rightarrow> bool" where
  "rune4 a b c d \<longleftrightarrow>
     (a = CHR 0xF0 \<and> between 0x90 0xBF b \<or> a = CHR 0xF4 \<and> between 0x80 0x8F b
       \<or> between 0xF1 0xF3 a \<and> between 0x80 0xBF b)
     \<and> between 0x80 0xBF c \<and> between 0x80 0xBF d"

fun rune_width :: "string \<Rightarrow> nat" where
  "rune_width [] = 1"
| "rune_width (a # s) =
     (case s of
        [] \<Rightarrow> 1
      | b # s \<Rightarrow>
          if rune2 a b then 2
          else (case s of
              [] \<Rightarrow> 1
            | c # s \<Rightarrow> if rune3 a b c then 3 else (case s of [] \<Rightarrow> 1 | d # s \<Rightarrow> if rune4 a b c d then 4 else 1)))"

text \<open>The runes of a text, as \<open>range\<close> finds them; one that is a single byte beyond ASCII is not well-formed.\<close>

fun runes :: "string \<Rightarrow> string list" where
  "runes [] = []"
| "runes (c # cs) = take (rune_width (c # cs)) (c # cs) # runes (drop (rune_width (c # cs) - 1) cs)"

definition rune_error :: "string \<Rightarrow> bool" where
  "rune_error r \<longleftrightarrow> (case r of [c] \<Rightarrow> (of_char c :: nat) \<ge> 0x80 | _ \<Rightarrow> False)"

definition utf8_valid :: "string \<Rightarrow> bool" where
  "utf8_valid s \<longleftrightarrow> list_all (\<lambda>r. \<not> rune_error r) (runes s)"

text \<open>A rune that is well-formed is one wherever it stands, and the runes of a text make it up.\<close>

definition whole_rune :: "string \<Rightarrow> bool" where
  "whole_rune r \<longleftrightarrow> r \<noteq> [] \<and> (\<forall>rest. rune_width (r @ rest) = length r)"

lemma rune_lead:
  "rune2 a b \<Longrightarrow> 0xC2 \<le> (of_char a :: nat) \<and> (of_char a :: nat) \<le> 0xDF \<and> 0x80 \<le> (of_char b :: nat)"
  "rune3 a b c \<Longrightarrow> 0xE0 \<le> (of_char a :: nat) \<and> (of_char a :: nat) \<le> 0xEF \<and> 0x80 \<le> (of_char b :: nat) \<and> 0x80 \<le> (of_char c :: nat)"
  "rune4 a b c d \<Longrightarrow> 0xF0 \<le> (of_char a :: nat) \<and> 0x80 \<le> (of_char b :: nat) \<and> 0x80 \<le> (of_char c :: nat) \<and> 0x80 \<le> (of_char d :: nat)"
  by (auto simp: rune2_def rune3_def rune4_def between_def)

lemma whole_rune_ascii: "(of_char c :: nat) < 0x80 \<Longrightarrow> whole_rune [c]"
  unfolding whole_rune_def by (auto split: list.splits dest!: rune_lead)

lemma rune_cases:
  assumes "s \<noteq> []"
  obtains (one) c where "take (rune_width s) s = [c]"
  | (many) "whole_rune (take (rune_width s) s)" "\<forall>c \<in> set (take (rune_width s) s). 0x80 \<le> (of_char c :: nat)"
proof -
  obtain a s1 where s: "s = a # s1" using assms by (cases s) auto
  show ?thesis
  proof (cases s1)
    case Nil
    with s one show ?thesis by simp
  next
    case b: (Cons b s2)
    show ?thesis
    proof (cases "rune2 a b")
      case True
      with s b have "take (rune_width s) s = [a, b]" by simp
      with True rune_lead(1) [OF True] show ?thesis by (intro many) (auto simp: whole_rune_def)
    next
      case no2: False
      show ?thesis
      proof (cases s2)
        case Nil
        with s b no2 one show ?thesis by simp
      next
        case c: (Cons c s3)
        show ?thesis
        proof (cases "rune3 a b c")
          case True
          with s b c no2 have "take (rune_width s) s = [a, b, c]" by simp
          with True no2 rune_lead(2) [OF True] show ?thesis by (intro many) (auto simp: whole_rune_def)
        next
          case no3: False
          show ?thesis
          proof (cases "s3 \<noteq> [] \<and> rune4 a b c (hd s3)")
            case True
            then obtain d s4 where d: "s3 = d # s4" "rune4 a b c d" by (cases s3) auto
            with s b c no2 no3 have "take (rune_width s) s = [a, b, c, d]" by simp
            with d no2 no3 rune_lead(3) [OF d(2)] show ?thesis by (intro many) (auto simp: whole_rune_def)
          next
            case False
            with s b c no2 no3 have "rune_width s = 1" by (auto split: list.splits)
            with s one show ?thesis by simp
          qed
        qed
      qed
    qed
  qed
qed

lemma rune_width_pos: "0 < rune_width s"
  by (cases s) (auto split: list.splits)

declare rune_width.simps(2) [simp del]

lemma rune_width_Suc: "\<exists>n. rune_width s = Suc n"
  using rune_width_pos [of s] by (cases "rune_width s") auto

lemma concat_runes: "concat (runes s) = s"
proof (induction s rule: runes.induct)
  case (2 c cs)
  obtain n where "rune_width (c # cs) = Suc n" using rune_width_Suc by blast
  with 2 show ?case by simp
qed simp

lemma runes_whole: "whole_rune r \<Longrightarrow> runes (r @ rest) = r # runes rest"
proof (cases r)
  case (Cons c cs)
  assume "whole_rune r"
  with Cons have "rune_width (c # cs @ rest) = Suc (length cs)" by (auto simp: whole_rune_def)
  with Cons show ?thesis by simp
qed (simp add: whole_rune_def)

lemma in_runes:
  "r \<in> set (runes s) \<Longrightarrow>
     (\<exists>c. r = [c]) \<or> whole_rune r \<and> (\<forall>c \<in> set r. 0x80 \<le> (of_char c :: nat))"
proof (induction s rule: runes.induct)
  case (2 c cs)
  then consider "r = take (rune_width (c # cs)) (c # cs)" | "r \<in> set (runes (drop (rune_width (c # cs) - 1) cs))" by auto
  then show ?case
  proof cases
    case 1
    have "c # cs \<noteq> []" by simp
    then show ?thesis using 1 by (cases rule: rune_cases) auto
  next
    case r: 2
    with 2 show ?thesis by blast
  qed
qed simp

lemma whole_runes: "r \<in> set (runes s) \<Longrightarrow> \<not> rune_error r \<Longrightarrow> whole_rune r"
  using in_runes [of r s] whole_rune_ascii by (auto simp: rune_error_def)

text \<open>\<open>strings.EqualFold\<close>, rune by rune; two runes beyond ASCII fold to an ASCII letter.\<close>

definition fold_rune :: "(string \<Rightarrow> string) \<Rightarrow> string \<Rightarrow> string" where
  "fold_rune orbit r =
     (if rune_error r then [CHR 0xEF, CHR 0xBF, CHR 0xBD]
      else if length r = 1 then map ascii_lower r
      else if r = [CHR 0xC5, CHR 0xBF] then ''s''
      else if r = [CHR 0xE2, CHR 0x84, CHR 0xAA] then ''k''
      else orbit r)"

definition equal_fold :: "(string \<Rightarrow> string) \<Rightarrow> string \<Rightarrow> string \<Rightarrow> bool" where
  "equal_fold orbit s t \<longleftrightarrow> map (fold_rune orbit) (runes s) = map (fold_rune orbit) (runes t)"

text \<open>\<open>strconv.Itoa\<close> (and the verb \<open>%d\<close>) and the verb \<open>%q\<close>.\<close>

definition digit_char :: "nat \<Rightarrow> char" where
  "digit_char d = char_of (48 + d)"

fun nat_digits :: "nat \<Rightarrow> string" where
  "nat_digits n = (if n < 10 then [digit_char n] else nat_digits (n div 10) @ [digit_char (n mod 10)])"

declare nat_digits.simps [simp del]

definition strconv_Itoa :: "int \<Rightarrow> string" where
  "strconv_Itoa i = (if i < 0 then CHR ''-'' # nat_digits (nat (- i)) else nat_digits (nat i))"

definition hex_char :: "nat \<Rightarrow> char" where
  "hex_char d = (if d < 10 then char_of (48 + d) else char_of (87 + d))"

definition hex_digit :: "char \<Rightarrow> nat option" where
  "hex_digit c =
     (if is_digit c then Some (of_char c - 48)
      else if char_in (CHR ''a'') (CHR ''f'') c then Some (of_char c - 87)
      else if char_in (CHR ''A'') (CHR ''F'') c then Some (of_char c - 55)
      else None)"

text \<open>
  \<open>strconv.Quote\<close>, as \<open>%q\<close> uses it: exact on ASCII text; the bytes of a non-ASCII rune are kept
  as they are, as Go keeps a printable one.
\<close>

definition quote_char :: "char \<Rightarrow> string" where
  "quote_char c =
     (if c = CHR 0x22 then [CHR 0x5C, CHR 0x22]
      else if c = CHR 0x5C then [CHR 0x5C, CHR 0x5C]
      else if c = CHR 0x07 then [CHR 0x5C, CHR ''a'']
      else if c = CHR 0x08 then [CHR 0x5C, CHR ''b'']
      else if c = CHR 0x0C then [CHR 0x5C, CHR ''f'']
      else if c = CHR 0x0A then [CHR 0x5C, CHR ''n'']
      else if c = CHR 0x0D then [CHR 0x5C, CHR ''r'']
      else if c = CHR 0x09 then [CHR 0x5C, CHR ''t'']
      else if c = CHR 0x0B then [CHR 0x5C, CHR ''v'']
      else if (of_char c :: nat) < 32 \<or> c = CHR 0x7F
        then [CHR 0x5C, CHR ''x'', hex_char (of_char c div 16), hex_char (of_char c mod 16)]
      else [c])"

definition strconv_Quote :: "string \<Rightarrow> string" where
  "strconv_Quote s = CHR 0x22 # concat (map quote_char s) @ [CHR 0x22]"

text \<open>
  \<open>strconv.Atoi\<close> on a text of digits: the value, or none when it is out of the range of an
  \<open>int\<close> (64 bits).
\<close>

fun digits_value :: "nat \<Rightarrow> string \<Rightarrow> nat" where
  "digits_value acc [] = acc"
| "digits_value acc (c # cs) = digits_value (10 * acc + (of_char c - 48)) cs"

definition max_int64 :: nat where
  "max_int64 = 9223372036854775807"

definition atoi_digits :: "string \<Rightarrow> nat option" where
  "atoi_digits s =
     (if s = [] \<or> \<not> list_all is_digit s then None
      else if digits_value 0 s \<le> max_int64 then Some (digits_value 0 s) else None)"

text \<open>\<open>strconv.Atoi\<close>: an optional sign and digits, within the range of an \<open>int\<close>.\<close>

definition strconv_Atoi :: "string \<Rightarrow> int option" where
  "strconv_Atoi t =
     (case t of
        [] \<Rightarrow> None
      | c # cs \<Rightarrow>
          if c = CHR ''-'' \<or> c = CHR ''+'' then
            (if cs = [] \<or> \<not> list_all is_digit cs then None
             else if c = CHR ''-'' then
               (if digits_value 0 cs \<le> max_int64 + 1 then Some (- int (digits_value 0 cs)) else None)
             else map_option int (atoi_digits cs))
          else map_option int (atoi_digits t))"

text \<open>An \<open>int\<close> of 64 bits: the sum of two wraps around.\<close>

definition int64 :: "int \<Rightarrow> int" where
  "int64 i = (i + 2 ^ 63) mod 2 ^ 64 - 2 ^ 63"

lemma map_sum_Inr: "map_sum id f x = Inr y \<longleftrightarrow> (\<exists>z. x = Inr z \<and> y = f z)"
  by (cases x) auto

section \<open>Errors\<close>

text \<open>
  The package-level error values (\<open>errors.New\<close> variables) the sources compare with
  \<open>errors.Is\<close>.  \<open>ErrNoTaskStatus\<close> is \<open>errNoTaskStatus\<close>, which itself wraps
  \<open>ErrUnverifiableRead\<close>.
\<close>

datatype sentinel =
    ErrConflict
  | ErrUnverifiableRead
  | ErrNoTaskStatus
  | ErrNotAuthorized
  | ErrTimeout
  | ErrNotFound
  | ErrAmbiguousTag
  | ErrLockWaitTimeout
  | ErrLockWaitInterrupted
  | ErrInvalidGrant
  | ErrNoGrants
  | ErrWrongScope
  | ErrScopeTooWide
  | ErrInvalidPrincipal
  | ErrInvalidACLPath
  | ErrUnknownRole
  | ErrRoleHasNoPrivileges
  | ErrPinnedPrivsMismatch
  | ErrSelfGrant
  | ErrEscalatingRole
  | ErrUnknownGroup
  | ErrGrantNotConfirmed
  | ErrRootWriteOutcomeUnknown
  | ErrNoCommandSent
  | ErrCommandTimedOut
  | CtxCanceled
  | CtxDeadlineExceeded

datatype gerror =
    Sentinel sentinel
  | LibrarySentinel sentinel string
  | ErrorString string
  | StatusError int string string string
  | ProxmoxStatusError int string string
  | URLError string
  | SignalError string
  | TaskFailedError string string
  | TaskOutcomeUnknown gerror
  | CreatedNotFoundError int
  | CloudInitCheckError gerror
  | SnapshotExistsError int string
  | ReservedSnapshotNameError int string
  | NotNewestSnapshotError int string "string list"
  | StorageDiffersError string string string
  | ReadBackMismatchError string string string
  | Errorf "frag list"
and frag =
    Lit string
  | Dec int
  | Quo string
  | Wrapped gerror

text \<open>
  \<open>LibrarySentinel\<close> is an error value of go-proxmox (\<open>ErrTimeout\<close>, \<open>ErrNotAuthorized\<close>),
  whose text is not part of this repository and is carried along.
  \<open>StatusError code status body what\<close> is \<open>*pve.StatusError\<close>; \<open>ProxmoxStatusError code status
  body\<close> go-proxmox's own; \<open>URLError\<close> a \<open>*url.Error\<close>, with the text of its cause;
  \<open>SignalError\<close> a cancel cause that names a signal.
\<close>

fun sentinel_text :: "sentinel \<Rightarrow> string" where
  "sentinel_text ErrConflict = ''idempotent: concurrent modification detected''"
| "sentinel_text ErrUnverifiableRead = ''unverifiable read''"
| "sentinel_text ErrNoTaskStatus = ''task status poll returned no status: unverifiable read''"
| "sentinel_text ErrNotAuthorized = ''not authorized''"
| "sentinel_text ErrTimeout = ''timeout''"
| "sentinel_text ErrNotFound = ''no resource matches the given tag''"
| "sentinel_text ErrAmbiguousTag = ''tag matches more than one resource''"
| "sentinel_text ErrLockWaitTimeout = ''timed out waiting for the lock''"
| "sentinel_text ErrLockWaitInterrupted = ''interrupted while waiting for the lock''"
| "sentinel_text ErrInvalidGrant = ''invalid grant''"
| "sentinel_text ErrNoGrants =
     ''token authenticates but holds no privileges anywhere (the ACL grant is missing or did not take effect)''"
| "sentinel_text ErrWrongScope = ''token'' @ [CHR 0x27] @ ''s grants do not cover what was requested''"
| "sentinel_text ErrScopeTooWide = ''token'' @ [CHR 0x27] @ ''s grants reach beyond what was requested''"
| "sentinel_text ErrInvalidPrincipal = ''invalid principal''"
| "sentinel_text ErrInvalidACLPath = ''invalid ACL path''"
| "sentinel_text ErrUnknownRole = ''the requested ACL role does not exist on PVE''"
| "sentinel_text ErrRoleHasNoPrivileges = ''the requested ACL role grants no privileges''"
| "sentinel_text ErrPinnedPrivsMismatch =
     ''a grant'' @ [CHR 0x27] @ ''s pinned privileges differ from its role'' @ [CHR 0x27] @ ''s privileges on PVE''"
| "sentinel_text ErrSelfGrant = ''refusing to grant to pveforge'' @ [CHR 0x27] @ ''s own principal''"
| "sentinel_text ErrEscalatingRole = ''refusing an escalating role''"
| "sentinel_text ErrUnknownGroup = ''no such group on PVE''"
| "sentinel_text ErrGrantNotConfirmed = ''the grant is not in the ACL list read back after it''"
| "sentinel_text ErrRootWriteOutcomeUnknown =
     ''the root write'' @ [CHR 0x27] @ ''s outcome is unknown: it may or may not have been applied; re-running is safe, since the command reads PVE'' @
     [CHR 0x27] @ ''s state before it writes and PVE merges a repeated grant''"
| "sentinel_text ErrNoCommandSent = ''no command was sent''"
| "sentinel_text ErrCommandTimedOut = ''ssh command timed out''"
| "sentinel_text CtxCanceled = ''context canceled''"
| "sentinel_text CtxDeadlineExceeded = ''context deadline exceeded''"

fun err_text :: "gerror \<Rightarrow> string" and frag_text :: "frag \<Rightarrow> string" where
  "err_text (Sentinel s) = sentinel_text s"
| "err_text (LibrarySentinel s t) = t"
| "err_text (ErrorString t) = t"
| "err_text (StatusError code status body what) =
     what @ '': pve returned '' @ status @ '': '' @ strings_TrimSpace body"
| "err_text (ProxmoxStatusError code status body) = status"
| "err_text (URLError t) = t"
| "err_text (SignalError t) = t"
| "err_text (TaskFailedError upid ex) = ''task '' @ upid @ '' failed: '' @ ex"
| "err_text (TaskOutcomeUnknown e) = err_text e"
| "err_text (CreatedNotFoundError vmid) =
     ''vm create: vm '' @ strconv_Itoa vmid @
     '': the create task succeeded but PVE then reported the vm does not exist''"
| "err_text (CloudInitCheckError e) = err_text e"
| "err_text (SnapshotExistsError vmid name) =
     ''snapshot '' @ strconv_Quote name @ '' already exists on vm '' @ strconv_Itoa vmid"
| "err_text (ReservedSnapshotNameError vmid name) =
     ''snapshot name '' @ strconv_Quote name @ '' is reserved on vm '' @ strconv_Itoa vmid @
     (if strings_EqualFold (strings_TrimSpace name) ''pending''
      then '': PVE keeps a VM'' @ [CHR 0x27] @ ''s pending changes in a config section of that name, so no snapshot can take it''
      else '': '' @ strconv_Quote ''current'' @ '' is PVE'' @ [CHR 0x27] @ ''s own pseudo-entry for the live running state, not a real snapshot'')"
| "err_text (NotNewestSnapshotError vmid target newer) =
     ''rollback vm '' @ strconv_Itoa vmid @ '' to snapshot '' @ strconv_Quote target @ '' refused: '' @
     strconv_Itoa (int (length newer)) @ '' newer '' @
     (if length newer = 1 then ''snapshot exists'' else ''snapshots exist'') @
     '' and would be discarded: '' @ join_with '', '' (map strconv_Quote newer)"
| "err_text (StorageDiffersError name desired actual) =
     ''storage create: storage '' @ strconv_Quote name @ '' already exists with a differing definition; refusing to change it (a future '' @
     [CHR 0x60] @ ''storage set'' @ [CHR 0x60] @ '' converges one deliberately). desired {'' @ desired @ ''}; actual '' @ actual"
| "err_text (ReadBackMismatchError kind ident got) =
     kind @ '' '' @ ident @ '' reads back as '' @ got @ '', not as requested''"
| "err_text (Errorf fs) = concat (map frag_text fs)"
| "frag_text (Lit t) = t"
| "frag_text (Dec i) = strconv_Itoa i"
| "frag_text (Quo t) = strconv_Quote t"
| "frag_text (Wrapped e) = err_text e"

text \<open>\<open>errors.Is\<close>: the sentinel anywhere in the tree of wrapped errors.\<close>

fun errors_Is :: "gerror \<Rightarrow> sentinel \<Rightarrow> bool" and frag_Is :: "frag \<Rightarrow> sentinel \<Rightarrow> bool" where
  "errors_Is (Sentinel s) t = (s = t \<or> s = ErrNoTaskStatus \<and> t = ErrUnverifiableRead)"
| "errors_Is (LibrarySentinel s u) t = (s = t)"
| "errors_Is (StatusError code status body what) t =
     (t = ErrNotAuthorized \<and> (code = 401 \<or> code = 403))"
| "errors_Is (TaskOutcomeUnknown e) t = errors_Is e t"
| "errors_Is (CloudInitCheckError e) t = errors_Is e t"
| "errors_Is (Errorf fs) t = list_ex (\<lambda>f. frag_Is f t) fs"
| "errors_Is _ t = False"
| "frag_Is (Wrapped e) t = errors_Is e t"
| "frag_Is _ t = False"

text \<open>
  \<open>errors.As\<close> for a target type, given as the function that recognises it: the first match in
  the pre-order of the tree of wrapped errors.
\<close>

fun errors_As :: "(gerror \<Rightarrow> 'a option) \<Rightarrow> gerror \<Rightarrow> 'a option"
  and frags_As :: "(gerror \<Rightarrow> 'a option) \<Rightarrow> frag list \<Rightarrow> 'a option" where
  "errors_As p e =
     (case p e of
        Some x \<Rightarrow> Some x
      | None \<Rightarrow> (case e of
            TaskOutcomeUnknown c \<Rightarrow> errors_As p c
          | CloudInitCheckError c \<Rightarrow> errors_As p c
          | Errorf fs \<Rightarrow> frags_As p fs
          | _ \<Rightarrow> None))"
| "frags_As p [] = None"
| "frags_As p (f # fs) =
     (case f of
        Wrapped c \<Rightarrow> (case errors_As p c of Some x \<Rightarrow> Some x | None \<Rightarrow> frags_As p fs)
      | _ \<Rightarrow> frags_As p fs)"

declare errors_As.simps [simp del]

lemmas [go_error] = errors_As.simps frags_As.simps

text \<open>The reading of an error by its text that several classifiers share.\<close>

definition err_mentions :: "string \<Rightarrow> gerror \<Rightarrow> bool" where
  "err_mentions t e \<longleftrightarrow> strings_Contains (err_text e) t"

section \<open>JSON\<close>

text \<open>
  A decoded JSON document.  A number keeps its literal; an array and an object keep their source
  text beside their decoded content, because \<open>json.RawMessage\<close> hands that text on as it came.
\<close>

datatype json =
    JNull
  | JBool bool
  | JNum string
  | JStr string
  | JArr string "json list"
  | JObj string "(string \<times> json) list"

fun raw_text :: "json \<Rightarrow> string" where
  "raw_text JNull = ''null''"
| "raw_text (JBool b) = (if b then ''true'' else ''false'')"
| "raw_text (JNum t) = t"
| "raw_text (JStr s) = strconv_Quote s"
| "raw_text (JArr t xs) = t"
| "raw_text (JObj t kvs) = t"

text \<open>The error of a \<open>json.Unmarshal\<close> into the wrong Go type (its text is not modelled).\<close>

definition json_type_error :: gerror where
  "json_type_error = ErrorString ''json: cannot unmarshal''"

text \<open>
  A decoded Go map: an association list with distinct keys, where the last of two equal keys wins.
\<close>

type_synonym 'v gomap = "(string \<times> 'v) list"

definition gomap_of :: "(string \<times> 'v) list \<Rightarrow> 'v gomap" where
  "gomap_of kvs = fold (\<lambda>(k, v) m. AList.update k v m) kvs []"

text \<open>
  \<open>json.Unmarshal\<close> into \<open>map[string]json.RawMessage\<close>: \<open>null\<close> leaves the nil map, which is
  read as the empty one; the flag says that the map is not nil.
\<close>

definition unmarshal_map :: "json \<Rightarrow> (bool \<times> json gomap) option" where
  "unmarshal_map j =
     (case j of JNull \<Rightarrow> Some (False, []) | JObj t kvs \<Rightarrow> Some (True, gomap_of kvs) | _ \<Rightarrow> None)"

definition unmarshal_string :: "json \<Rightarrow> string option" where
  "unmarshal_string j = (case j of JStr s \<Rightarrow> Some s | JNull \<Rightarrow> Some [] | _ \<Rightarrow> None)"

definition int_literal :: "string \<Rightarrow> int option" where
  "int_literal t =
     (case t of
        [] \<Rightarrow> None
      | c # cs \<Rightarrow>
          if c = CHR ''-''
          then (if cs = ''9223372036854775808'' then Some (- 9223372036854775808)
                else map_option (\<lambda>n. - int n) (atoi_digits cs))
          else map_option int (atoi_digits t))"

definition unmarshal_int :: "json \<Rightarrow> int option" where
  "unmarshal_int j = (case j of JNum t \<Rightarrow> int_literal t | JNull \<Rightarrow> Some 0 | _ \<Rightarrow> None)"

lemma distinct_gomap_of: "distinct (map fst (gomap_of kvs))"
proof -
  have "distinct (map fst (fold (\<lambda>(k, v) m. AList.update k v m) kvs m))"
    if "distinct (map fst m)" for m :: "'a gomap"
    using that by (induction kvs arbitrary: m) (auto simp: distinct_update)
  then show ?thesis by (simp add: gomap_of_def)
qed

lemma map_of_gomap_of: "map_of (gomap_of kvs) = map_of (rev kvs)"
proof -
  have "map_of (fold (\<lambda>(k, v) m. AList.update k v m) kvs m) = map_of m ++ map_of (rev kvs)"
    for m :: "'a gomap"
  proof (induction kvs arbitrary: m)
    case (Cons kv kvs)
    obtain k v where "kv = (k, v)" by force
    with Cons show ?case by (simp add: update_conv' map_add_upd_left [symmetric])
        (auto simp: map_add_def fun_eq_iff update_conv' map_of_append split: option.splits)
  qed simp
  from this [of "[]"] show ?thesis by (simp add: gomap_of_def)
qed

end
