(* ===== verification/Wire.thy ===== *)
theory Wire
  imports GoPrelude
begin

text \<open>
  The boundary of the program.  Everything pveforge does to the outside world is one of the
  events below: an HTTP request of its own client, a typed read through go-proxmox, a poll of a
  task, a wait on timers and on the context, an SSH dial, command, query (a command that only reads the
  state of a network link) or probe, a file lock.  The
  outside world is a parameter, \<open>env\<close>: for each kind of request a function from the history of
  all earlier events (with their answers) to the answer.  Any behaviour of PVE, of other writers
  and of the network is such a function, because the history says everything that happened
  before.  A run of the program is a computation in the state monad over a session, whose \<open>log\<close>
  is that history and whose \<open>ssh_open\<close> says whether the routed client holds an SSH connection.

  The second half is the small calculus the component proofs use: \<open>traces m T\<close> says that \<open>m\<close>
  only appends events to the log, and that the result and the appended events satisfy \<open>T\<close>;
  \<open>emits P m\<close> that every appended event satisfies \<open>P\<close>; \<open>frames m\<close> that \<open>m\<close> leaves the fields an
  operation keeps beside the session alone.
\<close>

section \<open>Requests, answers and events\<close>

datatype http_method = GET | POST | PUT | DELETE | OtherMethod string

type_synonym url_values = "string list gomap"

definition values_Get :: "url_values \<Rightarrow> string \<Rightarrow> string" where
  "values_Get vs k = (case map_of vs k of Some (v # _) \<Rightarrow> v | _ \<Rightarrow> [])"

definition values_Set :: "string \<Rightarrow> string \<Rightarrow> url_values \<Rightarrow> url_values" where
  "values_Set k v vs = AList.update k [v] vs"

datatype http_reply =
    HBuildError gerror
  | HDoError gerror
  | HReadError gerror
  | HAnswer int string string "json option"

text \<open>
  \<open>HAnswer code status body doc\<close>: the status code and line, the body, and the JSON document the
  body denotes, if it denotes one.
\<close>

record vm_status_reply =
  vs_status :: string
  vs_qmpstatus :: string
  vs_rest :: string

record vm_config =
  vc_tags :: string
  vc_digest :: string
  vc_hookscript :: string
  vc_rest :: string

record cluster_resource =
  cr_type :: string
  cr_vmid :: nat
  cr_tags :: string
  cr_node :: string

record storage_status =
  st_type :: string
  st_shared :: int

record storage_content =
  sc_volid :: string
  sc_vmid :: nat

record content_entry =
  ce_content :: string
  ce_storage :: "storage_content option"

record snapshot =
  sn_name :: string
  sn_snaptime :: int
  sn_vmstate :: int

record task_status =
  ts_status :: string
  ts_exitstatus :: string

datatype select_reply = SelCtxDone gerror | SelDeadline | SelTick

record ssh_result =
  sr_stdout :: string
  sr_stderr :: string
  sr_exit :: int

datatype lock_mode = Exclusive | Shared

datatype lock_reply = Locked | NotLocked | LockFailed gerror

datatype event =
    EHttp http_method string url_values http_reply
  | EStatus string "gerror + vm_status_reply"
  | EConfig string "gerror + vm_config option"
  | EResources "gerror + cluster_resource option list option"
  | EStorage string "gerror + storage_status"
  | EContent string "gerror + content_entry option list option"
  | EVmList string "gerror + nat option list option"
  | EStorageConfig string "gerror + json gomap option"
  | EStoragePath string "gerror + string"
  | ENextID string "gerror + string"
  | ESnapshots string "gerror + snapshot option list option"
  | ETask string "gerror + task_status"
  | EWarnings string string string
  | ECtx "gerror option"
  | ESelect select_reply
  | EDial string "gerror option"
  | ESsh string "gerror + ssh_result"
  | EProbe bool
  | EQuery string "gerror + ssh_result"
  | EMkdir string "gerror option"
  | ELock string lock_mode lock_reply
  | EUnlock string "gerror option"

record env =
  e_http :: "event list \<Rightarrow> http_method \<Rightarrow> string \<Rightarrow> url_values \<Rightarrow> http_reply"
  e_status :: "event list \<Rightarrow> string \<Rightarrow> gerror + vm_status_reply"
  e_config :: "event list \<Rightarrow> string \<Rightarrow> gerror + vm_config option"
  e_resources :: "event list \<Rightarrow> gerror + cluster_resource option list option"
  e_storage :: "event list \<Rightarrow> string \<Rightarrow> gerror + storage_status"
  e_content :: "event list \<Rightarrow> string \<Rightarrow> gerror + content_entry option list option"
  e_vmlist :: "event list \<Rightarrow> string \<Rightarrow> gerror + nat option list option"
  e_sconfig :: "event list \<Rightarrow> string \<Rightarrow> gerror + json gomap option"
  e_spath :: "event list \<Rightarrow> string \<Rightarrow> gerror + string"
  e_nextid :: "event list \<Rightarrow> string \<Rightarrow> gerror + string"
  e_snapshots :: "event list \<Rightarrow> string \<Rightarrow> gerror + snapshot option list option"
  e_task :: "event list \<Rightarrow> string \<Rightarrow> gerror + task_status"
  e_ctx :: "event list \<Rightarrow> gerror option"
  e_select :: "event list \<Rightarrow> select_reply"
  e_dial :: "event list \<Rightarrow> string \<Rightarrow> gerror option"
  e_ssh :: "event list \<Rightarrow> string \<Rightarrow> gerror + ssh_result"
  e_probe :: "event list \<Rightarrow> bool"
  e_mkdir :: "event list \<Rightarrow> string \<Rightarrow> gerror option"
  e_lock :: "event list \<Rightarrow> string \<Rightarrow> lock_mode \<Rightarrow> lock_reply"
  e_unlock :: "event list \<Rightarrow> string \<Rightarrow> gerror option"
  e_bound_ran_out :: "event list \<Rightarrow> bool"
  e_cause :: "event list \<Rightarrow> gerror"
  e_lock_wait :: "int option"
  e_decrypt :: "string \<Rightarrow> gerror + string"
  e_pin :: "string \<Rightarrow> gerror option"
  e_timeout_text :: string
  e_sha256 :: "string \<Rightarrow> string"
  e_parse_node :: "string \<Rightarrow> string option"
  e_marshal_vm :: "vm_status_reply \<Rightarrow> vm_config \<Rightarrow> gerror + string"

record sess =
  log :: "event list"
  ssh_open :: bool

definition upper_hex_char :: "nat \<Rightarrow> char" where
  "upper_hex_char d = (if d < 10 then char_of (48 + d) else char_of (55 + d))"

definition url_PathEscape :: "string \<Rightarrow> string" where
  "url_PathEscape s =
     concat (map (\<lambda>c.
       if is_alnum c \<or> c \<in> set ''-_.~$&+=:@''
       then [c]
       else [CHR ''%'', upper_hex_char (of_char c div 16), upper_hex_char (of_char c mod 16)]) s)"

abbreviation ret :: "'a \<Rightarrow> ('s, 'a) state" where
  "ret \<equiv> State_Monad.return"

section \<open>The primitive effects\<close>

definition perform :: "(event list \<Rightarrow> 'x) \<Rightarrow> ('x \<Rightarrow> event) \<Rightarrow> ('r sess_scheme, 'x) state" where
  "perform ask ev = State (\<lambda>s. (ask (log s), s\<lparr>log := log s @ [ev (ask (log s))]\<rparr>))"

definition http_do :: "env \<Rightarrow> http_method \<Rightarrow> string \<Rightarrow> url_values \<Rightarrow> ('r sess_scheme, http_reply) state" where
  "http_do env m p f = perform (\<lambda>h. e_http env h m p f) (EHttp m p f)"

definition pc_status :: "env \<Rightarrow> string \<Rightarrow> ('r sess_scheme, gerror + vm_status_reply) state" where
  "pc_status env p = perform (\<lambda>h. e_status env h p) (EStatus p)"

definition pc_config :: "env \<Rightarrow> string \<Rightarrow> ('r sess_scheme, gerror + vm_config option) state" where
  "pc_config env p = perform (\<lambda>h. e_config env h p) (EConfig p)"

definition pc_resources :: "env \<Rightarrow> ('r sess_scheme, gerror + cluster_resource option list option) state" where
  "pc_resources env = perform (e_resources env) EResources"

definition pc_storage :: "env \<Rightarrow> string \<Rightarrow> ('r sess_scheme, gerror + storage_status) state" where
  "pc_storage env p = perform (\<lambda>h. e_storage env h p) (EStorage p)"

definition pc_content ::
    "env \<Rightarrow> string \<Rightarrow> ('r sess_scheme, gerror + content_entry option list option) state" where
  "pc_content env p = perform (\<lambda>h. e_content env h p) (EContent p)"

definition pc_vmlist :: "env \<Rightarrow> string \<Rightarrow> ('r sess_scheme, gerror + nat option list option) state" where
  "pc_vmlist env p = perform (\<lambda>h. e_vmlist env h p) (EVmList p)"

definition pc_sconfig :: "env \<Rightarrow> string \<Rightarrow> ('r sess_scheme, gerror + json gomap option) state" where
  "pc_sconfig env p = perform (\<lambda>h. e_sconfig env h p) (EStorageConfig p)"

definition pc_spath :: "env \<Rightarrow> string \<Rightarrow> ('r sess_scheme, gerror + string) state" where
  "pc_spath env p = perform (\<lambda>h. e_spath env h p) (EStoragePath p)"

definition pc_nextid :: "env \<Rightarrow> string \<Rightarrow> ('r sess_scheme, gerror + string) state" where
  "pc_nextid env p = perform (\<lambda>h. e_nextid env h p) (ENextID p)"

definition pc_snapshots ::
    "env \<Rightarrow> string \<Rightarrow> ('r sess_scheme, gerror + snapshot option list option) state" where
  "pc_snapshots env p = perform (\<lambda>h. e_snapshots env h p) (ESnapshots p)"

definition task_ping :: "env \<Rightarrow> string \<Rightarrow> ('r sess_scheme, gerror + task_status) state" where
  "task_ping env u = perform (\<lambda>h. e_task env h u) (ETask u)"

definition ctx_Err :: "env \<Rightarrow> ('r sess_scheme, gerror option) state" where
  "ctx_Err env = perform (e_ctx env) ECtx"

definition select_wait :: "env \<Rightarrow> ('r sess_scheme, select_reply) state" where
  "select_wait env = perform (e_select env) ESelect"

definition ssh_dial :: "env \<Rightarrow> string \<Rightarrow> ('r sess_scheme, gerror option) state" where
  "ssh_dial env a = perform (\<lambda>h. e_dial env h a) (EDial a)"

definition ssh_run :: "env \<Rightarrow> string \<Rightarrow> ('r sess_scheme, gerror + ssh_result) state" where
  "ssh_run env cmd = perform (\<lambda>h. e_ssh env h cmd) (ESsh cmd)"

definition ssh_probe :: "env \<Rightarrow> ('r sess_scheme, bool) state" where
  "ssh_probe env = perform (e_probe env) EProbe"

definition ssh_query :: "env \<Rightarrow> string \<Rightarrow> ('r sess_scheme, gerror + ssh_result) state" where
  "ssh_query env cmd = perform (\<lambda>h. e_ssh env h cmd) (EQuery cmd)"

definition os_MkdirAll :: "env \<Rightarrow> string \<Rightarrow> ('r sess_scheme, gerror option) state" where
  "os_MkdirAll env d = perform (\<lambda>h. e_mkdir env h d) (EMkdir d)"

definition flock_Try :: "env \<Rightarrow> string \<Rightarrow> lock_mode \<Rightarrow> ('r sess_scheme, lock_reply) state" where
  "flock_Try env f m = perform (\<lambda>h. e_lock env h f m) (ELock f m)"

definition flock_Unlock :: "env \<Rightarrow> string \<Rightarrow> ('r sess_scheme, gerror option) state" where
  "flock_Unlock env f = perform (\<lambda>h. e_unlock env h f) (EUnlock f)"

definition get_log :: "('r sess_scheme, event list) state" where
  "get_log = State (\<lambda>s. (log s, s))"

definition modify :: "('s \<Rightarrow> 's) \<Rightarrow> ('s, unit) state" where
  "modify f = State (\<lambda>s. ((), f s))"

definition note_event :: "event \<Rightarrow> ('r sess_scheme, unit) state" where
  "note_event e = perform (\<lambda>_. ()) (\<lambda>_. e)"

definition get_ssh_open :: "('r sess_scheme, bool) state" where
  "get_ssh_open = State (\<lambda>s. (ssh_open s, s))"

definition set_ssh_open :: "bool \<Rightarrow> ('r sess_scheme, unit) state" where
  "set_ssh_open b = State (\<lambda>s. ((), s\<lparr>ssh_open := b\<rparr>))"

section \<open>Reasoning about the log\<close>

named_theorems emits_intro \<open>rules that show which events a computation can append\<close>
named_theorems frames_intro \<open>rules that show that a computation leaves the operation's fields alone\<close>
named_theorems run_simps \<open>evaluation of computations on a given session\<close>

definition traces :: "('r sess_scheme, 'a) state \<Rightarrow> ('a \<Rightarrow> event list \<Rightarrow> bool) \<Rightarrow> bool" where
  "traces m T \<longleftrightarrow>
     (\<forall>s. \<exists>es. log (snd (run_state m s)) = log s @ es \<and> T (fst (run_state m s)) es)"

definition emits :: "(event \<Rightarrow> bool) \<Rightarrow> ('r sess_scheme, 'a) state \<Rightarrow> bool" where
  "emits P m \<longleftrightarrow> traces m (\<lambda>_ es. list_all P es)"

definition frames :: "('r sess_scheme, 'a) state \<Rightarrow> bool" where
  "frames m \<longleftrightarrow> (\<forall>s. sess.more (snd (run_state m s)) = sess.more s)"

lemma tracesD:
  assumes "traces m T" and "run_state m s = (r, s')"
  obtains es where "log s' = log s @ es" and "T r es"
  using assms unfolding traces_def by (metis fst_conv snd_conv)

lemma traces_runD:
  "traces m T \<Longrightarrow> run_state m s = (r, s') \<Longrightarrow> \<exists>es. log s' = log s @ es \<and> T r es"
  by (blast elim: tracesD)

lemma traces_mono: "traces m T \<Longrightarrow> (\<And>x es. T x es \<Longrightarrow> T' x es) \<Longrightarrow> traces m T'"
  unfolding traces_def by blast

lemma traces_return: "T x [] \<Longrightarrow> traces (State_Monad.return x) T"
  by (simp add: traces_def)

lemma traces_bind:
  assumes "traces m T1"
    and "\<And>x es. T1 x es \<Longrightarrow> traces (f x) (\<lambda>r fs. T r (es @ fs))"
  shows "traces (State_Monad.bind m f) T"
  unfolding traces_def
proof
  fix s
  obtain x s1 where m: "run_state m s = (x, s1)" by force
  with assms(1) obtain es where es: "log s1 = log s @ es" "T1 x es" by (rule tracesD)
  obtain r s2 where f: "run_state (f x) s1 = (r, s2)" by force
  with assms(2) [OF es(2)] obtain fs where "log s2 = log s1 @ fs" "T r (es @ fs)"
    by (rule tracesD)
  with m f es(1) show "\<exists>es. log (snd (run_state (State_Monad.bind m f) s)) = log s @ es
      \<and> T (fst (run_state (State_Monad.bind m f) s)) es"
    by simp
qed

lemma traces_perform: "(\<And>h. T (ask h) [ev (ask h)]) \<Longrightarrow> traces (perform ask ev) T"
  by (simp add: traces_def perform_def)

named_theorems traces_split \<open>case splits under \<open>traces\<close>\<close>

lemma traces_if [traces_split]:
  "(b \<Longrightarrow> traces m T) \<Longrightarrow> (\<not> b \<Longrightarrow> traces n T) \<Longrightarrow> traces (if b then m else n) T"
  by simp

lemma traces_case_sum [traces_split]:
  "(\<And>y. x = Inl y \<Longrightarrow> traces (f y) T) \<Longrightarrow> (\<And>y. x = Inr y \<Longrightarrow> traces (g y) T) \<Longrightarrow>
     traces (case x of Inl y \<Rightarrow> f y | Inr y \<Rightarrow> g y) T"
  by (cases x) auto

lemma traces_case_option [traces_split]:
  "(x = None \<Longrightarrow> traces m T) \<Longrightarrow> (\<And>y. x = Some y \<Longrightarrow> traces (f y) T) \<Longrightarrow>
     traces (case x of None \<Rightarrow> m | Some y \<Rightarrow> f y) T"
  by (cases x) auto

lemma traces_case_prod [traces_split]:
  "(\<And>y z. x = (y, z) \<Longrightarrow> traces (f y z) T) \<Longrightarrow> traces (case x of (y, z) \<Rightarrow> f y z) T"
  by (cases x) auto

lemma traces_case_select [traces_split]:
  "(\<And>e. x = SelCtxDone e \<Longrightarrow> traces (f e) T) \<Longrightarrow> (x = SelDeadline \<Longrightarrow> traces m T) \<Longrightarrow>
     (x = SelTick \<Longrightarrow> traces n T) \<Longrightarrow>
     traces (case x of SelCtxDone e \<Rightarrow> f e | SelDeadline \<Rightarrow> m | SelTick \<Rightarrow> n) T"
  by (cases x) auto

lemma traces_conj: "traces m T \<Longrightarrow> emits P m \<Longrightarrow> traces m (\<lambda>x es. T x es \<and> list_all P es)"
  unfolding traces_def emits_def by (metis same_append_eq)

lemma emitsD:
  assumes "emits P m" and "run_state m s = (r, s')"
  obtains es where "log s' = log s @ es" and "list_all P es"
  using assms unfolding emits_def by (blast elim: tracesD)

lemma emits_mono: "emits P m \<Longrightarrow> (\<And>e. P e \<Longrightarrow> Q e) \<Longrightarrow> emits Q m"
  unfolding emits_def by (erule traces_mono) (auto elim: list.pred_mono_strong)

lemma emits_return [emits_intro]: "emits P (State_Monad.return x)"
  unfolding emits_def by (rule traces_return) simp

lemma emits_bind [emits_intro]:
  "emits P m \<Longrightarrow> (\<And>x. emits P (f x)) \<Longrightarrow> emits P (State_Monad.bind m f)"
  unfolding emits_def by (rule traces_bind, assumption) (auto elim: traces_mono)

lemma emits_perform: "(\<And>x. P (ev x)) \<Longrightarrow> emits P (perform ask ev)"
  unfolding emits_def by (rule traces_perform) simp

lemma emits_if [emits_intro]:
  "(b \<Longrightarrow> emits P m) \<Longrightarrow> (\<not> b \<Longrightarrow> emits P n) \<Longrightarrow> emits P (if b then m else n)"
  by simp

lemma emits_case_option [emits_intro]:
  "(x = None \<Longrightarrow> emits P m) \<Longrightarrow> (\<And>y. x = Some y \<Longrightarrow> emits P (f y)) \<Longrightarrow>
     emits P (case x of None \<Rightarrow> m | Some y \<Rightarrow> f y)"
  by (cases x) auto

lemma emits_case_sum [emits_intro]:
  "(\<And>y. x = Inl y \<Longrightarrow> emits P (f y)) \<Longrightarrow> (\<And>y. x = Inr y \<Longrightarrow> emits P (g y)) \<Longrightarrow>
     emits P (case x of Inl y \<Rightarrow> f y | Inr y \<Rightarrow> g y)"
  by (cases x) auto

lemma emits_case_prod [emits_intro]:
  "(\<And>y z. x = (y, z) \<Longrightarrow> emits P (f y z)) \<Longrightarrow> emits P (case x of (y, z) \<Rightarrow> f y z)"
  by (cases x) auto

lemma emits_let [emits_intro]: "emits P (f x) \<Longrightarrow> emits P (let y = x in f y)"
  by simp

lemma emits_case_reply [emits_intro]:
  assumes "\<And>e. x = HBuildError e \<Longrightarrow> emits P (f1 e)" and "\<And>e. x = HDoError e \<Longrightarrow> emits P (f2 e)"
    and "\<And>e. x = HReadError e \<Longrightarrow> emits P (f3 e)"
    and "\<And>c st b j. x = HAnswer c st b j \<Longrightarrow> emits P (f4 c st b j)"
  shows "emits P (case x of HBuildError e \<Rightarrow> f1 e | HDoError e \<Rightarrow> f2 e | HReadError e \<Rightarrow> f3 e
                  | HAnswer c st b j \<Rightarrow> f4 c st b j)"
  using assms by (cases x) auto

lemma framesD: "frames m \<Longrightarrow> run_state m s = (r, s') \<Longrightarrow> sess.more s' = sess.more s"
  unfolding frames_def by (metis snd_conv)

lemma frames_return [frames_intro]: "frames (State_Monad.return x)"
  by (simp add: frames_def)

lemma frames_bind [frames_intro]:
  "frames m \<Longrightarrow> (\<And>x. frames (f x)) \<Longrightarrow> frames (State_Monad.bind m f)"
  unfolding frames_def by (auto split: prod.splits) (metis snd_conv)

lemma frames_perform [frames_intro]: "frames (perform ask ev)"
  by (simp add: frames_def perform_def)

lemma frames_if [frames_intro]: "frames m \<Longrightarrow> frames n \<Longrightarrow> frames (if b then m else n)"
  by simp

lemma frames_case_option [frames_intro]:
  "frames m \<Longrightarrow> (\<And>y. frames (f y)) \<Longrightarrow> frames (case x of None \<Rightarrow> m | Some y \<Rightarrow> f y)"
  by (cases x) auto

lemma frames_case_sum [frames_intro]:
  "(\<And>y. frames (f y)) \<Longrightarrow> (\<And>y. frames (g y)) \<Longrightarrow> frames (case x of Inl y \<Rightarrow> f y | Inr y \<Rightarrow> g y)"
  by (cases x) auto

lemma frames_case_prod [frames_intro]:
  "(\<And>y z. frames (f y z)) \<Longrightarrow> frames (case x of (y, z) \<Rightarrow> f y z)"
  by (cases x) auto

lemma frames_let [frames_intro]: "frames (f x) \<Longrightarrow> frames (let y = x in f y)"
  by simp

lemma frames_case_reply [frames_intro]:
  assumes "\<And>e. frames (f1 e)" and "\<And>e. frames (f2 e)" and "\<And>e. frames (f3 e)"
    and "\<And>c st b j. frames (f4 c st b j)"
  shows "frames (case x of HBuildError e \<Rightarrow> f1 e | HDoError e \<Rightarrow> f2 e | HReadError e \<Rightarrow> f3 e
                 | HAnswer c st b j \<Rightarrow> f4 c st b j)"
  using assms by (cases x) auto

subsection \<open>The primitives\<close>

lemmas primitive_defs =
  http_do_def pc_status_def pc_config_def pc_resources_def pc_storage_def pc_nextid_def pc_snapshots_def pc_content_def pc_vmlist_def pc_sconfig_def pc_spath_def
  task_ping_def ctx_Err_def select_wait_def ssh_dial_def ssh_run_def ssh_probe_def ssh_query_def note_event_def
  os_MkdirAll_def flock_Try_def flock_Unlock_def

lemma frames_primitives [frames_intro]:
  "frames (http_do env m p f)" "frames (pc_status env p)" "frames (pc_config env p)"
  "frames (pc_resources env)" "frames (pc_storage env p)" "frames (pc_nextid env p)" "frames (pc_snapshots env p)"
  "frames (pc_content env p)" "frames (pc_vmlist env p)" "frames (pc_sconfig env p)" "frames (pc_spath env p)"
  "frames (task_ping env p)" "frames (ctx_Err env)" "frames (select_wait env)"
  "frames (ssh_dial env p)" "frames (ssh_run env p)" "frames (ssh_probe env)" "frames (ssh_query env p)" "frames (note_event e)"
  "frames (os_MkdirAll env p)" "frames (flock_Try env p md)" "frames (flock_Unlock env p)"
  unfolding primitive_defs by (rule frames_perform)+

lemma frames_ssh_open [frames_intro]: "frames get_ssh_open" "frames (set_ssh_open b)"
  by (simp_all add: frames_def get_ssh_open_def set_ssh_open_def)

lemma frames_get_log [frames_intro]: "frames get_log"
  by (simp add: frames_def get_log_def)

lemma emits_get_log [emits_intro]: "emits P get_log"
  by (simp add: emits_def traces_def get_log_def)

lemma traces_get_log: "traces get_log (\<lambda>x es. es = [])"
  by (simp add: traces_def get_log_def)

lemma traces_modify: "(\<And>s. log (f s) = log s) \<Longrightarrow> traces (modify f) (\<lambda>_ es. es = [])"
  by (simp add: traces_def modify_def)

lemma emits_modify [emits_intro]: "(\<And>s. log (f s) = log s) \<Longrightarrow> emits P (modify f)"
  by (simp add: emits_def traces_def modify_def)

lemma emits_ssh_open [emits_intro]: "emits P get_ssh_open" "emits P (set_ssh_open b)"
  by (simp_all add: emits_def traces_def get_ssh_open_def set_ssh_open_def)

text \<open>
  The predicates on events: what mutates the target (a non-GET request or an SSH command), what
  only reads, what belongs to the locks.
\<close>

fun is_write :: "event \<Rightarrow> bool" where
  "is_write (EHttp m p f a) = (m \<noteq> GET)"
| "is_write (ESsh c a) = True"
| "is_write _ = False"

fun is_lock_event :: "event \<Rightarrow> bool" where
  "is_lock_event (EMkdir p a) = True"
| "is_lock_event (ELock p m a) = True"
| "is_lock_event (EUnlock p a) = True"
| "is_lock_event _ = False"

definition reads :: "event \<Rightarrow> bool" where
  "reads e \<longleftrightarrow> \<not> is_write e \<and> \<not> is_lock_event e"

definition remote :: "event \<Rightarrow> bool" where
  "remote e \<longleftrightarrow> \<not> is_lock_event e"

lemma reads_remote: "reads e \<Longrightarrow> remote e"
  by (simp add: reads_def remote_def)

lemma emits_reads_remote: "emits reads m \<Longrightarrow> emits remote m"
  by (erule emits_mono) (rule reads_remote)

lemma emits_reads_primitives [emits_intro]:
  "emits reads (http_do env GET p f)" "emits reads (pc_status env p)" "emits reads (pc_config env p)"
  "emits reads (pc_resources env)" "emits reads (pc_storage env p)" "emits reads (pc_nextid env p)" "emits reads (pc_snapshots env p)"
  "emits reads (pc_content env p)" "emits reads (pc_vmlist env p)" "emits reads (pc_sconfig env p)" "emits reads (pc_spath env p)"
  "emits reads (task_ping env p)" "emits reads (ctx_Err env)" "emits reads (select_wait env)"
  "emits reads (ssh_dial env p)" "emits reads (ssh_probe env)" "emits reads (ssh_query env p)"
  unfolding primitive_defs by (auto intro!: emits_perform simp: reads_def)

lemma emits_ssh_probe: "emits reads (ssh_probe env)"
  by (rule emits_reads_primitives)

lemma emits_remote_primitives [emits_intro]:
  "emits remote (http_do env m p f)" "emits remote (pc_status env p)" "emits remote (pc_config env p)"
  "emits remote (pc_resources env)" "emits remote (pc_storage env p)" "emits remote (pc_nextid env p)" "emits remote (pc_snapshots env p)"
  "emits remote (pc_content env p)" "emits remote (pc_vmlist env p)" "emits remote (pc_sconfig env p)" "emits remote (pc_spath env p)"
  "emits remote (task_ping env p)" "emits remote (ctx_Err env)" "emits remote (select_wait env)"
  "emits remote (ssh_dial env p)" "emits remote (ssh_run env p)" "emits remote (ssh_probe env)" "emits remote (ssh_query env p)"
  unfolding primitive_defs by (auto intro!: emits_perform simp: remote_def)

text \<open>Evaluation: running a primitive on a session.\<close>

lemma run_perform [run_simps]:
  "run_state (perform ask ev) s = (ask (log s), s\<lparr>log := log s @ [ev (ask (log s))]\<rparr>)"
  by (simp add: perform_def)

lemma run_ssh_open [run_simps]:
  "run_state get_ssh_open s = (ssh_open s, s)"
  "run_state (set_ssh_open b) s = ((), s\<lparr>ssh_open := b\<rparr>)"
  by (simp_all add: get_ssh_open_def set_ssh_open_def)

lemma run_modify [run_simps]: "run_state (modify f) s = ((), f s)"
  by (simp add: modify_def)

lemma run_get_log [run_simps]: "run_state get_log s = (log s, s)"
  by (simp add: get_log_def)


section \<open>Reasoning about the log and the fields\<close>

text \<open>
  \<open>runs s m \<Psi>\<close>: from the session \<open>s\<close>, \<open>m\<close> only appends events to the log, and the result, the
  session it ends in and the appended events satisfy \<open>\<Psi>\<close>.
\<close>

definition runs ::
    "'r sess_scheme \<Rightarrow> ('r sess_scheme, 'a) state \<Rightarrow> ('a \<Rightarrow> 'r sess_scheme \<Rightarrow> event list \<Rightarrow> bool) \<Rightarrow> bool" where
  "runs s m Psi \<longleftrightarrow>
     (\<exists>es. log (snd (run_state m s)) = log s @ es \<and> Psi (fst (run_state m s)) (snd (run_state m s)) es)"

lemma runsD: "runs s m Psi \<Longrightarrow> run_state m s = (r, s') \<Longrightarrow> \<exists>es. log s' = log s @ es \<and> Psi r s' es"
  by (simp add: runs_def)

lemma runs_mono: "runs s m Psi \<Longrightarrow> (\<And>x s' es. Psi x s' es \<Longrightarrow> Psi' x s' es) \<Longrightarrow> runs s m Psi'"
  unfolding runs_def by blast

lemma runs_return: "Psi x s [] \<Longrightarrow> runs s (State_Monad.return x) Psi"
  by (simp add: runs_def)

lemma runs_bind:
  "runs s m (\<lambda>x s1 es. runs s1 (f x) (\<lambda>r s2 fs. Psi r s2 (es @ fs))) \<Longrightarrow> runs s (State_Monad.bind m f) Psi"
  by (auto simp: runs_def split: prod.splits)

lemma runs_get: "Psi s s [] \<Longrightarrow> runs s State_Monad.get Psi"
  by (simp add: runs_def State_Monad.get_def)

lemma runs_modify: "log (f s) = log s \<Longrightarrow> Psi () (f s) [] \<Longrightarrow> runs s (modify f) Psi"
  by (simp add: runs_def modify_def)

lemma runs_traces:
  assumes "traces m T" and "frames m"
    and "\<And>x s1 es. T x es \<Longrightarrow> sess.more s1 = sess.more s \<Longrightarrow> Psi x s1 es"
  shows "runs s m Psi"
  using assms unfolding runs_def traces_def frames_def by blast

lemma traces_runs: "(\<And>s. runs s m (\<lambda>r s' es. T r es)) \<Longrightarrow> traces m T"
  unfolding runs_def traces_def by blast

named_theorems runs_split \<open>case splits under \<open>runs\<close>\<close>

lemma runs_if [runs_split]:
  "(b \<Longrightarrow> runs s m Psi) \<Longrightarrow> (\<not> b \<Longrightarrow> runs s n Psi) \<Longrightarrow> runs s (if b then m else n) Psi"
  by simp

lemma runs_case_sum [runs_split]:
  "(\<And>y. x = Inl y \<Longrightarrow> runs s (f y) Psi) \<Longrightarrow> (\<And>y. x = Inr y \<Longrightarrow> runs s (g y) Psi) \<Longrightarrow>
     runs s (case x of Inl y \<Rightarrow> f y | Inr y \<Rightarrow> g y) Psi"
  by (cases x) auto

lemma runs_case_option [runs_split]:
  "(x = None \<Longrightarrow> runs s m Psi) \<Longrightarrow> (\<And>y. x = Some y \<Longrightarrow> runs s (f y) Psi) \<Longrightarrow>
     runs s (case x of None \<Rightarrow> m | Some y \<Rightarrow> f y) Psi"
  by (cases x) auto

lemma runs_case_prod [runs_split]:
  "(\<And>y z. x = (y, z) \<Longrightarrow> runs s (f y z) Psi) \<Longrightarrow> runs s (case x of (y, z) \<Rightarrow> f y z) Psi"
  by (cases x) auto

section \<open>A calm world\<close>

text \<open>
  A concrete environment and session for the examples: every request is answered with success, a
  VM is stopped and has an empty config, every lock is free.  Examples change the fields they need.
\<close>

definition calm :: env where
  "calm = \<lparr>
     e_http = (\<lambda>_ _ _ _. HAnswer 200 ''200 OK'' ''{}'' (Some (JObj ''{}'' []))),
     e_status = (\<lambda>_ _. Inr \<lparr>vs_status = ''stopped'', vs_qmpstatus = ''stopped'', vs_rest = []\<rparr>),
     e_config = (\<lambda>_ _. Inr (Some \<lparr>vc_tags = [], vc_digest = ''d1'', vc_hookscript = [], vc_rest = []\<rparr>)),
     e_resources = (\<lambda>_. Inr (Some [])),
     e_storage = (\<lambda>_ _. Inr \<lparr>st_type = ''lvmthin'', st_shared = 0\<rparr>),
     e_content = (\<lambda>_ _. Inr (Some [])),
     e_vmlist = (\<lambda>_ _. Inr (Some [])),
     e_sconfig = (\<lambda>_ _. Inr (Some [])),
     e_spath = (\<lambda>_ _. Inr ''/var/lib/vz''),
     e_nextid = (\<lambda>_ _. Inr ''100''),
     e_snapshots = (\<lambda>_ _. Inr (Some [Some \<lparr>sn_name = ''current'', sn_snaptime = 0, sn_vmstate = 0\<rparr>])),
     e_task = (\<lambda>_ _. Inr \<lparr>ts_status = ''stopped'', ts_exitstatus = ''OK''\<rparr>),
     e_ctx = (\<lambda>_. None),
     e_select = (\<lambda>_. SelTick),
     e_dial = (\<lambda>_ _. None),
     e_ssh = (\<lambda>_ _. Inr \<lparr>sr_stdout = [], sr_stderr = [], sr_exit = 0\<rparr>),
     e_probe = (\<lambda>_. True),
     e_mkdir = (\<lambda>_ _. None),
     e_lock = (\<lambda>_ _ _. Locked),
     e_unlock = (\<lambda>_ _. None),
     e_bound_ran_out = (\<lambda>_. False),
     e_cause = (\<lambda>_. Sentinel CtxCanceled),
     e_lock_wait = None,
     e_decrypt = Inr,
     e_pin = (\<lambda>_. None),
     e_timeout_text = ''timeout'',
     e_sha256 = rev,
     e_parse_node = (\<lambda>_. Some ''pve1''),
     e_marshal_vm = (\<lambda>st c. Inr (vs_status st @ vc_rest c))\<rparr>"

text \<open>A request of a method, for the worlds that answer by what was asked before.\<close>

fun is_request :: "http_method \<Rightarrow> event \<Rightarrow> bool" where
  "is_request m (EHttp m' p f a) = (m = m')"
| "is_request m _ = False"

definition fresh :: sess where
  "fresh = \<lparr>log = [], ssh_open = False\<rparr>"

lemma calm_simps [simp]:
  "e_http calm h mt p f = HAnswer 200 ''200 OK'' ''{}'' (Some (JObj ''{}'' []))"
  "e_status calm h p = Inr \<lparr>vs_status = ''stopped'', vs_qmpstatus = ''stopped'', vs_rest = []\<rparr>"
  "e_config calm h p = Inr (Some \<lparr>vc_tags = [], vc_digest = ''d1'', vc_hookscript = [], vc_rest = []\<rparr>)"
  "e_resources calm h = Inr (Some [])" "e_storage calm h p = Inr \<lparr>st_type = ''lvmthin'', st_shared = 0\<rparr>"
  "e_content calm h p = Inr (Some [])" "e_vmlist calm h p = Inr (Some [])"
  "e_sconfig calm h p = Inr (Some [])" "e_spath calm h p = Inr ''/var/lib/vz''"
  "e_nextid calm h p = Inr ''100''"
  "e_snapshots calm h p = Inr (Some [Some \<lparr>sn_name = ''current'', sn_snaptime = 0, sn_vmstate = 0\<rparr>])"
  "e_task calm h p = Inr \<lparr>ts_status = ''stopped'', ts_exitstatus = ''OK''\<rparr>"
  "e_ctx calm h = None" "e_select calm h = SelTick" "e_dial calm h p = None"
  "e_ssh calm h p = Inr \<lparr>sr_stdout = [], sr_stderr = [], sr_exit = 0\<rparr>"
  "e_probe calm h = True" "e_mkdir calm h p = None" "e_lock calm h p md = Locked"
  "e_unlock calm h p = None" "e_bound_ran_out calm h = False" "e_lock_wait calm = None"
  "e_decrypt calm p = Inr p" "e_pin calm p = None" "e_timeout_text calm = ''timeout''"
  "e_parse_node calm p = Some ''pve1''"
  by (simp_all add: calm_def)

lemma fresh_simps [simp]: "log fresh = []" "ssh_open fresh = False"
  by (simp_all add: fresh_def)

end
