(* ===== verification/ShellLine.thy ===== *)
theory ShellLine
  imports GoPrelude
begin

text \<open>
  Shell command lines (\<open>internal/sshexec/shellquote.go\<close> and the field-name check of
  \<open>rootfields.go\<close>), and a reader of POSIX shell words to judge them by.
\<close>

section \<open>Shell command lines\<close>

definition ShellQuote :: "string \<Rightarrow> string" where
  "ShellQuote s =
     CHR 0x27 # concat (map (\<lambda>c. if c = CHR 0x27 then [CHR 0x27, CHR 0x5C, CHR 0x27, CHR 0x27] else [c]) s)
       @ [CHR 0x27]"

definition isValidFieldName :: "string \<Rightarrow> bool" where
  "isValidFieldName s \<longleftrightarrow> s \<noteq> [] \<and> list_all (\<lambda>c. is_alnum c \<or> c = CHR ''_'') s"

section \<open>The command line as a shell reads it\<close>

text \<open>
  A reader of POSIX shell words, the reference for \<open>ShellQuote\<close>: single quotes keep everything
  up to the next one, a backslash keeps the next character, a space ends a word, and any other
  unquoted character that could mean something to a shell makes the line more than plain words.
  The arguments: inside quotes, a word is open, the word so far.
\<close>

definition shell_plain :: "char \<Rightarrow> bool" where
  "shell_plain c \<longleftrightarrow> is_alnum c \<or> c \<in> set ''-_./=:,@%+''"

fun shell_words :: "bool \<Rightarrow> bool \<Rightarrow> string \<Rightarrow> string \<Rightarrow> string list option" where
  "shell_words True opened w [] = None"
| "shell_words False opened w [] = Some (if opened then [w] else [])"
| "shell_words True opened w (c # cs) =
     (if c = CHR 0x27 then shell_words False True w cs else shell_words True True (w @ [c]) cs)"
| "shell_words False opened w (c # cs) =
     (if c = CHR 0x27 then shell_words True True w cs
      else if c = CHR 0x5C then
        (case cs of [] \<Rightarrow> None | d # ds \<Rightarrow> shell_words False True (w @ [d]) ds)
      else if c = CHR 0x20 then
        (if opened then map_option ((#) w) (shell_words False False [] cs)
         else shell_words False False [] cs)
      else if shell_plain c then shell_words False True (w @ [c]) cs
      else None)"

lemma shell_words_quoted:
  "shell_words True True w
     (concat (map (\<lambda>c. if c = CHR 0x27 then [CHR 0x27, CHR 0x5C, CHR 0x27, CHR 0x27] else [c]) s)
        @ CHR 0x27 # cs) = shell_words False True (w @ s) cs"
  by (induction s arbitrary: w) auto

lemma shell_words_ShellQuote:
  "shell_words False opened w (ShellQuote s @ cs) = shell_words False True (w @ s) cs"
  by (simp add: ShellQuote_def shell_words_quoted)

lemma shell_words_plain:
  "list_all shell_plain s \<Longrightarrow> s \<noteq> [] \<Longrightarrow> shell_words False opened w (s @ cs) = shell_words False True (w @ s) cs"
proof (induction s arbitrary: w opened)
  case (Cons c s)
  have "c \<noteq> CHR 0x27 \<and> c \<noteq> CHR 0x5C \<and> c \<noteq> CHR 0x20"
    using Cons.prems(1) by (auto simp: shell_plain_def is_alnum_def is_digit_def)
  with Cons show ?case by (cases "s = []") auto
qed simp

lemma shell_words_word:
  assumes "list_all shell_plain s" and "s \<noteq> []"
  shows "shell_words False False [] (s @ CHR 0x20 # cs) = map_option ((#) s) (shell_words False False [] cs)"
  by (simp only: shell_words_plain [OF assms]) simp

lemma shell_words_quoted_word:
  "shell_words False False [] (ShellQuote s @ CHR 0x20 # cs) = map_option ((#) s) (shell_words False False [] cs)"
  by (simp only: shell_words_ShellQuote) simp

lemma shell_words_last: "shell_words False False [] (ShellQuote s) = Some [s]"
  using shell_words_ShellQuote [of False "[]" s "[]"] by simp

lemma append_not_Nil: "(c # s) @ t \<noteq> []"
  by simp

lemma valid_field_plain: "isValidFieldName f \<Longrightarrow> list_all shell_plain f"
  by (auto simp: isValidFieldName_def shell_plain_def elim: list.pred_mono_strong)


lemma isValidFieldName_nonempty: "isValidFieldName f \<Longrightarrow> f \<noteq> []"
  by (simp add: isValidFieldName_def)

end
