(* ===== verification/LockFile.thy ===== *)
theory LockFile
  imports Wire ShellLine
begin

text \<open>
  The per-object lock of \<open>internal/lock/lock.go\<close>.  The first half is the code: the file names of a
  key, the acquisition of the two files, \<open>Mutation\<close> and \<open>Read\<close>.  The second half sets any number
  of lock sessions side by side over a kernel lock table.  A session is one call of \<open>Mutation\<close> or
  \<open>Read\<close> with the open files it made, and its position moves with its own events exactly as the
  code emits them (\<open>traces_Mutation\<close>, \<open>traces_Read\<close>); the kernel grants a lock by the rules of
  flock(2).  Over every history that interleaves the events of runs of \<open>Mutation\<close> and \<open>Read\<close> under
  these rules: mutual exclusion.  Over every interleaving of moves of the positions: what the
  turnstile gives a waiting writer.
\<close>

section \<open>Names of the lock files\<close>

record object_key =
  ok_target_id :: string
  ok_kind :: string
  ok_id :: string

definition key_String :: "object_key \<Rightarrow> string" where
  "key_String k = ok_target_id k @ ''/'' @ ok_kind k @ ''/'' @ ok_id k"

definition is_safe_char :: "char \<Rightarrow> bool" where
  "is_safe_char c \<longleftrightarrow> is_alnum c \<or> c = CHR ''-'' \<or> c = CHR ''_'' \<or> c = CHR ''.''"

fun sanitize_runes :: "string \<Rightarrow> string" where
  "sanitize_runes [] = []"
| "sanitize_runes (c # cs) =
     (if is_safe_char c then c else CHR ''_'') # sanitize_runes (drop (rune_width (c # cs) - 1) cs)"

definition sanitizePart :: "string \<Rightarrow> string" where
  "sanitizePart s = (if sanitize_runes s = [] then ''_'' else sanitize_runes s)"

definition sanitizeKey :: "object_key \<Rightarrow> string" where
  "sanitizeKey key =
     sanitizePart (ok_target_id key) @ ''__'' @ sanitizePart (ok_kind key) @ ''__'' @ sanitizePart (ok_id key)"

text \<open>\<open>filepath.Clean\<close>, \<open>filepath.Join\<close> and \<open>filepath.Dir\<close> on slash-separated paths.\<close>

fun clean_parts :: "bool \<Rightarrow> string list \<Rightarrow> string list \<Rightarrow> string list" where
  "clean_parts rooted kept [] = rev kept"
| "clean_parts rooted kept (p # ps) =
     (if p = [] \<or> p = ''.'' then clean_parts rooted kept ps
      else if p = ''..'' then
        (case kept of
           k # ks \<Rightarrow> if k = ''..'' then clean_parts rooted (p # kept) ps else clean_parts rooted ks ps
         | [] \<Rightarrow> clean_parts rooted (if rooted then [] else [p]) ps)
      else clean_parts rooted (p # kept) ps)"

definition filepath_Clean :: "string \<Rightarrow> string" where
  "filepath_Clean path =
     (let rooted = (path \<noteq> [] \<and> hd path = CHR ''/'');
          out = strings_Join (clean_parts rooted [] (strings_Split path CHR ''/'')) CHR ''/''
      in if rooted then CHR ''/'' # out else if out = [] then ''.'' else out)"

definition filepath_Join2 :: "string \<Rightarrow> string \<Rightarrow> string" where
  "filepath_Join2 a b =
     (if a = [] \<and> b = [] then [] else if a = [] then filepath_Clean b
      else if b = [] then filepath_Clean a else filepath_Clean (a @ CHR ''/'' # b))"

definition filepath_Dir :: "string \<Rightarrow> string" where
  "filepath_Dir p = filepath_Clean (rev (dropWhile (\<lambda>c. c \<noteq> CHR ''/'') (rev p)))"

record key_files =
  kf_service_queue :: string
  kf_resource :: string

definition filesFor :: "string \<Rightarrow> object_key \<Rightarrow> key_files" where
  "filesFor rosterPath key =
     (let dir = rosterPath @ ''.locks''; stem = filepath_Join2 dir (sanitizeKey key)
      in \<lparr>kf_service_queue = stem @ ''.queue.lock'', kf_resource = stem @ ''.resource.lock''\<rparr>)"

section \<open>Acquisition\<close>

text \<open>
  The bound on an acquisition, in seconds; the timer that runs it is the environment's.
\<close>

definition DefaultWait :: int where
  "DefaultWait = 15 * 60"

definition waitBound :: "int option \<Rightarrow> int" where
  "waitBound ctx_value = (case ctx_value of Some d \<Rightarrow> if d > 0 then d else DefaultWait | None \<Rightarrow> DefaultWait)"

definition queuedText :: string where
  "queuedText = ''another mutation is queued for or holds this object''"

definition heldText :: string where
  "heldText = ''it is held by another command''"

definition acquire :: "env \<Rightarrow> string \<Rightarrow> bool \<Rightarrow> ('r sess_scheme, gerror option) state" where
  "acquire env l shared = do {
     r \<leftarrow> flock_Try env l (if shared then Shared else Exclusive);
     ret (case r of
         LockFailed e \<Rightarrow> Some e
       | NotLocked \<Rightarrow> Some (Errorf [Lit ''flock reported neither a lock nor an error for '', Lit l])
       | Locked \<Rightarrow> None)
   }"

definition duration_String :: "int \<Rightarrow> string" where
  "duration_String d =
     (if d \<ge> 3600 then strconv_Itoa (d div 3600) @ ''h'' else []) @
     (if d \<ge> 60 then strconv_Itoa (d mod 3600 div 60) @ ''m'' else []) @
     strconv_Itoa (d mod 60) @ ''s''"

definition is_signal :: "gerror \<Rightarrow> bool" where
  "is_signal e \<longleftrightarrow> errors_As (\<lambda>x. case x of SignalError t \<Rightarrow> Some () | _ \<Rightarrow> None) e \<noteq> None"

definition lock_error :: "object_key \<Rightarrow> frag list \<Rightarrow> gerror" where
  "lock_error key what = Errorf ([Lit ''lock '', Lit (key_String key), Lit '': ''] @ what)"

definition nil_frag :: "gerror option \<Rightarrow> frag" where
  "nil_frag e = (case e of Some e \<Rightarrow> Wrapped e | None \<Rightarrow> Lit ''%!w(<nil>)'')"

definition acquireErr ::
    "env \<Rightarrow> object_key \<Rightarrow> int \<Rightarrow> string \<Rightarrow> string \<Rightarrow> string \<Rightarrow> gerror \<Rightarrow> ('r sess_scheme, gerror) state" where
  "acquireErr env key bound l behind step err = do {
     ctx1 \<leftarrow> ctx_Err env;
     h1 \<leftarrow> get_log;
     if ctx1 = None \<and> e_bound_ran_out env h1 then
       ret (lock_error key [Wrapped (Sentinel ErrLockWaitTimeout), Lit '' after '', Lit (duration_String bound),
         Lit '' (the lock-wait bound, --lock-wait): '', Lit behind,
         Lit ''; pveforge records no holder: fuser -v '', Lit (ShellQuote l),
         Lit '' lists the processes with it open, holders and waiters alike''])
     else do {
       ctx2 \<leftarrow> ctx_Err env;
       h2 \<leftarrow> get_log;
       if ctx2 \<noteq> None \<and> is_signal (e_cause env h2) then do {
         ctx3 \<leftarrow> ctx_Err env;
         ret (lock_error key [Wrapped (Sentinel ErrLockWaitInterrupted), Lit '' ('', Wrapped (e_cause env h2),
           Lit ''); the operation did not start under it: '', nil_frag ctx3])
       }
       else ret (lock_error key [Lit step, Lit '': '', Wrapped err])
     }
   }"

definition ensureLockDir ::
    "env \<Rightarrow> string \<Rightarrow> object_key \<Rightarrow> ('r sess_scheme, gerror + key_files) state" where
  "ensureLockDir env rosterPath key = do {
     let kf = filesFor rosterPath key;
     r \<leftarrow> os_MkdirAll env (filepath_Dir (kf_resource kf));
     ret (case r of
         Some e \<Rightarrow> Inl (lock_error key [Lit ''create lock directory: '', Wrapped e])
       | None \<Rightarrow> Inr kf)
   }"

text \<open>\<open>Mutation\<close> and \<open>Read\<close> return the resource file that the returned unlock releases.\<close>

definition Mutation ::
    "env \<Rightarrow> string \<Rightarrow> object_key \<Rightarrow> ('r sess_scheme, gerror + string) state" where
  "Mutation env rosterPath key = do {
     dir \<leftarrow> ensureLockDir env rosterPath key;
     case dir of Inl e \<Rightarrow> ret (Inl e) | Inr kf \<Rightarrow> do {
       let bound = waitBound (e_lock_wait env);
       q \<leftarrow> acquire env (kf_service_queue kf) False;
       case q of
         Some err \<Rightarrow> do {
           e \<leftarrow> acquireErr env key bound (kf_service_queue kf) queuedText ''acquire service queue'' err;
           ret (Inl e) }
       | None \<Rightarrow> do {
           res \<leftarrow> acquire env (kf_resource kf) False;
           case res of
             Some err \<Rightarrow> do {
               _ \<leftarrow> flock_Unlock env (kf_service_queue kf);
               e \<leftarrow> acquireErr env key bound (kf_resource kf) heldText ''acquire resource'' err;
               ret (Inl e) }
           | None \<Rightarrow> do {
               u \<leftarrow> flock_Unlock env (kf_service_queue kf);
               case u of
                 Some err \<Rightarrow> do {
                   _ \<leftarrow> flock_Unlock env (kf_resource kf);
                   ret (Inl (lock_error key [Lit ''release service queue: '', Wrapped err])) }
               | None \<Rightarrow> ret (Inr (kf_resource kf)) } } } }"

definition Read ::
    "env \<Rightarrow> string \<Rightarrow> object_key \<Rightarrow> ('r sess_scheme, gerror + string) state" where
  "Read env rosterPath key = do {
     dir \<leftarrow> ensureLockDir env rosterPath key;
     case dir of Inl e \<Rightarrow> ret (Inl e) | Inr kf \<Rightarrow> do {
       let bound = waitBound (e_lock_wait env);
       q \<leftarrow> acquire env (kf_service_queue kf) False;
       case q of
         Some err \<Rightarrow> do {
           e \<leftarrow> acquireErr env key bound (kf_service_queue kf) queuedText ''acquire service queue'' err;
           ret (Inl e) }
       | None \<Rightarrow> do {
           u \<leftarrow> flock_Unlock env (kf_service_queue kf);
           case u of
             Some err \<Rightarrow> ret (Inl (lock_error key [Lit ''release service queue: '', Wrapped err]))
           | None \<Rightarrow> do {
               res \<leftarrow> acquire env (kf_resource kf) True;
               case res of
                 Some err \<Rightarrow> do {
                   e \<leftarrow> acquireErr env key bound (kf_resource kf) heldText ''acquire resource (shared)'' err;
                   ret (Inl e) }
               | None \<Rightarrow> ret (Inr (kf_resource kf)) } } } }"

definition unlock :: "env \<Rightarrow> string \<Rightarrow> ('r sess_scheme, gerror option) state" where
  "unlock env resource = flock_Unlock env resource"


section \<open>Positions of a session\<close>

text \<open>
  Where a call of \<open>Mutation\<close> (\<open>Exclusive\<close>) or \<open>Read\<close> (\<open>Shared\<close>) stands: before its directory,
  before the turnstile (\<open>PQueue\<close>), past it and holding it (\<open>PQueued\<close>), a reader past it without
  it (\<open>PResource\<close>), a writer holding both files (\<open>PGot\<close>), the two ways back, holding the object
  (\<open>PHeld\<close>), finished.
\<close>

datatype position =
    PStart lock_mode
  | PQueue lock_mode
  | PQueued lock_mode
  | PResource
  | PGot
  | PGiveUpQueue
  | PGiveUpResource
  | PHeld lock_mode
  | PDone

text \<open>How a position moves with an event of the session on the files of its key.\<close>

definition stay :: "position \<Rightarrow> event \<Rightarrow> position option" where
  "stay p e = (if remote e then Some p else None)"

definition advance :: "key_files \<Rightarrow> position \<Rightarrow> event \<Rightarrow> position option" where
  "advance kf p e =
     (case p of
        PStart m \<Rightarrow>
          (case e of EMkdir d r \<Rightarrow>
             if d = filepath_Dir (kf_resource kf) then Some (if r = None then PQueue m else PDone) else None
           | _ \<Rightarrow> None)
      | PQueue m \<Rightarrow>
          (case e of ELock f k r \<Rightarrow>
             if f = kf_service_queue kf \<and> k = Exclusive then Some (if r = Locked then PQueued m else PDone) else None
           | _ \<Rightarrow> None)
      | PQueued Exclusive \<Rightarrow>
          (case e of ELock f k r \<Rightarrow>
             if f = kf_resource kf \<and> k = Exclusive then Some (if r = Locked then PGot else PGiveUpQueue) else None
           | _ \<Rightarrow> None)
      | PQueued Shared \<Rightarrow>
          (case e of EUnlock f r \<Rightarrow>
             if f = kf_service_queue kf then Some (if r = None then PResource else PDone) else None
           | _ \<Rightarrow> None)
      | PResource \<Rightarrow>
          (case e of ELock f k r \<Rightarrow>
             if f = kf_resource kf \<and> k = Shared then Some (if r = Locked then PHeld Shared else PDone) else None
           | _ \<Rightarrow> None)
      | PGot \<Rightarrow>
          (case e of EUnlock f r \<Rightarrow>
             if f = kf_service_queue kf then Some (if r = None then PHeld Exclusive else PGiveUpResource) else None
           | _ \<Rightarrow> None)
      | PGiveUpQueue \<Rightarrow>
          (case e of EUnlock f r \<Rightarrow> if f = kf_service_queue kf then Some PDone else None | _ \<Rightarrow> None)
      | PGiveUpResource \<Rightarrow>
          (case e of EUnlock f r \<Rightarrow> if f = kf_resource kf then Some PDone else None | _ \<Rightarrow> None)
      | PHeld m \<Rightarrow>
          (case e of EUnlock f r \<Rightarrow> if f = kf_resource kf then Some PDone else None | _ \<Rightarrow> stay p e)
      | PDone \<Rightarrow> stay p e)"

fun follow :: "key_files \<Rightarrow> position \<Rightarrow> event list \<Rightarrow> position option" where
  "follow kf p [] = Some p"
| "follow kf p (e # es) = (case advance kf p e of Some p' \<Rightarrow> follow kf p' es | None \<Rightarrow> None)"

lemma follow_append:
  "follow kf p (es @ fs) = (case follow kf p es of Some p' \<Rightarrow> follow kf p' fs | None \<Rightarrow> None)"
  by (induction es arbitrary: p) (auto split: option.splits)

lemma advance_remote: "remote e \<Longrightarrow> p = PDone \<or> p = PHeld m \<Longrightarrow> advance kf p e = Some p"
  by (cases e) (auto simp: remote_def advance_def stay_def)

lemma follow_remote:
  "list_all remote es \<Longrightarrow> p = PDone \<or> p = PHeld m \<Longrightarrow> follow kf p es = Some p"
  by (induction es) (auto simp: advance_remote)

lemma emits_acquireErr: "emits remote (acquireErr env key bound l behind step err)"
  unfolding acquireErr_def by (intro emits_intro)

lemma frames_acquireErr [frames_intro]: "frames (acquireErr env key bound l behind step err)"
  unfolding acquireErr_def by (intro frames_intro)

lemma frames_lock [frames_intro]:
  "frames (Mutation env rp key)" "frames (Read env rp key)" "frames (unlock env f)"
  unfolding Mutation_def Read_def ensureLockDir_def acquire_def unlock_def Let_def
  by (intro frames_intro)+

lemma traces_acquireErr:
  "traces (acquireErr env key bound l behind step err) (\<lambda>_ es. list_all remote es)"
  using emits_acquireErr unfolding emits_def .

lemma traces_acquire:
  "traces (acquire env l sh)
     (\<lambda>r es. \<exists>a. es = [ELock l (if sh then Shared else Exclusive) a] \<and> (r = None \<longleftrightarrow> a = Locked))"
  unfolding acquire_def flock_Try_def
  by (auto simp: traces_def perform_def split: lock_reply.splits)

lemma traces_flock_Unlock: "traces (flock_Unlock env l) (\<lambda>r es. es = [EUnlock l r])"
  unfolding flock_Unlock_def by (rule traces_perform) simp

lemma traces_ensureLockDir:
  "traces (ensureLockDir env rp key)
     (\<lambda>r es. (\<exists>e. r = Inl e \<and> follow (filesFor rp key) (PStart m) es = Some PDone) \<or>
             r = Inr (filesFor rp key) \<and> follow (filesFor rp key) (PStart m) es = Some (PQueue m))"
  unfolding ensureLockDir_def os_MkdirAll_def
  by (auto simp: traces_def perform_def advance_def Let_def split: option.splits)

text \<open>The events of a call of \<open>Mutation\<close>, and of one of \<open>Read\<close>, are moves of its position.\<close>

lemma traces_Mutation:
  "traces (Mutation env rp key)
     (\<lambda>r es. (\<exists>e. r = Inl e \<and> follow (filesFor rp key) (PStart Exclusive) es = Some PDone) \<or>
             r = Inr (kf_resource (filesFor rp key)) \<and>
             follow (filesFor rp key) (PStart Exclusive) es = Some (PHeld Exclusive))"
  unfolding Mutation_def Let_def
proof (rule traces_bind [OF traces_ensureLockDir [of _ _ _ Exclusive]], rule traces_case_sum, goal_cases)
  case (1 dir es e)
  then show ?case by (auto intro: traces_return)
next
  case dir: (2 dir es kf)
  then have kf: "kf = filesFor rp key" by auto
  show ?case
  proof (rule traces_bind [OF traces_acquire], rule traces_case_option, goal_cases)
    case queued: (1 q qs)
    show ?case
    proof (rule traces_bind [OF traces_acquire], rule traces_case_option, goal_cases)
      case (1 res rs)
      show ?case
      proof (rule traces_bind [OF traces_flock_Unlock], rule traces_case_option, goal_cases)
        case 1
        with dir queued \<open>res = None\<close> \<open>\<exists>a. rs = _ \<and> _\<close> show ?case
          by (auto intro!: traces_return simp: follow_append advance_def kf)
      next
        case 2
        with dir queued \<open>res = None\<close> \<open>\<exists>a. rs = _ \<and> _\<close> show ?case
          by (auto intro!: traces_bind [OF traces_flock_Unlock] traces_return simp: follow_append advance_def kf)
      qed
    next
      case 2
      with dir queued show ?case
        by (auto intro!: traces_bind [OF traces_flock_Unlock] traces_bind [OF traces_acquireErr] traces_return
            simp: follow_append advance_def kf follow_remote)
    qed
  next
    case 2
    with dir show ?case
      by (auto intro!: traces_bind [OF traces_acquireErr] traces_return simp: follow_append advance_def kf follow_remote)
  qed
qed


lemma traces_Read:
  "traces (Read env rp key)
     (\<lambda>r es. (\<exists>e. r = Inl e \<and> follow (filesFor rp key) (PStart Shared) es = Some PDone) \<or>
             r = Inr (kf_resource (filesFor rp key)) \<and>
             follow (filesFor rp key) (PStart Shared) es = Some (PHeld Shared))"
  unfolding Read_def Let_def
proof (rule traces_bind [OF traces_ensureLockDir [of _ _ _ Shared]], rule traces_case_sum, goal_cases)
  case (1 dir es e)
  then show ?case by (auto intro: traces_return)
next
  case dir: (2 dir es kf)
  then have kf: "kf = filesFor rp key" by auto
  show ?case
  proof (rule traces_bind [OF traces_acquire], rule traces_case_option, goal_cases)
    case queued: (1 q qs)
    show ?case
    proof (rule traces_bind [OF traces_flock_Unlock], rule traces_case_option, goal_cases)
      case (1 u us)
      show ?case
      proof (rule traces_bind [OF traces_acquire], rule traces_case_option, goal_cases)
        case 1
        with dir queued \<open>u = None\<close> \<open>us = _\<close> show ?case
          by (auto intro!: traces_return simp: follow_append advance_def kf)
      next
        case 2
        with dir queued \<open>u = None\<close> \<open>us = _\<close> show ?case
          by (auto intro!: traces_bind [OF traces_acquireErr] traces_return
              simp: follow_append advance_def kf follow_remote)
      qed
    next
      case 2
      with dir queued show ?case by (auto intro!: traces_return simp: follow_append advance_def kf)
    qed
  next
    case 2
    with dir show ?case
      by (auto intro!: traces_bind [OF traces_acquireErr] traces_return simp: follow_append advance_def kf follow_remote)
  qed
qed

text \<open>
  C31: every call of the writer's lock moves through its positions: when it succeeds it holds both
  phases done and the resource file exclusively, and when it fails it has given back what it took.
\<close>

theorem Mutation_follows_positions:
  assumes "run_state (Mutation env rp key) s = (r, s')"
  shows "\<exists>es. log s' = log s @ es \<and>
           follow (filesFor rp key) (PStart Exclusive) es =
             Some (case r of Inl _ \<Rightarrow> PDone | Inr _ \<Rightarrow> PHeld Exclusive)"
  using traces_runD [OF traces_Mutation assms] by fastforce

section \<open>Sessions side by side\<close>

text \<open>
  The kernel's lock table: which session holds which file and how.  The rule of flock(2): an
  exclusive lock is granted when no other session holds the file, a shared one when no other
  session holds it exclusively.  A failed unlock may or may not have released the file.
\<close>

type_synonym lock_table = "string \<Rightarrow> nat \<Rightarrow> lock_mode option"

definition compatible :: "lock_table \<Rightarrow> nat \<Rightarrow> string \<Rightarrow> lock_mode \<Rightarrow> bool" where
  "compatible tab i f m \<longleftrightarrow> (\<forall>j. j \<noteq> i \<longrightarrow> tab f j = None \<or> m = Shared \<and> tab f j = Some Shared)"

definition set_lock :: "lock_table \<Rightarrow> nat \<Rightarrow> string \<Rightarrow> lock_mode option \<Rightarrow> lock_table" where
  "set_lock tab i f m = tab(f := (tab f)(i := m))"

inductive kernel :: "nat \<Rightarrow> event \<Rightarrow> lock_table \<Rightarrow> lock_table \<Rightarrow> bool" where
  granted: "compatible tab i f m \<Longrightarrow> kernel i (ELock f m Locked) tab (set_lock tab i f (Some m))"
| refused: "r \<noteq> Locked \<Longrightarrow> kernel i (ELock f m r) tab tab"
| released: "kernel i (EUnlock f r) tab (set_lock tab i f None)"
| kept: "r \<noteq> None \<Longrightarrow> kernel i (EUnlock f r) tab tab"
| other: "remote e \<or> (\<exists>d r. e = EMkdir d r) \<Longrightarrow> kernel i e tab tab"

inductive_cases kernel_ELock: "kernel i (ELock f m r) tab tab'"
inductive_cases kernel_EUnlock: "kernel i (EUnlock f r) tab tab'"

record sessions =
  ss_at :: "nat \<Rightarrow> position"
  ss_table :: lock_table

text \<open>A step: one session emits an event and moves with it, or a session's process dies.\<close>

inductive session_step :: "key_files \<Rightarrow> sessions \<Rightarrow> sessions \<Rightarrow> bool" for kf where
  moves: "advance kf (ss_at c i) e = Some p \<Longrightarrow> kernel i e (ss_table c) tab \<Longrightarrow>
     session_step kf c \<lparr>ss_at = (ss_at c)(i := p), ss_table = tab\<rparr>"
| dies: "session_step kf c \<lparr>ss_at = (ss_at c)(i := PDone), ss_table = (\<lambda>f. (ss_table c f)(i := None))\<rparr>"

inductive sessions_reach :: "key_files \<Rightarrow> sessions \<Rightarrow> bool" for kf where
  initial: "(\<forall>i. \<exists>m. ss_at c i = PStart m) \<Longrightarrow> (\<forall>f i. ss_table c f i = None) \<Longrightarrow> sessions_reach kf c"
| step: "sessions_reach kf c \<Longrightarrow> session_step kf c c' \<Longrightarrow> sessions_reach kf c'"

text \<open>The invariant: the table is conflict-free, and a position holds the files it should hold.\<close>

definition conflict_free :: "lock_table \<Rightarrow> bool" where
  "conflict_free tab \<longleftrightarrow> (\<forall>f i j. tab f i = Some Exclusive \<longrightarrow> tab f j \<noteq> None \<longrightarrow> i = j)"

definition holds_queue :: "position \<Rightarrow> bool" where
  "holds_queue p \<longleftrightarrow> (\<exists>m. p = PQueued m) \<or> p = PGot \<or> p = PGiveUpQueue"

definition holds_resource :: "position \<Rightarrow> lock_mode option" where
  "holds_resource p =
     (case p of PGot \<Rightarrow> Some Exclusive | PGiveUpResource \<Rightarrow> Some Exclusive | PHeld m \<Rightarrow> Some m | _ \<Rightarrow> None)"

definition backed :: "key_files \<Rightarrow> lock_table \<Rightarrow> nat \<Rightarrow> position \<Rightarrow> bool" where
  "backed kf tab i p \<longleftrightarrow>
     (holds_queue p \<longrightarrow> tab (kf_service_queue kf) i = Some Exclusive) \<and>
     (\<forall>m. holds_resource p = Some m \<longrightarrow> tab (kf_resource kf) i = Some m)"


lemma filesFor_distinct: "kf_service_queue (filesFor rp key) \<noteq> kf_resource (filesFor rp key)"
  by (simp add: filesFor_def Let_def)

lemma kernel_conflict_free: "kernel i e tab tab' \<Longrightarrow> conflict_free tab \<Longrightarrow> conflict_free tab'"
proof (induction rule: kernel.induct)
  case (granted tab i f m)
  then show ?case
    unfolding conflict_free_def compatible_def set_lock_def
    by (auto split: if_splits)
qed (auto simp: conflict_free_def set_lock_def split: if_splits)

lemma kernel_other_session: "kernel i e tab tab' \<Longrightarrow> j \<noteq> i \<Longrightarrow> tab' f j = tab f j"
  by (induction rule: kernel.induct) (auto simp: set_lock_def)

lemma advance_backed:
  assumes "kf_service_queue kf \<noteq> kf_resource kf" and "advance kf p e = Some p'"
    and "kernel i e tab tab'" and "backed kf tab i p"
  shows "backed kf tab' i p'"
  using assms(3,2,1,4)
  by (cases rule: kernel.cases)
    (auto simp: advance_def stay_def backed_def holds_queue_def holds_resource_def set_lock_def remote_def
      split: position.splits lock_mode.splits event.splits if_splits)

definition sessions_ok :: "key_files \<Rightarrow> sessions \<Rightarrow> bool" where
  "sessions_ok kf c \<longleftrightarrow> conflict_free (ss_table c) \<and> (\<forall>i. backed kf (ss_table c) i (ss_at c i))"

lemma sessions_ok_queue:
  "sessions_ok kf c \<Longrightarrow> holds_queue (ss_at c i) \<Longrightarrow> ss_table c (kf_service_queue kf) i = Some Exclusive"
  by (simp add: sessions_ok_def backed_def)

lemma sessions_ok_resource:
  "sessions_ok kf c \<Longrightarrow> holds_resource (ss_at c i) = Some m \<Longrightarrow> ss_table c (kf_resource kf) i = Some m"
  by (simp add: sessions_ok_def backed_def)

lemma session_step_ok:
  assumes "kf_service_queue kf \<noteq> kf_resource kf" and "session_step kf c c'" and "sessions_ok kf c"
  shows "sessions_ok kf c'"
  using assms(2)
proof cases
  case (moves i e p tab)
  have "backed kf tab j (ss_at c j)" if "j \<noteq> i" for j
    using assms(3) kernel_other_session [OF moves(3) that] by (simp add: sessions_ok_def backed_def)
  with moves assms advance_backed [OF assms(1) moves(2,3)] kernel_conflict_free [OF moves(3)]
  show ?thesis by (auto simp: sessions_ok_def)
next
  case (dies i)
  with assms(3) show ?thesis
    by (auto simp: sessions_ok_def conflict_free_def backed_def holds_queue_def holds_resource_def)
qed

lemma sessions_reach_ok:
  assumes "kf_service_queue kf \<noteq> kf_resource kf"
  shows "sessions_reach kf c \<Longrightarrow> sessions_ok kf c"
proof (induction rule: sessions_reach.induct)
  case (initial c)
  have "backed kf (ss_table c) i (ss_at c i)" for i
    using initial(1) [rule_format, of i] by (auto simp: backed_def holds_queue_def holds_resource_def)
  with initial(2) show ?case by (auto simp: sessions_ok_def conflict_free_def)
next
  case (step c c')
  then show ?case using session_step_ok [OF assms] by blast
qed

subsection \<open>Histories of calls\<close>

text \<open>
  A history interleaves the events of any number of sessions, each event under the kernel's rules,
  with deaths of processes, upon which the kernel drops the locks of the session.
\<close>

datatype happening = Does nat event | Dies nat

inductive kernel_history :: "happening list \<Rightarrow> lock_table \<Rightarrow> bool" where
  nothing: "kernel_history [] (\<lambda>_ _. None)"
| event: "kernel_history hs tab \<Longrightarrow> kernel i e tab tab' \<Longrightarrow> kernel_history (hs @ [Does i e]) tab'"
| death: "kernel_history hs tab \<Longrightarrow> kernel_history (hs @ [Dies i]) (\<lambda>f. (tab f)(i := None))"

fun events_of :: "nat \<Rightarrow> happening list \<Rightarrow> event list" where
  "events_of i [] = []"
| "events_of i (Does j e # hs) = (if j = i then e # events_of i hs else events_of i hs)"
| "events_of i (Dies j # hs) = events_of i hs"

lemma events_of_append [simp]: "events_of i (hs @ gs) = events_of i hs @ events_of i gs"
  by (induction i hs rule: events_of.induct) auto

text \<open>
  A session holds the object by a call when its process lives, its events in the history are those
  of a run of the call that returned an unlock, and since then it has touched no lock.
\<close>

definition holding :: "(sess, gerror + string) state \<Rightarrow> nat \<Rightarrow> happening list \<Rightarrow> bool" where
  "holding call i hs \<longleftrightarrow>
     Dies i \<notin> set hs \<and>
     (\<exists>s f s' es body. run_state call s = (Inr f, s') \<and> log s' = log s @ es \<and>
        events_of i hs = es @ body \<and> list_all remote body)"

lemma kernel_history_backed:
  assumes "kf_service_queue kf \<noteq> kf_resource kf" and "kernel_history hs tab"
  shows "conflict_free tab \<and>
         (\<forall>i m p. Dies i \<notin> set hs \<longrightarrow> follow kf (PStart m) (events_of i hs) = Some p \<longrightarrow> backed kf tab i p)"
  using assms(2)
proof (induction rule: kernel_history.induct)
  case nothing
  show ?case by (auto simp: conflict_free_def backed_def holds_queue_def holds_resource_def)
next
  case (event hs tab i e tab')
  have "backed kf tab' j p"
    if "Dies j \<notin> set hs" "follow kf (PStart m) (events_of j (hs @ [Does i e])) = Some p" for j m p
  proof (cases "j = i")
    case True
    with that obtain q where "follow kf (PStart m) (events_of i hs) = Some q" "advance kf q e = Some p"
      by (auto simp: follow_append split: option.splits)
    with event that True show ?thesis by (blast intro: advance_backed [OF assms(1) _ event(2)])
  next
    case False
    with event that kernel_other_session [OF event(2) False] show ?thesis by (simp add: backed_def)
  qed
  with event kernel_conflict_free [OF event(2)] show ?case by auto
next
  case (death hs tab i)
  then show ?case by (auto simp: conflict_free_def backed_def)
qed

lemma holding_mode:
  assumes "kernel_history hs tab" and "holding call i hs"
    and "traces call (\<lambda>r es. (\<exists>e. r = Inl e \<and> follow (filesFor rp key) (PStart m) es = Some PDone) \<or>
           r = Inr (kf_resource (filesFor rp key)) \<and>
           follow (filesFor rp key) (PStart m) es = Some (PHeld m))"
  shows "tab (kf_resource (filesFor rp key)) i = Some m"
proof -
  from assms(2) obtain s f s' es body where run: "run_state call s = (Inr f, s')" "log s' = log s @ es"
    and split: "Dies i \<notin> set hs" "events_of i hs = es @ body" "list_all remote body"
    unfolding holding_def by blast
  from traces_runD [OF assms(3) run(1)] run(2)
  have "follow (filesFor rp key) (PStart m) es = Some (PHeld m)" by auto
  then have "follow (filesFor rp key) (PStart m) (events_of i hs) = Some (PHeld m)"
    using split follow_remote [OF split(3), of "PHeld m" m] by (simp add: follow_append)
  with kernel_history_backed [OF filesFor_distinct assms(1)] split(1)
  have "backed (filesFor rp key) tab i (PHeld m)" by blast
  then show ?thesis by (simp add: backed_def holds_resource_def)
qed

lemma history_conflict_free: "kernel_history hs tab \<Longrightarrow> conflict_free tab"
  using kernel_history_backed [OF filesFor_distinct] by blast

text \<open>
  C19: mutual exclusion over every history of the kernel: while a session holds the object by a
  run of \<open>Mutation\<close> that returned its unlock, no other session holds it, by a run of
  \<open>Mutation\<close> or of \<open>Read\<close>, whatever else happened between them: refused and failed
  acquisitions, failed unlocks and dead processes included.
\<close>

theorem mutation_excludes_all:
  assumes "kernel_history hs tab"
    and "holding (Mutation env rp key) i hs"
    and "holding (Mutation env' rp key) j hs \<or> holding (Read env' rp key) j hs"
  shows "i = j"
proof -
  let ?f = "kf_resource (filesFor rp key)"
  have "tab ?f i = Some Exclusive" by (rule holding_mode [OF assms(1,2) traces_Mutation])
  moreover have "tab ?f j \<noteq> None"
    using assms(3) holding_mode [OF assms(1) _ traces_Mutation, of env' rp key j]
      holding_mode [OF assms(1) _ traces_Read, of env' rp key j] by auto
  ultimately show ?thesis using history_conflict_free [OF assms(1)] by (auto simp: conflict_free_def)
qed

text \<open>
  The readers past the turnstile: those that wait for the object without holding the turnstile,
  and those that hold the object.
\<close>

definition readers_past :: "sessions \<Rightarrow> nat set" where
  "readers_past c = {j. ss_at c j = PResource \<or> ss_at c j = PHeld Shared}"

text \<open>
  Writer priority: while a mutation holds the turnstile (it waits for the object or is about to
  take it), no reader passes: the readers that may still take the object are among those that were
  past the turnstile already.
\<close>

theorem waiting_writer_admits_no_reader:
  assumes "sessions_reach (filesFor rp key) c" and "session_step (filesFor rp key) c c'"
    and "ss_at c i = PQueued Exclusive \<or> ss_at c i = PGot"
  shows "readers_past c' \<subseteq> readers_past c"
proof -
  let ?kf = "filesFor rp key"
  have ok: "sessions_ok ?kf c" by (rule sessions_reach_ok [OF filesFor_distinct assms(1)])
  have alone: "j = i" if "ss_at c j = PQueued Shared" for j
  proof -
    have "ss_table c (kf_service_queue ?kf) i = Some Exclusive" "ss_table c (kf_service_queue ?kf) j = Some Exclusive"
      using assms(3) that by (auto intro!: sessions_ok_queue [OF ok] simp: holds_queue_def)
    with ok show ?thesis by (auto simp: sessions_ok_def conflict_free_def)
  qed
  from assms(2) show ?thesis
  proof cases
    case (moves j e p tab)
    show ?thesis
      using moves(1,2) alone [of j] assms(3)
      by (auto simp: readers_past_def advance_def stay_def
          split: if_splits position.splits lock_mode.splits event.splits option.splits)
  next
    case (dies j)
    then show ?thesis by (auto simp: readers_past_def)
  qed
qed


section \<open>Concrete runs of sessions\<close>

definition demo_key :: object_key where
  "demo_key = \<lparr>ok_target_id = ''t'', ok_kind = ''vm'', ok_id = ''100''\<rparr>"

text \<open>In a calm world a mutation gets the object.\<close>

lemma run_Mutation_calm:
  "fst (run_state (Mutation calm rp key) s) = Inr (kf_resource (filesFor rp key))"
  by (simp add: Mutation_def ensureLockDir_def acquire_def Let_def primitive_defs run_simps)

theorem Mutation_follows_positions_witness:
  "\<exists>es. log (snd (run_state (Mutation calm ''roster.yaml'' demo_key) fresh)) = es \<and>
        follow (filesFor ''roster.yaml'' demo_key) (PStart Exclusive) es = Some (PHeld Exclusive)"
  using Mutation_follows_positions [OF surjective_pairing,
      of calm "''roster.yaml''" demo_key fresh]
  by (simp add: run_Mutation_calm)

text \<open>Session 0 is a mutation, every other one a read; nobody has started, or has a lock.\<close>

definition before_all :: sessions where
  "before_all = \<lparr>ss_at = (\<lambda>i. if i = 0 then PStart Exclusive else PStart Shared), ss_table = (\<lambda>_ _. None)\<rparr>"

definition at_position :: "sessions \<Rightarrow> nat \<Rightarrow> position \<Rightarrow> lock_table \<Rightarrow> sessions" where
  "at_position c i p tab = \<lparr>ss_at = (ss_at c)(i := p), ss_table = tab\<rparr>"

lemma before_all_reach: "sessions_reach kf before_all"
  by (rule sessions_reach.initial) (auto simp: before_all_def)

lemma at_position_simps [simp]:
  "ss_at (at_position c i p tab) j = (if j = i then p else ss_at c j)"
  "ss_table (at_position c i p tab) = tab"
  by (auto simp: at_position_def)

lemma session_step_at:
  "advance kf (ss_at c i) e = Some p \<Longrightarrow> kernel i e (ss_table c) tab \<Longrightarrow>
     session_step kf c (at_position c i p tab)"
  by (simp add: at_position_def session_step.moves)

lemma kernel_free: "(\<And>j. j \<noteq> i \<Longrightarrow> tab f j = None) \<Longrightarrow> kernel i (ELock f m Locked) tab (set_lock tab i f (Some m))"
  by (rule kernel.granted) (simp add: compatible_def)

lemma step_mkdir:
  "ss_at c i = PStart m \<Longrightarrow> session_step kf c (at_position c i (PQueue m) (ss_table c))"
  by (rule session_step_at [where e = "EMkdir (filepath_Dir (kf_resource kf)) None"])
    (auto simp: advance_def intro: kernel.other)

lemma step_turnstile:
  "ss_at c i = PQueue m \<Longrightarrow> (\<And>j. j \<noteq> i \<Longrightarrow> ss_table c (kf_service_queue kf) j = None) \<Longrightarrow>
     session_step kf c (at_position c i (PQueued m) (set_lock (ss_table c) i (kf_service_queue kf) (Some Exclusive)))"
  by (rule session_step_at [where e = "ELock (kf_service_queue kf) Exclusive Locked"])
    (auto simp: advance_def intro: kernel_free)

lemma step_reader_passes:
  "ss_at c i = PQueued Shared \<Longrightarrow>
     session_step kf c (at_position c i PResource (set_lock (ss_table c) i (kf_service_queue kf) None))"
  by (rule session_step_at [where e = "EUnlock (kf_service_queue kf) None"])
    (auto simp: advance_def intro: kernel.released)

lemma step_reader_takes:
  "ss_at c i = PResource \<Longrightarrow> (\<And>j. j \<noteq> i \<Longrightarrow> ss_table c (kf_resource kf) j = None) \<Longrightarrow>
     session_step kf c (at_position c i (PHeld Shared) (set_lock (ss_table c) i (kf_resource kf) (Some Shared)))"
  by (rule session_step_at [where e = "ELock (kf_resource kf) Shared Locked"])
    (auto simp: advance_def intro: kernel_free)

text \<open>The mutation has made its directory and waits for the turnstile; then it holds the turnstile.\<close>

definition mutation_begun :: sessions where
  "mutation_begun = at_position before_all 0 (PQueue Exclusive) (\<lambda>_ _. None)"

definition mutation_queued :: "key_files \<Rightarrow> sessions" where
  "mutation_queued kf =
     at_position mutation_begun 0 (PQueued Exclusive)
       (set_lock (\<lambda>_ _. None) 0 (kf_service_queue kf) (Some Exclusive))"

lemma mutation_begun_reach: "sessions_reach kf mutation_begun"
  using sessions_reach.step [OF before_all_reach step_mkdir [of before_all 0 Exclusive]]
  by (simp add: mutation_begun_def before_all_def)

lemma mutation_queued_reach: "sessions_reach kf (mutation_queued kf)"
  using sessions_reach.step [OF mutation_begun_reach step_turnstile [of mutation_begun 0 Exclusive kf]]
  by (simp add: mutation_queued_def mutation_begun_def)

text \<open>
  Two sessions on one key: the first is refused the turnstile, the second gets the object and reads
  while it holds it.
\<close>

definition mutation_events :: "event list" where
  "mutation_events = log (snd (run_state (Mutation calm ''roster.yaml'' demo_key) fresh))"

definition demo_history :: "happening list" where
  "demo_history =
     [Does 1 (EMkdir (filepath_Dir (kf_resource (filesFor ''roster.yaml'' demo_key))) None),
      Does 1 (ELock (kf_service_queue (filesFor ''roster.yaml'' demo_key)) Exclusive NotLocked)] @
     map (Does 0) mutation_events @ [Does 0 (ECtx None)]"

lemma mutation_events_eq:
  "mutation_events =
     [EMkdir (filepath_Dir (kf_resource (filesFor ''roster.yaml'' demo_key))) None,
      ELock (kf_service_queue (filesFor ''roster.yaml'' demo_key)) Exclusive Locked,
      ELock (kf_resource (filesFor ''roster.yaml'' demo_key)) Exclusive Locked,
      EUnlock (kf_service_queue (filesFor ''roster.yaml'' demo_key)) None]"
  by (simp add: mutation_events_def Mutation_def ensureLockDir_def acquire_def Let_def primitive_defs run_simps)

lemma kernel_history_snoc:
  "kernel_history hs tab \<Longrightarrow> kernel i e tab tab' \<Longrightarrow> gs = hs @ [Does i e] \<Longrightarrow> \<exists>tab'. kernel_history gs tab'"
  by (blast intro: kernel_history.event)

lemma demo_history_kernel: "\<exists>tab. kernel_history demo_history tab"
proof -
  let ?kf = "filesFor ''roster.yaml'' demo_key" and ?tab = "\<lambda>_ _. None"
  let ?d = "EMkdir (filepath_Dir (kf_resource ?kf)) None"
  let ?t1 = "set_lock ?tab 0 (kf_service_queue ?kf) (Some Exclusive)"
  let ?t2 = "set_lock ?t1 0 (kf_resource ?kf) (Some Exclusive)"
  let ?t3 = "set_lock ?t2 0 (kf_service_queue ?kf) None"
  have "kernel_history [Does 1 ?d] ?tab"
    using kernel_history.event [OF kernel_history.nothing kernel.other [of ?d]] by simp
  from kernel_history.event [OF this kernel.refused [of NotLocked]]
  have "kernel_history [Does 1 ?d, Does 1 (ELock (kf_service_queue ?kf) Exclusive NotLocked)] ?tab" by simp
  from kernel_history.event [OF this kernel.other [of ?d 0]]
  have h: "kernel_history
      [Does 1 ?d, Does 1 (ELock (kf_service_queue ?kf) Exclusive NotLocked), Does 0 ?d] ?tab" by simp
  have k: "kernel 0 (ELock (kf_service_queue ?kf) Exclusive Locked) ?tab ?t1"
    "kernel 0 (ELock (kf_resource ?kf) Exclusive Locked) ?t1 ?t2"
    by (rule kernel_free, simp add: set_lock_def)+
  from kernel_history.event [OF kernel_history.event [OF kernel_history.event [OF
        kernel_history.event [OF h k(1)] k(2)] kernel.released [of 0 "kf_service_queue ?kf" None]]
      kernel.other [of "ECtx None" 0]]
  show ?thesis by (auto simp: demo_history_def mutation_events_eq remote_def)
qed

lemma demo_history_holding: "holding (Mutation calm ''roster.yaml'' demo_key) 0 demo_history"
proof -
  have "run_state (Mutation calm ''roster.yaml'' demo_key) fresh =
      (Inr (kf_resource (filesFor ''roster.yaml'' demo_key)),
       snd (run_state (Mutation calm ''roster.yaml'' demo_key) fresh))"
    by (rule prod_eqI) (simp_all add: run_Mutation_calm)
  moreover have "log (snd (run_state (Mutation calm ''roster.yaml'' demo_key) fresh)) =
      log fresh @ mutation_events"
    by (simp add: mutation_events_def)
  moreover have "events_of 0 demo_history = mutation_events @ [ECtx None]"
    by (simp add: demo_history_def mutation_events_eq)
  moreover have "Dies 0 \<notin> set demo_history" by (auto simp: demo_history_def)
  ultimately show ?thesis
    unfolding holding_def by (intro conjI exI) (assumption | simp add: remote_def)+
qed

theorem mutation_excludes_all_witness:
  "{j. holding (Mutation calm ''roster.yaml'' demo_key) j demo_history \<or>
       holding (Read calm ''roster.yaml'' demo_key) j demo_history} = {0}"
proof -
  obtain tab where "kernel_history demo_history tab" using demo_history_kernel by blast
  from mutation_excludes_all [OF this demo_history_holding] demo_history_holding show ?thesis by blast
qed

theorem waiting_writer_admits_no_reader_witness:
  "readers_past (at_position (mutation_queued (filesFor ''roster.yaml'' demo_key)) 1 (PQueue Shared)
      (ss_table (mutation_queued (filesFor ''roster.yaml'' demo_key)))) \<subseteq>
   readers_past (mutation_queued (filesFor ''roster.yaml'' demo_key))"
proof -
  let ?c = "mutation_queued (filesFor ''roster.yaml'' demo_key)"
  have at: "ss_at ?c 0 = PQueued Exclusive" "ss_at ?c 1 = PStart Shared"
    by (simp_all add: mutation_queued_def mutation_begun_def before_all_def)
  from waiting_writer_admits_no_reader [OF mutation_queued_reach step_mkdir [OF at(2)] disjI1 [OF at(1)]]
  show ?thesis .
qed

text \<open>
  The bound of that priority: before it holds the turnstile, a mutation that has begun gives no
  priority; a read that starts after it can take the turnstile first and hold the object while the
  mutation is still waiting.
\<close>

theorem reader_overtakes_begun_mutation:
  "\<exists>c. (session_step (filesFor rp key))\<^sup>*\<^sup>* mutation_begun c \<and> sessions_reach (filesFor rp key) mutation_begun \<and>
       ss_at mutation_begun 0 = PQueue Exclusive \<and> ss_at mutation_begun 1 = PStart Shared \<and>
       ss_at c 0 = PQueue Exclusive \<and> ss_at c 1 = PHeld Shared"
proof -
  let ?kf = "filesFor rp key"
  let ?tab = "\<lambda>_ _. None"
  let ?c1 = "at_position mutation_begun 1 (PQueue Shared) ?tab"
  let ?t2 = "set_lock ?tab 1 (kf_service_queue ?kf) (Some Exclusive)"
  let ?c2 = "at_position ?c1 1 (PQueued Shared) ?t2"
  let ?t3 = "set_lock ?t2 1 (kf_service_queue ?kf) None"
  let ?c3 = "at_position ?c2 1 PResource ?t3"
  let ?t4 = "set_lock ?t3 1 (kf_resource ?kf) (Some Shared)"
  let ?c4 = "at_position ?c3 1 (PHeld Shared) ?t4"
  have s1: "session_step ?kf mutation_begun ?c1"
    using step_mkdir [of mutation_begun 1 Shared ?kf] by (simp add: mutation_begun_def before_all_def)
  have s2: "session_step ?kf ?c1 ?c2" using step_turnstile [of ?c1 1 Shared ?kf] by simp
  have s3: "session_step ?kf ?c2 ?c3" using step_reader_passes [of ?c2 1 ?kf] by simp
  have s4: "session_step ?kf ?c3 ?c4"
    using step_reader_takes [of ?c3 1 ?kf] by (simp add: set_lock_def)
  have "(session_step ?kf)\<^sup>*\<^sup>* mutation_begun ?c4"
    using s1 s2 s3 s4 by (meson rtranclp.rtrancl_into_rtrancl rtranclp.rtrancl_refl)
  moreover have "ss_at ?c4 0 = PQueue Exclusive" by (simp add: mutation_begun_def)
  moreover have "ss_at ?c4 1 = PHeld Shared" by simp
  ultimately show ?thesis
    using mutation_begun_reach [of ?kf] by (auto simp: mutation_begun_def before_all_def)
qed

text \<open>
  The name of a lock file does not identify its key: keys that differ only in characters outside
  the safe set, or only in where the separator falls, get the same two files.
\<close>

theorem lock_files_collide:
  "filesFor rp \<lparr>ok_target_id = ''a b'', ok_kind = ''vm'', ok_id = ''1''\<rparr> =
   filesFor rp \<lparr>ok_target_id = ''a_b'', ok_kind = ''vm'', ok_id = ''1''\<rparr> \<and>
   filesFor rp \<lparr>ok_target_id = ''a'', ok_kind = ''b__vm'', ok_id = ''1''\<rparr> =
   filesFor rp \<lparr>ok_target_id = ''a__b'', ok_kind = ''vm'', ok_id = ''1''\<rparr>"
  by (simp add: filesFor_def sanitizeKey_def sanitizePart_def is_safe_char_def is_alnum_def is_digit_def rune_width.simps rune2_def rune3_def rune4_def
      between_def)

end
