(* ===== verification/PveClient.thy ===== *)
theory PveClient
  imports Wire
begin

text \<open>
  The REST client of \<open>internal/pve\<close>: the raw request and its answers (\<open>rawrequest.go\<close>), the
  classification of PVE's answers (\<open>vmconfig.go\<close>, \<open>notfound.go\<close>, \<open>rootfields.go\<close>), the config
  writes with and without a digest guard, the VM lifecycle calls and the typed reads.
\<close>

section \<open>Answers and their classification\<close>

text \<open>\<open>NewStatusError\<close>: the error of a non-2xx answer keeps its code, status line and body.\<close>

definition NewStatusError :: "string \<Rightarrow> int \<Rightarrow> string \<Rightarrow> string \<Rightarrow> gerror" where
  "NewStatusError what code status body = StatusError code status body what"

definition HTTPStatus :: "gerror \<Rightarrow> int option" where
  "HTTPStatus e = errors_As (\<lambda>x. case x of StatusError code st b w \<Rightarrow> Some code | _ \<Rightarrow> None) e"

definition IsDigestConflictError :: "gerror \<Rightarrow> bool" where
  "IsDigestConflictError e \<longleftrightarrow> strings_Contains (strings_ToLower (err_text e)) ''digest''"

definition IsRootOnlyWriteError :: "gerror \<Rightarrow> bool" where
  "IsRootOnlyWriteError e \<longleftrightarrow> err_mentions ''only root can set'' e"

definition RootOnlyFields :: "string \<Rightarrow> bool" where
  "RootOnlyFields f \<longleftrightarrow> f = ''args''"

text \<open>
  \<open>NotFound\<close>: the typed answer of PVE in the chain of the error, as "<Status>: <body>", and the
  rule for a \<open>Subject\<close> that holds a \<open>Fragment\<close> (the rule for a parameter entry is not modelled).
\<close>

definition pveAnswer :: "gerror \<Rightarrow> string option" where
  "pveAnswer e =
     (case errors_As (\<lambda>x. case x of StatusError code st b w \<Rightarrow> Some (st, b) | _ \<Rightarrow> None) e of
        Some (st, b) \<Rightarrow> Some (st @ '': '' @ strings_TrimSpace b)
      | None \<Rightarrow>
          (case errors_As (\<lambda>x. case x of ProxmoxStatusError code st b \<Rightarrow> Some (st, b) | _ \<Rightarrow> None) e of
             Some (st, b) \<Rightarrow> Some (st @ '': '' @ strings_TrimSpace b)
           | None \<Rightarrow> None))"

definition NotFound_fragment :: "gerror \<Rightarrow> string \<Rightarrow> bool" where
  "NotFound_fragment e fragment =
     (case pveAnswer e of
        None \<Rightarrow> False
      | Some answer \<Rightarrow>
          fragment \<noteq> [] \<and>
          strings_Contains (strings_ToLower answer) (strings_ToLower fragment) \<and>
          strings_Contains (strings_ToLower answer) ''does not exist'')"

section \<open>The raw request\<close>

definition unwrapDataEnvelope :: "string \<Rightarrow> json option \<Rightarrow> gerror + json" where
  "unwrapDataEnvelope body doc =
     (if strings_TrimSpace body = [] then Inr JNull
      else case doc of
          None \<Rightarrow> Inl (Errorf [Lit ''parse response body: '', Wrapped json_type_error])
        | Some JNull \<Rightarrow> Inr JNull
        | Some (JObj t kvs) \<Rightarrow>
            (case find (\<lambda>kv. strings_ToLower (fst kv) = ''data'') (rev kvs) of
               None \<Rightarrow> Inr JNull
             | Some kv \<Rightarrow> Inr (snd kv))
        | Some _ \<Rightarrow> Inl (Errorf [Lit ''parse response body: '', Wrapped json_type_error]))"

fun unsupported_method :: "http_method \<Rightarrow> string option" where
  "unsupported_method (OtherMethod m) = Some m"
| "unsupported_method _ = None"

text \<open>What a raw request makes of the reply.\<close>

definition raw_result :: "http_reply \<Rightarrow> gerror + json" where
  "raw_result r =
     (case r of
        HBuildError e \<Rightarrow> Inl (Errorf [Lit ''raw request: build request: '', Wrapped e])
      | HDoError e \<Rightarrow> Inl (Errorf [Lit ''raw request: '', Wrapped e])
      | HReadError e \<Rightarrow> Inl (Errorf [Lit ''raw request: read response: '', Wrapped e])
      | HAnswer code status body doc \<Rightarrow>
          if code < 200 \<or> 300 \<le> code then Inl (NewStatusError ''raw request'' code status body)
          else (case unwrapDataEnvelope body doc of
                  Inl e \<Rightarrow> Inl (Errorf [Lit ''raw request: '', Wrapped e])
                | Inr raw \<Rightarrow> Inr raw))"

definition RawRequest ::
    "env \<Rightarrow> http_method \<Rightarrow> string \<Rightarrow> url_values \<Rightarrow> ('r sess_scheme, gerror + json) state" where
  "RawRequest env meth path params =
     (if path = [] then ret (Inl (ErrorString ''raw request: path is required''))
      else if \<not> strings_HasPrefix path ''/'' then
        ret (Inl (Errorf [Lit ''raw request: path '', Quo path, Lit ('' must start with '' @ [CHR 0x27, CHR ''/'', CHR 0x27])]))
      else case unsupported_method meth of
          Some m \<Rightarrow> ret (Inl (Errorf [Lit ''raw request: unsupported method '', Quo m]))
        | None \<Rightarrow> do { r \<leftarrow> http_do env meth path params; ret (raw_result r) })"

section \<open>Config writes\<close>

definition qemu_path :: "string \<Rightarrow> int \<Rightarrow> string \<Rightarrow> string" where
  "qemu_path node vmid rest =
     ''/nodes/'' @ url_PathEscape node @ ''/qemu/'' @ strconv_Itoa vmid @ rest"

definition put_result :: "frag list \<Rightarrow> http_reply \<Rightarrow> gerror option" where
  "put_result what r =
     (case r of
        HBuildError e \<Rightarrow> Some (Errorf (what @ [Lit '': build request: '', Wrapped e]))
      | HDoError e \<Rightarrow> Some (Errorf (what @ [Lit '': '', Wrapped e]))
      | HReadError e \<Rightarrow> Some (Errorf (what @ [Lit '': read response: '', Wrapped e]))
      | HAnswer code status body doc \<Rightarrow>
          if 200 \<le> code \<and> code < 300 then None
          else Some (NewStatusError (concat (map frag_text what)) code status body))"

definition putVMConfig ::
    "env \<Rightarrow> string \<Rightarrow> int \<Rightarrow> url_values \<Rightarrow> frag list \<Rightarrow> ('r sess_scheme, gerror option) state" where
  "putVMConfig env node vmid form what = do {
     r \<leftarrow> http_do env PUT (qemu_path node vmid ''/config'') form;
     ret (put_result what r)
   }"

text \<open>The form of a write of one parameter, with the expected digest when there is one.\<close>

definition cas_form :: "string \<Rightarrow> string \<Rightarrow> string \<Rightarrow> url_values" where
  "cas_form field val expectDigest =
     (if expectDigest = [] then values_Set field val []
      else values_Set ''digest'' expectDigest (values_Set field val []))"

definition Client_SetVMConfigFieldCAS ::
    "env \<Rightarrow> string \<Rightarrow> int \<Rightarrow> string \<Rightarrow> string \<Rightarrow> string \<Rightarrow> ('r sess_scheme, gerror option) state" where
  "Client_SetVMConfigFieldCAS env node vmid field val expectDigest =
     (if node = [] then
        ret (Some (Errorf [Lit ''set vm '', Dec vmid, Lit '' field '', Quo field, Lit '': node is required'']))
      else if field = [] then
        ret (Some (Errorf [Lit ''set vm '', Dec vmid, Lit '' config: field name is required'']))
      else
        putVMConfig env node vmid (cas_form field val expectDigest)
          [Lit ''set vm '', Dec vmid, Lit '' field '', Quo field])"

definition Client_SetVMConfigField ::
    "env \<Rightarrow> string \<Rightarrow> int \<Rightarrow> string \<Rightarrow> string \<Rightarrow> ('r sess_scheme, gerror option) state" where
  "Client_SetVMConfigField env node vmid field val =
     Client_SetVMConfigFieldCAS env node vmid field val []"

definition Client_DeleteVMConfigFieldCAS ::
    "env \<Rightarrow> string \<Rightarrow> int \<Rightarrow> string \<Rightarrow> string \<Rightarrow> ('r sess_scheme, gerror option) state" where
  "Client_DeleteVMConfigFieldCAS env node vmid field expectDigest =
     (if node = [] then
        ret (Some (Errorf [Lit ''delete vm '', Dec vmid, Lit '' field '', Quo field, Lit '': node is required'']))
      else if field = [] then
        ret (Some (Errorf [Lit ''delete vm '', Dec vmid, Lit '' config: field name is required'']))
      else
        putVMConfig env node vmid (cas_form ''delete'' field expectDigest)
          [Lit ''delete vm '', Dec vmid, Lit '' field '', Quo field])"

definition Client_DeleteVMConfigField ::
    "env \<Rightarrow> string \<Rightarrow> int \<Rightarrow> string \<Rightarrow> ('r sess_scheme, gerror option) state" where
  "Client_DeleteVMConfigField env node vmid field = Client_DeleteVMConfigFieldCAS env node vmid field []"

section \<open>VM lifecycle calls\<close>

definition decodeUPIDScalar :: "json \<Rightarrow> gerror + string" where
  "decodeUPIDScalar raw =
     (case raw of
        JNull \<Rightarrow> Inl (ErrorString
          ''decode upid: unexpected response null: expected a UPID string, got null'')
      | JStr s \<Rightarrow> Inr s
      | _ \<Rightarrow> Inl (Errorf [Lit ''decode upid: unexpected response '', Lit (raw_text raw), Lit '': '',
                        Wrapped json_type_error]))"

text \<open>The calls that start a task share their tail: a raw request whose answer is a UPID.\<close>

definition task_call ::
    "env \<Rightarrow> http_method \<Rightarrow> string \<Rightarrow> url_values \<Rightarrow> frag list \<Rightarrow> ('r sess_scheme, gerror + string) state" where
  "task_call env meth path form what = do {
     r \<leftarrow> RawRequest env meth path form;
     ret (case r of
         Inl e \<Rightarrow> Inl (Errorf (what @ [Lit '': '', Wrapped e]))
       | Inr raw \<Rightarrow>
           (case decodeUPIDScalar raw of
              Inl e \<Rightarrow> Inl (Errorf (what @ [Lit '': '', Wrapped e]))
            | Inr upid \<Rightarrow> Inr upid))
   }"

definition Client_CreateVM ::
    "env \<Rightarrow> string \<Rightarrow> int \<Rightarrow> url_values \<Rightarrow> ('r sess_scheme, gerror + string) state" where
  "Client_CreateVM env node vmid params =
     (if node = [] then ret (Inl (Errorf [Lit ''create vm '', Dec vmid, Lit '': node is required'']))
      else task_call env POST (''/nodes/'' @ url_PathEscape node @ ''/qemu'')
             (values_Set ''vmid'' (strconv_Itoa vmid) params) [Lit ''create vm '', Dec vmid])"

definition Client_CloneVM ::
    "env \<Rightarrow> string \<Rightarrow> int \<Rightarrow> int \<Rightarrow> url_values \<Rightarrow> ('r sess_scheme, gerror + string) state" where
  "Client_CloneVM env node sourceVMID newVMID params =
     (if node = [] then ret (Inl (Errorf [Lit ''clone vm '', Dec sourceVMID, Lit '': node is required'']))
      else task_call env POST (qemu_path node sourceVMID ''/clone'')
             (values_Set ''newid'' (strconv_Itoa newVMID) params)
             [Lit ''clone vm '', Dec sourceVMID, Lit '' to '', Dec newVMID])"

definition Client_ShutdownVM :: "env \<Rightarrow> string \<Rightarrow> int \<Rightarrow> ('r sess_scheme, gerror + string) state" where
  "Client_ShutdownVM env node vmid =
     (if node = [] then ret (Inl (Errorf [Lit ''shutdown vm '', Dec vmid, Lit '': node is required'']))
      else task_call env POST (qemu_path node vmid ''/status/shutdown'') []
             [Lit ''shutdown vm '', Dec vmid])"

definition Client_StopVM :: "env \<Rightarrow> string \<Rightarrow> int \<Rightarrow> ('r sess_scheme, gerror + string) state" where
  "Client_StopVM env node vmid =
     (if node = [] then ret (Inl (Errorf [Lit ''stop vm '', Dec vmid, Lit '': node is required'']))
      else task_call env POST (qemu_path node vmid ''/status/stop'') [] [Lit ''stop vm '', Dec vmid])"

definition Client_DestroyVM ::
    "env \<Rightarrow> string \<Rightarrow> int \<Rightarrow> bool \<Rightarrow> ('r sess_scheme, gerror + string) state" where
  "Client_DestroyVM env node vmid purge =
     (if node = [] then ret (Inl (Errorf [Lit ''destroy vm '', Dec vmid, Lit '': node is required'']))
      else task_call env DELETE (qemu_path node vmid [])
             (if purge then values_Set ''purge'' ''1'' [] else []) [Lit ''destroy vm '', Dec vmid])"

section \<open>Typed reads\<close>

text \<open>A VM as \<open>GetVM\<close> returns it: go-proxmox's status fields, and the config when there is one.\<close>

record vm =
  vm_status :: vm_status_reply
  vm_config :: "vm_config option"

definition Client_GetVM :: "env \<Rightarrow> string \<Rightarrow> int \<Rightarrow> ('r sess_scheme, gerror + vm option) state" where
  "Client_GetVM env node vmid =
     (if node = [] then ret (Inl (Errorf [Lit ''get vm '', Dec vmid, Lit '': node is required'']))
      else do {
        st \<leftarrow> pc_status env (qemu_path node vmid ''/status/current'');
        case st of
          Inl e \<Rightarrow> ret (Inl (Errorf [Lit ''get vm '', Dec vmid, Lit '' status: '', Wrapped e]))
        | Inr st \<Rightarrow>
            if vs_status st = [] then
              ret (Inl (Errorf [Lit ''get vm '', Dec vmid, Lit '' status: '',
                Wrapped (Sentinel ErrUnverifiableRead), Lit '': payload carries no run status'']))
            else do {
              cfg \<leftarrow> pc_config env (qemu_path node vmid ''/config'');
              ret (case cfg of
                  Inl e \<Rightarrow> Inl (Errorf [Lit ''get vm '', Dec vmid, Lit '' config: '', Wrapped e])
                | Inr None \<Rightarrow> Inl (Errorf [Lit ''get vm '', Dec vmid, Lit '' config: '',
                    Wrapped (Sentinel ErrUnverifiableRead), Lit '': config payload was null''])
                | Inr (Some c) \<Rightarrow> Inr (Some \<lparr>vm_status = st, vm_config = Some c\<rparr>))
            }
      })"

text \<open>\<open>json.Marshal\<close> of what \<open>GetVM\<close> returned (a nil pointer is \<open>null\<close>).\<close>

definition marshal_vm :: "env \<Rightarrow> vm option \<Rightarrow> gerror + string" where
  "marshal_vm env v =
     (case v of
        None \<Rightarrow> Inr ''null''
      | Some v \<Rightarrow> (case vm_config v of
            None \<Rightarrow> e_marshal_vm env (vm_status v) \<lparr>vc_tags = [], vc_digest = [], vc_hookscript = [], vc_rest = []\<rparr>
          | Some c \<Rightarrow> e_marshal_vm env (vm_status v) c))"

definition Client_GetStorage ::
    "env \<Rightarrow> string \<Rightarrow> string \<Rightarrow> ('r sess_scheme, gerror + storage_status) state" where
  "Client_GetStorage env node name =
     (if node = [] \<or> name = [] then ret (Inl (ErrorString ''get storage: node and name are required''))
      else do {
        r \<leftarrow> pc_storage env
               (''/nodes/'' @ url_PathEscape node @ ''/storage/'' @ url_PathEscape name @ ''/status'');
        ret (case r of
            Inl e \<Rightarrow> Inl (Errorf [Lit ''get storage '', Quo name, Lit '' on '', Quo node, Lit '': '', Wrapped e])
          | Inr st \<Rightarrow>
              if st_type st = [] then Inl (Errorf [Lit ''get storage '', Quo name, Lit '' on '', Quo node, Lit '': '',
                Wrapped (Sentinel ErrUnverifiableRead), Lit '': status payload carries no storage type''])
              else Inr st)
      })"

definition Client_StorageType ::
    "env \<Rightarrow> string \<Rightarrow> string \<Rightarrow> ('r sess_scheme, gerror + string) state" where
  "Client_StorageType env node storageID = do {
     r \<leftarrow> Client_GetStorage env node storageID;
     ret (case r of Inl e \<Rightarrow> Inl (Errorf [Lit ''storage type: '', Wrapped e]) | Inr st \<Rightarrow> Inr (st_type st))
   }"

section \<open>What the calls do on the wire\<close>

lemma emits_RawRequest [emits_intro]:
  "(\<And>a. P (EHttp meth path params a)) \<Longrightarrow> emits P (RawRequest env meth path params)"
  unfolding RawRequest_def http_do_def by (intro emits_intro emits_perform)

lemma frames_RawRequest [frames_intro]: "frames (RawRequest env meth path params)"
  unfolding RawRequest_def by (intro frames_intro)

text \<open>A raw request sends at most one request; one that succeeds sent it and got a 2xx answer.\<close>

fun answered_2xx :: "http_reply \<Rightarrow> bool" where
  "answered_2xx (HAnswer code st b doc) = (200 \<le> code \<and> code < 300)"
| "answered_2xx _ = False"

lemma traces_RawRequest:
  "traces (RawRequest env meth path params)
     (\<lambda>r es. case r of
         Inl e \<Rightarrow> es = [] \<or> (\<exists>a. es = [EHttp meth path params a])
       | Inr j \<Rightarrow> \<exists>a. es = [EHttp meth path params a] \<and> answered_2xx a)"
  unfolding RawRequest_def http_do_def
  by (auto simp: traces_def perform_def raw_result_def split: option.splits http_reply.splits sum.splits)

text \<open>On a path that starts with a slash and a method it knows, the request is always sent.\<close>

lemma traces_RawRequest_sent:
  "path = CHR ''/'' # rest \<Longrightarrow> unsupported_method meth = None \<Longrightarrow>
     traces (RawRequest env meth path params) (\<lambda>r es. \<exists>a. es = [EHttp meth path params a] \<and> r = raw_result a)"
  unfolding RawRequest_def http_do_def
  by (simp add: traces_def perform_def strings_HasPrefix_def)

lemma emits_putVMConfig [emits_intro]:
  "(\<And>a. P (EHttp PUT (qemu_path node vmid ''/config'') form a)) \<Longrightarrow>
     emits P (putVMConfig env node vmid form what)"
  unfolding putVMConfig_def http_do_def by (intro emits_intro emits_perform)

lemma frames_putVMConfig [frames_intro]: "frames (putVMConfig env node vmid form what)"
  unfolding putVMConfig_def by (intro frames_intro)

lemma cas_form_Get:
  "values_Get (cas_form field val d) ''digest'' = (if d = [] \<and> field = ''digest'' then val else d)"
  "field \<noteq> ''digest'' \<Longrightarrow> values_Get (cas_form field val d) field = val"
  by (auto simp: values_Get_def values_Set_def cas_form_def update_conv')

lemma put_result_None: "put_result what a = None \<longleftrightarrow> answered_2xx a"
  by (cases a) (simp_all add: put_result_def)

lemma emits_task_call [emits_intro]:
  "(\<And>a. P (EHttp meth path form a)) \<Longrightarrow> emits P (task_call env meth path form what)"
  unfolding task_call_def by (intro emits_intro)

lemma frames_task_call [frames_intro]: "frames (task_call env meth path form what)"
  unfolding task_call_def by (intro frames_intro)

lemma traces_task_call:
  "traces (task_call env meth path form what)
     (\<lambda>r es. case r of
         Inl e \<Rightarrow> es = [] \<or> (\<exists>a. es = [EHttp meth path form a])
       | Inr u \<Rightarrow> \<exists>a. es = [EHttp meth path form a] \<and> answered_2xx a)"
  unfolding task_call_def
  by (rule traces_bind [OF traces_RawRequest], rule traces_return) (auto split: sum.splits)

text \<open>An answer that started a task, with its UPID.\<close>

definition started :: "http_reply \<Rightarrow> string \<Rightarrow> bool" where
  "started a upid \<longleftrightarrow> raw_result a = Inr (JStr upid)"

lemma decodeUPIDScalar_ok: "decodeUPIDScalar raw = Inr u \<longleftrightarrow> raw = JStr u"
  by (cases raw) (auto simp: decodeUPIDScalar_def)

lemma traces_task_call_started:
  assumes "path = CHR ''/'' # rest" and "unsupported_method meth = None"
  shows "traces (task_call env meth path form what)
     (\<lambda>r es. \<exists>a. es = [EHttp meth path form a] \<and> (\<forall>u. r = Inr u \<longrightarrow> started a u))"
  unfolding task_call_def
  by (rule traces_bind [OF traces_RawRequest_sent [OF assms]], rule traces_return)
    (auto simp: started_def decodeUPIDScalar_ok split: sum.splits)

lemma qemu_path_slash: "\<exists>rest'. qemu_path node vmid rest = CHR ''/'' # rest'"
  by (simp add: qemu_path_def)

lemma traces_StopVM:
  "traces (Client_StopVM env node vmid)
     (\<lambda>r es. es = [] \<and> (\<exists>e. r = Inl e) \<or>
        (\<exists>a. es = [EHttp POST (qemu_path node vmid ''/status/stop'') [] a] \<and> (\<forall>u. r = Inr u \<longrightarrow> started a u)))"
  unfolding Client_StopVM_def using qemu_path_slash [of node vmid "''/status/stop''"]
  by (auto intro!: traces_return traces_mono [OF traces_task_call_started])

lemma traces_ShutdownVM:
  "traces (Client_ShutdownVM env node vmid)
     (\<lambda>r es. es = [] \<and> (\<exists>e. r = Inl e) \<or>
        (\<exists>a. es = [EHttp POST (qemu_path node vmid ''/status/shutdown'') [] a] \<and> (\<forall>u. r = Inr u \<longrightarrow> started a u)))"
  unfolding Client_ShutdownVM_def using qemu_path_slash [of node vmid "''/status/shutdown''"]
  by (auto intro!: traces_return traces_mono [OF traces_task_call_started])

lemma traces_DestroyVM:
  "traces (Client_DestroyVM env node vmid purge)
     (\<lambda>r es. es = [] \<and> (\<exists>e. r = Inl e) \<or>
        (\<exists>f a. es = [EHttp DELETE (qemu_path node vmid []) f a] \<and> (\<forall>u. r = Inr u \<longrightarrow> started a u)))"
  unfolding Client_DestroyVM_def using qemu_path_slash [of node vmid "[]"]
  by (auto intro!: traces_return traces_mono [OF traces_task_call_started])

lemma emits_GetVM [emits_intro]: "emits reads (Client_GetVM env node vmid)"
  unfolding Client_GetVM_def by (intro emits_intro)

lemma frames_GetVM [frames_intro]: "frames (Client_GetVM env node vmid)"
  unfolding Client_GetVM_def by (intro frames_intro)

lemma emits_GetStorage [emits_intro]: "emits reads (Client_GetStorage env node sid)"
  unfolding Client_GetStorage_def by (intro emits_intro)

lemma emits_StorageType [emits_intro]: "emits reads (Client_StorageType env node sid)"
  unfolding Client_StorageType_def by (intro emits_intro)

lemma frames_StorageType [frames_intro]:
  "frames (Client_GetStorage env node sid)" "frames (Client_StorageType env node sid)"
  unfolding Client_StorageType_def Client_GetStorage_def by (intro frames_intro)+

lemmas lifecycle_defs =
  Client_CreateVM_def Client_CloneVM_def Client_ShutdownVM_def Client_StopVM_def Client_DestroyVM_def
  Client_SetVMConfigField_def Client_SetVMConfigFieldCAS_def
  Client_DeleteVMConfigField_def Client_DeleteVMConfigFieldCAS_def

lemma emits_remote_lifecycle [emits_intro]:
  "emits remote (Client_CreateVM env node vmid params)"
  "emits remote (Client_CloneVM env node vmid vmid' params)"
  "emits remote (Client_ShutdownVM env node vmid)" "emits remote (Client_StopVM env node vmid)"
  "emits remote (Client_DestroyVM env node vmid purge)"
  "emits remote (Client_SetVMConfigField env node vmid f v)"
  "emits remote (Client_SetVMConfigFieldCAS env node vmid f v d)"
  "emits remote (Client_DeleteVMConfigField env node vmid f)"
  "emits remote (Client_DeleteVMConfigFieldCAS env node vmid f d)"
  unfolding lifecycle_defs by (intro emits_intro; simp add: remote_def)+

lemma frames_lifecycle [frames_intro]:
  "frames (Client_CreateVM env node vmid params)"
  "frames (Client_CloneVM env node vmid vmid' params)"
  "frames (Client_ShutdownVM env node vmid)" "frames (Client_StopVM env node vmid)"
  "frames (Client_DestroyVM env node vmid purge)"
  "frames (Client_SetVMConfigField env node vmid f v)"
  "frames (Client_SetVMConfigFieldCAS env node vmid f v d)"
  "frames (Client_DeleteVMConfigField env node vmid f)"
  "frames (Client_DeleteVMConfigFieldCAS env node vmid f d)"
  unfolding lifecycle_defs by (intro frames_intro)+

text \<open>A VM that \<open>GetVM\<close> returns is there, has a run status and has a config.\<close>

lemma traces_GetVM:
  "traces (Client_GetVM env node vmid)
     (\<lambda>r es. list_all reads es \<and>
        (\<forall>v. r = Inr v \<longrightarrow> (\<exists>st c. v = Some \<lparr>vm_status = st, vm_config = Some c\<rparr> \<and> vs_status st \<noteq> [] \<and>
           es = [EStatus (qemu_path node vmid ''/status/current'') (Inr st),
                 EConfig (qemu_path node vmid ''/config'') (Inr (Some c))])))"
  unfolding Client_GetVM_def primitive_defs
  by (auto simp: traces_def perform_def reads_def split: sum.splits option.splits)

end
