(* ===== verification/PveTask.thy ===== *)
theory PveTask
  imports PveClient
begin

text \<open>
  Waiting for a PVE task (\<open>internal/pve/task.go\<close>): the UPID grammar, the verdict on an exit status,
  the classes of poll errors, and the poll loop.  The timers are modelled by their production
  values: a wait of ten minutes polled every second lets at most \<open>task_wait_ticks\<close> ticks pass
  before the deadline of the wait has fired, so the loop recurses on the ticks that are left.
\<close>

section \<open>The UPID grammar\<close>

definition is_hex :: "char \<Rightarrow> bool" where
  "is_hex c \<longleftrightarrow>
     is_digit c \<or> char_in (CHR ''A'') (CHR ''F'') c \<or> char_in (CHR ''a'') (CHR ''f'') c"

definition upid_node_ok :: "string \<Rightarrow> bool" where
  "upid_node_ok n \<longleftrightarrow>
     n \<noteq> [] \<and> is_alnum (hd n) \<and> is_alnum (last n) \<and> list_all (\<lambda>c. is_alnum c \<or> c = CHR ''-'') n"

text \<open>
  \<open>upidGrammar\<close>: the fields between the colons; the three groups are type, id and user.  None of
  the field patterns admits a colon, so the match is the split at the colons.
\<close>

definition upid_fields :: "string \<Rightarrow> (string \<times> string \<times> string) option" where
  "upid_fields upid =
     (case strings_Split upid CHR '':'' of
        [tag, node, pid, pstart, start, typ, ident, user, final] \<Rightarrow>
          if tag = ''UPID'' \<and> upid_node_ok node
             \<and> length pid = 8 \<and> list_all is_hex pid
             \<and> (length pstart = 8 \<or> length pstart = 9) \<and> list_all is_hex pstart
             \<and> length start = 8 \<and> list_all is_hex start
             \<and> typ \<noteq> [] \<and> CHR ''/'' \<notin> set typ \<and> CHR ''/'' \<notin> set ident
             \<and> user \<noteq> [] \<and> CHR ''/'' \<notin> set user \<and> final = []
          then Some (typ, ident, user) else None
      | _ \<Rightarrow> None)"

text \<open>\<open>unicode.IsSpace\<close> or \<open>unicode.IsControl\<close> of some rune: the UTF-8 encodings of those runes.\<close>

definition has_space_or_control :: "string \<Rightarrow> bool" where
  "has_space_or_control s \<longleftrightarrow>
     list_ex (\<lambda>e. sublist e s) space_encodings
     \<or> list_ex (\<lambda>c. (of_char c :: nat) < 32 \<or> c = CHR 0x7F) s
     \<or> list_ex (\<lambda>i. sublist [CHR 0xC2, char_of i] s) [128..<160 :: nat]"

definition validateUPIDShape :: "string \<Rightarrow> gerror option" where
  "validateUPIDShape upid =
     (case upid_fields upid of
        None \<Rightarrow> Some (Errorf [Lit ''malformed upid '', Quo upid, Lit ('': not PVE'' @ [CHR 0x27] @
          ''s UPID:<node>:<pid>:<pstart>:<starttime>:<type>:<id>:<user>: form: ''),
          Wrapped (Sentinel ErrUnverifiableRead)])
      | Some (typ, ident, user) \<Rightarrow>
          (case find (\<lambda>(name, field). has_space_or_control field)
                  [(''type'', typ), (''id'', ident), (''user'', user)] of
             Some (name, field) \<Rightarrow> Some (Errorf [Lit ''malformed upid '', Quo upid, Lit '': its '', Lit name,
               Lit '' field holds whitespace or a control character: '',
               Wrapped (Sentinel ErrUnverifiableRead)])
           | None \<Rightarrow> None))"

definition UPIDNode :: "string \<Rightarrow> gerror + string" where
  "UPIDNode upid =
     (case validateUPIDShape upid of
        Some e \<Rightarrow> Inl e
      | None \<Rightarrow> Inr (strings_Split upid CHR '':'' ! 1))"

section \<open>Verdicts and classes of errors\<close>

definition taskExitOK :: string where
  "taskExitOK = ''OK''"

definition taskExitSucceeded :: "string \<Rightarrow> bool" where
  "taskExitSucceeded ex \<longleftrightarrow>
     ex = taskExitOK \<or>
     (let n = strings_TrimPrefix ex ''WARNINGS: ''
      in strings_HasPrefix ex ''WARNINGS: '' \<and> n \<noteq> [] \<and> list_all is_digit n)"

definition isTransientPollError :: "gerror \<Rightarrow> bool" where
  "isTransientPollError e =
     (if errors_Is e ErrNoTaskStatus then True
      else case errors_As (\<lambda>x. case x of ProxmoxStatusError code st b \<Rightarrow> Some code | _ \<Rightarrow> None) e of
          Some code \<Rightarrow> code = 502 \<or> code = 503 \<or> code = 504 \<or> 595 \<le> code \<and> code \<le> 599
        | None \<Rightarrow> errors_As (\<lambda>x. case x of URLError t \<Rightarrow> Some () | _ \<Rightarrow> None) e \<noteq> None)"

definition IsTaskTimeoutError :: "gerror \<Rightarrow> bool" where
  "IsTaskTimeoutError e \<longleftrightarrow> errors_Is e ErrTimeout"

definition IsTaskOutcomeUnknown :: "gerror \<Rightarrow> bool" where
  "IsTaskOutcomeUnknown e \<longleftrightarrow>
     errors_As (\<lambda>x. case x of TaskOutcomeUnknown c \<Rightarrow> Some () | _ \<Rightarrow> None) e \<noteq> None"

text \<open>Whether a \<open>*TaskFailedError\<close> is in the chain of the error, as its callers ask.\<close>

definition is_TaskFailed :: "gerror \<Rightarrow> bool" where
  "is_TaskFailed e \<longleftrightarrow>
     errors_As (\<lambda>x. case x of TaskFailedError u t \<Rightarrow> Some () | _ \<Rightarrow> None) e \<noteq> None"

section \<open>The poll loop\<close>

definition TaskWaitCeiling :: nat where
  "TaskWaitCeiling = 600"

definition defaultTaskPollInterval :: nat where
  "defaultTaskPollInterval = 1"

definition task_wait_ticks :: nat where
  "task_wait_ticks = TaskWaitCeiling div defaultTaskPollInterval"

definition maxConsecutiveTransientPolls :: nat where
  "maxConsecutiveTransientPolls = 3"

definition pollTask :: "env \<Rightarrow> string \<Rightarrow> ('r sess_scheme, gerror + task_status) state" where
  "pollTask env upid = do {
     r \<leftarrow> task_ping env upid;
     ret (case r of
         Inl e \<Rightarrow> Inl e
       | Inr st \<Rightarrow> if ts_status st = [] then Inl (Sentinel ErrNoTaskStatus) else Inr st)
   }"

definition task_prefix :: "string \<Rightarrow> frag list" where
  "task_prefix upid =
     (if upid = [] then [Lit ''wait for task''] else [Lit ''wait for task '', Lit upid])"

definition outcomeUnknown :: "string \<Rightarrow> gerror \<Rightarrow> gerror" where
  "outcomeUnknown upid cause =
     Errorf (task_prefix upid @ [Lit '': '', Wrapped (TaskOutcomeUnknown cause)])"

text \<open>
  One turn of the loop: the \<open>switch\<close> over a poll, which ends the wait (\<open>Inl\<close>) or goes on with a
  count of transient failures (\<open>Inr\<close>), and the \<open>select\<close> between two polls.
\<close>

definition poll_switch ::
    "env \<Rightarrow> string \<Rightarrow> string \<Rightarrow> nat \<Rightarrow> ('r sess_scheme, gerror option + nat) state" where
  "poll_switch env node upid transient = do {
     polled \<leftarrow> pollTask env upid;
     case polled of
       Inr task \<Rightarrow>
         if ts_status task = ''running'' then ret (Inr 0)
         else if ts_status task = ''stopped'' then
           if taskExitSucceeded (ts_exitstatus task) then
             if ts_exitstatus task \<noteq> taskExitOK
             then do { _ \<leftarrow> note_event (EWarnings node upid (ts_exitstatus task)); ret (Inl None) }
             else ret (Inl None)
           else if ts_exitstatus task = [] then
             ret (Inl (Some (outcomeUnknown upid (Errorf
               [Lit ''task status poll reported stopped with no exit status: '',
                Wrapped (Sentinel ErrUnverifiableRead)]))))
           else ret (Inl (Some (TaskFailedError upid (ts_exitstatus task))))
         else ret (Inl (Some (outcomeUnknown upid (Errorf
             [Lit ''task status poll reported unknown status '', Quo (ts_status task), Lit '': '',
              Wrapped (Sentinel ErrUnverifiableRead)]))))
     | Inl cause \<Rightarrow> do {
         ended \<leftarrow> ctx_Err env;
         ret (if ended \<noteq> None then Inl (Some (outcomeUnknown upid cause))
              else if isTransientPollError cause then
                if maxConsecutiveTransientPolls < transient + 1
                then Inl (Some (outcomeUnknown upid cause))
                else Inr (transient + 1)
              else Inl (Some (outcomeUnknown upid cause)))
       }
   }"

definition wait_turn ::
    "env \<Rightarrow> string \<Rightarrow> string \<Rightarrow> nat \<Rightarrow> (nat \<Rightarrow> ('r sess_scheme, gerror option) state) \<Rightarrow>
       ('r sess_scheme, gerror option) state" where
  "wait_turn env node upid transient again = do {
     v \<leftarrow> poll_switch env node upid transient;
     case v of
       Inl r \<Rightarrow> ret r
     | Inr transient' \<Rightarrow> do {
         sel \<leftarrow> select_wait env;
         case sel of
           SelCtxDone e \<Rightarrow> ret (Some (outcomeUnknown upid e))
         | SelDeadline \<Rightarrow> ret (Some (outcomeUnknown upid (LibrarySentinel ErrTimeout (e_timeout_text env))))
         | SelTick \<Rightarrow> again transient'
       }
   }"

primrec wait_loop ::
    "env \<Rightarrow> string \<Rightarrow> string \<Rightarrow> nat \<Rightarrow> nat \<Rightarrow> ('r sess_scheme, gerror option) state" where
  "wait_loop env node upid transient 0 =
     wait_turn env node upid transient
       (\<lambda>_. ret (Some (outcomeUnknown upid (LibrarySentinel ErrTimeout (e_timeout_text env)))))"
| "wait_loop env node upid transient (Suc n) =
     wait_turn env node upid transient (\<lambda>transient'. wait_loop env node upid transient' n)"

definition WaitForTask :: "env \<Rightarrow> string \<Rightarrow> string \<Rightarrow> ('r sess_scheme, gerror option) state" where
  "WaitForTask env node upid =
     (if upid = [] then ret (Some (outcomeUnknown upid (ErrorString ''upid is required'')))
      else case validateUPIDShape upid of
          Some e \<Rightarrow> ret (Some (outcomeUnknown upid e))
        | None \<Rightarrow>
            if node = [] then ret (Some (outcomeUnknown upid (ErrorString ''node is required'')))
            else case e_parse_node env upid of
                None \<Rightarrow> ret (Some (outcomeUnknown upid (ErrorString ''empty upid'')))
              | Some n \<Rightarrow>
                  if n \<noteq> node then
                    ret (Some (outcomeUnknown upid (Errorf [Lit ''upid '', Quo upid, Lit '' is for node '',
                      Quo n, Lit '', not '', Quo node])))
                  else wait_loop env node upid 0 task_wait_ticks)"

section \<open>Properties of the wait\<close>

lemma emits_poll_switch [emits_intro]: "emits reads (poll_switch env node upid t)"
  unfolding poll_switch_def pollTask_def note_event_def
  by (intro emits_intro emits_perform) (simp_all add: reads_def)

lemma frames_poll_switch [frames_intro]: "frames (poll_switch env node upid t)"
  unfolding poll_switch_def pollTask_def by (intro frames_intro)

lemma emits_case_select [emits_intro]:
  "(\<And>e. x = SelCtxDone e \<Longrightarrow> emits P (f e)) \<Longrightarrow> (x = SelDeadline \<Longrightarrow> emits P m) \<Longrightarrow>
     (x = SelTick \<Longrightarrow> emits P n) \<Longrightarrow>
     emits P (case x of SelCtxDone e \<Rightarrow> f e | SelDeadline \<Rightarrow> m | SelTick \<Rightarrow> n)"
  by (cases x) auto

lemma frames_case_select [frames_intro]:
  "(\<And>e. frames (f e)) \<Longrightarrow> frames m \<Longrightarrow> frames n \<Longrightarrow>
     frames (case x of SelCtxDone e \<Rightarrow> f e | SelDeadline \<Rightarrow> m | SelTick \<Rightarrow> n)"
  by (cases x) auto

lemma emits_wait_loop: "emits reads (wait_loop env node upid t n)"
  by (induction n arbitrary: t) (auto simp: wait_turn_def intro!: emits_intro)

lemma frames_wait_loop: "frames (wait_loop env node upid t n)"
  by (induction n arbitrary: t) (auto simp: wait_turn_def intro!: frames_intro)

lemma emits_WaitForTask [emits_intro]: "emits reads (WaitForTask env node upid)"
  unfolding WaitForTask_def by (intro emits_intro emits_wait_loop)

lemma frames_WaitForTask [frames_intro]: "frames (WaitForTask env node upid)"
  unfolding WaitForTask_def by (intro frames_intro frames_wait_loop)

text \<open>A poll in the log that saw the task stopped with a successful exit status.\<close>

definition task_seen_ok :: "string \<Rightarrow> event list \<Rightarrow> bool" where
  "task_seen_ok upid es \<longleftrightarrow>
     (\<exists>st. ETask upid (Inr st) \<in> set es \<and> ts_status st = ''stopped'' \<and>
           taskExitSucceeded (ts_exitstatus st))"

lemma task_seen_ok_append [simp]:
  "task_seen_ok upid (es @ fs) \<longleftrightarrow> task_seen_ok upid es \<or> task_seen_ok upid fs"
  by (auto simp: task_seen_ok_def)

lemma task_seen_ok_Cons [intro]: "task_seen_ok upid es \<Longrightarrow> task_seen_ok upid (e # es)"
  by (auto simp: task_seen_ok_def)

text \<open>A request that started a task, which was then seen to end well.\<close>

definition ended_well :: "http_method \<Rightarrow> string \<Rightarrow> event list \<Rightarrow> bool" where
  "ended_well m p es \<longleftrightarrow> (\<exists>f a u. EHttp m p f a \<in> set es \<and> started a u \<and> task_seen_ok u es)"

lemma ended_wellI: "EHttp m p f a \<in> set es \<Longrightarrow> started a u \<Longrightarrow> task_seen_ok u es \<Longrightarrow> ended_well m p es"
  unfolding ended_well_def by blast

lemma ended_well_append: "ended_well m p es \<or> ended_well m p fs \<Longrightarrow> ended_well m p (es @ fs)"
  by (auto simp: ended_well_def)

fun is_poll :: "event \<Rightarrow> bool" where
  "is_poll (ETask u r) = True"
| "is_poll _ = False"

definition polls :: "event list \<Rightarrow> nat" where
  "polls es = length (filter is_poll es)"

lemma polls_Nil [simp]: "polls [] = 0"
  by (simp add: polls_def)

lemma polls_append [simp]: "polls (es @ fs) = polls es + polls fs"
  by (simp add: polls_def)

text \<open>
  What one poll contributes: exactly one poll event, a verdict of success only on a successful
  task, and errors of the two classes only (given what the client library can return).
\<close>

definition wait_errors_ok :: "(gerror \<Rightarrow> bool) \<Rightarrow> env \<Rightarrow> bool" where
  "wait_errors_ok Q env \<longleftrightarrow>
     (\<forall>h u e. e_task env h u = Inl e \<longrightarrow> Q e) \<and> (\<forall>h e. e_select env h = SelCtxDone e \<longrightarrow> Q e)"

definition wait_error_class :: "(gerror \<Rightarrow> bool) \<Rightarrow> string \<Rightarrow> gerror \<Rightarrow> bool" where
  "wait_error_class Q upid e \<longleftrightarrow>
     (\<exists>x. e = TaskFailedError upid x \<and> \<not> taskExitSucceeded x \<and> x \<noteq> []) \<or>
     (\<exists>c. e = outcomeUnknown upid c \<and> (Q c \<or> \<not> is_TaskFailed c))"

lemma traces_poll_switch:
  assumes "wait_errors_ok Q env"
  shows "traces (poll_switch env node upid t)
     (\<lambda>v es. polls es = 1 \<and> (v = Inl None \<longrightarrow> task_seen_ok upid es) \<and>
        (\<forall>e. v = Inl (Some e) \<longrightarrow> wait_error_class Q upid e))"
  unfolding poll_switch_def pollTask_def primitive_defs
  using assms
  by (auto simp: traces_def perform_def polls_def task_seen_ok_def wait_errors_ok_def
      wait_error_class_def is_TaskFailed_def go_error split: sum.splits if_splits)

abbreviation wait_spec :: "(gerror \<Rightarrow> bool) \<Rightarrow> string \<Rightarrow> nat \<Rightarrow> gerror option \<Rightarrow> event list \<Rightarrow> bool" where
  "wait_spec Q upid k r es \<equiv>
     polls es \<le> k \<and> (r = None \<longrightarrow> task_seen_ok upid es) \<and>
     (\<forall>e. r = Some e \<longrightarrow> wait_error_class Q upid e)"

lemma traces_select_wait:
  assumes "wait_errors_ok Q env"
  shows "traces (select_wait env) (\<lambda>sel fs. polls fs = 0 \<and> (\<forall>e. sel = SelCtxDone e \<longrightarrow> Q e))"
  unfolding select_wait_def using assms
  by (intro traces_perform) (simp add: polls_def wait_errors_ok_def)

lemma traces_wait_turn:
  assumes Q: "wait_errors_ok Q env" and again: "\<And>t'. traces (again t') (wait_spec Q upid k)"
  shows "traces (wait_turn env node upid t again) (wait_spec Q upid (Suc k))"
  unfolding wait_turn_def
proof (rule traces_bind [OF traces_poll_switch [OF Q]], rule traces_case_sum, goal_cases)
  case (1 v es r)
  then show ?case by (auto intro!: traces_return)
next
  case v: (2 v es t')
  show ?case
  proof (rule traces_bind [OF traces_select_wait [OF Q]], rule traces_case_select, goal_cases)
    case 3
    with v show ?case by (auto intro!: traces_mono [OF again])
  qed (use v in \<open>auto intro!: traces_return simp: wait_error_class_def is_TaskFailed_def go_error\<close>)
qed

lemma traces_wait_loop:
  assumes "wait_errors_ok Q env"
  shows "traces (wait_loop env node upid t n) (wait_spec Q upid (Suc n))"
proof (induction n arbitrary: t)
  case 0
  show ?case
    unfolding wait_loop.simps
    by (rule traces_wait_turn [OF assms]) (auto intro!: traces_return simp: wait_error_class_def is_TaskFailed_def go_error)
next
  case (Suc n)
  show ?case
    unfolding wait_loop.simps by (rule traces_wait_turn [OF assms]) (rule Suc.IH)
qed

lemma is_TaskFailed_simps [simp]:
  "is_TaskFailed (outcomeUnknown upid c) = is_TaskFailed c"
  "is_TaskFailed (TaskFailedError u x)"
  "\<not> is_TaskFailed (ErrorString t)"
  "\<not> is_TaskFailed (Sentinel st)"
  by (simp_all add: is_TaskFailed_def outcomeUnknown_def task_prefix_def go_error split: option.splits)

lemma IsTaskOutcomeUnknown_simps [simp]:
  "IsTaskOutcomeUnknown (outcomeUnknown upid c)"
  "\<not> IsTaskOutcomeUnknown (TaskFailedError u x)"
  by (simp_all add: IsTaskOutcomeUnknown_def outcomeUnknown_def task_prefix_def go_error)

lemma validateUPIDShape_not_TaskFailed: "validateUPIDShape upid = Some e \<Longrightarrow> \<not> is_TaskFailed e"
  by (auto simp: validateUPIDShape_def is_TaskFailed_def go_error split: option.splits prod.splits)

lemma traces_WaitForTask:
  assumes "wait_errors_ok Q env"
  shows "traces (WaitForTask env node upid) (wait_spec Q upid (Suc task_wait_ticks))"
  unfolding WaitForTask_def
  by (intro traces_split traces_wait_loop [OF assms] traces_return)
    (auto simp: wait_error_class_def is_TaskFailed_def go_error dest: validateUPIDShape_not_TaskFailed
      [unfolded is_TaskFailed_def])

lemma traces_WaitForTask_ok:
  "traces (WaitForTask env node upid) (\<lambda>r es. list_all reads es \<and> (r = None \<longrightarrow> task_seen_ok upid es))"
proof -
  have "wait_errors_ok (\<lambda>_. True) env" by (simp add: wait_errors_ok_def)
  from traces_conj [OF traces_WaitForTask [OF this] emits_WaitForTask] show ?thesis
    by (rule traces_mono) auto
qed

text \<open>
  C24: a wait that succeeds saw a poll with the task stopped and a successful exit status; it only
  read, and it polled at most 601 times.
\<close>

theorem WaitForTask_success:
  assumes "run_state (WaitForTask env node upid) s = (None, s')"
  shows "\<exists>es. log s' = log s @ es \<and> list_all reads es \<and> polls es \<le> 601 \<and>
           (\<exists>st. ETask upid (Inr st) \<in> set es \<and> ts_status st = ''stopped'' \<and>
                 taskExitSucceeded (ts_exitstatus st))"
proof -
  have "wait_errors_ok (\<lambda>_. True) env" by (simp add: wait_errors_ok_def)
  from traces_runD [OF traces_conj [OF traces_WaitForTask [OF this] emits_WaitForTask] assms]
  show ?thesis
    by (auto simp: task_seen_ok_def task_wait_ticks_def TaskWaitCeiling_def defaultTaskPollInterval_def)
qed

text \<open>
  C25: every error of a wait is exactly one of the two classes, when the errors of the client
  library and of the context hold no \<open>TaskFailedError\<close> (a type of this program).
\<close>

theorem WaitForTask_error_classes:
  assumes "\<And>h u c. e_task env h u = Inl c \<Longrightarrow> \<not> is_TaskFailed c"
    and "\<And>h c. e_select env h = SelCtxDone c \<Longrightarrow> \<not> is_TaskFailed c"
    and "run_state (WaitForTask env node upid) s = (Some e, s')"
  shows "is_TaskFailed e \<longleftrightarrow> \<not> IsTaskOutcomeUnknown e"
proof -
  have "wait_errors_ok (\<lambda>c. \<not> is_TaskFailed c) env"
    using assms(1,2) by (auto simp: wait_errors_ok_def)
  from traces_runD [OF traces_WaitForTask [OF this] assms(3)]
  have "wait_error_class (\<lambda>c. \<not> is_TaskFailed c) upid e" by auto
  then show ?thesis by (auto simp: wait_error_class_def)
qed


section \<open>A wait that succeeds\<close>

definition demo_upid :: string where
  "demo_upid = ''UPID:pve1:00001234:00ABCDEF:65000000:qmdestroy:100:root@pam:''"

definition upid_answer :: http_reply where
  "upid_answer = HAnswer 200 ''200 OK'' ''{..}'' (Some (JObj ''{..}'' [(''data'', JStr demo_upid)]))"

lemma raw_upid: "raw_result upid_answer = Inr (JStr demo_upid)"
  by code_simp

lemma validate_demo_upid: "validateUPIDShape demo_upid = None" "demo_upid \<noteq> []"
  by code_simp+

lemma run_wait_loop:
  assumes "e_task env (log s) upid = Inr \<lparr>ts_status = ''stopped'', ts_exitstatus = ''OK''\<rparr>"
  shows "run_state (wait_loop env node upid t n) s =
     (None, s\<lparr>log := log s @ [ETask upid (Inr \<lparr>ts_status = ''stopped'', ts_exitstatus = ''OK''\<rparr>)]\<rparr>)"
  using assms
  by (cases n) (simp_all add: wait_turn_def poll_switch_def pollTask_def task_ping_def run_simps
      taskExitSucceeded_def taskExitOK_def)

lemma run_WaitForTask_calm [run_simps]:
  assumes "e_parse_node env demo_upid = Some node" and "node \<noteq> []"
    and "e_task env (log s) demo_upid = Inr \<lparr>ts_status = ''stopped'', ts_exitstatus = ''OK''\<rparr>"
  shows "run_state (WaitForTask env node demo_upid) s =
     (None, s\<lparr>log := log s @ [ETask demo_upid (Inr \<lparr>ts_status = ''stopped'', ts_exitstatus = ''OK''\<rparr>)]\<rparr>)"
  using assms
  by (simp add: WaitForTask_def validate_demo_upid run_wait_loop)

theorem WaitForTask_success_witness:
  "\<exists>es. log (snd (run_state (WaitForTask calm ''pve1'' demo_upid) fresh)) = es \<and> polls es \<le> 601 \<and>
        (\<exists>st. ETask demo_upid (Inr st) \<in> set es \<and> taskExitSucceeded (ts_exitstatus st))"
proof -
  have "run_state (WaitForTask calm ''pve1'' demo_upid) fresh =
      (None, snd (run_state (WaitForTask calm ''pve1'' demo_upid) fresh))"
    by (simp add: run_WaitForTask_calm)
  from WaitForTask_success [OF this] show ?thesis by auto
qed

theorem WaitForTask_error_classes_witness:
  "\<exists>e. fst (run_state (WaitForTask calm ''pve2'' demo_upid) fresh) = Some e \<and>
       \<not> is_TaskFailed e \<and> IsTaskOutcomeUnknown e"
proof -
  obtain e where e: "fst (run_state (WaitForTask calm ''pve2'' demo_upid) fresh) = Some e"
    and unknown: "IsTaskOutcomeUnknown e"
    by (simp add: WaitForTask_def validate_demo_upid)
  from e have "run_state (WaitForTask calm ''pve2'' demo_upid) fresh =
      (Some e, snd (run_state (WaitForTask calm ''pve2'' demo_upid) fresh))"
    by (metis prod.collapse)
  from WaitForTask_error_classes [OF _ _ this] e unknown show ?thesis by auto
qed

end
