(* ===== verification/PveCluster.thy ===== *)
theory PveCluster
  imports PveClient
begin

text \<open>
  The cluster-wide reads of \<open>internal/pve\<close>: the search for a free vmid (\<open>nextvmid.go\<close>), the lookup of
  a VM by tag (\<open>findbytag.go\<close>) and the check whether a tag is still claimed (\<open>vmdestroy.go\<close>).
\<close>

section \<open>Tags of cluster resources\<close>

fun nullEntry_from :: "int \<Rightarrow> 'a option list \<Rightarrow> int" where
  "nullEntry_from i [] = - 1"
| "nullEntry_from i (None # xs) = i"
| "nullEntry_from i (Some x # xs) = nullEntry_from (i + 1) xs"

definition nullEntry :: "'a option list \<Rightarrow> int" where
  "nullEntry xs = nullEntry_from 0 xs"

definition tag_separator :: char where
  "tag_separator = CHR '';''"

definition has_tag :: "cluster_resource \<Rightarrow> string \<Rightarrow> bool" where
  "has_tag r tag \<longleftrightarrow> tag \<in> set (strings_Split (cr_tags r) tag_separator)"

text \<open>The entries of a resource list that holds no null (checked by the callers).\<close>

definition entries_of :: "'a option list \<Rightarrow> 'a list" where
  "entries_of xs = concat (map (\<lambda>e. case e of None \<Rightarrow> [] | Some r \<Rightarrow> [r]) xs)"

definition FindByTag :: "env \<Rightarrow> string \<Rightarrow> ('r sess_scheme, gerror + cluster_resource) state" where
  "FindByTag env tag =
     (if tag = [] then ret (Inl (ErrorString ''find by tag: tag is required''))
      else if strings_Contains tag [tag_separator] then
        ret (Inl (Errorf [Lit ''find by tag: tag '', Quo tag, Lit '' contains the tag separator '',
          Quo [tag_separator]]))
      else do {
        resources \<leftarrow> pc_resources env;
        ret (case resources of
            Inl e \<Rightarrow> Inl (Errorf [Lit ''find by tag '', Quo tag, Lit '': '', Wrapped e])
          | Inr None \<Rightarrow> Inl (Errorf [Lit ''find by tag '', Quo tag, Lit '': '',
              Wrapped (Sentinel ErrUnverifiableRead), Lit '': resource list payload was null''])
          | Inr (Some xs) \<Rightarrow>
              if nullEntry xs \<ge> 0 then
                Inl (Errorf [Lit ''find by tag '', Quo tag, Lit '': '',
                  Wrapped (Sentinel ErrUnverifiableRead), Lit '': resource list entry '', Dec (nullEntry xs),
                  Lit '' is null''])
              else
                (case filter (\<lambda>r. cr_type r = ''qemu'' \<and> has_tag r tag) (entries_of xs) of
                   [] \<Rightarrow> Inl (Errorf [Lit ''find by tag '', Quo tag, Lit '': '', Wrapped (Sentinel ErrNotFound)])
                 | [r] \<Rightarrow> Inr r
                 | r # q # rs \<Rightarrow> Inl (Errorf [Lit ''find by tag '', Quo tag, Lit '': '',
                     Dec (int (length rs + 2)), Lit '' matches: '', Wrapped (Sentinel ErrAmbiguousTag)])))
      })"

definition TagStillClaimed ::
    "env \<Rightarrow> string \<Rightarrow> int \<Rightarrow> ('r sess_scheme, gerror + bool) state" where
  "TagStillClaimed env tag excludeVMID =
     (if tag = [] then ret (Inl (ErrorString ''tag still claimed: tag is required''))
      else do {
        resources \<leftarrow> pc_resources env;
        ret (case resources of
            Inl e \<Rightarrow> Inl (Errorf [Lit ''tag still claimed '', Quo tag, Lit '': '', Wrapped e])
          | Inr None \<Rightarrow> Inl (Errorf [Lit ''tag still claimed '', Quo tag, Lit '': '',
              Wrapped (Sentinel ErrUnverifiableRead), Lit '': resource list payload was null''])
          | Inr (Some xs) \<Rightarrow>
              if nullEntry xs \<ge> 0 then
                Inl (Errorf [Lit ''tag still claimed '', Quo tag, Lit '': '',
                  Wrapped (Sentinel ErrUnverifiableRead), Lit '': resource list entry '', Dec (nullEntry xs),
                  Lit '' is null''])
              else Inr (list_ex (\<lambda>r. cr_type r = ''qemu'' \<and> cr_vmid r \<noteq> nat (excludeVMID mod 2 ^ 64)
                                   \<and> has_tag r tag) (entries_of xs)))
      })"

section \<open>The next vmid\<close>

definition isVMIDTakenError :: "gerror \<Rightarrow> int \<Rightarrow> bool" where
  "isVMIDTakenError e vmid \<longleftrightarrow>
     strings_Contains (strings_ToLower (err_text e))
       (strings_ToLower (''VM '' @ strconv_Itoa vmid @ '' already exists''))"

definition vmidFree :: "env \<Rightarrow> int \<Rightarrow> ('r sess_scheme, gerror + bool) state" where
  "vmidFree env vmid = do {
     r \<leftarrow> pc_nextid env (''/cluster/nextid?vmid='' @ strconv_Itoa vmid);
     ret (case r of
         Inr answer \<Rightarrow>
           if answer = [] then Inl (Errorf [Lit ''check vmid '', Dec vmid, Lit '': '',
             Wrapped (Sentinel ErrUnverifiableRead), Lit '': nextid payload was null''])
           else Inr True
       | Inl e \<Rightarrow> if isVMIDTakenError e vmid then Inr False else Inl e)
   }"

definition maxNextVMIDWalkAttempts :: nat where
  "maxNextVMIDWalkAttempts = 1000"

primrec walk_vmids ::
    "env \<Rightarrow> int list \<Rightarrow> int \<Rightarrow> nat list \<Rightarrow> ('r sess_scheme, gerror + int) state" where
  "walk_vmids env exclude candidate [] =
     ret (Inl (Errorf [Lit ''next vmid: no free vmid found within '', Dec (int maxNextVMIDWalkAttempts),
       Lit '' attempts past '', Dec candidate]))"
| "walk_vmids env exclude candidate (i # is) =
     (let vmid = int64 (candidate + int i) in
      if vmid \<in> set exclude then walk_vmids env exclude candidate is
      else do {
        free \<leftarrow> vmidFree env vmid;
        case free of
          Inl e \<Rightarrow> ret (Inl (Errorf [Lit ''next vmid: check '', Dec vmid, Lit '': '', Wrapped e]))
        | Inr True \<Rightarrow> ret (Inr vmid)
        | Inr False \<Rightarrow> walk_vmids env exclude candidate is
      })"

definition NextVMID :: "env \<Rightarrow> int \<Rightarrow> int list \<Rightarrow> ('r sess_scheme, gerror + int) state" where
  "NextVMID env pin exclude =
     (if pin \<noteq> 0 then
        if pin \<in> set exclude then
          ret (Inl (Errorf [Lit ''next vmid: pin '', Dec pin, Lit '' is also in the exclude list'']))
        else do {
          free \<leftarrow> vmidFree env pin;
          ret (case free of
              Inl e \<Rightarrow> Inl (Errorf [Lit ''next vmid: check pin '', Dec pin, Lit '': '', Wrapped e])
            | Inr False \<Rightarrow> Inl (Errorf [Lit ''next vmid: pin '', Dec pin, Lit '' is already taken''])
            | Inr True \<Rightarrow> Inr pin)
        }
      else do {
        raw \<leftarrow> pc_nextid env ''/cluster/nextid'';
        case raw of
          Inl e \<Rightarrow> ret (Inl (Errorf [Lit ''next vmid: '', Wrapped e]))
        | Inr raw \<Rightarrow>
            (case strconv_Atoi raw of
               None \<Rightarrow> ret (Inl (Errorf [Lit ''next vmid: parse nextid response '', Quo raw,
                         Lit '': invalid syntax'']))
             | Some candidate \<Rightarrow>
                 if candidate \<notin> set exclude then ret (Inr candidate)
                 else walk_vmids env exclude candidate [1..<maxNextVMIDWalkAttempts + 1])
      })"

section \<open>Properties\<close>

lemma nullEntry_neg_iff: "nullEntry xs < 0 \<longleftrightarrow> None \<notin> set xs"
proof -
  have "0 \<le> i \<Longrightarrow> nullEntry_from i xs < 0 \<longleftrightarrow> None \<notin> set xs" for i
    by (induction i xs rule: nullEntry_from.induct) auto
  then show ?thesis by (simp add: nullEntry_def)
qed

lemma set_entries_of: "set (entries_of xs) = {r. Some r \<in> set xs}"
  by (force simp: entries_of_def split: option.splits)

lemma emits_cluster_reads [emits_intro]:
  "emits reads (FindByTag env tag)" "emits reads (TagStillClaimed env tag vmid)"
  "emits reads (vmidFree env vmid)"
  unfolding FindByTag_def TagStillClaimed_def vmidFree_def by (intro emits_intro)+

lemma frames_cluster_reads [frames_intro]:
  "frames (FindByTag env tag)" "frames (TagStillClaimed env tag vmid)" "frames (vmidFree env vmid)"
  unfolding FindByTag_def TagStillClaimed_def vmidFree_def by (intro frames_intro)+

definition vouched_free :: "int \<Rightarrow> event list \<Rightarrow> bool" where
  "vouched_free vmid es \<longleftrightarrow>
     (\<exists>a. ENextID (''/cluster/nextid?vmid='' @ strconv_Itoa vmid) (Inr a) \<in> set es \<and> a \<noteq> [])"

lemma vouched_free_append [simp]:
  "vouched_free v (es @ fs) \<longleftrightarrow> vouched_free v es \<or> vouched_free v fs"
  "vouched_free v (ENextID ''/cluster/nextid'' r # es) \<longleftrightarrow> vouched_free v es"
  by (auto simp: vouched_free_def)

lemma traces_vmidFree:
  "traces (vmidFree env vmid) (\<lambda>r es. r = Inr True \<longrightarrow> vouched_free vmid es)"
  unfolding vmidFree_def pc_nextid_def
  by (auto simp: traces_def perform_def vouched_free_def split: sum.splits if_splits)

lemma traces_pc_nextid: "traces (pc_nextid env p) (\<lambda>r es. es = [ENextID p r])"
  unfolding pc_nextid_def by (rule traces_perform) simp

lemma traces_walk_vmids:
  "traces (walk_vmids env exclude candidate is)
     (\<lambda>r es. \<forall>v. r = Inr v \<longrightarrow> v \<notin> set exclude \<and> vouched_free v es \<and>
        (\<exists>i\<in>set is. v = int64 (candidate + int i)))"
proof (induction "is")
  case Nil
  show ?case by (simp add: traces_return)
next
  case (Cons i "is")
  show ?case
    unfolding walk_vmids.simps Let_def
  proof (rule traces_if, goal_cases)
    case 1
    show ?case by (rule traces_mono [OF Cons.IH]) auto
  next
    case 2
    show ?case
    proof (rule traces_bind [OF traces_vmidFree], rule traces_case_sum, goal_cases)
      case (1 free es e)
      then show ?case by (simp add: traces_return)
    next
      case (2 free es b)
      with \<open>int64 (candidate + int i) \<notin> set exclude\<close> show ?case
        by (cases b) (auto intro!: traces_return traces_mono [OF Cons.IH] simp: vouched_free_def)
    qed
  qed
qed

text \<open>
  A vmid that \<open>NextVMID\<close> hands out is never one the caller excluded; a pin is handed out as it
  is and only after PVE vouched for it; without a pin the answer is PVE's own suggestion, or one
  within 1000 past it that PVE vouched for.
\<close>

theorem NextVMID_sound:
  assumes "run_state (NextVMID env pin exclude) s = (Inr v, s')"
  shows "v \<notin> set exclude \<and>
    (\<exists>es. log s' = log s @ es \<and>
       (if pin \<noteq> 0 then v = pin \<and> vouched_free v es
        else \<exists>raw c. ENextID ''/cluster/nextid'' (Inr raw) \<in> set es \<and> strconv_Atoi raw = Some c \<and>
               (v = c \<or> vouched_free v es \<and> (\<exists>i \<in> {1..1000}. v = int64 (c + int i)))))"
proof -
  let ?T = "\<lambda>r es. \<forall>v. r = Inr v \<longrightarrow> v \<notin> set exclude \<and>
       (if pin \<noteq> 0 then v = pin \<and> vouched_free v es
        else \<exists>raw c. ENextID ''/cluster/nextid'' (Inr raw) \<in> set es \<and> strconv_Atoi raw = Some c \<and>
               (v = c \<or> vouched_free v es \<and> (\<exists>i \<in> {1..1000}. v = int64 (c + int i))))"
  have "traces (NextVMID env pin exclude) ?T"
    unfolding NextVMID_def
  proof (rule traces_if, goal_cases)
    case pin: 1
    show ?case
      by (rule traces_if, simp add: traces_return, rule traces_bind [OF traces_vmidFree])
        (use pin in \<open>auto intro!: traces_return split: sum.splits bool.splits\<close>)
  next
    case nopin: 2
    show ?case
      by (rule traces_bind [OF traces_pc_nextid], rule traces_case_sum, simp add: traces_return,
          rule traces_case_option, simp add: traces_return, rule traces_if)
        (use nopin in \<open>auto intro!: traces_return traces_mono [OF traces_walk_vmids]
           simp: maxNextVMIDWalkAttempts_def\<close>, fastforce)
  qed
  from traces_runD [OF this assms] show ?thesis by blast
qed


theorem NextVMID_sound_witness:
  "\<exists>raw c. ENextID ''/cluster/nextid'' (Inr raw) \<in> set (log (snd (run_state (NextVMID calm 0 [100]) fresh))) \<and>
     strconv_Atoi raw = Some c \<and> (101 = c \<or> vouched_free 101 (log (snd (run_state (NextVMID calm 0 [100]) fresh))))"
proof -
  have "strconv_Atoi ''100'' = Some 100"
    by (simp add: strconv_Atoi_def atoi_digits_def is_digit_def max_int64_def)
  moreover have "int64 101 = 101" by (simp add: int64_def)
  moreover have "[1..<maxNextVMIDWalkAttempts + 1] = 1 # [Suc 1..<maxNextVMIDWalkAttempts + 1]"
    by (rule upt_conv_Cons) (simp add: maxNextVMIDWalkAttempts_def)
  ultimately have "run_state (NextVMID calm 0 [100]) fresh =
      (Inr 101, snd (run_state (NextVMID calm 0 [100]) fresh))"
    by (simp add: NextVMID_def vmidFree_def pc_nextid_def run_simps Let_def)
  from NextVMID_sound [OF this] show ?thesis by auto
qed

end
