(* ===== verification/Routed.thy ===== *)
theory Routed
  imports PveTask PveCluster ShellLine
begin

text \<open>
  The routed client (\<open>internal/pve/routed.go\<close>) and the SSH commands behind it
  (\<open>internal/sshexec/rootfields.go\<close>, \<open>shellquote.go\<close>): which writes go over REST, which over the
  standing SSH connection, how that connection is dialled on first use and dropped when it is
  found dead, and how a field and its value are put into a shell command line.
\<close>

section \<open>The SSH side\<close>

definition qm_result :: "frag list \<Rightarrow> gerror + ssh_result \<Rightarrow> gerror option" where
  "qm_result what r =
     (case r of
        Inl e \<Rightarrow> Some (Errorf (what @ [Lit '': '', Wrapped e]))
      | Inr res \<Rightarrow>
          if sr_exit res \<noteq> 0
          then Some (Errorf (what @ [Lit '': qm set exited '', Dec (sr_exit res), Lit '': '', Lit (sr_stderr res)]))
          else None)"

definition set_command :: "int \<Rightarrow> string \<Rightarrow> string \<Rightarrow> string" where
  "set_command vmid field val =
     ''qm set '' @ ShellQuote (strconv_Itoa vmid) @ '' --'' @ field @ '' '' @ ShellQuote val"

definition delete_command :: "int \<Rightarrow> string \<Rightarrow> string" where
  "delete_command vmid field =
     ''qm set '' @ ShellQuote (strconv_Itoa vmid) @ '' --delete '' @ ShellQuote field"

definition Ssh_SetVMConfigField ::
    "env \<Rightarrow> int \<Rightarrow> string \<Rightarrow> string \<Rightarrow> ('r sess_scheme, gerror option) state" where
  "Ssh_SetVMConfigField env vmid field val =
     (if \<not> isValidFieldName field then
        ret (Some (Errorf [Lit ''set vm config field: invalid field name '', Quo field]))
      else do {
        r \<leftarrow> ssh_run env (set_command vmid field val);
        ret (qm_result [Lit ''set vm '', Dec vmid, Lit '' field '', Quo field] r)
      })"

definition Ssh_DeleteVMConfigField ::
    "env \<Rightarrow> int \<Rightarrow> string \<Rightarrow> ('r sess_scheme, gerror option) state" where
  "Ssh_DeleteVMConfigField env vmid field =
     (if \<not> isValidFieldName field then
        ret (Some (Errorf [Lit ''delete vm config field: invalid field name '', Quo field]))
      else do {
        r \<leftarrow> ssh_run env (delete_command vmid field);
        ret (qm_result [Lit ''delete vm '', Dec vmid, Lit '' field '', Quo field] r)
      })"

section \<open>The standing connection\<close>

record ssh_auth =
  sa_user :: string
  sa_host_key_fingerprint :: string
  sa_private_key_enc :: string

record target =
  tg_id :: string
  tg_host :: string
  tg_node :: string
  tg_ssh :: "ssh_auth option"

definition dialSSH :: "env \<Rightarrow> target \<Rightarrow> ('r sess_scheme, gerror option) state" where
  "dialSSH env t =
     (case tg_ssh t of
        None \<Rightarrow> ret (Some (Errorf [Lit ''requires the standing SSH vector, but target '', Quo (tg_id t),
          Lit '' has no ssh auth; run `pveforge bootstrap` first'']))
      | Some auth \<Rightarrow>
          if sa_host_key_fingerprint auth = [] then
            ret (Some (Errorf [Lit ''target '', Quo (tg_id t),
              Lit '' has ssh auth but no pinned host key fingerprint on file; re-bootstrap to establish one'']))
          else case e_decrypt env (sa_private_key_enc auth) of
              Inl e \<Rightarrow> ret (Some (Errorf [Lit ''decrypt ssh key for '', Quo (tg_id t), Lit '': '', Wrapped e]))
            | Inr key \<Rightarrow>
                (case e_pin env (sa_host_key_fingerprint auth) of
                   Some e \<Rightarrow> ret (Some e)
                 | None \<Rightarrow> do {
                     r \<leftarrow> ssh_dial env (sa_user auth @ ''@'' @ tg_host t @ '':22'');
                     case r of
                       Some e \<Rightarrow> ret (Some (Errorf [Lit ''connect to '', Quo (tg_id t), Lit '' via ssh: '', Wrapped e]))
                     | None \<Rightarrow> do { _ \<leftarrow> set_ssh_open True; ret None }
                   }))"

definition rootFieldViaSSH ::
    "env \<Rightarrow> target \<Rightarrow> frag list \<Rightarrow> ('r sess_scheme, gerror option) state \<Rightarrow> ('r sess_scheme, gerror option) state" where
  "rootFieldViaSSH env t what fn = do {
     opened \<leftarrow> get_ssh_open;
     dialled \<leftarrow> (if opened then ret None else dialSSH env t);
     case dialled of
       Some e \<Rightarrow> ret (Some (Errorf (what @ [Lit '': '', Wrapped e])))
     | None \<Rightarrow> do {
         r \<leftarrow> fn;
         case r of
           None \<Rightarrow> ret None
         | Some e \<Rightarrow> do {
             healthy \<leftarrow> ssh_probe env;
             _ \<leftarrow> (if healthy then ret () else set_ssh_open False);
             ret (Some e)
           }
       }
   }"

definition setViaSSH ::
    "env \<Rightarrow> target \<Rightarrow> int \<Rightarrow> string \<Rightarrow> string \<Rightarrow> ('r sess_scheme, gerror option) state" where
  "setViaSSH env t vmid field val =
     rootFieldViaSSH env t [Lit ''set vm '', Dec vmid, Lit '' field '', Quo field]
       (Ssh_SetVMConfigField env vmid field val)"

definition deleteViaSSH ::
    "env \<Rightarrow> target \<Rightarrow> int \<Rightarrow> string \<Rightarrow> ('r sess_scheme, gerror option) state" where
  "deleteViaSSH env t vmid field =
     rootFieldViaSSH env t [Lit ''delete vm '', Dec vmid, Lit '' field '', Quo field]
       (Ssh_DeleteVMConfigField env vmid field)"

section \<open>Routed writes\<close>

definition SetVMConfigFieldOverSSH ::
    "env \<Rightarrow> target \<Rightarrow> int \<Rightarrow> string \<Rightarrow> string \<Rightarrow> ('r sess_scheme, gerror option) state" where
  "SetVMConfigFieldOverSSH env t vmid field val = setViaSSH env t vmid field val"

definition DeleteVMConfigFieldOverSSH ::
    "env \<Rightarrow> target \<Rightarrow> int \<Rightarrow> string \<Rightarrow> ('r sess_scheme, gerror option) state" where
  "DeleteVMConfigFieldOverSSH env t vmid field = deleteViaSSH env t vmid field"

definition SetVMConfigField ::
    "env \<Rightarrow> target \<Rightarrow> int \<Rightarrow> string \<Rightarrow> string \<Rightarrow> ('r sess_scheme, gerror option) state" where
  "SetVMConfigField env t vmid field val =
     (if RootOnlyFields field then setViaSSH env t vmid field val
      else do {
        r \<leftarrow> Client_SetVMConfigField env (tg_node t) vmid field val;
        case r of
          None \<Rightarrow> ret None
        | Some e \<Rightarrow>
            if IsRootOnlyWriteError e then do {
              sshErr \<leftarrow> setViaSSH env t vmid field val;
              ret (case sshErr of None \<Rightarrow> None | Some _ \<Rightarrow> Some e)
            }
            else ret (Some e)
      })"

definition no_cas_text :: string where
  "no_cas_text = '': root-only fields routed over the standing SSH vector have no compare-and-swap mechanism to honor an expected prior value with''"

definition SetVMConfigFieldCAS ::
    "env \<Rightarrow> target \<Rightarrow> int \<Rightarrow> string \<Rightarrow> string \<Rightarrow> string \<Rightarrow> ('r sess_scheme, gerror option) state" where
  "SetVMConfigFieldCAS env t vmid field val expectDigest =
     (if RootOnlyFields field then
        ret (Some (Errorf [Lit ''set vm '', Dec vmid, Lit '' field '', Quo field, Lit no_cas_text]))
      else Client_SetVMConfigFieldCAS env (tg_node t) vmid field val expectDigest)"

definition DeleteVMConfigField ::
    "env \<Rightarrow> target \<Rightarrow> int \<Rightarrow> string \<Rightarrow> ('r sess_scheme, gerror option) state" where
  "DeleteVMConfigField env t vmid field =
     (if RootOnlyFields field then deleteViaSSH env t vmid field
      else do {
        r \<leftarrow> Client_DeleteVMConfigField env (tg_node t) vmid field;
        case r of
          None \<Rightarrow> ret None
        | Some e \<Rightarrow>
            if IsRootOnlyWriteError e then do {
              sshErr \<leftarrow> deleteViaSSH env t vmid field;
              ret (case sshErr of None \<Rightarrow> None | Some _ \<Rightarrow> Some e)
            }
            else ret (Some e)
      })"

definition DeleteVMConfigFieldCAS ::
    "env \<Rightarrow> target \<Rightarrow> int \<Rightarrow> string \<Rightarrow> string \<Rightarrow> ('r sess_scheme, gerror option) state" where
  "DeleteVMConfigFieldCAS env t vmid field expectDigest =
     (if RootOnlyFields field then
        ret (Some (Errorf [Lit ''delete vm '', Dec vmid, Lit '' field '', Quo field, Lit no_cas_text]))
      else Client_DeleteVMConfigFieldCAS env (tg_node t) vmid field expectDigest)"

section \<open>Pass-throughs to the REST client\<close>

definition GetVM :: "env \<Rightarrow> target \<Rightarrow> string \<Rightarrow> int \<Rightarrow> ('r sess_scheme, gerror + vm option) state" where
  "GetVM env t node vmid = Client_GetVM env node vmid"

definition CreateVM :: "env \<Rightarrow> target \<Rightarrow> int \<Rightarrow> url_values \<Rightarrow> ('r sess_scheme, gerror + string) state" where
  "CreateVM env t vmid params = Client_CreateVM env (tg_node t) vmid params"

definition CloneVM ::
    "env \<Rightarrow> target \<Rightarrow> int \<Rightarrow> int \<Rightarrow> url_values \<Rightarrow> ('r sess_scheme, gerror + string) state" where
  "CloneVM env t sourceVMID newVMID params = Client_CloneVM env (tg_node t) sourceVMID newVMID params"

definition ShutdownVM :: "env \<Rightarrow> target \<Rightarrow> int \<Rightarrow> ('r sess_scheme, gerror + string) state" where
  "ShutdownVM env t vmid = Client_ShutdownVM env (tg_node t) vmid"

definition StopVM :: "env \<Rightarrow> target \<Rightarrow> int \<Rightarrow> ('r sess_scheme, gerror + string) state" where
  "StopVM env t vmid = Client_StopVM env (tg_node t) vmid"

definition DestroyVM :: "env \<Rightarrow> target \<Rightarrow> int \<Rightarrow> bool \<Rightarrow> ('r sess_scheme, gerror + string) state" where
  "DestroyVM env t vmid purge = Client_DestroyVM env (tg_node t) vmid purge"

definition StorageType :: "env \<Rightarrow> target \<Rightarrow> string \<Rightarrow> string \<Rightarrow> ('r sess_scheme, gerror + string) state" where
  "StorageType env t node sid = Client_StorageType env node sid"

lemmas routed_pass_defs =
  GetVM_def CreateVM_def CloneVM_def ShutdownVM_def StopVM_def DestroyVM_def StorageType_def

lemmas via_ssh_defs =
  SetVMConfigFieldOverSSH_def DeleteVMConfigFieldOverSSH_def setViaSSH_def deleteViaSSH_def
  rootFieldViaSSH_def dialSSH_def Ssh_SetVMConfigField_def Ssh_DeleteVMConfigField_def


section \<open>What the routed operations do on the wire\<close>

lemma emits_dialSSH [emits_intro]: "emits reads (dialSSH env t)"
  unfolding dialSSH_def by (intro emits_intro)

lemma frames_dialSSH [frames_intro]: "frames (dialSSH env t)"
  unfolding dialSSH_def by (intro frames_intro)

lemma emits_rootFieldViaSSH [emits_intro]:
  "emits P fn \<Longrightarrow> (\<And>e. reads e \<Longrightarrow> P e) \<Longrightarrow> emits P (rootFieldViaSSH env t what fn)"
  unfolding rootFieldViaSSH_def
  by (intro emits_intro) (auto intro: emits_mono [OF emits_dialSSH] emits_mono [OF emits_ssh_probe])

lemma frames_rootFieldViaSSH [frames_intro]: "frames fn \<Longrightarrow> frames (rootFieldViaSSH env t what fn)"
  unfolding rootFieldViaSSH_def by (intro frames_intro) auto

lemma emits_setViaSSH:
  "(\<And>a. P (ESsh (set_command vmid field val) a)) \<Longrightarrow> (\<And>e. reads e \<Longrightarrow> P e) \<Longrightarrow>
     emits P (setViaSSH env t vmid field val)"
  unfolding setViaSSH_def Ssh_SetVMConfigField_def ssh_run_def by (intro emits_intro emits_perform)

lemma emits_deleteViaSSH:
  "(\<And>a. P (ESsh (delete_command vmid field) a)) \<Longrightarrow> (\<And>e. reads e \<Longrightarrow> P e) \<Longrightarrow>
     emits P (deleteViaSSH env t vmid field)"
  unfolding deleteViaSSH_def Ssh_DeleteVMConfigField_def ssh_run_def by (intro emits_intro emits_perform)

lemma frames_via_ssh [frames_intro]:
  "frames (setViaSSH env t vmid field val)" "frames (deleteViaSSH env t vmid field)"
  unfolding setViaSSH_def deleteViaSSH_def Ssh_SetVMConfigField_def Ssh_DeleteVMConfigField_def
  by (intro frames_intro)+

lemmas routed_write_defs =
  SetVMConfigFieldOverSSH_def DeleteVMConfigFieldOverSSH_def SetVMConfigField_def
  SetVMConfigFieldCAS_def DeleteVMConfigField_def DeleteVMConfigFieldCAS_def

lemma emits_remote_routed_writes [emits_intro]:
  "emits remote (SetVMConfigFieldOverSSH env t vmid f v)"
  "emits remote (DeleteVMConfigFieldOverSSH env t vmid f)"
  "emits remote (SetVMConfigField env t vmid f v)" "emits remote (SetVMConfigFieldCAS env t vmid f v d)"
  "emits remote (DeleteVMConfigField env t vmid f)" "emits remote (DeleteVMConfigFieldCAS env t vmid f d)"
  unfolding routed_write_defs
  by (intro emits_intro emits_setViaSSH emits_deleteViaSSH; simp add: remote_def reads_remote [unfolded remote_def])+

lemma frames_routed_writes [frames_intro]:
  "frames (SetVMConfigFieldOverSSH env t vmid f v)" "frames (DeleteVMConfigFieldOverSSH env t vmid f)"
  "frames (SetVMConfigField env t vmid f v)" "frames (SetVMConfigFieldCAS env t vmid f v d)"
  "frames (DeleteVMConfigField env t vmid f)" "frames (DeleteVMConfigFieldCAS env t vmid f d)"
  unfolding routed_write_defs by (intro frames_intro)+

lemma emits_remote_routed_pass [emits_intro]:
  "emits reads (GetVM env t node vmid)" "emits reads (StorageType env t node sid)"
  "emits remote (CreateVM env t vmid params)" "emits remote (CloneVM env t vmid vmid' params)"
  "emits remote (ShutdownVM env t vmid)" "emits remote (StopVM env t vmid)"
  "emits remote (DestroyVM env t vmid purge)"
  unfolding routed_pass_defs by (intro emits_intro)+

lemma frames_routed_pass [frames_intro]:
  "frames (GetVM env t node vmid)" "frames (StorageType env t node sid)"
  "frames (CreateVM env t vmid params)" "frames (CloneVM env t vmid vmid' params)"
  "frames (ShutdownVM env t vmid)" "frames (StopVM env t vmid)" "frames (DestroyVM env t vmid purge)"
  unfolding routed_pass_defs by (intro frames_intro)+

text \<open>Evaluation of the guarded writes of a field that goes over REST.\<close>

lemma run_SetVMConfigFieldCAS [run_simps]:
  "\<not> RootOnlyFields field \<Longrightarrow> tg_node t \<noteq> [] \<Longrightarrow> field \<noteq> [] \<Longrightarrow>
     run_state (SetVMConfigFieldCAS env t vmid field val d) s =
       (let form = cas_form field val d; a = e_http env (log s) PUT (qemu_path (tg_node t) vmid ''/config'') form in
        (put_result [Lit ''set vm '', Dec vmid, Lit '' field '', Quo field] a,
         s\<lparr>log := log s @ [EHttp PUT (qemu_path (tg_node t) vmid ''/config'') form a]\<rparr>))"
  by (simp add: SetVMConfigFieldCAS_def Client_SetVMConfigFieldCAS_def putVMConfig_def http_do_def
      run_simps Let_def)

lemma run_DeleteVMConfigFieldCAS [run_simps]:
  "\<not> RootOnlyFields field \<Longrightarrow> tg_node t \<noteq> [] \<Longrightarrow> field \<noteq> [] \<Longrightarrow>
     run_state (DeleteVMConfigFieldCAS env t vmid field d) s =
       (let form = cas_form ''delete'' field d; a = e_http env (log s) PUT (qemu_path (tg_node t) vmid ''/config'') form in
        (put_result [Lit ''delete vm '', Dec vmid, Lit '' field '', Quo field] a,
         s\<lparr>log := log s @ [EHttp PUT (qemu_path (tg_node t) vmid ''/config'') form a]\<rparr>))"
  by (simp add: DeleteVMConfigFieldCAS_def Client_DeleteVMConfigFieldCAS_def putVMConfig_def http_do_def
      run_simps Let_def)

section \<open>Properties of the routed writes\<close>

text \<open>
  A shell reads the command line of a root-only write as exactly the five words
  qm, set, the vmid, the option of the field, and the value, whatever bytes the value holds.
\<close>

theorem set_command_words:
  assumes "isValidFieldName field"
  shows "shell_words False False [] (set_command vmid field val) =
           Some [''qm'', ''set'', strconv_Itoa vmid, ''--'' @ field, val]"
proof -
  have plain: "list_all shell_plain (''--'' @ field)" "list_all shell_plain ''qm''"
    "list_all shell_plain ''set''"
    using valid_field_plain [OF assms] by (simp_all add: shell_plain_def is_alnum_def)
  have words: "set_command vmid field val =
      ''qm'' @ CHR 0x20 # ''set'' @ CHR 0x20 # ShellQuote (strconv_Itoa vmid) @ CHR 0x20 # (''--'' @ field)
        @ CHR 0x20 # ShellQuote val"
    by (simp add: set_command_def)
  show ?thesis
    unfolding words
    by (simp only: shell_words_word [OF plain(1) append_not_Nil] shell_words_word [OF plain(2) list.discI]
        shell_words_word [OF plain(3) list.discI] shell_words_quoted_word shell_words_last option.map)
qed

theorem set_command_words_witness:
  "shell_words False False [] (set_command 100 ''args'' ''-cpu ; rm -rf /'') =
     Some [''qm'', ''set'', strconv_Itoa 100, ''--args'', ''-cpu ; rm -rf /'']"
  using set_command_words [of "''args''" 100 "''-cpu ; rm -rf /''"]
  by (simp add: isValidFieldName_def is_alnum_def is_digit_def)

text \<open>
  The events of a routed write of a root-only field: SSH only, and the one command it may run.
\<close>

fun only_ssh :: "string \<Rightarrow> event \<Rightarrow> bool" where
  "only_ssh cmd (ESsh c r) = (c = cmd)"
| "only_ssh cmd (EDial a r) = True"
| "only_ssh cmd (EProbe b) = True"
| "only_ssh cmd _ = False"

fun ssh_ran_ok :: "string \<Rightarrow> event \<Rightarrow> bool" where
  "ssh_ran_ok cmd (ESsh c (Inr r)) = (c = cmd \<and> sr_exit r = 0)"
| "ssh_ran_ok cmd _ = False"

lemma traces_dialSSH:
  "traces (dialSSH env t) (\<lambda>r es. list_all (only_ssh cmd) es \<and> \<not> list_ex (ssh_ran_ok cmd) es)"
  unfolding dialSSH_def ssh_dial_def
  by (auto simp: traces_def perform_def set_ssh_open_def split: option.splits sum.splits)

lemma traces_rootFieldViaSSH:
  assumes "traces fn (\<lambda>r es. list_all (only_ssh cmd) es \<and> (r = None \<longleftrightarrow> list_ex (ssh_ran_ok cmd) es))"
  shows "traces (rootFieldViaSSH env t what fn)
     (\<lambda>r es. list_all (only_ssh cmd) es \<and> (r = None \<longleftrightarrow> list_ex (ssh_ran_ok cmd) es))"
proof -
  have opened: "traces (get_ssh_open :: ('a sess_scheme, bool) state) (\<lambda>b es. es = [])"
    by (simp add: traces_def get_ssh_open_def)
  have dialled: "traces (if b then ret None else dialSSH env t)
      (\<lambda>r es. list_all (only_ssh cmd) es \<and> \<not> list_ex (ssh_ran_ok cmd) es)" for b
    by (auto intro!: traces_return traces_mono [OF traces_dialSSH])
  have tail: "traces (do { healthy \<leftarrow> ssh_probe env; _ \<leftarrow> (if healthy then ret () else set_ssh_open False); ret (Some e) })
      (\<lambda>r es. r \<noteq> None \<and> list_all (only_ssh cmd) es \<and> \<not> list_ex (ssh_ran_ok cmd) es)" for e :: gerror
    by (auto simp: traces_def perform_def ssh_probe_def set_ssh_open_def)
  show ?thesis
    unfolding rootFieldViaSSH_def
  proof (rule traces_bind [OF opened], rule traces_bind [OF dialled], rule traces_case_option, goal_cases)
    case (1 b es r fs)
    show ?case
    proof (rule traces_bind [OF assms], rule traces_case_option, goal_cases)
      case 1
      with \<open>es = []\<close> \<open>list_all _ fs \<and> _\<close> show ?case by (auto intro!: traces_return)
    next
      case 2
      with \<open>es = []\<close> \<open>list_all _ fs \<and> _\<close> show ?case by (auto intro!: traces_mono [OF tail])
    qed
  qed (auto intro!: traces_return)
qed

lemma traces_setViaSSH:
  "traces (setViaSSH env t vmid field val)
     (\<lambda>r es. list_all (only_ssh (set_command vmid field val)) es \<and>
        (r = None \<longleftrightarrow> list_ex (ssh_ran_ok (set_command vmid field val)) es))"
  unfolding setViaSSH_def
  by (rule traces_rootFieldViaSSH)
    (auto simp: Ssh_SetVMConfigField_def ssh_run_def traces_def perform_def qm_result_def split: sum.splits)

lemma traces_deleteViaSSH:
  "traces (deleteViaSSH env t vmid field)
     (\<lambda>r es. list_all (only_ssh (delete_command vmid field)) es \<and>
        (r = None \<longleftrightarrow> list_ex (ssh_ran_ok (delete_command vmid field)) es))"
  unfolding deleteViaSSH_def
  by (rule traces_rootFieldViaSSH)
    (auto simp: Ssh_DeleteVMConfigField_def ssh_run_def traces_def perform_def qm_result_def split: sum.splits)

lemma traces_SetVMConfigFieldCAS:
  "traces (SetVMConfigFieldCAS env t vmid field val d)
     (\<lambda>r es. es = [] \<and> r \<noteq> None \<or>
        (\<exists>a. es = [EHttp PUT (qemu_path (tg_node t) vmid ''/config'') (cas_form field val d) a] \<and>
             (r = None \<longleftrightarrow> answered_2xx a)))"
  unfolding SetVMConfigFieldCAS_def Client_SetVMConfigFieldCAS_def putVMConfig_def http_do_def
  by (auto simp: traces_def perform_def put_result_None)

lemma traces_DeleteVMConfigFieldCAS:
  "traces (DeleteVMConfigFieldCAS env t vmid field d)
     (\<lambda>r es. es = [] \<and> r \<noteq> None \<or>
        (\<exists>a. es = [EHttp PUT (qemu_path (tg_node t) vmid ''/config'') (cas_form ''delete'' field d) a] \<and>
             (r = None \<longleftrightarrow> answered_2xx a)))"
  unfolding DeleteVMConfigFieldCAS_def Client_DeleteVMConfigFieldCAS_def putVMConfig_def http_do_def
  by (auto simp: traces_def perform_def put_result_None)

text \<open>
  A write of a root-only field sends no REST request at all; the only command it can run over
  SSH is the one for this vmid, field and value, and the write succeeds exactly when it ran with exit
  code 0.
\<close>

theorem SetVMConfigField_root_only:
  assumes "RootOnlyFields field"
    and "run_state (SetVMConfigField env t vmid field val) s = (r, s')"
  shows "\<exists>es. log s' = log s @ es \<and> list_all (only_ssh (set_command vmid field val)) es \<and>
           (r = None \<longleftrightarrow> list_ex (ssh_ran_ok (set_command vmid field val)) es)"
  using traces_runD [OF traces_setViaSSH] assms by (simp add: SetVMConfigField_def)

text \<open>
  A guarded write sends at most one request, a PUT of the VM's own config that carries the
  field's value and the expected digest; for a root-only field it refuses and sends nothing.
\<close>

theorem SetVMConfigFieldCAS_guarded:
  assumes "run_state (SetVMConfigFieldCAS env t vmid field val d) s = (r, s')"
    and "d \<noteq> []" and "field \<noteq> ''digest''"
  shows "\<exists>es. log s' = log s @ es \<and>
           (es = [] \<and> r \<noteq> None \<or>
            (\<exists>form a. es = [EHttp PUT (qemu_path (tg_node t) vmid ''/config'') form a] \<and>
               values_Get form field = val \<and> values_Get form ''digest'' = d \<and>
               (r = None \<longleftrightarrow> answered_2xx a))) \<and>
           (RootOnlyFields field \<longrightarrow> es = [])"
  using assms
  by (auto simp: SetVMConfigFieldCAS_def Client_SetVMConfigFieldCAS_def putVMConfig_def http_do_def
      perform_def cas_form_Get put_result_None split: if_splits)

text \<open>
  An unguarded write of any other field goes over REST first; the SSH retry happens only when
  PVE refused the REST write as root-only, and a failed retry reports the error of the REST write.
\<close>

theorem SetVMConfigField_fallback:
  assumes "\<not> RootOnlyFields field"
    and "run_state (SetVMConfigField env t vmid field val) s = (r, s')"
    and "run_state (Client_SetVMConfigField env (tg_node t) vmid field val) s = (r1, s1)"
  shows "(r1 = None \<or> (\<exists>e. r1 = Some e \<and> \<not> IsRootOnlyWriteError e)) \<and> r = r1 \<and> s' = s1 \<or>
         (\<exists>e es. r1 = Some e \<and> IsRootOnlyWriteError e \<and> log s' = log s1 @ es \<and>
            list_all (only_ssh (set_command vmid field val)) es \<and>
            (r = None \<and> list_ex (ssh_ran_ok (set_command vmid field val)) es \<or> r = Some e))"
proof (cases "\<exists>e. r1 = Some e \<and> IsRootOnlyWriteError e")
  case True
  then obtain e where e: "r1 = Some e" "IsRootOnlyWriteError e" by blast
  obtain r2 s2 where ssh: "run_state (setViaSSH env t vmid field val) s1 = (r2, s2)" by force
  from traces_runD [OF traces_setViaSSH ssh] assms e ssh show ?thesis
    by (auto simp: SetVMConfigField_def split: option.splits)
next
  case False
  with assms show ?thesis by (auto simp: SetVMConfigField_def split: option.splits if_splits)
qed

section \<open>For the examples\<close>

definition demo_target :: target where
  "demo_target = \<lparr>tg_id = ''t'', tg_host = ''10.0.0.1'', tg_node = ''pve1'', tg_ssh = None\<rparr>"



definition demo_ssh_target :: target where
  "demo_ssh_target = demo_target\<lparr>tg_ssh := Some \<lparr>sa_user = ''root'', sa_host_key_fingerprint = ''fp'', sa_private_key_enc = ''k''\<rparr>\<rparr>"

theorem SetVMConfigField_root_only_witness:
  "list_ex (ssh_ran_ok (set_command 100 ''args'' ''-cpu host''))
     (log (snd (run_state (SetVMConfigField calm demo_ssh_target 100 ''args'' ''-cpu host'') fresh)))"
proof -
  have root: "RootOnlyFields ''args''" and valid: "isValidFieldName ''args''" by code_simp+
  have "fst (run_state (SetVMConfigField calm demo_ssh_target 100 ''args'' ''-cpu host'') fresh) = None"
    using root valid
    by (simp add: SetVMConfigField_def via_ssh_defs demo_ssh_target_def primitive_defs run_simps qm_result_def)
  with SetVMConfigField_root_only [OF root surjective_pairing, of calm demo_ssh_target 100 "''-cpu host''" fresh]
  show ?thesis by auto
qed

theorem SetVMConfigFieldCAS_guarded_witness:
  "\<exists>form a. log (snd (run_state (SetVMConfigFieldCAS calm demo_target 100 ''memory'' ''1024'' ''d1'') fresh)) =
       [EHttp PUT (qemu_path ''pve1'' 100 ''/config'') form a] \<and>
     values_Get form ''memory'' = ''1024'' \<and> values_Get form ''digest'' = ''d1''"
proof -
  have "\<not> RootOnlyFields ''memory''" and node: "tg_node demo_target = ''pve1''"
    by (simp_all add: RootOnlyFields_def demo_target_def)
  then have "fst (run_state (SetVMConfigFieldCAS calm demo_target 100 ''memory'' ''1024'' ''d1'') fresh) = None"
    by (simp add: run_SetVMConfigFieldCAS Let_def put_result_def)
  with SetVMConfigFieldCAS_guarded [OF surjective_pairing, of "''d1''" "''memory''" calm demo_target 100 "''1024''" fresh]
  show ?thesis by (auto simp: node)
qed

text \<open>PVE refuses every write with the root-only text; the node answers over SSH.\<close>

definition root_world :: env where
  "root_world = calm\<lparr>e_http := \<lambda>h m p f. HAnswer 500 ''500 only root can set this'' [] None\<rparr>"

theorem SetVMConfigField_fallback_witness:
  "fst (run_state (SetVMConfigField root_world demo_ssh_target 100 ''hookscript'' ''x'') fresh) = None \<and>
   list_ex (ssh_ran_ok (set_command 100 ''hookscript'' ''x''))
     (log (snd (run_state (SetVMConfigField root_world demo_ssh_target 100 ''hookscript'' ''x'') fresh)))"
proof -
  have plain: "\<not> RootOnlyFields ''hookscript''" and valid: "isValidFieldName ''hookscript''" by code_simp+
  let ?e = "NewStatusError (concat (map frag_text [Lit ''set vm '', Dec 100, Lit '' field '', Quo ''hookscript''])) 500
    ''500 only root can set this'' []"
  have root: "IsRootOnlyWriteError ?e" by code_simp
  have put: "run_state (Client_SetVMConfigField root_world (tg_node demo_ssh_target) 100 ''hookscript'' ''x'') fresh =
    (Some ?e, snd (run_state (Client_SetVMConfigField root_world (tg_node demo_ssh_target) 100 ''hookscript'' ''x'') fresh))"
    by (simp add: Client_SetVMConfigField_def Client_SetVMConfigFieldCAS_def putVMConfig_def http_do_def run_simps
        demo_ssh_target_def demo_target_def root_world_def put_result_def)
  have ok: "fst (run_state (SetVMConfigField root_world demo_ssh_target 100 ''hookscript'' ''x'') fresh) = None"
    using put root plain valid
    by (cases "run_state (Client_SetVMConfigField root_world (tg_node demo_ssh_target) 100 ''hookscript'' ''x'') fresh")
      (simp add: SetVMConfigField_def via_ssh_defs demo_ssh_target_def root_world_def primitive_defs run_simps qm_result_def)
  with SetVMConfigField_fallback [OF plain surjective_pairing put] root
  show ?thesis
    by (auto simp: ok Client_SetVMConfigField_def Client_SetVMConfigFieldCAS_def putVMConfig_def http_do_def run_simps
        demo_ssh_target_def demo_target_def root_world_def)
qed

lemma contains_digest: "strings_Contains (strings_ToLower (p @ ''digest'' @ q)) ''digest''"
proof -
  have "strings_ToLower (p @ ''digest'' @ q) = strings_ToLower p @ ''digest'' @ strings_ToLower q"
    using strings_ToLower_append [of "CHR ''d''" p "''igest'' @ q"] by (simp add: ascii_lower_def)
  then show ?thesis unfolding strings_Contains_def by (simp only: sublist_appendI)
qed

text \<open>
  A failed write of a field whose name holds the text "digest" is taken for a digest conflict,
  whatever PVE answered.
\<close>

theorem digest_named_field_is_conflict:
  "IsDigestConflictError (NewStatusError
     (concat (map frag_text [Lit ''set vm '', Dec vmid, Lit '' field '', Quo ''mydigest''])) code status body)"
proof -
  have quote: "strconv_Quote ''mydigest'' = CHR 0x22 # ''my'' @ ''digest'' @ [CHR 0x22]" by code_simp
  have "err_text (NewStatusError (concat (map frag_text [Lit ''set vm '', Dec vmid, Lit '' field '', Quo ''mydigest'']))
      code status body) =
    (''set vm '' @ strconv_Itoa vmid @ '' field '' @ CHR 0x22 # ''my'') @ ''digest'' @
      (CHR 0x22 # '': pve returned '' @ status @ '': '' @ strings_TrimSpace body)"
    by (simp add: NewStatusError_def quote)
  then show ?thesis
    by (simp only: IsDigestConflictError_def contains_digest)
qed

end
