(* ===== verification/Engine.thy ===== *)
theory Engine
  imports LockFile Routed
begin

text \<open>
  The read-compare-mutate engine of \<open>internal/idempotent/op.go\<close>.  An operation is the record of
  its methods, over a session that the operation's own fields extend; the optional methods are the
  interfaces an operation may implement.  The type of \<open>Read\<close>'s comparable value is a parameter.
  The locale \<open>op_contract\<close> is what the engine asks of an operation; its lemmas describe the log of
  a whole \<open>Run\<close> as a sequence of attempts under the lock, and every operation of the development
  is an instance.
\<close>

record ('s, 'c) op =
  op_Read :: "('s, gerror + 'c) state"
  op_Satisfied :: "'s \<Rightarrow> 'c \<Rightarrow> bool"
  op_Apply :: "('s, gerror option) state"
  op_PostApply :: "('s, gerror option) state option"
  op_ReRead :: "('s, gerror + 'c) state option"
  op_PostNoop :: "('s, gerror option) state option"

record 'c result =
  Changed :: bool
  Before :: 'c
  After :: 'c
  AfterErr :: "gerror option"
  PostApplyErr :: "gerror option"

definition maxConflictRetries :: nat where
  "maxConflictRetries = 3"

definition engine_error :: "object_key \<Rightarrow> string \<Rightarrow> gerror \<Rightarrow> gerror" where
  "engine_error key what e = Errorf [Lit ''idempotent: '', Lit (key_String key), Lit what, Wrapped e]"

text \<open>An optional check, and its error when it has one.\<close>

definition run_check ::
    "object_key \<Rightarrow> string \<Rightarrow> ('s, gerror option) state option \<Rightarrow> ('s, gerror option) state" where
  "run_check key what check =
     (case check of
        None \<Rightarrow> ret None
      | Some m \<Rightarrow> do { e \<leftarrow> m; ret (map_option (engine_error key what) e) })"

text \<open>One turn of the loop; \<open>again\<close> is what a conflict leads to.\<close>

definition attempt_cycle ::
    "object_key \<Rightarrow> ('s, 'c) op \<Rightarrow> bool \<Rightarrow> (gerror \<Rightarrow> ('s, gerror + 'c result) state) \<Rightarrow>
     ('s, gerror + 'c result) state" where
  "attempt_cycle key oper force again = do {
     current \<leftarrow> op_Read oper;
     case current of
       Inl e \<Rightarrow> ret (Inl (engine_error key '': read: '' e))
     | Inr current \<Rightarrow> do {
         s \<leftarrow> State_Monad.get;
         if \<not> force \<and> op_Satisfied oper s current then do {
           e \<leftarrow> run_check key '': no-op check: '' (op_PostNoop oper);
           ret (Inr \<lparr>Changed = False, Before = current, After = current, AfterErr = None, PostApplyErr = e\<rparr>)
         }
         else do {
           applied \<leftarrow> op_Apply oper;
           case applied of
             Some err \<Rightarrow> if errors_Is err ErrConflict then again err
                         else ret (Inl (engine_error key '': apply: '' err))
           | None \<Rightarrow> do {
               after \<leftarrow> (case op_ReRead oper of None \<Rightarrow> op_Read oper | Some m \<Rightarrow> m);
               e \<leftarrow> run_check key '': post-apply check: '' (op_PostApply oper);
               ret (Inr \<lparr>Changed = True, Before = current,
                 After = (case after of Inr a \<Rightarrow> a | Inl _ \<Rightarrow> current),
                 AfterErr = (case after of Inr _ \<Rightarrow> None | Inl e \<Rightarrow> Some (engine_error key '': re-read: '' e)),
                 PostApplyErr = e\<rparr>)
             }
         }
       }
   }"

primrec attempts ::
    "nat \<Rightarrow> object_key \<Rightarrow> ('s, 'c) op \<Rightarrow> bool \<Rightarrow> ('s, gerror + 'c result) state" where
  "attempts 0 key oper force =
     attempt_cycle key oper force (\<lambda>err. ret (Inl (engine_error key '': apply: '' err)))"
| "attempts (Suc n) key oper force = attempt_cycle key oper force (\<lambda>_. attempts n key oper force)"

definition Run ::
    "env \<Rightarrow> string \<Rightarrow> object_key \<Rightarrow> ('r sess_scheme, 'c) op \<Rightarrow> bool \<Rightarrow> ('r sess_scheme, gerror + 'c result) state" where
  "Run env rosterPath key oper force = do {
     lk \<leftarrow> Mutation env rosterPath key;
     case lk of
       Inl e \<Rightarrow> ret (Inl (engine_error key '': '' e))
     | Inr resource \<Rightarrow> do {
         r \<leftarrow> attempts (maxConflictRetries - 1) key oper force;
         _ \<leftarrow> unlock env resource;
         ret r
       }
   }"

section \<open>Writes and what precedes them\<close>

text \<open>Every write of a log is admitted by \<open>G\<close>, which sees what comes before it.\<close>

definition gated :: "(event list \<Rightarrow> event \<Rightarrow> bool) \<Rightarrow> event list \<Rightarrow> bool" where
  "gated G es \<longleftrightarrow> (\<forall>pre e post. es = pre @ e # post \<longrightarrow> is_write e \<longrightarrow> G pre e)"

definition looks_back :: "(event list \<Rightarrow> event \<Rightarrow> bool) \<Rightarrow> bool" where
  "looks_back G \<longleftrightarrow> (\<forall>before pre e. G pre e \<longrightarrow> G (before @ pre) e)"

lemma gated_no_write: "list_all (\<lambda>e. \<not> is_write e) es \<Longrightarrow> gated G es"
  by (auto simp: gated_def)

lemma gated_reads: "list_all reads es \<Longrightarrow> gated G es"
  by (rule gated_no_write) (auto simp: list_all_iff reads_def)

lemma gated_Cons: "(is_write e \<Longrightarrow> G [] e) \<Longrightarrow> gated (\<lambda>pre. G (e # pre)) es \<Longrightarrow> gated G (e # es)"
  by (auto simp: gated_def Cons_eq_append_conv)

lemma gated_after:
  assumes "gated G es" and "gated (\<lambda>pre. G (es @ pre)) fs"
  shows "gated G (es @ fs)"
proof -
  have "G pre e" if split: "es @ fs = pre @ e # post" and "is_write e" for pre e post
  proof (cases "length pre < length es")
    case True
    then have "es = pre @ e # take (length es - length pre - 1) post"
      using split by (auto simp: append_eq_append_conv2 append_eq_Cons_conv)
    with assms(1) \<open>is_write e\<close> show ?thesis unfolding gated_def by blast
  next
    case False
    then obtain mid where "pre = es @ mid" "fs = mid @ e # post"
      using split by (auto simp: append_eq_append_conv2)
    with assms(2) \<open>is_write e\<close> show ?thesis unfolding gated_def by blast
  qed
  then show ?thesis unfolding gated_def by blast
qed

lemma gated_append: "looks_back G \<Longrightarrow> gated G es \<Longrightarrow> gated G fs \<Longrightarrow> gated G (es @ fs)"
  by (rule gated_after) (auto simp: gated_def looks_back_def)

lemma gated_one:
  "list_all (\<lambda>e. \<not> is_write e) es \<Longrightarrow> G es e \<Longrightarrow> list_all (\<lambda>e. \<not> is_write e) fs \<Longrightarrow> gated G (es @ e # fs)"
  by (rule gated_after [OF gated_no_write], assumption, rule gated_Cons, simp, rule gated_no_write)

lemma gatedD: "gated G es \<Longrightarrow> es = pre @ e # post \<Longrightarrow> is_write e \<Longrightarrow> G pre e"
  unfolding gated_def by blast

section \<open>The log of a run\<close>

lemma emits_Mutation: "emits (\<lambda>e. \<not> is_write e) (Mutation env rp key)"
  unfolding Mutation_def ensureLockDir_def acquire_def acquireErr_def Let_def primitive_defs
  by (intro emits_intro emits_perform) auto

lemmas traces_Mutation_no_write = traces_conj [OF traces_Mutation emits_Mutation]

lemma traces_get: "traces State_Monad.get (\<lambda>s es. es = [])"
  by (simp add: traces_def State_Monad.get_def)

lemma emits_get [emits_intro]: "emits P State_Monad.get"
  unfolding emits_def by (rule traces_mono [OF traces_get]) simp

text \<open>
  The attempts of a run, as they show in the log: a read, then nothing (the read failed, or a
  no-op, described by \<open>Q\<close>, whose check only reads), or the events of an \<open>Apply\<close>; after one that
  succeeded only reads, after a conflict the remaining attempts, after any other error nothing.
\<close>

inductive attempts_log ::
    "(gerror option \<Rightarrow> event list \<Rightarrow> bool) \<Rightarrow> ('c result \<Rightarrow> event list \<Rightarrow> bool) \<Rightarrow> nat \<Rightarrow>
     gerror + 'c result \<Rightarrow> event list \<Rightarrow> bool" for T Q where
  unchanged: "list_all reads rd \<Longrightarrow> (\<forall>x. res = Inr x \<longrightarrow> \<not> Changed x \<and> Q x rd) \<Longrightarrow> attempts_log T Q n res rd"
| changed: "list_all reads rd \<Longrightarrow> T None ap \<Longrightarrow> list_all reads post \<Longrightarrow> Changed x \<Longrightarrow>
     attempts_log T Q n (Inr x) (rd @ ap @ post)"
| failed: "list_all reads rd \<Longrightarrow> T (Some e) ap \<Longrightarrow> (errors_Is e ErrConflict \<longrightarrow> n = 0) \<Longrightarrow>
     attempts_log T Q n (Inl e') (rd @ ap)"
| conflict: "list_all reads rd \<Longrightarrow> T (Some e) ap \<Longrightarrow> errors_Is e ErrConflict \<Longrightarrow>
     attempts_log T Q n res post \<Longrightarrow> attempts_log T Q (Suc n) res (rd @ ap @ post)"

text \<open>
  What the engine asks of an operation.  \<open>T\<close> describes the events of its \<open>Apply\<close>, \<open>R\<close> those of a
  \<open>Read\<close> that returned a value, \<open>S\<close> the values that count as satisfied.
\<close>

definition noop_seen :: "('c \<Rightarrow> event list \<Rightarrow> bool) \<Rightarrow> ('c \<Rightarrow> bool) \<Rightarrow> 'c result \<Rightarrow> event list \<Rightarrow> bool" where
  "noop_seen R S x rd \<longleftrightarrow> S (Before x) \<and> (\<exists>r0 r1. rd = r0 @ r1 \<and> R (Before x) r0)"

lemma noop_seenI: "S (Before x) \<Longrightarrow> R (Before x) r0 \<Longrightarrow> noop_seen R S x (r0 @ r1)"
  unfolding noop_seen_def by blast

locale op_contract =
  fixes oper :: "('r sess_scheme, 'c) op"
    and T :: "gerror option \<Rightarrow> event list \<Rightarrow> bool"
    and R :: "'c \<Rightarrow> event list \<Rightarrow> bool"
    and S :: "'c \<Rightarrow> bool"
  assumes Read_traces: "traces (op_Read oper) (\<lambda>r es. list_all reads es \<and> (\<forall>c. r = Inr c \<longrightarrow> R c es))"
    and Satisfied_only: "op_Satisfied oper s c \<Longrightarrow> S c"
    and Apply_traces: "traces (op_Apply oper) T"
    and PostApply_reads: "op_PostApply oper = Some m \<Longrightarrow> emits reads m"
    and ReRead_reads: "op_ReRead oper = Some m' \<Longrightarrow> emits reads m'"
    and PostNoop_reads: "op_PostNoop oper = Some m \<Longrightarrow> emits reads m"
begin

lemma Read_reads: "emits reads (op_Read oper)"
  using Read_traces unfolding emits_def by (rule traces_mono) blast

lemma traces_reread:
  "traces (case op_ReRead oper of None \<Rightarrow> op_Read oper | Some m \<Rightarrow> m) (\<lambda>_ es. list_all reads es)"
  using ReRead_reads Read_reads unfolding emits_def by (cases "op_ReRead oper") auto

lemma traces_check:
  "check = op_PostApply oper \<or> check = op_PostNoop oper \<Longrightarrow>
     traces (run_check key what check) (\<lambda>_ es. list_all reads es)"
  using PostApply_reads PostNoop_reads unfolding run_check_def emits_def
  by (cases check) (auto intro!: traces_return traces_bind [where ?T1.0 = "\<lambda>_. list_all reads"])

lemma traces_attempt_cycle:
  assumes "\<And>e ap. T (Some e) ap \<Longrightarrow> errors_Is e ErrConflict \<Longrightarrow>
      traces (again e) (\<lambda>res post. \<forall>rd. list_all reads rd \<longrightarrow> attempts_log T (noop_seen R S) n res (rd @ ap @ post))"
  shows "traces (attempt_cycle key oper force again) (attempts_log T (noop_seen R S) n)"
  unfolding attempt_cycle_def
proof (rule traces_bind [OF Read_traces], rule traces_case_sum, goal_cases)
  case (1 c es e)
  then show ?case by (auto intro!: traces_return attempts_log.unchanged)
next
  case rd: (2 c es current)
  show ?case
  proof (rule traces_bind [OF traces_get], rule traces_if, goal_cases)
    case (1 s gs)
    with rd show ?case
      by (auto intro!: traces_bind [OF traces_check] traces_return attempts_log.unchanged noop_seenI Satisfied_only)
  next
    case (2 s gs)
    show ?case
    proof (rule traces_bind [OF Apply_traces], rule traces_case_option, goal_cases)
      case (1 applied ap)
      with rd 2 show ?case
        by (auto intro!: traces_bind [OF traces_reread] traces_bind [OF traces_check] traces_return
            attempts_log.changed)
    next
      case (2 applied ap err)
      with rd \<open>gs = []\<close> show ?case
        by (cases "errors_Is err ErrConflict") (auto intro!: traces_return attempts_log.failed traces_mono [OF assms])
    qed
  qed
qed

lemma traces_attempts: "traces (attempts n key oper force) (attempts_log T (noop_seen R S) n)"
proof (induction n)
  case 0
  show ?case
    unfolding attempts.simps
    by (rule traces_attempt_cycle) (auto intro!: traces_return attempts_log.failed)
next
  case (Suc n)
  show ?case
    unfolding attempts.simps
    by (rule traces_attempt_cycle) (auto intro!: traces_mono [OF Suc.IH] attempts_log.conflict)
qed

lemma traces_Run:
  "traces (Run env rp key oper force)
     (\<lambda>res es.
        (\<exists>e. res = Inl e \<and> follow (filesFor rp key) (PStart Exclusive) es = Some PDone \<and>
           list_all (\<lambda>e. \<not> is_write e) es) \<or>
        (\<exists>lk body u. es = lk @ body @ [EUnlock (kf_resource (filesFor rp key)) u] \<and>
           list_all (\<lambda>e. \<not> is_write e) lk \<and>
           follow (filesFor rp key) (PStart Exclusive) lk = Some (PHeld Exclusive) \<and>
           attempts_log T (noop_seen R S) (maxConflictRetries - 1) res body))"
  unfolding Run_def unlock_def
proof (rule traces_bind [OF traces_Mutation_no_write], rule traces_case_sum, goal_cases)
  case (1 r es e)
  then show ?case by (auto intro!: traces_return)
next
  case (2 r es resource)
  then show ?case
    by (auto intro!: traces_bind [OF traces_attempts] traces_bind [OF traces_flock_Unlock] traces_return)
qed

end


section \<open>Consequences for every operation\<close>

lemma filter_write_reads: "list_all reads es \<Longrightarrow> filter is_write es = []"
  by (induction es) (auto simp: reads_def)

lemma attempts_log_mono:
  "attempts_log T Q n res es \<Longrightarrow> (\<And>r ap. T r ap \<Longrightarrow> T' r ap) \<Longrightarrow> attempts_log T' Q n res es"
  by (induction rule: attempts_log.induct) (auto intro: attempts_log.intros)

lemma attempts_log_all:
  assumes "\<And>r ap. T r ap \<Longrightarrow> list_all P ap" and "\<And>e. reads e \<Longrightarrow> P e"
  shows "attempts_log T Q n res es \<Longrightarrow> list_all P es"
  by (induction rule: attempts_log.induct) (auto dest: assms(1) list.pred_mono_strong [OF _ assms(2)])

lemma attempts_log_gated:
  assumes "looks_back G" and "\<And>r ap. T r ap \<Longrightarrow> gated G ap"
  shows "attempts_log T Q n res es \<Longrightarrow> gated G es"
  by (induction rule: attempts_log.induct)
    (auto intro!: gated_append [OF assms(1)] intro: gated_reads assms(2))

context op_contract
begin

text \<open>What \<open>Apply\<close> guarantees of each of its writes holds of every write of a run.\<close>

lemma Run_gated:
  assumes "looks_back G" and "\<And>r ap. T r ap \<Longrightarrow> gated G ap"
    and "run_state (Run env rp key oper force) s = (res, s')"
  shows "\<exists>es. log s' = log s @ es \<and> gated G es"
proof -
  obtain es where es: "log s' = log s @ es"
    and "list_all (\<lambda>e. \<not> is_write e) es \<or>
        (\<exists>lk body u. es = lk @ body @ [EUnlock (kf_resource (filesFor rp key)) u] \<and>
           list_all (\<lambda>e. \<not> is_write e) lk \<and> attempts_log T (noop_seen R S) (maxConflictRetries - 1) res body)"
    using traces_runD [OF traces_Run assms(3)] by blast
  then have "gated G es"
    by (auto intro!: gated_append [OF assms(1)] intro: gated_no_write attempts_log_gated [OF assms(1,2)])
  with es show ?thesis by blast
qed

text \<open>A run that reports success: a successful \<open>Apply\<close>, or a read that was satisfied.\<close>

lemma Run_success:
  assumes "run_state (Run env rp key oper force) s = (Inr x, s')"
  shows "\<exists>es pre mid post. log s' = log s @ es \<and> es = pre @ mid @ post \<and>
           (if Changed x then T None mid else S (Before x) \<and> R (Before x) mid)"
proof -
  have "\<exists>pre mid post. body = pre @ mid @ post \<and>
      (if Changed x then T None mid else S (Before x) \<and> R (Before x) mid)"
    if "attempts_log T (noop_seen R S) n res body" "res = Inr x" for n res body
    using that
  proof (induction rule: attempts_log.induct)
    case (unchanged rd res n)
    then obtain r0 r1 where "rd = r0 @ r1" "R (Before x) r0" "S (Before x)" "\<not> Changed x"
      by (auto simp: noop_seen_def)
    then show ?case by (intro exI [of _ "[]"] exI [of _ r0] exI [of _ r1]) simp
  next
    case (changed rd ap post y n)
    then show ?case by (intro exI [of _ rd] exI [of _ ap] exI [of _ post]) simp
  next
    case (conflict rd e ap n res post)
    then obtain pre mid rest where "post = pre @ mid @ rest"
      "if Changed x then T None mid else S (Before x) \<and> R (Before x) mid" by blast
    then show ?case by (intro exI [of _ "rd @ ap @ pre"] exI [of _ mid] exI [of _ rest]) simp
  qed simp
  with traces_runD [OF traces_Run assms] show ?thesis
    by simp (metis append.assoc)
qed

end

text \<open>
  An operation whose \<open>Apply\<close> relies on what its \<open>Read\<close> left in the operation's fields: what an
  attempt guarantees of its writes, from its read on, holds of every write of a run.
\<close>

locale op_attempt = op_contract oper T R S
    for oper :: "('r sess_scheme, 'c) op" and T :: "gerror option \<Rightarrow> event list \<Rightarrow> bool"
      and R :: "'c \<Rightarrow> event list \<Rightarrow> bool" and S :: "'c \<Rightarrow> bool" +
  fixes G :: "event list \<Rightarrow> event \<Rightarrow> bool"
  assumes looks: "looks_back G"
    and attempt_gated: "run_state (op_Read oper) s = (Inr c, s1) \<Longrightarrow> run_state (op_Apply oper) s1 = (r, s2) \<Longrightarrow>
      \<exists>es. log s2 = log s @ es \<and> gated G es"
begin

lemma gated_then_reads: "gated G es \<Longrightarrow> list_all reads fs \<Longrightarrow> gated G (es @ fs)"
  by (rule gated_append [OF looks]) (auto intro: gated_reads)

lemma traces_attempt_gated:
  assumes again: "\<And>e. traces (again e) (\<lambda>_ es. gated G es)"
  shows "traces (attempt_cycle key oper force again) (\<lambda>_ es. gated G es)"
  unfolding traces_def
proof
  fix s :: "'r sess_scheme"
  let ?goal = "\<lambda>s' :: 'r sess_scheme. \<exists>es. log s' = log s @ es \<and> gated G es"
  obtain c s1 where rd: "run_state (op_Read oper) s = (c, s1)" by force
  from traces_runD [OF Read_traces rd] obtain r0 where r0: "log s1 = log s @ r0" "list_all reads r0" by blast
  show "?goal (snd (run_state (attempt_cycle key oper force again) s))"
  proof (cases c)
    case (Inl e)
    with rd r0 show ?thesis by (auto simp: attempt_cycle_def intro: gated_reads)
  next
    case current: (Inr current)
    show ?thesis
    proof (cases "\<not> force \<and> op_Satisfied oper s1 current")
      case True
      obtain e s2 where chk: "run_state (run_check key '': no-op check: '' (op_PostNoop oper)) s1 = (e, s2)" by force
      with traces_runD [OF traces_check chk] r0 have "?goal s2" by (auto intro: gated_then_reads gated_reads)
      with True rd current chk show ?thesis by (simp add: attempt_cycle_def State_Monad.get_def)
    next
      case False
      then have apply_it: "(\<not> force \<and> op_Satisfied oper s1 current) = False" by blast
      obtain ap s2 where ap: "run_state (op_Apply oper) s1 = (ap, s2)" by force
      from attempt_gated [OF rd [unfolded current] ap] obtain es where es: "log s2 = log s @ es" "gated G es" by blast
      show ?thesis
      proof (cases ap)
        case None
        obtain a s3 where rr: "run_state (case op_ReRead oper of None \<Rightarrow> op_Read oper | Some m \<Rightarrow> m) s2 = (a, s3)" by force
        obtain e s4 where chk: "run_state (run_check key '': post-apply check: '' (op_PostApply oper)) s3 = (e, s4)" by force
        from traces_runD [OF traces_reread rr] traces_runD [OF traces_check chk] es
        have "?goal s4" by (auto intro!: gated_append [OF looks] intro: gated_reads)
        with rd current apply_it ap None rr chk show ?thesis
          by (simp only: attempt_cycle_def State_Monad.get_def run_state_bind run_state_return state.sel prod.case
              sum.case option.case if_False snd_conv)
      next
        case (Some err)
        obtain r s3 where ag: "run_state (again err) s2 = (r, s3)" by force
        from traces_runD [OF again ag] es have "?goal s3" by (auto intro: gated_append [OF looks])
        with es rd current apply_it ap Some ag show ?thesis
          by (cases "errors_Is err ErrConflict")
            (auto simp only: attempt_cycle_def State_Monad.get_def run_state_bind run_state_return state.sel prod.case
              sum.case option.case if_False if_True snd_conv)
      qed
    qed
  qed
qed

lemma traces_attempts_gated: "traces (attempts n key oper force) (\<lambda>_ es. gated G es)"
proof (induction n)
  case 0
  show ?case unfolding attempts.simps by (intro traces_attempt_gated traces_return) (simp add: gated_def)
next
  case (Suc n)
  then show ?case unfolding attempts.simps by (rule traces_attempt_gated)
qed

lemma Run_attempts_gated:
  assumes "run_state (Run env rp key oper force) s = (res, s')"
  shows "\<exists>es. log s' = log s @ es \<and> gated G es"
proof -
  have "traces (Run env rp key oper force) (\<lambda>_ es. gated G es)"
    unfolding Run_def unlock_def
  proof (rule traces_bind [OF traces_Mutation_no_write], rule traces_case_sum, goal_cases)
    case (1 r es e)
    then show ?case by (auto intro!: traces_return gated_no_write)
  next
    case (2 r es resource)
    then show ?case
      by (auto intro!: traces_bind [OF traces_attempts_gated] traces_bind [OF traces_flock_Unlock] traces_return
          gated_append [OF looks] intro: gated_no_write)
  qed
  from traces_runD [OF this assms] show ?thesis .
qed

end

text \<open>An operation whose \<open>Apply\<close> never reports a conflict is applied at most once.\<close>

lemma attempts_log_once:
  assumes "attempts_log T Q n res es" and "\<And>e ap. T (Some e) ap \<Longrightarrow> \<not> errors_Is e ErrConflict"
  shows "list_all reads es \<and> (\<forall>x. res = Inr x \<longrightarrow> \<not> Changed x) \<or>
         (\<exists>rd ap post r. es = rd @ ap @ post \<and> list_all reads rd \<and> list_all reads post \<and> T r ap \<and>
            (r = None \<longleftrightarrow> (\<exists>x. res = Inr x \<and> Changed x)))"
  using assms(1)
proof cases
  case (failed rd e ap e')
  then show ?thesis by (intro disjI2 exI [of _ rd] exI [of _ ap] exI [of _ "[]"]) auto
qed (use assms(2) in auto)

text \<open>The calls of \<open>Apply\<close> in a run, with their results and their events.\<close>

definition apply_calls_ok :: "nat \<Rightarrow> gerror + 'c result \<Rightarrow> event list \<Rightarrow> (gerror option \<times> event list) list \<Rightarrow> bool" where
  "apply_calls_ok n res es calls \<longleftrightarrow>
     length calls \<le> n \<and> filter is_write es = filter is_write (concat (map snd calls)) \<and>
     (\<forall>c \<in> set (butlast calls). \<exists>e. fst c = Some e \<and> errors_Is e ErrConflict) \<and>
     ((\<exists>x. res = Inr x \<and> Changed x) \<longleftrightarrow> calls \<noteq> [] \<and> fst (last calls) = None)"

lemma attempts_log_calls:
  "attempts_log T Q n res es \<Longrightarrow>
     \<exists>calls. apply_calls_ok (Suc n) res es calls \<and> (\<forall>c \<in> set calls. T (fst c) (snd c))"
proof (induction rule: attempts_log.induct)
  case (unchanged rd res n)
  then show ?case by (intro exI [of _ "[]"]) (auto simp: apply_calls_ok_def filter_write_reads)
next
  case (changed rd ap post x n)
  then show ?case by (intro exI [of _ "[(None, ap)]"]) (auto simp: apply_calls_ok_def filter_write_reads)
next
  case (failed rd e ap n e')
  then show ?case by (intro exI [of _ "[(Some e, ap)]"]) (auto simp: apply_calls_ok_def filter_write_reads)
next
  case (conflict rd e ap n res post)
  then obtain calls where "apply_calls_ok (Suc n) res post calls" "\<forall>c \<in> set calls. T (fst c) (snd c)"
    by blast
  with conflict show ?case
    by (intro exI [of _ "(Some e, ap) # calls"]) (auto simp: apply_calls_ok_def filter_write_reads)
qed

text \<open>Every event of \<open>Apply\<close>, as a call of it from some session.\<close>

definition called :: "('r sess_scheme, 'a) state \<Rightarrow> 'a \<Rightarrow> event list \<Rightarrow> bool" where
  "called m r es \<longleftrightarrow> (\<exists>s s'. run_state m s = (r, s') \<and> log s' = log s @ es)"

lemma traces_called: "emits P m \<Longrightarrow> traces m (\<lambda>r es. called m r es \<and> list_all P es)"
  unfolding emits_def traces_def called_def by (metis prod.collapse)

lemma op_contract_called:
  assumes "emits reads (op_Read oper)" and "emits remote (op_Apply oper)"
    and "\<forall>m \<in> set_option (op_PostApply oper) \<union> set_option (op_PostNoop oper). emits reads m"
    and "\<forall>m \<in> set_option (op_ReRead oper). emits reads m"
  shows "op_contract oper (\<lambda>r es. called (op_Apply oper) r es \<and> list_all remote es) (\<lambda>_ _. True) (\<lambda>_. True)"
  using assms by unfold_locales (auto intro: traces_called simp: emits_def)

lemma writes_while_held:
  assumes "follow kf (PStart Exclusive) lk = Some (PHeld Exclusive)" and "list_all remote body"
    and "lk @ body @ [EUnlock f u] = pre @ e # post" and "is_write e"
    and "list_all (\<lambda>e. \<not> is_write e) lk"
  shows "follow kf (PStart Exclusive) pre = Some (PHeld Exclusive)"
proof -
  have "\<not> length pre < length lk"
  proof
    assume "length pre < length lk"
    then have "e = lk ! length pre" using assms(3) by (metis nth_append nth_append_length)
    with assms(4,5) \<open>length pre < length lk\<close> show False by (auto simp: list_all_length)
  qed
  then obtain mid where pre: "pre = lk @ mid" and rest: "body @ [EUnlock f u] = mid @ e # post"
    using assms(3) by (auto simp: append_eq_append_conv2) (metis append_Nil2 append_self_conv list.simps(3))+
  have "list_all remote mid"
  proof (cases post rule: rev_cases)
    case Nil
    with rest assms(4) show ?thesis by auto
  next
    case (snoc post' z)
    with rest have "body = mid @ e # post'" by auto
    with assms(2) show ?thesis by simp
  qed
  then show ?thesis by (simp add: pre follow_append assms(1) follow_remote)
qed

text \<open>The generic hypotheses of the properties below: reads only read, and \<open>Apply\<close> takes no lock.\<close>

definition well_behaved :: "('r sess_scheme, 'c) op \<Rightarrow> bool" where
  "well_behaved oper \<longleftrightarrow>
     emits reads (op_Read oper) \<and> emits remote (op_Apply oper) \<and>
     (\<forall>m \<in> set_option (op_PostApply oper) \<union> set_option (op_PostNoop oper). emits reads m) \<and>
     (\<forall>m \<in> set_option (op_ReRead oper). emits reads m)"

lemma well_behaved_contract:
  "well_behaved oper \<Longrightarrow> op_contract oper (\<lambda>r es. called (op_Apply oper) r es \<and> list_all remote es) (\<lambda>_ _. True) (\<lambda>_. True)"
  unfolding well_behaved_def by (intro op_contract_called) auto

text \<open>
  C20: a run of an operation is one complete session of the object's lock, and every write it sends
  is sent while that session holds the object exclusively.
\<close>

theorem Run_writes_under_lock:
  assumes "well_behaved oper"
    and "run_state (Run env rp key oper force) s = (res, s')"
  shows "\<exists>es. log s' = log s @ es \<and> follow (filesFor rp key) (PStart Exclusive) es = Some PDone \<and>
           (\<forall>pre e post. es = pre @ e # post \<and> is_write e \<longrightarrow>
              follow (filesFor rp key) (PStart Exclusive) pre = Some (PHeld Exclusive))"
proof -
  let ?T = "\<lambda>r es. called (op_Apply oper) r es \<and> list_all remote es"
  let ?Q = "noop_seen (\<lambda>_ _. True) (\<lambda>_. True)"
  let ?kf = "filesFor rp key"
  obtain es where es: "log s' = log s @ es"
    and "(\<exists>e. res = Inl e \<and> follow ?kf (PStart Exclusive) es = Some PDone \<and> list_all (\<lambda>e. \<not> is_write e) es) \<or>
        (\<exists>lk body u. es = lk @ body @ [EUnlock (kf_resource ?kf) u] \<and> list_all (\<lambda>e. \<not> is_write e) lk \<and>
           follow ?kf (PStart Exclusive) lk = Some (PHeld Exclusive) \<and>
           attempts_log ?T ?Q (maxConflictRetries - 1) res body)"
    using traces_runD [OF op_contract.traces_Run [OF well_behaved_contract [OF assms(1)]] assms(2)] by blast
  then show ?thesis
  proof (elim disjE exE conjE)
    fix e
    assume "follow ?kf (PStart Exclusive) es = Some PDone" "list_all (\<lambda>e. \<not> is_write e) es"
    with es show ?thesis by auto
  next
    fix lk body u
    assume body: "es = lk @ body @ [EUnlock (kf_resource ?kf) u]" "list_all (\<lambda>e. \<not> is_write e) lk"
      "follow ?kf (PStart Exclusive) lk = Some (PHeld Exclusive)"
      "attempts_log ?T ?Q (maxConflictRetries - 1) res body"
    have remote: "list_all remote body"
      by (rule attempts_log_all [OF _ _ body(4)]) (auto intro: reads_remote)
    have "follow ?kf (PStart Exclusive) es = Some PDone"
      by (simp add: body(1,3) follow_append follow_remote [OF remote] advance_def)
    with es writes_while_held [OF body(3) remote _ _ body(2)] body(1) show ?thesis by blast
  qed
qed

text \<open>
  C26: a run calls \<open>Apply\<close> at most three times; all its writes are those of these calls, every call
  but the last was refused with a conflict, and the run reports a change exactly when the last
  call succeeded.
\<close>

theorem Run_apply_calls:
  assumes "well_behaved oper"
    and "run_state (Run env rp key oper force) s = (res, s')"
  shows "\<exists>es calls. log s' = log s @ es \<and> apply_calls_ok 3 res es calls \<and>
           (\<forall>c \<in> set calls. called (op_Apply oper) (fst c) (snd c))"
proof -
  let ?T = "\<lambda>r es. called (op_Apply oper) r es \<and> list_all remote es"
  let ?Q = "noop_seen (\<lambda>_ _. True) (\<lambda>_. True)"
  obtain es where es: "log s' = log s @ es"
    and "(\<exists>e. res = Inl e \<and> list_all (\<lambda>e. \<not> is_write e) es) \<or>
        (\<exists>lk body u. es = lk @ body @ [EUnlock (kf_resource (filesFor rp key)) u] \<and>
           list_all (\<lambda>e. \<not> is_write e) lk \<and> attempts_log ?T ?Q (maxConflictRetries - 1) res body)"
    using traces_runD [OF op_contract.traces_Run [OF well_behaved_contract [OF assms(1)]] assms(2)] by blast
  then show ?thesis
  proof (elim disjE exE conjE)
    fix e
    assume "res = Inl e" "list_all (\<lambda>e. \<not> is_write e) es"
    with es show ?thesis
      by (intro exI [of _ es] exI [of _ "[]"]) (auto simp: apply_calls_ok_def filter_empty_conv list_all_iff)
  next
    fix lk body u
    assume body: "es = lk @ body @ [EUnlock (kf_resource (filesFor rp key)) u]"
      "list_all (\<lambda>e. \<not> is_write e) lk" "attempts_log ?T ?Q (maxConflictRetries - 1) res body"
    from attempts_log_calls [OF body(3)] obtain calls where
      "apply_calls_ok 3 res body calls" "\<forall>c \<in> set calls. called (op_Apply oper) (fst c) (snd c)"
      by (auto simp: maxConflictRetries_def eval_nat_numeral)
    with es body(1,2) show ?thesis
      by (intro exI [of _ es] exI [of _ calls]) (auto simp: apply_calls_ok_def filter_empty_conv list_all_iff)
  qed
qed

lemma run_attempts_noop:
  assumes "run_state (op_Read oper) s1 = (Inr current, s2)" and "op_Satisfied oper s2 current"
    and "run_state (run_check key '': no-op check: '' (op_PostNoop oper)) s2 = (e, s3)"
  shows "run_state (attempts n key oper False) s1 =
           (Inr \<lparr>Changed = False, Before = current, After = current, AfterErr = None, PostApplyErr = e\<rparr>, s3)"
  using assms by (cases n) (simp_all add: attempt_cycle_def State_Monad.get_def)

lemma run_attempts_applied:
  assumes "run_state (op_Read oper) s1 = (Inr current, s2)" and "force \<or> \<not> op_Satisfied oper s2 current"
    and "run_state (op_Apply oper) s2 = (None, s3)"
    and "run_state (case op_ReRead oper of None \<Rightarrow> op_Read oper | Some m \<Rightarrow> m) s3 = (a, s4)"
    and "run_state (run_check key '': post-apply check: '' (op_PostApply oper)) s4 = (e, s5)"
  shows "\<exists>x. run_state (attempts n key oper force) s1 = (Inr x, s5) \<and> Changed x \<and> Before x = current \<and>
    PostApplyErr x = e"
proof -
  have "(\<not> force \<and> op_Satisfied oper s2 current) = False" using assms(2) by blast
  with assms(1,3,4,5) show ?thesis
    by (cases n) (simp_all only: attempts.simps attempt_cycle_def State_Monad.get_def run_state_bind
        run_state_return state.sel prod.case sum.case option.case if_False ex_simps, auto)
qed

text \<open>The end of an attempt that applied: the re-read and the check, and how the result reports them.\<close>

definition reports_after ::
    "object_key \<Rightarrow> ('s, 'c) op \<Rightarrow> 'c result \<Rightarrow> 's \<Rightarrow> 's \<Rightarrow> bool" where
  "reports_after key oper x s3 s5 \<longleftrightarrow>
     (\<exists>a s4. run_state (case op_ReRead oper of None \<Rightarrow> op_Read oper | Some m \<Rightarrow> m) s3 = (a, s4) \<and>
        run_state (run_check key '': post-apply check: '' (op_PostApply oper)) s4 = (PostApplyErr x, s5) \<and>
        After x = (case a of Inr c \<Rightarrow> c | Inl _ \<Rightarrow> Before x) \<and>
        AfterErr x = (case a of Inr _ \<Rightarrow> None | Inl e \<Rightarrow> Some (engine_error key '': re-read: '' e)))"

lemma attempt_cycle_tail:
  assumes "run_state (attempt_cycle key oper force again) s = (Inr x, s')" and "Changed x"
  shows "(\<exists>s3. reports_after key oper x s3 s') \<or> (\<exists>e s3. run_state (again e) s3 = (Inr x, s'))"
  using assms unfolding reports_after_def
  by (auto simp: attempt_cycle_def State_Monad.get_def split: prod.splits sum.splits option.splits if_splits) blast+

lemma attempts_tail:
  "run_state (attempts n key oper force) s = (Inr x, s') \<Longrightarrow> Changed x \<Longrightarrow> \<exists>s3. reports_after key oper x s3 s'"
proof (induction n arbitrary: s)
  case 0
  then show ?case unfolding attempts.simps by (auto dest!: attempt_cycle_tail)
next
  case (Suc n)
  then show ?case unfolding attempts.simps by (blast dest: attempt_cycle_tail)
qed

lemma Run_tail:
  assumes "run_state (Run env rp key oper force) s = (Inr x, s')" and "Changed x"
  shows "\<exists>s3 s5 f u. reports_after key oper x s3 s5 \<and> log s' = log s5 @ [EUnlock f u]"
proof -
  obtain lk s1 where m: "run_state (Mutation env rp key) s = (lk, s1)" by force
  with assms(1) obtain resource where lk: "lk = Inr resource" by (cases lk) (auto simp: Run_def)
  obtain r s5 where at: "run_state (attempts (maxConflictRetries - 1) key oper force) s1 = (r, s5)" by force
  obtain u s6 where un: "run_state (flock_Unlock env resource) s5 = (u, s6)" by force
  from assms(1) m lk at un have "r = Inr x" "s' = s6" by (auto simp: Run_def unlock_def)
  with attempts_tail [OF at [unfolded \<open>r = Inr x\<close>] assms(2)] traces_runD [OF traces_flock_Unlock un]
  show ?thesis by blast
qed

text \<open>
  Without force, a run whose first read shows the wanted state writes nothing, reports no
  change, and reports that state as both the one before and the one after.
\<close>

theorem Run_noop:
  assumes "well_behaved oper"
    and "run_state (Mutation env rp key) s = (Inr resource, s1)"
    and "run_state (op_Read oper) s1 = (Inr current, s2)" and "op_Satisfied oper s2 current"
    and "run_state (Run env rp key oper False) s = (res, s')"
  shows "(\<exists>es. log s' = log s @ es \<and> list_all (\<lambda>e. \<not> is_write e) es) \<and>
         (\<exists>x. res = Inr x \<and> \<not> Changed x \<and> Before x = current \<and> After x = current)"
proof -
  let ?check = "run_check key '': no-op check: '' (op_PostNoop oper)"
  obtain e s3 where chk: "run_state ?check s2 = (e, s3)" by force
  obtain u s4 where u: "run_state (unlock env resource) s3 = (u, s4)" by force
  note noop = run_attempts_noop [OF assms(3,4) chk, of "maxConflictRetries - 1"]
  have run: "res = Inr \<lparr>Changed = False, Before = current, After = current, AfterErr = None, PostApplyErr = e\<rparr>"
    "s' = s4"
    using assms(2,5) noop u by (simp_all add: Run_def)
  have checks: "traces ?check (\<lambda>_ es. list_all reads es)"
    by (rule op_contract.traces_check [OF well_behaved_contract [OF assms(1)]]) simp
  have "traces (op_Read oper) (\<lambda>_ es. list_all reads es)"
    using assms(1) by (simp add: well_behaved_def emits_def)
  from traces_runD [OF traces_Mutation_no_write assms(2)] traces_runD [OF this assms(3)]
    traces_runD [OF checks chk] traces_runD [OF traces_flock_Unlock u [unfolded unlock_def]]
  obtain e1 e2 e3 where "log s' = log s @ e1 @ e2 @ e3 @ [EUnlock resource u]"
    "list_all (\<lambda>e. \<not> is_write e) e1" "list_all reads e2" "list_all reads e3"
    by (auto simp: run(2))
  then show ?thesis by (auto simp: run(1) list_all_iff reads_def)
qed


section \<open>An example operation\<close>

text \<open>An operation that writes once and always finds a conflict.\<close>

definition demo_op :: "(sess, string) op" where
  "demo_op = \<lparr>op_Read = ret (Inr ''old''), op_Satisfied = (\<lambda>s c. c = ''new''),
     op_Apply = do { _ \<leftarrow> http_do calm PUT ''/demo'' []; ret (Some (Sentinel ErrConflict)) },
     op_PostApply = None, op_ReRead = None, op_PostNoop = None\<rparr>"

lemma well_behaved_demo: "well_behaved demo_op" "well_behaved (demo_op\<lparr>op_Read := ret (Inr ''new'')\<rparr>)"
  by (auto simp: well_behaved_def demo_op_def intro!: emits_intro)

lemma run_demo:
  "fst (run_state (Run calm ''roster.yaml'' demo_key demo_op False) fresh) =
     Inl (engine_error demo_key '': apply: '' (Sentinel ErrConflict))"
  "filter is_write (log (snd (run_state (Run calm ''roster.yaml'' demo_key demo_op False) fresh))) =
     replicate 3 (EHttp PUT ''/demo'' [] (HAnswer 200 ''200 OK'' ''{}'' (Some (JObj ''{}'' []))))"
  by (simp_all add: Run_def maxConflictRetries_def numeral_2_eq_2 numeral_3_eq_3 attempt_cycle_def
      State_Monad.get_def demo_op_def Mutation_def ensureLockDir_def acquire_def unlock_def Let_def
      primitive_defs run_simps)

theorem Run_writes_under_lock_witness:
  "\<exists>es. log (snd (run_state (Run calm ''roster.yaml'' demo_key demo_op False) fresh)) = es \<and>
        follow (filesFor ''roster.yaml'' demo_key) (PStart Exclusive) es = Some PDone \<and>
        length (filter is_write es) = 3"
  using Run_writes_under_lock [OF well_behaved_demo(1) surjective_pairing,
      of calm "''roster.yaml''" demo_key False fresh]
  by (auto simp: run_demo)

text \<open>
  The run of this operation at work: it is well behaved, its three writes are those of three calls
  of its \<open>Apply\<close>, all refused with a conflict, and the run reports no change.
\<close>

theorem Run_apply_calls_witness:
  "\<exists>calls. well_behaved demo_op \<and>
     apply_calls_ok 3 (fst (run_state (Run calm ''roster.yaml'' demo_key demo_op False) fresh))
       (log (snd (run_state (Run calm ''roster.yaml'' demo_key demo_op False) fresh))) calls \<and>
     list_all (\<lambda>c. called (op_Apply demo_op) (fst c) (snd c)) calls \<and>
     map fst calls = replicate 3 (Some (Sentinel ErrConflict)) \<and>
     isl (fst (run_state (Run calm ''roster.yaml'' demo_key demo_op False) fresh))"
proof -
  have one: "length (filter is_write ap) = 1 \<and> r = Some (Sentinel ErrConflict)" if "called (op_Apply demo_op) r ap" for r ap
    using that by (auto simp: called_def demo_op_def http_do_def run_simps)
  let ?run = "run_state (Run calm ''roster.yaml'' demo_key demo_op False) fresh"
  obtain calls where ok: "apply_calls_ok 3 (fst ?run) (log (snd ?run)) calls"
    and calls: "list_all (\<lambda>c. called (op_Apply demo_op) (fst c) (snd c)) calls"
    using Run_apply_calls [OF well_behaved_demo(1) surjective_pairing,
        of calm "''roster.yaml''" demo_key False fresh] by (auto simp: list_all_iff)
  from ok have three: "length (filter is_write (concat (map snd calls))) = 3"
    unfolding apply_calls_ok_def by (metis length_replicate run_demo(2))
  have "length (filter is_write (concat (map snd cs))) = length cs \<and>
      map fst cs = replicate (length cs) (Some (Sentinel ErrConflict))"
    if "list_all (\<lambda>c. called (op_Apply demo_op) (fst c) (snd c)) cs" for cs
    using that by (induction cs) (auto dest: one)
  from this [OF calls] three ok calls well_behaved_demo(1) show ?thesis
    by (intro exI [of _ calls]) (simp add: run_demo)
qed

theorem Run_noop_witness:
  "\<exists>x. fst (run_state (Run calm ''roster.yaml'' demo_key (demo_op\<lparr>op_Read := ret (Inr ''new'')\<rparr>) False) fresh) = Inr x \<and>
       \<not> Changed x \<and> Before x = ''new''"
proof -
  obtain s1 where "run_state (Mutation calm ''roster.yaml'' demo_key) fresh =
      (Inr (kf_resource (filesFor ''roster.yaml'' demo_key)), s1)"
    using run_Mutation_calm by (metis prod.collapse)
  from Run_noop [OF well_behaved_demo(2) this _ _ surjective_pairing, of "''new''" s1]
  show ?thesis by (auto simp: demo_op_def)
qed


text \<open>For evaluating runs of the operations.\<close>

lemmas engine_run_defs =
  Run_def maxConflictRetries_def numeral_2_eq_2 attempt_cycle_def
  State_Monad.get_def Mutation_def ensureLockDir_def acquire_def unlock_def Let_def primitive_defs
  RawRequest_def strings_HasPrefix_def qemu_path_def GetVM_def Client_GetVM_def run_check_def

section \<open>The last attempt of a run\<close>

text \<open>
  A run that returned a result, down to its last attempt: the read, and either that the operation was satisfied by
  it, or the \<open>Apply\<close> that succeeded and what was read and checked after it.
\<close>

definition ended ::
    "object_key \<Rightarrow> ('r sess_scheme, 'c) op \<Rightarrow> bool \<Rightarrow> 'c result \<Rightarrow> 'r sess_scheme \<Rightarrow> 'r sess_scheme \<Rightarrow> bool" where
  "ended key oper force x s s' \<longleftrightarrow>
     (\<exists>s1. run_state (op_Read oper) s = (Inr (Before x), s1) \<and>
        (if Changed x then \<exists>s2. run_state (op_Apply oper) s1 = (None, s2) \<and> reports_after key oper x s2 s'
         else \<not> force \<and> op_Satisfied oper s1 (Before x) \<and> (\<exists>post. log s' = log s1 @ post)))"

context op_contract
begin

lemma reports_after_log: "reports_after key oper x s3 s5 \<Longrightarrow> \<exists>post. log s5 = log s3 @ post"
  unfolding reports_after_def using traces_runD [OF traces_reread] traces_runD [OF traces_check] by (metis append.assoc)

lemma attempt_cycle_ended:
  assumes "run_state (attempt_cycle key oper force again) s = (Inr x, s')"
  shows "ended key oper force x s s' \<or> (\<exists>e s3 pre. log s3 = log s @ pre \<and> run_state (again e) s3 = (Inr x, s'))"
proof -
  obtain r s1 where rd: "run_state (op_Read oper) s = (r, s1)" by force
  with assms obtain c where r: "r = Inr c" by (cases r) (auto simp: attempt_cycle_def)
  show ?thesis
  proof (cases "\<not> force \<and> op_Satisfied oper s1 c")
    case True
    obtain e s2 where chk: "run_state (run_check key '': no-op check: '' (op_PostNoop oper)) s1 = (e, s2)" by force
    with True assms rd r have "x = \<lparr>Changed = False, Before = c, After = c, AfterErr = None, PostApplyErr = e\<rparr>" "s' = s2"
      by (auto simp: attempt_cycle_def State_Monad.get_def)
    with True rd r traces_runD [OF traces_check chk] show ?thesis unfolding ended_def by auto
  next
    case False
    then have force_on: "(\<not> force \<and> op_Satisfied oper s1 c) = False" by simp
    obtain a s2 where ap: "run_state (op_Apply oper) s1 = (a, s2)" by force
    from traces_runD [OF Read_traces rd] obtain r0 where r0: "log s1 = log s @ r0" by blast
    from traces_runD [OF Apply_traces ap] obtain r1 where r1: "log s2 = log s1 @ r1" by blast
    show ?thesis
    proof (cases a)
      case None
      obtain b s3 where rr: "run_state (case op_ReRead oper of None \<Rightarrow> op_Read oper | Some m \<Rightarrow> m) s2 = (b, s3)" by force
      obtain e s4 where chk: "run_state (run_check key '': post-apply check: '' (op_PostApply oper)) s3 = (e, s4)" by force
      from assms rd r force_on ap None rr chk have x: "x = \<lparr>Changed = True, Before = c,
          After = (case b of Inr a \<Rightarrow> a | Inl _ \<Rightarrow> c),
          AfterErr = (case b of Inr _ \<Rightarrow> None | Inl e \<Rightarrow> Some (engine_error key '': re-read: '' e)), PostApplyErr = e\<rparr>" and s': "s' = s4"
        by (auto simp only: attempt_cycle_def State_Monad.get_def run_state_bind run_state_return state.sel prod.case
            sum.case option.case if_False prod.inject sum.inject)
      with rr chk have "reports_after key oper x s2 s'" by (auto simp: reports_after_def split: sum.splits)
      with x rd r ap None show ?thesis unfolding ended_def by auto
    next
      case (Some err)
      with assms rd r force_on ap have "run_state (again err) s2 = (Inr x, s')"
        by (cases "errors_Is err ErrConflict")
          (auto simp only: attempt_cycle_def State_Monad.get_def run_state_bind run_state_return state.sel prod.case
            sum.case option.case if_False if_True prod.inject)
      moreover have "log s2 = log s @ (r0 @ r1)" using r0 r1 by simp
      ultimately show ?thesis by blast
    qed
  qed
qed

lemma attempts_ended:
  "run_state (attempts n key oper force) s = (Inr x, s') \<Longrightarrow> \<exists>s0 pre. log s0 = log s @ pre \<and> ended key oper force x s0 s'"
proof (induction n arbitrary: s)
  case 0
  from attempt_cycle_ended [OF 0 [unfolded attempts.simps]] show ?case by (auto intro!: exI [of _ s])
next
  case (Suc n)
  from attempt_cycle_ended [OF Suc.prems [unfolded attempts.simps]] show ?case
  proof (elim disjE exE conjE)
    assume "ended key oper force x s s'"
    then show ?thesis by (auto intro!: exI [of _ s])
  next
    fix e s3 pre
    assume "log s3 = log s @ pre" "run_state (attempts n key oper force) s3 = (Inr x, s')"
    with Suc.IH [OF this(2)] show ?thesis by (metis append.assoc)
  qed
qed

lemma Run_ended:
  assumes "run_state (Run env rp key oper force) s = (Inr x, s')"
  shows "\<exists>s0 s5 pre f u. log s0 = log s @ pre \<and> ended key oper force x s0 s5 \<and> log s' = log s5 @ [EUnlock f u]"
proof -
  obtain lk s1 where m: "run_state (Mutation env rp key) s = (lk, s1)" by force
  with assms obtain resource where lk: "lk = Inr resource" by (cases lk) (auto simp: Run_def)
  obtain r s5 where at: "run_state (attempts (maxConflictRetries - 1) key oper force) s1 = (r, s5)" by force
  obtain u s6 where un: "run_state (flock_Unlock env resource) s5 = (u, s6)" by force
  from assms m lk at un have r: "r = Inr x" "s' = s6" by (auto simp: Run_def unlock_def)
  from attempts_ended [OF at [unfolded r(1)]] obtain s0 pre where s0: "log s0 = log s1 @ pre" "ended key oper force x s0 s5" by blast
  from traces_runD [OF traces_Mutation_no_write m] obtain es where "log s1 = log s @ es" by blast
  moreover have "log s' = log s5 @ [EUnlock resource u]" using un r(2) by (auto simp: flock_Unlock_def run_perform)
  ultimately show ?thesis using s0
    by (intro exI [of _ s0] exI [of _ s5] exI [of _ "es @ pre"] exI [of _ resource] exI [of _ u]) simp
qed

lemma Run_applied:
  assumes "run_state (Run env rp key oper force) s = (Inr x, s')" and "Changed x"
  shows "\<exists>s0 s1 s2 pre post. log s0 = log s @ pre \<and> run_state (op_Read oper) s0 = (Inr (Before x), s1) \<and>
     run_state (op_Apply oper) s1 = (None, s2) \<and> log s' = log s2 @ post"
proof -
  from Run_ended [OF assms(1)] assms(2) obtain s0 s1 s2 s5 pre f u where "log s0 = log s @ pre"
    "run_state (op_Read oper) s0 = (Inr (Before x), s1)" "run_state (op_Apply oper) s1 = (None, s2)"
    "reports_after key oper x s2 s5" "log s' = log s5 @ [EUnlock f u]" unfolding ended_def by auto
  with reports_after_log [OF this(4)] show ?thesis by auto
qed

end

end
