(* ===== verification/VmDestroy.thy ===== *)
theory VmDestroy
  imports Engine Routed
begin

text \<open>
  \<open>vm destroy\<close> (\<open>internal/idempotent/vmdestroy.go\<close>): the fail-closed status gate, the conditional
  stop, the hard destroy, the reverification, the tag recheck.  The value of \<open>Read\<close> is the decoded
  config, or none when the VM is gone (the code's empty string); its rendering by \<open>json.Marshal\<close>
  is not modelled.
\<close>

record vmdestroy = sess +
  TagStillClaimedWarning :: bool
  TagRecheckErr :: "gerror option"

type_synonym config = "json gomap"

definition isMissingVMError :: "gerror \<Rightarrow> int \<Rightarrow> bool" where
  "isMissingVMError e vmid = NotFound_fragment e (''qemu-server/'' @ strconv_Itoa vmid @ ''.conf'')"

definition fetchVMConfig :: "env \<Rightarrow> target \<Rightarrow> int \<Rightarrow> ('r sess_scheme, gerror + config option) state" where
  "fetchVMConfig env t vmid = do {
     r \<leftarrow> RawRequest env GET (qemu_path (tg_node t) vmid ''/config'') [];
     ret (case r of
         Inl e \<Rightarrow> if isMissingVMError e vmid then Inr None else Inl e
       | Inr raw \<Rightarrow>
           (case unmarshal_map raw of
              None \<Rightarrow> Inl (Errorf [Lit ''parse: '', Wrapped json_type_error])
            | Some (notnil, flds) \<Rightarrow> Inr (Some flds)))
   }"

definition vm_destroy_error :: "int \<Rightarrow> frag list \<Rightarrow> gerror" where
  "vm_destroy_error vmid what = Errorf ([Lit ''vm destroy: vm '', Dec vmid] @ what)"

definition VMDestroy_Read :: "env \<Rightarrow> target \<Rightarrow> int \<Rightarrow> ('r sess_scheme, gerror + config option) state" where
  "VMDestroy_Read env t vmid = do {
     r \<leftarrow> fetchVMConfig env t vmid;
     ret (case r of
         Inl e \<Rightarrow> Inl (vm_destroy_error vmid [Lit '': read: '', Wrapped e])
       | Inr flds \<Rightarrow> Inr flds)
   }"

definition VMDestroy_Satisfied :: "config option \<Rightarrow> bool" where
  "VMDestroy_Satisfied current \<longleftrightarrow> current = None"

definition StatusGatedStop :: "env \<Rightarrow> target \<Rightarrow> int \<Rightarrow> ('r sess_scheme, gerror option) state" where
  "StatusGatedStop env t vmid = do {
     r \<leftarrow> GetVM env t (tg_node t) vmid;
     case r of
       Inl e \<Rightarrow> ret (Some (vm_destroy_error vmid [Lit '': status gate: '', Wrapped e]))
     | Inr None \<Rightarrow> ret (Some (vm_destroy_error vmid [Lit '': status gate: '', Wrapped (Sentinel ErrUnverifiableRead)]))
     | Inr (Some v) \<Rightarrow>
         if vs_status (vm_status v) = [] then
           ret (Some (vm_destroy_error vmid [Lit '': status gate: '', Wrapped (Sentinel ErrUnverifiableRead)]))
         else if vs_status (vm_status v) \<noteq> ''stopped'' then do {
           u \<leftarrow> StopVM env t vmid;
           case u of
             Inl e \<Rightarrow> ret (Some (vm_destroy_error vmid [Lit '': stop: '', Wrapped e]))
           | Inr upid \<Rightarrow> do {
               w \<leftarrow> WaitForTask env (tg_node t) upid;
               case w of
                 Some e \<Rightarrow> ret (Some (vm_destroy_error vmid [Lit '': stop: wait for task: '', Wrapped e]))
               | None \<Rightarrow> ret None
             }
         }
         else ret None
   }"

definition VMDestroy_Apply :: "env \<Rightarrow> target \<Rightarrow> int \<Rightarrow> string \<Rightarrow> (vmdestroy, gerror option) state" where
  "VMDestroy_Apply env t vmid tag = do {
     gate \<leftarrow> StatusGatedStop env t vmid;
     case gate of Some e \<Rightarrow> ret (Some e) | None \<Rightarrow> do {
     d \<leftarrow> DestroyVM env t vmid True;
     case d of Inl e \<Rightarrow> ret (Some (vm_destroy_error vmid [Lit '': '', Wrapped e])) | Inr upid \<Rightarrow> do {
     w \<leftarrow> WaitForTask env (tg_node t) upid;
     case w of Some e \<Rightarrow> ret (Some (vm_destroy_error vmid [Lit '': '', Wrapped e])) | None \<Rightarrow> do {
     v \<leftarrow> fetchVMConfig env t vmid;
     case v of
       Inl e \<Rightarrow> ret (Some (vm_destroy_error vmid [Lit '': reverify: could not confirm vm is gone: '', Wrapped e]))
     | Inr (Some flds) \<Rightarrow>
         ret (Some (vm_destroy_error vmid [Lit '': destroy reported success but vm still exists'']))
     | Inr None \<Rightarrow>
         if tag \<noteq> [] then do {
           c \<leftarrow> TagStillClaimed env tag vmid;
           _ \<leftarrow> (case c of
                 Inl e \<Rightarrow> modify (TagRecheckErr_update (\<lambda>_. Some (vm_destroy_error vmid [Lit '': tag recheck: '', Wrapped e])))
               | Inr claimed \<Rightarrow> if claimed then modify (TagStillClaimedWarning_update (\<lambda>_. True)) else ret ());
           ret None
         }
         else ret None } } }
   }"

definition VMDestroy :: "env \<Rightarrow> target \<Rightarrow> int \<Rightarrow> string \<Rightarrow> (vmdestroy, config option) op" where
  "VMDestroy env t vmid tag =
     \<lparr>op_Read = VMDestroy_Read env t vmid, op_Satisfied = (\<lambda>_. VMDestroy_Satisfied),
      op_Apply = VMDestroy_Apply env t vmid tag, op_PostApply = None, op_ReRead = None, op_PostNoop = None\<rparr>"

section \<open>What the steps do\<close>

text \<open>An answer to the config read that says the VM is missing.\<close>

fun says_missing :: "string \<Rightarrow> int \<Rightarrow> event \<Rightarrow> bool" where
  "says_missing node vmid (EHttp m p f a) =
     (m = GET \<and> p = qemu_path node vmid ''/config'' \<and>
      (case raw_result a of Inl e \<Rightarrow> isMissingVMError e vmid | Inr _ \<Rightarrow> False))"
| "says_missing node vmid _ = False"

lemma says_missingD:
  "list_ex (says_missing node vmid) es \<Longrightarrow>
     \<exists>f a e. EHttp GET (qemu_path node vmid ''/config'') f a \<in> set es \<and> raw_result a = Inl e \<and> isMissingVMError e vmid"
proof (induction es)
  case (Cons ev es)
  then show ?case by (cases ev) (auto split: sum.splits)
qed simp

lemma traces_fetchVMConfig:
  "traces (fetchVMConfig env t vmid)
     (\<lambda>r es. list_all reads es \<and> (r = Inr None \<longrightarrow> list_ex (says_missing (tg_node t) vmid) es))"
proof -
  obtain rest where "qemu_path (tg_node t) vmid ''/config'' = CHR ''/'' # rest" using qemu_path_slash by blast
  from traces_RawRequest_sent [OF this] show ?thesis
    unfolding fetchVMConfig_def
    by (rule traces_bind) (auto intro!: traces_return simp: reads_def split: sum.splits option.splits)
qed

lemma emits_TagStillClaimed [emits_intro]: "emits reads (TagStillClaimed env tag vmid)"
  unfolding TagStillClaimed_def by (intro emits_intro)

text \<open>The stop is confirmed: the status read said stopped, or a stop was started and its task ended well.\<close>

definition stop_confirmed :: "string \<Rightarrow> int \<Rightarrow> event list \<Rightarrow> bool" where
  "stop_confirmed node vmid es \<longleftrightarrow>
     (\<exists>st. EStatus (qemu_path node vmid ''/status/current'') (Inr st) \<in> set es \<and>
        (vs_status st = ''stopped'' \<or>
         (\<exists>a u. EHttp POST (qemu_path node vmid ''/status/stop'') [] a \<in> set es \<and> started a u \<and> task_seen_ok u es)))"

lemma stop_confirmedI:
  "EStatus (qemu_path node vmid ''/status/current'') (Inr st) \<in> set es \<Longrightarrow>
     EHttp POST (qemu_path node vmid ''/status/stop'') [] a \<in> set es \<Longrightarrow> started a u \<Longrightarrow> task_seen_ok u es \<Longrightarrow>
     stop_confirmed node vmid es"
  unfolding stop_confirmed_def by blast

definition not_delete :: "event \<Rightarrow> bool" where
  "not_delete e \<longleftrightarrow> remote e \<and> (\<nexists>p f a. e = EHttp DELETE p f a)"

lemma reads_not_delete: "reads e \<Longrightarrow> not_delete e"
  by (cases e) (auto simp: reads_def not_delete_def remote_def)

lemma list_all_reads_not_delete: "list_all reads es \<Longrightarrow> list_all not_delete es"
  by (erule list.pred_mono_strong) (rule reads_not_delete)

lemma traces_StatusGatedStop:
  "traces (StatusGatedStop env t vmid)
     (\<lambda>r es. list_all not_delete es \<and> (r = None \<longrightarrow> stop_confirmed (tg_node t) vmid es))"
  unfolding StatusGatedStop_def GetVM_def StopVM_def
proof (rule traces_bind [OF traces_GetVM], rule traces_case_sum, goal_cases)
  case (1 r es e)
  then show ?case by (auto intro!: traces_return list_all_reads_not_delete)
next
  case gv: (2 r es v)
  show ?case
  proof (rule traces_case_option, goal_cases)
    case 1
    with gv show ?case by auto
  next
    case (2 w)
    with gv obtain st c where st: "w = \<lparr>vm_status = st, vm_config = Some c\<rparr>"
      and es: "EStatus (qemu_path (tg_node t) vmid ''/status/current'') (Inr st) \<in> set es" by auto
    have quiet: "list_all not_delete es" using gv by (auto intro: list_all_reads_not_delete)
    show ?case
    proof (rule traces_if, goal_cases)
      case 1
      with quiet show ?case by (auto intro!: traces_return)
    next
      case 2
      show ?case
      proof (rule traces_if, goal_cases)
        case 1
        show ?case
        proof (rule traces_bind [OF traces_StopVM], rule traces_case_sum, goal_cases)
          case (1 r fs e)
          with quiet show ?case by (auto intro!: traces_return simp: not_delete_def remote_def)
        next
          case (2 r fs upid)
          then obtain a where "fs = [EHttp POST (qemu_path (tg_node t) vmid ''/status/stop'') [] a]" "started a upid"
            by auto
          with quiet es show ?case
            by (auto intro!: traces_bind [OF traces_WaitForTask_ok] traces_case_option traces_return
                list_all_reads_not_delete stop_confirmedI [of _ _ st _ a upid]) (auto simp: not_delete_def remote_def)
        qed
      next
        case 2
        with quiet es st show ?case by (auto intro!: traces_return simp: stop_confirmed_def)
      qed
    qed
  qed
qed


text \<open>
  The events of an \<open>Apply\<close>: the gate, and when it was passed at most one DELETE, after which there
  are only reads; when it succeeds, an answer to the DELETE that started a task, a poll that saw
  that task end well, and after it an answer that says the VM is missing.
\<close>

definition destroy_spec :: "string \<Rightarrow> int \<Rightarrow> gerror option \<Rightarrow> event list \<Rightarrow> bool" where
  "destroy_spec node vmid r es \<longleftrightarrow>
     list_all not_delete es \<and> r \<noteq> None \<or>
     (\<exists>gate f a post. es = gate @ EHttp DELETE (qemu_path node vmid []) f a # post \<and>
        list_all not_delete gate \<and> stop_confirmed node vmid gate \<and> list_all reads post \<and>
        (r = None \<longrightarrow> (\<exists>u. started a u \<and> task_seen_ok u post) \<and> list_ex (says_missing node vmid) post))"

lemma destroy_specI:
  "list_all not_delete gate \<Longrightarrow> stop_confirmed node vmid gate \<Longrightarrow> list_all reads post \<Longrightarrow>
     (r = None \<longrightarrow> (\<exists>u. started a u \<and> task_seen_ok u post) \<and> list_ex (says_missing node vmid) post) \<Longrightarrow>
     destroy_spec node vmid r (gate @ EHttp DELETE (qemu_path node vmid []) f a # post)"
  unfolding destroy_spec_def by blast

lemma destroy_spec_quiet: "list_all not_delete es \<Longrightarrow> destroy_spec node vmid (Some e) es"
  by (simp add: destroy_spec_def)

lemma destroy_spec_refused:
  "list_all not_delete gate \<Longrightarrow> stop_confirmed node vmid gate \<Longrightarrow>
     destroy_spec node vmid (Some e) (gate @ [EHttp DELETE (qemu_path node vmid []) f a])"
  using destroy_specI [of gate node vmid "[]" "Some e"] by simp

lemma traces_tag_recheck:
  "traces (do { c \<leftarrow> TagStillClaimed env tag vmid;
           _ \<leftarrow> (case c of
                 Inl e \<Rightarrow> modify (TagRecheckErr_update (\<lambda>_. Some (f e)))
               | Inr claimed \<Rightarrow> if claimed then modify (TagStillClaimedWarning_update (\<lambda>_. True)) else ret ());
           ret (None :: gerror option) })
     (\<lambda>r es. r = None \<and> list_all reads es)"
proof -
  have warn: "traces (if claimed then modify (TagStillClaimedWarning_update (\<lambda>_. True)) else ret ()) (\<lambda>_ es. es = [])"
    and err: "traces (modify (TagRecheckErr_update (\<lambda>_. Some x))) (\<lambda>_ es. es = [])" for claimed x
    by (auto intro!: traces_modify traces_return)
  show ?thesis
    by (rule traces_bind [OF emits_TagStillClaimed [unfolded emits_def]],
        rule traces_bind [where ?T1.0 = "\<lambda>_ es. es = []"])
      (auto intro!: traces_case_sum warn err traces_return)
qed

lemma traces_VMDestroy_Apply:
  "traces (VMDestroy_Apply env t vmid tag) (destroy_spec (tg_node t) vmid)"
  unfolding VMDestroy_Apply_def DestroyVM_def
proof (rule traces_bind [OF traces_StatusGatedStop], rule traces_case_option, goal_cases)
  case gate: (1 r es)
  show ?case
  proof (rule traces_bind [OF traces_DestroyVM], rule traces_case_sum, goal_cases)
    case (1 r fs e)
    with gate show ?case
      by (auto intro!: traces_return intro: destroy_spec_quiet destroy_spec_refused)
  next
    case (2 r fs upid)
    then obtain f a where del: "fs = [EHttp DELETE (qemu_path (tg_node t) vmid []) f a]" "started a upid" by auto
    show ?case
    proof (rule traces_bind [OF traces_WaitForTask_ok], rule traces_case_option, goal_cases)
      case wait: (1 w ws)
      show ?case
      proof (rule traces_bind [OF traces_fetchVMConfig], rule traces_case_sum, goal_cases)
        case (1 v vs e)
        with gate del wait show ?case by (auto intro!: traces_return destroy_specI)
      next
        case (2 v vs x)
        with gate del wait show ?case
          by (auto intro!: traces_case_option traces_if traces_return destroy_specI
              traces_mono [OF traces_tag_recheck])
      qed
    next
      case (2 w ws e)
      with gate del show ?case by (auto intro!: traces_return destroy_specI)
    qed
  qed
next
  case (2 r es e)
  then show ?case by (auto intro!: traces_return simp: destroy_spec_def)
qed


lemma traces_VMDestroy_Read:
  "traces (VMDestroy_Read env t vmid)
     (\<lambda>r es. list_all reads es \<and> (\<forall>c. r = Inr c \<longrightarrow> c = None \<longrightarrow> list_ex (says_missing (tg_node t) vmid) es))"
  unfolding VMDestroy_Read_def
  by (rule traces_bind [OF traces_fetchVMConfig], rule traces_return) (auto split: sum.splits)

interpretation vmdestroy: op_contract "VMDestroy env t vmid tag" "destroy_spec (tg_node t) vmid"
    "\<lambda>c es. c = None \<longrightarrow> list_ex (says_missing (tg_node t) vmid) es" VMDestroy_Satisfied
  for env t vmid tag
  by unfold_locales (use traces_VMDestroy_Read traces_VMDestroy_Apply in \<open>simp_all add: VMDestroy_def\<close>)

section \<open>Properties of the destroy\<close>

text \<open>A DELETE is admitted when it is for the VM and the stop is confirmed by then.\<close>

definition delete_ok :: "string \<Rightarrow> int \<Rightarrow> event list \<Rightarrow> event \<Rightarrow> bool" where
  "delete_ok node vmid pre e \<longleftrightarrow>
     (\<forall>p f a. e = EHttp DELETE p f a \<longrightarrow> p = qemu_path node vmid [] \<and> stop_confirmed node vmid pre)"

lemma stop_confirmed_append: "stop_confirmed node vmid es \<Longrightarrow> stop_confirmed node vmid (before @ es)"
  by (auto simp: stop_confirmed_def)

lemma looks_back_delete_ok: "looks_back (delete_ok node vmid)"
  by (auto simp: looks_back_def delete_ok_def intro: stop_confirmed_append)

lemma gated_not_delete: "list_all not_delete es \<Longrightarrow> gated (delete_ok node vmid) es"
  by (auto simp: gated_def delete_ok_def not_delete_def)

lemma gated_destroy_spec: "destroy_spec node vmid r es \<Longrightarrow> gated (delete_ok node vmid) es"
  unfolding destroy_spec_def
proof (elim disjE exE conjE)
  fix gate f a post
  assume es: "es = gate @ EHttp DELETE (qemu_path node vmid []) f a # post"
    and gate: "list_all not_delete gate" "stop_confirmed node vmid gate" and post: "list_all reads post"
  have "gated (\<lambda>pre. delete_ok node vmid (gate @ pre)) (EHttp DELETE (qemu_path node vmid []) f a # post)"
    using gate(2) post
    by (intro gated_Cons gated_reads [OF post]) (simp add: delete_ok_def)
  then show "gated (delete_ok node vmid) es"
    unfolding es by (rule gated_after [OF gated_not_delete [OF gate(1)]])
qed (rule gated_not_delete)

text \<open>
  C1: in a whole \<open>vm destroy\<close> run, forced or not, every DELETE it sends is for the VM itself and
  comes after a status read that said stopped, or after a hard stop that PVE accepted and whose
  task was seen to end well.
\<close>

theorem VMDestroy_fail_closed:
  assumes "run_state (Run env rp key (VMDestroy env t vmid tag) force) s = (res, s')"
  shows "\<exists>es. log s' = log s @ es \<and>
           (\<forall>pre p f a post. es = pre @ EHttp DELETE p f a # post \<longrightarrow>
              p = qemu_path (tg_node t) vmid [] \<and> stop_confirmed (tg_node t) vmid pre)"
proof -
  have "\<exists>es. log s' = log s @ es \<and> gated (delete_ok (tg_node t) vmid) es"
    by (rule vmdestroy.Run_gated [OF looks_back_delete_ok _ assms]) (rule gated_destroy_spec)
  then obtain es where es: "log s' = log s @ es" and "gated (delete_ok (tg_node t) vmid) es" by blast
  from this(2) have "delete_ok (tg_node t) vmid pre (EHttp DELETE p f a)"
    if "es = pre @ EHttp DELETE p f a # post" for pre p f a post
    using that by (auto elim!: gatedD)
  with es show ?thesis unfolding delete_ok_def by blast
qed

text \<open>
  C21: a \<open>vm destroy\<close> run that reports success, whether it destroyed or found nothing to do, holds an
  answer of PVE that says this VM's config file does not exist; it never takes an unclassified
  error or a VM that still answers for success.
\<close>

theorem VMDestroy_success_means_missing:
  assumes "run_state (Run env rp key (VMDestroy env t vmid tag) force) s = (Inr x, s')"
  shows "\<exists>es. log s' = log s @ es \<and>
           (\<exists>f a e. EHttp GET (qemu_path (tg_node t) vmid ''/config'') f a \<in> set es \<and>
              raw_result a = Inl e \<and> isMissingVMError e vmid)"
proof -
  obtain es where es: "log s' = log s @ es" and "list_ex (says_missing (tg_node t) vmid) es"
    using vmdestroy.Run_success [OF assms]
    by (auto simp: destroy_spec_def VMDestroy_Satisfied_def split: if_splits)
  with says_missingD [of "tg_node t" vmid es] show ?thesis by auto
qed

section \<open>A destroy that succeeds\<close>

definition is_DELETE :: "event \<Rightarrow> bool" where
  "is_DELETE e = (case e of EHttp m p f a \<Rightarrow> m = DELETE | _ \<Rightarrow> False)"

text \<open>A world with a stopped VM 100, whose config is gone once a DELETE was sent.\<close>

definition gone_answer :: http_reply where
  "gone_answer = HAnswer 500 ''500 qemu-server/100.conf does not exist'' ''{}'' None"

definition destroy_world :: env where
  "destroy_world = calm\<lparr>e_http := (\<lambda>h m p f.
     if m = DELETE then upid_answer
     else if list_ex is_DELETE h then gone_answer
     else HAnswer 200 ''200 OK'' ''{}'' (Some (JObj ''{}'' [])))\<rparr>"

definition empty_destroy :: vmdestroy where
  "empty_destroy = \<lparr>log = [], ssh_open = False, TagStillClaimedWarning = False, TagRecheckErr = None\<rparr>"

lemma raw_gone: "raw_result gone_answer =
    Inl (StatusError 500 ''500 qemu-server/100.conf does not exist'' ''{}'' ''raw request'')"
  by (simp add: raw_result_def gone_answer_def NewStatusError_def)

lemma missing_gone:
  "isMissingVMError (StatusError 500 ''500 qemu-server/100.conf does not exist'' ''{}'' ''raw request'') 100"
  by code_simp

lemma raw_empty: "raw_result (HAnswer 200 ''200 OK'' ''{}'' (Some (JObj ''{}'' []))) = Inr JNull"
  by code_simp

lemma run_destroy:
  "\<exists>s' x f. run_state (Run destroy_world ''roster.yaml'' demo_key (VMDestroy destroy_world demo_target 100 []) False)
      empty_destroy = (Inr x, s') \<and> Changed x \<and>
      EHttp DELETE (qemu_path ''pve1'' 100 []) f upid_answer \<in> set (log s')"
  by (simp add: engine_run_defs VMDestroy_def VMDestroy_Read_def VMDestroy_Satisfied_def VMDestroy_Apply_def
      StatusGatedStop_def fetchVMConfig_def DestroyVM_def Client_DestroyVM_def task_call_def run_simps
      destroy_world_def empty_destroy_def demo_target_def raw_gone missing_gone raw_upid raw_empty
      decodeUPIDScalar_def unmarshal_map_def is_DELETE_def)


theorem VMDestroy_fail_closed_witness:
  "\<exists>es pre f post. log (snd (run_state (Run destroy_world ''roster.yaml'' demo_key
        (VMDestroy destroy_world demo_target 100 []) False) empty_destroy)) = es \<and>
     es = pre @ EHttp DELETE (qemu_path ''pve1'' 100 []) f upid_answer # post \<and> stop_confirmed ''pve1'' 100 pre"
proof -
  obtain s' x f where run: "run_state (Run destroy_world ''roster.yaml'' demo_key
        (VMDestroy destroy_world demo_target 100 []) False) empty_destroy = (Inr x, s')"
    and "EHttp DELETE (qemu_path ''pve1'' 100 []) f upid_answer \<in> set (log s')"
    using run_destroy by blast
  then obtain pre post where es: "log s' = pre @ EHttp DELETE (qemu_path ''pve1'' 100 []) f upid_answer # post"
    by (meson split_list)
  moreover have "tg_node demo_target = ''pve1''" "log empty_destroy = []"
    by (simp_all add: demo_target_def empty_destroy_def)
  ultimately have "stop_confirmed ''pve1'' 100 pre"
    using VMDestroy_fail_closed [OF run] by auto
  with run es show ?thesis by auto
qed

theorem VMDestroy_success_means_missing_witness:
  "\<exists>f a e. EHttp GET (qemu_path ''pve1'' 100 ''/config'') f a \<in> set (log (snd (run_state
        (Run destroy_world ''roster.yaml'' demo_key (VMDestroy destroy_world demo_target 100 []) False) empty_destroy))) \<and>
     raw_result a = Inl e \<and> isMissingVMError e 100"
proof -
  obtain s' x where run: "run_state (Run destroy_world ''roster.yaml'' demo_key
        (VMDestroy destroy_world demo_target 100 []) False) empty_destroy = (Inr x, s')"
    using run_destroy by blast
  have "tg_node demo_target = ''pve1''" "log empty_destroy = []"
    by (simp_all add: demo_target_def empty_destroy_def)
  with VMDestroy_success_means_missing [OF run] run show ?thesis by auto
qed

end
