(* ===== verification/VmShutdown.thy ===== *)
theory VmShutdown
  imports Engine Routed
begin

text \<open>
  The graceful shutdown (\<open>internal/idempotent/vmshutdown.go\<close>): the run state it reads, the one state
  that satisfies it, the two states it acts on, and that a hard stop is out of its reach.
\<close>

text \<open>The run state that a status answer stands for.\<close>

definition run_state_of :: "vm_status_reply \<Rightarrow> string" where
  "run_state_of st =
     (if vs_status st = ''running'' \<and> vs_qmpstatus st \<noteq> [] \<and> vs_qmpstatus st \<noteq> ''running''
      then vs_qmpstatus st else vs_status st)"

definition vm_shutdown_error :: "int \<Rightarrow> frag list \<Rightarrow> gerror" where
  "vm_shutdown_error vmid what = Errorf ([Lit ''vm shutdown: vm '', Dec vmid] @ what)"

definition VMShutdown_Read :: "env \<Rightarrow> target \<Rightarrow> int \<Rightarrow> ('r sess_scheme, gerror + string) state" where
  "VMShutdown_Read env t vmid = do {
     r \<leftarrow> GetVM env t (tg_node t) vmid;
     ret (case r of
         Inl e \<Rightarrow> Inl (vm_shutdown_error vmid [Lit '': read: '', Wrapped e])
       | Inr None \<Rightarrow> Inl (vm_shutdown_error vmid [Lit '': read: no vm returned''])
       | Inr (Some v) \<Rightarrow>
           if vs_status (vm_status v) = [] then
             Inl (vm_shutdown_error vmid [Lit '': read: pve reported no run status''])
           else Inr (run_state_of (vm_status v)))
   }"

definition VMShutdown_Satisfied :: "string \<Rightarrow> bool" where
  "VMShutdown_Satisfied current \<longleftrightarrow> current = ''stopped''"

definition VMShutdown_Apply :: "env \<Rightarrow> target \<Rightarrow> int \<Rightarrow> ('r sess_scheme, gerror option) state" where
  "VMShutdown_Apply env t vmid = do {
     current \<leftarrow> VMShutdown_Read env t vmid;
     case current of
       Inl e \<Rightarrow> ret (Some e)
     | Inr current \<Rightarrow>
         if current \<noteq> ''running'' \<and> current \<noteq> ''stopped'' then
           ret (Some (vm_shutdown_error vmid [Lit '' is in qemu run state '', Quo current,
             Lit '', not running; a graceful shutdown cannot complete because the guest cannot service the acpi request '',
             Lit [CHR 0xE2, CHR 0x80, CHR 0x94], Lit '' resume or recover the vm first'']))
         else do {
           u \<leftarrow> ShutdownVM env t vmid;
           case u of
             Inl e \<Rightarrow> ret (Some (vm_shutdown_error vmid [Lit '': '', Wrapped e]))
           | Inr upid \<Rightarrow> do {
               w \<leftarrow> WaitForTask env (tg_node t) upid;
               ret (case w of
                   Some e \<Rightarrow> Some (vm_shutdown_error vmid [Lit '': '', Wrapped e])
                 | None \<Rightarrow> None)
             }
         }
   }"

definition VMShutdown :: "env \<Rightarrow> target \<Rightarrow> int \<Rightarrow> (sess, string) op" where
  "VMShutdown env t vmid =
     \<lparr>op_Read = VMShutdown_Read env t vmid, op_Satisfied = (\<lambda>_. VMShutdown_Satisfied),
      op_Apply = VMShutdown_Apply env t vmid, op_PostApply = None, op_ReRead = None, op_PostNoop = None\<rparr>"

section \<open>What the steps do\<close>

definition status_read :: "string \<Rightarrow> int \<Rightarrow> string \<Rightarrow> event list \<Rightarrow> bool" where
  "status_read node vmid c es \<longleftrightarrow>
     (\<exists>st cfg. run_state_of st = c \<and> vs_status st \<noteq> [] \<and>
        es = [EStatus (qemu_path node vmid ''/status/current'') (Inr st),
              EConfig (qemu_path node vmid ''/config'') cfg])"

lemma traces_VMShutdown_Read:
  "traces (VMShutdown_Read env t vmid)
     (\<lambda>r es. list_all reads es \<and> (\<forall>c. r = Inr c \<longrightarrow> status_read (tg_node t) vmid c es))"
  unfolding VMShutdown_Read_def GetVM_def
  by (rule traces_bind [OF traces_GetVM], rule traces_return)
    (auto simp: status_read_def split: sum.splits option.splits if_splits)

text \<open>The only write: the shutdown request, right after a read that said running or stopped.\<close>

definition shutdown_ok :: "string \<Rightarrow> int \<Rightarrow> event list \<Rightarrow> event \<Rightarrow> bool" where
  "shutdown_ok node vmid pre e \<longleftrightarrow>
     (\<exists>a. e = EHttp POST (qemu_path node vmid ''/status/shutdown'') [] a) \<and>
     (\<exists>before rd c. pre = before @ rd \<and> status_read node vmid c rd \<and> (c = ''running'' \<or> c = ''stopped''))"

lemma looks_back_shutdown_ok: "looks_back (shutdown_ok node vmid)"
  unfolding looks_back_def shutdown_ok_def by (metis append.assoc)

definition shutdown_spec :: "string \<Rightarrow> int \<Rightarrow> gerror option \<Rightarrow> event list \<Rightarrow> bool" where
  "shutdown_spec node vmid r es \<longleftrightarrow>
     gated (shutdown_ok node vmid) es \<and>
     (r = None \<longrightarrow> ended_well POST (qemu_path node vmid ''/status/shutdown'') es)"

lemma traces_VMShutdown_Apply:
  "traces (VMShutdown_Apply env t vmid) (shutdown_spec (tg_node t) vmid)"
  unfolding VMShutdown_Apply_def ShutdownVM_def
proof (rule traces_bind [OF traces_VMShutdown_Read], rule traces_case_sum, goal_cases)
  case (1 r es e)
  then show ?case by (auto intro!: traces_return gated_reads simp: shutdown_spec_def)
next
  case rd: (2 r es c)
  show ?case
  proof (rule traces_if, goal_cases)
    case 1
    with rd show ?case by (auto intro!: traces_return gated_reads simp: shutdown_spec_def)
  next
    case ok: 2
    have quiet: "list_all (\<lambda>e. \<not> is_write e) es" using rd by (auto simp: list_all_iff reads_def)
    have gate: "shutdown_ok (tg_node t) vmid es (EHttp POST (qemu_path (tg_node t) vmid ''/status/shutdown'') [] a)" for a
      using rd ok unfolding shutdown_ok_def by (auto intro: exI [of _ "[]"])
    show ?case
    proof (rule traces_bind [OF traces_ShutdownVM], rule traces_case_sum, goal_cases)
      case (1 u fs e)
      with rd show ?case
        by (auto intro!: traces_return gated_one quiet gate simp: shutdown_spec_def intro: gated_no_write)
    next
      case (2 u fs upid)
      then obtain a where "fs = [EHttp POST (qemu_path (tg_node t) vmid ''/status/shutdown'') [] a]" "started a upid"
        by auto
      then show ?case
        by (auto intro!: traces_bind [OF traces_WaitForTask_ok] traces_return gated_one quiet gate
            ended_wellI [of _ _ "[]" a _ upid] simp: shutdown_spec_def list_all_iff reads_def split: option.splits)
    qed
  qed
qed

interpretation vmshutdown: op_contract "VMShutdown env t vmid" "shutdown_spec (tg_node t) vmid"
    "status_read (tg_node t) vmid" VMShutdown_Satisfied
  for env t vmid
  by unfold_locales (use traces_VMShutdown_Read traces_VMShutdown_Apply in \<open>simp_all add: VMShutdown_def\<close>)

section \<open>Properties of the shutdown\<close>

text \<open>
  C23: whatever it finds, and forced or not, a shutdown run never stops or kills the VM: its only
  writes are graceful shutdown requests for the VM, each right after a status read that said the
  VM is affirmatively running, or stopped.
\<close>

theorem VMShutdown_never_stops:
  assumes "run_state (Run env rp key (VMShutdown env t vmid) force) s = (res, s')"
  shows "\<exists>es. log s' = log s @ es \<and>
           (\<forall>pre e post. es = pre @ e # post \<and> is_write e \<longrightarrow>
              (\<exists>a. e = EHttp POST (qemu_path (tg_node t) vmid ''/status/shutdown'') [] a) \<and>
              (\<exists>before st cfg.
                 pre = before @ [EStatus (qemu_path (tg_node t) vmid ''/status/current'') (Inr st),
                                 EConfig (qemu_path (tg_node t) vmid ''/config'') cfg] \<and>
                 (run_state_of st = ''running'' \<or> run_state_of st = ''stopped'')))"
proof -
  have "\<exists>es. log s' = log s @ es \<and> gated (shutdown_ok (tg_node t) vmid) es"
    by (rule vmshutdown.Run_gated [OF looks_back_shutdown_ok _ assms]) (simp add: shutdown_spec_def)
  then show ?thesis
    unfolding gated_def shutdown_ok_def status_read_def by fast
qed

text \<open>
  A shutdown run that reports success saw PVE's shutdown task end well when it changed
  something, and read the VM as stopped when it did not.
\<close>

theorem VMShutdown_success:
  assumes "run_state (Run env rp key (VMShutdown env t vmid) force) s = (Inr x, s')"
  shows "\<exists>es. log s' = log s @ es \<and>
           (if Changed x
            then \<exists>f a u. EHttp POST (qemu_path (tg_node t) vmid ''/status/shutdown'') f a \<in> set es \<and>
                   started a u \<and> task_seen_ok u es
            else \<exists>st. EStatus (qemu_path (tg_node t) vmid ''/status/current'') (Inr st) \<in> set es \<and>
                   run_state_of st = ''stopped'')"
  using vmshutdown.Run_success [OF assms] unfolding ended_well_def [symmetric]
  by (cases "Changed x") (auto simp: shutdown_spec_def VMShutdown_Satisfied_def status_read_def ended_well_append)


section \<open>A shutdown that succeeds\<close>

definition shutdown_world :: env where
  "shutdown_world = calm\<lparr>e_status := (\<lambda>h p. Inr \<lparr>vs_status = ''running'', vs_qmpstatus = ''running'', vs_rest = []\<rparr>),
     e_http := (\<lambda>h m p f. upid_answer)\<rparr>"

lemma run_shutdown:
  "\<exists>s' x. run_state (Run shutdown_world ''roster.yaml'' demo_key (VMShutdown shutdown_world demo_target 100) False)
      fresh = (Inr x, s') \<and> Changed x \<and>
      EHttp POST (qemu_path ''pve1'' 100 ''/status/shutdown'') [] upid_answer \<in> set (log s')"
  by (simp add: engine_run_defs VMShutdown_def VMShutdown_Read_def VMShutdown_Satisfied_def VMShutdown_Apply_def
      ShutdownVM_def Client_ShutdownVM_def task_call_def run_simps
      shutdown_world_def demo_target_def run_state_of_def raw_upid decodeUPIDScalar_def)

theorem VMShutdown_never_stops_witness:
  "\<exists>pre post st. log (snd (run_state (Run shutdown_world ''roster.yaml'' demo_key
        (VMShutdown shutdown_world demo_target 100) False) fresh)) =
       pre @ EHttp POST (qemu_path ''pve1'' 100 ''/status/shutdown'') [] upid_answer # post \<and>
     EStatus (qemu_path ''pve1'' 100 ''/status/current'') (Inr st) \<in> set pre \<and> run_state_of st \<noteq> ''paused''"
proof -
  obtain s' x where run: "run_state (Run shutdown_world ''roster.yaml'' demo_key
        (VMShutdown shutdown_world demo_target 100) False) fresh = (Inr x, s')"
    and "EHttp POST (qemu_path ''pve1'' 100 ''/status/shutdown'') [] upid_answer \<in> set (log s')"
    using run_shutdown by blast
  then obtain pre post where es:
    "log s' = pre @ EHttp POST (qemu_path ''pve1'' 100 ''/status/shutdown'') [] upid_answer # post"
    by (meson split_list)
  obtain log' where "log s' = log fresh @ log'"
    and gate: "\<And>pre e post. log' = pre @ e # post \<Longrightarrow> is_write e \<Longrightarrow>
      \<exists>before st cfg. pre = before @ [EStatus (qemu_path (tg_node demo_target) 100 ''/status/current'') (Inr st),
                       EConfig (qemu_path (tg_node demo_target) 100 ''/config'') cfg] \<and>
        (run_state_of st = ''running'' \<or> run_state_of st = ''stopped'')"
    using VMShutdown_never_stops [OF run] by blast
  with es have "\<exists>before st cfg. pre = before @ [EStatus (qemu_path ''pve1'' 100 ''/status/current'') (Inr st),
                       EConfig (qemu_path ''pve1'' 100 ''/config'') cfg] \<and>
        (run_state_of st = ''running'' \<or> run_state_of st = ''stopped'')"
    using gate [of pre _ post] by (simp add: demo_target_def)
  then obtain before st cfg where
    "pre = before @ [EStatus (qemu_path ''pve1'' 100 ''/status/current'') (Inr st),
                     EConfig (qemu_path ''pve1'' 100 ''/config'') cfg]"
    "run_state_of st = ''running'' \<or> run_state_of st = ''stopped''" by blast
  with run es show ?thesis by (intro exI [of _ pre] exI [of _ post] exI [of _ st]) auto
qed

theorem VMShutdown_success_witness:
  "\<exists>f a u. EHttp POST (qemu_path ''pve1'' 100 ''/status/shutdown'') f a \<in> set (log (snd (run_state
        (Run shutdown_world ''roster.yaml'' demo_key (VMShutdown shutdown_world demo_target 100) False) fresh))) \<and>
     started a u"
proof -
  obtain s' x where run: "run_state (Run shutdown_world ''roster.yaml'' demo_key
        (VMShutdown shutdown_world demo_target 100) False) fresh = (Inr x, s')" and "Changed x"
    using run_shutdown by blast
  moreover have "tg_node demo_target = ''pve1''" by (simp add: demo_target_def)
  ultimately show ?thesis using VMShutdown_success [OF run] by auto
qed

end
