(* ===== verification/VmTag.thy ===== *)
theory VmTag
  imports Engine Routed
begin

text \<open>
  The tag operation (\<open>internal/idempotent/vmtag.go\<close>, with \<open>requireVMConfig\<close> of \<open>vmconfig.go\<close>): the tags
  and the digest that \<open>Read\<close> records, the merged list that \<open>Apply\<close> writes under that digest.
\<close>

record vmtag = sess +
  vt_tags :: "string list"
  vt_digest :: string

definition requireVMConfig :: "vm \<Rightarrow> int \<Rightarrow> string \<Rightarrow> gerror + vm_config" where
  "requireVMConfig v vmid opName =
     (case vm_config v of
        None \<Rightarrow> Inl (Errorf [Lit opName, Lit '': vm '', Dec vmid, Lit '': no config returned (vm may not exist)''])
      | Some c \<Rightarrow> Inr c)"

definition splitTags :: "string \<Rightarrow> string list" where
  "splitTags s = (if s = [] then [] else strings_Split s tag_separator)"

definition VMTagEnsure_Validate :: "int \<Rightarrow> string \<Rightarrow> gerror option" where
  "VMTagEnsure_Validate vmid tag =
     (if tag = [] then Some (Errorf [Lit ''vm tag ensure: vm '', Dec vmid, Lit '': tag is empty''])
      else if strings_Contains tag [tag_separator] then
        Some (Errorf [Lit ''vm tag ensure: vm '', Dec vmid, Lit '': tag '', Quo tag,
          Lit '' contains the tag separator '', Quo [tag_separator]])
      else None)"

text \<open>A nil \<open>vm\<close> would be a nil dereference in the code; \<open>GetVM\<close> never returns one without an error.\<close>

definition VMTagEnsure_Read :: "env \<Rightarrow> target \<Rightarrow> int \<Rightarrow> (vmtag, gerror + string) state" where
  "VMTagEnsure_Read env t vmid = do {
     r \<leftarrow> GetVM env t (tg_node t) vmid;
     case r of
       Inl e \<Rightarrow> ret (Inl (Errorf [Lit ''vm tag ensure: read vm '', Dec vmid, Lit '': '', Wrapped e]))
     | Inr None \<Rightarrow> ret (Inl (ErrorString ''nil pointer dereference''))
     | Inr (Some v) \<Rightarrow>
         (case requireVMConfig v vmid ''vm tag ensure'' of
            Inl e \<Rightarrow> ret (Inl e)
          | Inr cfg \<Rightarrow> do {
              _ \<leftarrow> modify (vt_tags_update (\<lambda>_. splitTags (vc_tags cfg)));
              _ \<leftarrow> modify (vt_digest_update (\<lambda>_. vc_digest cfg));
              ret (Inr (vc_tags cfg))
            })
   }"

definition VMTagEnsure_Satisfied :: "string \<Rightarrow> string \<Rightarrow> bool" where
  "VMTagEnsure_Satisfied tag current \<longleftrightarrow> list_ex (\<lambda>t. t = tag) (splitTags current)"

definition VMTagEnsure_Apply :: "env \<Rightarrow> target \<Rightarrow> int \<Rightarrow> string \<Rightarrow> (vmtag, gerror option) state" where
  "VMTagEnsure_Apply env t vmid tag =
     (case VMTagEnsure_Validate vmid tag of
        Some e \<Rightarrow> ret (Some e)
      | None \<Rightarrow> do {
          s \<leftarrow> State_Monad.get;
          let newTags = strings_Join (vt_tags s @ [tag]) tag_separator;
          r \<leftarrow> SetVMConfigFieldCAS env t vmid ''tags'' newTags (vt_digest s);
          ret (case r of
              None \<Rightarrow> None
            | Some e \<Rightarrow>
                if IsDigestConflictError e then
                  Some (Errorf [Lit ''vm tag ensure: vm '', Dec vmid, Lit '': '', Wrapped (Sentinel ErrConflict),
                    Lit '': '', Wrapped e])
                else Some (Errorf [Lit ''vm tag ensure: vm '', Dec vmid, Lit '': '', Wrapped e]))
        })"

definition VMTagEnsure :: "env \<Rightarrow> target \<Rightarrow> int \<Rightarrow> string \<Rightarrow> (vmtag, string) op" where
  "VMTagEnsure env t vmid tag =
     \<lparr>op_Read = VMTagEnsure_Read env t vmid, op_Satisfied = (\<lambda>_. VMTagEnsure_Satisfied tag),
      op_Apply = VMTagEnsure_Apply env t vmid tag, op_PostApply = None, op_ReRead = None, op_PostNoop = None\<rparr>"

section \<open>Tag lists and their text\<close>

lemma valid_tag: "VMTagEnsure_Validate vmid tag = None \<Longrightarrow> tag \<noteq> [] \<and> tag_separator \<notin> set tag"
proof -
  have "strings_Contains tag [tag_separator] \<longleftrightarrow> tag_separator \<in> set tag"
    unfolding strings_Contains_def by (induction tag) (auto simp: sublist_Cons_right)
  then show "VMTagEnsure_Validate vmid tag = None \<Longrightarrow> tag \<noteq> [] \<and> tag_separator \<notin> set tag"
    by (auto simp: VMTagEnsure_Validate_def split: if_splits)
qed

lemma tags_read_back:
  assumes "VMTagEnsure_Validate vmid tag = None"
  shows "splitTags (strings_Join (splitTags current @ [tag]) tag_separator) = splitTags current @ [tag]"
proof -
  let ?ws = "splitTags current @ [tag]"
  have split: "strings_Split (strings_Join ?ws tag_separator) tag_separator = ?ws"
    using valid_tag [OF assms]
    by (intro strings_Split_Join) (auto simp: splitTags_def dest: strings_Split_words split: if_splits)
  have "strings_Join ?ws tag_separator \<noteq> []"
  proof
    assume "strings_Join ?ws tag_separator = []"
    with split have "?ws = [[]]" by simp
    with valid_tag [OF assms] show False by auto
  qed
  with split show ?thesis by (simp add: splitTags_def)
qed

text \<open>
  The text that the tag write sends reads back as exactly the tags that were there followed by
  the new one, so the operation is satisfied by what it writes.
\<close>

theorem tag_write_roundtrip:
  assumes "VMTagEnsure_Validate vmid tag = None"
  shows "splitTags (strings_Join (splitTags current @ [tag]) tag_separator) = splitTags current @ [tag] \<and>
         VMTagEnsure_Satisfied tag (strings_Join (splitTags current @ [tag]) tag_separator)"
  using tags_read_back [OF assms, of current] by (simp add: VMTagEnsure_Satisfied_def list_ex_iff)

theorem tag_write_roundtrip_witness:
  "splitTags (strings_Join (splitTags ''a;b'' @ [''prod'']) tag_separator) = [''a'', ''b'', ''prod'']"
  using tag_write_roundtrip [of 100 "''prod''" "''a;b''"]
  by (simp add: VMTagEnsure_Validate_def strings_Contains_def tag_separator_def splitTags_def)


section \<open>The write of a tag\<close>

lemma run_GetVM_ok:
  assumes "run_state (Client_GetVM env node vmid) s = (Inr v, s1)"
  shows "\<exists>st c. v = Some \<lparr>vm_status = st, vm_config = Some c\<rparr> \<and> node \<noteq> [] \<and>
     s1 = s\<lparr>log := log s @ [EStatus (qemu_path node vmid ''/status/current'') (Inr st),
                              EConfig (qemu_path node vmid ''/config'') (Inr (Some c))]\<rparr>"
  using assms
  by (auto simp: Client_GetVM_def primitive_defs run_simps split: if_splits sum.splits option.splits)

lemma run_VMTagEnsure_Read:
  assumes "run_state (VMTagEnsure_Read env t vmid) s = (Inr cur, s1)"
  shows "\<exists>st c. cur = vc_tags c \<and> vt_tags s1 = splitTags (vc_tags c) \<and> vt_digest s1 = vc_digest c \<and>
     tg_node t \<noteq> [] \<and>
     log s1 = log s @ [EStatus (qemu_path (tg_node t) vmid ''/status/current'') (Inr st),
                       EConfig (qemu_path (tg_node t) vmid ''/config'') (Inr (Some c))]"
proof -
  obtain r s0 where gv: "run_state (Client_GetVM env (tg_node t) vmid) s = (r, s0)" by force
  with assms obtain v where r: "r = Inr v"
    by (cases r) (auto simp: VMTagEnsure_Read_def GetVM_def)
  from run_GetVM_ok [OF gv [unfolded r]] obtain st c where
    "v = Some \<lparr>vm_status = st, vm_config = Some c\<rparr>" "tg_node t \<noteq> []"
    "s0 = s\<lparr>log := log s @ [EStatus (qemu_path (tg_node t) vmid ''/status/current'') (Inr st),
                              EConfig (qemu_path (tg_node t) vmid ''/config'') (Inr (Some c))]\<rparr>" by blast
  with assms gv r show ?thesis
    by (auto simp: VMTagEnsure_Read_def GetVM_def requireVMConfig_def modify_def)
qed

text \<open>
  The tag write of an attempt is one PUT of the VM's config that carries the tags this attempt
  read, the new tag after them, and the digest of that same read; it succeeds exactly on a 2xx
  answer, and an answer that PVE gave is reported as a conflict exactly when it is a digest
  mismatch.  The digest field is empty, and the write unguarded, when the read carried no digest.
\<close>

theorem VMTagEnsure_write:
  assumes "run_state (VMTagEnsure_Read env t vmid) s = (Inr cur, s1)"
    and "VMTagEnsure_Validate vmid tag = None"
    and "run_state (VMTagEnsure_Apply env t vmid tag) s1 = (r, s2)"
  shows "\<exists>st c form a.
     log s2 = log s @ [EStatus (qemu_path (tg_node t) vmid ''/status/current'') (Inr st),
                       EConfig (qemu_path (tg_node t) vmid ''/config'') (Inr (Some c)),
                       EHttp PUT (qemu_path (tg_node t) vmid ''/config'') form a] \<and>
     cur = vc_tags c \<and> splitTags (values_Get form ''tags'') = splitTags (vc_tags c) @ [tag] \<and>
     values_Get form ''digest'' = vc_digest c \<and> (r = None \<longleftrightarrow> answered_2xx a) \<and>
     (\<forall>code st b doc e. a = HAnswer code st b doc \<longrightarrow> r = Some e \<longrightarrow>
        (errors_Is e ErrConflict \<longleftrightarrow>
         IsDigestConflictError (NewStatusError (''set vm '' @ strconv_Itoa vmid @ '' field '' @ strconv_Quote ''tags'') code st b)))"
proof -
  obtain st c where rd: "cur = vc_tags c" "vt_tags s1 = splitTags (vc_tags c)" "vt_digest s1 = vc_digest c"
    "tg_node t \<noteq> []"
    "log s1 = log s @ [EStatus (qemu_path (tg_node t) vmid ''/status/current'') (Inr st),
                       EConfig (qemu_path (tg_node t) vmid ''/config'') (Inr (Some c))]"
    using run_VMTagEnsure_Read [OF assms(1)] by blast
  let ?new = "strings_Join (splitTags (vc_tags c) @ [tag]) tag_separator"
  let ?form = "cas_form ''tags'' ?new (vc_digest c)"
  let ?a = "e_http env (log s1) PUT (qemu_path (tg_node t) vmid ''/config'') ?form"
  have "\<not> RootOnlyFields ''tags''" by (simp add: RootOnlyFields_def)
  from run_SetVMConfigFieldCAS [OF this rd(4), of env vmid ?new "vc_digest c" s1]
  have put: "run_state (SetVMConfigFieldCAS env t vmid ''tags'' ?new (vc_digest c)) s1 =
      (put_result [Lit ''set vm '', Dec vmid, Lit '' field '', Quo ''tags''] ?a,
       s1\<lparr>log := log s1 @ [EHttp PUT (qemu_path (tg_node t) vmid ''/config'') ?form ?a]\<rparr>)"
    by (simp add: Let_def)
  have "splitTags ?new = splitTags (vc_tags c) @ [tag]"
    using tags_read_back [OF assms(2), of "vc_tags c"] by blast
  moreover have "values_Get ?form ''tags'' = ?new" "values_Get ?form ''digest'' = vc_digest c"
    by (simp_all add: cas_form_Get)
  moreover have "r = None \<longleftrightarrow> answered_2xx ?a" "log s2 = log s1 @ [EHttp PUT (qemu_path (tg_node t) vmid ''/config'') ?form ?a]"
    using assms(2,3) rd(2,3) put
    unfolding put_result_None [of "[Lit ''set vm '', Dec vmid, Lit '' field '', Quo ''tags'']" ?a, symmetric]
    by (auto simp: VMTagEnsure_Apply_def State_Monad.get_def Let_def split: option.splits if_splits)
  moreover have "errors_Is e ErrConflict \<longleftrightarrow>
      IsDigestConflictError (NewStatusError (''set vm '' @ strconv_Itoa vmid @ '' field '' @ strconv_Quote ''tags'') code st b)"
    if "?a = HAnswer code st b doc" "r = Some e" for code st b doc e
    using assms(2,3) rd(2,3) put that
    by (auto simp: VMTagEnsure_Apply_def State_Monad.get_def Let_def put_result_def NewStatusError_def
        split: if_splits)
  ultimately show ?thesis
    using rd(1,5) by (intro exI [of _ st] exI [of _ c] exI [of _ ?form] exI [of _ ?a]) auto
qed


definition empty_tag :: vmtag where
  "empty_tag = \<lparr>log = [], ssh_open = False, vt_tags = [], vt_digest = []\<rparr>"

theorem VMTagEnsure_write_witness:
  "\<exists>form a. EHttp PUT (qemu_path ''pve1'' 100 ''/config'') form a \<in>
       set (log (snd (run_state (VMTagEnsure_Apply calm demo_target 100 ''prod'')
         (snd (run_state (VMTagEnsure_Read calm demo_target 100) empty_tag))))) \<and>
     splitTags (values_Get form ''tags'') = [''prod'']"
proof -
  have rd: "run_state (VMTagEnsure_Read calm demo_target 100) empty_tag =
      (Inr [], snd (run_state (VMTagEnsure_Read calm demo_target 100) empty_tag))"
    by (simp add: VMTagEnsure_Read_def GetVM_def Client_GetVM_def primitive_defs run_simps demo_target_def
        requireVMConfig_def)
  have "VMTagEnsure_Validate 100 ''prod'' = None"
    by code_simp
  from VMTagEnsure_write [OF rd this surjective_pairing] obtain st c form a where
    "log (snd (run_state (VMTagEnsure_Apply calm demo_target 100 ''prod'')
         (snd (run_state (VMTagEnsure_Read calm demo_target 100) empty_tag)))) =
     log empty_tag @ [EStatus (qemu_path (tg_node demo_target) 100 ''/status/current'') (Inr st),
       EConfig (qemu_path (tg_node demo_target) 100 ''/config'') (Inr (Some c)),
       EHttp PUT (qemu_path (tg_node demo_target) 100 ''/config'') form a]"
    "[] = vc_tags c" "splitTags (values_Get form ''tags'') = splitTags (vc_tags c) @ [''prod'']"
    by blast
  moreover have "tg_node demo_target = ''pve1''" "splitTags [] = []"
    by (simp_all add: demo_target_def splitTags_def)
  ultimately show ?thesis by (intro exI [of _ form] exI [of _ a]) simp
qed

section \<open>As an operation of the engine\<close>

lemma emits_VMTagEnsure:
  "emits reads (VMTagEnsure_Read env t vmid)" "emits remote (VMTagEnsure_Apply env t vmid tag)"
  unfolding VMTagEnsure_Read_def VMTagEnsure_Apply_def Let_def
  by (intro emits_intro; simp)+

interpretation vmtag_op: op_contract "VMTagEnsure env t vmid tag" "\<lambda>_ es. list_all remote es" "\<lambda>_ _. True"
    "VMTagEnsure_Satisfied tag"
  for env t vmid tag
  by unfold_locales (use emits_VMTagEnsure in \<open>simp_all add: VMTagEnsure_def emits_def\<close>)

end
