(* ===== verification/KvJson.thy ===== *)
theory KvJson
  imports GoPrelude
begin

text \<open>
  Field values and their comparison: the value side of \<open>internal/kvjson/kvjson.go\<close> (the scalar of a
  JSON value, the two ways pairs are parsed) and \<open>internal/idempotent/boolish.go\<close>.
\<close>

section \<open>Pairs and scalars\<close>

datatype format_kind = KV | JSON

definition ParseFormat :: "string \<Rightarrow> gerror + format_kind" where
  "ParseFormat s =
     (if s = ''kv'' then Inr KV
      else if s = ''json'' then Inr JSON
      else Inl (Errorf [Lit ''invalid output format '', Quo s,
             Lit ('': must be '' @ [CHR 0x22] @ ''kv'' @ [CHR 0x22] @ '' or '' @ [CHR 0x22] @ ''json'' @ [CHR 0x22])]))"

text \<open>\<open>Scalar\<close> of a well-formed JSON value: \<open>Unmarshal\<close> into a string fails on any other kind of value.\<close>

definition Scalar :: "json \<Rightarrow> gerror + string" where
  "Scalar raw =
     (if strings_TrimSpace (raw_text raw) = ''null'' then Inr ''null''
      else (case unmarshal_string raw of
              Some s \<Rightarrow> Inr s
            | None \<Rightarrow> Inr (strings_TrimSpace (raw_text raw))))"

record pair =
  pr_field :: string
  pr_value :: string

fun ParseKVArgs :: "string list \<Rightarrow> gerror + pair list" where
  "ParseKVArgs [] = Inr []"
| "ParseKVArgs (a # as) =
     (case strings_Cut a CHR ''='' of
        (field, val, ok) \<Rightarrow>
          if \<not> ok \<or> field = [] then Inl (Errorf [Lit ''parse kv args: '', Quo a, Lit '' is not a valid field=value pair''])
          else (case ParseKVArgs as of
                  Inl e \<Rightarrow> Inl e
                | Inr pairs \<Rightarrow> Inr (\<lparr>pr_field = field, pr_value = val\<rparr> # pairs)))"

fun parse_fields ::
    "bool \<Rightarrow> json gomap \<Rightarrow> string list \<Rightarrow> gerror + pair list \<times> string list" where
  "parse_fields allowDelete m [] = Inr ([], [])"
| "parse_fields allowDelete m (k # ks) =
     (case the (map_of m k) of
        JNull \<Rightarrow>
          if allowDelete then
            (case parse_fields allowDelete m ks of
               Inl e \<Rightarrow> Inl e
             | Inr (pairs, deletes) \<Rightarrow> Inr (pairs, k # deletes))
          else Inl (Errorf [Lit ''parse json fields: field '', Quo k, Lit '': value must be a JSON string''])
      | JStr s \<Rightarrow>
          (case parse_fields allowDelete m ks of
             Inl e \<Rightarrow> Inl e
           | Inr (pairs, deletes) \<Rightarrow> Inr (\<lparr>pr_field = k, pr_value = s\<rparr> # pairs, deletes))
      | _ \<Rightarrow>
          if allowDelete
          then Inl (Errorf [Lit ''parse json fields: field '', Quo k, Lit '': value must be a JSON string, or null to delete the key''])
          else Inl (Errorf [Lit ''parse json fields: field '', Quo k, Lit '': value must be a JSON string'']))"

text \<open>The document is none when the data is not JSON.\<close>

definition parseJSONFields :: "json option \<Rightarrow> bool \<Rightarrow> gerror + pair list \<times> string list" where
  "parseJSONFields data allowDelete =
     (case data of
        None \<Rightarrow> Inl (Errorf [Lit ''parse json fields: '', Wrapped json_type_error])
      | Some doc \<Rightarrow>
          (case unmarshal_map doc of
             None \<Rightarrow> Inl (Errorf [Lit ''parse json fields: '', Wrapped json_type_error])
           | Some (notnil, m) \<Rightarrow> parse_fields allowDelete m (sort (map fst m))))"

definition ParseJSONFields :: "json option \<Rightarrow> gerror + pair list" where
  "ParseJSONFields data =
     (case parseJSONFields data False of Inl e \<Rightarrow> Inl e | Inr (pairs, deletes) \<Rightarrow> Inr pairs)"

definition ParseJSONFieldsWithDeletes :: "json option \<Rightarrow> gerror + pair list \<times> string list" where
  "ParseJSONFieldsWithDeletes data = parseJSONFields data True"

section \<open>Boolean-shaped values\<close>

definition parseBoolish :: "string \<Rightarrow> bool \<times> bool" where
  "parseBoolish s =
     (let t = strings_ToLower (strings_TrimSpace s) in
      if t = ''true'' \<or> t = ''1'' then (True, True)
      else if t = ''false'' \<or> t = ''0'' then (False, True)
      else (False, False))"

definition fieldsEqual :: "string \<Rightarrow> string \<Rightarrow> bool" where
  "fieldsEqual current wanted =
     (case (parseBoolish current, parseBoolish wanted) of
        ((cb, cok), (wb, wok)) \<Rightarrow> if cok \<and> wok then cb = wb else current = wanted)"

section \<open>Properties\<close>

lemma fieldsEqual_refl [simp]: "fieldsEqual s s"
  by (simp add: fieldsEqual_def split: prod.splits)

text \<open>
  The comparison of field values is an equivalence: a value equals itself, the order of the two
  sides does not matter, and values equal to the same value are equal; two different texts are
  equal only as two spellings of the same boolean.
\<close>

theorem fieldsEqual_equivalence:
  "fieldsEqual s s \<and> (fieldsEqual s t \<longleftrightarrow> fieldsEqual t s) \<and>
   (fieldsEqual s t \<and> fieldsEqual t u \<longrightarrow> fieldsEqual s u) \<and>
   (fieldsEqual s t \<longleftrightarrow> s = t \<or> (\<exists>b. parseBoolish s = (b, True) \<and> parseBoolish t = (b, True)))"
  by (auto simp: fieldsEqual_def split: prod.splits)

theorem fieldsEqual_equivalence_witness: "fieldsEqual ''1'' ''0'' \<or> fieldsEqual ''1'' ''TRUE''"
proof -
  have "fieldsEqual ''1'' ''true'' \<and> fieldsEqual ''true'' ''TRUE''" by code_simp
  then show ?thesis using fieldsEqual_equivalence [of "''1''" "''true''" "''TRUE''"] by blast
qed

lemma strings_Cut_at: "c \<notin> set a \<Longrightarrow> strings_Cut (a @ c # b) c = (a, b, True)"
  by (induction a) auto

lemma strings_Cut_found: "strings_Cut s c = (a, b, True) \<longleftrightarrow> s = a @ c # b \<and> c \<notin> set a"
proof
  show "strings_Cut s c = (a, b, True) \<Longrightarrow> s = a @ c # b \<and> c \<notin> set a"
    by (induction s arbitrary: a) (auto split: prod.splits bool.splits if_splits)
qed (auto simp: strings_Cut_at)

text \<open>
  C37: the argument parser and its arguments determine each other: it accepts a list of arguments
  exactly when every one is a non-empty name without an equals sign, an equals sign and any value,
  and the pairs it returns spell the arguments again, in order.
\<close>

theorem ParseKVArgs_roundtrip:
  "ParseKVArgs args = Inr pairs \<longleftrightarrow>
     args = map (\<lambda>p. pr_field p @ CHR ''='' # pr_value p) pairs \<and>
     (\<forall>p \<in> set pairs. pr_field p \<noteq> [] \<and> CHR ''='' \<notin> set (pr_field p))"
proof (induction args arbitrary: pairs)
  case (Cons a args)
  obtain field val ok where cut: "strings_Cut a CHR ''='' = (field, val, ok)" by (metis prod_cases3)
  show ?case
  proof (cases ok)
    case True
    with cut have a: "a = field @ CHR ''='' # val" "CHR ''='' \<notin> set field"
      using strings_Cut_found by auto
    have inj: "field @ CHR ''='' # val = f @ CHR ''='' # v \<longleftrightarrow> field = f \<and> val = v"
      if "CHR ''='' \<notin> set f" for f v
      using that a(2) by (metis strings_Cut_found prod.inject)
    show ?thesis
    proof (cases pairs)
      case Nil
      then show ?thesis using cut True by (auto split: sum.splits)
    next
      case (Cons p ps)
      obtain f v where p: "p = \<lparr>pr_field = f, pr_value = v\<rparr>" by (cases p) simp
      have "ParseKVArgs (a # args) = Inr pairs \<longleftrightarrow> field \<noteq> [] \<and> field = f \<and> val = v \<and> ParseKVArgs args = Inr ps"
        using cut True by (auto simp: Cons p split: sum.splits)
      also have "\<dots> \<longleftrightarrow> a # args = map (\<lambda>p. pr_field p @ CHR ''='' # pr_value p) pairs \<and>
          (\<forall>p \<in> set pairs. pr_field p \<noteq> [] \<and> CHR ''='' \<notin> set (pr_field p))"
        using a inj by (auto simp: Cons p Cons.IH)
      finally show ?thesis .
    qed
  next
    case False
    have "a \<noteq> f @ CHR ''='' # v" if "CHR ''='' \<notin> set f" for f v
    proof
      assume "a = f @ CHR ''='' # v"
      with that have "strings_Cut a CHR ''='' = (f, v, True)" by (simp add: strings_Cut_found)
      with cut False show False by simp
    qed
    with cut False show ?thesis by (cases pairs) auto
  qed
qed auto

theorem ParseKVArgs_roundtrip_witness:
  "ParseKVArgs [''name=web'', ''args=a=b''] =
     Inr [\<lparr>pr_field = ''name'', pr_value = ''web''\<rparr>, \<lparr>pr_field = ''args'', pr_value = ''a=b''\<rparr>]"
  unfolding ParseKVArgs_roundtrip by simp

text \<open>What a JSON object of fields means, key by key, and when it is accepted.\<close>

definition field_ok :: "bool \<Rightarrow> json \<Rightarrow> bool" where
  "field_ok allowDelete j \<longleftrightarrow> (\<exists>s. j = JStr s) \<or> allowDelete \<and> j = JNull"

definition str_of :: "json \<Rightarrow> string" where
  "str_of j = (case j of JStr s \<Rightarrow> s | _ \<Rightarrow> [])"

lemma parse_fields_ok:
  "\<forall>k \<in> set ks. field_ok allowDelete (the (map_of m k)) \<Longrightarrow>
     parse_fields allowDelete m ks =
       Inr (map (\<lambda>k. \<lparr>pr_field = k, pr_value = str_of (the (map_of m k))\<rparr>) (filter (\<lambda>k. the (map_of m k) \<noteq> JNull) ks),
            filter (\<lambda>k. the (map_of m k) = JNull) ks)"
  by (induction ks) (auto simp: field_ok_def str_of_def)

lemma parse_fields_refused:
  "k \<in> set ks \<Longrightarrow> \<not> field_ok allowDelete (the (map_of m k)) \<Longrightarrow> \<exists>e. parse_fields allowDelete m ks = Inl e"
  by (cases allowDelete; induction ks) (auto simp: field_ok_def split: json.splits sum.splits)

lemma picked_pairs:
  assumes "set ks = dom v" and "\<forall>k w. v k = Some w \<longrightarrow> w = JNull \<or> (\<exists>s. w = JStr s)"
  shows "\<lparr>pr_field = k, pr_value = s\<rparr> \<in>
     set (map (\<lambda>k. \<lparr>pr_field = k, pr_value = str_of (the (v k))\<rparr>) (filter (\<lambda>k. the (v k) \<noteq> JNull) ks))
     \<longleftrightarrow> v k = Some (JStr s)"
proof -
  have "v k = Some (JStr (str_of (the (v k))))" if "k \<in> dom v" "the (v k) \<noteq> JNull"
    using assms(2) that by (fastforce simp: str_of_def)
  then show ?thesis by (auto simp: assms(1) str_of_def)
qed

lemma picked_deletes:
  "set ks = dom v \<Longrightarrow> k \<in> set (filter (\<lambda>k. the (v k) = JNull) ks) \<longleftrightarrow> v k = Some JNull"
  by auto

text \<open>
  Parsing a JSON object of fields with deletes accepts exactly the objects whose values are
  strings or null; each string field becomes one pair and each null one delete, both in sorted order
  without repetition, and a null is never read as an empty value.
\<close>

theorem ParseJSONFieldsWithDeletes_spec:
  "if (\<forall>k v. map_of (rev kvs) k = Some v \<longrightarrow> v = JNull \<or> (\<exists>s. v = JStr s)) then
     (\<exists>pairs deletes. ParseJSONFieldsWithDeletes (Some (JObj text kvs)) = Inr (pairs, deletes) \<and>
        sorted (map pr_field pairs) \<and> distinct (map pr_field pairs) \<and> sorted deletes \<and> distinct deletes \<and>
        (\<forall>k s. \<lparr>pr_field = k, pr_value = s\<rparr> \<in> set pairs \<longleftrightarrow> map_of (rev kvs) k = Some (JStr s)) \<and>
        (\<forall>k. k \<in> set deletes \<longleftrightarrow> map_of (rev kvs) k = Some JNull))
   else (\<exists>e. ParseJSONFieldsWithDeletes (Some (JObj text kvs)) = Inl e)"
proof -
  let ?m = "gomap_of kvs" and ?v = "map_of (rev kvs)"
  let ?ks = "sort (map fst ?m)"
  have m: "map_of ?m = ?v" by (rule map_of_gomap_of)
  have ks: "set ?ks = dom ?v" by (simp add: dom_map_of_conv_image_fst [symmetric] m)
  have d: "distinct ?ks" by (simp add: distinct_gomap_of)
  have parse: "ParseJSONFieldsWithDeletes (Some (JObj text kvs)) = parse_fields True ?m ?ks"
    by (simp add: ParseJSONFieldsWithDeletes_def parseJSONFields_def unmarshal_map_def)
  show ?thesis
  proof (cases "\<forall>k v. ?v k = Some v \<longrightarrow> v = JNull \<or> (\<exists>s. v = JStr s)")
    case True
    then have "\<forall>k \<in> dom ?v. field_ok True (the (map_of ?m k))"
      unfolding m field_ok_def by (metis domD option.sel)
    then have "\<forall>k \<in> set ?ks. field_ok True (the (map_of ?m k))"
      by (simp only: ks)
    note ok = parse_fields_ok [OF this]
    have fields: "map pr_field (map (\<lambda>k. \<lparr>pr_field = k, pr_value = str_of (the (?v k))\<rparr>) ks) = ks" for ks
      by (simp add: o_def)
    let ?ps = "map (\<lambda>k. \<lparr>pr_field = k, pr_value = str_of (the (?v k))\<rparr>) (filter (\<lambda>k. the (?v k) \<noteq> JNull) ?ks)"
    let ?ds = "filter (\<lambda>k. the (?v k) = JNull) ?ks"
    have "ParseJSONFieldsWithDeletes (Some (JObj text kvs)) = Inr (?ps, ?ds)"
      by (simp only: parse ok m)
    moreover have "sorted (filter P ?ks)" "distinct (filter P ?ks)" for P
      using d sorted_filter [of "\<lambda>x. x" ?ks P] by simp_all
    moreover have "\<forall>k s. \<lparr>pr_field = k, pr_value = s\<rparr> \<in> set ?ps \<longleftrightarrow> ?v k = Some (JStr s)"
      "\<forall>k. k \<in> set ?ds \<longleftrightarrow> ?v k = Some JNull"
      by (intro allI picked_pairs [OF ks True]) (intro allI picked_deletes [OF ks])
    ultimately have "ParseJSONFieldsWithDeletes (Some (JObj text kvs)) = Inr (?ps, ?ds) \<and>
        sorted (map pr_field ?ps) \<and> distinct (map pr_field ?ps) \<and> sorted ?ds \<and> distinct ?ds \<and>
        (\<forall>k s. \<lparr>pr_field = k, pr_value = s\<rparr> \<in> set ?ps \<longleftrightarrow> ?v k = Some (JStr s)) \<and>
        (\<forall>k. k \<in> set ?ds \<longleftrightarrow> ?v k = Some JNull)"
      unfolding fields by blast
    then show ?thesis unfolding if_P [OF True] by blast
  next
    case False
    then obtain k v where "?v k = Some v" "\<not> (v = JNull \<or> (\<exists>s. v = JStr s))" by blast
    then have "k \<in> dom ?v" and bad: "\<not> field_ok True (the (map_of ?m k))"
      by (auto simp: m field_ok_def)
    then have "k \<in> set ?ks" unfolding ks by blast
    from parse_fields_refused [OF this bad] show ?thesis unfolding if_not_P [OF False] parse .
  qed
qed

theorem ParseJSONFieldsWithDeletes_spec_witness:
  "\<exists>pairs deletes. ParseJSONFieldsWithDeletes (Some (JObj ''..'' [(''net1'', JNull), (''cores'', JStr ''4'')])) =
       Inr (pairs, deletes) \<and> \<lparr>pr_field = ''cores'', pr_value = ''4''\<rparr> \<in> set pairs \<and> ''net1'' \<in> set deletes"
  using ParseJSONFieldsWithDeletes_spec [of "[(''net1'', JNull), (''cores'', JStr ''4'')]" "''..''"]
  by (auto split: if_splits)

end
