(* ===== verification/VmFields.thy ===== *)
theory VmFields
  imports Engine Routed KvJson
begin

text \<open>
  \<open>vm set\<close> as an operation (\<open>internal/idempotent/vmfields.go\<close>, \<open>vmfields_pending.go\<close>,
  \<open>vmfields_cloudinit.go\<close>, \<open>vmconverge.go\<close>): a batch of fields to set and keys to delete, each write
  guarded by a digest read just before it, and the checks that say which of the changes PVE still
  holds pending.  The comparable value of \<open>Read\<close> is the map of the requested fields that are
  present (the code hands it on as JSON text, which \<open>Satisfied\<close> decodes again).
\<close>

record vmfields = sess +
  vf_current :: "string gomap"
  Applied :: "string list"
  Deleted :: "string list"
  Pending :: "string list"
  PendingDeletes :: "string list"
  CloudInitStale :: "string list"
  CloudInitStaleDeletes :: "string list"
  AlreadyPending :: "string list"
  AlreadyPendingDeletes :: "string list"
  AlreadyCloudInitStale :: "string list"
  AlreadyCloudInitStaleDeletes :: "string list"

text \<open>What the caller asks for: the fields of the operation that it never changes.\<close>

record fields_request =
  fr_vmid :: int
  fr_pairs :: "pair list"
  fr_deletes :: "string list"

definition vf_error :: "int \<Rightarrow> frag list \<Rightarrow> gerror" where
  "vf_error vmid what = Errorf ([Lit ''vm fields ensure: vm '', Dec vmid, Lit '': ''] @ what)"

section \<open>Validation\<close>

fun validate_pairs :: "int \<Rightarrow> string list \<Rightarrow> pair list \<Rightarrow> gerror + string list" where
  "validate_pairs vmid seen [] = Inr seen"
| "validate_pairs vmid seen (p # ps) =
     (if pr_field p \<in> set seen
      then Inl (vf_error vmid [Lit ''field '', Quo (pr_field p), Lit '' specified more than once''])
      else validate_pairs vmid (pr_field p # seen) ps)"

fun validate_deletes :: "int \<Rightarrow> string list \<Rightarrow> string list \<Rightarrow> string list \<Rightarrow> gerror option" where
  "validate_deletes vmid seen deleted [] = None"
| "validate_deletes vmid seen deleted (f # fs) =
     (if f = [] then Some (vf_error vmid [Lit ''a field to delete must be named''])
      else if f \<in> set deleted then
        Some (vf_error vmid [Lit ''field '', Quo f, Lit '' is deleted more than once''])
      else if f \<in> set seen then
        Some (vf_error vmid [Lit ''field '', Quo f, Lit '' is both set and deleted''])
      else validate_deletes vmid seen (f # deleted) fs)"

definition VMFieldsEnsure_Validate :: "fields_request \<Rightarrow> gerror option" where
  "VMFieldsEnsure_Validate q =
     (if fr_vmid q \<le> 0 then
        Some (Errorf [Lit ''vm fields ensure: vmid must be positive, got '', Dec (fr_vmid q)])
      else if fr_pairs q = [] \<and> fr_deletes q = [] then
        Some (vf_error (fr_vmid q) [Lit ''at least one field to set or delete is required''])
      else (case validate_pairs (fr_vmid q) [] (fr_pairs q) of
              Inl e \<Rightarrow> Some e
            | Inr seen \<Rightarrow> validate_deletes (fr_vmid q) seen [] (fr_deletes q)))"

definition BuildFieldsEnsure :: "int \<Rightarrow> string gomap \<Rightarrow> gerror + fields_request" where
  "BuildFieldsEnsure vmid desired =
     (let q = \<lparr>fr_vmid = vmid,
               fr_pairs = map (\<lambda>k. \<lparr>pr_field = k, pr_value = the (map_of desired k)\<rparr>) (sort (map fst desired)),
               fr_deletes = []\<rparr>
      in case VMFieldsEnsure_Validate q of Some e \<Rightarrow> Inl e | None \<Rightarrow> Inr q)"

section \<open>Reading the config\<close>

record config_snapshot =
  sn_fields :: "json gomap"
  sn_digest :: string

text \<open>What \<open>readConfig\<close> makes of the raw answer.\<close>

definition parse_config :: "int \<Rightarrow> gerror + json \<Rightarrow> gerror + config_snapshot" where
  "parse_config vmid r =
     (case r of
        Inl e \<Rightarrow> Inl (vf_error vmid [Lit ''read config: '', Wrapped e])
      | Inr raw \<Rightarrow>
          (case unmarshal_map raw of
             None \<Rightarrow> Inl (vf_error vmid [Lit ''read config: parse: '', Wrapped json_type_error])
           | Some (notnil, flds) \<Rightarrow>
               (case (case map_of flds ''digest'' of None \<Rightarrow> Some [] | Some d \<Rightarrow> unmarshal_string d) of
                  None \<Rightarrow> Inl (vf_error vmid [Lit ''read config: parse digest: '', Wrapped json_type_error])
                | Some digest \<Rightarrow>
                    if digest = [] then Inl (vf_error vmid [Lit ''read config: response carries no digest''])
                    else Inr \<lparr>sn_fields = flds, sn_digest = digest\<rparr>)))"

definition readConfig :: "env \<Rightarrow> target \<Rightarrow> int \<Rightarrow> ('r sess_scheme, gerror + config_snapshot) state" where
  "readConfig env t vmid = do {
     r \<leftarrow> RawRequest env GET (qemu_path (tg_node t) vmid ''/config'') [];
     ret (parse_config vmid r)
   }"

fun collect_current :: "int \<Rightarrow> json gomap \<Rightarrow> string gomap \<Rightarrow> string list \<Rightarrow> gerror + string gomap" where
  "collect_current vmid flds current [] = Inr current"
| "collect_current vmid flds current (f # fs) =
     (case map_of flds f of
        None \<Rightarrow> collect_current vmid flds current fs
      | Some raw \<Rightarrow>
          (case Scalar raw of
             Inl e \<Rightarrow> Inl (vf_error vmid [Lit ''field '', Quo f, Lit '': '', Wrapped e])
           | Inr s \<Rightarrow> collect_current vmid flds (AList.update f s current) fs))"

definition VMFieldsEnsure_Read :: "env \<Rightarrow> target \<Rightarrow> fields_request \<Rightarrow> (vmfields, gerror + string gomap) state" where
  "VMFieldsEnsure_Read env t q = do {
     r \<leftarrow> readConfig env t (fr_vmid q);
     case r of
       Inl e \<Rightarrow> ret (Inl e)
     | Inr snap \<Rightarrow>
         (case collect_current (fr_vmid q) (sn_fields snap) [] (map pr_field (fr_pairs q) @ fr_deletes q) of
            Inl e \<Rightarrow> ret (Inl e)
          | Inr current \<Rightarrow> do {
              _ \<leftarrow> modify (vf_current_update (\<lambda>_. current));
              ret (Inr current)
            })
   }"

text \<open>A pair is already there when its field is present with an equal value.\<close>

definition already :: "string gomap \<Rightarrow> pair \<Rightarrow> bool" where
  "already m p \<longleftrightarrow> (case map_of m (pr_field p) of None \<Rightarrow> False | Some v \<Rightarrow> fieldsEqual v (pr_value p))"

definition VMFieldsEnsure_Satisfied :: "fields_request \<Rightarrow> string gomap \<Rightarrow> bool" where
  "VMFieldsEnsure_Satisfied q m \<longleftrightarrow>
     list_all (already m) (fr_pairs q) \<and>
     list_all (\<lambda>f. map_of m f = None) (fr_deletes q)"

section \<open>Applying the batch\<close>

definition appendOnce :: "string list \<Rightarrow> string \<Rightarrow> string list" where
  "appendOnce l s = (if s \<in> set l then l else l @ [s])"

definition mark_applied :: "string \<Rightarrow> (vmfields, gerror option) state" where
  "mark_applied f = do { _ \<leftarrow> modify (Applied_update (\<lambda>l. appendOnce l f)); ret None }"

definition mark_deleted :: "string \<Rightarrow> (vmfields, gerror option) state" where
  "mark_deleted f = do { _ \<leftarrow> modify (Deleted_update (\<lambda>l. appendOnce l f)); ret None }"

definition apply_pair :: "env \<Rightarrow> target \<Rightarrow> int \<Rightarrow> pair \<Rightarrow> (vmfields, gerror option) state" where
  "apply_pair env t vmid p = do {
     s \<leftarrow> State_Monad.get;
     if already (vf_current s) p then ret None
     else if RootOnlyFields (pr_field p) then do {
       r \<leftarrow> SetVMConfigField env t vmid (pr_field p) (pr_value p);
       case r of
         Some e \<Rightarrow> ret (Some (vf_error vmid [Lit ''set field '', Quo (pr_field p), Lit '': '', Wrapped e]))
       | None \<Rightarrow> mark_applied (pr_field p)
     }
     else do {
       rd \<leftarrow> readConfig env t vmid;
       case rd of
         Inl e \<Rightarrow> ret (Some (vf_error vmid [Lit ''re-read digest before writing field '', Quo (pr_field p),
                    Lit '': '', Wrapped e]))
       | Inr snap \<Rightarrow> do {
           r \<leftarrow> SetVMConfigFieldCAS env t vmid (pr_field p) (pr_value p) (sn_digest snap);
           case r of
             None \<Rightarrow> mark_applied (pr_field p)
           | Some e \<Rightarrow>
               if IsDigestConflictError e then
                 ret (Some (vf_error vmid [Lit ''field '', Quo (pr_field p), Lit '': '',
                   Wrapped (Sentinel ErrConflict), Lit '': '', Wrapped e]))
               else if IsRootOnlyWriteError e then do {
                 fb \<leftarrow> SetVMConfigFieldOverSSH env t vmid (pr_field p) (pr_value p);
                 case fb of
                   Some fe \<Rightarrow> ret (Some (vf_error vmid [Lit ''set field '', Quo (pr_field p),
                     Lit '': rejected as root-only by rest, ssh fallback also failed: '', Wrapped fe]))
                 | None \<Rightarrow> mark_applied (pr_field p)
               }
               else ret (Some (vf_error vmid [Lit ''set field '', Quo (pr_field p), Lit '': '', Wrapped e]))
         }
     }
   }"

definition apply_delete :: "env \<Rightarrow> target \<Rightarrow> int \<Rightarrow> string \<Rightarrow> (vmfields, gerror option) state" where
  "apply_delete env t vmid f = do {
     s \<leftarrow> State_Monad.get;
     if map_of (vf_current s) f = None then ret None
     else if RootOnlyFields f then do {
       r \<leftarrow> DeleteVMConfigField env t vmid f;
       case r of
         Some e \<Rightarrow> ret (Some (vf_error vmid [Lit ''delete field '', Quo f, Lit '': '', Wrapped e]))
       | None \<Rightarrow> mark_deleted f
     }
     else do {
       rd \<leftarrow> readConfig env t vmid;
       case rd of
         Inl e \<Rightarrow> ret (Some (vf_error vmid [Lit ''re-read digest before deleting field '', Quo f, Lit '': '', Wrapped e]))
       | Inr snap \<Rightarrow>
           if map_of (sn_fields snap) f = None then ret None
           else do {
             r \<leftarrow> DeleteVMConfigFieldCAS env t vmid f (sn_digest snap);
             case r of
               None \<Rightarrow> mark_deleted f
             | Some e \<Rightarrow>
                 if IsDigestConflictError e then
                   ret (Some (vf_error vmid [Lit ''delete field '', Quo f, Lit '': '',
                     Wrapped (Sentinel ErrConflict), Lit '': '', Wrapped e]))
                 else if IsRootOnlyWriteError e then do {
                   fb \<leftarrow> DeleteVMConfigFieldOverSSH env t vmid f;
                   case fb of
                     Some fe \<Rightarrow> ret (Some (vf_error vmid [Lit ''delete field '', Quo f,
                       Lit '': rejected as root-only by rest, ssh fallback also failed: '', Wrapped fe]))
                   | None \<Rightarrow> mark_deleted f
                 }
                 else ret (Some (vf_error vmid [Lit ''delete field '', Quo f, Lit '': '', Wrapped e]))
           }
     }
   }"

text \<open>A loop over a list that stops at the first error.\<close>

fun until_error :: "('a \<Rightarrow> ('s, gerror option) state) \<Rightarrow> 'a list \<Rightarrow> ('s, gerror option) state" where
  "until_error step [] = ret None"
| "until_error step (x # xs) = do {
     r \<leftarrow> step x;
     case r of Some e \<Rightarrow> ret (Some e) | None \<Rightarrow> until_error step xs
   }"

definition VMFieldsEnsure_Apply :: "env \<Rightarrow> target \<Rightarrow> fields_request \<Rightarrow> (vmfields, gerror option) state" where
  "VMFieldsEnsure_Apply env t q =
     (case VMFieldsEnsure_Validate q of
        Some e \<Rightarrow> ret (Some e)
      | None \<Rightarrow> do {
          r \<leftarrow> until_error (apply_pair env t (fr_vmid q)) (fr_pairs q);
          case r of
            Some e \<Rightarrow> ret (Some e)
          | None \<Rightarrow> until_error (apply_delete env t (fr_vmid q)) (fr_deletes q)
        })"

section \<open>Pending changes\<close>

text \<open>The lists of changes a strict decoding yields: the keys with a pending value, and with a removal.\<close>

fun decode_entries ::
    "string \<Rightarrow> int \<Rightarrow> string list \<Rightarrow> string list \<Rightarrow> (bool \<times> json gomap) list \<Rightarrow> gerror + string list \<times> string list" where
  "decode_entries lst i pending deleting [] = Inr (pending, deleting)"
| "decode_entries lst i pending deleting ((notnil, e) # es) =
     (if \<not> notnil then
        Inl (Errorf [Wrapped (Sentinel ErrUnverifiableRead), Lit '': '', Lit lst, Lit '' entry '', Dec i, Lit '' is not an object''])
      else case (case map_of e ''key'' of None \<Rightarrow> None | Some k \<Rightarrow> unmarshal_string k) of
          None \<Rightarrow> Inl (Errorf [Wrapped (Sentinel ErrUnverifiableRead), Lit '': '', Lit lst, Lit '' entry '', Dec i, Lit '' has no key''])
        | Some key \<Rightarrow>
            if key = [] then
              Inl (Errorf [Wrapped (Sentinel ErrUnverifiableRead), Lit '': '', Lit lst, Lit '' entry '', Dec i, Lit '' has no key''])
            else (case map_of e ''delete'' of
                Some d \<Rightarrow>
                  (case unmarshal_int d of
                     Some n \<Rightarrow>
                       if n < 0 \<or> n > 2 then
                         Inl (Errorf [Wrapped (Sentinel ErrUnverifiableRead), Lit '': '', Lit lst, Lit '' entry '', Dec i,
                           Lit '' has a delete flag that is not 0, 1 or 2''])
                       else if n > 0 then decode_entries lst (i + 1) pending (key # deleting) es
                       else decode_entries lst (i + 1) (if map_of e ''pending'' \<noteq> None then key # pending else pending) deleting es
                   | None \<Rightarrow>
                       Inl (Errorf [Wrapped (Sentinel ErrUnverifiableRead), Lit '': '', Lit lst, Lit '' entry '', Dec i,
                         Lit '' has a delete flag that is not 0, 1 or 2'']))
              | None \<Rightarrow>
                  decode_entries lst (i + 1) (if map_of e ''pending'' \<noteq> None then key # pending else pending) deleting es))"

definition decodeChanges :: "json \<Rightarrow> string \<Rightarrow> gerror + string list \<times> string list" where
  "decodeChanges raw lst =
     (case raw of
        JArr t xs \<Rightarrow>
          if list_all (\<lambda>x. unmarshal_map x \<noteq> None) xs
          then decode_entries lst 0 [] [] (map (\<lambda>x. the (unmarshal_map x)) xs)
          else Inl (Errorf [Wrapped (Sentinel ErrUnverifiableRead), Lit '': the '', Lit lst, Lit '' list is not a JSON array''])
      | _ \<Rightarrow> Inl (Errorf [Wrapped (Sentinel ErrUnverifiableRead), Lit '': the '', Lit lst, Lit '' list is not a JSON array'']))"

definition pick :: "string list \<Rightarrow> string list \<Rightarrow> string list" where
  "pick l st = filter (\<lambda>k. k \<in> set st) l"

definition without :: "string list \<Rightarrow> string list \<Rightarrow> string list" where
  "without l dropped = filter (\<lambda>k. k \<notin> set dropped) l"

definition readChanges ::
    "env \<Rightarrow> target \<Rightarrow> int \<Rightarrow> string \<Rightarrow> string \<Rightarrow> ('r sess_scheme, gerror + string list \<times> string list) state" where
  "readChanges env t vmid lst what = do {
     r \<leftarrow> RawRequest env GET (qemu_path (tg_node t) vmid (''/'' @ lst)) [];
     ret (case r of
         Inl e \<Rightarrow> Inl (vf_error vmid [Lit what, Lit '': '', Wrapped e])
       | Inr raw \<Rightarrow>
           (case decodeChanges raw lst of
              Inl e \<Rightarrow> Inl (vf_error vmid [Lit what, Lit '': '', Wrapped e])
            | Inr changes \<Rightarrow> Inr changes))
   }"

definition cloudInitKeys :: "string list" where
  "cloudInitKeys = [''ciuser'', ''cipassword'', ''citype'', ''ciupgrade'', ''cicustom'', ''sshkeys'',
     ''nameserver'', ''searchdomain'', ''name'']"

definition cloudInitIndexed :: "string list" where
  "cloudInitIndexed = [''ipconfig'', ''net'']"

definition isCloudInitKey :: "string \<Rightarrow> bool" where
  "isCloudInitKey key \<longleftrightarrow>
     key \<in> set cloudInitKeys \<or>
     list_ex (\<lambda>p. case strings_CutPrefix key p of (n, ok) \<Rightarrow> ok \<and> n \<noteq> [] \<and> list_all is_digit n) cloudInitIndexed"

definition checkCloudInit ::
    "env \<Rightarrow> target \<Rightarrow> int \<Rightarrow> string list \<Rightarrow> string list \<Rightarrow> string list \<Rightarrow> string list \<Rightarrow>
     ('r sess_scheme, gerror + string list \<times> string list) state" where
  "checkCloudInit env t vmid writes deletes pendingWrites pendingDeletes =
     (let ciWrites = filter (\<lambda>f. isCloudInitKey f \<and> f \<notin> set pendingWrites) writes;
          ciDeletes = filter (\<lambda>f. isCloudInitKey f \<and> f \<notin> set pendingDeletes) deletes
      in if ciWrites = [] \<and> ciDeletes = [] then ret (Inr ([], []))
         else do {
           r \<leftarrow> readChanges env t vmid ''cloudinit'' (''read the cloud-init drive'' @ [CHR 0x27] @ ''s state'');
           ret (case r of
               Inl e \<Rightarrow> Inl (CloudInitCheckError e)
             | Inr (onDrive, onDriveDel) \<Rightarrow> Inr (pick ciWrites onDrive, pick ciDeletes onDriveDel))
         })"

definition Wrote :: "vmfields \<Rightarrow> bool" where
  "Wrote s \<longleftrightarrow> Applied s \<noteq> [] \<or> Deleted s \<noteq> []"

definition resetFindings :: "vmfields \<Rightarrow> vmfields" where
  "resetFindings s = s\<lparr>Pending := [], PendingDeletes := [], CloudInitStale := [], CloudInitStaleDeletes := [],
     AlreadyPending := [], AlreadyPendingDeletes := [], AlreadyCloudInitStale := [], AlreadyCloudInitStaleDeletes := []\<rparr>"

definition requestedFields :: "fields_request \<Rightarrow> string list" where
  "requestedFields q = map pr_field (fr_pairs q)"

text \<open>On an error \<open>checkCloudInit\<close> returns two nil slices, which the assignment still stores.\<close>

definition PostApply :: "env \<Rightarrow> target \<Rightarrow> fields_request \<Rightarrow> (vmfields, gerror option) state" where
  "PostApply env t q = do {
     _ \<leftarrow> modify resetFindings;
     s \<leftarrow> State_Monad.get;
     if \<not> Wrote s then ret None
     else do {
       r \<leftarrow> readChanges env t (fr_vmid q) ''pending'' ''read pending changes'';
       case r of
         Inl e \<Rightarrow> ret (Some e)
       | Inr (pending, deleting) \<Rightarrow> do {
           _ \<leftarrow> modify (\<lambda>s. s\<lparr>Pending := pick (Applied s) pending, PendingDeletes := pick (Deleted s) deleting\<rparr>);
           _ \<leftarrow> modify (\<lambda>s. s\<lparr>AlreadyPending := pick (without (requestedFields q) (Applied s)) pending\<rparr>);
           _ \<leftarrow> modify (\<lambda>s. s\<lparr>AlreadyPendingDeletes := pick (without (fr_deletes q) (Deleted s)) deleting\<rparr>);
           s \<leftarrow> State_Monad.get;
           c \<leftarrow> checkCloudInit env t (fr_vmid q) (Applied s) (Deleted s) (Pending s) (PendingDeletes s);
           case c of
             Inl e \<Rightarrow> do {
               _ \<leftarrow> modify (\<lambda>s. s\<lparr>CloudInitStale := [], CloudInitStaleDeletes := []\<rparr>);
               ret (Some e) }
           | Inr (stale, staleDeletes) \<Rightarrow> do {
               _ \<leftarrow> modify (\<lambda>s. s\<lparr>CloudInitStale := stale, CloudInitStaleDeletes := staleDeletes\<rparr>);
               ret None }
         }
     }
   }"

definition PostNoop :: "env \<Rightarrow> target \<Rightarrow> fields_request \<Rightarrow> (vmfields, gerror option) state" where
  "PostNoop env t q = do {
     s \<leftarrow> State_Monad.get;
     if Wrote s then PostApply env t q
     else do {
       _ \<leftarrow> modify resetFindings;
       if requestedFields q = [] \<and> fr_deletes q = [] then ret None
       else do {
         r \<leftarrow> readChanges env t (fr_vmid q) ''pending'' ''read pending changes'';
         case r of
           Inl e \<Rightarrow> ret (Some e)
         | Inr (pending, deleting) \<Rightarrow> do {
             _ \<leftarrow> modify (\<lambda>s. s\<lparr>AlreadyPending := pick (requestedFields q) pending,
                                 AlreadyPendingDeletes := pick (fr_deletes q) deleting\<rparr>);
             s \<leftarrow> State_Monad.get;
             c \<leftarrow> checkCloudInit env t (fr_vmid q) (requestedFields q) (fr_deletes q)
                   (AlreadyPending s) (AlreadyPendingDeletes s);
             case c of
               Inl e \<Rightarrow> do {
                 _ \<leftarrow> modify (\<lambda>s. s\<lparr>AlreadyCloudInitStale := [], AlreadyCloudInitStaleDeletes := []\<rparr>);
                 ret (Some e) }
             | Inr (stale, staleDeletes) \<Rightarrow> do {
                 _ \<leftarrow> modify (\<lambda>s. s\<lparr>AlreadyCloudInitStale := stale, AlreadyCloudInitStaleDeletes := staleDeletes\<rparr>);
                 ret None }
           }
       }
     }
   }"

definition VMFieldsEnsure :: "env \<Rightarrow> target \<Rightarrow> fields_request \<Rightarrow> (vmfields, string gomap) op" where
  "VMFieldsEnsure env t q =
     \<lparr>op_Read = VMFieldsEnsure_Read env t q, op_Satisfied = (\<lambda>_. VMFieldsEnsure_Satisfied q),
      op_Apply = VMFieldsEnsure_Apply env t q, op_PostApply = Some (PostApply env t q),
      op_ReRead = None, op_PostNoop = Some (PostNoop env t q)\<rparr>"


section \<open>What the writes do\<close>

lemma traces_readConfig:
  "traces (readConfig env t vmid)
     (\<lambda>r es. \<exists>a. es = [EHttp GET (qemu_path (tg_node t) vmid ''/config'') [] a] \<and> r = parse_config vmid (raw_result a))"
proof -
  obtain rest where "qemu_path (tg_node t) vmid ''/config'' = CHR ''/'' # rest" using qemu_path_slash by blast
  from traces_RawRequest_sent [OF this] show ?thesis
    unfolding readConfig_def by (rule traces_bind) (auto intro!: traces_return)
qed

lemma frames_readConfig [frames_intro]: "frames (readConfig env t vmid)"
  unfolding readConfig_def by (intro frames_intro)

lemma emits_readConfig [emits_intro]: "emits reads (readConfig env t vmid)"
  unfolding readConfig_def by (intro emits_intro) (simp add: reads_def)

lemma parse_config_digest: "parse_config vmid r = Inr snap \<Longrightarrow> sn_digest snap \<noteq> []"
  by (auto simp: parse_config_def split: sum.splits option.splits if_splits)

text \<open>
  A write of the batch and what has to come before it: a guarded PUT of one of the pairs, or of a
  delete of a key that is there, right after the config read whose digest it carries; or an SSH
  command for a pair or a key that is root-only, or whose guarded PUT was refused (a target without
  a node refuses it before it is sent).
\<close>

definition refused_before :: "string \<Rightarrow> int \<Rightarrow> string \<Rightarrow> string \<Rightarrow> event list \<Rightarrow> bool" where
  "refused_before node vmid field val pre \<longleftrightarrow> node = [] \<or>
     (\<exists>d a. EHttp PUT (qemu_path node vmid ''/config'') (cas_form field val d) a \<in> set pre \<and> \<not> answered_2xx a)"

definition guarded_form :: "fields_request \<Rightarrow> config_snapshot \<Rightarrow> url_values \<Rightarrow> bool" where
  "guarded_form q snap form \<longleftrightarrow>
     (\<exists>p \<in> set (fr_pairs q). form = cas_form (pr_field p) (pr_value p) (sn_digest snap)) \<or>
     (\<exists>f \<in> set (fr_deletes q). form = cas_form ''delete'' f (sn_digest snap) \<and> map_of (sn_fields snap) f \<noteq> None)"

definition guarded_put :: "string \<Rightarrow> fields_request \<Rightarrow> event list \<Rightarrow> event \<Rightarrow> bool" where
  "guarded_put node q pre e \<longleftrightarrow>
     (\<exists>before a0 snap form a.
        pre = before @ [EHttp GET (qemu_path node (fr_vmid q) ''/config'') [] a0] \<and>
        parse_config (fr_vmid q) (raw_result a0) = Inr snap \<and>
        e = EHttp PUT (qemu_path node (fr_vmid q) ''/config'') form a \<and> guarded_form q snap form)"

definition excused_ssh :: "string \<Rightarrow> fields_request \<Rightarrow> event list \<Rightarrow> event \<Rightarrow> bool" where
  "excused_ssh node q pre e \<longleftrightarrow>
     (\<exists>cmd a. e = ESsh cmd a \<and>
        ((\<exists>p \<in> set (fr_pairs q). cmd = set_command (fr_vmid q) (pr_field p) (pr_value p) \<and>
            (RootOnlyFields (pr_field p) \<or> refused_before node (fr_vmid q) (pr_field p) (pr_value p) pre)) \<or>
         (\<exists>f \<in> set (fr_deletes q). cmd = delete_command (fr_vmid q) f \<and>
            (RootOnlyFields f \<or> refused_before node (fr_vmid q) ''delete'' f pre))))"

definition guarded_write :: "string \<Rightarrow> fields_request \<Rightarrow> event list \<Rightarrow> event \<Rightarrow> bool" where
  "guarded_write node q pre e \<longleftrightarrow> guarded_put node q pre e \<or> excused_ssh node q pre e"

lemma refused_beforeI:
  "refused_before [] vmid field val pre"
  "EHttp PUT (qemu_path node vmid ''/config'') (cas_form field val d) a \<in> set pre \<Longrightarrow> \<not> answered_2xx a \<Longrightarrow>
     refused_before node vmid field val pre"
  unfolding refused_before_def by blast+

lemma refused_before_append: "refused_before node vmid f v pre \<Longrightarrow> refused_before node vmid f v (before @ pre)"
  by (auto simp: refused_before_def)

lemma guarded_put_append: "guarded_put node q pre e \<Longrightarrow> guarded_put node q (before @ pre) e"
proof -
  assume "guarded_put node q pre e"
  then obtain b a0 snap form a where "pre = b @ [EHttp GET (qemu_path node (fr_vmid q) ''/config'') [] a0]"
    and rest: "parse_config (fr_vmid q) (raw_result a0) = Inr snap"
      "e = EHttp PUT (qemu_path node (fr_vmid q) ''/config'') form a" "guarded_form q snap form"
    unfolding guarded_put_def by blast
  then have "before @ pre = (before @ b) @ [EHttp GET (qemu_path node (fr_vmid q) ''/config'') [] a0]" by simp
  with rest show ?thesis unfolding guarded_put_def by blast
qed

lemma excused_ssh_append: "excused_ssh node q pre e \<Longrightarrow> excused_ssh node q (before @ pre) e"
  unfolding excused_ssh_def by (auto intro: refused_before_append)

lemma looks_back_guarded_write: "looks_back (guarded_write node q)"
  by (auto simp: looks_back_def guarded_write_def intro: guarded_put_append excused_ssh_append)

lemma gated_only_ssh:
  "list_all (only_ssh cmd) es \<Longrightarrow> (\<And>pre a. G pre (ESsh cmd a)) \<Longrightarrow> gated G es"
proof (induction es arbitrary: G)
  case (Cons e es)
  have "gated (\<lambda>pre. G (e # pre)) es" using Cons by simp
  moreover have "is_write e \<Longrightarrow> G [] e" using Cons.prems by (cases e) auto
  ultimately show ?case by (rule gated_Cons [rotated])
qed (simp add: gated_no_write)

text \<open>A write of a parameter that succeeded: a PUT that was accepted, or an SSH command that ran.\<close>

fun write_done :: "string \<Rightarrow> int \<Rightarrow> string \<Rightarrow> string \<Rightarrow> string \<Rightarrow> event \<Rightarrow> bool" where
  "write_done node vmid param val cmd (EHttp m path form a) =
     (m = PUT \<and> path = qemu_path node vmid ''/config'' \<and>
      form = cas_form param val (values_Get form ''digest'') \<and> answered_2xx a)"
| "write_done node vmid param val cmd (ESsh c (Inr r)) = (c = cmd \<and> sr_exit r = 0)"
| "write_done node vmid param val cmd _ = False"

definition pair_done :: "string \<Rightarrow> int \<Rightarrow> pair \<Rightarrow> event \<Rightarrow> bool" where
  "pair_done node vmid p = write_done node vmid (pr_field p) (pr_value p) (set_command vmid (pr_field p) (pr_value p))"

definition delete_done :: "string \<Rightarrow> int \<Rightarrow> string \<Rightarrow> event \<Rightarrow> bool" where
  "delete_done node vmid f = write_done node vmid ''delete'' f (delete_command vmid f)"

text \<open>A write that its receiver accepted, whatever it writes.\<close>

fun write_accepted :: "event \<Rightarrow> bool" where
  "write_accepted (EHttp m path form a) = (m \<noteq> GET \<and> answered_2xx a)"
| "write_accepted (ESsh c (Inr r)) = (sr_exit r = 0)"
| "write_accepted _ = False"

lemma ssh_accepted_done:
  "list_all (only_ssh cmd) es \<Longrightarrow> e \<in> set es \<Longrightarrow> write_accepted e \<Longrightarrow> write_done node vmid param val cmd e"
  by (cases e rule: write_accepted.cases) (auto simp: list_all_iff)

lemma only_ssh_remote: "list_all (only_ssh cmd) es \<Longrightarrow> list_all remote es"
proof (induction es)
  case (Cons e es)
  then show ?case by (cases e) (auto simp: remote_def)
qed simp

lemma ssh_done_iff:
  "list_all (only_ssh cmd) es \<Longrightarrow> list_ex (write_done node vmid param val cmd) es \<longleftrightarrow> list_ex (ssh_ran_ok cmd) es"
proof (induction es)
  case (Cons e es)
  then show ?case by (cases "(cmd, e)" rule: ssh_ran_ok.cases) auto
qed simp

text \<open>
  A guarded write with its fallback over SSH, as both loops make it: the PUT (or a local refusal),
  and then, when PVE says that only root may set the parameter, the command over SSH.
\<close>

definition cas_outcome :: "string \<Rightarrow> string \<Rightarrow> url_values \<Rightarrow> string \<Rightarrow> bool \<Rightarrow> event list \<Rightarrow> bool" where
  "cas_outcome node path form cmd ok es \<longleftrightarrow>
     es = [] \<and> \<not> ok \<or>
     (\<exists>a. es = [EHttp PUT path form a] \<and> (ok \<longleftrightarrow> answered_2xx a)) \<or>
     (\<exists>pre fs. es = pre @ fs \<and> (pre = [] \<and> node = [] \<or> (\<exists>a. pre = [EHttp PUT path form a] \<and> \<not> answered_2xx a)) \<and>
        list_all (only_ssh cmd) fs \<and> (ok \<longleftrightarrow> list_ex (ssh_ran_ok cmd) fs))"

lemma cas_outcome_done:
  assumes "cas_outcome node (qemu_path node vmid ''/config'') (cas_form param val d) cmd ok es" and "d \<noteq> []"
  shows "list_ex (write_done node vmid param val cmd) es \<longleftrightarrow> ok" and "list_all remote es"
  using assms by (auto simp: cas_outcome_def cas_form_Get ssh_done_iff remote_def dest: only_ssh_remote)

lemma cas_outcome_accepted:
  assumes "cas_outcome node (qemu_path node vmid ''/config'') (cas_form param val d) cmd ok es" and "d \<noteq> []"
    and "e \<in> set es" and "write_accepted e"
  shows "write_done node vmid param val cmd e"
  using assms by (auto simp: cas_outcome_def cas_form_Get dest: ssh_accepted_done)

lemma cas_outcome_gated:
  assumes out: "cas_outcome node (qemu_path node vmid ''/config'') (cas_form param val d) cmd ok es"
    and before: "list_all (\<lambda>e. \<not> is_write e) before"
    and put: "\<And>a. G before (EHttp PUT (qemu_path node vmid ''/config'') (cas_form param val d) a)"
    and ssh: "\<And>pre a. refused_before node vmid param val pre \<Longrightarrow> G pre (ESsh cmd a)"
  shows "gated G (before @ es)"
proof -
  have sent: "gated G (before @ [EHttp PUT (qemu_path node vmid ''/config'') (cas_form param val d) a])" for a
    using gated_one [of before G _ "[]"] before put by simp
  have retried: "gated G ((before @ pre) @ fs)"
    if "pre = [] \<and> node = [] \<or> (\<exists>a. pre = [EHttp PUT (qemu_path node vmid ''/config'') (cas_form param val d) a] \<and> \<not> answered_2xx a)"
      "list_all (only_ssh cmd) fs" for pre fs
  proof (rule gated_after)
    show "gated G (before @ pre)" using that(1) sent before by (auto intro: gated_no_write)
    show "gated (\<lambda>pre'. G ((before @ pre) @ pre')) fs"
      using that(1) by (intro gated_only_ssh [OF that(2)] ssh) (auto intro: refused_beforeI)
  qed
  from out show ?thesis
    unfolding cas_outcome_def using sent retried before by (auto intro: gated_no_write)
qed


lemma runs_cas_or_ssh:
  assumes cas: "traces cas (\<lambda>r es. es = [] \<and> (\<exists>e. r = Some e \<and> (IsRootOnlyWriteError e \<longrightarrow> node = [])) \<or>
        (\<exists>a. es = [EHttp PUT path form a] \<and> (r = None \<longleftrightarrow> answered_2xx a)))" "frames cas"
    and ssh: "traces ssh (\<lambda>r es. list_all (only_ssh cmd) es \<and> (r = None \<longleftrightarrow> list_ex (ssh_ran_ok cmd) es))" "frames ssh"
    and mark: "\<And>s1 es. sess.more s1 = sess.more s \<Longrightarrow> cas_outcome node path form cmd True es \<Longrightarrow>
      runs s1 mark (\<lambda>r s2 fs. Psi r s2 (es @ fs))"
    and failed: "\<And>s1 es E. sess.more s1 = sess.more s \<Longrightarrow> cas_outcome node path form cmd False es \<Longrightarrow> Psi (Some E) s1 es"
  shows "runs s (do {
      r \<leftarrow> cas;
      case r of
        None \<Rightarrow> mark
      | Some e \<Rightarrow>
          if IsDigestConflictError e then ret (Some (E1 e))
          else if IsRootOnlyWriteError e then do {
            fb \<leftarrow> ssh;
            case fb of Some fe \<Rightarrow> ret (Some (E2 fe)) | None \<Rightarrow> mark
          }
          else ret (Some (E3 e))
    }) Psi"
proof (rule runs_bind, rule runs_traces [OF cas], rule runs_case_option, goal_cases)
  case (1 r s1 es)
  then show ?case by (intro mark) (auto simp: cas_outcome_def)
next
  case (2 r s1 es e)
  then have *: "cas_outcome node path form cmd False es" by (auto simp: cas_outcome_def)
  show ?case
  proof (rule runs_if, goal_cases)
    case 1
    from 2 * show ?case by (intro runs_return) (simp add: failed)
  next
    case noconflict: 2
    show ?case
    proof (rule runs_if, goal_cases)
      case root: 1
      from 2 root have pre: "es = [] \<and> node = [] \<or> (\<exists>a. es = [EHttp PUT path form a] \<and> \<not> answered_2xx a)" by auto
      show ?case
      proof (rule runs_bind, rule runs_traces [OF ssh], rule runs_case_option, goal_cases)
        case (1 fb s2 fs)
        with pre have "cas_outcome node path form cmd True (es @ fs)" unfolding cas_outcome_def by blast
        with 1 2 show ?case by (auto dest!: mark [rotated] simp: append_assoc)
      next
        case (2 fb s2 fs fe)
        with pre have "cas_outcome node path form cmd False (es @ fs)" unfolding cas_outcome_def by blast
        with 2 \<open>sess.more s1 = sess.more s\<close> show ?case by (intro runs_return) (simp add: failed)
      qed
    next
      case 2
      from \<open>sess.more s1 = sess.more s\<close> * show ?case by (intro runs_return) (simp add: failed)
    qed
  qed
qed


text \<open>A local refusal is not PVE's refusal of a root-only parameter (unless the target has no node).\<close>

lemma digit_char_digit: "n < 10 \<Longrightarrow> is_digit (digit_char n)"
  by (simp add: digit_char_def is_digit_def less_eq_char_def)

lemma nat_digits_digits: "list_all is_digit (nat_digits n)"
proof (induction n rule: nat_digits.induct)
  case (1 n)
  then show ?case
    by (cases "n < 10") (subst nat_digits.simps, simp add: digit_char_digit)+
qed

lemma Itoa_no_letter: "CHR ''y'' \<notin> set (strconv_Itoa i)"
  using nat_digits_digits [of "nat i"] nat_digits_digits [of "nat (- i)"]
  by (auto simp: strconv_Itoa_def list_all_iff is_digit_def)

lemma no_y_no_root: "CHR ''y'' \<notin> set (err_text e) \<Longrightarrow> \<not> IsRootOnlyWriteError e"
  by (auto simp: IsRootOnlyWriteError_def err_mentions_def strings_Contains_def sublist_def)

lemma traces_cas_set:
  "\<not> RootOnlyFields field \<Longrightarrow> traces (SetVMConfigFieldCAS env t vmid field val d)
     (\<lambda>r es. es = [] \<and> (\<exists>e. r = Some e \<and> (IsRootOnlyWriteError e \<longrightarrow> tg_node t = [])) \<or>
        (\<exists>a. es = [EHttp PUT (qemu_path (tg_node t) vmid ''/config'') (cas_form field val d) a] \<and>
             (r = None \<longleftrightarrow> answered_2xx a)))"
  unfolding SetVMConfigFieldCAS_def Client_SetVMConfigFieldCAS_def putVMConfig_def http_do_def
  using Itoa_no_letter [of vmid]
  by (auto simp: traces_def perform_def put_result_None intro!: no_y_no_root)

lemma traces_cas_delete:
  "\<not> RootOnlyFields field \<Longrightarrow> traces (DeleteVMConfigFieldCAS env t vmid field d)
     (\<lambda>r es. es = [] \<and> (\<exists>e. r = Some e \<and> (IsRootOnlyWriteError e \<longrightarrow> tg_node t = [])) \<or>
        (\<exists>a. es = [EHttp PUT (qemu_path (tg_node t) vmid ''/config'') (cas_form ''delete'' field d) a] \<and>
             (r = None \<longleftrightarrow> answered_2xx a)))"
  unfolding DeleteVMConfigFieldCAS_def Client_DeleteVMConfigFieldCAS_def putVMConfig_def http_do_def
  using Itoa_no_letter [of vmid]
  by (auto simp: traces_def perform_def put_result_None intro!: no_y_no_root)


section \<open>What one pair and one delete do\<close>

lemma more_fields:
  assumes "sess.more s1 = sess.more (s :: vmfields)"
  shows "vf_current s1 = vf_current s" and "Applied s1 = Applied s" and "Deleted s1 = Deleted s"
  using assms by (cases s; cases s1; simp)+

lemma runs_mark:
  "Psi None (Applied_update (\<lambda>l. appendOnce l f) s) [] \<Longrightarrow> runs s (mark_applied f) Psi"
  "Psi None (Deleted_update (\<lambda>l. appendOnce l f) s) [] \<Longrightarrow> runs s (mark_deleted f) Psi"
  unfolding mark_applied_def mark_deleted_def
  by (auto intro!: runs_bind runs_modify runs_return)

definition pair_spec ::
    "string \<Rightarrow> fields_request \<Rightarrow> pair \<Rightarrow> vmfields \<Rightarrow> gerror option \<Rightarrow> vmfields \<Rightarrow> event list \<Rightarrow> bool" where
  "pair_spec node q p s r s1 es \<longleftrightarrow>
     gated (guarded_write node q) es \<and> list_all remote es \<and> vf_current s1 = vf_current s \<and> Deleted s1 = Deleted s \<and>
     (\<forall>e \<in> set es. write_accepted e \<longrightarrow> pair_done node (fr_vmid q) p e) \<and>
     (if already (vf_current s) p then es = [] \<and> r = None \<and> Applied s1 = Applied s
      else if r = None then Applied s1 = appendOnce (Applied s) (pr_field p) \<and> list_ex (pair_done node (fr_vmid q) p) es
      else Applied s1 = Applied s \<and> \<not> list_ex (pair_done node (fr_vmid q) p) es)"

lemma traces_SetVMConfigField_root:
  "RootOnlyFields field \<Longrightarrow> traces (SetVMConfigField env t vmid field val)
     (\<lambda>r es. list_all (only_ssh (set_command vmid field val)) es \<and>
        (r = None \<longleftrightarrow> list_ex (ssh_ran_ok (set_command vmid field val)) es))"
  by (simp add: SetVMConfigField_def traces_setViaSSH)

lemma traces_DeleteVMConfigField_root:
  "RootOnlyFields field \<Longrightarrow> traces (DeleteVMConfigField env t vmid field)
     (\<lambda>r es. list_all (only_ssh (delete_command vmid field)) es \<and>
        (r = None \<longleftrightarrow> list_ex (ssh_ran_ok (delete_command vmid field)) es))"
  by (simp add: DeleteVMConfigField_def traces_deleteViaSSH)

lemma guarded_write_ssh:
  "p \<in> set (fr_pairs q) \<Longrightarrow> RootOnlyFields (pr_field p) \<or> refused_before node (fr_vmid q) (pr_field p) (pr_value p) pre \<Longrightarrow>
     guarded_write node q pre (ESsh (set_command (fr_vmid q) (pr_field p) (pr_value p)) a)"
  "f \<in> set (fr_deletes q) \<Longrightarrow> RootOnlyFields f \<or> refused_before node (fr_vmid q) ''delete'' f pre \<Longrightarrow>
     guarded_write node q pre (ESsh (delete_command (fr_vmid q) f) a)"
  unfolding guarded_write_def excused_ssh_def by blast+

lemma runs_apply_pair:
  assumes p: "p \<in> set (fr_pairs q)"
  shows "runs s (apply_pair env t (fr_vmid q) p) (pair_spec (tg_node t) q p s)"
  unfolding apply_pair_def
proof (rule runs_bind, rule runs_get, rule runs_if, goal_cases)
  case 1
  then show ?case by (auto intro!: runs_return simp: pair_spec_def gated_no_write)
next
  case new: 2
  let ?f = "pr_field p" and ?v = "pr_value p" and ?id = "fr_vmid q"
  let ?cfg = "qemu_path (tg_node t) ?id ''/config''"
  show ?case
  proof (rule runs_if, goal_cases)
    case root: 1
    have ssh: "gated (guarded_write (tg_node t) q) es \<and> list_all remote es \<and>
        (\<forall>e \<in> set es. write_accepted e \<longrightarrow> pair_done (tg_node t) ?id p e)"
      if "list_all (only_ssh (set_command ?id ?f ?v)) es" for es
      using that unfolding pair_done_def
      by (blast intro: gated_only_ssh guarded_write_ssh(1) [OF p] only_ssh_remote root ssh_accepted_done)
    show ?case
    proof (rule runs_bind, rule runs_traces [OF traces_SetVMConfigField_root [OF root] frames_routed_writes(3)],
        rule runs_case_option, goal_cases)
      case (1 r s1 es)
      with ssh [of es] new show ?case
        by (intro runs_mark) (simp add: pair_spec_def more_fields [OF 1(2)] pair_done_def ssh_done_iff)
    next
      case (2 r s1 es e)
      with ssh [of es] new show ?case
        by (intro runs_return) (simp add: pair_spec_def more_fields [OF 2(2)] pair_done_def ssh_done_iff)
    qed
  next
    case rest: 2
    show ?case
    proof (rule runs_bind, rule runs_traces [OF traces_readConfig frames_readConfig], rule runs_case_sum, goal_cases)
      case (1 rd s1 es e)
      with new show ?case
        by (auto intro!: runs_return gated_reads simp: pair_spec_def more_fields [OF 1(2)] reads_def remote_def pair_done_def)
    next
      case (2 rd s1 es snap)
      then obtain a0 where es: "es = [EHttp GET ?cfg [] a0]" and snap: "parse_config ?id (raw_result a0) = Inr snap"
        by auto
      have put: "guarded_write (tg_node t) q es (EHttp PUT ?cfg (cas_form ?f ?v (sn_digest snap)) a)" for a
        using p snap unfolding guarded_write_def guarded_put_def guarded_form_def es by fastforce
      have out: "gated (guarded_write (tg_node t) q) (es @ fs) \<and> list_all remote (es @ fs) \<and>
          (list_ex (pair_done (tg_node t) ?id p) (es @ fs) \<longleftrightarrow> ok) \<and>
          (\<forall>e \<in> set (es @ fs). write_accepted e \<longrightarrow> pair_done (tg_node t) ?id p e)"
        if "cas_outcome (tg_node t) ?cfg (cas_form ?f ?v (sn_digest snap)) (set_command ?id ?f ?v) ok fs" for ok fs
        using cas_outcome_gated [where G = "guarded_write (tg_node t) q" and before = es, OF that _ put guarded_write_ssh(1) [OF p disjI2]]
          cas_outcome_done [OF that parse_config_digest [OF snap]]
          cas_outcome_accepted [OF that parse_config_digest [OF snap]]
        by (simp add: es remote_def pair_done_def)
      show ?case
      proof (rule runs_cas_or_ssh [where cmd = "set_command ?id ?f ?v", OF traces_cas_set [OF rest] frames_routed_writes(4) _ frames_routed_writes(1)], goal_cases)
        case 1
        show ?case unfolding SetVMConfigFieldOverSSH_def by (rule traces_setViaSSH)
      next
        case (2 s2 fs)
        with out [OF 2(2)] new show ?case
          by (intro runs_mark) (simp add: pair_spec_def more_fields [OF 2(1)] more_fields [OF \<open>sess.more s1 = sess.more s\<close>])
      next
        case (3 s2 fs E)
        with out [OF 3(2)] new show ?case
          by (simp add: pair_spec_def more_fields [OF 3(1)] more_fields [OF \<open>sess.more s1 = sess.more s\<close>])
      qed
    qed
  qed
qed


text \<open>The key is found gone by the config read that ends the events.\<close>

definition gone_before :: "string \<Rightarrow> int \<Rightarrow> string \<Rightarrow> event list \<Rightarrow> bool" where
  "gone_before node vmid f es \<longleftrightarrow>
     (\<exists>a snap. EHttp GET (qemu_path node vmid ''/config'') [] a \<in> set es \<and>
        parse_config vmid (raw_result a) = Inr snap \<and> map_of (sn_fields snap) f = None)"

definition delete_spec ::
    "string \<Rightarrow> fields_request \<Rightarrow> string \<Rightarrow> vmfields \<Rightarrow> gerror option \<Rightarrow> vmfields \<Rightarrow> event list \<Rightarrow> bool" where
  "delete_spec node q f s r s1 es \<longleftrightarrow>
     gated (guarded_write node q) es \<and> list_all remote es \<and> vf_current s1 = vf_current s \<and> Applied s1 = Applied s \<and>
     (\<forall>e \<in> set es. write_accepted e \<longrightarrow> delete_done node (fr_vmid q) f e) \<and>
     (Deleted s1 = Deleted s \<and> \<not> list_ex (delete_done node (fr_vmid q) f) es \<and>
        (map_of (vf_current s) f = None \<longrightarrow> es = [] \<and> r = None) \<and>
        (map_of (vf_current s) f \<noteq> None \<longrightarrow> r = None \<longrightarrow> gone_before node (fr_vmid q) f es) \<or>
      r = None \<and> Deleted s1 = appendOnce (Deleted s) f \<and> list_ex (delete_done node (fr_vmid q) f) es)"

lemma runs_apply_delete:
  assumes f: "f \<in> set (fr_deletes q)"
  shows "runs s (apply_delete env t (fr_vmid q) f) (delete_spec (tg_node t) q f s)"
  unfolding apply_delete_def
proof (rule runs_bind, rule runs_get, rule runs_if, goal_cases)
  case 1
  then show ?case by (auto intro!: runs_return simp: delete_spec_def gated_no_write)
next
  case new: 2
  let ?id = "fr_vmid q"
  let ?cfg = "qemu_path (tg_node t) ?id ''/config''"
  show ?case
  proof (rule runs_if, goal_cases)
    case root: 1
    have ssh: "gated (guarded_write (tg_node t) q) es \<and> list_all remote es \<and>
        (\<forall>e \<in> set es. write_accepted e \<longrightarrow> delete_done (tg_node t) ?id f e)"
      if "list_all (only_ssh (delete_command ?id f)) es" for es
      using that unfolding delete_done_def
      by (blast intro: gated_only_ssh guarded_write_ssh(2) [OF f] only_ssh_remote root ssh_accepted_done)
    show ?case
    proof (rule runs_bind, rule runs_traces [OF traces_DeleteVMConfigField_root [OF root] frames_routed_writes(5)],
        rule runs_case_option, goal_cases)
      case (1 r s1 es)
      with ssh [of es] new show ?case
        by (intro runs_mark) (simp add: delete_spec_def more_fields [OF 1(2)] delete_done_def ssh_done_iff)
    next
      case (2 r s1 es e)
      with ssh [of es] new show ?case
        by (intro runs_return) (simp add: delete_spec_def more_fields [OF 2(2)] delete_done_def ssh_done_iff)
    qed
  next
    case rest: 2
    show ?case
    proof (rule runs_bind, rule runs_traces [OF traces_readConfig frames_readConfig], rule runs_case_sum, goal_cases)
      case (1 rd s1 es e)
      with new show ?case
        by (auto intro!: runs_return gated_reads simp: delete_spec_def more_fields [OF 1(2)] reads_def remote_def delete_done_def)
    next
      case (2 rd s1 es snap)
      then obtain a0 where es: "es = [EHttp GET ?cfg [] a0]" and snap: "parse_config ?id (raw_result a0) = Inr snap"
        by auto
      show ?case
      proof (rule runs_if, goal_cases)
        case 1
        then have "gone_before (tg_node t) ?id f es" using snap by (simp add: gone_before_def es)
        with new show ?case
          by (auto intro!: runs_return gated_reads simp: delete_spec_def more_fields [OF 2(2)] reads_def remote_def delete_done_def es)
      next
        case there: 2
        have put: "guarded_write (tg_node t) q es (EHttp PUT ?cfg (cas_form ''delete'' f (sn_digest snap)) a)" for a
          using f snap there unfolding guarded_write_def guarded_put_def guarded_form_def es by fastforce
        have out: "gated (guarded_write (tg_node t) q) (es @ fs) \<and> list_all remote (es @ fs) \<and>
            (list_ex (delete_done (tg_node t) ?id f) (es @ fs) \<longleftrightarrow> ok) \<and>
            (\<forall>e \<in> set (es @ fs). write_accepted e \<longrightarrow> delete_done (tg_node t) ?id f e)"
          if "cas_outcome (tg_node t) ?cfg (cas_form ''delete'' f (sn_digest snap)) (delete_command ?id f) ok fs" for ok fs
          using cas_outcome_gated [where G = "guarded_write (tg_node t) q" and before = es, OF that _ put guarded_write_ssh(2) [OF f disjI2]]
            cas_outcome_done [OF that parse_config_digest [OF snap]]
            cas_outcome_accepted [OF that parse_config_digest [OF snap]]
          by (simp add: es remote_def delete_done_def)
        show ?case
        proof (rule runs_cas_or_ssh [where cmd = "delete_command ?id f", OF traces_cas_delete [OF rest] frames_routed_writes(6) _ frames_routed_writes(2)], goal_cases)
          case 1
          show ?case unfolding DeleteVMConfigFieldOverSSH_def by (rule traces_deleteViaSSH)
        next
          case (2 s2 fs)
          with out [OF 2(2)] new show ?case
            by (intro runs_mark) (simp add: delete_spec_def more_fields [OF 2(1)] more_fields [OF \<open>sess.more s1 = sess.more s\<close>])
        next
          case (3 s2 fs E)
          with out [OF 3(2)] new show ?case
            by (simp add: delete_spec_def more_fields [OF 3(1)] more_fields [OF \<open>sess.more s1 = sess.more s\<close>])
        qed
      qed
    qed
  qed
qed


section \<open>The two loops\<close>

lemma set_appendOnce: "set (appendOnce l x) = insert x (set l)"
  by (auto simp: appendOnce_def)

lemma set_foldl_appendOnce: "set (foldl appendOnce l xs) = set l \<union> set xs"
  by (induction xs arbitrary: l) (auto simp: set_appendOnce)

lemma pair_spec_recorded:
  assumes "pair_spec node q p s r s1 es" and "e \<in> set es" and "write_accepted e"
  shows "pair_done node (fr_vmid q) p e \<and> pr_field p \<in> set (Applied s1)"
proof -
  have wrote: "pair_done node (fr_vmid q) p e" using assms by (simp add: pair_spec_def)
  with assms(2) have "list_ex (pair_done node (fr_vmid q) p) es" by (auto simp: list_ex_iff)
  with assms(1,2) have "Applied s1 = appendOnce (Applied s) (pr_field p)"
    by (auto simp: pair_spec_def split: if_splits)
  with wrote show ?thesis by (simp add: set_appendOnce)
qed

lemma delete_spec_recorded:
  assumes "delete_spec node q f s r s1 es" and "e \<in> set es" and "write_accepted e"
  shows "delete_done node (fr_vmid q) f e \<and> f \<in> set (Deleted s1)"
proof -
  have wrote: "delete_done node (fr_vmid q) f e" using assms by (simp add: delete_spec_def)
  with assms(2) have "list_ex (delete_done node (fr_vmid q) f) es" by (auto simp: list_ex_iff)
  with assms(1) have "Deleted s1 = appendOnce (Deleted s) f" by (auto simp: delete_spec_def)
  with wrote show ?thesis by (simp add: set_appendOnce)
qed

definition pairs_spec ::
    "string \<Rightarrow> fields_request \<Rightarrow> pair list \<Rightarrow> vmfields \<Rightarrow> gerror option \<Rightarrow> vmfields \<Rightarrow> event list \<Rightarrow> bool" where
  "pairs_spec node q ps s r s1 es \<longleftrightarrow>
     gated (guarded_write node q) es \<and> list_all remote es \<and> vf_current s1 = vf_current s \<and> Deleted s1 = Deleted s \<and>
     (\<forall>e \<in> set es. write_accepted e \<longrightarrow>
        (\<exists>p \<in> set ps. pair_done node (fr_vmid q) p e \<and> pr_field p \<in> set (Applied s1))) \<and>
     (\<exists>n \<le> length ps. (r = None \<longleftrightarrow> n = length ps) \<and>
        (\<forall>p \<in> set (take n ps). already (vf_current s) p \<or> list_ex (pair_done node (fr_vmid q) p) es) \<and>
        Applied s1 = foldl appendOnce (Applied s)
          (map pr_field (filter (\<lambda>p. \<not> already (vf_current s) p) (take n ps))))"

lemma runs_pairs:
  "set ps \<subseteq> set (fr_pairs q) \<Longrightarrow>
     runs s (until_error (apply_pair env t (fr_vmid q)) ps) (pairs_spec (tg_node t) q ps s)"
proof (induction ps arbitrary: s)
  case Nil
  show ?case by (auto intro!: runs_return simp: pairs_spec_def gated_no_write)
next
  case (Cons p ps)
  then have p: "p \<in> set (fr_pairs q)" by simp
  show ?case
    unfolding until_error.simps
  proof (rule runs_bind, rule runs_mono [OF runs_apply_pair [OF p]], rule runs_case_option, goal_cases)
    case (1 r s1 es)
    from Cons have "runs s1 (until_error (apply_pair env t (fr_vmid q)) ps) (pairs_spec (tg_node t) q ps s1)" by simp
    then show ?case
    proof (rule runs_mono)
      fix r2 s2 fs
      assume "pairs_spec (tg_node t) q ps s1 r2 s2 fs"
      with 1 obtain n where n: "n \<le> length ps" "r2 = None \<longleftrightarrow> n = length ps"
        "\<forall>p \<in> set (take n ps). already (vf_current s) p \<or> list_ex (pair_done (tg_node t) (fr_vmid q) p) fs"
        "Applied s2 = foldl appendOnce (Applied s1) (map pr_field (filter (\<lambda>p. \<not> already (vf_current s) p) (take n ps)))"
        and rest: "gated (guarded_write (tg_node t) q) fs" "list_all remote fs" "vf_current s2 = vf_current s" "Deleted s2 = Deleted s"
        and kept: "\<forall>e \<in> set fs. write_accepted e \<longrightarrow>
          (\<exists>p \<in> set ps. pair_done (tg_node t) (fr_vmid q) p e \<and> pr_field p \<in> set (Applied s2))"
        by (auto simp: pairs_spec_def pair_spec_def)
      have "\<forall>e \<in> set (es @ fs). write_accepted e \<longrightarrow>
          (\<exists>p \<in> set (p # ps). pair_done (tg_node t) (fr_vmid q) p e \<and> pr_field p \<in> set (Applied s2))"
        using kept pair_spec_recorded [OF 1(1)] by (auto simp: n(4) set_foldl_appendOnce)
      moreover
      from n 1 have "\<exists>m \<le> length (p # ps). (r2 = None \<longleftrightarrow> m = length (p # ps)) \<and>
        (\<forall>p \<in> set (take m (p # ps)). already (vf_current s) p \<or> list_ex (pair_done (tg_node t) (fr_vmid q) p) (es @ fs)) \<and>
        Applied s2 = foldl appendOnce (Applied s) (map pr_field (filter (\<lambda>p. \<not> already (vf_current s) p) (take m (p # ps))))"
        by (intro exI [of _ "Suc n"]) (auto simp: pair_spec_def split: if_splits)
      moreover have "gated (guarded_write (tg_node t) q) (es @ fs)"
        using 1 rest by (auto intro: gated_append [OF looks_back_guarded_write] simp: pair_spec_def)
      ultimately show "pairs_spec (tg_node t) q (p # ps) s r2 s2 (es @ fs)"
        using 1 rest unfolding pairs_spec_def by (simp add: pair_spec_def)
    qed
  next
    case (2 r s1 es e)
    then have "\<forall>e \<in> set es. write_accepted e \<longrightarrow>
        (\<exists>p \<in> set (p # ps). pair_done (tg_node t) (fr_vmid q) p e \<and> pr_field p \<in> set (Applied s1))"
      by (auto dest: pair_spec_recorded)
    with 2 show ?case
      by (intro runs_return) (auto simp: pairs_spec_def pair_spec_def split: if_splits)
  qed
qed

definition deletes_spec ::
    "string \<Rightarrow> fields_request \<Rightarrow> string list \<Rightarrow> vmfields \<Rightarrow> gerror option \<Rightarrow> vmfields \<Rightarrow> event list \<Rightarrow> bool" where
  "deletes_spec node q ks s r s1 es \<longleftrightarrow>
     gated (guarded_write node q) es \<and> list_all remote es \<and> vf_current s1 = vf_current s \<and> Applied s1 = Applied s \<and>
     (\<forall>e \<in> set es. write_accepted e \<longrightarrow>
        (\<exists>f \<in> set ks. delete_done node (fr_vmid q) f e \<and> f \<in> set (Deleted s1))) \<and>
     (r = None \<longrightarrow> (\<forall>f \<in> set ks. map_of (vf_current s) f = None \<or> gone_before node (fr_vmid q) f es \<or>
        f \<in> set (Deleted s1) \<and> list_ex (delete_done node (fr_vmid q) f) es)) \<and>
     (\<exists>ds. subseq ds ks \<and> Deleted s1 = foldl appendOnce (Deleted s) ds \<and>
        (\<forall>f \<in> set ds. list_ex (delete_done node (fr_vmid q) f) es))"

lemma distinct_foldl_appendOnce: "distinct (foldl appendOnce l xs) \<longleftrightarrow> distinct l"
proof (induction xs arbitrary: l)
  case (Cons x xs)
  have "distinct (appendOnce l x) \<longleftrightarrow> distinct l" by (auto simp: appendOnce_def)
  with Cons show ?case by simp
qed simp

lemma gone_before_append:
  "gone_before node vmid f es \<Longrightarrow> gone_before node vmid f (es @ fs)"
  "gone_before node vmid f fs \<Longrightarrow> gone_before node vmid f (es @ fs)"
  by (auto simp: gone_before_def)

lemma runs_deletes:
  "set ks \<subseteq> set (fr_deletes q) \<Longrightarrow>
     runs s (until_error (apply_delete env t (fr_vmid q)) ks) (deletes_spec (tg_node t) q ks s)"
proof (induction ks arbitrary: s)
  case Nil
  show ?case by (auto intro!: runs_return simp: deletes_spec_def gated_no_write)
next
  case (Cons f ks)
  then have f: "f \<in> set (fr_deletes q)" by simp
  let ?done = "\<lambda>f es. list_ex (delete_done (tg_node t) (fr_vmid q) f) es"
  let ?gone = "gone_before (tg_node t) (fr_vmid q)"
  show ?case
    unfolding until_error.simps
  proof (rule runs_bind, rule runs_mono [OF runs_apply_delete [OF f]], rule runs_case_option, goal_cases)
    case (1 r s1 es)
    from Cons have "runs s1 (until_error (apply_delete env t (fr_vmid q)) ks) (deletes_spec (tg_node t) q ks s1)" by simp
    then show ?case
    proof (rule runs_mono)
      fix r2 s2 fs
      assume "deletes_spec (tg_node t) q ks s1 r2 s2 fs"
      with 1 obtain ds where ds: "subseq ds ks" "Deleted s2 = foldl appendOnce (Deleted s1) ds" "\<forall>f \<in> set ds. ?done f fs"
        and all: "r2 = None \<longrightarrow> (\<forall>f \<in> set ks. map_of (vf_current s) f = None \<or> ?gone f fs \<or> f \<in> set (Deleted s2) \<and> ?done f fs)"
        and rest: "gated (guarded_write (tg_node t) q) fs" "list_all remote fs" "vf_current s2 = vf_current s" "Applied s2 = Applied s"
        and kept: "\<forall>e \<in> set fs. write_accepted e \<longrightarrow>
          (\<exists>f \<in> set ks. delete_done (tg_node t) (fr_vmid q) f e \<and> f \<in> set (Deleted s2))"
        by (auto simp: deletes_spec_def delete_spec_def)
      have "\<forall>e \<in> set (es @ fs). write_accepted e \<longrightarrow>
          (\<exists>f \<in> set (f # ks). delete_done (tg_node t) (fr_vmid q) f e \<and> f \<in> set (Deleted s2))"
        using kept delete_spec_recorded [OF 1(1)] by (auto simp: ds(2) set_foldl_appendOnce)
      moreover
      from 1 have first: "Deleted s1 = Deleted s \<and> (map_of (vf_current s) f = None \<or> ?gone f es) \<or>
          Deleted s1 = appendOnce (Deleted s) f \<and> ?done f es"
        by (auto simp: delete_spec_def)
      have "\<exists>ds. subseq ds (f # ks) \<and> Deleted s2 = foldl appendOnce (Deleted s) ds \<and> (\<forall>f \<in> set ds. ?done f (es @ fs))"
        using first
      proof
        assume "Deleted s1 = Deleted s \<and> (map_of (vf_current s) f = None \<or> ?gone f es)"
        with ds show ?thesis by (intro exI [of _ ds]) (auto intro: list_emb_Cons)
      next
        assume "Deleted s1 = appendOnce (Deleted s) f \<and> ?done f es"
        with ds show ?thesis by (intro exI [of _ "f # ds"]) auto
      qed
      moreover have "r2 = None \<longrightarrow> (\<forall>k \<in> set (f # ks). map_of (vf_current s) k = None \<or> ?gone k (es @ fs) \<or>
          k \<in> set (Deleted s2) \<and> ?done k (es @ fs))"
        using first all ds(2) by (auto intro: gone_before_append simp: set_foldl_appendOnce set_appendOnce)
      moreover have "gated (guarded_write (tg_node t) q) (es @ fs)"
        using 1 rest by (auto intro: gated_append [OF looks_back_guarded_write] simp: delete_spec_def)
      ultimately show "deletes_spec (tg_node t) q (f # ks) s r2 s2 (es @ fs)"
        using 1 rest unfolding deletes_spec_def by (simp add: delete_spec_def)
    qed
  next
    case (2 r s1 es e)
    then have "Deleted s1 = Deleted s" "\<forall>e \<in> set es. \<not> write_accepted e"
      by (auto simp: delete_spec_def list_ex_iff)
    with 2 show ?case
      by (intro runs_return) (auto simp: deletes_spec_def delete_spec_def intro!: exI [of _ "[]"])
  qed
qed


section \<open>Apply, and the operation\<close>

definition apply_spec ::
    "string \<Rightarrow> fields_request \<Rightarrow> vmfields \<Rightarrow> gerror option \<Rightarrow> vmfields \<Rightarrow> event list \<Rightarrow> bool" where
  "apply_spec node q s r s1 es \<longleftrightarrow>
     gated (guarded_write node q) es \<and> list_all remote es \<and>
     (\<forall>f \<in> set (Applied s1). f \<in> set (Applied s) \<or>
        (\<exists>p \<in> set (fr_pairs q). pr_field p = f \<and> list_ex (pair_done node (fr_vmid q) p) es)) \<and>
     (\<forall>f \<in> set (Deleted s1). f \<in> set (Deleted s) \<or>
        f \<in> set (fr_deletes q) \<and> list_ex (delete_done node (fr_vmid q) f) es) \<and>
     (\<forall>e \<in> set es. write_accepted e \<longrightarrow>
        (\<exists>p \<in> set (fr_pairs q). pair_done node (fr_vmid q) p e \<and> pr_field p \<in> set (Applied s1)) \<or>
        (\<exists>f \<in> set (fr_deletes q). delete_done node (fr_vmid q) f e \<and> f \<in> set (Deleted s1))) \<and>
     set (Applied s) \<subseteq> set (Applied s1) \<and> set (Deleted s) \<subseteq> set (Deleted s1) \<and>
     (distinct (Applied s) \<longrightarrow> distinct (Applied s1)) \<and> (distinct (Deleted s) \<longrightarrow> distinct (Deleted s1)) \<and>
     (r = None \<longrightarrow> VMFieldsEnsure_Validate q = None \<and>
        (\<forall>p \<in> set (fr_pairs q). already (vf_current s) p \<or>
           pr_field p \<in> set (Applied s1) \<and> list_ex (pair_done node (fr_vmid q) p) es) \<and>
        (\<forall>f \<in> set (fr_deletes q). map_of (vf_current s) f = None \<or> gone_before node (fr_vmid q) f es \<or>
           f \<in> set (Deleted s1) \<and> list_ex (delete_done node (fr_vmid q) f) es))"

lemma runs_VMFieldsEnsure_Apply:
  "runs s (VMFieldsEnsure_Apply env t q) (apply_spec (tg_node t) q s)"
  unfolding VMFieldsEnsure_Apply_def
proof (rule runs_case_option, goal_cases)
  case 1
  show ?case
  proof (rule runs_bind, rule runs_mono [OF runs_pairs [OF order.refl]], rule runs_case_option, goal_cases)
    case (1 r s1 es)
    then have pairs: "\<forall>p \<in> set (fr_pairs q). already (vf_current s) p \<or> list_ex (pair_done (tg_node t) (fr_vmid q) p) es"
      "Applied s1 = foldl appendOnce (Applied s) (map pr_field (filter (\<lambda>p. \<not> already (vf_current s) p) (fr_pairs q)))"
      by (auto simp: pairs_spec_def)
    show ?case
    proof (rule runs_mono [OF runs_deletes [OF order.refl]])
      fix r2 s2 fs
      assume d: "deletes_spec (tg_node t) q (fr_deletes q) s1 r2 s2 fs"
      then obtain ds where ds: "subseq ds (fr_deletes q)" "Deleted s2 = foldl appendOnce (Deleted s1) ds"
        "\<forall>f \<in> set ds. list_ex (delete_done (tg_node t) (fr_vmid q) f) fs"
        by (auto simp: deletes_spec_def)
      have "gated (guarded_write (tg_node t) q) (es @ fs)"
        using 1 d by (auto intro: gated_append [OF looks_back_guarded_write] simp: pairs_spec_def deletes_spec_def)
      moreover have "\<forall>f \<in> set ds. f \<in> set (fr_deletes q)" using ds(1) by (auto dest: list_emb_set)
      ultimately show "apply_spec (tg_node t) q s r2 s2 (es @ fs)"
        using 1 d pairs ds \<open>VMFieldsEnsure_Validate q = None\<close>
        unfolding apply_spec_def pairs_spec_def deletes_spec_def
        by (auto simp: set_foldl_appendOnce distinct_foldl_appendOnce intro: gone_before_append)
    qed
  next
    case (2 r s1 es e)
    then obtain n where n: "n \<le> length (fr_pairs q)"
      "\<forall>p \<in> set (take n (fr_pairs q)). already (vf_current s) p \<or> list_ex (pair_done (tg_node t) (fr_vmid q) p) es"
      "Applied s1 = foldl appendOnce (Applied s) (map pr_field (filter (\<lambda>p. \<not> already (vf_current s) p) (take n (fr_pairs q))))"
      by (auto simp: pairs_spec_def)
    then have "\<forall>f \<in> set (Applied s1). f \<in> set (Applied s) \<or>
        (\<exists>p \<in> set (fr_pairs q). pr_field p = f \<and> list_ex (pair_done (tg_node t) (fr_vmid q) p) es)"
      by (fastforce simp: set_foldl_appendOnce dest: in_set_takeD)
    with 2 n(3) show ?case
      by (intro runs_return) (simp add: apply_spec_def pairs_spec_def set_foldl_appendOnce distinct_foldl_appendOnce)
  qed
next
  case (2 e)
  then show ?case by (auto intro!: runs_return simp: apply_spec_def gated_no_write)
qed

text \<open>A read that returned, and the value it returned.\<close>

definition fields_read :: "string \<Rightarrow> fields_request \<Rightarrow> string gomap \<Rightarrow> event list \<Rightarrow> bool" where
  "fields_read node q c es \<longleftrightarrow>
     (\<exists>a snap. es = [EHttp GET (qemu_path node (fr_vmid q) ''/config'') [] a] \<and>
        parse_config (fr_vmid q) (raw_result a) = Inr snap \<and>
        collect_current (fr_vmid q) (sn_fields snap) [] (map pr_field (fr_pairs q) @ fr_deletes q) = Inr c)"

lemma traces_VMFieldsEnsure_Read:
  "traces (VMFieldsEnsure_Read env t q)
     (\<lambda>r es. list_all reads es \<and> (\<forall>c. r = Inr c \<longrightarrow> fields_read (tg_node t) q c es))"
  unfolding VMFieldsEnsure_Read_def
proof (rule traces_bind [OF traces_readConfig], rule traces_case_sum, goal_cases)
  case (1 r es e)
  then show ?case by (auto intro!: traces_return simp: reads_def)
next
  case (2 r es snap)
  then obtain a where "es = [EHttp GET (qemu_path (tg_node t) (fr_vmid q) ''/config'') [] a]"
    "parse_config (fr_vmid q) (raw_result a) = Inr snap" by metis
  then show ?case
    by (cases "collect_current (fr_vmid q) (sn_fields snap) [] (map pr_field (fr_pairs q) @ fr_deletes q)")
      (auto intro!: traces_return traces_bind [OF traces_modify] simp: reads_def fields_read_def)
qed

lemma emits_readChanges [emits_intro]: "emits reads (readChanges env t vmid lst what)"
  unfolding readChanges_def by (intro emits_intro) (simp add: reads_def)

lemma emits_checkCloudInit [emits_intro]: "emits reads (checkCloudInit env t vmid w d pw pd)"
  unfolding checkCloudInit_def Let_def by (intro emits_intro)

lemma emits_PostApply [emits_intro]: "emits reads (PostApply env t q)"
  unfolding PostApply_def resetFindings_def by (intro emits_intro emits_get) simp_all

lemma emits_PostNoop [emits_intro]: "emits reads (PostNoop env t q)"
  unfolding PostNoop_def resetFindings_def by (intro emits_intro emits_get) simp_all

interpretation vmfields_op: op_contract "VMFieldsEnsure env t q"
    "\<lambda>_ es. gated (guarded_write (tg_node t) q) es \<and> list_all remote es" "fields_read (tg_node t) q"
    "VMFieldsEnsure_Satisfied q"
  for env t q
proof unfold_locales
  show "traces (op_Apply (VMFieldsEnsure env t q)) (\<lambda>_ es. gated (guarded_write (tg_node t) q) es \<and> list_all remote es)"
    unfolding VMFieldsEnsure_def op.simps
    by (rule traces_runs, rule runs_mono [OF runs_VMFieldsEnsure_Apply]) (auto simp: apply_spec_def)
qed (use traces_VMFieldsEnsure_Read emits_PostApply emits_PostNoop in \<open>auto simp: VMFieldsEnsure_def\<close>)


section \<open>Properties of the batch\<close>

text \<open>
  C2: every write of a run of \<open>vm set\<close> is one that the request asks for, and either a PUT that
  carries the digest of the config read right before it (for a delete, a read that showed the key),
  or an SSH command for a root-only field or one whose guarded PUT was refused before.
\<close>

theorem VMFields_run_guarded:
  assumes "run_state (Run env rp key (VMFieldsEnsure env t q) force) s = (res, s')"
  shows "\<exists>es. log s' = log s @ es \<and>
           (\<forall>pre e post. es = pre @ e # post \<and> is_write e \<longrightarrow> guarded_write (tg_node t) q pre e)"
  using vmfields_op.Run_gated [OF looks_back_guarded_write _ assms] unfolding gated_def by blast

text \<open>
  C22: what \<open>Apply\<close> records is what it did, whether it succeeds or fails midway.  A field newly in
  \<open>Applied\<close> is one of the requested pairs, and a write of that pair was accepted; likewise for
  \<open>Deleted\<close>.  Conversely, every write that was accepted, on any path, is the write of a requested pair
  in \<open>Applied\<close> or of a requested delete in \<open>Deleted\<close>.  Nothing recorded earlier is lost, and nothing is
  recorded twice.  On success every pair was equal before or is recorded, and every key to
  delete was absent before, found gone by a fresh read, or is recorded.
\<close>

theorem VMFields_Apply_accurate:
  assumes "run_state (VMFieldsEnsure_Apply env t q) s = (r, s')"
  shows "\<exists>es. log s' = log s @ es \<and>
     (\<forall>f \<in> set (Applied s') - set (Applied s).
        \<exists>p \<in> set (fr_pairs q). pr_field p = f \<and> list_ex (pair_done (tg_node t) (fr_vmid q) p) es) \<and>
     (\<forall>f \<in> set (Deleted s') - set (Deleted s).
        f \<in> set (fr_deletes q) \<and> list_ex (delete_done (tg_node t) (fr_vmid q) f) es) \<and>
     (\<forall>e \<in> set es. write_accepted e \<longrightarrow>
        (\<exists>p \<in> set (fr_pairs q). pair_done (tg_node t) (fr_vmid q) p e \<and> pr_field p \<in> set (Applied s')) \<or>
        (\<exists>f \<in> set (fr_deletes q). delete_done (tg_node t) (fr_vmid q) f e \<and> f \<in> set (Deleted s'))) \<and>
     set (Applied s) \<subseteq> set (Applied s') \<and> set (Deleted s) \<subseteq> set (Deleted s') \<and>
     (distinct (Applied s) \<and> distinct (Deleted s) \<longrightarrow> distinct (Applied s') \<and> distinct (Deleted s')) \<and>
     (r = None \<longrightarrow>
        (\<forall>p \<in> set (fr_pairs q). already (vf_current s) p \<or>
           pr_field p \<in> set (Applied s') \<and> list_ex (pair_done (tg_node t) (fr_vmid q) p) es) \<and>
        (\<forall>f \<in> set (fr_deletes q). map_of (vf_current s) f = None \<or> gone_before (tg_node t) (fr_vmid q) f es \<or>
           f \<in> set (Deleted s') \<and> list_ex (delete_done (tg_node t) (fr_vmid q) f) es))"
proof -
  obtain es where "log s' = log s @ es" "apply_spec (tg_node t) q s r s' es"
    using runsD [OF runs_VMFieldsEnsure_Apply assms] by blast
  then show ?thesis unfolding apply_spec_def by (intro exI [of _ es]) auto
qed

lemma collect_current_spec:
  "collect_current vmid flds cur ks = Inr c \<Longrightarrow>
     (\<forall>k. if k \<in> set ks \<and> map_of flds k \<noteq> None
          then \<exists>raw v. map_of flds k = Some raw \<and> Scalar raw = Inr v \<and> map_of c k = Some v
          else map_of c k = map_of cur k)"
proof (induction ks arbitrary: cur)
  case (Cons f fs)
  show ?case
  proof (cases "map_of flds f")
    case None
    with Cons.prems have "collect_current vmid flds cur fs = Inr c" by simp
    from Cons.IH [OF this] None show ?thesis by (metis set_ConsD list.set_intros(2))
  next
    case (Some raw)
    with Cons.prems obtain v where v: "Scalar raw = Inr v"
      and rest: "collect_current vmid flds (AList.update f v cur) fs = Inr c"
      by (auto split: sum.splits)
    from Cons.IH [OF rest] Some v show ?thesis
      by (auto simp: update_conv' split: if_splits)
  qed
qed simp

text \<open>
  A run of \<open>vm set\<close> that reports no change saw, in a config it read from PVE under the lock, every
  requested field present with an equal value, and none of the keys to delete.
\<close>

theorem VMFields_noop_was_there:
  assumes "run_state (Run env rp key (VMFieldsEnsure env t q) force) s = (Inr x, s')"
    and "\<not> Changed x"
  shows "\<exists>es a snap. log s' = log s @ es \<and>
     EHttp GET (qemu_path (tg_node t) (fr_vmid q) ''/config'') [] a \<in> set es \<and>
     parse_config (fr_vmid q) (raw_result a) = Inr snap \<and>
     (\<forall>p \<in> set (fr_pairs q). \<exists>raw v. map_of (sn_fields snap) (pr_field p) = Some raw \<and>
        Scalar raw = Inr v \<and> fieldsEqual v (pr_value p)) \<and>
     (\<forall>f \<in> set (fr_deletes q). map_of (sn_fields snap) f = None)"
proof -
  obtain es pre mid post where es: "log s' = log s @ es" "es = pre @ mid @ post"
    and sat: "VMFieldsEnsure_Satisfied q (Before x)" and rd: "fields_read (tg_node t) q (Before x) mid"
    using vmfields_op.Run_success [OF assms(1)] assms(2) by auto
  from rd obtain a snap where a: "mid = [EHttp GET (qemu_path (tg_node t) (fr_vmid q) ''/config'') [] a]"
    and snap: "parse_config (fr_vmid q) (raw_result a) = Inr snap"
    and cur: "collect_current (fr_vmid q) (sn_fields snap) [] (map pr_field (fr_pairs q) @ fr_deletes q) = Inr (Before x)"
    unfolding fields_read_def by blast
  note spec = collect_current_spec [OF cur]
  have "\<exists>raw v. map_of (sn_fields snap) (pr_field p) = Some raw \<and> Scalar raw = Inr v \<and> fieldsEqual v (pr_value p)"
    if "p \<in> set (fr_pairs q)" for p
    using spec [rule_format, of "pr_field p"] sat that
    by (auto simp: VMFieldsEnsure_Satisfied_def list_all_iff already_def split: if_splits option.splits)
  moreover have "map_of (sn_fields snap) f = None" if "f \<in> set (fr_deletes q)" for f
    using spec [rule_format, of f] sat that
    by (auto simp: VMFieldsEnsure_Satisfied_def list_all_iff split: if_splits)
  ultimately show ?thesis
    using es a snap by (intro exI [of _ es] exI [of _ a] exI [of _ snap]) auto
qed

lemma validate_pairs_ok:
  "validate_pairs vmid seen ps = Inr seen' \<longleftrightarrow>
     distinct (map pr_field ps) \<and> set (map pr_field ps) \<inter> set seen = {} \<and> seen' = rev (map pr_field ps) @ seen"
  by (induction ps arbitrary: seen) auto

lemma validate_deletes_ok:
  "validate_deletes vmid seen deleted fs = None \<longleftrightarrow>
     [] \<notin> set fs \<and> distinct fs \<and> set fs \<inter> (set seen \<union> set deleted) = {}"
  by (induction fs arbitrary: deleted) auto

text \<open>
  A request is accepted exactly when its vmid is positive, it names something to do, no key is
  named twice, and no key to delete is empty.
\<close>

theorem VMFields_Validate_iff:
  "VMFieldsEnsure_Validate q = None \<longleftrightarrow>
     fr_vmid q > 0 \<and> \<not> (fr_pairs q = [] \<and> fr_deletes q = []) \<and>
     distinct (map pr_field (fr_pairs q) @ fr_deletes q) \<and> [] \<notin> set (fr_deletes q)"
proof (cases "validate_pairs (fr_vmid q) [] (fr_pairs q)")
  case (Inl e)
  then have "\<not> distinct (map pr_field (fr_pairs q))"
    using validate_pairs_ok [of "fr_vmid q" "[]" "fr_pairs q"] by auto
  with Inl show ?thesis by (auto simp: VMFieldsEnsure_Validate_def)
next
  case (Inr seen)
  then have "distinct (map pr_field (fr_pairs q))" "seen = rev (map pr_field (fr_pairs q))"
    using validate_pairs_ok [of "fr_vmid q" "[]" "fr_pairs q" seen] by simp_all
  with Inr show ?thesis
    by (auto simp: VMFieldsEnsure_Validate_def validate_deletes_ok)
qed


section \<open>The pending lists\<close>

text \<open>A list entry as the decoding accepts it: the key, whether it is a removal, whether it has a pending value.\<close>

definition entry_ok :: "json \<Rightarrow> string \<Rightarrow> bool \<Rightarrow> bool \<Rightarrow> bool" where
  "entry_ok x k removal pend \<longleftrightarrow>
     (\<exists>e raw. unmarshal_map x = Some (True, e) \<and> map_of e ''key'' = Some raw \<and> unmarshal_string raw = Some k \<and> k \<noteq> [] \<and>
        (case map_of e ''delete'' of
           None \<Rightarrow> \<not> removal
         | Some d \<Rightarrow> \<exists>n. unmarshal_int d = Some n \<and> 0 \<le> n \<and> n \<le> 2 \<and> (removal \<longleftrightarrow> n > 0)) \<and>
        (pend \<longleftrightarrow> map_of e ''pending'' \<noteq> None))"

lemma decode_entries_error:
  "decode_entries lst i p d es = Inl e \<Longrightarrow> errors_Is e ErrUnverifiableRead"
  by (induction lst i p d es rule: decode_entries.induct)
    (auto split: option.splits if_splits)

lemma decode_entries_sound:
  "decode_entries lst i p0 d0 (map (\<lambda>x. the (unmarshal_map x)) xs) = Inr (p, d) \<Longrightarrow>
     list_all (\<lambda>x. unmarshal_map x \<noteq> None) xs \<Longrightarrow>
     (\<forall>x \<in> set xs. \<exists>k removal pend. entry_ok x k removal pend) \<and>
     set d = set d0 \<union> {k. \<exists>x \<in> set xs. \<exists>pend. entry_ok x k True pend} \<and>
     set p = set p0 \<union> {k. \<exists>x \<in> set xs. entry_ok x k False True}"
proof (induction xs arbitrary: i p0 d0)
  case (Cons x xs)
  obtain notnil e where x: "unmarshal_map x = Some (notnil, e)" using Cons.prems(2) by auto
  with Cons.prems(1) have notnil: "notnil" by (auto split: if_splits)
  with x Cons.prems(1) obtain raw k where key: "map_of e ''key'' = Some raw" "unmarshal_string raw = Some k" "k \<noteq> []"
    by (auto split: option.splits if_splits)
  let ?pend = "map_of e ''pending'' \<noteq> None"
  obtain removal where removal: "case map_of e ''delete'' of None \<Rightarrow> \<not> removal
         | Some d \<Rightarrow> \<exists>n. unmarshal_int d = Some n \<and> 0 \<le> n \<and> n \<le> 2 \<and> (removal \<longleftrightarrow> n > 0)"
    and rest: "decode_entries lst (i + 1) (if \<not> removal \<and> ?pend then k # p0 else p0) (if removal then k # d0 else d0)
      (map (\<lambda>x. the (unmarshal_map x)) xs) = Inr (p, d)"
  proof (cases "map_of e ''delete''")
    case None
    with Cons.prems(1) x notnil key show thesis by (intro that [of False]) auto
  next
    case (Some dj)
    with Cons.prems(1) x notnil key obtain n where "unmarshal_int dj = Some n" "0 \<le> n" "n \<le> 2"
      by (auto split: option.splits if_splits)
    with Some Cons.prems(1) x notnil key show thesis by (intro that [of "n > 0"]) (auto split: if_splits)
  qed
  have entry: "entry_ok x k' r' p' \<longleftrightarrow> k' = k \<and> r' = removal \<and> p' = ?pend" for k' r' p'
    using x notnil key removal by (auto simp: entry_ok_def split: option.splits)
  then have ok: "entry_ok x k removal ?pend" by blast
  have "\<forall>y \<in> set (x # xs). \<exists>k removal pend. entry_ok y k removal pend"
    using Cons.IH [OF rest] Cons.prems(2) ok by simp blast
  with Cons.IH [OF rest] Cons.prems(2) show ?case
    by (intro conjI) (auto simp: entry split: if_splits)
qed simp

text \<open>
  The strict decoding of a list of changes.  Whatever it refuses is an unverifiable read; what it
  accepts is a JSON array of objects with a key and a removal flag of 0, 1 or 2, and the two lists it
  returns hold exactly the keys with a removal, and those without one that have a pending value.
\<close>

theorem decodeChanges_strict:
  "case decodeChanges raw lst of
     Inl e \<Rightarrow> errors_Is e ErrUnverifiableRead
   | Inr (p, d) \<Rightarrow> \<exists>t xs. raw = JArr t xs \<and> (\<forall>x \<in> set xs. \<exists>k removal pend. entry_ok x k removal pend) \<and>
       set d = {k. \<exists>x \<in> set xs. \<exists>pend. entry_ok x k True pend} \<and>
       set p = {k. \<exists>x \<in> set xs. entry_ok x k False True}"
proof (cases "decodeChanges raw lst")
  case (Inl e)
  then show ?thesis
    by (auto simp: decodeChanges_def dest: decode_entries_error split: json.splits if_splits)
next
  case (Inr pd)
  obtain p d where pd: "pd = (p, d)" by force
  with Inr obtain t xs where raw: "raw = JArr t xs" "list_all (\<lambda>x. unmarshal_map x \<noteq> None) xs"
    "decode_entries lst 0 [] [] (map (\<lambda>x. the (unmarshal_map x)) xs) = Inr (p, d)"
    by (auto simp: decodeChanges_def split: json.splits if_splits)
  from decode_entries_sound [OF raw(3,2)] raw(1) show ?thesis unfolding Inr pd by simp
qed


lemma traces_readChanges:
  "traces (readChanges env t vmid lst what)
     (\<lambda>r es. \<exists>a. es = [EHttp GET (qemu_path (tg_node t) vmid (''/'' @ lst)) [] a] \<and>
        (case r of Inl e \<Rightarrow> \<not> (\<exists>c. e = CloudInitCheckError c)
         | Inr c \<Rightarrow> \<exists>raw. raw_result a = Inr raw \<and> decodeChanges raw lst = Inr c))"
proof -
  obtain rest where "qemu_path (tg_node t) vmid (''/'' @ lst) = CHR ''/'' # rest" using qemu_path_slash by blast
  from traces_RawRequest_sent [OF this] show ?thesis
    unfolding readChanges_def
    by (rule traces_bind) (auto intro!: traces_return simp: vf_error_def split: sum.splits)
qed

lemma frames_readChanges [frames_intro]: "frames (readChanges env t vmid lst what)"
  unfolding readChanges_def by (intro frames_intro)

lemma traces_checkCloudInit:
  "traces (checkCloudInit env t vmid writes deletes pw pd)
     (\<lambda>r es. list_all reads es \<and> (case r of
         Inl e \<Rightarrow> \<exists>c. e = CloudInitCheckError c
       | Inr (w, d) \<Rightarrow> set w \<subseteq> {f \<in> set writes. isCloudInitKey f \<and> f \<notin> set pw} \<and>
           set d \<subseteq> {f \<in> set deletes. isCloudInitKey f \<and> f \<notin> set pd}))"
  unfolding checkCloudInit_def Let_def
proof (rule traces_if, goal_cases)
  case 2
  show ?case
    by (rule traces_bind [OF traces_readChanges])
      (auto intro!: traces_return simp: reads_def pick_def split: sum.splits)
qed (auto intro!: traces_return)

lemma frames_checkCloudInit [frames_intro]: "frames (checkCloudInit env t vmid w d pw pd)"
  unfolding checkCloudInit_def Let_def by (intro frames_intro)

definition post_spec ::
    "string \<Rightarrow> fields_request \<Rightarrow> vmfields \<Rightarrow> gerror option \<Rightarrow> vmfields \<Rightarrow> event list \<Rightarrow> bool" where
  "post_spec node q s r s1 es \<longleftrightarrow>
     list_all reads es \<and> Applied s1 = Applied s \<and> Deleted s1 = Deleted s \<and>
     (\<not> Wrote s \<longrightarrow> es = [] \<and> r = None) \<and>
     set (Pending s1) \<subseteq> set (Applied s) \<and> set (PendingDeletes s1) \<subseteq> set (Deleted s) \<and>
     set (AlreadyPending s1) \<subseteq> set (requestedFields q) - set (Applied s) \<and>
     set (AlreadyPendingDeletes s1) \<subseteq> set (fr_deletes q) - set (Deleted s) \<and>
     set (CloudInitStale s1) \<subseteq> {f \<in> set (Applied s) - set (Pending s1). isCloudInitKey f} \<and>
     set (CloudInitStaleDeletes s1) \<subseteq> {f \<in> set (Deleted s) - set (PendingDeletes s1). isCloudInitKey f} \<and>
     AlreadyCloudInitStale s1 = [] \<and> AlreadyCloudInitStaleDeletes s1 = [] \<and>
     (Wrote s \<longrightarrow> (r = None \<or> (\<exists>c. r = Some (CloudInitCheckError c))) \<longrightarrow>
        (\<exists>a raw p d. EHttp GET (qemu_path node (fr_vmid q) ''/pending'') [] a \<in> set es \<and>
           raw_result a = Inr raw \<and> decodeChanges raw ''pending'' = Inr (p, d) \<and>
           Pending s1 = filter (\<lambda>f. f \<in> set p) (Applied s) \<and>
           PendingDeletes s1 = filter (\<lambda>f. f \<in> set d) (Deleted s)))"


lemma more_findings:
  assumes "sess.more s1 = sess.more (s :: vmfields)"
  shows "Pending s1 = Pending s" "PendingDeletes s1 = PendingDeletes s"
    "AlreadyPending s1 = AlreadyPending s" "AlreadyPendingDeletes s1 = AlreadyPendingDeletes s"
    "CloudInitStale s1 = CloudInitStale s" "CloudInitStaleDeletes s1 = CloudInitStaleDeletes s"
    "AlreadyCloudInitStale s1 = AlreadyCloudInitStale s" "AlreadyCloudInitStaleDeletes s1 = AlreadyCloudInitStaleDeletes s"
  using assms by (cases s; cases s1; simp)+

lemma runs_PostApply: "runs s (PostApply env t q) (post_spec (tg_node t) q s)"
  unfolding PostApply_def
proof (rule runs_bind, rule runs_modify, goal_cases)
  case 1
  show ?case by (simp add: resetFindings_def)
next
  case 2
  show ?case
  proof (rule runs_bind, rule runs_get, rule runs_if, goal_cases)
    case 1
    then show ?case by (intro runs_return) (simp add: post_spec_def resetFindings_def Wrote_def)
  next
    case wrote: 2
    let ?s0 = "resetFindings s"
    have s0: "Applied ?s0 = Applied s" "Deleted ?s0 = Deleted s" by (simp_all add: resetFindings_def)
    from wrote have "Wrote s" by (simp add: resetFindings_def Wrote_def)
    show ?case
    proof (rule runs_bind, rule runs_traces [OF traces_readChanges frames_readChanges], rule runs_case_sum, goal_cases)
      case (1 r s1 es e)
      then show ?case
        using \<open>Wrote s\<close>
        by (intro runs_return) (auto simp: post_spec_def more_fields [OF 1(2)] more_findings [OF 1(2)] s0 reads_def,
          auto simp: resetFindings_def)
    next
      case (2 r s1 es pd)
      obtain p d where pd: "pd = (p, d)" by force
      with 2 obtain a raw where a: "es = [EHttp GET (qemu_path (tg_node t) (fr_vmid q) ''/pending'') [] a]"
        "raw_result a = Inr raw" "decodeChanges raw ''pending'' = Inr (p, d)" by auto
      let ?s2 = "s1\<lparr>Pending := pick (Applied s1) p, PendingDeletes := pick (Deleted s1) d,
        AlreadyPending := pick (without (requestedFields q) (Applied s1)) p,
        AlreadyPendingDeletes := pick (without (fr_deletes q) (Deleted s1)) d\<rparr>"
      note s1 = more_fields [OF 2(2)] more_findings [OF 2(2)]
      show ?case
        unfolding pd prod.case
      proof (rule runs_bind, rule runs_modify, simp, rule runs_bind, rule runs_modify, simp, rule runs_bind,
          rule runs_modify, simp, rule runs_bind, rule runs_get, rule runs_bind,
          rule runs_traces [OF traces_checkCloudInit frames_checkCloudInit], rule runs_case_sum, goal_cases)
        case (1 c s3 fs e)
        note s3 = more_fields [OF 1(2)] more_findings [OF 1(2)]
        from 1 a \<open>Wrote s\<close> show ?case
          by (intro runs_bind runs_modify runs_return)
            (auto simp: post_spec_def s3 s1 s0 pick_def without_def reads_def, auto simp: resetFindings_def)
      next
        case (2 c s3 fs sd)
        note s3 = more_fields [OF 2(2)] more_findings [OF 2(2)]
        from 2 a \<open>Wrote s\<close> show ?case
          by (cases sd)
            (auto intro!: runs_bind runs_modify runs_return
              simp: post_spec_def s3 s1 s0 pick_def without_def reads_def, auto simp: resetFindings_def)
      qed
    qed
  qed
qed


text \<open>
  The check after a write reports only what this run did.  A pending field or delete is one it
  applied, the stale fields are applied cloud-init fields that are not pending, what it lists as
  already pending is requested and not applied by it; a run that wrote nothing sends nothing; and
  unless reading the pending list failed, the pending findings are exactly the applied fields and
  deletes that PVE's pending list holds.
\<close>

theorem PostApply_own_changes:
  assumes "run_state (PostApply env t q) s = (r, s')"
  shows "\<exists>es. log s' = log s @ es \<and> list_all reads es \<and> (\<not> Wrote s \<longrightarrow> es = []) \<and>
     Applied s' = Applied s \<and> Deleted s' = Deleted s \<and>
     set (Pending s') \<subseteq> set (Applied s) \<and> set (PendingDeletes s') \<subseteq> set (Deleted s) \<and>
     set (AlreadyPending s') \<subseteq> set (requestedFields q) - set (Applied s) \<and>
     set (AlreadyPendingDeletes s') \<subseteq> set (fr_deletes q) - set (Deleted s) \<and>
     set (CloudInitStale s') \<subseteq> {f \<in> set (Applied s) - set (Pending s'). isCloudInitKey f} \<and>
     set (CloudInitStaleDeletes s') \<subseteq> {f \<in> set (Deleted s) - set (PendingDeletes s'). isCloudInitKey f} \<and>
     (Wrote s \<and> (r = None \<or> (\<exists>c. r = Some (CloudInitCheckError c))) \<longrightarrow>
        (\<exists>a raw p d. EHttp GET (qemu_path (tg_node t) (fr_vmid q) ''/pending'') [] a \<in> set es \<and>
           raw_result a = Inr raw \<and> decodeChanges raw ''pending'' = Inr (p, d) \<and>
           Pending s' = filter (\<lambda>f. f \<in> set p) (Applied s) \<and>
           PendingDeletes s' = filter (\<lambda>f. f \<in> set d) (Deleted s)))"
proof -
  obtain es where "log s' = log s @ es" "post_spec (tg_node t) q s r s' es"
    using runsD [OF runs_PostApply assms] by blast
  then show ?thesis unfolding post_spec_def by (intro exI [of _ es]) blast
qed


section \<open>Examples\<close>

text \<open>A VM whose config holds one field, and whose pending list holds that field.\<close>

definition config_answer :: http_reply where
  "config_answer = HAnswer 200 ''200 OK'' ''{..}'' (Some (JObj ''{..}'' [(''data'',
     JObj ''{..}'' [(''digest'', JStr ''d1''), (''memory'', JNum ''512'')])]))"

definition pending_list :: json where
  "pending_list = JArr ''[..]'' [JObj ''{..}'' [(''key'', JStr ''memory''), (''pending'', JNum ''1024'')]]"

definition pending_answer :: http_reply where
  "pending_answer = HAnswer 200 ''200 OK'' ''{..}'' (Some (JObj ''{..}'' [(''data'', pending_list)]))"

definition config_world :: env where
  "config_world = calm\<lparr>e_http := \<lambda>h m p f.
     if m \<noteq> GET then HAnswer 200 ''200 OK'' ''{}'' (Some (JObj ''{}'' []))
     else if p = qemu_path ''pve1'' 100 ''/pending'' then pending_answer else config_answer\<rparr>"

definition memory_request :: "string \<Rightarrow> fields_request" where
  "memory_request v = \<lparr>fr_vmid = 100, fr_pairs = [\<lparr>pr_field = ''memory'', pr_value = v\<rparr>], fr_deletes = []\<rparr>"

definition vf_fresh :: vmfields where
  "vf_fresh = \<lparr>log = [], ssh_open = False, vf_current = [], Applied = [], Deleted = [], Pending = [],
     PendingDeletes = [], CloudInitStale = [], CloudInitStaleDeletes = [], AlreadyPending = [],
     AlreadyPendingDeletes = [], AlreadyCloudInitStale = [], AlreadyCloudInitStaleDeletes = []\<rparr>"

definition memory_snapshot :: config_snapshot where
  "memory_snapshot = \<lparr>sn_fields = [(''digest'', JStr ''d1''), (''memory'', JNum ''512'')], sn_digest = ''d1''\<rparr>"

lemma config_answer_parsed: "parse_config 100 (raw_result config_answer) = Inr memory_snapshot"
  by code_simp

lemma pending_answer_decoded:
  "raw_result pending_answer = Inr pending_list" "decodeChanges pending_list ''pending'' = Inr ([''memory''], [])"
  by code_simp+

lemma config_path_apart: "qemu_path ''pve1'' 100 ''/config'' \<noteq> qemu_path ''pve1'' 100 ''/pending''"
  by (simp add: qemu_path_def)

lemma run_readConfig_world:
  "run_state (readConfig config_world demo_target 100) s =
     (Inr memory_snapshot, s\<lparr>log := log s @ [EHttp GET (qemu_path ''pve1'' 100 ''/config'') [] config_answer]\<rparr>)"
proof -
  obtain rest where "qemu_path ''pve1'' 100 ''/config'' = CHR ''/'' # rest" using qemu_path_slash by blast
  then show ?thesis
    using config_path_apart config_answer_parsed
    by (simp add: readConfig_def RawRequest_def http_do_def run_simps demo_target_def config_world_def strings_HasPrefix_def)
qed


lemma memory_plain: "\<not> RootOnlyFields ''memory''" "tg_node demo_target = ''pve1''"
  by (simp_all add: RootOnlyFields_def demo_target_def)

lemma config_world_put:
  "e_http config_world h PUT p f = HAnswer 200 ''200 OK'' ''{}'' (Some (JObj ''{}'' []))"
  by (simp add: config_world_def)

lemma run_cas_world:
  "run_state (SetVMConfigFieldCAS config_world demo_target 100 ''memory'' v d) s =
     (None, s\<lparr>log := log s @ [EHttp PUT (qemu_path ''pve1'' 100 ''/config'') (cas_form ''memory'' v d)
        (HAnswer 200 ''200 OK'' ''{}'' (Some (JObj ''{}'' [])))]\<rparr>)"
  using memory_plain by (simp add: run_SetVMConfigFieldCAS Let_def config_world_put put_result_def)

lemma run_Apply_world:
  assumes "\<not> already (vf_current s) \<lparr>pr_field = ''memory'', pr_value = v\<rparr>"
  shows "fst (run_state (VMFieldsEnsure_Apply config_world demo_target (memory_request v)) s) = None \<and>
         Applied (snd (run_state (VMFieldsEnsure_Apply config_world demo_target (memory_request v)) s)) =
           appendOnce (Applied s) ''memory''"
  using assms memory_plain
  by (simp add: run_cas_world VMFieldsEnsure_Apply_def VMFieldsEnsure_Validate_def memory_request_def apply_pair_def
      State_Monad.get_def run_readConfig_world memory_snapshot_def mark_applied_def run_modify Let_def
      config_world_put put_result_def)

theorem VMFields_Apply_accurate_witness:
  "list_ex (pair_done ''pve1'' 100 \<lparr>pr_field = ''memory'', pr_value = ''1024''\<rparr>)
     (log (snd (run_state (VMFieldsEnsure_Apply config_world demo_target (memory_request ''1024'')) vf_fresh)))"
proof -
  have "\<not> already (vf_current vf_fresh) \<lparr>pr_field = ''memory'', pr_value = ''1024''\<rparr>"
    by (simp add: already_def vf_fresh_def)
  from run_Apply_world [OF this] have "''memory'' \<in> set (Applied (snd (run_state
      (VMFieldsEnsure_Apply config_world demo_target (memory_request ''1024'')) vf_fresh)))"
    by (simp add: set_appendOnce)
  with VMFields_Apply_accurate [OF surjective_pairing, of config_world demo_target "memory_request ''1024''" vf_fresh]
  show ?thesis by (auto simp: memory_request_def vf_fresh_def memory_plain)
qed

theorem decodeChanges_strict_witness:
  "\<exists>t xs. pending_list = JArr t xs \<and> (\<exists>x \<in> set xs. entry_ok x ''memory'' False True)"
proof -
  have "''memory'' \<in> set [''memory'']" by simp
  with decodeChanges_strict [of pending_list "''pending''"] show ?thesis
    unfolding pending_answer_decoded sum.case prod.case by blast
qed

theorem PostApply_own_changes_witness:
  "set (Pending (snd (run_state (PostApply config_world demo_target (memory_request ''1024''))
     (vf_fresh\<lparr>Applied := [''memory'']\<rparr>)))) \<subseteq> {''memory''}"
  using PostApply_own_changes [OF surjective_pairing, of config_world demo_target "memory_request ''1024''"
      "vf_fresh\<lparr>Applied := [''memory'']\<rparr>"]
  by auto

lemma run_Read_world:
  "run_state (VMFieldsEnsure_Read config_world demo_target (memory_request v)) s =
     (Inr [(''memory'', ''512'')],
      s\<lparr>log := log s @ [EHttp GET (qemu_path ''pve1'' 100 ''/config'') [] config_answer], vf_current := [(''memory'', ''512'')]\<rparr>)"
proof -
  have scalar: "Scalar (JNum ''512'') = Inr ''512''" by code_simp
  show ?thesis
    using scalar
    by (simp add: VMFieldsEnsure_Read_def memory_request_def run_readConfig_world memory_snapshot_def run_modify)
qed

lemma run_Mutation_world:
  "\<exists>s1. run_state (Mutation config_world rp demo_key) s = (Inr (kf_resource (filesFor rp demo_key)), s1)"
  by (simp add: Mutation_def ensureLockDir_def acquire_def Let_def primitive_defs run_simps config_world_def)


text \<open>A run that finds the field there, and one that has to write it.\<close>

lemma memory_noop:
  "\<exists>x. fst (run_state (Run config_world rp demo_key (VMFieldsEnsure config_world demo_target (memory_request ''512'')) False) s) = Inr x \<and>
       \<not> Changed x"
proof -
  obtain s1 where mut: "run_state (Mutation config_world rp demo_key) s = (Inr (kf_resource (filesFor rp demo_key)), s1)"
    using run_Mutation_world by blast
  let ?oper = "VMFieldsEnsure config_world demo_target (memory_request ''512'')"
  obtain s2 where rd: "run_state (op_Read ?oper) s1 = (Inr [(''memory'', ''512'')], s2)"
    using run_Read_world by (simp add: VMFieldsEnsure_def)
  have sat: "op_Satisfied ?oper s2 [(''memory'', ''512'')]"
    by (simp add: VMFieldsEnsure_def VMFieldsEnsure_Satisfied_def memory_request_def already_def)
  obtain e s3 where chk: "run_state (run_check demo_key '': no-op check: '' (op_PostNoop ?oper)) s2 = (e, s3)" by force
  from run_attempts_noop [OF rd sat chk, of "maxConflictRetries - 1"] mut show ?thesis
    by (cases "run_state (unlock config_world (kf_resource (filesFor rp demo_key))) s3") (simp add: Run_def)
qed


theorem VMFields_noop_was_there_witness:
  "\<exists>a snap. EHttp GET (qemu_path ''pve1'' 100 ''/config'') [] a \<in>
       set (log (snd (run_state (Run config_world ''roster.yaml'' demo_key
         (VMFieldsEnsure config_world demo_target (memory_request ''512'')) False) vf_fresh))) \<and>
     parse_config 100 (raw_result a) = Inr snap \<and> map_of (sn_fields snap) ''memory'' \<noteq> None"
proof -
  obtain x where "fst (run_state (Run config_world ''roster.yaml'' demo_key
      (VMFieldsEnsure config_world demo_target (memory_request ''512'')) False) vf_fresh) = Inr x" "\<not> Changed x"
    using memory_noop by blast
  then obtain s' where "run_state (Run config_world ''roster.yaml'' demo_key
      (VMFieldsEnsure config_world demo_target (memory_request ''512'')) False) vf_fresh = (Inr x, s')"
    by (metis prod.collapse)
  from VMFields_noop_was_there [OF this \<open>\<not> Changed x\<close>] this show ?thesis
    by (auto simp: memory_request_def memory_plain)
qed


lemma write_done_write: "write_done node vmid param val cmd e \<Longrightarrow> is_write e"
  by (cases "(node, vmid, param, val, cmd, e)" rule: write_done.cases) auto

lemma memory_write:
  "list_ex is_write (log (snd (run_state (Run config_world rp demo_key
     (VMFieldsEnsure config_world demo_target (memory_request ''1024'')) False) vf_fresh)))"
proof -
  let ?q = "memory_request ''1024''"
  let ?oper = "VMFieldsEnsure config_world demo_target ?q"
  obtain s1 where mut: "run_state (Mutation config_world rp demo_key) vf_fresh = (Inr (kf_resource (filesFor rp demo_key)), s1)"
    using run_Mutation_world by blast
  obtain s2 where rd: "run_state (op_Read ?oper) s1 = (Inr [(''memory'', ''512'')], s2)"
    and cur: "vf_current s2 = [(''memory'', ''512'')]"
    using run_Read_world by (simp add: VMFieldsEnsure_def)
  have "\<not> fieldsEqual ''512'' ''1024''" by code_simp
  then have new: "\<not> already (vf_current s2) \<lparr>pr_field = ''memory'', pr_value = ''1024''\<rparr>"
    and unsat: "\<not> op_Satisfied ?oper s2 [(''memory'', ''512'')]"
    by (simp_all add: already_def cur VMFieldsEnsure_def VMFieldsEnsure_Satisfied_def memory_request_def)
  obtain s3 where ap: "run_state (op_Apply ?oper) s2 = (None, s3)"
    using run_Apply_world [OF new] by (metis VMFieldsEnsure_def op.select_convs(3) prod.collapse)
  then obtain es where es: "log s3 = log s2 @ es" "apply_spec (tg_node demo_target) ?q s2 None s3 es"
    using runsD [OF runs_VMFieldsEnsure_Apply, of config_world demo_target ?q s2] by (auto simp: VMFieldsEnsure_def)
  then have "list_ex (pair_done ''pve1'' 100 \<lparr>pr_field = ''memory'', pr_value = ''1024''\<rparr>) es"
    using new by (auto simp: apply_spec_def memory_request_def memory_plain)
  then have sent: "list_ex is_write (log s3)"
    by (auto simp: es(1) pair_done_def list_ex_iff dest: write_done_write)
  obtain a s4 where rr: "run_state (case op_ReRead ?oper of None \<Rightarrow> op_Read ?oper | Some m \<Rightarrow> m) s3 = (a, s4)" by force
  obtain e s5 where chk: "run_state (run_check demo_key '': post-apply check: '' (op_PostApply ?oper)) s4 = (e, s5)" by force
  obtain u s6 where un: "run_state (unlock config_world (kf_resource (filesFor rp demo_key))) s5 = (u, s6)" by force
  obtain x where "run_state (attempts (maxConflictRetries - 1) demo_key ?oper False) s1 = (Inr x, s5)"
    using run_attempts_applied [OF rd disjI2 [OF unsat] ap rr chk] by blast
  with mut un have "snd (run_state (Run config_world rp demo_key ?oper False) vf_fresh) = s6"
    by (simp add: Run_def)
  moreover have "list_ex is_write (log s6)"
    using sent traces_runD [OF vmfields_op.traces_reread rr] traces_runD [OF vmfields_op.traces_check [OF disjI1 [OF refl]] chk]
      traces_runD [OF traces_flock_Unlock un [unfolded unlock_def]] by auto
  ultimately show ?thesis by simp
qed

theorem VMFields_run_guarded_witness:
  "\<exists>pre e post. log (snd (run_state (Run config_world ''roster.yaml'' demo_key
       (VMFieldsEnsure config_world demo_target (memory_request ''1024'')) False) vf_fresh)) = pre @ e # post \<and>
     is_write e \<and> guarded_write ''pve1'' (memory_request ''1024'') pre e"
proof -
  let ?l = "log (snd (run_state (Run config_world ''roster.yaml'' demo_key
       (VMFieldsEnsure config_world demo_target (memory_request ''1024'')) False) vf_fresh))"
  obtain e where "e \<in> set ?l" "is_write e" using memory_write by (auto simp: list_ex_iff)
  then obtain pre post where "?l = pre @ e # post" by (meson split_list)
  with VMFields_run_guarded [OF surjective_pairing, of config_world "''roster.yaml''" demo_key demo_target
      "memory_request ''1024''" False vf_fresh] \<open>is_write e\<close>
  have "guarded_write ''pve1'' (memory_request ''1024'') pre e" by (auto simp: memory_plain vf_fresh_def)
  with \<open>?l = pre @ e # post\<close> \<open>is_write e\<close> show ?thesis by blast
qed

end
