(* ===== verification/VmCreate.thy ===== *)
theory VmCreate
  imports VmDestroy
begin

text \<open>
  \<open>vm create\<close> (\<open>internal/idempotent/vmcreate.go\<close>): the pairing of network and address parameters,
  the create call and its task, and the re-read after it, which tells a VM that PVE does not know
  from a read that failed.  The parameters are a map of form values, whose order stands for Go's
  iteration order.
\<close>

record vmcreate = sess +
  createdMissing :: bool

definition vm_create_error :: "int \<Rightarrow> frag list \<Rightarrow> gerror" where
  "vm_create_error vmid what = Errorf ([Lit ''vm create: vm '', Dec vmid, Lit '': ''] @ what)"

text \<open>The number behind a prefix, as \<open>strconv.Atoi\<close> reads it.\<close>

definition interfaceIndexFromKey :: "string \<Rightarrow> string \<Rightarrow> nat option" where
  "interfaceIndexFromKey key pfx =
     (let rest = strings_TrimPrefix key pfx in
      if rest = key \<or> rest = [] then None
      else if \<not> list_all is_digit rest then None
      else atoi_digits rest)"

fun orphan_ipconfig :: "nat list \<Rightarrow> string list \<Rightarrow> nat option" where
  "orphan_ipconfig nets [] = None"
| "orphan_ipconfig nets (k # ks) =
     (case interfaceIndexFromKey k ''ipconfig'' of
        None \<Rightarrow> orphan_ipconfig nets ks
      | Some n \<Rightarrow> if n \<notin> set nets then Some n else orphan_ipconfig nets ks)"

definition VMCreate_Validate :: "int \<Rightarrow> url_values \<Rightarrow> gerror option" where
  "VMCreate_Validate vmid params =
     (let netIdx = List.map_filter (\<lambda>k. interfaceIndexFromKey k ''net'') (map fst params)
      in case orphan_ipconfig netIdx (map fst params) of
           None \<Rightarrow> None
         | Some n \<Rightarrow> Some (vm_create_error vmid [Lit ''ipconfig'', Dec (int n), Lit '' has no matching net'', Dec (int n)]))"

definition VMCreate_Read :: "env \<Rightarrow> target \<Rightarrow> int \<Rightarrow> ('r sess_scheme, gerror + string) state" where
  "VMCreate_Read env t vmid = do {
     r \<leftarrow> GetVM env t (tg_node t) vmid;
     ret (case r of
         Inl e \<Rightarrow> Inr []
       | Inr v \<Rightarrow> (case marshal_vm env v of
             Inl e \<Rightarrow> Inl (vm_create_error vmid [Lit ''encode current state: '', Wrapped e])
           | Inr b \<Rightarrow> Inr b))
   }"

definition VMCreate_Satisfied :: "string \<Rightarrow> bool" where
  "VMCreate_Satisfied current \<longleftrightarrow> current \<noteq> []"

definition VMCreate_Apply ::
    "env \<Rightarrow> target \<Rightarrow> int \<Rightarrow> url_values \<Rightarrow> ('r sess_scheme, gerror option) state" where
  "VMCreate_Apply env t vmid params =
     (case VMCreate_Validate vmid params of
        Some e \<Rightarrow> ret (Some e)
      | None \<Rightarrow> do {
          u \<leftarrow> CreateVM env t vmid params;
          case u of
            Inl e \<Rightarrow> ret (Some (vm_create_error vmid [Wrapped e]))
          | Inr upid \<Rightarrow> do {
              w \<leftarrow> WaitForTask env (tg_node t) upid;
              case w of
                Some e \<Rightarrow> ret (Some (vm_create_error vmid [Wrapped e]))
              | None \<Rightarrow> ret None
            }
        })"

definition VMCreate_ReRead :: "env \<Rightarrow> target \<Rightarrow> int \<Rightarrow> (vmcreate, gerror + string) state" where
  "VMCreate_ReRead env t vmid = do {
     _ \<leftarrow> modify (createdMissing_update (\<lambda>_. False));
     r \<leftarrow> GetVM env t (tg_node t) vmid;
     case r of
       Inl e \<Rightarrow>
         if isMissingVMError e vmid then do {
           _ \<leftarrow> modify (createdMissing_update (\<lambda>_. True));
           ret (Inr [])
         }
         else ret (Inl (vm_create_error vmid [Wrapped e]))
     | Inr v \<Rightarrow>
         ret (case marshal_vm env v of
             Inl e \<Rightarrow> Inl (vm_create_error vmid [Lit ''encode current state: '', Wrapped e])
           | Inr b \<Rightarrow> Inr b)
   }"

definition VMCreate_PostApply :: "int \<Rightarrow> (vmcreate, gerror option) state" where
  "VMCreate_PostApply vmid = do {
     s \<leftarrow> State_Monad.get;
     ret (if createdMissing s then Some (CreatedNotFoundError vmid) else None)
   }"

definition VMCreate :: "env \<Rightarrow> target \<Rightarrow> int \<Rightarrow> url_values \<Rightarrow> (vmcreate, string) op" where
  "VMCreate env t vmid params =
     \<lparr>op_Read = VMCreate_Read env t vmid, op_Satisfied = (\<lambda>_. VMCreate_Satisfied),
      op_Apply = VMCreate_Apply env t vmid params, op_PostApply = Some (VMCreate_PostApply vmid),
      op_ReRead = Some (VMCreate_ReRead env t vmid), op_PostNoop = None\<rparr>"

section \<open>The pairing of network and address parameters\<close>

lemma orphan_ipconfig_None:
  "orphan_ipconfig nets ks = None \<longleftrightarrow> {n. \<exists>k \<in> set ks. interfaceIndexFromKey k ''ipconfig'' = Some n} \<subseteq> set nets"
  by (induction ks) (auto split: option.splits)

text \<open>
  The parameters are accepted exactly when every index of an address parameter is the index of
  a network parameter.
\<close>

theorem VMCreate_Validate_iff:
  "VMCreate_Validate vmid params = None \<longleftrightarrow>
     {n. \<exists>k \<in> fst ` set params. interfaceIndexFromKey k ''ipconfig'' = Some n} \<subseteq>
     {n. \<exists>k \<in> fst ` set params. interfaceIndexFromKey k ''net'' = Some n}"
proof -
  let ?nets = "List.map_filter (\<lambda>k. interfaceIndexFromKey k ''net'') (map fst params)"
  have nets: "set ?nets = {n. \<exists>k \<in> fst ` set params. interfaceIndexFromKey k ''net'' = Some n}"
    by (force simp: List.map_filter_def)
  have "VMCreate_Validate vmid params = None \<longleftrightarrow> orphan_ipconfig ?nets (map fst params) = None"
    by (simp add: VMCreate_Validate_def Let_def split: option.splits)
  then show ?thesis by (simp only: orphan_ipconfig_None nets set_map)
qed

section \<open>What the steps do\<close>

text \<open>A typed read that found the VM, and the text of its state.\<close>

definition vm_found :: "env \<Rightarrow> string \<Rightarrow> int \<Rightarrow> string \<Rightarrow> event list \<Rightarrow> bool" where
  "vm_found env node vmid b es \<longleftrightarrow>
     (\<exists>st c. es = [EStatus (qemu_path node vmid ''/status/current'') (Inr st),
                   EConfig (qemu_path node vmid ''/config'') (Inr (Some c))] \<and>
        vs_status st \<noteq> [] \<and> e_marshal_vm env st c = Inr b)"

lemma traces_VMCreate_Read:
  "traces (VMCreate_Read env t vmid)
     (\<lambda>r es. list_all reads es \<and> (\<forall>c. r = Inr c \<longrightarrow> c \<noteq> [] \<longrightarrow> vm_found env (tg_node t) vmid c es))"
  unfolding VMCreate_Read_def GetVM_def
  by (rule traces_bind [OF traces_GetVM], rule traces_return)
    (auto simp: vm_found_def marshal_vm_def split: sum.splits option.splits)

text \<open>The create that a successful \<open>Apply\<close> made: a POST of the parameters that started a task which ended well.\<close>

definition created :: "string \<Rightarrow> int \<Rightarrow> url_values \<Rightarrow> event list \<Rightarrow> bool" where
  "created node vmid params es \<longleftrightarrow>
     (\<exists>a u post. es = EHttp POST (''/nodes/'' @ url_PathEscape node @ ''/qemu'')
          (values_Set ''vmid'' (strconv_Itoa vmid) params) a # post \<and>
        list_all reads post \<and> started a u \<and> task_seen_ok u post)"

definition create_spec :: "string \<Rightarrow> int \<Rightarrow> url_values \<Rightarrow> gerror option \<Rightarrow> event list \<Rightarrow> bool" where
  "create_spec node vmid params r es \<longleftrightarrow>
     (es = [] \<or> VMCreate_Validate vmid params = None \<and>
        (\<exists>a post. es = EHttp POST (''/nodes/'' @ url_PathEscape node @ ''/qemu'')
           (values_Set ''vmid'' (strconv_Itoa vmid) params) a # post \<and> list_all reads post)) \<and>
     (r = None \<longrightarrow> created node vmid params es)"

lemma traces_CreateVM:
  "traces (Client_CreateVM env node vmid params)
     (\<lambda>r es. es = [] \<and> (\<exists>e. r = Inl e) \<or>
        (\<exists>a. es = [EHttp POST (''/nodes/'' @ url_PathEscape node @ ''/qemu'') (values_Set ''vmid'' (strconv_Itoa vmid) params) a] \<and>
           (\<forall>u. r = Inr u \<longrightarrow> started a u)))"
  unfolding Client_CreateVM_def by (auto intro!: traces_return traces_mono [OF traces_task_call_started])

lemma traces_VMCreate_Apply: "traces (VMCreate_Apply env t vmid params) (create_spec (tg_node t) vmid params)"
  unfolding VMCreate_Apply_def CreateVM_def
proof (rule traces_case_option, goal_cases)
  case 1
  show ?case
  proof (rule traces_bind [OF traces_CreateVM], rule traces_case_sum, goal_cases)
    case (1 r es e)
    with \<open>VMCreate_Validate vmid params = None\<close> show ?case by (auto intro!: traces_return simp: create_spec_def)
  next
    case (2 r es upid)
    then obtain a where "es = [EHttp POST (''/nodes/'' @ url_PathEscape (tg_node t) @ ''/qemu'')
        (values_Set ''vmid'' (strconv_Itoa vmid) params) a]" "started a upid" by auto
    with \<open>VMCreate_Validate vmid params = None\<close> show ?case
      by (auto intro!: traces_bind [OF traces_WaitForTask_ok] traces_case_option traces_return
          simp: create_spec_def created_def)
  qed
next
  case 2
  then show ?case by (auto intro!: traces_return simp: create_spec_def)
qed

lemma emits_ReRead [emits_intro]: "emits reads (VMCreate_ReRead env t vmid)"
  unfolding VMCreate_ReRead_def by (intro emits_intro) simp_all

lemma emits_VMCreate_PostApply [emits_intro]: "emits P (VMCreate_PostApply vmid)"
  unfolding VMCreate_PostApply_def by (intro emits_intro emits_get)

interpretation vmcreate_op: op_contract "VMCreate env t vmid params" "create_spec (tg_node t) vmid params"
    "\<lambda>c es. c \<noteq> [] \<longrightarrow> vm_found env (tg_node t) vmid c es" VMCreate_Satisfied
  for env t vmid params
  by unfold_locales
    (use traces_VMCreate_Read traces_VMCreate_Apply emits_ReRead emits_VMCreate_PostApply in \<open>auto simp: VMCreate_def\<close>)


section \<open>Properties of the create\<close>

text \<open>
  The only write of a \<open>vm create\<close> run is the create request itself, with the given parameters and
  the vmid, and it is sent only when the parameters are well-formed.
\<close>

theorem VMCreate_only_write:
  assumes "run_state (Run env rp key (VMCreate env t vmid params) force) s = (res, s')"
  shows "\<exists>es. log s' = log s @ es \<and>
     (\<forall>e \<in> set es. is_write e \<longrightarrow> VMCreate_Validate vmid params = None \<and>
        (\<exists>a. e = EHttp POST (''/nodes/'' @ url_PathEscape (tg_node t) @ ''/qemu'')
           (values_Set ''vmid'' (strconv_Itoa vmid) params) a))"
proof -
  let ?G = "\<lambda>pre e. VMCreate_Validate vmid params = None \<and>
        (\<exists>a. e = EHttp POST (''/nodes/'' @ url_PathEscape (tg_node t) @ ''/qemu'')
           (values_Set ''vmid'' (strconv_Itoa vmid) params) a)"
  have looks: "looks_back ?G" by (simp add: looks_back_def)
  have applied: "gated ?G ap" if "create_spec (tg_node t) vmid params r ap" for r ap
  proof (cases ap)
    case Nil
    then show ?thesis by (simp add: gated_no_write)
  next
    case (Cons e post)
    with that have "?G [] e" and "list_all reads post" by (auto simp: create_spec_def)
    then show ?thesis
      unfolding Cons by (intro gated_Cons [OF _ gated_reads])
  qed
  obtain es where "log s' = log s @ es" "gated ?G es"
    using vmcreate_op.Run_gated [OF looks _ assms] applied by blast
  then show ?thesis unfolding gated_def by (metis split_list)
qed

text \<open>
  A run that reports a change made the create: PVE answered the request with a task that was
  seen to end well; a run that reports no change saw a VM with that vmid.
\<close>

theorem VMCreate_success:
  assumes "run_state (Run env rp key (VMCreate env t vmid params) force) s = (Inr x, s')"
  shows "\<exists>pre mid post. log s' = log s @ pre @ mid @ post \<and>
     (if Changed x then created (tg_node t) vmid params mid
      else vm_found env (tg_node t) vmid (Before x) mid)"
proof -
  obtain es pre mid post where es: "log s' = log s @ es" "es = pre @ mid @ post"
    and mid: "if Changed x then create_spec (tg_node t) vmid params None mid
      else VMCreate_Satisfied (Before x) \<and> (Before x \<noteq> [] \<longrightarrow> vm_found env (tg_node t) vmid (Before x) mid)"
    using vmcreate_op.Run_success [OF assms] by blast
  from mid have "if Changed x then created (tg_node t) vmid params mid
      else vm_found env (tg_node t) vmid (Before x) mid"
    by (auto simp: create_spec_def VMCreate_Satisfied_def split: if_splits)
  with es show ?thesis by blast
qed

text \<open>What the re-read makes of the three answers it tells apart.\<close>

lemma run_ReRead_check:
  assumes "run_state (VMCreate_ReRead env t vmid) s = (a, s1)" and "run_state (VMCreate_PostApply vmid) s1 = (p, s2)"
  shows "\<exists>r es. log s2 = log s @ es \<and> called (Client_GetVM env (tg_node t) vmid :: (vmcreate, gerror + vm option) state) r es \<and>
     (case r of
        Inl e \<Rightarrow>
          if isMissingVMError e vmid then a = Inr [] \<and> p = Some (CreatedNotFoundError vmid)
          else a = Inl (vm_create_error vmid [Wrapped e]) \<and> p = None
      | Inr v \<Rightarrow> p = None \<and>
          (case marshal_vm env v of Inr b \<Rightarrow> a = Inr b
           | Inl e \<Rightarrow> a = Inl (vm_create_error vmid [Lit ''encode current state: '', Wrapped e])))"
proof -
  obtain r s0 where gv: "run_state (Client_GetVM env (tg_node t) vmid) (s\<lparr>createdMissing := False\<rparr>) = (r, s0)" by force
  have "frames (Client_GetVM env (tg_node t) vmid)" by (rule frames_GetVM)
  from framesD [OF this gv] have more: "createdMissing s0 = False"
    by (cases s0; cases s) simp
  obtain es where "log s0 = log s @ es" using traces_runD [OF traces_GetVM gv] by auto
  moreover from this gv have "called (Client_GetVM env (tg_node t) vmid :: (vmcreate, gerror + vm option) state) r es"
    unfolding called_def by (intro exI [of _ "s\<lparr>createdMissing := False\<rparr>"] exI [of _ s0]) simp
  ultimately show ?thesis
    using assms gv more
    by (intro exI [of _ r] exI [of _ es])
      (auto simp: VMCreate_ReRead_def VMCreate_PostApply_def GetVM_def run_modify State_Monad.get_def split: sum.splits if_splits)
qed


text \<open>
  C29: how a run that made the create reports what became of it.  Its last request reads the VM once
  more: PVE's answer that the VM does not exist is reported as an error of its own kind, with the
  empty state; any other failure of that read is a re-read error and nothing else; and a VM that is
  there is reported with its state and no error.
\<close>

theorem VMCreate_reports_missing:
  assumes "run_state (Run env rp key (VMCreate env t vmid params) force) s = (Inr x, s')" and "Changed x"
  shows "\<exists>earlier es f u r. log s' = earlier @ es @ [EUnlock f u] \<and>
     called (Client_GetVM env (tg_node t) vmid :: (vmcreate, gerror + vm option) state) r es \<and>
     (case r of
        Inl e \<Rightarrow>
          if isMissingVMError e vmid
          then After x = [] \<and> AfterErr x = None \<and>
               PostApplyErr x = Some (engine_error key '': post-apply check: '' (CreatedNotFoundError vmid))
          else After x = Before x \<and> PostApplyErr x = None \<and>
               AfterErr x = Some (engine_error key '': re-read: '' (vm_create_error vmid [Wrapped e]))
      | Inr v \<Rightarrow> PostApplyErr x = None \<and>
          (case marshal_vm env v of Inr b \<Rightarrow> After x = b \<and> AfterErr x = None | Inl e \<Rightarrow> AfterErr x \<noteq> None))"
proof -
  obtain s3 s5 f u where tail: "reports_after key (VMCreate env t vmid params) x s3 s5" and log: "log s' = log s5 @ [EUnlock f u]"
    using Run_tail [OF assms] by blast
  then obtain a s4 where rr: "run_state (VMCreate_ReRead env t vmid) s3 = (a, s4)"
    and chk: "run_state (run_check key '': post-apply check: '' (Some (VMCreate_PostApply vmid))) s4 = (PostApplyErr x, s5)"
    and after: "After x = (case a of Inr c \<Rightarrow> c | Inl _ \<Rightarrow> Before x)"
      "AfterErr x = (case a of Inr _ \<Rightarrow> None | Inl e \<Rightarrow> Some (engine_error key '': re-read: '' e))"
    by (auto simp: reports_after_def VMCreate_def)
  obtain p s6 where post: "run_state (VMCreate_PostApply vmid) s4 = (p, s6)" by force
  with chk have p: "PostApplyErr x = map_option (engine_error key '': post-apply check: '') p" "s6 = s5"
    by (auto simp: run_check_def)
  from run_ReRead_check [OF rr post] obtain r es where
    "log s5 = log s3 @ es" "called (Client_GetVM env (tg_node t) vmid :: (vmcreate, gerror + vm option) state) r es"
    and "case r of
        Inl e \<Rightarrow>
          if isMissingVMError e vmid then a = Inr [] \<and> p = Some (CreatedNotFoundError vmid)
          else a = Inl (vm_create_error vmid [Wrapped e]) \<and> p = None
      | Inr v \<Rightarrow> p = None \<and>
          (case marshal_vm env v of Inr b \<Rightarrow> a = Inr b
           | Inl e \<Rightarrow> a = Inl (vm_create_error vmid [Lit ''encode current state: '', Wrapped e]))"
    unfolding p(2) by blast
  with log after p(1) show ?thesis
    by (intro exI [of _ "log s3"] exI [of _ es] exI [of _ f] exI [of _ u] exI [of _ r])
      (auto split: sum.splits if_splits)
qed


section \<open>A create that PVE forgets\<close>

text \<open>A world that accepts the create, and then says that the VM does not exist.\<close>

definition forgetful :: env where
  "forgetful = calm\<lparr>e_http := (\<lambda>h m p f. upid_answer),
     e_status := (\<lambda>h p. Inl (ProxmoxStatusError 500 ''500 qemu-server/100.conf does not exist'' ''{}''))\<rparr>"

definition empty_create :: vmcreate where
  "empty_create = \<lparr>log = [], ssh_open = False, createdMissing = False\<rparr>"

definition create_params :: url_values where
  "create_params = [(''net0'', [''virtio'']), (''ipconfig0'', [''ip=dhcp''])]"

lemma forgetful_missing:
  "isMissingVMError (Errorf [Lit ''get vm '', Dec 100, Lit '' status: '',
     Wrapped (ProxmoxStatusError 500 ''500 qemu-server/100.conf does not exist'' ''{}'')]) 100"
  by code_simp

lemma create_params_ok: "VMCreate_Validate 100 create_params = None"
  by (simp add: VMCreate_Validate_def create_params_def Let_def List.map_filter_def interfaceIndexFromKey_def
      strings_TrimPrefix_def atoi_digits_def is_digit_def max_int64_def)

lemma forgetful_GetVM:
  "\<exists>s'. run_state (Client_GetVM forgetful ''pve1'' 100) s =
     (Inl (Errorf [Lit ''get vm '', Dec 100, Lit '' status: '',
        Wrapped (ProxmoxStatusError 500 ''500 qemu-server/100.conf does not exist'' ''{}'')]), s') \<and>
     sess.more s' = sess.more s"
  by (simp add: Client_GetVM_def pc_status_def run_perform forgetful_def)

lemma forgetful_Apply:
  "\<exists>s'. run_state (VMCreate_Apply forgetful demo_target 100 create_params) s = (None, s')"
  by (simp add: VMCreate_Apply_def create_params_ok CreateVM_def Client_CreateVM_def task_call_def RawRequest_def
      strings_HasPrefix_def http_do_def run_perform demo_target_def forgetful_def raw_upid decodeUPIDScalar_def
      run_WaitForTask_calm)

lemma run_create:
  "\<exists>s' x. run_state (Run forgetful ''roster.yaml'' demo_key (VMCreate forgetful demo_target 100 create_params) False)
      empty_create = (Inr x, s') \<and> Changed x \<and> PostApplyErr x \<noteq> None \<and> list_ex is_write (log s')"
proof -
  let ?oper = "VMCreate forgetful demo_target 100 create_params"
  have node: "tg_node demo_target = ''pve1''" by (simp add: demo_target_def)
  obtain s1 where mut: "run_state (Mutation forgetful ''roster.yaml'' demo_key) empty_create =
      (Inr (kf_resource (filesFor ''roster.yaml'' demo_key)), s1)"
    by (simp add: Mutation_def ensureLockDir_def acquire_def Let_def primitive_defs run_simps forgetful_def)
  obtain s2 where rd: "run_state (op_Read ?oper) s1 = (Inr [], s2)"
    using forgetful_GetVM [of s1] by (auto simp: VMCreate_def VMCreate_Read_def GetVM_def node)
  have unsat: "\<not> op_Satisfied ?oper s2 []" by (simp add: VMCreate_def VMCreate_Satisfied_def)
  obtain s3 where ap: "run_state (op_Apply ?oper) s2 = (None, s3)"
    using forgetful_Apply [of s2] by (auto simp: VMCreate_def)
  obtain s4 where rr: "run_state (case op_ReRead ?oper of None \<Rightarrow> op_Read ?oper | Some m \<Rightarrow> m) s3 = (Inr [], s4)"
    and missing: "createdMissing s4"
    using forgetful_GetVM [of "s3\<lparr>createdMissing := False\<rparr>"]
    by (auto simp: VMCreate_def VMCreate_ReRead_def GetVM_def node run_modify forgetful_missing)
  have chk: "run_state (run_check demo_key '': post-apply check: '' (op_PostApply ?oper)) s4 =
      (Some (engine_error demo_key '': post-apply check: '' (CreatedNotFoundError 100)), s4)"
    using missing by (simp add: VMCreate_def run_check_def VMCreate_PostApply_def State_Monad.get_def)
  obtain x where "run_state (attempts (maxConflictRetries - 1) demo_key ?oper False) s1 = (Inr x, s4)" "Changed x"
    "PostApplyErr x \<noteq> None"
    using run_attempts_applied [OF rd disjI2 [OF unsat] ap rr chk] by fastforce
  moreover obtain u s5 where un: "run_state (unlock forgetful (kf_resource (filesFor ''roster.yaml'' demo_key))) s4 = (u, s5)"
    by force
  moreover have "list_ex is_write (log s5)"
    using traces_runD [OF vmcreate_op.Apply_traces ap] traces_runD [OF vmcreate_op.traces_reread rr]
      traces_runD [OF traces_flock_Unlock un [unfolded unlock_def]]
    by (auto simp: create_spec_def created_def)
  ultimately show ?thesis using mut by (simp add: Run_def)
qed

theorem VMCreate_only_write_witness:
  "\<exists>p f a. EHttp POST p f a \<in> set (log (snd (run_state (Run forgetful ''roster.yaml'' demo_key
       (VMCreate forgetful demo_target 100 create_params) False) empty_create))) \<and>
     values_Get f ''vmid'' = ''100''"
proof -
  have "strconv_Itoa 100 = ''100''" by code_simp
  then have vmid: "values_Get (values_Set ''vmid'' (strconv_Itoa 100) ps) ''vmid'' = ''100''" for ps
    by (simp add: values_Get_def values_Set_def update_conv')
  obtain s' x where run: "run_state (Run forgetful ''roster.yaml'' demo_key (VMCreate forgetful demo_target 100 create_params) False)
      empty_create = (Inr x, s')" "list_ex is_write (log s')" using run_create by blast
  then obtain e where e: "e \<in> set (log s')" "is_write e" by (auto simp: list_ex_iff)
  with VMCreate_only_write [OF run(1)] obtain a where
    "e = EHttp POST (''/nodes/'' @ url_PathEscape (tg_node demo_target) @ ''/qemu'')
       (values_Set ''vmid'' (strconv_Itoa 100) create_params) a"
    by (auto simp: empty_create_def)
  with e run(1) vmid show ?thesis by auto
qed

theorem VMCreate_success_witness:
  "\<exists>mid. created ''pve1'' 100 create_params mid"
proof -
  obtain s' x where "run_state (Run forgetful ''roster.yaml'' demo_key (VMCreate forgetful demo_target 100 create_params) False)
      empty_create = (Inr x, s')" "Changed x" using run_create by blast
  from VMCreate_success [OF this(1)] this(2) show ?thesis by (auto simp: demo_target_def)
qed

lemma report_known:
  "(case r of Inl e \<Rightarrow> if M e then A \<and> B \<and> p = Some c else C \<and> p = None \<and> D e | Inr v \<Rightarrow> p = None \<and> Q v) \<Longrightarrow>
     p \<noteq> None \<Longrightarrow> A \<and> B \<and> p = Some c"
  by (cases r) (auto split: if_splits)

theorem VMCreate_reports_missing_witness:
  "\<exists>x. fst (run_state (Run forgetful ''roster.yaml'' demo_key
       (VMCreate forgetful demo_target 100 create_params) False) empty_create) = Inr x \<and>
     After x = [] \<and> AfterErr x = None \<and>
     PostApplyErr x = Some (engine_error demo_key '': post-apply check: '' (CreatedNotFoundError 100))"
proof -
  obtain s' x where run: "run_state (Run forgetful ''roster.yaml'' demo_key (VMCreate forgetful demo_target 100 create_params) False)
      empty_create = (Inr x, s')" "Changed x" "PostApplyErr x \<noteq> None" using run_create by blast
  from VMCreate_reports_missing [OF run(1,2)] have "After x = [] \<and> AfterErr x = None \<and>
     PostApplyErr x = Some (engine_error demo_key '': post-apply check: '' (CreatedNotFoundError 100))"
    by (elim exE conjE) (rule report_known [OF _ run(3)], assumption)
  with run(1) show ?thesis by auto
qed

end
