(* ===== verification/VmClone.thy ===== *)
theory VmClone
  imports VmCreate
begin

text \<open>
  \<open>vm clone\<close> (\<open>internal/idempotent/vmclone.go\<close>): the check of the storage types of every source
  disk that has to pass before a linked clone is requested, and the clone itself.  The number of a
  disk key is read as for the parameters of \<open>vm create\<close>.
\<close>

definition vm_clone_error :: "int \<Rightarrow> int \<Rightarrow> frag list \<Rightarrow> gerror" where
  "vm_clone_error src new what = Errorf ([Lit ''vm clone: vm '', Dec src, Lit '' to '', Dec new, Lit '': ''] @ what)"

record clone_request =
  cl_source :: int
  cl_new :: int
  cl_params :: url_values

section \<open>The disks of the source\<close>

record source_disk =
  sd_key :: string
  sd_storage :: string

definition diskKeyPrefixes :: "string list" where
  "diskKeyPrefixes = [''scsi'', ''virtio'', ''sata'', ''ide'', ''efidisk'', ''tpmstate'', ''unused'']"

definition isDiskKey :: "string \<Rightarrow> bool" where
  "isDiskKey key \<longleftrightarrow> list_ex (\<lambda>p. interfaceIndexFromKey key p \<noteq> None) diskKeyPrefixes"

definition isCDROM :: "string \<Rightarrow> bool" where
  "isCDROM val \<longleftrightarrow> list_ex (\<lambda>opt. strings_TrimSpace opt = ''media=cdrom'') (strings_Split val CHR '','')"

text \<open>The storage of a disk value: what stands before the first colon of the volume.\<close>

definition disk_storage :: "string \<Rightarrow> string option" where
  "disk_storage val =
     (case strings_Cut val CHR '','' of (volume, _, _) \<Rightarrow>
      case strings_Cut volume CHR '':'' of (storage, _, found) \<Rightarrow>
        if \<not> found \<or> storage = [] then None else Some storage)"

fun collect_disks :: "clone_request \<Rightarrow> json gomap \<Rightarrow> string list \<Rightarrow> gerror + source_disk list" where
  "collect_disks q flds [] = Inr []"
| "collect_disks q flds (k # ks) =
     (case map_of flds k of None \<Rightarrow> collect_disks q flds ks
      | Some raw \<Rightarrow>
     (case unmarshal_string raw of
        None \<Rightarrow> Inl (vm_clone_error (cl_source q) (cl_new q) [Lit ''disk '', Lit k, Lit '': unexpected value '',
            Lit (raw_text raw), Lit '': '', Wrapped json_type_error])
      | Some val \<Rightarrow>
          if isCDROM val then collect_disks q flds ks
          else (case disk_storage val of
              None \<Rightarrow> Inl (vm_clone_error (cl_source q) (cl_new q) [Lit ''disk '', Lit k, Lit '' value '', Quo val,
                  Lit ('' has no '' @ [CHR 0x22] @ ''<storage>:'' @ [CHR 0x22] @ '' prefix to resolve a storage type from'')])
            | Some storage \<Rightarrow>
                (case collect_disks q flds ks of
                   Inl e \<Rightarrow> Inl e
                 | Inr ds \<Rightarrow> Inr (\<lparr>sd_key = k, sd_storage = storage\<rparr> # ds)))))"

definition source_disks_of :: "clone_request \<Rightarrow> gerror + json \<Rightarrow> gerror + source_disk list" where
  "source_disks_of q r =
     (case r of
        Inl e \<Rightarrow> Inl (vm_clone_error (cl_source q) (cl_new q) [Lit ''read source config: '', Wrapped e])
      | Inr raw \<Rightarrow>
          (case unmarshal_map raw of
             None \<Rightarrow> Inl (vm_clone_error (cl_source q) (cl_new q) [Lit ''read source config: parse: '', Wrapped json_type_error])
           | Some (notnil, flds) \<Rightarrow>
               if flds = [] then
                 Inl (vm_clone_error (cl_source q) (cl_new q) [Lit ''read source config: pve returned an empty config for the source vm; refusing rather than treating an unreadable config as a vm with no disks''])
               else collect_disks q flds (sort (filter isDiskKey (map fst flds)))))"

definition sourceDisks :: "env \<Rightarrow> target \<Rightarrow> clone_request \<Rightarrow> ('r sess_scheme, gerror + source_disk list) state" where
  "sourceDisks env t q = do {
     r \<leftarrow> RawRequest env GET (qemu_path (tg_node t) (cl_source q) ''/config'') [];
     ret (source_disks_of q r)
   }"

section \<open>The check of the storage types\<close>

definition em_dash :: string where
  "em_dash = [CHR 0xE2, CHR 0x80, CHR 0x94]"

definition type_mismatch :: "clone_request \<Rightarrow> source_disk \<Rightarrow> string \<Rightarrow> string \<Rightarrow> string \<Rightarrow> gerror" where
  "type_mismatch q d sourceType targetStorage targetType =
     (if interfaceIndexFromKey (sd_key d) ''unused'' \<noteq> None then
        vm_clone_error (cl_source q) (cl_new q)
          [Lit ''linked clone requires matching storage types, and '', Lit (sd_key d), Lit ('' '' @ em_dash),
           Lit '' a DETACHED disk still listed in the source vm'', Lit [CHR 0x27], Lit ''s config, not a disk in use '',
           Lit em_dash, Lit '' is '', Quo sourceType, Lit '' (storage '', Quo (sd_storage d), Lit '') while target storage '',
           Quo targetStorage, Lit '' is '', Quo targetType,
           Lit ''. pveforge checks detached disks because whether pve copies them on a clone is not verified; to proceed, either remove '',
           Lit (sd_key d), Lit '' from vm '', Dec (cl_source q),
           Lit '' (pve: Hardware -> select the unused disk -> Remove) or pass full=1 for a full clone'']
      else
        vm_clone_error (cl_source q) (cl_new q)
          [Lit ''linked clone requires matching storage types, but disk '', Lit (sd_key d), Lit '' is '', Quo sourceType,
           Lit '' (storage '', Quo (sd_storage d), Lit '') while target storage '', Quo targetStorage, Lit '' is '', Quo targetType,
           Lit ''; pass full=1 for a full clone across storage types''])"

fun check_disks ::
    "env \<Rightarrow> target \<Rightarrow> clone_request \<Rightarrow> string \<Rightarrow> string \<Rightarrow> string gomap \<Rightarrow> source_disk list \<Rightarrow>
     ('r sess_scheme, gerror option) state" where
  "check_disks env t q targetStorage targetType seen [] = ret None"
| "check_disks env t q targetStorage targetType seen (d # ds) = do {
     r \<leftarrow> (case map_of seen (sd_storage d) of
             Some typ \<Rightarrow> ret (Inr typ)
           | None \<Rightarrow> StorageType env t (tg_node t) (sd_storage d));
     case r of
       Inl e \<Rightarrow> ret (Some (vm_clone_error (cl_source q) (cl_new q)
           [Lit (sd_key d), Lit '': resolve source storage '', Quo (sd_storage d), Lit '': '', Wrapped e]))
     | Inr sourceType \<Rightarrow>
         if sourceType \<noteq> targetType then ret (Some (type_mismatch q d sourceType targetStorage targetType))
         else check_disks env t q targetStorage targetType (AList.update (sd_storage d) sourceType seen) ds
   }"

definition checkLinkedCloneStorage :: "env \<Rightarrow> target \<Rightarrow> clone_request \<Rightarrow> ('r sess_scheme, gerror option) state" where
  "checkLinkedCloneStorage env t q =
     (let targetStorage = values_Get (cl_params q) ''storage'' in
      if targetStorage = [] then ret None
      else do {
        ds \<leftarrow> sourceDisks env t q;
        case ds of
          Inl e \<Rightarrow> ret (Some e)
        | Inr disks \<Rightarrow>
            if disks = [] then ret None
            else do {
              r \<leftarrow> StorageType env t (tg_node t) targetStorage;
              case r of
                Inl e \<Rightarrow> ret (Some (vm_clone_error (cl_source q) (cl_new q)
                    [Lit ''resolve target storage '', Quo targetStorage, Lit '': '', Wrapped e]))
              | Inr targetType \<Rightarrow> check_disks env t q targetStorage targetType [] disks
            }
      })"

section \<open>The operation\<close>

definition VMClone_Read :: "env \<Rightarrow> target \<Rightarrow> clone_request \<Rightarrow> ('r sess_scheme, gerror + string) state" where
  "VMClone_Read env t q = do {
     r \<leftarrow> GetVM env t (tg_node t) (cl_new q);
     ret (case r of
         Inl e \<Rightarrow> Inr []
       | Inr v \<Rightarrow> (case marshal_vm env v of
             Inl e \<Rightarrow> Inl (Errorf [Lit ''vm clone: vm '', Dec (cl_new q), Lit '': encode current state: '', Wrapped e])
           | Inr b \<Rightarrow> Inr b))
   }"

definition VMClone_Satisfied :: "string \<Rightarrow> bool" where
  "VMClone_Satisfied current \<longleftrightarrow> current \<noteq> []"

text \<open>All the values of a parameter.\<close>

definition values_of :: "url_values \<Rightarrow> string \<Rightarrow> string list" where
  "values_of vs k = (case map_of vs k of Some l \<Rightarrow> l | None \<Rightarrow> [])"

definition clone_and_wait :: "env \<Rightarrow> target \<Rightarrow> clone_request \<Rightarrow> ('r sess_scheme, gerror option) state" where
  "clone_and_wait env t q = do {
     u \<leftarrow> CloneVM env t (cl_source q) (cl_new q) (cl_params q);
     case u of
       Inl e \<Rightarrow> ret (Some (vm_clone_error (cl_source q) (cl_new q) [Wrapped e]))
     | Inr upid \<Rightarrow> do {
         w \<leftarrow> WaitForTask env (tg_node t) upid;
         case w of
           Some e \<Rightarrow> ret (Some (vm_clone_error (cl_source q) (cl_new q) [Wrapped e]))
         | None \<Rightarrow> ret None
       }
   }"

definition VMClone_Apply :: "env \<Rightarrow> target \<Rightarrow> clone_request \<Rightarrow> ('r sess_scheme, gerror option) state" where
  "VMClone_Apply env t q =
     (let full = values_of (cl_params q) ''full'' in
      if length full > 1 then
        ret (Some (vm_clone_error (cl_source q) (cl_new q)
          [Quo ''full'', Lit '' specified '', Dec (int (length full)), Lit '' times ('',
           Lit (CHR ''['' # strings_Join full CHR '' '' @ '']''),
           Lit ''); pveforge cannot tell which value PVE would honour, so pass exactly one'']))
      else do {
        checked \<leftarrow> (if values_Get (cl_params q) ''full'' \<noteq> ''1'' then checkLinkedCloneStorage env t q else ret None);
        case checked of
          Some e \<Rightarrow> ret (Some e)
        | None \<Rightarrow> clone_and_wait env t q
      })"

definition VMClone :: "env \<Rightarrow> target \<Rightarrow> clone_request \<Rightarrow> (sess, string) op" where
  "VMClone env t q =
     \<lparr>op_Read = VMClone_Read env t q, op_Satisfied = (\<lambda>_. VMClone_Satisfied),
      op_Apply = VMClone_Apply env t q, op_PostApply = None, op_ReRead = None, op_PostNoop = None\<rparr>"

section \<open>What the check has seen\<close>

definition storage_path :: "string \<Rightarrow> string \<Rightarrow> string" where
  "storage_path node sid = ''/nodes/'' @ url_PathEscape node @ ''/storage/'' @ url_PathEscape sid @ ''/status''"

definition type_seen :: "string \<Rightarrow> string \<Rightarrow> event list \<Rightarrow> bool" where
  "type_seen path typ es \<longleftrightarrow> (\<exists>st. EStorage path (Inr st) \<in> set es \<and> st_type st = typ)"

lemma type_seen_append [simp]: "type_seen p typ (es @ fs) \<longleftrightarrow> type_seen p typ es \<or> type_seen p typ fs"
  by (auto simp: type_seen_def)

lemma traces_StorageType:
  "traces (StorageType env t node sid)
     (\<lambda>r es. list_all reads es \<and> (\<forall>typ. r = Inr typ \<longrightarrow> type_seen (storage_path node sid) typ es))"
  unfolding StorageType_def Client_StorageType_def Client_GetStorage_def pc_storage_def storage_path_def
  by (auto simp: traces_def perform_def reads_def type_seen_def split: sum.splits)

text \<open>A disk key of the source whose value is a CD-ROM, and one whose storage was read to have the type.\<close>

definition cdrom_key :: "json gomap \<Rightarrow> string \<Rightarrow> bool" where
  "cdrom_key flds k \<longleftrightarrow> (\<exists>raw v. map_of flds k = Some raw \<and> unmarshal_string raw = Some v \<and> isCDROM v)"

definition disk_on :: "string \<Rightarrow> json gomap \<Rightarrow> string \<Rightarrow> string \<Rightarrow> event list \<Rightarrow> bool" where
  "disk_on node flds k typ es \<longleftrightarrow>
     (\<exists>raw v st. map_of flds k = Some raw \<and> unmarshal_string raw = Some v \<and> disk_storage v = Some st \<and>
        type_seen (storage_path node st) typ es)"

definition source_read :: "string \<Rightarrow> clone_request \<Rightarrow> json gomap \<Rightarrow> event list \<Rightarrow> bool" where
  "source_read node q flds es \<longleftrightarrow>
     (\<exists>a raw b. EHttp GET (qemu_path node (cl_source q) ''/config'') [] a \<in> set es \<and> raw_result a = Inr raw \<and>
        unmarshal_map raw = Some (b, flds) \<and> flds \<noteq> [])"

definition disks_checked :: "string \<Rightarrow> clone_request \<Rightarrow> event list \<Rightarrow> bool" where
  "disks_checked node q es \<longleftrightarrow>
     (\<exists>flds. source_read node q flds es \<and>
        (\<forall>k \<in> fst ` set flds. isDiskKey k \<longrightarrow> cdrom_key flds k \<or>
           (\<exists>typ. type_seen (storage_path node (values_Get (cl_params q) ''storage'')) typ es \<and>
              disk_on node flds k typ es)))"

text \<open>
  A clone that names no target storage puts each disk on the storage it is on: there is nothing to
  compare, and the check of the code returns at once.
\<close>

definition linked_checked :: "string \<Rightarrow> clone_request \<Rightarrow> event list \<Rightarrow> bool" where
  "linked_checked node q es \<longleftrightarrow> values_Get (cl_params q) ''storage'' = [] \<or> disks_checked node q es"

lemma collect_disks_ok:
  "collect_disks q flds ks = Inr ds \<Longrightarrow> set ks \<subseteq> fst ` set flds \<Longrightarrow> k \<in> set ks \<Longrightarrow>
     cdrom_key flds k \<or>
     (\<exists>raw v d. map_of flds k = Some raw \<and> unmarshal_string raw = Some v \<and> disk_storage v = Some (sd_storage d) \<and> d \<in> set ds)"
proof (induction ks arbitrary: ds)
  case (Cons k' ks)
  from Cons.prems(2) obtain raw where raw: "map_of flds k' = Some raw"
    by (metis insert_subset list.simps(15) map_of_eq_None_iff not_Some_eq)
  with Cons.prems(1) obtain v where v: "unmarshal_string raw = Some v" by (auto split: option.splits)
  show ?case
  proof (cases "isCDROM v")
    case True
    with Cons raw v show ?thesis by (auto simp: cdrom_key_def)
  next
    case False
    with Cons.prems(1) raw v obtain st rest where st: "disk_storage v = Some st"
      and rest: "collect_disks q flds ks = Inr rest" "ds = \<lparr>sd_key = k', sd_storage = st\<rparr> # rest"
      by (auto split: option.splits sum.splits)
    show ?thesis
    proof (cases "k = k'")
      case True
      with raw v st rest(2) show ?thesis
        by (intro disjI2 exI [of _ raw] exI [of _ v] exI [of _ "\<lparr>sd_key = k', sd_storage = st\<rparr>"]) simp
    next
      case False
      with Cons.IH [OF rest(1)] Cons.prems(2,3) rest(2) show ?thesis by auto
    qed
  qed
qed simp

lemma source_disks_ok:
  assumes "source_disks_of q (raw_result a) = Inr ds"
  shows "\<exists>raw b flds. raw_result a = Inr raw \<and> unmarshal_map raw = Some (b, flds) \<and> flds \<noteq> [] \<and>
     (\<forall>k \<in> fst ` set flds. isDiskKey k \<longrightarrow> cdrom_key flds k \<or>
        (\<exists>r v d. map_of flds k = Some r \<and> unmarshal_string r = Some v \<and> disk_storage v = Some (sd_storage d) \<and> d \<in> set ds))"
proof -
  from assms obtain raw where raw: "raw_result a = Inr raw" by (auto simp: source_disks_of_def split: sum.splits)
  with assms obtain b flds where flds: "unmarshal_map raw = Some (b, flds)" "flds \<noteq> []"
    and ds: "collect_disks q flds (sort (filter isDiskKey (map fst flds))) = Inr ds"
    by (auto simp: source_disks_of_def split: option.splits if_splits)
  with raw flds show ?thesis
    by (intro exI [of _ raw] exI [of _ b] exI [of _ flds] conjI ballI impI collect_disks_ok [OF ds]) auto
qed

lemma traces_sourceDisks:
  "traces (sourceDisks env t q)
     (\<lambda>r es. \<exists>a. es = [EHttp GET (qemu_path (tg_node t) (cl_source q) ''/config'') [] a] \<and>
        r = source_disks_of q (raw_result a))"
proof -
  obtain rest where "qemu_path (tg_node t) (cl_source q) ''/config'' = CHR ''/'' # rest" using qemu_path_slash by blast
  from traces_RawRequest_sent [OF this] show ?thesis
    unfolding sourceDisks_def by (rule traces_bind) (auto intro!: traces_return)
qed

lemma traces_check_disks:
  "traces (check_disks env t q ts typ seen ds)
     (\<lambda>r es. list_all reads es \<and> (r = None \<longrightarrow> (\<forall>d \<in> set ds. map_of seen (sd_storage d) = Some typ \<or>
        type_seen (storage_path (tg_node t) (sd_storage d)) typ es)))"
proof (induction ds arbitrary: seen)
  case Nil
  show ?case by (auto intro!: traces_return)
next
  case (Cons d ds)
  have lookup: "traces (case map_of seen (sd_storage d) of Some typ \<Rightarrow> ret (Inr typ) | None \<Rightarrow> StorageType env t (tg_node t) (sd_storage d))
      (\<lambda>r es. list_all reads es \<and> (\<forall>typ. r = Inr typ \<longrightarrow> map_of seen (sd_storage d) = Some typ \<or>
         type_seen (storage_path (tg_node t) (sd_storage d)) typ es))"
    by (auto intro!: traces_case_option traces_return traces_mono [OF traces_StorageType])
  show ?case
    unfolding check_disks.simps
    by (rule traces_bind [OF lookup])
      (auto intro!: traces_case_sum traces_if traces_return traces_mono [OF Cons.IH] simp: update_conv' split: if_splits)
qed


lemma disk_on_append: "disk_on node flds k typ es \<Longrightarrow> disk_on node flds k typ (before @ es)"
  unfolding disk_on_def by auto

lemma disks_checked_append: "disks_checked node q es \<Longrightarrow> disks_checked node q (before @ es)"
proof -
  assume "disks_checked node q es"
  then obtain flds where "source_read node q flds es"
    and disks: "\<forall>k \<in> fst ` set flds. isDiskKey k \<longrightarrow> cdrom_key flds k \<or>
         (\<exists>typ. type_seen (storage_path node (values_Get (cl_params q) ''storage'')) typ es \<and>
            disk_on node flds k typ es)"
    unfolding disks_checked_def by blast
  moreover from this(1) have "source_read node q flds (before @ es)" unfolding source_read_def by auto
  moreover have "\<forall>k \<in> fst ` set flds. isDiskKey k \<longrightarrow> cdrom_key flds k \<or>
         (\<exists>typ. type_seen (storage_path node (values_Get (cl_params q) ''storage'')) typ (before @ es) \<and>
            disk_on node flds k typ (before @ es))"
    using disks disk_on_append [of node flds _ _ es before] type_seen_append by blast
  ultimately show ?thesis unfolding disks_checked_def by blast
qed

lemma linked_checked_append: "linked_checked node q es \<Longrightarrow> linked_checked node q (before @ es)"
  unfolding linked_checked_def by (blast intro: disks_checked_append)

lemma traces_checkLinkedCloneStorage:
  "traces (checkLinkedCloneStorage env t q)
     (\<lambda>r es. list_all reads es \<and> (r = None \<longrightarrow> linked_checked (tg_node t) q es))"
  unfolding checkLinkedCloneStorage_def Let_def
proof (rule traces_if, goal_cases)
  case 1
  then show ?case by (auto intro!: traces_return simp: linked_checked_def)
next
  case 2
  show ?case
  proof (rule traces_bind [OF traces_sourceDisks], rule traces_case_sum, goal_cases)
    case (1 r es e)
    then show ?case by (auto intro!: traces_return simp: reads_def)
  next
    case (2 r es disks)
    then obtain a where es: "es = [EHttp GET (qemu_path (tg_node t) (cl_source q) ''/config'') [] a]"
      and disks: "source_disks_of q (raw_result a) = Inr disks" by auto
    from source_disks_ok [OF disks] obtain raw b flds where "raw_result a = Inr raw" "unmarshal_map raw = Some (b, flds)" "flds \<noteq> []"
      and on: "\<forall>k \<in> fst ` set flds. isDiskKey k \<longrightarrow> cdrom_key flds k \<or>
        (\<exists>r v d. map_of flds k = Some r \<and> unmarshal_string r = Some v \<and> disk_storage v = Some (sd_storage d) \<and> d \<in> set disks)"
      by blast
    then have read: "source_read (tg_node t) q flds (es @ fs)" for fs by (auto simp: source_read_def es)
    show ?case
    proof (rule traces_if, goal_cases)
      case 1
      with on have "\<forall>k \<in> fst ` set flds. isDiskKey k \<longrightarrow> cdrom_key flds k" by simp
      with read [of "[]"] have "linked_checked (tg_node t) q es" unfolding linked_checked_def disks_checked_def by auto
      then show ?case by (auto intro!: traces_return simp: es reads_def)
    next
      case 2
      show ?case
      proof (rule traces_bind [OF traces_StorageType], rule traces_case_sum, goal_cases)
        case (1 r ts e)
        then show ?case by (auto intro!: traces_return simp: es reads_def)
      next
        case (2 r ts ty)
        show ?case
        proof (rule traces_mono [OF traces_check_disks], goal_cases)
          case (1 x fs)
          have "linked_checked (tg_node t) q (es @ ts @ fs)" if none: "x = None"
          proof -
            have "disk_on (tg_node t) flds k ty (es @ ts @ fs)"
              if "map_of flds k = Some r" "unmarshal_string r = Some v" "disk_storage v = Some (sd_storage d)" "d \<in> set disks" for k r v d
              using that 1 none unfolding disk_on_def by auto
            moreover have "type_seen (storage_path (tg_node t) (values_Get (cl_params q) ''storage'')) ty (es @ ts @ fs)"
              using 2 by simp
            ultimately show ?thesis using on read [of "ts @ fs"] unfolding linked_checked_def disks_checked_def by blast
          qed
          with 1 2 show ?case by (auto simp: es reads_def)
        qed
      qed
    qed
  qed
qed

section \<open>What the clone does\<close>

definition clone_request_event :: "string \<Rightarrow> clone_request \<Rightarrow> event \<Rightarrow> bool" where
  "clone_request_event node q e \<longleftrightarrow>
     (\<exists>a. e = EHttp POST (qemu_path node (cl_source q) ''/clone'')
        (values_Set ''newid'' (strconv_Itoa (cl_new q)) (cl_params q)) a)"

definition clone_allowed :: "string \<Rightarrow> clone_request \<Rightarrow> event list \<Rightarrow> event \<Rightarrow> bool" where
  "clone_allowed node q pre e \<longleftrightarrow> clone_request_event node q e \<and> length (values_of (cl_params q) ''full'') \<le> 1 \<and>
     (values_Get (cl_params q) ''full'' = ''1'' \<or> linked_checked node q pre)"

lemma looks_back_clone_allowed: "looks_back (clone_allowed node q)"
  by (auto simp: looks_back_def clone_allowed_def intro: linked_checked_append)

definition cloned :: "string \<Rightarrow> clone_request \<Rightarrow> event list \<Rightarrow> bool" where
  "cloned node q es \<longleftrightarrow> ended_well POST (qemu_path node (cl_source q) ''/clone'') es"

lemma traces_CloneVM:
  "traces (CloneVM env t src new params)
     (\<lambda>r es. es = [] \<and> (\<exists>e. r = Inl e) \<or>
        (\<exists>a. es = [EHttp POST (qemu_path (tg_node t) src ''/clone'') (values_Set ''newid'' (strconv_Itoa new) params) a] \<and>
           (\<forall>u. r = Inr u \<longrightarrow> started a u)))"
  unfolding CloneVM_def Client_CloneVM_def using qemu_path_slash [of "tg_node t" src "''/clone''"]
  by (auto intro!: traces_return traces_mono [OF traces_task_call_started])

lemma traces_clone_and_wait:
  "traces (clone_and_wait env t q)
     (\<lambda>r es. (es = [] \<or> (\<exists>e post. es = e # post \<and> clone_request_event (tg_node t) q e \<and> list_all reads post)) \<and>
        (r = None \<longrightarrow> cloned (tg_node t) q es))"
  unfolding clone_and_wait_def
proof (rule traces_bind [OF traces_CloneVM], rule traces_case_sum, goal_cases)
  case (1 r es e)
  then show ?case by (auto intro!: traces_return simp: clone_request_event_def)
next
  case (2 r es upid)
  then obtain a where a: "es = [EHttp POST (qemu_path (tg_node t) (cl_source q) ''/clone'')
      (values_Set ''newid'' (strconv_Itoa (cl_new q)) (cl_params q)) a]" "started a upid" by auto
  then have "cloned (tg_node t) q (es @ ws)" if "task_seen_ok upid ws" for ws
    using that unfolding cloned_def by (auto intro: ended_wellI)
  with a(1) show ?case
    by (auto intro!: traces_bind [OF traces_WaitForTask_ok] traces_case_option traces_return simp: clone_request_event_def)
qed

lemma traces_VMClone_Apply:
  "traces (VMClone_Apply env t q)
     (\<lambda>r es. gated (clone_allowed (tg_node t) q) es \<and> (r = None \<longrightarrow> cloned (tg_node t) q es))"
  unfolding VMClone_Apply_def Let_def
proof (rule traces_if, goal_cases)
  case 1
  then show ?case by (auto intro!: traces_return simp: gated_no_write)
next
  case one: 2
  have checked: "traces (if values_Get (cl_params q) ''full'' \<noteq> ''1'' then checkLinkedCloneStorage env t q else ret None)
      (\<lambda>r es. list_all reads es \<and> (r = None \<longrightarrow> values_Get (cl_params q) ''full'' = ''1'' \<or> linked_checked (tg_node t) q es))"
    by (auto intro!: traces_return traces_mono [OF traces_checkLinkedCloneStorage])
  show ?case
  proof (rule traces_bind [OF checked], rule traces_case_option, goal_cases)
    case (1 r es)
    show ?case
    proof (rule traces_mono [OF traces_clone_and_wait], goal_cases)
      case (1 x fs)
      have "gated (clone_allowed (tg_node t) q) (es @ fs)"
      proof (cases fs)
        case Nil
        with \<open>list_all reads es \<and> _\<close> show ?thesis by (simp add: gated_reads)
      next
        case (Cons e post)
        with 1 have e: "clone_request_event (tg_node t) q e" "list_all reads post" by auto
        with \<open>list_all reads es \<and> _\<close> \<open>r = None\<close> one show ?thesis
          unfolding Cons by (intro gated_one) (auto simp: clone_allowed_def list_all_iff reads_def)
      qed
      moreover have "cloned (tg_node t) q (es @ fs)" if "x = None"
        using 1 that unfolding cloned_def by (blast intro: ended_well_append)
      ultimately show ?case by blast
    qed
  next
    case (2 r es e)
    then show ?case by (auto intro!: traces_return gated_reads)
  qed
qed


lemma traces_VMClone_Read:
  "traces (VMClone_Read env t q)
     (\<lambda>r es. list_all reads es \<and> (\<forall>c. r = Inr c \<longrightarrow> c \<noteq> [] \<longrightarrow> vm_found env (tg_node t) (cl_new q) c es))"
  unfolding VMClone_Read_def GetVM_def
  by (rule traces_bind [OF traces_GetVM], rule traces_return)
    (auto simp: vm_found_def marshal_vm_def split: sum.splits option.splits)

interpretation vmclone_op: op_contract "VMClone env t q"
    "\<lambda>r es. gated (clone_allowed (tg_node t) q) es \<and> (r = None \<longrightarrow> cloned (tg_node t) q es)"
    "\<lambda>c es. c \<noteq> [] \<longrightarrow> vm_found env (tg_node t) (cl_new q) c es" VMClone_Satisfied
  for env t q
  by unfold_locales (use traces_VMClone_Read traces_VMClone_Apply in \<open>auto simp: VMClone_def\<close>)

section \<open>Properties of the clone\<close>

text \<open>
  C30: the only write of a \<open>vm clone\<close> run is the clone request, and it is sent only when the parameter
  that asks for a full clone is given at most once.  When the clone is a linked one onto a named
  target storage, it is sent only after the source's config was read, was not empty, and every disk in
  it that is no CD-ROM was seen on a storage of the same type as the target storage.  A full clone,
  and a linked one that names no target storage, are sent without that check.
\<close>

theorem VMClone_linked_guard:
  assumes "run_state (Run env rp key (VMClone env t q) force) s = (res, s')"
  shows "\<exists>es. log s' = log s @ es \<and>
     (\<forall>pre e post. es = pre @ e # post \<and> is_write e \<longrightarrow>
        clone_request_event (tg_node t) q e \<and> length (values_of (cl_params q) ''full'') \<le> 1 \<and>
        (values_Get (cl_params q) ''full'' = ''1'' \<or> values_Get (cl_params q) ''storage'' = [] \<or>
         disks_checked (tg_node t) q pre))"
proof -
  obtain es where "log s' = log s @ es" "gated (clone_allowed (tg_node t) q) es"
    using vmclone_op.Run_gated [OF looks_back_clone_allowed _ assms] by blast
  then show ?thesis unfolding gated_def clone_allowed_def linked_checked_def by blast
qed

text \<open>
  A clone run that reports a change made a clone request that PVE answered with a task that was
  seen to end well; one that reports no change saw a VM with the new vmid.
\<close>

theorem VMClone_success:
  assumes "run_state (Run env rp key (VMClone env t q) force) s = (Inr x, s')"
  shows "\<exists>pre mid post. log s' = log s @ pre @ mid @ post \<and>
     (if Changed x then cloned (tg_node t) q mid
      else vm_found env (tg_node t) (cl_new q) (Before x) mid)"
proof -
  obtain es pre mid post where es: "log s' = log s @ es" "es = pre @ mid @ post"
    and mid: "if Changed x then gated (clone_allowed (tg_node t) q) mid \<and> cloned (tg_node t) q mid
      else VMClone_Satisfied (Before x) \<and> (Before x \<noteq> [] \<longrightarrow> vm_found env (tg_node t) (cl_new q) (Before x) mid)"
    using vmclone_op.Run_success [OF assms] by (auto split: if_splits)
  from mid have "if Changed x then cloned (tg_node t) q mid
      else vm_found env (tg_node t) (cl_new q) (Before x) mid"
    by (auto simp: VMClone_Satisfied_def split: if_splits)
  with es show ?thesis by blast
qed

section \<open>A linked clone across storage types\<close>

definition source_config :: http_reply where
  "source_config = HAnswer 200 ''200 OK'' ''{..}'' (Some (JObj ''{..}'' [(''data'',
     JObj ''{..}'' [(''digest'', JStr ''d1''), (''scsi0'', JStr ''local-lvm:vm-100-disk-0,size=8G''),
       (''ide2'', JStr ''local:iso/x.iso,media=cdrom'')])]))"

definition clone_world :: env where
  "clone_world = calm\<lparr>e_http := (\<lambda>h m p f. if m = GET then source_config else upid_answer),
     e_status := (\<lambda>h p. Inl (ErrorString ''no such vm''))\<rparr>"

definition demo_clone :: clone_request where
  "demo_clone = \<lparr>cl_source = 100, cl_new = 101, cl_params = [(''storage'', [''fast''])]\<rparr>"

lemma source_config_disks:
  "source_disks_of demo_clone (raw_result source_config) = Inr [\<lparr>sd_key = ''scsi0'', sd_storage = ''local-lvm''\<rparr>]"
proof -
  have raw: "raw_result source_config = Inr (JObj ''{..}'' [(''digest'', JStr ''d1''),
      (''scsi0'', JStr ''local-lvm:vm-100-disk-0,size=8G''), (''ide2'', JStr ''local:iso/x.iso,media=cdrom'')])"
    by code_simp
  have keys: "interfaceIndexFromKey ''scsi0'' ''scsi'' = Some 0" "interfaceIndexFromKey ''ide2'' ''ide'' = Some 2"
    by (simp_all add: interfaceIndexFromKey_def strings_TrimPrefix_def atoi_digits_def is_digit_def max_int64_def)
  then have disk: "isDiskKey ''scsi0''" "isDiskKey ''ide2''"
    by (simp_all add: isDiskKey_def diskKeyPrefixes_def)
  have "\<not> isDiskKey ''digest''"
    by (simp add: isDiskKey_def diskKeyPrefixes_def interfaceIndexFromKey_def strings_TrimPrefix_def)
  moreover have "isCDROM ''local:iso/x.iso,media=cdrom''" "\<not> isCDROM ''local-lvm:vm-100-disk-0,size=8G''"
    "disk_storage ''local-lvm:vm-100-disk-0,size=8G'' = Some ''local-lvm''"
    by code_simp+
  ultimately show ?thesis
    using disk by (simp add: source_disks_of_def raw unmarshal_map_def unmarshal_string_def gomap_of_def)
qed


lemma run_sourceDisks_world:
  "\<exists>s'. run_state (sourceDisks clone_world demo_target demo_clone) s =
     (Inr [\<lparr>sd_key = ''scsi0'', sd_storage = ''local-lvm''\<rparr>], s')"
proof -
  obtain rest where "qemu_path ''pve1'' (cl_source demo_clone) ''/config'' = CHR ''/'' # rest" using qemu_path_slash by blast
  then show ?thesis
    using source_config_disks
    by (simp add: sourceDisks_def RawRequest_def http_do_def run_perform demo_target_def clone_world_def strings_HasPrefix_def)
qed

lemma run_StorageType_world:
  "node \<noteq> [] \<Longrightarrow> sid \<noteq> [] \<Longrightarrow> \<exists>s'. run_state (StorageType clone_world t node sid) s = (Inr ''lvmthin'', s')"
  by (simp add: StorageType_def Client_StorageType_def Client_GetStorage_def pc_storage_def run_perform clone_world_def)

lemma run_check_world:
  "\<exists>s'. run_state (checkLinkedCloneStorage clone_world demo_target demo_clone) s = (None, s')"
proof -
  have sto: "values_Get (cl_params demo_clone) ''storage'' = ''fast''"
    by (simp add: values_Get_def demo_clone_def)
  have node: "tg_node demo_target = ''pve1''" by (simp add: demo_target_def)
  obtain s1 where 1: "run_state (sourceDisks clone_world demo_target demo_clone) s =
     (Inr [\<lparr>sd_key = ''scsi0'', sd_storage = ''local-lvm''\<rparr>], s1)" using run_sourceDisks_world by blast
  obtain s2 where 2: "run_state (StorageType clone_world demo_target ''pve1'' ''fast'') s1 = (Inr ''lvmthin'', s2)"
    using run_StorageType_world [of "''pve1''" "''fast''"] by auto
  obtain s3 where 3: "run_state (StorageType clone_world demo_target ''pve1'' ''local-lvm'') s2 = (Inr ''lvmthin'', s3)"
    using run_StorageType_world [of "''pve1''" "''local-lvm''"] by auto
  from 1 2 3 show ?thesis by (simp add: checkLinkedCloneStorage_def Let_def sto node)
qed

lemma run_clone_world: "\<exists>s'. run_state (clone_and_wait clone_world demo_target demo_clone) s = (None, s')"
  by (simp add: clone_and_wait_def CloneVM_def Client_CloneVM_def task_call_def RawRequest_def qemu_path_def
      strings_HasPrefix_def http_do_def run_perform demo_target_def clone_world_def raw_upid decodeUPIDScalar_def
      run_WaitForTask_calm)

lemma run_clone:
  "\<exists>s' x. run_state (Run clone_world ''roster.yaml'' demo_key (VMClone clone_world demo_target demo_clone) False) fresh =
     (Inr x, s') \<and> Changed x \<and> list_ex is_write (log s')"
proof -
  let ?oper = "VMClone clone_world demo_target demo_clone"
  have node: "tg_node demo_target = ''pve1''" by (simp add: demo_target_def)
  obtain s1 where mut: "run_state (Mutation clone_world ''roster.yaml'' demo_key) fresh =
      (Inr (kf_resource (filesFor ''roster.yaml'' demo_key)), s1)"
    by (simp add: Mutation_def ensureLockDir_def acquire_def Let_def primitive_defs run_simps clone_world_def)
  obtain s2 where rd: "run_state (op_Read ?oper) s1 = (Inr [], s2)"
    by (simp add: VMClone_def VMClone_Read_def GetVM_def Client_GetVM_def pc_status_def run_perform node clone_world_def)
  have unsat: "\<not> op_Satisfied ?oper s2 []" by (simp add: VMClone_def VMClone_Satisfied_def)
  obtain s3 where chk: "run_state (checkLinkedCloneStorage clone_world demo_target demo_clone) s2 = (None, s3)"
    using run_check_world by blast
  obtain s4 where cl: "run_state (clone_and_wait clone_world demo_target demo_clone) s3 = (None, s4)"
    using run_clone_world by blast
  have "length (values_of (cl_params demo_clone) ''full'') = 0" "values_Get (cl_params demo_clone) ''full'' = []"
    by (simp_all add: values_of_def values_Get_def demo_clone_def)
  with chk cl have ap: "run_state (op_Apply ?oper) s2 = (None, s4)"
    by (simp add: VMClone_def VMClone_Apply_def Let_def)
  from traces_runD [OF traces_clone_and_wait cl] have "list_ex is_write (log s4)"
    by (auto simp: cloned_def ended_well_def clone_request_event_def)
  moreover obtain a s5 where rr: "run_state (case op_ReRead ?oper of None \<Rightarrow> op_Read ?oper | Some m \<Rightarrow> m) s4 = (a, s5)" by force
  moreover have post: "run_state (run_check demo_key '': post-apply check: '' (op_PostApply ?oper)) s5 = (None, s5)"
    by (simp add: run_check_def VMClone_def)
  moreover obtain x where "run_state (attempts (maxConflictRetries - 1) demo_key ?oper False) s1 = (Inr x, s5)" "Changed x"
    using run_attempts_applied [OF rd disjI2 [OF unsat] ap rr post] by blast
  moreover obtain u s6 where un: "run_state (unlock clone_world (kf_resource (filesFor ''roster.yaml'' demo_key))) s5 = (u, s6)"
    by force
  ultimately show ?thesis
    using mut traces_runD [OF vmclone_op.traces_reread rr] traces_runD [OF traces_flock_Unlock un [unfolded unlock_def]]
    by (auto simp: Run_def)
qed

theorem VMClone_linked_guard_witness:
  "\<exists>pre e post. log (snd (run_state (Run clone_world ''roster.yaml'' demo_key (VMClone clone_world demo_target demo_clone) False)
       fresh)) = pre @ e # post \<and> clone_request_event ''pve1'' demo_clone e \<and> disks_checked ''pve1'' demo_clone pre"
proof -
  obtain s' x where run: "run_state (Run clone_world ''roster.yaml'' demo_key (VMClone clone_world demo_target demo_clone) False)
      fresh = (Inr x, s')" "list_ex is_write (log s')" using run_clone by blast
  then obtain e pre post where log: "log s' = pre @ e # post" "is_write e" by (auto simp: list_ex_iff) (meson split_list)
  with VMClone_linked_guard [OF run(1)] have "clone_request_event ''pve1'' demo_clone e \<and>
      (values_Get (cl_params demo_clone) ''full'' = ''1'' \<or> values_Get (cl_params demo_clone) ''storage'' = [] \<or>
       disks_checked ''pve1'' demo_clone pre)"
    by (auto simp: demo_target_def)
  with run(1) log(1) show ?thesis by (auto simp: demo_clone_def values_Get_def)
qed

theorem VMClone_success_witness: "\<exists>mid. cloned ''pve1'' demo_clone mid"
proof -
  obtain s' x where "run_state (Run clone_world ''roster.yaml'' demo_key (VMClone clone_world demo_target demo_clone) False)
      fresh = (Inr x, s')" "Changed x" using run_clone by blast
  from VMClone_success [OF this(1)] this(2) show ?thesis by (auto simp: demo_target_def)
qed

end
