(* ===== verification/Snapshot.thy ===== *)
theory Snapshot
  imports PveTask "HOL-Library.Multiset"
begin

text \<open>
  Snapshots of a VM (\<open>internal/pve/snapshot.go\<close>): the list and the refusal of a list that PVE
  cannot have given, creation with its collision check and its double verification, the rule that
  only the newest snapshot may be rolled back to, and the cascade that deletes newer ones.  The
  list is read through go-proxmox, one event \<open>ESnapshots\<close>; an entry is a pointer in the source, so
  it may be null.
\<close>

definition currentPseudoSnapshot :: string where
  "currentPseudoSnapshot = ''current''"

definition pendingReservedName :: string where
  "pendingReservedName = ''pending''"

definition isPseudoEntryName :: "string \<Rightarrow> bool" where
  "isPseudoEntryName name \<longleftrightarrow> strings_TrimSpace name = currentPseudoSnapshot"

section \<open>The list\<close>

definition snapshots_path :: "string \<Rightarrow> int \<Rightarrow> string" where
  "snapshots_path node vmid = qemu_path node vmid ''/snapshot''"

definition ListSnapshots ::
    "env \<Rightarrow> string \<Rightarrow> int \<Rightarrow> ('r sess_scheme, gerror + snapshot option list) state" where
  "ListSnapshots env node vmid =
     (if node = [] then ret (Inl (Errorf [Lit ''list snapshots for vm '', Dec vmid, Lit '': node is required'']))
      else do {
        r \<leftarrow> pc_snapshots env (snapshots_path node vmid);
        ret (case r of
            Inl e \<Rightarrow> Inl (Errorf [Lit ''list snapshots for vm '', Dec vmid, Lit '': '', Wrapped e])
          | Inr None \<Rightarrow> Inl (Errorf [Lit ''list snapshots for vm '', Dec vmid, Lit '': '',
              Wrapped (Sentinel ErrUnverifiableRead), Lit '': list payload was null''])
          | Inr (Some snaps) \<Rightarrow> Inr snaps)
      })"

fun realSnapshots :: "snapshot option list \<Rightarrow> snapshot list" where
  "realSnapshots [] = []"
| "realSnapshots (s # snaps) =
     (case s of
        None \<Rightarrow> realSnapshots snaps
      | Some s \<Rightarrow> if sn_name s = currentPseudoSnapshot then realSnapshots snaps else s # realSnapshots snaps)"

definition verifiable :: "snapshot option list \<Rightarrow> bool" where
  "verifiable snaps \<longleftrightarrow>
     list_ex (\<lambda>s. case s of None \<Rightarrow> False | Some s \<Rightarrow> sn_name s = currentPseudoSnapshot) snaps"

definition listSnapshotsVerifiable ::
    "env \<Rightarrow> string \<Rightarrow> int \<Rightarrow> ('r sess_scheme, gerror + snapshot option list) state" where
  "listSnapshotsVerifiable env node vmid = do {
     r \<leftarrow> ListSnapshots env node vmid;
     ret (case r of
         Inl e \<Rightarrow> Inl e
       | Inr snaps \<Rightarrow>
           if verifiable snaps then Inr snaps
           else Inl (Errorf [Lit ''snapshot list for vm '', Dec vmid, Lit '' has no '', Quo currentPseudoSnapshot,
             Lit '' pseudo-entry, which PVE always includes for a live vm: '', Wrapped (Sentinel ErrUnverifiableRead)]))
   }"

text \<open>A request that starts a task, and the wait for it, with the same words in front of every error.\<close>

definition run_task ::
    "env \<Rightarrow> string \<Rightarrow> http_method \<Rightarrow> string \<Rightarrow> url_values \<Rightarrow> frag list \<Rightarrow> ('r sess_scheme, gerror option) state" where
  "run_task env node meth path form what = do {
     r \<leftarrow> task_call env meth path form what;
     case r of
       Inl e \<Rightarrow> ret (Some e)
     | Inr upid \<Rightarrow> do {
         w \<leftarrow> WaitForTask env node upid;
         ret (map_option (\<lambda>e. Errorf (what @ [Lit '': '', Wrapped e])) w)
       }
   }"

section \<open>Creation\<close>

definition snapshot_form :: "string \<Rightarrow> string \<Rightarrow> url_values" where
  "snapshot_form name description =
     (let params = values_Set ''vmstate'' ''1'' (values_Set ''snapname'' name [])
      in if description \<noteq> [] then values_Set ''description'' description params else params)"

text \<open>The double check of the list read after the create task has ended.\<close>

fun verify_created :: "string \<Rightarrow> int \<Rightarrow> snapshot list \<Rightarrow> gerror option" where
  "verify_created name vmid [] =
     Some (Errorf [Lit ''verify snapshot '', Quo name, Lit '' on vm '', Dec vmid,
       Lit '': task reported success but the snapshot is absent from the snapshot list''])"
| "verify_created name vmid (s # snaps) =
     (if sn_name s \<noteq> name then verify_created name vmid snaps
      else if sn_vmstate s = 0 then
        Some (Errorf [Lit ''verify snapshot '', Quo name, Lit '' on vm '', Dec vmid,
          Lit '': task reported success but the snapshot has no vm state captured (vmstate=0): it can restore disks only, not a running vm''])
      else None)"

definition create_refusal :: "string \<Rightarrow> int \<Rightarrow> string \<Rightarrow> gerror option" where
  "create_refusal node vmid name =
     (if node = [] then Some (Errorf [Lit ''create snapshot on vm '', Dec vmid, Lit '': node is required''])
      else if strings_TrimSpace name = [] then
        Some (Errorf [Lit ''create snapshot on vm '', Dec vmid, Lit '': name is required''])
      else if strings_EqualFold (strings_TrimSpace name) currentPseudoSnapshot then
        Some (ReservedSnapshotNameError vmid name)
      else if strings_EqualFold (strings_TrimSpace name) pendingReservedName then
        Some (ReservedSnapshotNameError vmid name)
      else None)"

definition CreateSnapshot ::
    "env \<Rightarrow> string \<Rightarrow> int \<Rightarrow> string \<Rightarrow> string \<Rightarrow> ('r sess_scheme, gerror option) state" where
  "CreateSnapshot env node vmid name description =
     (let what = [Lit ''create snapshot '', Quo name, Lit '' on vm '', Dec vmid] in
      case create_refusal node vmid name of
        Some e \<Rightarrow> ret (Some e)
      | None \<Rightarrow> do {
          existing \<leftarrow> listSnapshotsVerifiable env node vmid;
          case existing of
            Inl e \<Rightarrow> ret (Some (Errorf (what @ [Lit '': '', Wrapped e])))
          | Inr existing \<Rightarrow>
              if list_ex (\<lambda>s. sn_name s = name) (realSnapshots existing)
              then ret (Some (SnapshotExistsError vmid name))
              else do {
                r \<leftarrow> run_task env node POST (snapshots_path node vmid) (snapshot_form name description) what;
                case r of
                  Some e \<Rightarrow> ret (Some e)
                | None \<Rightarrow> do {
                    after \<leftarrow> listSnapshotsVerifiable env node vmid;
                    case after of
                      Inl e \<Rightarrow> ret (Some (Errorf [Lit ''verify snapshot '', Quo name, Lit '' on vm '', Dec vmid,
                                 Lit '': '', Wrapped e]))
                    | Inr after \<Rightarrow> ret (verify_created name vmid (realSnapshots after))
                  }
              }
        })"

section \<open>The snapshots newer than a target\<close>

text \<open>
  The target is the first real entry of its name; the source compares pointers to skip it, so the
  other entries are those before and after it.
\<close>

fun split_target :: "string \<Rightarrow> snapshot list \<Rightarrow> (snapshot list \<times> snapshot \<times> snapshot list) option" where
  "split_target target [] = None"
| "split_target target (s # snaps) =
     (if sn_name s = target then Some ([], s, snaps)
      else case split_target target snaps of
          None \<Rightarrow> None
        | Some (pre, found, post) \<Rightarrow> Some (s # pre, found, post))"

definition newer_error :: "int \<Rightarrow> frag list \<Rightarrow> gerror" where
  "newer_error vmid what = Errorf ([Lit ''newer snapshots of vm '', Dec vmid, Lit '': ''] @ what)"

fun collect_newer :: "int \<Rightarrow> string \<Rightarrow> int \<Rightarrow> snapshot list \<Rightarrow> gerror + snapshot list" where
  "collect_newer vmid target t [] = Inr []"
| "collect_newer vmid target t (s # snaps) =
     (if sn_snaptime s = t then
        Inl (newer_error vmid [Quo (sn_name s), Lit '' has the same snaptime as '', Quo target, Lit '' ('', Dec t,
          Lit ''); pveforge cannot determine which is newer, so this rollback cannot be pre-flighted''])
      else case collect_newer vmid target t snaps of
          Inl e \<Rightarrow> Inl e
        | Inr newer \<Rightarrow> Inr (if sn_snaptime s > t then s # newer else newer))"

definition newer_of :: "int \<Rightarrow> string \<Rightarrow> snapshot list \<Rightarrow> gerror + snapshot list" where
  "newer_of vmid target snaps =
     (case split_target target snaps of
        None \<Rightarrow> Inl (newer_error vmid [Lit ''snapshot '', Quo target, Lit '' not found''])
      | Some (pre, found, post) \<Rightarrow>
          (case collect_newer vmid target (sn_snaptime found) (pre @ post) of
             Inl e \<Rightarrow> Inl e
           | Inr newer \<Rightarrow> Inr (sort_key sn_snaptime newer)))"

definition NewerSnapshots ::
    "env \<Rightarrow> string \<Rightarrow> int \<Rightarrow> string \<Rightarrow> ('r sess_scheme, gerror + snapshot list) state" where
  "NewerSnapshots env node vmid target =
     (if node = [] then ret (Inl (newer_error vmid [Lit ''node is required'']))
      else if strings_TrimSpace target = [] then ret (Inl (newer_error vmid [Lit ''snapshot name is required'']))
      else if isPseudoEntryName target then
        ret (Inl (newer_error vmid [Wrapped (ReservedSnapshotNameError vmid target)]))
      else do {
        r \<leftarrow> listSnapshotsVerifiable env node vmid;
        ret (case r of
            Inl e \<Rightarrow> Inl (newer_error vmid [Wrapped e])
          | Inr snaps \<Rightarrow> newer_of vmid target (realSnapshots snaps))
      })"

definition CascadeOrder :: "string list \<Rightarrow> string list" where
  "CascadeOrder newer = rev newer"

section \<open>Rollback\<close>

definition rollback_path :: "string \<Rightarrow> int \<Rightarrow> string \<Rightarrow> string" where
  "rollback_path node vmid name =
     qemu_path node vmid (''/snapshot/'' @ url_PathEscape name @ ''/rollback'')"

definition Rollback :: "env \<Rightarrow> string \<Rightarrow> int \<Rightarrow> string \<Rightarrow> ('r sess_scheme, gerror option) state" where
  "Rollback env node vmid name =
     (if node = [] then ret (Some (Errorf [Lit ''rollback vm '', Dec vmid, Lit '': node is required'']))
      else if strings_TrimSpace name = [] then
        ret (Some (Errorf [Lit ''rollback vm '', Dec vmid, Lit '': snapshot name is required'']))
      else if isPseudoEntryName name then
        ret (Some (Errorf [Lit ''rollback vm '', Dec vmid, Lit '': '', Wrapped (ReservedSnapshotNameError vmid name)]))
      else do {
        r \<leftarrow> NewerSnapshots env node vmid name;
        case r of
          Inl e \<Rightarrow> ret (Some (Errorf [Lit ''rollback vm '', Dec vmid, Lit '' to snapshot '', Quo name, Lit '': '', Wrapped e]))
        | Inr newer \<Rightarrow>
            if newer \<noteq> [] then ret (Some (NotNewestSnapshotError vmid name (map sn_name newer)))
            else run_task env node POST (rollback_path node vmid name) []
                   [Lit ''rollback vm '', Dec vmid, Lit '' to snapshot '', Quo name]
      })"

section \<open>The cascade\<close>

definition cascade_error :: "int \<Rightarrow> frag list \<Rightarrow> gerror" where
  "cascade_error vmid what = Errorf ([Lit ''cascade delete snapshots of vm '', Dec vmid, Lit '': ''] @ what)"

fun refuse_names :: "int \<Rightarrow> nat \<Rightarrow> nat \<Rightarrow> string list \<Rightarrow> gerror option" where
  "refuse_names vmid i cnt [] = None"
| "refuse_names vmid i cnt (n # ns) =
     (if strings_TrimSpace n = [] then
        Some (cascade_error vmid [Lit ''snapshot name '', Dec (int (i + 1)), Lit '' of '', Dec (int cnt), Lit '' is blank''])
      else if isPseudoEntryName n then Some (cascade_error vmid [Wrapped (ReservedSnapshotNameError vmid n)])
      else refuse_names vmid (i + 1) cnt ns)"

definition snapshot_path :: "string \<Rightarrow> int \<Rightarrow> string \<Rightarrow> string" where
  "snapshot_path node vmid name = qemu_path node vmid (''/snapshot/'' @ url_PathEscape name)"

text \<open>\<open>present\<close> is the set of names still to be found, as a list.\<close>

fun cascade_loop ::
    "env \<Rightarrow> string \<Rightarrow> int \<Rightarrow> string list \<Rightarrow> string list \<Rightarrow> string list \<Rightarrow>
       ('r sess_scheme, string list \<times> gerror option) state" where
  "cascade_loop env node vmid present deleted [] = ret (deleted, None)"
| "cascade_loop env node vmid present deleted (n # ns) =
     (if n \<notin> set present then cascade_loop env node vmid present deleted ns
      else do {
        r \<leftarrow> run_task env node DELETE (snapshot_path node vmid n) []
               [Lit ''cascade delete snapshots of vm '', Dec vmid, Lit '': delete '', Quo n];
        case r of
          Some e \<Rightarrow> ret (deleted, Some e)
        | None \<Rightarrow> cascade_loop env node vmid (removeAll n present) (deleted @ [n]) ns
      })"

fun remaining_names :: "string list \<Rightarrow> string list \<Rightarrow> string list \<Rightarrow> string list" where
  "remaining_names stillThere reported [] = []"
| "remaining_names stillThere reported (n # ns) =
     (if n \<in> set stillThere \<and> n \<notin> set reported
      then n # remaining_names stillThere (n # reported) ns
      else remaining_names stillThere reported ns)"

definition cascade_verdict :: "int \<Rightarrow> string list \<Rightarrow> gerror + snapshot option list \<Rightarrow> gerror option" where
  "cascade_verdict vmid names after =
     (case after of
        Inl e \<Rightarrow> Some (cascade_error vmid [Lit ''verify: '', Wrapped e])
      | Inr snaps \<Rightarrow>
          (let remaining = remaining_names (map sn_name (realSnapshots snaps)) [] names in
           if remaining = [] then None
           else Some (cascade_error vmid [Lit ''verify: '', Dec (int (length remaining)),
             Lit '' snapshot(s) still present after the cascade: '',
             Lit (join_with '', '' (map strconv_Quote remaining))])))"

definition CascadeDeleteSnapshots ::
    "env \<Rightarrow> string \<Rightarrow> int \<Rightarrow> string list \<Rightarrow> ('r sess_scheme, string list \<times> gerror option) state" where
  "CascadeDeleteSnapshots env node vmid names =
     (if node = [] then ret ([], Some (cascade_error vmid [Lit ''node is required'']))
      else if names = [] then ret ([], Some (cascade_error vmid [Lit ''at least one snapshot name is required'']))
      else case refuse_names vmid 0 (length names) names of
          Some e \<Rightarrow> ret ([], Some e)
        | None \<Rightarrow> do {
            before \<leftarrow> listSnapshotsVerifiable env node vmid;
            case before of
              Inl e \<Rightarrow> ret ([], Some (cascade_error vmid [Lit ''pre-state read: '', Wrapped e]))
            | Inr before \<Rightarrow> do {
                r \<leftarrow> cascade_loop env node vmid (map sn_name (realSnapshots before)) [] names;
                case r of
                  (deleted, Some e) \<Rightarrow> ret (deleted, Some e)
                | (deleted, None) \<Rightarrow> do {
                    after \<leftarrow> listSnapshotsVerifiable env node vmid;
                    ret (deleted, cascade_verdict vmid names after)
                  }
              }
          })"

section \<open>What the reads and the tasks do on the wire\<close>

abbreviation snaps_event :: "string \<Rightarrow> int \<Rightarrow> snapshot option list \<Rightarrow> event" where
  "snaps_event node vmid snaps \<equiv> ESnapshots (snapshots_path node vmid) (Inr (Some snaps))"

lemma traces_verifiable:
  "traces (listSnapshotsVerifiable env node vmid)
     (\<lambda>r es. list_all reads es \<and>
        (\<forall>snaps. r = Inr snaps \<longrightarrow> es = [snaps_event node vmid snaps] \<and> verifiable snaps))"
  unfolding listSnapshotsVerifiable_def ListSnapshots_def pc_snapshots_def
  by (auto simp: traces_def perform_def reads_def split: sum.splits option.splits if_splits)

lemma frames_verifiable [frames_intro]: "frames (listSnapshotsVerifiable env node vmid)"
  unfolding listSnapshotsVerifiable_def ListSnapshots_def by (intro frames_intro)

text \<open>A task request is always sent; one that succeeds was answered with a task that ended well.\<close>

definition task_run :: "http_method \<Rightarrow> string \<Rightarrow> url_values \<Rightarrow> bool \<Rightarrow> event list \<Rightarrow> bool" where
  "task_run meth path form good es \<longleftrightarrow>
     (\<exists>a rest. es = EHttp meth path form a # rest \<and> list_all reads rest \<and>
        (good \<longrightarrow> (\<exists>u. started a u \<and> task_seen_ok u rest)))"

lemma traces_run_task:
  assumes "path = CHR ''/'' # p" and "unsupported_method meth = None"
  shows "traces (run_task env node meth path form what) (\<lambda>r es. task_run meth path form (r = None) es)"
  unfolding run_task_def
  apply (rule traces_bind [OF traces_task_call_started [OF assms]], rule traces_case_sum)
   apply (auto intro!: traces_return simp: task_run_def) []
  apply (rule traces_bind [OF traces_WaitForTask_ok])
  apply (auto intro!: traces_return simp: task_run_def)
  done

lemma task_run_writes:
  assumes "task_run meth path form good es" and "meth \<noteq> GET"
  shows "\<exists>a. filter is_write es = [EHttp meth path form a]"
    and "good \<Longrightarrow> ended_well meth path es"
proof -
  from assms(1) obtain a rest where es: "es = EHttp meth path form a # rest" and rest: "list_all reads rest"
    and good: "good \<longrightarrow> (\<exists>u. started a u \<and> task_seen_ok u rest)"
    unfolding task_run_def by blast
  from rest have "filter is_write rest = []" by (auto simp: list_all_iff reads_def filter_empty_conv)
  with es assms(2) show "\<exists>a. filter is_write es = [EHttp meth path form a]" by simp
  show "ended_well meth path es" if good
    using that good es by (auto intro!: ended_wellI [of _ _ form a])
qed

lemma reads_no_writes: "list_all reads es \<Longrightarrow> filter is_write es = []"
  by (auto simp: list_all_iff reads_def filter_empty_conv)

lemma snapshot_paths_slash:
  "\<exists>p. snapshots_path node vmid = CHR ''/'' # p" "\<exists>p. snapshot_path node vmid n = CHR ''/'' # p"
  "\<exists>p. rollback_path node vmid n = CHR ''/'' # p"
  by (simp_all add: snapshots_path_def snapshot_path_def rollback_path_def qemu_path_def)

section \<open>The newer snapshots\<close>

lemma split_targetD:
  "split_target target snaps = Some (pre, found, post) \<Longrightarrow>
     snaps = pre @ found # post \<and> sn_name found = target \<and> target \<notin> sn_name ` set pre"
  by (induction snaps arbitrary: pre) (fastforce split: if_splits option.splits)+

lemma split_target_append:
  "sn_name found = target \<Longrightarrow> target \<notin> sn_name ` set pre \<Longrightarrow>
     split_target target (pre @ found # post) = Some (pre, found, post)"
  by (induction pre) auto

lemma split_target_None: "split_target target snaps = None \<longleftrightarrow> target \<notin> sn_name ` set snaps"
  by (induction snaps) (auto split: option.splits)

lemma collect_newer_Inr:
  "collect_newer vmid target t snaps = Inr newer \<longleftrightarrow>
     t \<notin> sn_snaptime ` set snaps \<and> newer = filter (\<lambda>s. t < sn_snaptime s) snaps"
proof (induction snaps arbitrary: newer)
  case (Cons s snaps)
  then show ?case
    by (cases "collect_newer vmid target t snaps") (auto split: sum.splits)
qed auto

lemma newer_of_Inr:
  "newer_of vmid target snaps = Inr newer \<longleftrightarrow>
     (\<exists>pre found post. split_target target snaps = Some (pre, found, post) \<and>
        sn_snaptime found \<notin> sn_snaptime ` set (pre @ post) \<and>
        newer = sort_key sn_snaptime (filter (\<lambda>s. sn_snaptime found < sn_snaptime s) snaps))"
proof (cases "split_target target snaps")
  case (Some x)
  then obtain pre found post where x: "split_target target snaps = Some (pre, found, post)"
    by (cases x) auto
  have "newer_of vmid target snaps = Inr newer \<longleftrightarrow>
      sn_snaptime found \<notin> sn_snaptime ` set (pre @ post) \<and>
      newer = sort_key sn_snaptime (filter (\<lambda>s. sn_snaptime found < sn_snaptime s) (pre @ post))"
  proof (cases "collect_newer vmid target (sn_snaptime found) (pre @ post)")
    case (Inl e)
    have "sn_snaptime found \<in> sn_snaptime ` set (pre @ post)"
      using collect_newer_Inr [of vmid target "sn_snaptime found" "pre @ post"] Inl by auto
    with x Inl show ?thesis by (simp add: newer_of_def)
  next
    case (Inr l)
    with x iffD1 [OF collect_newer_Inr Inr] show ?thesis by (auto simp: newer_of_def)
  qed
  moreover have "filter (\<lambda>s. sn_snaptime found < sn_snaptime s) (pre @ post) =
      filter (\<lambda>s. sn_snaptime found < sn_snaptime s) snaps"
    using split_targetD [OF x] by simp
  ultimately show ?thesis using x by simp
qed (simp add: newer_of_def)

text \<open>
  What the pre-flight of a rollback returns: the target is there, no other snapshot has its
  time, and the result holds exactly the later ones, oldest first, those of one time in the order
  PVE listed them.
\<close>

theorem newer_of_spec:
  assumes "newer_of vmid target snaps = Inr newer"
  shows "\<exists>pre found post. snaps = pre @ found # post \<and> sn_name found = target \<and>
           sn_snaptime found \<notin> sn_snaptime ` set (pre @ post) \<and>
           mset newer = mset (filter (\<lambda>s. sn_snaptime found < sn_snaptime s) snaps) \<and>
           sorted (map sn_snaptime newer) \<and>
           (\<forall>t > sn_snaptime found.
              filter (\<lambda>s. sn_snaptime s = t) newer = filter (\<lambda>s. sn_snaptime s = t) snaps)"
proof -
  from assms obtain pre found post where split: "split_target target snaps = Some (pre, found, post)"
    and ties: "sn_snaptime found \<notin> sn_snaptime ` set (pre @ post)"
    and newer: "newer = sort_key sn_snaptime (filter (\<lambda>s. sn_snaptime found < sn_snaptime s) snaps)"
    unfolding newer_of_Inr by blast
  have "filter (\<lambda>s. sn_snaptime s = t) newer = filter (\<lambda>s. sn_snaptime s = t) snaps"
    if "sn_snaptime found < t" for t
    using that by (simp add: newer sort_key_stable) (rule filter_cong, auto)
  with split ties newer show ?thesis
    by (intro exI [of _ pre] exI [of _ found] exI [of _ post]) (auto dest: split_targetD)
qed

definition snap :: "string \<Rightarrow> int \<Rightarrow> snapshot" where
  "snap name t = \<lparr>sn_name = name, sn_snaptime = t, sn_vmstate = 1\<rparr>"

theorem newer_of_spec_witness:
  "\<exists>newer. newer_of 100 ''a'' [snap ''c'' 9, snap ''a'' 5, snap ''b'' 7] = Inr newer \<and>
     map sn_name newer = [''b'', ''c''] \<and> sorted (map sn_snaptime newer)"
proof -
  have "newer_of 100 ''a'' [snap ''c'' 9, snap ''a'' 5, snap ''b'' 7] = Inr [snap ''b'' 7, snap ''c'' 9]"
    by (simp add: newer_of_def snap_def)
  from newer_of_spec [OF this] this show ?thesis by (auto simp: snap_def)
qed

section \<open>Rollback\<close>

text \<open>The target is there and every other snapshot is strictly older.\<close>

definition strictly_newest :: "string \<Rightarrow> snapshot list \<Rightarrow> bool" where
  "strictly_newest name snaps \<longleftrightarrow>
     (\<exists>pre found post. snaps = pre @ found # post \<and> sn_name found = name \<and>
        (\<forall>s \<in> set (pre @ post). sn_snaptime s < sn_snaptime found))"

lemma newer_of_Nil:
  assumes "newer_of vmid name snaps = Inr []"
  shows "strictly_newest name snaps"
proof -
  from assms obtain pre found post where split: "split_target name snaps = Some (pre, found, post)"
    and ties: "sn_snaptime found \<notin> sn_snaptime ` set (pre @ post)"
    and none: "[] = sort_key sn_snaptime (filter (\<lambda>s. sn_snaptime found < sn_snaptime s) snaps)"
    unfolding newer_of_Inr by blast
  from arg_cong [OF none, of set] have "\<not> sn_snaptime found < sn_snaptime s" if "s \<in> set snaps" for s
    using that by auto
  then have "\<forall>s \<in> set (pre @ post). sn_snaptime s \<le> sn_snaptime found"
    using split_targetD [OF split] by (auto simp: not_less)
  with ties have "\<forall>s \<in> set (pre @ post). sn_snaptime s < sn_snaptime found"
    by (metis image_eqI order_le_imp_less_or_eq)
  with split_targetD [OF split] show ?thesis unfolding strictly_newest_def by blast
qed

text \<open>What a rollback may have done, with its result.\<close>

definition rollback_spec :: "string \<Rightarrow> int \<Rightarrow> string \<Rightarrow> gerror option \<Rightarrow> event list \<Rightarrow> bool" where
  "rollback_spec node vmid name r es \<longleftrightarrow>
     r \<noteq> None \<and> list_all reads es \<or>
     (\<exists>snaps rest. es = snaps_event node vmid snaps # rest \<and> verifiable snaps \<and>
        strictly_newest name (realSnapshots snaps) \<and>
        task_run POST (rollback_path node vmid name) [] (r = None) rest)"

lemma traces_NewerSnapshots:
  "traces (NewerSnapshots env node vmid name)
     (\<lambda>r es. list_all reads es \<and>
        (\<forall>newer. r = Inr newer \<longrightarrow> (\<exists>snaps. es = [snaps_event node vmid snaps] \<and> verifiable snaps \<and>
           newer_of vmid name (realSnapshots snaps) = Inr newer)))"
  unfolding NewerSnapshots_def
  by (intro traces_split traces_return traces_bind [OF traces_verifiable]) (auto simp: newer_error_def split: sum.splits)

lemma traces_Rollback: "traces (Rollback env node vmid name) (rollback_spec node vmid name)"
proof -
  have run: "traces (run_task env node POST (rollback_path node vmid name) [] what)
     (\<lambda>r es. task_run POST (rollback_path node vmid name) [] (r = None) es)" for what
    using snapshot_paths_slash(3) [of node vmid name] by (auto intro!: traces_run_task)
  show ?thesis
    unfolding Rollback_def
    by (intro traces_split traces_return traces_bind [OF traces_NewerSnapshots])
      (auto simp: rollback_spec_def dest: newer_of_Nil intro!: traces_mono [OF run])
qed

text \<open>
  C7: the only write of a rollback is the rollback request for the named snapshot, sent right
  after a list of PVE that holds the pseudo-entry and in which the snapshot exists and is strictly
  newer than every other; a rollback that succeeds saw its task end well.
\<close>

theorem Rollback_only_newest:
  assumes "run_state (Rollback env node vmid name) s = (r, s')"
  shows "\<exists>es. log s' = log s @ es \<and>
     (r \<noteq> None \<and> list_all reads es \<or>
      (\<exists>snaps a rest. es = snaps_event node vmid snaps # EHttp POST (rollback_path node vmid name) [] a # rest \<and>
         verifiable snaps \<and> strictly_newest name (realSnapshots snaps) \<and> list_all reads rest \<and>
         (r = None \<longrightarrow> (\<exists>u. started a u \<and> task_seen_ok u rest))))"
  using traces_runD [OF traces_Rollback assms] unfolding rollback_spec_def task_run_def by fastforce

section \<open>The cascade\<close>

text \<open>The writes among the events are one DELETE for each of the names, in order.\<close>

definition delete_of :: "string \<Rightarrow> int \<Rightarrow> string \<Rightarrow> event \<Rightarrow> bool" where
  "delete_of node vmid n e \<longleftrightarrow> (\<exists>a. e = EHttp DELETE (snapshot_path node vmid n) [] a)"

definition deletes :: "string \<Rightarrow> int \<Rightarrow> string list \<Rightarrow> event list \<Rightarrow> bool" where
  "deletes node vmid ns es \<longleftrightarrow> list_all2 (delete_of node vmid) ns (filter is_write es)"

text \<open>
  What the loop does from a list of names: the names deleted and the at most one whose delete
  failed or has an unknown outcome.
\<close>

lemma subseq_subset: "subseq xs ys \<Longrightarrow> x \<in> set xs \<Longrightarrow> x \<in> set ys"
  by (metis subseq_order.trans subseq_singleton_left)

lemma ended_well_mono: "ended_well m p fs \<Longrightarrow> set fs \<subseteq> set es \<Longrightarrow> ended_well m p es"
  unfolding ended_well_def task_seen_ok_def by blast

definition cascade_part ::
    "string \<Rightarrow> int \<Rightarrow> string list \<Rightarrow> string list \<Rightarrow> string list \<Rightarrow> string list \<Rightarrow> event list \<Rightarrow> bool" where
  "cascade_part node vmid present ns new failed es \<longleftrightarrow>
     deletes node vmid (new @ failed) es \<and> length failed \<le> 1 \<and>
     distinct (new @ failed) \<and> subseq (new @ failed) ns \<and> set (new @ failed) \<subseteq> set present \<and>
     (\<forall>n \<in> set new. ended_well DELETE (snapshot_path node vmid n) es)"

lemma cascade_part_skip:
  "cascade_part node vmid present ns new failed es \<Longrightarrow> cascade_part node vmid present (n # ns) new failed es"
  by (auto simp: cascade_part_def)

lemma cascade_part_step:
  assumes "task_run DELETE (snapshot_path node vmid n) [] True es" and "n \<in> set present"
    and "cascade_part node vmid (removeAll n present) ns new failed fs"
  shows "cascade_part node vmid present (n # ns) (n # new) failed (es @ fs)"
proof -
  from task_run_writes [OF assms(1)] obtain a
    where w: "filter is_write es = [EHttp DELETE (snapshot_path node vmid n) [] a]"
      and good: "ended_well DELETE (snapshot_path node vmid n) es" by auto
  from assms(2,3) w good show ?thesis
    by (auto simp: cascade_part_def deletes_def delete_of_def intro: ended_well_append)
qed

lemma cascade_part_fail:
  assumes "task_run DELETE (snapshot_path node vmid n) [] False es" and "n \<in> set present"
  shows "cascade_part node vmid present (n # ns) [] [n] es"
  using task_run_writes(1) [OF assms(1)] assms(2)
  by (auto simp: cascade_part_def deletes_def delete_of_def)

lemma traces_cascade_loop:
  "traces (cascade_loop env node vmid present deleted ns)
     (\<lambda>r es. \<exists>new failed. fst r = deleted @ new \<and> cascade_part node vmid present ns new failed es \<and>
        (snd r = None \<longrightarrow> failed = [] \<and> set ns \<inter> set present \<subseteq> set new))"
proof (induction ns arbitrary: present deleted)
  case Nil
  show ?case by (auto intro!: traces_return simp: cascade_part_def deletes_def)
next
  case (Cons n ns)
  show ?case
  proof (cases "n \<in> set present")
    case absent: False
    show ?thesis
      unfolding cascade_loop.simps
    proof (simp add: absent, rule traces_mono [OF Cons.IH], goal_cases)
      case (1 r es)
      then obtain new failed where "fst r = deleted @ new"
        and part: "cascade_part node vmid present ns new failed es"
        and "snd r = None \<longrightarrow> failed = [] \<and> set ns \<inter> set present \<subseteq> set new" by (elim exE conjE)
      with absent cascade_part_skip [OF part, of n] show ?case
        by (intro exI [of _ new] exI [of _ failed]) auto
    qed
  next
    case present: True
    have run: "traces (run_task env node DELETE (snapshot_path node vmid n) [] what)
        (\<lambda>r es. task_run DELETE (snapshot_path node vmid n) [] (r = None) es)" for what
      using snapshot_paths_slash(2) [of node vmid n] by (auto intro!: traces_run_task)
    show ?thesis
      unfolding cascade_loop.simps
    proof (simp add: present, rule traces_bind [OF run], rule traces_case_option, goal_cases)
      case (1 r es)
      then have ended: "task_run DELETE (snapshot_path node vmid n) [] True es" by simp
      show ?case
      proof (rule traces_mono [OF Cons.IH], goal_cases)
        case (1 r fs)
        then obtain new failed where "fst r = (deleted @ [n]) @ new"
          and part: "cascade_part node vmid (removeAll n present) ns new failed fs"
          and "snd r = None \<longrightarrow> failed = [] \<and> set ns \<inter> set (removeAll n present) \<subseteq> set new" by (elim exE conjE)
        with cascade_part_step [OF ended present part] show ?case
          by (intro exI [of _ "n # new"] exI [of _ failed]) auto
      qed
    next
      case (2 r es e)
      then show ?case
        using cascade_part_fail [OF _ present, of node vmid es ns]
        by (intro traces_return exI [of _ "[]"] exI [of _ "[n]"]) auto
    qed
  qed
qed

lemma remaining_names_Nil:
  "remaining_names st rep ns = [] \<longleftrightarrow> set ns \<inter> set st \<subseteq> set rep"
  by (induction ns arbitrary: rep) auto

lemma cascade_verdict_None:
  "cascade_verdict vmid names after = None \<longleftrightarrow>
     (\<exists>snaps. after = Inr snaps \<and> set names \<inter> sn_name ` set (realSnapshots snaps) = {})"
  by (auto simp: cascade_verdict_def remaining_names_Nil Let_def split: sum.splits)

lemma refuse_names_None:
  "refuse_names vmid i cnt ns = None \<longleftrightarrow>
     (\<forall>n \<in> set ns. strings_TrimSpace n \<noteq> [] \<and> \<not> isPseudoEntryName n)"
  by (induction ns arbitrary: i) auto

text \<open>What a whole cascade has done, with its result.\<close>

definition cascade_spec ::
    "string \<Rightarrow> int \<Rightarrow> string list \<Rightarrow> string list \<Rightarrow> gerror option \<Rightarrow> event list \<Rightarrow> bool" where
  "cascade_spec node vmid names deleted err es \<longleftrightarrow>
     deleted = [] \<and> err \<noteq> None \<and> list_all reads es \<or>
     (\<exists>before fs gs failed. es = snaps_event node vmid before # fs @ gs \<and> verifiable before \<and>
        (\<forall>n \<in> set names. strings_TrimSpace n \<noteq> [] \<and> \<not> isPseudoEntryName n) \<and>
        cascade_part node vmid (map sn_name (realSnapshots before)) names deleted failed fs \<and>
        list_all reads gs \<and>
        (err = None \<longrightarrow> failed = [] \<and> set names \<inter> sn_name ` set (realSnapshots before) \<subseteq> set deleted \<and>
           (\<exists>after. gs = [snaps_event node vmid after] \<and> verifiable after \<and>
              set names \<inter> sn_name ` set (realSnapshots after) = {})))"

lemma cascade_specI:
  assumes "verifiable before" and "refuse_names vmid i cnt names = None"
    and "cascade_part node vmid (map sn_name (realSnapshots before)) names deleted failed fs"
    and "list_all reads gs"
    and "err = None \<Longrightarrow> failed = [] \<and> set names \<inter> sn_name ` set (realSnapshots before) \<subseteq> set deleted \<and>
           (\<exists>after. gs = [snaps_event node vmid after] \<and> verifiable after \<and>
              set names \<inter> sn_name ` set (realSnapshots after) = {})"
  shows "cascade_spec node vmid names deleted err (snaps_event node vmid before # fs @ gs)"
  unfolding cascade_spec_def
  by (intro disjI2 exI [of _ before] exI [of _ fs] exI [of _ gs] exI [of _ failed])
    (use assms in \<open>simp add: refuse_names_None\<close>)

lemma traces_CascadeDeleteSnapshots:
  "traces (CascadeDeleteSnapshots env node vmid names)
     (\<lambda>r es. cascade_spec node vmid names (fst r) (snd r) es)"
  unfolding CascadeDeleteSnapshots_def
proof (intro traces_if traces_case_option, goal_cases)
  case names: 3
  show ?case
  proof (rule traces_bind [OF traces_verifiable], rule traces_case_sum, goal_cases)
    case (1 r es e)
    then show ?case by (auto intro!: traces_return simp: cascade_spec_def)
  next
    case before: (2 r es before)
    show ?case
    proof (rule traces_bind [OF traces_cascade_loop], rule traces_case_prod, rule traces_case_option, goal_cases)
      case (1 x fs deleted err)
      then have part: "cascade_part node vmid (map sn_name (realSnapshots before)) names deleted [] fs"
        and all: "set names \<inter> sn_name ` set (realSnapshots before) \<subseteq> set deleted" by auto
      show ?case
      proof (rule traces_bind [OF traces_verifiable], rule traces_return, goal_cases)
        case (1 y gs)
        with before names all cascade_specI [OF _ _ part, of 0 "length names" gs "cascade_verdict vmid names y"]
        show ?case by (auto simp: cascade_verdict_None)
      qed
    next
      case (2 x fs deleted err e)
      then obtain failed where
        "cascade_part node vmid (map sn_name (realSnapshots before)) names deleted failed fs" by auto
      from cascade_specI [OF _ _ this, of 0 "length names" "[]" "Some e"] before names show ?case
        by (intro traces_return) auto
    qed
  qed
qed (auto intro!: traces_return simp: cascade_spec_def)

text \<open>
  C8: on every path, errors included, the writes of a cascade are one DELETE for each name it
  reports deleted, in the requested order, and at most one more; each of these names was requested
  and in the list of PVE read first, and the task of each deleted one ended well.
\<close>

theorem CascadeDeleteSnapshots_progress:
  assumes "run_state (CascadeDeleteSnapshots env node vmid names) s = ((deleted, err), s')"
  shows "\<exists>es failed. log s' = log s @ es \<and> deletes node vmid (deleted @ failed) es \<and>
     length failed \<le> 1 \<and> distinct (deleted @ failed) \<and> subseq (deleted @ failed) names \<and>
     (\<forall>n \<in> set deleted. ended_well DELETE (snapshot_path node vmid n) es) \<and>
     (deleted @ failed \<noteq> [] \<longrightarrow>
        (\<exists>before. hd es = snaps_event node vmid before \<and> verifiable before \<and>
           set (deleted @ failed) \<subseteq> sn_name ` set (realSnapshots before)))"
proof -
  from traces_runD [OF traces_CascadeDeleteSnapshots assms] obtain es
    where es: "log s' = log s @ es" "cascade_spec node vmid names deleted err es" by auto
  then consider "deleted = []" "list_all reads es"
    | before fs gs failed where "es = snaps_event node vmid before # fs @ gs" "verifiable before"
        "cascade_part node vmid (map sn_name (realSnapshots before)) names deleted failed fs" "list_all reads gs"
    unfolding cascade_spec_def by blast
  then show ?thesis
  proof cases
    case 1
    with es(1) show ?thesis
      by (intro exI [of _ es] exI [of _ "[]"]) (simp add: deletes_def reads_no_writes)
  next
    case 2
    then have "deletes node vmid (deleted @ failed) es"
      and "\<forall>n \<in> set deleted. ended_well DELETE (snapshot_path node vmid n) es"
      by (auto simp: cascade_part_def deletes_def reads_no_writes intro: ended_well_mono)
    with 2 es(1) show ?thesis
      by (intro exI [of _ es] exI [of _ failed]) (auto simp: cascade_part_def)
  qed
qed

lemma CascadeDeleteSnapshots_spec:
  assumes "run_state (CascadeDeleteSnapshots env node vmid names) s = ((deleted, None), s')"
  shows "\<exists>before es after. log s' = log s @ snaps_event node vmid before # es @ [snaps_event node vmid after] \<and>
     verifiable before \<and> verifiable after \<and>
     set names \<inter> sn_name ` set (realSnapshots after) = {} \<and>
     set names \<inter> sn_name ` set (realSnapshots before) = set deleted"
proof -
  from traces_runD [OF traces_CascadeDeleteSnapshots assms] obtain es
    where es: "log s' = log s @ es" "cascade_spec node vmid names deleted None es" by auto
  from es(2) obtain before fs after where "es = snaps_event node vmid before # fs @ [snaps_event node vmid after]"
    "verifiable before" "verifiable after" "set names \<inter> sn_name ` set (realSnapshots after) = {}"
    "cascade_part node vmid (map sn_name (realSnapshots before)) names deleted [] fs"
    "set names \<inter> sn_name ` set (realSnapshots before) \<subseteq> set deleted"
    unfolding cascade_spec_def by auto
  with es(1) show ?thesis
    by (intro exI [of _ before] exI [of _ fs] exI [of _ after])
      (auto simp: cascade_part_def dest: subseq_subset)
qed

text \<open>
  A cascade that succeeds ends with a list of PVE that holds none of the requested names; the
  requested names of the first list are exactly the deleted ones.
\<close>

theorem CascadeDeleteSnapshots_success:
  assumes "run_state (CascadeDeleteSnapshots env node vmid names) s = ((deleted, None), s')"
  shows "\<exists>before es after. log s' = log s @ snaps_event node vmid before # es @ [snaps_event node vmid after] \<and>
     verifiable before \<and> verifiable after \<and>
     set names \<inter> sn_name ` set (realSnapshots after) = {} \<and>
     set names \<inter> sn_name ` set (realSnapshots before) = set deleted"
  by (rule CascadeDeleteSnapshots_spec [OF assms])

section \<open>Creation\<close>

lemma verify_created_None:
  "verify_created name vmid snaps = None \<Longrightarrow>
     \<exists>pre x post. snaps = pre @ x # post \<and> name \<notin> sn_name ` set pre \<and> sn_name x = name \<and> sn_vmstate x \<noteq> 0"
proof (induction snaps)
  case (Cons s snaps)
  show ?case
  proof (cases "sn_name s = name")
    case True
    with Cons.prems show ?thesis
      by (intro exI [of _ "[]"] exI [of _ s] exI [of _ snaps]) (simp split: if_splits)
  next
    case False
    with Cons obtain pre x post where "snaps = pre @ x # post" "name \<notin> sn_name ` set pre"
      "sn_name x = name" "sn_vmstate x \<noteq> 0" by auto
    with False show ?thesis
      by (intro exI [of _ "s # pre"] exI [of _ x] exI [of _ post]) auto
  qed
qed simp

text \<open>The names that may not be created: blank ones and the two reserved ones, in any case.\<close>

definition creatable :: "string \<Rightarrow> bool" where
  "creatable name \<longleftrightarrow> strings_TrimSpace name \<noteq> [] \<and>
     map ascii_lower (strings_TrimSpace name) \<notin> {''current'', ''pending''}"

lemma create_refusal_None: "create_refusal node vmid name = None \<longleftrightarrow> node \<noteq> [] \<and> creatable name"
proof -
  have "map ascii_lower ''current'' = ''current''" "map ascii_lower ''pending'' = ''pending''" by code_simp+
  then show ?thesis
    by (simp add: create_refusal_def creatable_def strings_EqualFold_def currentPseudoSnapshot_def pendingReservedName_def)
qed

definition create_spec ::
    "string \<Rightarrow> int \<Rightarrow> string \<Rightarrow> string \<Rightarrow> gerror option \<Rightarrow> event list \<Rightarrow> bool" where
  "create_spec node vmid name descr r es \<longleftrightarrow>
     r \<noteq> None \<and> list_all reads es \<or>
     (\<exists>before a rest. es = snaps_event node vmid before #
           EHttp POST (snapshots_path node vmid) (snapshot_form name descr) a # rest \<and>
        verifiable before \<and> name \<notin> sn_name ` set (realSnapshots before) \<and> creatable name \<and> list_all reads rest \<and>
        (r = None \<longrightarrow> (\<exists>u ws after pre x post. started a u \<and> task_seen_ok u rest \<and>
           rest = ws @ [snaps_event node vmid after] \<and> verifiable after \<and>
           realSnapshots after = pre @ x # post \<and> name \<notin> sn_name ` set pre \<and>
           sn_name x = name \<and> sn_vmstate x \<noteq> 0)))"

lemma create_specI:
  assumes "verifiable before" and "name \<notin> sn_name ` set (realSnapshots before)" and "creatable name"
    and "task_run POST (snapshots_path node vmid) (snapshot_form name descr) good es" and "list_all reads fs"
    and "r = None \<Longrightarrow> good \<and> (\<exists>after. fs = [snaps_event node vmid after] \<and> verifiable after \<and>
           verify_created name vmid (realSnapshots after) = None)"
  shows "create_spec node vmid name descr r (snaps_event node vmid before # es @ fs)"
proof -
  from assms(4) obtain a ws where es: "es = EHttp POST (snapshots_path node vmid) (snapshot_form name descr) a # ws"
    and ws: "list_all reads ws" and good: "good \<longrightarrow> (\<exists>u. started a u \<and> task_seen_ok u ws)"
    unfolding task_run_def by blast
  have "\<exists>u ws' after pre x post. started a u \<and> task_seen_ok u (ws @ fs) \<and>
           ws @ fs = ws' @ [snaps_event node vmid after] \<and> verifiable after \<and>
           realSnapshots after = pre @ x # post \<and> name \<notin> sn_name ` set pre \<and>
           sn_name x = name \<and> sn_vmstate x \<noteq> 0" if none: "r = None"
  proof -
    from assms(6) [OF none] good obtain u after where u: "started a u" "task_seen_ok u ws"
      and fs: "fs = [snaps_event node vmid after]" "verifiable after"
      and v: "verify_created name vmid (realSnapshots after) = None" by blast
    obtain pre x post where "realSnapshots after = pre @ x # post" "name \<notin> sn_name ` set pre"
      "sn_name x = name" "sn_vmstate x \<noteq> 0" using verify_created_None [OF v] by blast
    with u fs show ?thesis
      by (intro exI [of _ u] exI [of _ ws] exI [of _ after] exI [of _ pre] exI [of _ x] exI [of _ post]) simp
  qed
  with es ws assms(1-3,5) show ?thesis unfolding create_spec_def
    by (intro disjI2 exI [of _ before] exI [of _ a] exI [of _ "ws @ fs"]) simp
qed

lemma traces_CreateSnapshot:
  "traces (CreateSnapshot env node vmid name descr) (create_spec node vmid name descr)"
proof -
  have run: "traces (run_task env node POST (snapshots_path node vmid) form what)
     (\<lambda>r es. task_run POST (snapshots_path node vmid) form (r = None) es)" for form what
    using snapshot_paths_slash(1) [of node vmid] by (auto intro!: traces_run_task)
  show ?thesis
    unfolding CreateSnapshot_def Let_def
  proof (intro traces_case_option, goal_cases)
    case fine: 1
    show ?case
    proof (rule traces_bind [OF traces_verifiable], rule traces_case_sum, goal_cases)
      case (1 r es e)
      then show ?case by (auto intro!: traces_return simp: create_spec_def)
    next
      case before: (2 r es before)
      show ?case
      proof (rule traces_if, goal_cases)
        case 1
        with before show ?case by (auto intro!: traces_return simp: create_spec_def)
      next
        case new: 2
        then have spec: "create_spec node vmid name descr r (es @ ws @ gs)"
          if "task_run POST (snapshots_path node vmid) (snapshot_form name descr) good ws" "list_all reads gs"
            "r = None \<Longrightarrow> good \<and> (\<exists>after. gs = [snaps_event node vmid after] \<and> verifiable after \<and>
               verify_created name vmid (realSnapshots after) = None)" for r good ws gs
          using create_specI [OF _ _ _ that] before fine
          by (fastforce simp: create_refusal_None list_ex_iff)
        show ?case
        proof (rule traces_bind [OF run], rule traces_case_option, goal_cases)
          case (1 w ws)
          then show ?case
            by (intro traces_bind [OF traces_verifiable] traces_return traces_split) (auto intro!: spec)
        next
          case (2 w ws e)
          then show ?case using spec [of False ws "[]" "Some e"] by (intro traces_return) auto
        qed
      qed
    qed
  qed (auto intro!: traces_return simp: create_spec_def)
qed

text \<open>
  C10: the only write of a snapshot creation is one request for that name, which is neither blank
  nor reserved, with the VM state included, right after a list of PVE in which the name is free;
  a creation that succeeds saw its task end well and then a list in which the first snapshot of
  that name holds the VM state.
\<close>

theorem CreateSnapshot_guarded:
  assumes "run_state (CreateSnapshot env node vmid name descr) s = (r, s')"
  shows "\<exists>es. log s' = log s @ es \<and>
     (r \<noteq> None \<and> list_all reads es \<or>
      (\<exists>before form a rest. es = snaps_event node vmid before # EHttp POST (snapshots_path node vmid) form a # rest \<and>
         values_Get form ''snapname'' = name \<and> values_Get form ''vmstate'' = ''1'' \<and>
         values_Get form ''description'' = descr \<and>
         verifiable before \<and> name \<notin> sn_name ` set (realSnapshots before) \<and>
         strings_TrimSpace name \<noteq> [] \<and>
         map ascii_lower (strings_TrimSpace name) \<notin> {''current'', ''pending''} \<and> list_all reads rest \<and>
         (r = None \<longrightarrow> (\<exists>u ws after pre x post. started a u \<and> task_seen_ok u rest \<and>
            rest = ws @ [snaps_event node vmid after] \<and> verifiable after \<and>
            realSnapshots after = pre @ x # post \<and> name \<notin> sn_name ` set pre \<and>
            sn_name x = name \<and> sn_vmstate x \<noteq> 0))))"
proof -
  have form: "values_Get (snapshot_form name descr) ''snapname'' = name"
    "values_Get (snapshot_form name descr) ''vmstate'' = ''1''"
    "values_Get (snapshot_form name descr) ''description'' = descr"
    by (auto simp: snapshot_form_def values_Get_def values_Set_def update_conv' Let_def)
  from traces_runD [OF traces_CreateSnapshot assms] obtain es
    where es: "log s' = log s @ es" "create_spec node vmid name descr r es" by blast
  from es(2) show ?thesis
    unfolding create_spec_def creatable_def
  proof (elim disjE exE, goal_cases)
    case 1
    with es(1) show ?case by blast
  next
    case (2 before a rest)
    with es(1) form show ?case
      by (intro exI [of _ es] conjI disjI2 exI [of _ before] exI [of _ "snapshot_form name descr"]
          exI [of _ a] exI [of _ rest]) simp_all
  qed
qed

section \<open>A cascade clears the way for the rollback it was refused\<close>

lemma run_verifiable:
  "node \<noteq> [] \<Longrightarrow> e_snapshots env (log s) (snapshots_path node vmid) = Inr (Some snaps) \<Longrightarrow> verifiable snaps \<Longrightarrow>
     run_state (listSnapshotsVerifiable env node vmid) s =
       (Inr snaps, s\<lparr>log := log s @ [snaps_event node vmid snaps]\<rparr>)"
  by (simp add: listSnapshotsVerifiable_def ListSnapshots_def pc_snapshots_def run_perform)

lemma traces_run_task_error:
  "traces (run_task env node meth path form what) (\<lambda>r es. \<forall>e. r = Some e \<longrightarrow> (\<exists>fs. e = Errorf fs))"
proof -
  have "traces (task_call env meth path form what)
     (\<lambda>r es. \<forall>e. r = Inl e \<longrightarrow> (\<exists>fs. e = Errorf fs))"
    unfolding task_call_def
    by (rule traces_bind [OF traces_RawRequest], rule traces_return) (auto split: sum.splits)
  then show ?thesis
    unfolding run_task_def
    by (intro traces_bind [where ?T1.0 = "\<lambda>r es. \<forall>e. r = Inl e \<longrightarrow> (\<exists>fs. e = Errorf fs)"] traces_split
        traces_bind [OF traces_WaitForTask_ok] traces_return) auto
qed

lemma run_NewerSnapshots_Inr:
  assumes "run_state (NewerSnapshots env node vmid name) s = (Inr ns, s')"
  shows "\<exists>snaps. e_snapshots env (log s) (snapshots_path node vmid) = Inr (Some snaps) \<and> verifiable snaps \<and>
     newer_of vmid name (realSnapshots snaps) = Inr ns"
  using assms
  by (auto simp: NewerSnapshots_def listSnapshotsVerifiable_def ListSnapshots_def pc_snapshots_def run_perform
      split: sum.splits option.splits if_splits)

lemma Rollback_refused:
  assumes "run_state (Rollback env node vmid name) s = (Some (NotNewestSnapshotError v t newer), s')"
  shows "\<exists>snaps ns. node \<noteq> [] \<and> strings_TrimSpace name \<noteq> [] \<and> \<not> isPseudoEntryName name \<and>
     e_snapshots env (log s) (snapshots_path node vmid) = Inr (Some snaps) \<and> verifiable snaps \<and>
     newer_of vmid name (realSnapshots snaps) = Inr ns \<and> ns \<noteq> [] \<and> newer = map sn_name ns"
proof -
  from assms obtain r s1 where ok: "node \<noteq> []" "strings_TrimSpace name \<noteq> []" "\<not> isPseudoEntryName name"
    and r: "run_state (NewerSnapshots env node vmid name) s = (r, s1)"
    by (cases "run_state (NewerSnapshots env node vmid name) s") (auto simp: Rollback_def split: if_splits)
  show ?thesis
  proof (cases r)
    case (Inl e)
    with assms ok r show ?thesis by (simp add: Rollback_def)
  next
    case (Inr ns)
    have "ns \<noteq> []"
    proof
      assume "ns = []"
      with assms ok r Inr have "run_state (run_task env node POST (rollback_path node vmid name) []
          [Lit ''rollback vm '', Dec vmid, Lit '' to snapshot '', Quo name]) s1 =
          (Some (NotNewestSnapshotError v t newer), s')" by (simp add: Rollback_def)
      from traces_runD [OF traces_run_task_error this] show False by auto
    qed
    moreover from this assms ok r Inr have "newer = map sn_name ns" by (simp add: Rollback_def)
    moreover obtain snaps where "e_snapshots env (log s) (snapshots_path node vmid) = Inr (Some snaps)"
      "verifiable snaps" "newer_of vmid name (realSnapshots snaps) = Inr ns"
      using run_NewerSnapshots_Inr r Inr by blast
    ultimately show ?thesis using ok by blast
  qed
qed

lemma newer_of_cleared:
  assumes "newer_of vmid name real = Inr ns" and "distinct (map sn_name real)"
    and "set left \<subseteq> set real" and "distinct (map sn_name left)" and "name \<in> sn_name ` set left"
    and "set (map sn_name ns) \<inter> sn_name ` set left = {}"
  shows "newer_of vmid name left = Inr []"
proof -
  from assms(1) obtain pre found post where split: "split_target name real = Some (pre, found, post)"
    and ties: "sn_snaptime found \<notin> sn_snaptime ` set (pre @ post)"
    and ns: "ns = sort_key sn_snaptime (filter (\<lambda>s. sn_snaptime found < sn_snaptime s) real)"
    unfolding newer_of_Inr by blast
  note found = split_targetD [OF split]
  have only: "x = found" if "x \<in> set real" "sn_name x = name" for x
    using that assms(2) found by (metis distinct_map in_set_conv_decomp inj_onD)
  from assms(5) obtain x where "x \<in> set left" "sn_name x = name" by auto
  with only assms(3) have "found \<in> set left" by auto
  then obtain pre' post' where left: "left = pre' @ found # post'" by (meson split_list)
  with assms(4) found have notin: "name \<notin> sn_name ` set (pre' @ post')" by auto
  have older: "sn_snaptime y < sn_snaptime found" if y: "y \<in> set (pre' @ post')" for y
  proof -
    from y left assms(3) have real: "y \<in> set real" by auto
    from y notin have "sn_name y \<noteq> name" by auto
    with real found have "y \<in> set (pre @ post)" by auto
    with ties have "sn_snaptime y \<noteq> sn_snaptime found" by (metis image_eqI)
    moreover from y left assms(6) have "y \<notin> set ns" by auto
    with ns real have "\<not> sn_snaptime found < sn_snaptime y" by simp
    ultimately show ?thesis by simp
  qed
  have "split_target name left = Some (pre', found, post')"
    using split_target_append [of found name pre' post'] notin found left by auto
  moreover have "sn_snaptime found \<notin> sn_snaptime ` set (pre' @ post')"
    using older by (metis imageE less_irrefl)
  moreover have "[] = sort_key sn_snaptime (filter (\<lambda>s. sn_snaptime found < sn_snaptime s) left)"
  proof -
    have "filter (\<lambda>s. sn_snaptime found < sn_snaptime s) left = []"
      using older left by (force simp: filter_empty_conv dest: less_asym)
    then show ?thesis by simp
  qed
  ultimately show ?thesis unfolding newer_of_Inr by blast
qed

lemma Rollback_sends:
  assumes "node \<noteq> []" and "strings_TrimSpace name \<noteq> []" and "\<not> isPseudoEntryName name"
    and "e_snapshots env (log s) (snapshots_path node vmid) = Inr (Some snaps)" and "verifiable snaps"
    and "newer_of vmid name (realSnapshots snaps) = Inr []"
  shows "\<exists>a es. log (snd (run_state (Rollback env node vmid name) s)) =
     log s @ snaps_event node vmid snaps # EHttp POST (rollback_path node vmid name) [] a # es"
proof -
  let ?s1 = "s\<lparr>log := log s @ [snaps_event node vmid snaps]\<rparr>"
  let ?task = "run_task env node POST (rollback_path node vmid name) []
     [Lit ''rollback vm '', Dec vmid, Lit '' to snapshot '', Quo name]"
  have run: "traces ?task (\<lambda>r es. task_run POST (rollback_path node vmid name) [] (r = None) es)"
    using snapshot_paths_slash(3) [of node vmid name] by (auto intro!: traces_run_task)
  obtain r s2 where task: "run_state ?task ?s1 = (r, s2)" by force
  from traces_runD [OF run this] obtain a es
    where "log s2 = log s @ snaps_event node vmid snaps # EHttp POST (rollback_path node vmid name) [] a # es"
    unfolding task_run_def by auto
  with assms task show ?thesis by (simp add: Rollback_def NewerSnapshots_def run_verifiable)
qed

text \<open>
  C9: when a rollback is refused because of newer snapshots and the cascade over them, newest
  first, succeeds, the retried rollback sends its request: provided that PVE lists the snapshots
  the cascade ended with, that these were there before and still hold the target, and that names
  are unique.
\<close>

theorem cascade_clears_rollback:
  assumes "run_state (Rollback env node vmid name) s1 = (Some (NotNewestSnapshotError vmid name newer), s1')"
    and "e_snapshots env (log s1) (snapshots_path node vmid) = Inr (Some snaps)"
    and "run_state (CascadeDeleteSnapshots env node vmid (CascadeOrder newer)) s2 = ((deleted, None), s3)"
    and "last (log s3) = snaps_event node vmid left"
    and "e_snapshots env (log s3) (snapshots_path node vmid) = Inr (Some left)"
    and "set (realSnapshots left) \<subseteq> set (realSnapshots snaps)"
    and "name \<in> sn_name ` set (realSnapshots left)"
    and "distinct (map sn_name (realSnapshots snaps))" and "distinct (map sn_name (realSnapshots left))"
  shows "\<exists>a es. log (snd (run_state (Rollback env node vmid name) s3)) =
     log s3 @ snaps_event node vmid left # EHttp POST (rollback_path node vmid name) [] a # es"
proof -
  from Rollback_refused [OF assms(1)] assms(2) obtain ns
    where ok: "node \<noteq> []" "strings_TrimSpace name \<noteq> []" "\<not> isPseudoEntryName name"
      and ns: "newer_of vmid name (realSnapshots snaps) = Inr ns" "newer = map sn_name ns" by auto
  from CascadeDeleteSnapshots_spec [OF assms(3)] assms(4)
  have left: "verifiable left" "set newer \<inter> sn_name ` set (realSnapshots left) = {}"
    by (auto simp: CascadeOrder_def)
  then have "newer_of vmid name (realSnapshots left) = Inr []"
    using newer_of_cleared [OF ns(1) assms(8,6,9,7)] ns(2) by simp
  from Rollback_sends [OF ok assms(5) left(1) this] show ?thesis .
qed

section \<open>A VM with two snapshots\<close>

text \<open>The snapshots a and b are there from the start; a DELETE removes b, a POST adds c.\<close>

definition snap_list :: "event list \<Rightarrow> snapshot option list" where
  "snap_list h = map Some ([snap ''current'' 0, snap ''a'' 5] @
     (if list_ex (is_request DELETE) h then [] else [snap ''b'' 7]) @
     (if list_ex (is_request POST) h then [snap ''c'' 9] else []))"

definition snap_world :: env where
  "snap_world = calm\<lparr>e_http := (\<lambda>_ _ _ _. upid_answer), e_snapshots := (\<lambda>h p. Inr (Some (snap_list h)))\<rparr>"

abbreviation task_ok_event :: event where
  "task_ok_event \<equiv> ETask demo_upid (Inr \<lparr>ts_status = ''stopped'', ts_exitstatus = ''OK''\<rparr>)"

lemma run_task_snap_world:
  "path = CHR ''/'' # p \<Longrightarrow> unsupported_method meth = None \<Longrightarrow>
     run_state (run_task snap_world ''pve1'' meth path form what) s =
       (None, s\<lparr>log := log s @ [EHttp meth path form upid_answer, task_ok_event]\<rparr>)"
  by (simp add: run_task_def task_call_def RawRequest_def strings_HasPrefix_def http_do_def run_perform
      snap_world_def raw_upid decodeUPIDScalar_def run_WaitForTask_calm)

lemma verifiable_snap_list: "verifiable (snap_list h)"
  by (simp add: verifiable_def snap_list_def snap_def currentPseudoSnapshot_def)

lemma run_list_snap_world:
  "run_state (listSnapshotsVerifiable snap_world ''pve1'' 100) s =
     (Inr (snap_list (log s)), s\<lparr>log := log s @ [snaps_event ''pve1'' 100 (snap_list (log s))]\<rparr>)"
  by (simp add: run_verifiable snap_world_def verifiable_snap_list)

lemma real_snap_list:
  "realSnapshots (snap_list h) = snap ''a'' 5 #
     (if list_ex (is_request DELETE) h then [] else [snap ''b'' 7]) @
     (if list_ex (is_request POST) h then [snap ''c'' 9] else [])"
  by (simp add: snap_list_def snap_def currentPseudoSnapshot_def)

lemma plain_names:
  "strings_TrimSpace ''a'' = ''a''" "strings_TrimSpace ''b'' = ''b''" "strings_TrimSpace ''c'' = ''c''"
  "map ascii_lower ''c'' = ''c''"
  by code_simp+

lemma plain_not_pseudo: "\<not> isPseudoEntryName ''a''" "\<not> isPseudoEntryName ''b''"
  by (simp_all add: isPseudoEntryName_def currentPseudoSnapshot_def plain_names)

lemma run_cascade_snap_world:
  assumes "\<not> list_ex (is_request DELETE) (log s)"
  shows "\<exists>es left. run_state (CascadeDeleteSnapshots snap_world ''pve1'' 100 [''b'']) s =
     (([''b''], None), s\<lparr>log := log s @ es @ [snaps_event ''pve1'' 100 left]\<rparr>) \<and>
     left = snap_list (log s @ es) \<and> list_ex (is_request DELETE) es \<and> \<not> list_ex (is_request POST) es"
proof -
  obtain p where p: "snapshot_path ''pve1'' 100 ''b'' = CHR ''/'' # p" using snapshot_paths_slash(2) by blast
  let ?es = "[EHttp DELETE (snapshot_path ''pve1'' 100 ''b'') [] upid_answer, task_ok_event]"
  have "run_state (cascade_loop snap_world ''pve1'' 100 (map sn_name (realSnapshots (snap_list (log s)))) [] [''b''])
       (s\<lparr>log := log s @ [snaps_event ''pve1'' 100 (snap_list (log s))]\<rparr>) =
     (([''b''], None), s\<lparr>log := log s @ [snaps_event ''pve1'' 100 (snap_list (log s))] @ ?es\<rparr>)"
    using assms p by (simp add: real_snap_list snap_def run_task_snap_world)
  moreover have "cascade_verdict 100 [''b'']
      (Inr (snap_list (log s @ [snaps_event ''pve1'' 100 (snap_list (log s))] @ ?es))) = None"
    by (auto simp: cascade_verdict_None real_snap_list snap_def)
  ultimately show ?thesis
    by (intro exI [of _ "[snaps_event ''pve1'' 100 (snap_list (log s))] @ ?es"] exI)
      (simp add: CascadeDeleteSnapshots_def plain_names plain_not_pseudo run_list_snap_world del: cascade_loop.simps)
qed

lemma run_rollback_a:
  assumes "\<not> list_ex (is_request DELETE) (log s)" and "\<not> list_ex (is_request POST) (log s)"
  shows "\<exists>s'. run_state (Rollback snap_world ''pve1'' 100 ''a'') s = (Some (NotNewestSnapshotError 100 ''a'' [''b'']), s')"
proof -
  have "newer_of 100 ''a'' (realSnapshots (snap_list (log s))) = Inr [snap ''b'' 7]"
    using assms by (simp add: real_snap_list newer_of_def snap_def)
  then show ?thesis
    by (simp add: Rollback_def NewerSnapshots_def plain_names plain_not_pseudo run_list_snap_world snap_def)
qed

theorem cascade_clears_rollback_witness:
  "\<exists>(s3 :: sess) es a fs. log (snd (run_state (Rollback snap_world ''pve1'' 100 ''a'') s3)) =
     es @ EHttp POST (rollback_path ''pve1'' 100 ''a'') [] a # fs"
proof -
  obtain s1 where refused: "run_state (Rollback snap_world ''pve1'' 100 ''a'') fresh =
    (Some (NotNewestSnapshotError 100 ''a'' [''b'']), s1)" using run_rollback_a [of fresh] by auto
  obtain es left where casc: "run_state (CascadeDeleteSnapshots snap_world ''pve1'' 100 [''b'']) fresh =
     (([''b''], None), fresh\<lparr>log := log fresh @ es @ [snaps_event ''pve1'' 100 left]\<rparr>)"
    and left: "left = snap_list (log fresh @ es)" "list_ex (is_request DELETE) es" "\<not> list_ex (is_request POST) es"
    using run_cascade_snap_world [of fresh] by auto
  have again: "e_snapshots snap_world (log (fresh\<lparr>log := log fresh @ es @ [snaps_event ''pve1'' 100 left]\<rparr>))
      (snapshots_path ''pve1'' 100) = Inr (Some left)"
    using left by (simp add: snap_world_def snap_list_def)
  have first: "e_snapshots snap_world (log fresh) (snapshots_path ''pve1'' 100) = Inr (Some (snap_list []))"
    by (simp add: snap_world_def)
  have real: "realSnapshots left = [snap ''a'' 5]" "realSnapshots (snap_list []) = [snap ''a'' 5, snap ''b'' 7]"
    using left by (simp_all add: real_snap_list)
  from cascade_clears_rollback [OF refused first, unfolded CascadeOrder_def, simplified, OF casc _ again] real
  obtain a fs where "log (snd (run_state (Rollback snap_world ''pve1'' 100 ''a'')
      (fresh\<lparr>log := log fresh @ es @ [snaps_event ''pve1'' 100 left]\<rparr>))) =
     log (fresh\<lparr>log := log fresh @ es @ [snaps_event ''pve1'' 100 left]\<rparr>) @
       snaps_event ''pve1'' 100 left # EHttp POST (rollback_path ''pve1'' 100 ''a'') [] a # fs"
    by (auto simp: snap_def)
  then show ?thesis
    by (intro exI [of _ "fresh\<lparr>log := log fresh @ es @ [snaps_event ''pve1'' 100 left]\<rparr>"]
        exI [of _ "es @ [snaps_event ''pve1'' 100 left, snaps_event ''pve1'' 100 left]"] exI [of _ a] exI [of _ fs]) simp
qed

lemma run_rollback_b:
  assumes "\<not> list_ex (is_request DELETE) (log s)" and "\<not> list_ex (is_request POST) (log s)"
  shows "\<exists>s'. run_state (Rollback snap_world ''pve1'' 100 ''b'') s = (None, s')"
proof -
  have "newer_of 100 ''b'' (realSnapshots (snap_list (log s))) = Inr []"
    using assms by (simp add: real_snap_list newer_of_def snap_def)
  moreover obtain p where "rollback_path ''pve1'' 100 ''b'' = CHR ''/'' # p" using snapshot_paths_slash(3) by blast
  ultimately show ?thesis
    by (simp add: Rollback_def NewerSnapshots_def plain_names plain_not_pseudo run_list_snap_world run_task_snap_world)
qed

theorem Rollback_only_newest_witness:
  "\<exists>(s' :: sess) snaps a rest. log s' = snaps_event ''pve1'' 100 snaps # EHttp POST (rollback_path ''pve1'' 100 ''b'') [] a # rest \<and>
     strictly_newest ''b'' (realSnapshots snaps)"
proof -
  obtain s' where "run_state (Rollback snap_world ''pve1'' 100 ''b'') fresh = (None, s')"
    using run_rollback_b [of fresh] by auto
  from Rollback_only_newest [OF this] show ?thesis by auto
qed

theorem CascadeDeleteSnapshots_progress_witness:
  "\<exists>(s' :: sess). deletes ''pve1'' 100 [''b''] (log s') \<and> ended_well DELETE (snapshot_path ''pve1'' 100 ''b'') (log s')"
proof -
  obtain s' where run: "run_state (CascadeDeleteSnapshots snap_world ''pve1'' 100 [''b'']) fresh = (([''b''], None), s')"
    using run_cascade_snap_world [of fresh] by auto
  from CascadeDeleteSnapshots_progress [OF run] obtain failed
    where f: "distinct (''b'' # failed)" "subseq (''b'' # failed) [''b'']"
      "deletes ''pve1'' 100 ([''b''] @ failed) (log s')" "ended_well DELETE (snapshot_path ''pve1'' 100 ''b'') (log s')"
    by auto
  from f(2) have "failed = []" by simp
  with f show ?thesis by auto
qed

theorem CascadeDeleteSnapshots_success_witness:
  "\<exists>(s' :: sess) es after. log s' = es @ [snaps_event ''pve1'' 100 after] \<and> verifiable after \<and>
     ''b'' \<notin> sn_name ` set (realSnapshots after)"
proof -
  obtain s' where run: "run_state (CascadeDeleteSnapshots snap_world ''pve1'' 100 [''b'']) fresh = (([''b''], None), s')"
    using run_cascade_snap_world [of fresh] by auto
  from CascadeDeleteSnapshots_success [OF run] obtain before es after
    where "log s' = (snaps_event ''pve1'' 100 before # es) @ [snaps_event ''pve1'' 100 after]" "verifiable after"
      "''b'' \<notin> sn_name ` set (realSnapshots after)" by auto
  then show ?thesis by blast
qed

lemma run_create_c:
  assumes "\<not> list_ex (is_request POST) (log s)"
  shows "\<exists>s'. run_state (CreateSnapshot snap_world ''pve1'' 100 ''c'' ''before upgrade'') s = (None, s')"
proof -
  obtain p where "snapshots_path ''pve1'' 100 = CHR ''/'' # p" using snapshot_paths_slash(1) by blast
  moreover have "create_refusal ''pve1'' 100 ''c'' = None"
    by (simp add: create_refusal_None creatable_def plain_names)
  moreover have "verify_created ''c'' 100 [snap ''a'' 5, snap ''c'' 9] = None"
    "verify_created ''c'' 100 [snap ''a'' 5, snap ''b'' 7, snap ''c'' 9] = None"
    by (simp_all add: snap_def)
  ultimately show ?thesis
    using assms
    by (simp add: CreateSnapshot_def run_list_snap_world run_task_snap_world real_snap_list) (simp add: snap_def)
qed

theorem CreateSnapshot_guarded_witness:
  "\<exists>(s' :: sess) ws after. log s' = ws @ [snaps_event ''pve1'' 100 after] \<and> verifiable after \<and>
     ''c'' \<in> sn_name ` set (realSnapshots after)"
proof -
  obtain s' where run: "run_state (CreateSnapshot snap_world ''pve1'' 100 ''c'' ''before upgrade'') fresh = (None, s')"
    using run_create_c [of fresh] by auto
  from CreateSnapshot_guarded [OF run] obtain before form a rest ws after pre x post
    where "log s' = snaps_event ''pve1'' 100 before # EHttp POST (snapshots_path ''pve1'' 100) form a # rest"
      "rest = ws @ [snaps_event ''pve1'' 100 after]" "verifiable after"
      "realSnapshots after = pre @ x # post" "sn_name x = ''c''"
    unfolding fresh_simps append_Nil by blast
  then show ?thesis by (intro exI [of _ s'] exI [of _ "snaps_event ''pve1'' 100 before #
      EHttp POST (snapshots_path ''pve1'' 100) form a # ws"] exI [of _ after]) force
qed

end
