(* ===== verification/StorageOrphans.thy ===== *)
theory StorageOrphans
  imports Snapshot VmFields VmClone PveCluster
begin

text \<open>
  Storage volumes as \<open>internal/pve/storageorphans.go\<close> sees them: the content of a storage, the volids
  that the config and the snapshot sections of a VM claim, and what is left over on a storage when
  the claimed ones are taken away.  A set of volids is kept as a list.
\<close>

section \<open>The content of a storage\<close>

definition claimableContentTypes :: "string \<Rightarrow> bool" where
  "claimableContentTypes c \<longleftrightarrow> c = ''images'' \<or> c = ''iso''"

definition content_path :: "string \<Rightarrow> string \<Rightarrow> string" where
  "content_path node storage =
     ''/nodes/'' @ url_PathEscape node @ ''/storage/'' @ url_PathEscape storage @ ''/content''"

definition storageContentWithType ::
    "env \<Rightarrow> string \<Rightarrow> string \<Rightarrow> ('r sess_scheme, gerror + content_entry option list) state" where
  "storageContentWithType env node storage = do {
     r \<leftarrow> pc_content env (content_path node storage);
     ret (case r of
         Inl e \<Rightarrow> Inl e
       | Inr None \<Rightarrow> Inl (Errorf [Lit ''storage '', Quo storage, Lit '' on '', Quo node, Lit '': '',
           Wrapped (Sentinel ErrUnverifiableRead), Lit '': content list payload was null''])
       | Inr (Some raw) \<Rightarrow>
           if nullEntry raw \<ge> 0 then
             Inl (Errorf [Lit ''storage '', Quo storage, Lit '' on '', Quo node, Lit '': '',
               Wrapped (Sentinel ErrUnverifiableRead), Lit '': content list entry '', Dec (nullEntry raw), Lit '' is null''])
           else Inr raw)
   }"

text \<open>
  \<open>GetStorageVolumes\<close>: the same list, decoded without the classification; an entry that carries no
  field of a volume decodes to the zero value.
\<close>

definition entry_volume :: "content_entry \<Rightarrow> storage_content" where
  "entry_volume e = (case ce_storage e of Some sc \<Rightarrow> sc | None \<Rightarrow> \<lparr>sc_volid = [], sc_vmid = 0\<rparr>)"

definition GetStorageVolumes ::
    "env \<Rightarrow> string \<Rightarrow> string \<Rightarrow> ('r sess_scheme, gerror + storage_content list) state" where
  "GetStorageVolumes env node storage =
     (if node = [] \<or> storage = [] then
        ret (Inl (ErrorString ''get storage volumes: node and storage are required''))
      else do {
        r \<leftarrow> pc_content env (content_path node storage);
        ret (case r of
            Inl e \<Rightarrow> Inl (Errorf [Lit ''get volumes on storage '', Quo storage, Lit '' on '', Quo node, Lit '': '', Wrapped e])
          | Inr None \<Rightarrow> Inl (Errorf [Lit ''get volumes on storage '', Quo storage, Lit '' on '', Quo node, Lit '': '',
              Wrapped (Sentinel ErrUnverifiableRead), Lit '': list payload was null''])
          | Inr (Some raw) \<Rightarrow>
              if nullEntry raw \<ge> 0 then
                Inl (Errorf [Lit ''get volumes on storage '', Quo storage, Lit '' on '', Quo node, Lit '': '',
                  Wrapped (Sentinel ErrUnverifiableRead), Lit '': entry '', Dec (nullEntry raw), Lit '' is null''])
              else Inr (map entry_volume (entries_of raw)))
      })"

definition volume_path :: "string \<Rightarrow> string \<Rightarrow> string \<Rightarrow> string" where
  "volume_path node storage volid = content_path node storage @ ''/'' @ url_PathEscape volid"

section \<open>The volids of a config\<close>

definition firstCommaVolid :: "string \<Rightarrow> string" where
  "firstCommaVolid slot =
     (let v = takeWhile (\<lambda>c. c \<noteq> CHR '','') slot in if CHR '':'' \<in> set v then v else [])"

definition allDigits :: "string \<Rightarrow> bool" where
  "allDigits s \<longleftrightarrow> s \<noteq> [] \<and> list_all is_digit s"

definition isDiskShapedKey :: "string \<Rightarrow> bool" where
  "isDiskShapedKey key \<longleftrightarrow>
     key = ''efidisk0'' \<or> key = ''tpmstate0'' \<or>
     list_ex (\<lambda>p. case strings_CutPrefix key p of (rest, ok) \<Rightarrow> ok \<and> allDigits rest)
       [''ide'', ''scsi'', ''sata'', ''virtio'', ''unused'']"

record configRead =
  cf_volids :: "string list"
  cf_vmstate :: string
  cf_lock :: string

definition config_error :: "int \<Rightarrow> string \<Rightarrow> frag list \<Rightarrow> gerror" where
  "config_error vmid snapshot what =
     Errorf ((if snapshot = [] then [Lit ''config for vmid '', Dec vmid, Lit '': '']
              else [Lit ''snapshot '', Quo snapshot, Lit '' config for vmid '', Dec vmid, Lit '': '']) @
             Wrapped (Sentinel ErrUnverifiableRead) # what)"

definition note_slot :: "string \<Rightarrow> string \<Rightarrow> configRead \<Rightarrow> configRead" where
  "note_slot key s out =
     (let out = (if key = ''vmstate'' then out\<lparr>cf_vmstate := s\<rparr> else out);
          v = firstCommaVolid s
      in if v \<noteq> [] then out\<lparr>cf_volids := cf_volids out @ [v]\<rparr> else out)"

fun config_scan :: "int \<Rightarrow> string \<Rightarrow> bool \<Rightarrow> configRead \<Rightarrow> json gomap \<Rightarrow> gerror + configRead" where
  "config_scan vmid snapshot strict out [] = Inr out"
| "config_scan vmid snapshot strict out ((key, raw) # cfg) =
     (if key = ''lock'' then
        (case unmarshal_string raw of
           None \<Rightarrow> if strict then Inl (config_error vmid snapshot [Lit '': key '', Quo ''lock'', Lit '' is present with a non-string value''])
                   else config_scan vmid snapshot strict out cfg
         | Some s \<Rightarrow> config_scan vmid snapshot strict (out\<lparr>cf_lock := s\<rparr>) cfg)
      else if \<not> isDiskShapedKey key \<and> key \<noteq> ''vmstate'' then config_scan vmid snapshot strict out cfg
      else (case unmarshal_string raw of
           None \<Rightarrow> if strict then Inl (config_error vmid snapshot [Lit '': key '', Quo key, Lit '' is present with a non-string value''])
                   else config_scan vmid snapshot strict out cfg
         | Some s \<Rightarrow> config_scan vmid snapshot strict (note_slot key s out) cfg))"

definition config_volids_of :: "int \<Rightarrow> string \<Rightarrow> bool \<Rightarrow> gerror + json \<Rightarrow> gerror + configRead" where
  "config_volids_of vmid snapshot strict r =
     (case r of
        Inl e \<Rightarrow> Inl e
      | Inr raw \<Rightarrow>
          (case unmarshal_map raw of
             None \<Rightarrow> Inl (config_error vmid snapshot [Lit '': '', Wrapped json_type_error])
           | Some (notnil, cfg) \<Rightarrow>
               if snapshot = [] \<and> map_of cfg ''digest'' = None then
                 Inl (config_error vmid snapshot [Lit '': config carries no digest''])
               else if snapshot \<noteq> [] \<and> cfg = [] then
                 Inl (config_error vmid snapshot [Lit '': empty config decode''])
               else (case config_scan vmid snapshot strict \<lparr>cf_volids = [], cf_vmstate = [], cf_lock = []\<rparr> cfg of
                   Inl e \<Rightarrow> Inl e
                 | Inr out \<Rightarrow> Inr (out\<lparr>cf_volids := sort (cf_volids out)\<rparr>))))"

definition configVolids ::
    "env \<Rightarrow> int \<Rightarrow> string \<Rightarrow> string \<Rightarrow> url_values \<Rightarrow> bool \<Rightarrow> ('r sess_scheme, gerror + configRead) state" where
  "configVolids env vmid snapshot path params strict = do {
     r \<leftarrow> RawRequest env GET path params;
     ret (config_volids_of vmid snapshot strict r)
   }"

section \<open>The claimed volumes\<close>

definition claimed_error :: "int \<Rightarrow> frag list \<Rightarrow> gerror" where
  "claimed_error vmid what = Errorf ([Lit ''claimed volumes for vmid '', Dec vmid, Lit '': ''] @ what)"

definition live_path :: "string \<Rightarrow> int \<Rightarrow> string" where
  "live_path node vmid = qemu_path node vmid ''/config''"

definition section_path :: "string \<Rightarrow> int \<Rightarrow> string \<Rightarrow> string" where
  "section_path node vmid name = qemu_path node vmid (''/snapshot/'' @ url_PathEscape name @ ''/config'')"

fun claim_live ::
    "env \<Rightarrow> string \<Rightarrow> int \<Rightarrow> string list \<Rightarrow> url_values list \<Rightarrow> ('r sess_scheme, gerror + string list) state" where
  "claim_live env node vmid claimed [] = ret (Inr claimed)"
| "claim_live env node vmid claimed (params # views) = do {
     r \<leftarrow> configVolids env vmid [] (live_path node vmid) params True;
     case r of
       Inl e \<Rightarrow> ret (Inl (claimed_error vmid [Wrapped e]))
     | Inr cr \<Rightarrow>
         if strings_HasPrefix (cf_lock cr) ''suspend'' \<and> firstCommaVolid (cf_vmstate cr) = [] then
           ret (Inl (claimed_error vmid [Wrapped (Sentinel ErrUnverifiableRead), Lit '': lock '', Quo (cf_lock cr),
             Lit '' asserts a suspend-family state volume but the config carries no vmstate volid'']))
         else claim_live env node vmid (claimed @ cf_volids cr) views
   }"

fun claim_sections ::
    "env \<Rightarrow> string \<Rightarrow> int \<Rightarrow> string list \<Rightarrow> snapshot list \<Rightarrow> ('r sess_scheme, gerror + string list) state" where
  "claim_sections env node vmid claimed [] = ret (Inr claimed)"
| "claim_sections env node vmid claimed (s # snaps) = do {
     r \<leftarrow> configVolids env vmid (sn_name s) (section_path node vmid (sn_name s)) [] True;
     case r of
       Inl e \<Rightarrow> ret (Inl (claimed_error vmid [Wrapped e]))
     | Inr cr \<Rightarrow>
         if sn_vmstate s \<noteq> 0 \<and> firstCommaVolid (cf_vmstate cr) = [] then
           ret (Inl (claimed_error vmid [Wrapped (Sentinel ErrUnverifiableRead), Lit '': snapshot '', Quo (sn_name s),
             Lit '' list reports vmstate='', Dec (sn_vmstate s), Lit '' but its section carries no vmstate volid'']))
         else claim_sections env node vmid (claimed @ cf_volids cr) snaps
   }"

definition ClaimedVolumes :: "env \<Rightarrow> string \<Rightarrow> int \<Rightarrow> ('r sess_scheme, gerror + string list) state" where
  "ClaimedVolumes env node vmid =
     (if node = [] then ret (Inl (claimed_error vmid [Lit ''node is required'']))
      else do {
        live \<leftarrow> claim_live env node vmid [] [[], [(''current'', [''1''])]];
        case live of
          Inl e \<Rightarrow> ret (Inl e)
        | Inr claimed \<Rightarrow> do {
            r \<leftarrow> listSnapshotsVerifiable env node vmid;
            case r of
              Inl e \<Rightarrow> ret (Inl (claimed_error vmid [Wrapped e]))
            | Inr snaps \<Rightarrow> claim_sections env node vmid claimed (realSnapshots snaps)
          }
      })"

section \<open>What is left over\<close>

definition refuseIfShared :: "env \<Rightarrow> string \<Rightarrow> string \<Rightarrow> ('r sess_scheme, gerror option) state" where
  "refuseIfShared env node storage = do {
     r \<leftarrow> Client_GetStorage env node storage;
     ret (case r of
         Inl e \<Rightarrow> Some (Errorf [Lit ''orphan volumes: get storage '', Quo storage, Lit '' on '', Quo node, Lit '': '', Wrapped e])
       | Inr st \<Rightarrow>
           if st_shared st \<noteq> 0 then
             Some (Errorf [Lit ''orphan volumes: storage '', Quo storage, Lit '' on '', Quo node,
               Lit '' is shared (shared=1): the claimed set this function builds is scoped to node '', Quo node,
               Lit '' alone and cannot see volumes claimed by VMs on other cluster nodes '', Lit em_dash,
               Lit '' refusing rather than returning a diff that may falsely report volumes in active use elsewhere as orphaned''])
           else None)
   }"

fun collect_orphans ::
    "int \<Rightarrow> content_entry option list \<Rightarrow> string list \<Rightarrow> gerror + storage_content list" where
  "collect_orphans i [] claimed = Inr []"
| "collect_orphans i (entry # content) claimed =
     (case entry of
        None \<Rightarrow> Inl (Errorf [Lit ''orphan diff: '', Wrapped (Sentinel ErrUnverifiableRead), Lit '': content entry '',
          Dec i, Lit '' is null''])
      | Some e \<Rightarrow>
          (case collect_orphans (i + 1) content claimed of
             Inl err \<Rightarrow> Inl err
           | Inr orphans \<Rightarrow>
               (case ce_storage e of
                  None \<Rightarrow> Inr orphans
                | Some sc \<Rightarrow>
                    if \<not> claimableContentTypes (ce_content e) then Inr orphans
                    else if sc_volid sc \<in> set claimed then Inr orphans
                    else Inr (sc # orphans))))"

definition orphansFromClaimed ::
    "content_entry option list \<Rightarrow> string list \<Rightarrow> gerror + storage_content list" where
  "orphansFromClaimed content claimed =
     (case collect_orphans 0 content claimed of
        Inl e \<Rightarrow> Inl e
      | Inr orphans \<Rightarrow> Inr (sort_key sc_volid orphans))"

fun claim_vms :: "env \<Rightarrow> string \<Rightarrow> string list \<Rightarrow> int list \<Rightarrow> ('r sess_scheme, gerror + string list) state" where
  "claim_vms env node claimed [] = ret (Inr claimed)"
| "claim_vms env node claimed (vmid # vmids) = do {
     r \<leftarrow> ClaimedVolumes env node vmid;
     case r of
       Inl e \<Rightarrow> ret (Inl (Errorf [Lit ''orphan volumes: '', Wrapped e]))
     | Inr vols \<Rightarrow> claim_vms env node (claimed @ vols) vmids
   }"

definition orphanVolumesForVMIDs ::
    "env \<Rightarrow> string \<Rightarrow> content_entry option list \<Rightarrow> int list \<Rightarrow> ('r sess_scheme, gerror + storage_content list) state" where
  "orphanVolumesForVMIDs env node content vmids = do {
     r \<leftarrow> claim_vms env node [] vmids;
     ret (case r of Inl e \<Rightarrow> Inl e | Inr claimed \<Rightarrow> orphansFromClaimed content claimed)
   }"

type_synonym node_vmid = "string \<times> int"

fun claim_pairs :: "env \<Rightarrow> string list \<Rightarrow> node_vmid list \<Rightarrow> ('r sess_scheme, gerror + string list) state" where
  "claim_pairs env claimed [] = ret (Inr claimed)"
| "claim_pairs env claimed ((node, vmid) # guests) = do {
     r \<leftarrow> ClaimedVolumes env node vmid;
     case r of
       Inl e \<Rightarrow> ret (Inl (Errorf [Lit ''cluster claimed volumes: node '', Quo node, Lit '' vmid '', Dec vmid, Lit '': '', Wrapped e]))
     | Inr vols \<Rightarrow> claim_pairs env (claimed @ vols) guests
   }"

definition ClusterClaimedVolumes ::
    "env \<Rightarrow> node_vmid list option \<Rightarrow> ('r sess_scheme, gerror + string list) state" where
  "ClusterClaimedVolumes env guests =
     (case guests of
        None \<Rightarrow> ret (Inl (ErrorString ''cluster claimed volumes: a nil guest list is refused (a non-nil empty slice is a genuinely zero-QEMU cluster; nil is a dropped enumeration error)''))
      | Some guests \<Rightarrow> claim_pairs env [] guests)"

definition vmid_prefix :: "string \<Rightarrow> int \<Rightarrow> string" where
  "vmid_prefix storage vmid = storage @ '':vm-'' @ strconv_Itoa vmid @ ''-''"

definition narrowToVMIDPrefix :: "storage_content list \<Rightarrow> string \<Rightarrow> int \<Rightarrow> storage_content list" where
  "narrowToVMIDPrefix orphans storage vmid =
     filter (\<lambda>o'. strings_HasPrefix (sc_volid o') (vmid_prefix storage vmid)) orphans"

text \<open>\<open>GetVMs\<close>: the vmids of the list (the other fields of an entry are not used here).\<close>

definition Client_GetVMs :: "env \<Rightarrow> string \<Rightarrow> ('r sess_scheme, gerror + nat list) state" where
  "Client_GetVMs env node =
     (if node = [] then ret (Inl (ErrorString ''get vms: node is required''))
      else do {
        r \<leftarrow> pc_vmlist env (''/nodes/'' @ url_PathEscape node @ ''/qemu'');
        ret (case r of
            Inl e \<Rightarrow> Inl (Errorf [Lit ''get vms on '', Quo node, Lit '': '', Wrapped e])
          | Inr None \<Rightarrow> Inl (Errorf [Lit ''get vms on '', Quo node, Lit '': '',
              Wrapped (Sentinel ErrUnverifiableRead), Lit '': list payload was null''])
          | Inr (Some vms) \<Rightarrow>
              if nullEntry vms \<ge> 0 then
                Inl (Errorf [Lit ''get vms on '', Quo node, Lit '': '', Wrapped (Sentinel ErrUnverifiableRead),
                  Lit '': entry '', Dec (nullEntry vms), Lit '' is null''])
              else Inr (entries_of vms))
      })"

definition orphans_required :: gerror where
  "orphans_required = ErrorString ''orphan volumes: node and storage are required''"

definition content_error :: "string \<Rightarrow> string \<Rightarrow> gerror \<Rightarrow> gerror" where
  "content_error node storage e =
     Errorf [Lit ''orphan volumes: get storage content on '', Quo node, Lit ''/'', Quo storage, Lit '': '', Wrapped e]"

text \<open>
  \<open>OrphanVolumes\<close> takes the VMs from the token's own list and is advisory;
  \<open>OrphanVolumesWithVMList\<close> takes a complete list of its caller.
\<close>

definition OrphanVolumes ::
    "env \<Rightarrow> string \<Rightarrow> string \<Rightarrow> ('r sess_scheme, gerror + storage_content list) state" where
  "OrphanVolumes env node storage =
     (if node = [] \<or> storage = [] then ret (Inl orphans_required)
      else do {
        refused \<leftarrow> refuseIfShared env node storage;
        case refused of
          Some e \<Rightarrow> ret (Inl e)
        | None \<Rightarrow> do {
            actual \<leftarrow> storageContentWithType env node storage;
            case actual of
              Inl e \<Rightarrow> ret (Inl (content_error node storage e))
            | Inr actual \<Rightarrow> do {
                vms \<leftarrow> Client_GetVMs env node;
                case vms of
                  Inl e \<Rightarrow> ret (Inl (Errorf [Lit ''orphan volumes: list vms on '', Quo node, Lit '': '', Wrapped e]))
                | Inr vms \<Rightarrow> orphanVolumesForVMIDs env node actual (map (\<lambda>v. int64 (int v)) vms)
              }
          }
      })"

definition OrphanVolumesWithVMList ::
    "env \<Rightarrow> string \<Rightarrow> string \<Rightarrow> int list option \<Rightarrow> ('r sess_scheme, gerror + storage_content list) state" where
  "OrphanVolumesWithVMList env node storage completeVMIDs =
     (if node = [] \<or> storage = [] then ret (Inl orphans_required)
      else case completeVMIDs of
          None \<Rightarrow> ret (Inl (ErrorString ''orphan volumes: a nil VM list is refused (a non-nil empty slice is a genuinely zero-QEMU node; nil is a dropped NodeVMIDs error)''))
        | Some vmids \<Rightarrow> do {
            refused \<leftarrow> refuseIfShared env node storage;
            case refused of
              Some e \<Rightarrow> ret (Inl e)
            | None \<Rightarrow> do {
                actual \<leftarrow> storageContentWithType env node storage;
                case actual of
                  Inl e \<Rightarrow> ret (Inl (content_error node storage e))
                | Inr actual \<Rightarrow> orphanVolumesForVMIDs env node actual vmids
              }
          })"

definition OrphanVolumesForVMID ::
    "env \<Rightarrow> string \<Rightarrow> string \<Rightarrow> int \<Rightarrow> ('r sess_scheme, gerror + storage_content list) state" where
  "OrphanVolumesForVMID env node storage vmid = do {
     r \<leftarrow> OrphanVolumes env node storage;
     ret (case r of Inl e \<Rightarrow> Inl e | Inr orphans \<Rightarrow> Inr (narrowToVMIDPrefix orphans storage vmid))
   }"

definition OrphanVolumesForVMIDWithVMList ::
    "env \<Rightarrow> string \<Rightarrow> string \<Rightarrow> int \<Rightarrow> int list option \<Rightarrow> ('r sess_scheme, gerror + storage_content list) state" where
  "OrphanVolumesForVMIDWithVMList env node storage vmid completeVMIDs = do {
     r \<leftarrow> OrphanVolumesWithVMList env node storage completeVMIDs;
     ret (case r of
         Inl e \<Rightarrow> Inl (Errorf [Lit ''orphan volumes for vmid '', Dec vmid, Lit '': '', Wrapped e])
       | Inr orphans \<Rightarrow> Inr (narrowToVMIDPrefix orphans storage vmid))
   }"

definition cluster_error :: "int \<Rightarrow> frag list \<Rightarrow> gerror" where
  "cluster_error vmid what = Errorf ([Lit ''orphan volumes (cluster) for vmid '', Dec vmid, Lit '': ''] @ what)"

definition OrphanVolumesClusterForVMID ::
    "env \<Rightarrow> string \<Rightarrow> string \<Rightarrow> int \<Rightarrow> node_vmid list option \<Rightarrow> ('r sess_scheme, gerror + storage_content list) state" where
  "OrphanVolumesClusterForVMID env node storage vmid clusterGuests =
     (if node = [] \<or> storage = [] then ret (Inl (cluster_error vmid [Lit ''node and storage are required'']))
      else if clusterGuests = None then
        ret (Inl (cluster_error vmid [Lit ''a nil cluster guest list is refused (nil is a dropped enumeration error; a non-nil empty slice is a genuinely zero-QEMU cluster)'']))
      else do {
        actual \<leftarrow> storageContentWithType env node storage;
        case actual of
          Inl e \<Rightarrow> ret (Inl (cluster_error vmid [Lit ''get storage content on '', Quo node, Lit ''/'', Quo storage, Lit '': '', Wrapped e]))
        | Inr actual \<Rightarrow> do {
            claimed \<leftarrow> ClusterClaimedVolumes env clusterGuests;
            ret (case claimed of
                Inl e \<Rightarrow> Inl (cluster_error vmid [Wrapped e])
              | Inr claimed \<Rightarrow>
                  (case orphansFromClaimed actual claimed of
                     Inl e \<Rightarrow> Inl (cluster_error vmid [Wrapped e])
                   | Inr orphans \<Rightarrow> Inr (narrowToVMIDPrefix orphans storage vmid)))
          }
      })"

section \<open>What a volume that is not claimed has been checked against\<close>

text \<open>
  No disk slot of the config, and no \<open>vmstate\<close>, names the volume: each of them was read as a string
  that starts with another volid.
\<close>

definition section_clear :: "string \<Rightarrow> json gomap \<Rightarrow> bool" where
  "section_clear volid cfg \<longleftrightarrow>
     (\<forall>k v. (k, v) \<in> set cfg \<longrightarrow> isDiskShapedKey k \<or> k = ''vmstate'' \<longrightarrow>
        (\<exists>s. unmarshal_string v = Some s \<and> firstCommaVolid s \<noteq> volid))"

definition has_vmstate :: "json gomap \<Rightarrow> bool" where
  "has_vmstate cfg \<longleftrightarrow>
     (\<exists>v s. (''vmstate'', v) \<in> set cfg \<and> unmarshal_string v = Some s \<and> firstCommaVolid s \<noteq> [])"

definition suspended :: "json gomap \<Rightarrow> bool" where
  "suspended cfg \<longleftrightarrow>
     (\<exists>v s. (''lock'', v) \<in> set cfg \<and> unmarshal_string v = Some s \<and> strings_HasPrefix s ''suspend'')"

definition config_read :: "string \<Rightarrow> url_values \<Rightarrow> json gomap \<Rightarrow> event list \<Rightarrow> bool" where
  "config_read path params cfg es \<longleftrightarrow>
     (\<exists>a raw b. EHttp GET path params a \<in> set es \<and> raw_result a = Inr raw \<and> unmarshal_map raw = Some (b, cfg))"

definition live_clear :: "string \<Rightarrow> int \<Rightarrow> string \<Rightarrow> url_values \<Rightarrow> event list \<Rightarrow> bool" where
  "live_clear node vmid volid params es \<longleftrightarrow>
     (\<exists>cfg. config_read (live_path node vmid) params cfg es \<and> map_of cfg ''digest'' \<noteq> None \<and>
        section_clear volid cfg \<and> (suspended cfg \<longrightarrow> has_vmstate cfg))"

definition snapshot_clear :: "string \<Rightarrow> int \<Rightarrow> string \<Rightarrow> snapshot \<Rightarrow> event list \<Rightarrow> bool" where
  "snapshot_clear node vmid volid s es \<longleftrightarrow>
     (\<exists>cfg. config_read (section_path node vmid (sn_name s)) [] cfg es \<and> cfg \<noteq> [] \<and>
        section_clear volid cfg \<and> (sn_vmstate s \<noteq> 0 \<longrightarrow> has_vmstate cfg))"

text \<open>
  The VM does not claim the volume: not in its pending and not in its current config, and not in
  the section of any snapshot of a verifiable list.
\<close>

definition vm_clear :: "string \<Rightarrow> int \<Rightarrow> string \<Rightarrow> event list \<Rightarrow> bool" where
  "vm_clear node vmid volid es \<longleftrightarrow>
     live_clear node vmid volid [] es \<and> live_clear node vmid volid [(''current'', [''1''])] es \<and>
     (\<exists>snaps. snaps_event node vmid snaps \<in> set es \<and> verifiable snaps \<and>
        (\<forall>s \<in> set (realSnapshots snaps). snapshot_clear node vmid volid s es))"

lemma config_read_mono: "config_read p q cfg es \<Longrightarrow> set es \<subseteq> set fs \<Longrightarrow> config_read p q cfg fs"
  unfolding config_read_def by blast

lemma live_clear_mono: "live_clear node vmid volid p es \<Longrightarrow> set es \<subseteq> set fs \<Longrightarrow> live_clear node vmid volid p fs"
  unfolding live_clear_def using config_read_mono by blast

lemma snapshot_clear_mono:
  "snapshot_clear node vmid volid s es \<Longrightarrow> set es \<subseteq> set fs \<Longrightarrow> snapshot_clear node vmid volid s fs"
  unfolding snapshot_clear_def using config_read_mono by blast

lemma vm_clear_mono: "vm_clear node vmid volid es \<Longrightarrow> set es \<subseteq> set fs \<Longrightarrow> vm_clear node vmid volid fs"
  unfolding vm_clear_def using live_clear_mono snapshot_clear_mono by blast

lemma lock_not_disk: "\<not> isDiskShapedKey ''lock''" "''lock'' \<noteq> ''vmstate''"
  by code_simp+

text \<open>What a strict scan has seen: every disk slot and the \<open>vmstate\<close> as strings, and the last lock.\<close>

lemma note_slot_simps:
  "set (cf_volids (note_slot key s out)) = set (cf_volids out) \<union> (if firstCommaVolid s \<noteq> [] then {firstCommaVolid s} else {})"
  "cf_vmstate (note_slot key s out) = (if key = ''vmstate'' then s else cf_vmstate out)"
  "cf_lock (note_slot key s out) = cf_lock out"
  by (auto simp: note_slot_def Let_def)

lemma config_scan_lock:
  "config_scan vmid sn True out cfg = Inr cr \<Longrightarrow> ''lock'' \<notin> fst ` set cfg \<Longrightarrow> cf_lock cr = cf_lock out"
  by (induction cfg arbitrary: out rule: list.induct)
    (auto simp: note_slot_simps split: if_splits option.splits prod.splits)

lemma config_scan_volids:
  assumes "config_scan vmid sn True out cfg = Inr cr"
  shows "set (cf_volids out) \<subseteq> set (cf_volids cr)"
    and "(k, v) \<in> set cfg \<Longrightarrow> isDiskShapedKey k \<or> k = ''vmstate'' \<Longrightarrow>
      \<exists>s. unmarshal_string v = Some s \<and> (firstCommaVolid s \<noteq> [] \<longrightarrow> firstCommaVolid s \<in> set (cf_volids cr))"
    and "cf_vmstate cr = cf_vmstate out \<or> (\<exists>v. (''vmstate'', v) \<in> set cfg \<and> unmarshal_string v = Some (cf_vmstate cr))"
    and "distinct (map fst cfg) \<Longrightarrow> (''lock'', v') \<in> set cfg \<Longrightarrow> unmarshal_string v' = Some (cf_lock cr)"
proof -
  let ?P = "\<lambda>out cfg. set (cf_volids out) \<subseteq> set (cf_volids cr) \<and>
    (\<forall>k v. (k, v) \<in> set cfg \<longrightarrow> isDiskShapedKey k \<or> k = ''vmstate'' \<longrightarrow>
      (\<exists>s. unmarshal_string v = Some s \<and> (firstCommaVolid s \<noteq> [] \<longrightarrow> firstCommaVolid s \<in> set (cf_volids cr)))) \<and>
    (cf_vmstate cr = cf_vmstate out \<or> (\<exists>v. (''vmstate'', v) \<in> set cfg \<and> unmarshal_string v = Some (cf_vmstate cr))) \<and>
    (distinct (map fst cfg) \<longrightarrow> (\<forall>v'. (''lock'', v') \<in> set cfg \<longrightarrow> unmarshal_string v' = Some (cf_lock cr)))"
  from assms have "?P out cfg"
  proof (induction cfg arbitrary: out)
    case (Cons kv cfg)
    obtain key raw where kv: "kv = (key, raw)" by force
    show ?case
    proof (cases "key = ''lock''")
      case True
      with Cons.prems kv obtain s where s: "unmarshal_string raw = Some s"
        and scan: "config_scan vmid sn True (out\<lparr>cf_lock := s\<rparr>) cfg = Inr cr" by (auto split: option.splits)
      from Cons.IH [OF scan] config_scan_lock [OF scan] kv True s lock_not_disk show ?thesis by (auto simp: image_iff)
    next
      case nolock: False
      show ?thesis
      proof (cases "isDiskShapedKey key \<or> key = ''vmstate''")
        case False
        with Cons.prems kv nolock have scan: "config_scan vmid sn True out cfg = Inr cr" by simp
        from Cons.IH [OF scan] kv nolock False show ?thesis by auto
      next
        case True
        with Cons.prems kv nolock obtain s where s: "unmarshal_string raw = Some s"
          and scan: "config_scan vmid sn True (note_slot key s out) cfg = Inr cr"
          by (cases "unmarshal_string raw") auto
        from Cons.IH [OF scan] kv nolock s show ?thesis by (auto simp: note_slot_simps split: if_splits)
      qed
    qed
  qed simp
  then show "set (cf_volids out) \<subseteq> set (cf_volids cr)"
    and "(k, v) \<in> set cfg \<Longrightarrow> isDiskShapedKey k \<or> k = ''vmstate'' \<Longrightarrow>
      \<exists>s. unmarshal_string v = Some s \<and> (firstCommaVolid s \<noteq> [] \<longrightarrow> firstCommaVolid s \<in> set (cf_volids cr))"
    and "cf_vmstate cr = cf_vmstate out \<or> (\<exists>v. (''vmstate'', v) \<in> set cfg \<and> unmarshal_string v = Some (cf_vmstate cr))"
    and "distinct (map fst cfg) \<Longrightarrow> (''lock'', v') \<in> set cfg \<Longrightarrow> unmarshal_string v' = Some (cf_lock cr)"
    by blast+
qed

lemma unmarshal_map_distinct: "unmarshal_map j = Some (b, cfg) \<Longrightarrow> distinct (map fst cfg)"
  by (auto simp: unmarshal_map_def distinct_gomap_of split: json.splits)

lemma config_volids_read:
  assumes "config_volids_of vmid sn True (raw_result a) = Inr cr"
  shows "\<exists>raw b cfg. raw_result a = Inr raw \<and> unmarshal_map raw = Some (b, cfg) \<and> cfg \<noteq> [] \<and>
     (sn = [] \<longrightarrow> map_of cfg ''digest'' \<noteq> None) \<and>
     (\<forall>volid. volid \<noteq> [] \<longrightarrow> volid \<notin> set (cf_volids cr) \<longrightarrow> section_clear volid cfg) \<and>
     (firstCommaVolid (cf_vmstate cr) \<noteq> [] \<longrightarrow> has_vmstate cfg) \<and>
     (suspended cfg \<longrightarrow> strings_HasPrefix (cf_lock cr) ''suspend'')"
proof -
  let ?zero = "\<lparr>cf_volids = [], cf_vmstate = [], cf_lock = []\<rparr>"
  from assms obtain raw b cfg out where cfg: "raw_result a = Inr raw" "unmarshal_map raw = Some (b, cfg)"
    and ok: "sn = [] \<longrightarrow> map_of cfg ''digest'' \<noteq> None" "sn \<noteq> [] \<longrightarrow> cfg \<noteq> []"
    and scan: "config_scan vmid sn True ?zero cfg = Inr out" and cr: "cr = out\<lparr>cf_volids := sort (cf_volids out)\<rparr>"
    unfolding config_volids_of_def by (auto split: sum.splits option.splits if_splits)
  note volids = config_scan_volids [OF scan]
  have "firstCommaVolid [] = []" by (simp add: firstCommaVolid_def)
  then have "firstCommaVolid (cf_vmstate out) \<noteq> [] \<longrightarrow> has_vmstate cfg"
    using volids(3) unfolding has_vmstate_def by auto
  moreover have "section_clear volid cfg" if "volid \<noteq> []" "volid \<notin> set (cf_volids out)" for volid
    unfolding section_clear_def
  proof (intro allI impI)
    fix k v
    assume "(k, v) \<in> set cfg" "isDiskShapedKey k \<or> k = ''vmstate''"
    from volids(2) [OF this] that show "\<exists>s. unmarshal_string v = Some s \<and> firstCommaVolid s \<noteq> volid" by auto
  qed
  moreover have "suspended cfg \<longrightarrow> strings_HasPrefix (cf_lock out) ''suspend''"
    using volids(4) [OF unmarshal_map_distinct [OF cfg(2)]] unfolding suspended_def by auto
  ultimately show ?thesis using cfg ok by (auto simp: cr)
qed

lemma traces_configVolids:
  assumes "path = CHR ''/'' # p"
  shows "traces (configVolids env vmid sn path params True)
     (\<lambda>r es. list_all reads es \<and> (\<forall>cr. r = Inr cr \<longrightarrow>
        (\<exists>a. es = [EHttp GET path params a] \<and> config_volids_of vmid sn True (raw_result a) = Inr cr)))"
  unfolding configVolids_def
  by (rule traces_bind [OF traces_RawRequest_sent [OF assms]], simp, rule traces_return) (auto simp: reads_def)

lemma config_paths_slash:
  "\<exists>p. live_path node vmid = CHR ''/'' # p" "\<exists>p. section_path node vmid n = CHR ''/'' # p"
  "\<exists>p. content_path node sto = CHR ''/'' # p" "\<exists>p. volume_path node sto v = CHR ''/'' # p"
  by (simp_all add: live_path_def section_path_def qemu_path_def content_path_def volume_path_def)

text \<open>
  The result of a claim loop: the volids found so far are kept, and whatever is not among the
  result has been checked (\<open>C\<close>) against everything the loop went through.
\<close>

definition claims :: "(string \<Rightarrow> event list \<Rightarrow> bool) \<Rightarrow> string list \<Rightarrow> gerror + string list \<Rightarrow> event list \<Rightarrow> bool" where
  "claims C claimed r es \<longleftrightarrow>
     list_all reads es \<and>
     (\<forall>cl. r = Inr cl \<longrightarrow> set claimed \<subseteq> set cl \<and>
        (\<forall>volid. volid \<noteq> [] \<longrightarrow> volid \<notin> set cl \<longrightarrow> C volid es))"

lemma claims_error: "list_all reads es \<Longrightarrow> claims C claimed (Inl e) es"
  by (simp add: claims_def)

lemma claims_step:
  assumes "list_all reads es" and "claims C (claimed @ vols) r fs"
    and "\<And>volid. volid \<noteq> [] \<Longrightarrow> volid \<notin> set vols \<Longrightarrow> C volid fs \<Longrightarrow> D volid (es @ fs)"
  shows "claims D claimed r (es @ fs)"
  using assms unfolding claims_def by auto

lemma traces_claim_live:
  "traces (claim_live env node vmid claimed views)
     (claims (\<lambda>volid es. \<forall>p \<in> set views. live_clear node vmid volid p es) claimed)"
proof (induction views arbitrary: claimed)
  case Nil
  show ?case by (auto intro!: traces_return simp: claims_def)
next
  case (Cons p views)
  obtain rest where slash: "live_path node vmid = CHR ''/'' # rest" using config_paths_slash(1) by blast
  show ?case
    unfolding claim_live.simps
  proof (rule traces_bind [OF traces_configVolids [OF slash]], rule traces_case_sum, goal_cases)
    case (1 r es e)
    then show ?case by (auto intro!: traces_return claims_error)
  next
    case (2 r es cr)
    then obtain a where es: "es = [EHttp GET (live_path node vmid) p a]"
      and cr: "config_volids_of vmid [] True (raw_result a) = Inr cr" by auto
    show ?case
    proof (rule traces_if, goal_cases)
      case 1
      with 2 show ?case by (auto intro!: traces_return claims_error)
    next
      case ok: 2
      from config_volids_read [OF cr] obtain raw b cfg where cfg: "raw_result a = Inr raw" "unmarshal_map raw = Some (b, cfg)"
        "map_of cfg ''digest'' \<noteq> None" "\<And>volid. volid \<noteq> [] \<Longrightarrow> volid \<notin> set (cf_volids cr) \<Longrightarrow> section_clear volid cfg"
        "suspended cfg \<longrightarrow> has_vmstate cfg"
        using ok by auto
      then have here: "live_clear node vmid volid p (es @ fs)" if "volid \<noteq> []" "volid \<notin> set (cf_volids cr)" for volid fs
      proof -
        have "config_read (live_path node vmid) p cfg (es @ fs)" using cfg(1,2) by (auto simp: config_read_def es)
        with cfg that show ?thesis unfolding live_clear_def by blast
      qed
      show ?case
      proof (rule traces_mono [OF Cons.IH], goal_cases)
        case (1 x fs)
        show ?case by (rule claims_step [OF _ 1]) (use here 2 in \<open>auto intro: live_clear_mono\<close>)
      qed
    qed
  qed
qed

lemma traces_claim_sections:
  "traces (claim_sections env node vmid claimed snaps)
     (claims (\<lambda>volid es. \<forall>s \<in> set snaps. snapshot_clear node vmid volid s es) claimed)"
proof (induction snaps arbitrary: claimed)
  case Nil
  show ?case by (auto intro!: traces_return simp: claims_def)
next
  case (Cons s snaps)
  obtain rest where slash: "section_path node vmid (sn_name s) = CHR ''/'' # rest" using config_paths_slash(2) by blast
  show ?case
    unfolding claim_sections.simps
  proof (rule traces_bind [OF traces_configVolids [OF slash]], rule traces_case_sum, goal_cases)
    case (1 r es e)
    then show ?case by (auto intro!: traces_return claims_error)
  next
    case (2 r es cr)
    then obtain a where es: "es = [EHttp GET (section_path node vmid (sn_name s)) [] a]"
      and cr: "config_volids_of vmid (sn_name s) True (raw_result a) = Inr cr" by auto
    show ?case
    proof (rule traces_if, goal_cases)
      case 1
      with 2 show ?case by (auto intro!: traces_return claims_error)
    next
      case ok: 2
      from config_volids_read [OF cr] obtain raw b cfg where cfg: "raw_result a = Inr raw" "unmarshal_map raw = Some (b, cfg)"
        "cfg \<noteq> []" "\<And>volid. volid \<noteq> [] \<Longrightarrow> volid \<notin> set (cf_volids cr) \<Longrightarrow> section_clear volid cfg"
        "sn_vmstate s \<noteq> 0 \<longrightarrow> has_vmstate cfg"
        using ok by auto
      then have here: "snapshot_clear node vmid volid s (es @ fs)" if "volid \<noteq> []" "volid \<notin> set (cf_volids cr)" for volid fs
      proof -
        have "config_read (section_path node vmid (sn_name s)) [] cfg (es @ fs)" using cfg(1,2) by (auto simp: config_read_def es)
        with cfg that show ?thesis unfolding snapshot_clear_def by blast
      qed
      show ?case
      proof (rule traces_mono [OF Cons.IH], goal_cases)
        case (1 x fs)
        show ?case by (rule claims_step [OF _ 1]) (use here 2 in \<open>auto intro: snapshot_clear_mono\<close>)
      qed
    qed
  qed
qed

lemma traces_ClaimedVolumes:
  "traces (ClaimedVolumes env node vmid) (claims (vm_clear node vmid) [])"
  unfolding ClaimedVolumes_def
proof (rule traces_if, goal_cases)
  case 1
  show ?case by (auto intro!: traces_return claims_error)
next
  case 2
  show ?case
  proof (rule traces_bind [OF traces_claim_live], rule traces_case_sum, goal_cases)
    case (1 r es e)
    then show ?case by (auto intro!: traces_return simp: claims_def)
  next
    case live: (2 r es claimed)
    show ?case
    proof (rule traces_bind [OF traces_verifiable], rule traces_case_sum, goal_cases)
      case (1 r fs e)
      with live show ?case by (auto intro!: traces_return simp: claims_def)
    next
      case (2 r fs snaps)
      show ?case
      proof (rule traces_mono [OF traces_claim_sections], goal_cases)
        case (1 r gs)
        have "vm_clear node vmid volid (es @ fs @ gs)"
          if "r = Inr cl" "volid \<noteq> []" "volid \<notin> set cl" for cl volid
        proof -
          from 1 that have out: "volid \<notin> set claimed"
            and sections: "\<And>s. s \<in> set (realSnapshots snaps) \<Longrightarrow> snapshot_clear node vmid volid s gs"
            by (auto simp: claims_def)
          from live out that(2) have l: "live_clear node vmid volid [] es"
            "live_clear node vmid volid [(''current'', [''1''])] es" by (auto simp: claims_def)
          show ?thesis
            unfolding vm_clear_def
            by (intro conjI exI [of _ snaps] ballI live_clear_mono [OF l(1)] live_clear_mono [OF l(2)]
                snapshot_clear_mono [OF sections]) (use 2 in auto)
        qed
        with 1 2 live show ?case by (auto simp: claims_def)
      qed
    qed
  qed
qed

lemma traces_claim_vms:
  "traces (claim_vms env node claimed vmids)
     (claims (\<lambda>volid es. \<forall>v \<in> set vmids. vm_clear node v volid es) claimed)"
proof (induction vmids arbitrary: claimed)
  case Nil
  show ?case by (auto intro!: traces_return simp: claims_def)
next
  case (Cons vmid vmids)
  show ?case
    unfolding claim_vms.simps
  proof (rule traces_bind [OF traces_ClaimedVolumes], rule traces_case_sum, goal_cases)
    case (1 r es e)
    then show ?case by (auto intro!: traces_return simp: claims_def)
  next
    case (2 r es vols)
    show ?case
    proof (rule traces_mono [OF Cons.IH], goal_cases)
      case (1 x fs)
      show ?case by (rule claims_step [OF _ 1]) (use 2 in \<open>auto simp: claims_def intro: vm_clear_mono\<close>)
    qed
  qed
qed

lemma traces_claim_pairs:
  "traces (claim_pairs env claimed guests)
     (claims (\<lambda>volid es. \<forall>(node, v) \<in> set guests. vm_clear node v volid es) claimed)"
proof (induction guests arbitrary: claimed)
  case Nil
  show ?case by (auto intro!: traces_return simp: claims_def)
next
  case (Cons g guests)
  obtain node vmid where g: "g = (node, vmid)" by force
  show ?case
    unfolding g claim_pairs.simps
  proof (rule traces_bind [OF traces_ClaimedVolumes], rule traces_case_sum, goal_cases)
    case (1 r es e)
    then show ?case by (auto intro!: traces_return simp: claims_def)
  next
    case (2 r es vols)
    show ?case
    proof (rule traces_mono [OF Cons.IH], goal_cases)
      case (1 x fs)
      show ?case by (rule claims_step [OF _ 1]) (use 2 in \<open>auto simp: claims_def intro: vm_clear_mono\<close>)
    qed
  qed
qed

text \<open>The content list a scan starts from, and what it keeps of it.\<close>

definition content_read :: "string \<Rightarrow> string \<Rightarrow> content_entry option list \<Rightarrow> event list \<Rightarrow> bool" where
  "content_read node storage cs es \<longleftrightarrow> EContent (content_path node storage) (Inr (Some cs)) \<in> set es"

definition lists_volume :: "content_entry option list \<Rightarrow> storage_content \<Rightarrow> bool" where
  "lists_volume cs sc \<longleftrightarrow>
     (\<exists>e. Some e \<in> set cs \<and> ce_storage e = Some sc \<and> claimableContentTypes (ce_content e))"

lemma traces_storageContentWithType:
  "traces (storageContentWithType env node storage)
     (\<lambda>r es. list_all reads es \<and> (\<forall>cs. r = Inr cs \<longrightarrow> content_read node storage cs es \<and> None \<notin> set cs))"
  unfolding storageContentWithType_def pc_content_def content_read_def
  by (auto simp: traces_def perform_def reads_def not_le nullEntry_neg_iff split: sum.splits option.splits if_splits)

lemma collect_orphans_set:
  "collect_orphans i content claimed = Inr os \<Longrightarrow>
     set os = {sc. lists_volume content sc \<and> sc_volid sc \<notin> set claimed}"
  by (induction i content claimed arbitrary: os rule: collect_orphans.induct)
    (auto simp: lists_volume_def split: option.splits sum.splits if_splits)

lemma orphansFromClaimed_set:
  "orphansFromClaimed content claimed = Inr os \<Longrightarrow>
     set os = {sc. lists_volume content sc \<and> sc_volid sc \<notin> set claimed} \<and> sorted (map sc_volid os)"
  by (auto simp: orphansFromClaimed_def collect_orphans_set split: sum.splits)

text \<open>The volumes that a determination over the VMs \<open>C\<close> may report.\<close>

definition left_over ::
    "string \<Rightarrow> string \<Rightarrow> (string \<Rightarrow> event list \<Rightarrow> bool) \<Rightarrow> storage_content list \<Rightarrow> event list \<Rightarrow> bool" where
  "left_over node storage C os es \<longleftrightarrow>
     (\<exists>cs. content_read node storage cs es \<and>
        (\<forall>sc \<in> set os. lists_volume cs sc \<and> (sc_volid sc \<noteq> [] \<longrightarrow> C (sc_volid sc) es)))"

lemma left_over_claims:
  assumes "content_read node storage cs es" and "claims C [] (Inr cl) fs"
    and "orphansFromClaimed cs cl = Inr os" and "\<And>volid. C volid fs \<Longrightarrow> C volid (es @ fs)"
  shows "left_over node storage C os (es @ fs)"
  unfolding left_over_def
proof (intro exI [of _ cs] conjI ballI impI)
  show "content_read node storage cs (es @ fs)" using assms(1) by (auto simp: content_read_def)
  fix sc
  assume "sc \<in> set os"
  with orphansFromClaimed_set [OF assms(3)] have sc: "lists_volume cs sc" "sc_volid sc \<notin> set cl" by auto
  then show "lists_volume cs sc" by simp
  show "C (sc_volid sc) (es @ fs)" if "sc_volid sc \<noteq> []"
    using assms(2,4) sc that by (auto simp: claims_def)
qed

lemma left_over_filter: "left_over node storage C os es \<Longrightarrow> left_over node storage C (filter P os) es"
  unfolding left_over_def by auto

abbreviation node_clear :: "string \<Rightarrow> int list \<Rightarrow> string \<Rightarrow> event list \<Rightarrow> bool" where
  "node_clear node vmids volid es \<equiv> \<forall>v \<in> set vmids. vm_clear node v volid es"

abbreviation cluster_clear :: "node_vmid list \<Rightarrow> string \<Rightarrow> event list \<Rightarrow> bool" where
  "cluster_clear guests volid es \<equiv> \<forall>(node, v) \<in> set guests. vm_clear node v volid es"

lemma clear_append:
  "node_clear node vmids volid fs \<Longrightarrow> node_clear node vmids volid (es @ fs)"
  "cluster_clear guests volid fs \<Longrightarrow> cluster_clear guests volid (es @ fs)"
  by (auto intro: vm_clear_mono)

lemma traces_orphanVolumesForVMIDs:
  assumes "content_read node storage cs es"
  shows "traces (orphanVolumesForVMIDs env node cs vmids)
     (\<lambda>r fs. list_all reads fs \<and> (\<forall>os. r = Inr os \<longrightarrow> left_over node storage (node_clear node vmids) os (es @ fs)))"
  unfolding orphanVolumesForVMIDs_def
proof (rule traces_bind [OF traces_claim_vms], rule traces_return, goal_cases)
  case (1 claimed fs)
  then show ?case
    using left_over_claims [OF assms, of "node_clear node vmids" _ fs] clear_append(1) [of vmids node _ fs es]
    by (auto simp: claims_def split: sum.splits)
qed

definition unshared :: "string \<Rightarrow> string \<Rightarrow> event list \<Rightarrow> bool" where
  "unshared node storage es \<longleftrightarrow>
     (\<exists>st. EStorage (storage_path node storage) (Inr st) \<in> set es \<and> st_shared st = 0 \<and> st_type st \<noteq> [])"

lemma traces_Client_GetStorage:
  "traces (Client_GetStorage env node storage)
     (\<lambda>r es. list_all reads es \<and> (\<forall>st. r = Inr st \<longrightarrow> EStorage (storage_path node storage) (Inr st) \<in> set es \<and> st_type st \<noteq> []))"
  unfolding Client_GetStorage_def pc_storage_def storage_path_def
  by (auto simp: traces_def perform_def reads_def split: sum.splits if_splits)

lemma traces_refuseIfShared:
  "traces (refuseIfShared env node storage) (\<lambda>r es. list_all reads es \<and> (r = None \<longrightarrow> unshared node storage es))"
  unfolding refuseIfShared_def
  by (rule traces_bind [OF traces_Client_GetStorage], rule traces_return)
    (auto simp: unshared_def split: sum.splits if_splits)

lemma unshared_mono: "unshared node storage es \<Longrightarrow> set es \<subseteq> set fs \<Longrightarrow> unshared node storage fs"
  unfolding unshared_def by blast

lemma content_read_mono: "content_read node storage cs es \<Longrightarrow> set es \<subseteq> set fs \<Longrightarrow> content_read node storage cs fs"
  unfolding content_read_def by blast

lemma traces_OrphanVolumesWithVMList:
  "traces (OrphanVolumesWithVMList env node storage vmids)
     (\<lambda>r es. list_all reads es \<and> (\<forall>os. r = Inr os \<longrightarrow>
        (\<exists>vs. vmids = Some vs \<and> unshared node storage es \<and> left_over node storage (node_clear node vs) os es)))"
  unfolding OrphanVolumesWithVMList_def
proof (intro traces_if traces_case_option, goal_cases)
  case (3 vs)
  show ?case
  proof (rule traces_bind [OF traces_refuseIfShared], rule traces_case_option, goal_cases)
    case (1 r es)
    show ?case
    proof (rule traces_bind [OF traces_storageContentWithType], rule traces_case_sum, goal_cases)
      case (1 x fs e)
      then show ?case using \<open>list_all reads es \<and> _\<close> by (auto intro!: traces_return)
    next
      case (2 x fs actual)
      then have "content_read node storage actual (es @ fs)" by (auto intro: content_read_mono)
      from traces_orphanVolumesForVMIDs [OF this] show ?case
        by (rule traces_mono) (use 1 2 3 in \<open>auto intro: unshared_mono\<close>)
    qed
  qed (auto intro!: traces_return)
qed (auto intro!: traces_return)

lemma traces_ClusterForVMID:
  "traces (OrphanVolumesClusterForVMID env node storage vmid guests)
     (\<lambda>r es. list_all reads es \<and> (\<forall>os. r = Inr os \<longrightarrow>
        (\<exists>gs. guests = Some gs \<and> left_over node storage (cluster_clear gs) os es \<and>
           (\<forall>sc \<in> set os. strings_HasPrefix (sc_volid sc) (vmid_prefix storage vmid)))))"
  unfolding OrphanVolumesClusterForVMID_def
proof (intro traces_if, goal_cases)
  case 3
  then obtain gs where gs: "guests = Some gs" by auto
  show ?case
  proof (rule traces_bind [OF traces_storageContentWithType], rule traces_case_sum, goal_cases)
    case (1 r es e)
    then show ?case by (auto intro!: traces_return)
  next
    case (2 r es actual)
    show ?case
      unfolding gs ClusterClaimedVolumes_def option.case
    proof (rule traces_bind [OF traces_claim_pairs], rule traces_return, goal_cases)
      case (1 claimed fs)
      have "left_over node storage (cluster_clear gs) os (es @ fs)"
        if "claimed = Inr cl" "orphansFromClaimed actual cl = Inr os" for cl os
        using left_over_claims [of node storage actual es "cluster_clear gs" cl fs os] clear_append(2) [of gs _ fs es] 1 2 that
        by auto
      with 1 2 show ?case
        by (auto simp: claims_def narrowToVMIDPrefix_def split: sum.splits intro: left_over_filter)
    qed
  qed
qed (auto intro!: traces_return)

lemma traces_ForVMIDWithVMList:
  "traces (OrphanVolumesForVMIDWithVMList env node storage vmid vmids)
     (\<lambda>r es. list_all reads es \<and> (\<forall>os. r = Inr os \<longrightarrow>
        (\<exists>vs. vmids = Some vs \<and> unshared node storage es \<and> left_over node storage (node_clear node vs) os es \<and>
           (\<forall>sc \<in> set os. strings_HasPrefix (sc_volid sc) (vmid_prefix storage vmid)))))"
  unfolding OrphanVolumesForVMIDWithVMList_def
  by (rule traces_bind [OF traces_OrphanVolumesWithVMList], rule traces_return)
    (auto simp: narrowToVMIDPrefix_def split: sum.splits intro: left_over_filter)

text \<open>The diff against a reference: the claimable, unclaimed entries in order of their volids.\<close>

definition unclaimed :: "string list \<Rightarrow> content_entry option \<Rightarrow> storage_content list" where
  "unclaimed claimed entry =
     (case entry of
        None \<Rightarrow> []
      | Some e \<Rightarrow> (case ce_storage e of None \<Rightarrow> []
          | Some sc \<Rightarrow> if claimableContentTypes (ce_content e) \<and> sc_volid sc \<notin> set claimed then [sc] else []))"

lemma collect_orphans_cases:
  "None \<notin> set content \<Longrightarrow> collect_orphans i content claimed = Inr (concat (map (unclaimed claimed) content))"
  "None \<in> set content \<Longrightarrow> \<exists>e. collect_orphans i content claimed = Inl e"
proof (induction content arbitrary: i)
  case (Cons entry content)
  { case 1
    then show ?case using Cons.IH(1) [of "i + 1"] by (cases entry) (auto simp: unclaimed_def split: option.splits)
  next
    case 2
    then show ?case using Cons.IH(2) [of "i + 1"] by (cases entry) auto
  }
qed simp_all

text \<open>
  The orphan diff refuses a content list with a null entry, and otherwise answers exactly the disk
  and ISO volumes of the list that are not claimed, each as often as it is listed, sorted by volid.
  (\<open>sort.Slice\<close> leaves the order of equal volids open; the model takes the stable one.)
\<close>

theorem orphansFromClaimed_exact:
  "case orphansFromClaimed content claimed of
     Inl e \<Rightarrow> None \<in> set content
   | Inr os \<Rightarrow> None \<notin> set content \<and> sorted (map sc_volid os) \<and>
       mset os = mset (concat (map (unclaimed claimed) content))"
proof (cases "None \<in> set content")
  case True
  with collect_orphans_cases(2) [of content 0 claimed] show ?thesis by (auto simp: orphansFromClaimed_def)
next
  case False
  then show ?thesis by (simp add: orphansFromClaimed_def collect_orphans_cases(1))
qed

end
