(* ===== verification/JsonText.thy ===== *)
theory JsonText
  imports GoPrelude
begin

text \<open>
  The text side of \<open>encoding/json\<close>, as far as the sources use it: how a string and a map of raw values
  are written (\<open>json.Marshal\<close>, which sorts the keys and compacts the values), and how the first value
  of a text is decoded (\<open>json.Decoder\<close>), whose text is assumed to be UTF-8.
\<close>

section \<open>Writing\<close>

text \<open>
  The bytes of a rune in a JSON string; \<open>html\<close> says that the characters of HTML are escaped too.  Text that
  is no UTF-8 is written as the replacement character.
\<close>

definition unicode_escape :: "nat \<Rightarrow> string" where
  "unicode_escape n = [CHR 0x5C, CHR ''u'', CHR ''0'', CHR ''0'', hex_char (n div 16), hex_char (n mod 16)]"

definition json_char :: "bool \<Rightarrow> char \<Rightarrow> string" where
  "json_char html c =
     (if c = CHR 0x22 \<or> c = CHR 0x5C then [CHR 0x5C, c]
      else if c = CHR 0x08 then [CHR 0x5C, CHR ''b'']
      else if c = CHR 0x0C then [CHR 0x5C, CHR ''f'']
      else if c = CHR 0x0A then [CHR 0x5C, CHR ''n'']
      else if c = CHR 0x0D then [CHR 0x5C, CHR ''r'']
      else if c = CHR 0x09 then [CHR 0x5C, CHR ''t'']
      else if (of_char c :: nat) < 32 \<or> html \<and> c \<in> set ''<>&'' then unicode_escape (of_char c)
      else [c])"

definition json_rune :: "bool \<Rightarrow> string \<Rightarrow> string" where
  "json_rune html r =
     (if rune_error r then [CHR 0x5C] @ ''ufffd''
      else if r = [CHR 0xE2, CHR 0x80, CHR 0xA8] then [CHR 0x5C] @ ''u2028''
      else if r = [CHR 0xE2, CHR 0x80, CHR 0xA9] then [CHR 0x5C] @ ''u2029''
      else (case r of [c] \<Rightarrow> json_char html c | _ \<Rightarrow> r))"

definition json_quote :: "bool \<Rightarrow> string \<Rightarrow> string" where
  "json_quote html s = CHR 0x22 # concat (map (json_rune html) (runes s)) @ [CHR 0x22]"

definition json_string :: "string \<Rightarrow> string" where
  "json_string s = json_quote True s"

definition json_space :: "char \<Rightarrow> bool" where
  "json_space c \<longleftrightarrow> c \<in> {CHR 0x20, CHR 0x09, CHR 0x0D, CHR 0x0A}"

definition html_escape :: "char \<Rightarrow> string" where
  "html_escape c =
     (if c \<in> {CHR ''<'', CHR ''>'', CHR ''&''}
      then unicode_escape (of_char c) else [c])"

text \<open>
  The compaction of a raw value: no space outside its strings, and the characters of HTML and the two
  line separators escaped.  The flag says that the text before ends inside a string.
\<close>

fun compact :: "bool \<Rightarrow> string \<Rightarrow> string" where
  "compact quoted [] = []"
| "compact quoted (c # cs) =
     (if quoted \<and> c = CHR 0x5C then (case cs of [] \<Rightarrow> [c] | d # ds \<Rightarrow> c # d # compact True ds)
      else if \<not> quoted \<and> json_space c then compact False cs
      else if c = CHR 0xE2 \<and> take 2 cs = [CHR 0x80, CHR 0xA8] then [CHR 0x5C] @ ''u2028'' @ compact quoted (drop 2 cs)
      else if c = CHR 0xE2 \<and> take 2 cs = [CHR 0x80, CHR 0xA9] then [CHR 0x5C] @ ''u2029'' @ compact quoted (drop 2 cs)
      else html_escape c @ compact (quoted \<noteq> (c = CHR 0x22)) cs)"

text \<open>\<open>json.Marshal\<close> of a \<open>map[string]json.RawMessage\<close>.\<close>

definition marshal_map :: "json gomap \<Rightarrow> string" where
  "marshal_map m =
     ''{'' @ join_with '','' (map (\<lambda>k. json_string k @ '':'' @ compact False (raw_text (the (map_of m k)))) (sort (map fst m))) @ ''}''"

text \<open>What decoding that text again gives: the same values, with their texts compacted.\<close>

fun compact_value :: "json \<Rightarrow> json" where
  "compact_value (JArr t xs) = JArr (compact False t) xs"
| "compact_value (JObj t kvs) = JObj (compact False t) kvs"
| "compact_value j = j"

section \<open>Reading\<close>

definition utf8 :: "nat \<Rightarrow> string" where
  "utf8 n =
     (if n < 0x80 then [char_of n]
      else if n < 0x800 then [char_of (0xC0 + n div 0x40), char_of (0x80 + n mod 0x40)]
      else if n < 0x10000 then [char_of (0xE0 + n div 0x1000), char_of (0x80 + n div 0x40 mod 0x40), char_of (0x80 + n mod 0x40)]
      else [char_of (0xF0 + n div 0x40000), char_of (0x80 + n div 0x1000 mod 0x40), char_of (0x80 + n div 0x40 mod 0x40),
        char_of (0x80 + n mod 0x40)])"

definition hex4 :: "char \<Rightarrow> char \<Rightarrow> char \<Rightarrow> char \<Rightarrow> nat option" where
  "hex4 a b c d =
     (case (hex_digit a, hex_digit b, hex_digit c, hex_digit d) of
        (Some w, Some x, Some y, Some z) \<Rightarrow> Some (w * 4096 + x * 256 + y * 16 + z)
      | _ \<Rightarrow> None)"

definition escaped_char :: "char \<Rightarrow> char option" where
  "escaped_char c =
     (if c = CHR 0x22 \<or> c = CHR 0x5C \<or> c = CHR ''/'' then Some c
      else if c = CHR ''b'' then Some (CHR 0x08) else if c = CHR ''f'' then Some (CHR 0x0C)
      else if c = CHR ''n'' then Some (CHR 0x0A) else if c = CHR ''r'' then Some (CHR 0x0D)
      else if c = CHR ''t'' then Some (CHR 0x09) else None)"

text \<open>
  The four digits after a \<open>\\u\<close>, and of two escapes that are a surrogate pair the code point they encode; a
  lone surrogate stands for the replacement character.
\<close>

definition json_unicode :: "string \<Rightarrow> (string \<times> string) option" where
  "json_unicode t =
     (case t of
        a # b # c # d # rest \<Rightarrow>
          (case hex4 a b c d of
             None \<Rightarrow> None
           | Some n \<Rightarrow>
               if n < 0xD800 \<or> 0xE000 \<le> n then Some (utf8 n, rest)
               else (case rest of
                   x # y # a' # b' # c' # d' # rest' \<Rightarrow>
                     (case (if x = CHR 0x5C \<and> y = CHR ''u'' then hex4 a' b' c' d' else None) of
                        Some m \<Rightarrow>
                          if n < 0xDC00 \<and> 0xDC00 \<le> m \<and> m < 0xE000
                          then Some (utf8 (0x10000 + (n - 0xD800) * 0x400 + (m - 0xDC00)), rest')
                          else Some (utf8 0xFFFD, rest)
                      | None \<Rightarrow> Some (utf8 0xFFFD, rest))
                 | _ \<Rightarrow> Some (utf8 0xFFFD, rest)))
      | _ \<Rightarrow> None)"

lemma json_unicode_shorter: "json_unicode t = Some (u, rest) \<Longrightarrow> length rest < length t"
  unfolding json_unicode_def by (auto split: list.splits option.splits if_splits)

text \<open>A string after its opening quote: what it denotes, and the text after its closing quote.\<close>

function json_chars :: "string \<Rightarrow> (string \<times> string) option" where
  "json_chars t =
     (case t of
        [] \<Rightarrow> None
      | c # cs \<Rightarrow>
          if c = CHR 0x22 then Some ([], cs)
          else if c = CHR 0x5C then
            (case cs of
               [] \<Rightarrow> None
             | d # ds \<Rightarrow>
                 if d = CHR ''u'' then
                   (case json_unicode ds of
                      None \<Rightarrow> None
                    | Some (u, rest) \<Rightarrow> map_option (apfst ((@) u)) (json_chars rest))
                 else (case escaped_char d of
                     None \<Rightarrow> None
                   | Some e \<Rightarrow> map_option (apfst ((#) e)) (json_chars ds)))
          else if (of_char c :: nat) < 32 then None
          else map_option (apfst ((#) c)) (json_chars cs))"
  by auto
termination by (relation "measure length") (auto dest: json_unicode_shorter)

declare json_chars.simps [simp del]

text \<open>The fraction and the exponent of a number, when it has them.\<close>

definition json_fraction :: "string \<Rightarrow> string option" where
  "json_fraction t =
     (if take 1 t = ''.'' then (if takeWhile is_digit (drop 1 t) = [] then None else Some (dropWhile is_digit (drop 1 t)))
      else Some t)"

definition json_exponent :: "string \<Rightarrow> string option" where
  "json_exponent t =
     (if take 1 t = ''e'' \<or> take 1 t = ''E'' then
        (let u = (if take 1 (drop 1 t) = ''+'' \<or> take 1 (drop 1 t) = ''-'' then drop 2 t else drop 1 t)
         in if takeWhile is_digit u = [] then None else Some (dropWhile is_digit u))
      else Some t)"

definition json_number :: "string \<Rightarrow> (string \<times> string) option" where
  "json_number t =
     (let u = (if take 1 t = ''-'' then drop 1 t else t);
          rest = (if take 1 u = ''0'' then drop 1 u else dropWhile is_digit u)
      in if takeWhile is_digit u = [] then None
         else (case json_fraction rest of
             None \<Rightarrow> None
           | Some r \<Rightarrow> (case json_exponent r of
                 None \<Rightarrow> None
               | Some r' \<Rightarrow> Some (take (length t - length r') t, r'))))"

definition json_literal :: "string \<Rightarrow> (json \<times> string) option" where
  "json_literal t =
     (if prefix ''null'' t then Some (JNull, drop 4 t)
      else if prefix ''true'' t then Some (JBool True, drop 4 t)
      else if prefix ''false'' t then Some (JBool False, drop 5 t)
      else map_option (apfst JNum) (json_number t))"

text \<open>
  The first value of a text and what follows it.  Every call consumes a byte, so the length of the text
  is fuel enough.  An array and an object keep the text they were read from.
\<close>

fun json_value :: "nat \<Rightarrow> string \<Rightarrow> (json \<times> string) option"
  and json_elements :: "nat \<Rightarrow> string \<Rightarrow> (json list \<times> string) option"
  and json_members :: "nat \<Rightarrow> string \<Rightarrow> ((string \<times> json) list \<times> string) option" where
  "json_value 0 t = None"
| "json_value (Suc n) t =
     (case dropWhile json_space t of
        [] \<Rightarrow> None
      | c # cs \<Rightarrow>
          if c = CHR 0x22 then map_option (apfst JStr) (json_chars cs)
          else if c = CHR 0x5B then
            (let u = dropWhile json_space cs in
             if take 1 u = [CHR 0x5D] then Some (JArr (c # take (length cs - length u + 1) cs) [], drop 1 u)
             else map_option (\<lambda>(xs, rest). (JArr (c # take (length cs - length rest) cs) xs, rest)) (json_elements n cs))
          else if c = CHR 0x7B then
            (let u = dropWhile json_space cs in
             if take 1 u = [CHR 0x7D] then Some (JObj (c # take (length cs - length u + 1) cs) [], drop 1 u)
             else map_option (\<lambda>(kvs, rest). (JObj (c # take (length cs - length rest) cs) kvs, rest)) (json_members n cs))
          else json_literal (c # cs))"
| "json_elements 0 t = None"
| "json_elements (Suc n) t =
     (case json_value n t of
        None \<Rightarrow> None
      | Some (x, rest) \<Rightarrow>
          (case dropWhile json_space rest of
             c # cs \<Rightarrow>
               if c = CHR '','' then map_option (apfst ((#) x)) (json_elements n cs)
               else if c = CHR 0x5D then Some ([x], cs)
               else None
           | [] \<Rightarrow> None))"
| "json_members 0 t = None"
| "json_members (Suc n) t =
     (case dropWhile json_space t of
        [] \<Rightarrow> None
      | q # qs \<Rightarrow>
          if q \<noteq> CHR 0x22 then None
          else (case json_chars qs of
              None \<Rightarrow> None
            | Some (k, r1) \<Rightarrow>
                (case dropWhile json_space r1 of
                   [] \<Rightarrow> None
                 | c # cs \<Rightarrow>
                     if c \<noteq> CHR '':'' then None
                     else (case json_value n cs of
                         None \<Rightarrow> None
                       | Some (x, rest) \<Rightarrow>
                           (case dropWhile json_space rest of
                              d # ds \<Rightarrow>
                                if d = CHR '','' then map_option (apfst ((#) (k, x))) (json_members n ds)
                                else if d = CHR 0x7D then Some ([(k, x)], ds)
                                else None
                            | [] \<Rightarrow> None)))))"

definition json_Decode :: "string \<Rightarrow> json option" where
  "json_Decode t = map_option fst (json_value (2 * length t + 2) t)"

text \<open>\<open>json.Unmarshal\<close>: one value and nothing but spaces after it.\<close>

definition json_Unmarshal :: "string \<Rightarrow> json option" where
  "json_Unmarshal t =
     (case json_value (2 * length t + 2) t of
        Some (j, rest) \<Rightarrow> if list_all json_space rest then Some j else None
      | None \<Rightarrow> None)"

text \<open>Every value takes a byte, and more fuel than that changes nothing.\<close>

lemma json_chars_shorter: "json_chars t = Some (u, rest) \<Longrightarrow> length rest < length t"
proof (induction t arbitrary: u rest rule: json_chars.induct)
  case (1 t)
  show ?case
  proof (cases t)
    case (Cons c cs)
    note ok = "1.prems" [unfolded json_chars.simps [of t], unfolded Cons list.case]
    consider (quote) "c = CHR 0x22" | (escape) "c \<noteq> CHR 0x22" "c = CHR 0x5C" | (plain) "c \<noteq> CHR 0x22" "c \<noteq> CHR 0x5C" by blast
    then show ?thesis
    proof cases
      case quote
      with ok Cons show ?thesis by simp
    next
      case escape
      with ok obtain d ds where ds: "cs = d # ds" by (cases cs) auto
      show ?thesis
      proof (cases "d = CHR ''u''")
        case True
        with ok escape ds obtain v r w where v: "json_unicode ds = Some (v, r)" "json_chars r = Some (w, rest)"
          by (auto split: option.splits)
        from "1.IH"(1) [OF Cons escape ds True v(1) refl v(2)] json_unicode_shorter [OF v(1)] Cons ds
        show ?thesis by simp
      next
        case False
        with ok escape ds obtain e w where e: "escaped_char d = Some e" "json_chars ds = Some (w, rest)"
          by (auto split: option.splits)
        from "1.IH"(2) [OF Cons escape ds False e] Cons ds show ?thesis by simp
      qed
    next
      case plain
      with ok obtain w where "json_chars cs = Some (w, rest)" "\<not> (of_char c :: nat) < 32"
        by (auto split: if_splits)
      with "1.IH"(3) [OF Cons plain] Cons show ?thesis by simp
    qed
  qed (use "1.prems" [unfolded json_chars.simps [of t]] in simp)
qed

lemma shorter_drop: "dropWhile P t = c # cs \<Longrightarrow> length cs < length t"
  using length_dropWhile_le [of P t] by simp

lemma json_exponent_shorter: "json_exponent t = Some r \<Longrightarrow> length r \<le> length t"
  using length_dropWhile_le [of is_digit "drop 1 t"] length_dropWhile_le [of is_digit "drop 2 t"]
  by (auto simp: json_exponent_def Let_def split: if_splits)

lemma json_fraction_shorter: "json_fraction t = Some r \<Longrightarrow> length r \<le> length t"
  using length_dropWhile_le [of is_digit "drop 1 t"] by (auto simp: json_fraction_def split: if_splits)

lemma json_number_shorter:
  assumes "json_number t = Some (x, r)"
  shows "length r < length t"
proof -
  define u where "u = (if take 1 t = ''-'' then drop 1 t else t)"
  define rest where "rest = (if take 1 u = ''0'' then drop 1 u else dropWhile is_digit u)"
  have "json_number t =
      (if takeWhile is_digit u = [] then None
       else (case json_fraction rest of
           None \<Rightarrow> None
         | Some r \<Rightarrow> (case json_exponent r of None \<Rightarrow> None | Some r' \<Rightarrow> Some (take (length t - length r') t, r'))))"
    unfolding json_number_def rest_def u_def Let_def by (rule refl)
  with assms obtain f where f: "takeWhile is_digit u \<noteq> []" "json_fraction rest = Some f" "json_exponent f = Some r"
    by (auto split: option.splits if_splits)
  then obtain c cs where u: "u = c # cs" by (cases u) auto
  have "length rest < length u"
  proof (cases "take 1 u = ''0''")
    case False
    with f(1) u have "rest = dropWhile is_digit cs" by (auto simp: rest_def split: if_splits)
    with u length_dropWhile_le [of is_digit cs] show ?thesis by simp
  qed (use u in \<open>simp add: rest_def\<close>)
  moreover have "length u \<le> length t" by (simp add: u_def)
  ultimately show ?thesis using json_fraction_shorter [OF f(2)] json_exponent_shorter [OF f(3)] by simp
qed

lemma json_literal_shorter: "json_literal t = Some (x, r) \<Longrightarrow> length r < length t"
  by (auto simp: json_literal_def prefix_def dest: json_number_shorter split: if_splits)

lemma json_shorter:
  "json_value n t = Some (x, rest) \<Longrightarrow> length rest < length t"
  "json_elements n t = Some (xs, rest) \<Longrightarrow> length rest < length t"
  "json_members n t = Some (kvs, rest) \<Longrightarrow> length rest < length t"
proof (induction n t and n t and n t arbitrary: x rest and xs rest and kvs rest
    rule: json_value_json_elements_json_members.induct)
  case (2 n t)
  then obtain c cs where t: "dropWhile json_space t = c # cs" by (auto split: list.splits)
  have "length (dropWhile json_space cs) \<le> length cs" by (rule length_dropWhile_le)
  with 2 t shorter_drop [OF t] show ?case
    by (fastforce simp: Let_def dest: json_chars_shorter json_literal_shorter split: if_splits)
next
  case (4 n t)
  then obtain x r where v: "json_value n t = Some (x, r)" by (auto split: option.splits)
  with 4 obtain c cs where r: "dropWhile json_space r = c # cs" by (auto split: list.splits)
  from 4 v shorter_drop [OF r] show ?case by (fastforce split: if_splits simp: r)
next
  case (6 n t)
  then obtain q qs where t: "dropWhile json_space t = q # qs" "q = CHR 0x22" by (auto split: list.splits if_splits)
  with 6 obtain k r1 where k: "json_chars qs = Some (k, r1)" by (auto split: option.splits)
  with 6 t obtain c cs where r1: "dropWhile json_space r1 = c # cs" "c = CHR '':''" by (auto split: list.splits if_splits)
  with 6 t k obtain x r where x: "json_value n cs = Some (x, r)" by (auto split: option.splits)
  with 6 t k r1 obtain d ds where d: "dropWhile json_space r = d # ds" by (auto split: list.splits)
  from 6 t k r1 x d shorter_drop [OF t(1)] shorter_drop [OF r1(1)] shorter_drop [OF d] json_chars_shorter [OF k]
  show ?case by (fastforce split: if_splits)
qed auto

lemma json_fuel_all:
  "(2 * length t < n \<and> 2 * length t < m \<longrightarrow> json_value n t = json_value m t) \<and>
   (2 * length t + 1 < n \<and> 2 * length t + 1 < m \<longrightarrow> json_elements n t = json_elements m t) \<and>
   (2 * length t + 1 < n \<and> 2 * length t + 1 < m \<longrightarrow> json_members n t = json_members m t)"
proof (induction n arbitrary: t m)
  case (Suc n)
  have val: "json_value n u = json_value k u" if "2 * length u < n" "2 * length u < k" for u k using Suc that by blast
  have els: "json_elements n u = json_elements k u" if "2 * length u + 1 < n" "2 * length u + 1 < k" for u k using Suc that by blast
  have mem: "json_members n u = json_members k u" if "2 * length u + 1 < n" "2 * length u + 1 < k" for u k using Suc that by blast
  have "json_value (Suc n) t = json_value m t" if "2 * length t < Suc n" "2 * length t < m"
  proof -
    from that(2) obtain k where m: "m = Suc k" by (cases m) auto
    show ?thesis
    proof (cases "dropWhile json_space t")
      case (Cons c cs)
      from shorter_drop [OF Cons] that m have "json_elements n cs = json_elements k cs" "json_members n cs = json_members k cs"
        by (auto intro!: els mem)
      with Cons m show ?thesis by (simp add: Let_def)
    qed (simp add: m del: dropWhile_eq_Nil_conv)
  qed
  moreover have "json_elements (Suc n) t = json_elements m t" if "2 * length t + 1 < Suc n" "2 * length t + 1 < m"
  proof -
    from that(2) obtain k where m: "m = Suc k" by (cases m) auto
    have v: "json_value n t = json_value k t" using that m by (intro val) auto
    show ?thesis
    proof (cases "json_value k t")
      case (Some xr)
      obtain x r where xr: "xr = (x, r)" by force
      have "json_elements n cs = json_elements k cs" if "dropWhile json_space r = c # cs" for c cs
        using shorter_drop [OF that] json_shorter(1) [OF Some [unfolded xr]] \<open>2 * length t + 1 < Suc n\<close> \<open>2 * length t + 1 < m\<close> m
        by (intro els) auto
      with v Some xr m show ?thesis by (cases "dropWhile json_space r") (simp_all del: dropWhile_eq_Nil_conv)
    qed (simp add: m v)
  qed
  moreover have "json_members (Suc n) t = json_members m t" if le: "2 * length t + 1 < Suc n" "2 * length t + 1 < m"
  proof -
    from le(2) obtain k where m: "m = Suc k" by (cases m) auto
    have v: "json_value n cs = json_value k cs" if "length cs < length t" for cs using that le m by (intro val) auto
    have w: "json_members n cs = json_members k cs" if "length cs < length t" for cs using that le m by (intro mem) auto
    show ?thesis
    proof (cases "dropWhile json_space t")
      case (Cons q qs)
      show ?thesis
      proof (cases "json_chars qs")
        case (Some kr)
        obtain key r1 where kr: "kr = (key, r1)" by force
        have r1: "length r1 < length t" using json_chars_shorter [OF Some [unfolded kr]] shorter_drop [OF Cons] by simp
        show ?thesis
        proof (cases "dropWhile json_space r1")
          case colon: (Cons c cs)
          have cs: "length cs < length t" using shorter_drop [OF colon] r1 by simp
          show ?thesis
          proof (cases "json_value k cs")
            case None
            with Cons Some kr colon m v [OF cs] show ?thesis by simp
          next
            case val: (Some xr)
            obtain x r where xr: "xr = (x, r)" by force
            have "json_members n ds = json_members k ds" if "dropWhile json_space r = d # ds" for d ds
              using shorter_drop [OF that] json_shorter(1) [OF val [unfolded xr]] cs by (intro w) simp
            with Cons Some kr colon val xr m v [OF cs] show ?thesis
              by (cases "dropWhile json_space r") (simp_all del: dropWhile_eq_Nil_conv)
          qed
        qed (simp add: Cons Some kr m del: dropWhile_eq_Nil_conv)
      qed (simp add: Cons m)
    qed (simp add: m del: dropWhile_eq_Nil_conv)
  qed
  ultimately show ?case by blast
qed simp

lemma json_fuel: "2 * length t < n \<Longrightarrow> json_Decode t = map_option fst (json_value n t)"
  using json_fuel_all [of t n "2 * length t + 2"] by (simp add: json_Decode_def)

text \<open>A document and what is read back from it.\<close>

lemma json_Decode_example:
  "json_Decode ''{ \"a\": [1, -2.5e3], \"b\" : {\"c\":null} } rest'' =
     Some (JObj ''{ \"a\": [1, -2.5e3], \"b\" : {\"c\":null} }''
       [(''a'', JArr ''[1, -2.5e3]'' [JNum ''1'', JNum ''-2.5e3'']), (''b'', JObj ''{\"c\":null}'' [(''c'', JNull)])])"
  by code_simp

end
