(* ===== verification/StorageVolume.thy ===== *)
theory StorageVolume
  imports StorageOrphans JsonText
begin

text \<open>
  The allocation of a volume and the freeing of the left-over volumes of one VM
  (\<open>internal/idempotent/storagevolume.go\<close>), as operations of the engine.
\<close>

section \<open>Scalar answers and names\<close>

definition decodeScalarString :: "json \<Rightarrow> string \<Rightarrow> gerror + string" where
  "decodeScalarString raw what =
     (let unexpected = [Lit ''decode '', Lit what, Lit '': unexpected response '', Lit (raw_text raw), Lit '': ''] in
      case raw of
        JNull \<Rightarrow> Inl (Errorf (unexpected @ [Lit ''expected a '', Lit what, Lit '' string, got null'']))
      | JStr s \<Rightarrow>
          if s = [] then Inl (Errorf (unexpected @ [Lit ''expected a non-empty '', Lit what, Lit '' string, got '',
            Lit [CHR 0x22, CHR 0x22]]))
          else Inr s
      | _ \<Rightarrow> Inl (Errorf (unexpected @ [Wrapped json_type_error])))"

text \<open>What follows the first colon, and of that what follows the last slash.\<close>

definition volidBasename :: "string \<Rightarrow> string" where
  "volidBasename volid =
     (let rest = (if CHR '':'' \<in> set volid then tl (dropWhile (\<lambda>c. c \<noteq> CHR '':'') volid) else volid)
      in rev (takeWhile (\<lambda>c. c \<noteq> CHR ''/'') (rev rest)))"

section \<open>The allocation of a volume\<close>

record alloc_request =
  al_storage :: string
  al_filename :: string
  al_size :: string
  al_vmid :: int
  al_format :: string

record volalloc = sess +
  va_volid :: string

definition VolumeAlloc_Validate :: "alloc_request \<Rightarrow> gerror option" where
  "VolumeAlloc_Validate q =
     (if al_storage q = [] then Some (ErrorString ''storage alloc: storage is required'')
      else if al_filename q = [] then Some (ErrorString ''storage alloc: filename is required'')
      else if al_size q = [] then Some (ErrorString ''storage alloc: size is required'')
      else if al_vmid q < 1 then
        Some (Errorf [Lit ''storage alloc: vmid must be a positive integer, got '', Dec (al_vmid q)])
      else None)"

text \<open>\<open>uint64(op.VMID)\<close>: the conversion of an \<open>int\<close> to 64 bits without a sign.\<close>

definition uint64 :: "int \<Rightarrow> nat" where
  "uint64 i = nat (i mod 2 ^ 64)"

definition find_alloc :: "alloc_request \<Rightarrow> storage_content list \<Rightarrow> string" where
  "find_alloc q vols =
     (case find (\<lambda>v. sc_vmid v = uint64 (al_vmid q) \<and> volidBasename (sc_volid v) = al_filename q) vols of
        None \<Rightarrow> [] | Some v \<Rightarrow> sc_volid v)"

definition VolumeAlloc_Read :: "env \<Rightarrow> target \<Rightarrow> alloc_request \<Rightarrow> (('r volalloc_scheme), gerror + string) state" where
  "VolumeAlloc_Read env t q = do {
     r \<leftarrow> GetStorageVolumes env (tg_node t) (al_storage q);
     case r of
       Inl e \<Rightarrow> ret (Inl (Errorf [Lit ''storage alloc: read volumes on '', Quo (tg_node t), Lit ''/'', Quo (al_storage q),
           Lit '': '', Wrapped e]))
     | Inr vols \<Rightarrow> do {
         _ \<leftarrow> modify (\<lambda>s. s\<lparr>va_volid := find_alloc q vols\<rparr>);
         ret (Inr (find_alloc q vols))
       }
   }"

definition VolumeAlloc_Satisfied :: "string \<Rightarrow> bool" where
  "VolumeAlloc_Satisfied current \<longleftrightarrow> current \<noteq> []"

definition alloc_form :: "alloc_request \<Rightarrow> url_values" where
  "alloc_form q =
     (let params = values_Set ''vmid'' (strconv_Itoa (al_vmid q))
            (values_Set ''size'' (al_size q) (values_Set ''filename'' (al_filename q) []))
      in if al_format q \<noteq> [] then values_Set ''format'' (al_format q) params else params)"

definition alloc_error :: "target \<Rightarrow> alloc_request \<Rightarrow> gerror \<Rightarrow> gerror" where
  "alloc_error t q e =
     Errorf [Lit ''storage alloc: allocate '', Quo (al_filename q), Lit '' on '', Quo (tg_node t), Lit ''/'',
       Quo (al_storage q), Lit '': '', Wrapped e]"

definition VolumeAlloc_Apply :: "env \<Rightarrow> target \<Rightarrow> alloc_request \<Rightarrow> (('r volalloc_scheme), gerror option) state" where
  "VolumeAlloc_Apply env t q = do {
     r \<leftarrow> RawRequest env POST (content_path (tg_node t) (al_storage q)) (alloc_form q);
     case r of
       Inl e \<Rightarrow> ret (Some (alloc_error t q e))
     | Inr raw \<Rightarrow>
         (case decodeScalarString raw ''volid'' of
            Inl e \<Rightarrow> ret (Some (alloc_error t q e))
          | Inr returned \<Rightarrow> do {
              v \<leftarrow> GetStorageVolumes env (tg_node t) (al_storage q);
              case v of
                Inl e \<Rightarrow> ret (Some (Errorf [Lit ''storage alloc: read-back '', Quo returned, Lit '' on '',
                    Quo (tg_node t), Lit ''/'', Quo (al_storage q), Lit '': '', Wrapped e]))
              | Inr vols \<Rightarrow>
                  if list_ex (\<lambda>v. sc_volid v = returned) vols then do {
                    _ \<leftarrow> modify (\<lambda>s. s\<lparr>va_volid := returned\<rparr>);
                    ret None
                  }
                  else ret (Some (Errorf [Lit ''storage alloc: the POST for '', Quo (al_filename q),
                    Lit '' returned volid '', Quo returned,
                    Lit '' but GetStorageVolumes does not list it (second signal failed)'']))
            })
   }"

definition VolumeAlloc :: "env \<Rightarrow> target \<Rightarrow> alloc_request \<Rightarrow> (volalloc, string) op" where
  "VolumeAlloc env t q =
     \<lparr>op_Read = VolumeAlloc_Read env t q, op_Satisfied = (\<lambda>_. VolumeAlloc_Satisfied),
      op_Apply = VolumeAlloc_Apply env t q, op_PostApply = None, op_ReRead = None, op_PostNoop = None\<rparr>"

section \<open>The freeing of left-over volumes\<close>

record free_request =
  fo_storage :: string
  fo_vmid :: int
  fo_complete :: "int list option"
  fo_pairs :: "node_vmid list option"

record volfree = sess +
  vf_applied :: "string list"
  vf_orphans :: "storage_content list"

definition free_error :: "target \<Rightarrow> free_request \<Rightarrow> frag list \<Rightarrow> gerror" where
  "free_error t q what =
     Errorf ([Lit ''storage free-orphans: vmid '', Dec (fo_vmid q), Lit '' on '', Quo (tg_node t), Lit ''/'',
       Quo (fo_storage q), Lit '': ''] @ what)"

text \<open>The guard on the two selectors: exactly one of them, and a node-scoped one never on shared storage.\<close>

definition selector_guard :: "env \<Rightarrow> target \<Rightarrow> free_request \<Rightarrow> ('r sess_scheme, gerror option) state" where
  "selector_guard env t q =
     (if (fo_pairs q \<noteq> None) = (fo_complete q \<noteq> None) then
        ret (Some (free_error t q [Wrapped (Sentinel ErrUnverifiableRead),
          Lit '': exactly one of ClusterPairs (shared, cluster-wide) or CompleteVMIDs (node-scoped) must be set, not both and not neither'']))
      else if fo_complete q \<noteq> None then do {
        r \<leftarrow> Client_GetStorage env (tg_node t) (fo_storage q);
        ret (case r of
            Inl e \<Rightarrow> Some (free_error t q [Lit ''read storage for the shared-selector guard: '', Wrapped e])
          | Inr st \<Rightarrow>
              if st_shared st \<noteq> 0 then
                Some (free_error t q [Wrapped (Sentinel ErrUnverifiableRead),
                  Lit '': storage is shared but the free was built with a node-scoped CompleteVMIDs; a cluster-wide ClusterPairs is required to free shared storage safely''])
              else None)
      }
      else ret None)"

definition scan_orphans ::
    "env \<Rightarrow> target \<Rightarrow> free_request \<Rightarrow> ('r sess_scheme, gerror + storage_content list) state" where
  "scan_orphans env t q =
     (if fo_pairs q \<noteq> None
      then OrphanVolumesClusterForVMID env (tg_node t) (fo_storage q) (fo_vmid q) (fo_pairs q)
      else OrphanVolumesForVMIDWithVMList env (tg_node t) (fo_storage q) (fo_vmid q) (fo_complete q))"

text \<open>\<open>json.Marshal\<close> of a list of strings.\<close>

definition marshal_strings :: "string list \<Rightarrow> string" where
  "marshal_strings ss = ''['' @ join_with '','' (map json_string ss) @ '']''"

definition VolumeFree_Read :: "env \<Rightarrow> target \<Rightarrow> free_request \<Rightarrow> ('r volfree_scheme, gerror + string) state" where
  "VolumeFree_Read env t q = do {
     refused \<leftarrow> selector_guard env t q;
     case refused of
       Some e \<Rightarrow> ret (Inl e)
     | None \<Rightarrow> do {
         r \<leftarrow> scan_orphans env t q;
         case r of
           Inl e \<Rightarrow> ret (Inl (Errorf [Lit ''storage free-orphans: determine orphans for vmid '', Dec (fo_vmid q), Lit '' on '',
               Quo (tg_node t), Lit ''/'', Quo (fo_storage q), Lit '': '', Wrapped e]))
         | Inr orphans \<Rightarrow> do {
             _ \<leftarrow> modify (\<lambda>s. s\<lparr>vf_orphans := orphans\<rparr>);
             ret (Inr (marshal_strings (map sc_volid orphans)))
           }
       }
   }"

definition VolumeFree_Satisfied :: "string \<Rightarrow> bool" where
  "VolumeFree_Satisfied current \<longleftrightarrow> current = ''[]''"

definition freeOne :: "env \<Rightarrow> target \<Rightarrow> free_request \<Rightarrow> string \<Rightarrow> ('r sess_scheme, gerror option) state" where
  "freeOne env t q volid = do {
     r \<leftarrow> RawRequest env DELETE (volume_path (tg_node t) (fo_storage q) volid) [];
     case r of
       Inl e \<Rightarrow> ret (Some e)
     | Inr raw \<Rightarrow>
         (case decodeScalarString raw ''upid'' of
            Inl e \<Rightarrow> ret (Some e)
          | Inr upid \<Rightarrow> WaitForTask env (tg_node t) upid)
   }"

fun free_all :: "env \<Rightarrow> target \<Rightarrow> free_request \<Rightarrow> storage_content list \<Rightarrow> ('r volfree_scheme, gerror option) state" where
  "free_all env t q [] = ret None"
| "free_all env t q (sc # orphans) = do {
     r \<leftarrow> freeOne env t q (sc_volid sc);
     case r of
       Some e \<Rightarrow> ret (Some (Errorf [Lit ''storage free-orphans: free '', Quo (sc_volid sc), Lit '': '', Wrapped e]))
     | None \<Rightarrow> do {
         _ \<leftarrow> modify (\<lambda>s. s\<lparr>vf_applied := appendOnce (vf_applied s) (sc_volid sc)\<rparr>);
         free_all env t q orphans
       }
   }"

definition VolumeFree_Apply :: "env \<Rightarrow> target \<Rightarrow> free_request \<Rightarrow> ('r volfree_scheme, gerror option) state" where
  "VolumeFree_Apply env t q = do { s \<leftarrow> State_Monad.get; free_all env t q (vf_orphans s) }"

definition VolumeFree :: "env \<Rightarrow> target \<Rightarrow> free_request \<Rightarrow> (volfree, string) op" where
  "VolumeFree env t q =
     \<lparr>op_Read = VolumeFree_Read env t q, op_Satisfied = (\<lambda>_. VolumeFree_Satisfied),
      op_Apply = VolumeFree_Apply env t q, op_PostApply = None, op_ReRead = None, op_PostNoop = None\<rparr>"

section \<open>What a free run deletes\<close>

text \<open>
  The grounds for freeing a volume: it has the VM's name prefix, the storage was seen to list it as
  a disk or ISO image, and no VM of the selector claims it; a node-scoped selector goes with a
  storage that was read as not shared.
\<close>

definition free_ok :: "target \<Rightarrow> free_request \<Rightarrow> string \<Rightarrow> event list \<Rightarrow> bool" where
  "free_ok t q volid es \<longleftrightarrow>
     strings_HasPrefix volid (vmid_prefix (fo_storage q) (fo_vmid q)) \<and>
     (\<exists>cs sc. content_read (tg_node t) (fo_storage q) cs es \<and> lists_volume cs sc \<and> sc_volid sc = volid) \<and>
     (\<exists>gs. fo_pairs q = Some gs \<and> fo_complete q = None \<and> cluster_clear gs volid es \<or>
        (\<exists>vs. fo_complete q = Some vs \<and> fo_pairs q = None \<and> unshared (tg_node t) (fo_storage q) es \<and>
           node_clear (tg_node t) vs volid es))"

lemma free_ok_mono: "free_ok t q volid es \<Longrightarrow> set es \<subseteq> set fs \<Longrightarrow> free_ok t q volid fs"
  unfolding free_ok_def by (blast intro: content_read_mono unshared_mono vm_clear_mono)

lemma free_ok_append:
  "free_ok t q volid es \<Longrightarrow> free_ok t q volid (es @ fs)" "free_ok t q volid fs \<Longrightarrow> free_ok t q volid (es @ fs)"
  by (erule free_ok_mono; simp)+

lemma prefix_not_empty: "strings_HasPrefix volid (vmid_prefix storage vmid) \<Longrightarrow> volid \<noteq> []"
  by (auto simp: strings_HasPrefix_def vmid_prefix_def)

lemma free_okI:
  assumes "left_over (tg_node t) (fo_storage q) C os es" and "sc \<in> set os"
    and "strings_HasPrefix (sc_volid sc) (vmid_prefix (fo_storage q) (fo_vmid q))"
    and "C (sc_volid sc) es \<Longrightarrow>
      \<exists>gs. fo_pairs q = Some gs \<and> fo_complete q = None \<and> cluster_clear gs (sc_volid sc) es \<or>
        (\<exists>vs. fo_complete q = Some vs \<and> fo_pairs q = None \<and> unshared (tg_node t) (fo_storage q) es \<and>
           node_clear (tg_node t) vs (sc_volid sc) es)"
  shows "free_ok t q (sc_volid sc) es"
  using assms prefix_not_empty [OF assms(3)] unfolding free_ok_def left_over_def by blast

lemma traces_selector_guard:
  "traces (selector_guard env t q)
     (\<lambda>r es. list_all reads es \<and> (r = None \<longrightarrow> (fo_pairs q = None) \<noteq> (fo_complete q = None)))"
  unfolding selector_guard_def
  by (intro traces_if traces_return traces_bind [OF traces_Client_GetStorage]) (auto split: sum.splits if_splits)

lemma traces_scan_orphans:
  assumes "(fo_pairs q = None) \<noteq> (fo_complete q = None)"
  shows "traces (scan_orphans env t q)
     (\<lambda>r es. list_all reads es \<and> (\<forall>os. r = Inr os \<longrightarrow> (\<forall>sc \<in> set os. free_ok t q (sc_volid sc) es)))"
proof (cases "fo_pairs q")
  case None
  then show ?thesis
    by (simp add: scan_orphans_def) (auto intro!: traces_mono [OF traces_ForVMIDWithVMList] elim!: free_okI)
next
  case (Some gs)
  with assms show ?thesis
    by (simp add: scan_orphans_def) (auto intro!: traces_mono [OF traces_ClusterForVMID] elim!: free_okI)
qed

lemma emits_selectors [emits_intro]:
  "emits reads (selector_guard env t q)" "emits reads (scan_orphans env t q)"
proof -
  show "emits reads (selector_guard env t q)"
    unfolding emits_def by (rule traces_mono [OF traces_selector_guard]) simp
  show "emits reads (scan_orphans env t q)"
    unfolding emits_def scan_orphans_def
    by (auto intro: traces_mono [OF traces_ClusterForVMID] traces_mono [OF traces_ForVMIDWithVMList])
qed

lemma emits_VolumeFree_Read: "emits reads (VolumeFree_Read env t q)"
  unfolding VolumeFree_Read_def by (intro emits_intro; simp)

text \<open>The read leaves in the operation exactly the volumes it has grounds for.\<close>

lemma run_VolumeFree_Read:
  assumes "run_state (VolumeFree_Read env t q) s = (Inr c, s1)"
  shows "\<exists>es. log s1 = log s @ es \<and> list_all reads es \<and> c = marshal_strings (map sc_volid (vf_orphans s1)) \<and>
     (\<forall>sc \<in> set (vf_orphans s1). free_ok t q (sc_volid sc) es)"
proof -
  obtain r0 s0 where g: "run_state (selector_guard env t q) s = (r0, s0)" by force
  with assms have none: "r0 = None" by (cases r0) (auto simp: VolumeFree_Read_def)
  obtain r1 s2 where sc: "run_state (scan_orphans env t q) s0 = (r1, s2)" by force
  with assms g none obtain os where os: "r1 = Inr os" by (cases r1) (auto simp: VolumeFree_Read_def)
  with assms g none sc have s1: "c = marshal_strings (map sc_volid os)" "s1 = s2\<lparr>vf_orphans := os\<rparr>"
    by (auto simp: VolumeFree_Read_def modify_def)
  from traces_runD [OF traces_selector_guard g] none obtain e0
    where e0: "log s0 = log s @ e0" "list_all reads e0" "(fo_pairs q = None) \<noteq> (fo_complete q = None)" by blast
  from traces_runD [OF traces_scan_orphans [OF e0(3)] sc] os obtain e1
    where "log s2 = log s0 @ e1" "list_all reads e1" "\<forall>sc \<in> set os. free_ok t q (sc_volid sc) e1" by blast
  with e0 s1 show ?thesis
    by (intro exI [of _ "e0 @ e1"]) (auto intro: free_ok_mono)
qed

lemma decodeScalarString_ok: "decodeScalarString raw what = Inr u \<longleftrightarrow> raw = JStr u \<and> u \<noteq> []"
  by (cases raw) (auto simp: decodeScalarString_def Let_def)

lemma traces_freeOne:
  "traces (freeOne env t q volid)
     (\<lambda>r es. task_run DELETE (volume_path (tg_node t) (fo_storage q) volid) [] (r = None) es)"
proof -
  obtain p where "volume_path (tg_node t) (fo_storage q) volid = CHR ''/'' # p" using config_paths_slash(4) by blast
  then have sent: "traces (RawRequest env DELETE (volume_path (tg_node t) (fo_storage q) volid) [])
      (\<lambda>r es. \<exists>a. es = [EHttp DELETE (volume_path (tg_node t) (fo_storage q) volid) [] a] \<and> r = raw_result a)"
    by (rule traces_RawRequest_sent) simp
  show ?thesis
    unfolding freeOne_def
    apply (rule traces_bind [OF sent], rule traces_case_sum)
     apply (auto intro!: traces_return simp: task_run_def) []
    apply (rule traces_case_sum)
     apply (auto intro!: traces_return simp: task_run_def) []
    apply (rule traces_mono [OF traces_WaitForTask_ok])
    apply (auto simp: task_run_def decodeScalarString_ok started_def)
    apply metis
    done
qed

text \<open>
  What an \<open>Apply\<close> has done to the volumes of a list: one DELETE for each of the volumes it freed and
  at most one more, in the order of the list.
\<close>

definition frees :: "target \<Rightarrow> free_request \<Rightarrow> string list \<Rightarrow> event list \<Rightarrow> bool" where
  "frees t q volids es \<longleftrightarrow>
     list_all2 (\<lambda>v e. \<exists>a. e = EHttp DELETE (volume_path (tg_node t) (fo_storage q) v) [] a) volids (filter is_write es)"

definition free_done :: "target \<Rightarrow> free_request \<Rightarrow> string \<Rightarrow> event list \<Rightarrow> bool" where
  "free_done t q volid es \<longleftrightarrow> ended_well DELETE (volume_path (tg_node t) (fo_storage q) volid) es"

lemma volfree_fields:
  "sess.more s' = sess.more s \<Longrightarrow> vf_applied s' = vf_applied s \<and> vf_orphans s' = vf_orphans s"
  for s s' :: "'r volfree_scheme"
  by (cases s; cases s') simp

lemma frames_freeOne: "frames (freeOne env t q volid)"
  unfolding freeOne_def by (intro frames_intro)

lemma free_done_append: "free_done t q v es \<or> free_done t q v fs \<Longrightarrow> free_done t q v (es @ fs)"
  unfolding free_done_def by (rule ended_well_append)

definition free_spec ::
    "target \<Rightarrow> free_request \<Rightarrow> string list \<Rightarrow> string list \<Rightarrow> string list \<Rightarrow> bool \<Rightarrow> event list \<Rightarrow> bool" where
  "free_spec t q volids freed failed good es \<longleftrightarrow>
     prefix (freed @ failed) volids \<and> frees t q (freed @ failed) es \<and> list_all remote es \<and>
     (\<forall>v \<in> set freed. free_done t q v es) \<and>
     (if good then freed = volids \<and> failed = [] else length failed = 1)"

lemma task_run_remote: "task_run m p f g es \<Longrightarrow> list_all remote es"
  unfolding task_run_def by (auto simp: remote_def list_all_iff reads_def)

lemma free_spec_fail:
  assumes "task_run DELETE (volume_path (tg_node t) (fo_storage q) v) [] False es"
  shows "free_spec t q (v # vs) [] [v] False es"
  using task_run_writes(1) [OF assms] task_run_remote [OF assms] by (auto simp: free_spec_def frees_def)

lemma free_spec_step:
  assumes "task_run DELETE (volume_path (tg_node t) (fo_storage q) v) [] True es"
    and "free_spec t q vs freed failed good fs"
  shows "free_spec t q (v # vs) (v # freed) failed good (es @ fs)"
proof -
  from task_run_writes [OF assms(1)] obtain a
    where "filter is_write es = [EHttp DELETE (volume_path (tg_node t) (fo_storage q) v) [] a]"
      and "free_done t q v es" by (auto simp: free_done_def)
  with assms(2) task_run_remote [OF assms(1)] show ?thesis
    by (auto simp: free_spec_def frees_def intro: free_done_append)
qed

lemma run_free_all:
  assumes "run_state (free_all env t q os) s = (r, s')"
  shows "\<exists>es freed failed. log s' = log s @ es \<and> free_spec t q (map sc_volid os) freed failed (r = None) es \<and>
     vf_applied s' = foldl appendOnce (vf_applied s) freed"
  using assms
proof (induction os arbitrary: s)
  case Nil
  then show ?case by (intro exI [of _ "[]"]) (simp add: free_spec_def frees_def)
next
  case (Cons sc os)
  obtain r1 s1 where one: "run_state (freeOne env t q (sc_volid sc)) s = (r1, s1)" by force
  from traces_runD [OF traces_freeOne one] obtain es where es: "log s1 = log s @ es"
    "task_run DELETE (volume_path (tg_node t) (fo_storage q) (sc_volid sc)) [] (r1 = None) es" by blast
  have same: "vf_applied s1 = vf_applied s"
    using volfree_fields [OF framesD [OF frames_freeOne one]] by simp
  show ?case
  proof (cases r1)
    case None
    let ?s2 = "s1\<lparr>vf_applied := appendOnce (vf_applied s1) (sc_volid sc)\<rparr>"
    from Cons.prems one None have "run_state (free_all env t q os) ?s2 = (r, s')" by (simp add: modify_def)
    from Cons.IH [OF this] obtain fs freed failed where fs: "log s' = log s1 @ fs"
      "free_spec t q (map sc_volid os) freed failed (r = None) fs"
      "vf_applied s' = foldl appendOnce (appendOnce (vf_applied s) (sc_volid sc)) freed"
      by (auto simp: same)
    from es(2) None have ok: "task_run DELETE (volume_path (tg_node t) (fo_storage q) (sc_volid sc)) [] True es" by simp
    from free_spec_step [OF ok fs(2)] fs(1,3) es(1) show ?thesis
      by (intro exI [of _ "es @ fs"] exI [of _ "sc_volid sc # freed"] exI [of _ failed]) simp
  next
    case (Some e)
    with Cons.prems one have "r \<noteq> None" "s' = s1" by auto
    from es(2) Some have bad: "task_run DELETE (volume_path (tg_node t) (fo_storage q) (sc_volid sc)) [] False es" by simp
    from free_spec_fail [OF bad] \<open>r \<noteq> None\<close> \<open>s' = s1\<close> es(1) same show ?thesis
      by (intro exI [of _ es] exI [of _ "[]"] exI [of _ "[sc_volid sc]"]) auto
  qed
qed

text \<open>As an operation of the engine: every write of an attempt has its grounds in that attempt's read.\<close>

definition free_allowed :: "target \<Rightarrow> free_request \<Rightarrow> event list \<Rightarrow> event \<Rightarrow> bool" where
  "free_allowed t q pre e \<longleftrightarrow>
     (\<exists>volid a. e = EHttp DELETE (volume_path (tg_node t) (fo_storage q) volid) [] a \<and> free_ok t q volid pre)"

lemma frees_allowed:
  assumes "frees t q vs es" and "\<forall>v \<in> set vs. free_ok t q v before" and "list_all reads before"
  shows "gated (free_allowed t q) (before @ es)"
proof (rule gated_after [OF gated_reads [OF assms(3)]])
  have "free_allowed t q (before @ pre) e" if "es = pre @ e # post" "is_write e" for pre e post
  proof -
    from that have "e \<in> set (filter is_write es)" by simp
    then obtain i where i: "i < length (filter is_write es)" "filter is_write es ! i = e"
      unfolding in_set_conv_nth by blast
    with assms(1) have "vs ! i \<in> set vs"
      and "\<exists>a. e = EHttp DELETE (volume_path (tg_node t) (fo_storage q) (vs ! i)) [] a"
      unfolding frees_def list_all2_conv_all_nth by auto
    then obtain v a where "v \<in> set vs" "e = EHttp DELETE (volume_path (tg_node t) (fo_storage q) v) [] a" by blast
    with assms(2) show ?thesis
      unfolding free_allowed_def by (intro exI [of _ v] exI [of _ a]) (auto intro: free_ok_append(1))
  qed
  then show "gated (\<lambda>pre. free_allowed t q (before @ pre)) es" by (simp add: gated_def)
qed

lemma run_VolumeFree_Apply:
  assumes "run_state (VolumeFree_Apply env t q) s = (r, s')"
  shows "\<exists>es freed failed. log s' = log s @ es \<and> free_spec t q (map sc_volid (vf_orphans s)) freed failed (r = None) es \<and>
     vf_applied s' = foldl appendOnce (vf_applied s) freed"
  using assms run_free_all [of env t q "vf_orphans s" s r s'] by (simp add: VolumeFree_Apply_def State_Monad.get_def)

lemma emits_VolumeFree_Apply: "emits remote (VolumeFree_Apply env t q)"
  unfolding emits_def traces_def
proof (intro allI impI)
  fix s :: "'a volfree_scheme"
  obtain r s' where run: "run_state (VolumeFree_Apply env t q) s = (r, s')" by force
  from run_VolumeFree_Apply [OF run] run
  show "\<exists>es. log (snd (run_state (VolumeFree_Apply env t q) s)) = log s @ es \<and> list_all remote es"
    by (auto simp: free_spec_def)
qed

interpretation volfree_op: op_attempt "VolumeFree env t q" "\<lambda>_ es. list_all remote es" "\<lambda>_ _. True" "\<lambda>_. True"
    "free_allowed t q" for env t q
proof unfold_locales
  fix s c s1 r s2
  assume "run_state (op_Read (VolumeFree env t q)) s = (Inr c, s1)" "run_state (op_Apply (VolumeFree env t q)) s1 = (r, s2)"
  then have rd: "run_state (VolumeFree_Read env t q) s = (Inr c, s1)" and ap: "run_state (VolumeFree_Apply env t q) s1 = (r, s2)"
    by (simp_all add: VolumeFree_def)
  from run_VolumeFree_Read [OF rd] obtain es where es: "log s1 = log s @ es" "list_all reads es"
    "\<forall>sc \<in> set (vf_orphans s1). free_ok t q (sc_volid sc) es" by blast
  from run_VolumeFree_Apply [OF ap] obtain fs freed failed where fs: "log s2 = log s1 @ fs"
    "free_spec t q (map sc_volid (vf_orphans s1)) freed failed (r = None) fs" by blast
  from fs(2) have fr: "frees t q (freed @ failed) fs" and pre: "prefix (freed @ failed) (map sc_volid (vf_orphans s1))"
    by (auto simp: free_spec_def)
  have "\<forall>v \<in> set (freed @ failed). free_ok t q v es"
    using set_mono_prefix [OF pre] es(3) by (auto simp del: set_append)
  from frees_allowed [OF fr this es(2)] es(1) fs(1) show "\<exists>es. log s2 = log s @ es \<and> gated (free_allowed t q) es"
    by (intro exI [of _ "es @ fs"]) simp
next
  show "looks_back (free_allowed t q)"
    by (auto simp: looks_back_def free_allowed_def dest: free_ok_append(2))
qed (use emits_VolumeFree_Read emits_VolumeFree_Apply in \<open>auto simp: VolumeFree_def emits_def\<close>)

text \<open>
  C3: every write of a run that frees left-over volumes deletes one volume that has the name prefix
  of the VM and that the storage was seen to list; before it, in the same attempt, the pending and
  the current config and every snapshot section of every VM of the selector were read and name
  other volumes only; the selector is either a set of cluster guests, or the VMs of the node on a
  storage that was read as not shared.
\<close>

theorem VolumeFree_unclaimed_only:
  assumes "run_state (Run env rp key (VolumeFree env t q) force) s = (res, s')"
  shows "\<exists>es. log s' = log s @ es \<and>
     (\<forall>pre e post. es = pre @ e # post \<and> is_write e \<longrightarrow>
        (\<exists>volid a cs sc. e = EHttp DELETE (volume_path (tg_node t) (fo_storage q) volid) [] a \<and>
           strings_HasPrefix volid (vmid_prefix (fo_storage q) (fo_vmid q)) \<and>
           content_read (tg_node t) (fo_storage q) cs pre \<and> lists_volume cs sc \<and> sc_volid sc = volid \<and>
           (\<exists>gs. fo_pairs q = Some gs \<and> fo_complete q = None \<and> (\<forall>(node, v) \<in> set gs. vm_clear node v volid pre) \<or>
              (\<exists>vs. fo_complete q = Some vs \<and> fo_pairs q = None \<and> unshared (tg_node t) (fo_storage q) pre \<and>
                 (\<forall>v \<in> set vs. vm_clear (tg_node t) v volid pre)))))"
  using volfree_op.Run_attempts_gated [OF assms] unfolding gated_def free_allowed_def free_ok_def by fast

section \<open>What an \<open>Apply\<close> reports\<close>

text \<open>
  An \<open>Apply\<close> of a free sends its DELETEs in the order of the volumes the read left, stops at the
  first that fails, and \<open>Applied\<close> is then exactly the volumes whose delete task was seen to end
  well: on success all of them, on an error all that were sent a DELETE but the last.
\<close>

theorem VolumeFree_Applied_exact:
  assumes "run_state (VolumeFree_Apply env t q) s = (r, s')" and "vf_applied s = []"
  shows "\<exists>es freed failed. log s' = log s @ es \<and> prefix (freed @ failed) (map sc_volid (vf_orphans s)) \<and>
     list_all2 (\<lambda>v e. \<exists>a. e = EHttp DELETE (volume_path (tg_node t) (fo_storage q) v) [] a) (freed @ failed)
       (filter is_write es) \<and>
     (\<forall>v \<in> set freed. ended_well DELETE (volume_path (tg_node t) (fo_storage q) v) es) \<and>
     set (vf_applied s') = set freed \<and> distinct (vf_applied s') \<and>
     (if r = None then freed = map sc_volid (vf_orphans s) \<and> failed = [] else length failed = 1)"
proof -
  from run_VolumeFree_Apply [OF assms(1)] obtain es freed failed
    where "log s' = log s @ es" "free_spec t q (map sc_volid (vf_orphans s)) freed failed (r = None) es"
      "vf_applied s' = foldl appendOnce [] freed" by (auto simp: assms(2))
  then show ?thesis
    by (intro exI [of _ es] exI [of _ freed] exI [of _ failed])
      (auto simp: free_spec_def frees_def free_done_def set_foldl_appendOnce distinct_foldl_appendOnce)
qed

section \<open>The allocation\<close>

text \<open>A list of the storage that holds the volume.\<close>

definition volume_listed :: "string \<Rightarrow> string \<Rightarrow> storage_content \<Rightarrow> event \<Rightarrow> bool" where
  "volume_listed node storage sc e \<longleftrightarrow>
     (\<exists>cs c. e = EContent (content_path node storage) (Inr (Some cs)) \<and> None \<notin> set cs \<and>
        Some c \<in> set cs \<and> entry_volume c = sc)"

definition alloc_found :: "target \<Rightarrow> alloc_request \<Rightarrow> string \<Rightarrow> event list \<Rightarrow> bool" where
  "alloc_found t q volid es \<longleftrightarrow>
     (\<exists>sc e. e \<in> set es \<and> volume_listed (tg_node t) (al_storage q) sc e \<and> sc_volid sc = volid \<and>
        sc_vmid sc = uint64 (al_vmid q) \<and> volidBasename volid = al_filename q)"

definition alloc_done :: "target \<Rightarrow> alloc_request \<Rightarrow> event list \<Rightarrow> bool" where
  "alloc_done t q es \<longleftrightarrow>
     (\<exists>a volid sc e. es = [EHttp POST (content_path (tg_node t) (al_storage q)) (alloc_form q) a, e] \<and>
        raw_result a = Inr (JStr volid) \<and> volid \<noteq> [] \<and>
        volume_listed (tg_node t) (al_storage q) sc e \<and> sc_volid sc = volid)"

lemma traces_GetStorageVolumes:
  "traces (GetStorageVolumes env node storage)
     (\<lambda>r es. list_all reads es \<and> (\<forall>vols. r = Inr vols \<longrightarrow>
        (\<exists>e. es = [e] \<and> (\<forall>sc \<in> set vols. volume_listed node storage sc e))))"
  unfolding GetStorageVolumes_def pc_content_def volume_listed_def
  by (auto simp: traces_def perform_def reads_def not_le nullEntry_neg_iff entries_of_def
      split: sum.splits option.splits if_splits)

lemma find_alloc_found:
  assumes "find_alloc q vols \<noteq> []"
  shows "\<exists>sc \<in> set vols. sc_volid sc = find_alloc q vols \<and> sc_vmid sc = uint64 (al_vmid q) \<and>
     volidBasename (find_alloc q vols) = al_filename q"
proof -
  let ?hit = "\<lambda>v. sc_vmid v = uint64 (al_vmid q) \<and> volidBasename (sc_volid v) = al_filename q"
  from assms obtain v where v: "find ?hit vols = Some v" by (cases "find ?hit vols") (simp_all add: find_alloc_def)
  then have "find_alloc q vols = sc_volid v" by (simp add: find_alloc_def)
  moreover from v have "v \<in> set vols" "?hit v" by (auto simp: find_Some_iff)
  ultimately show ?thesis by auto
qed

lemma traces_VolumeAlloc_Read:
  "traces (VolumeAlloc_Read env t q)
     (\<lambda>r es. list_all reads es \<and> (\<forall>c. r = Inr c \<longrightarrow> c \<noteq> [] \<longrightarrow> alloc_found t q c es))"
  unfolding VolumeAlloc_Read_def
proof (rule traces_bind [OF traces_GetStorageVolumes], rule traces_case_sum, goal_cases)
  case (2 r es vols)
  show ?case
  proof (rule traces_bind [OF traces_modify], simp, rule traces_return, goal_cases)
    case (1 x fs)
    from 2 obtain e where e: "es = [e]" "\<forall>sc \<in> set vols. volume_listed (tg_node t) (al_storage q) sc e" by blast
    have "alloc_found t q (find_alloc q vols) [e]" if "find_alloc q vols \<noteq> []"
      using find_alloc_found [OF that] e(2) unfolding alloc_found_def by fastforce
    with 1 2 e show ?case by auto
  qed
qed (auto intro!: traces_return)

lemma traces_VolumeAlloc_Apply:
  "traces (VolumeAlloc_Apply env t q)
     (\<lambda>r es. list_all remote es \<and> (r = None \<longrightarrow> alloc_done t q es))"
proof -
  obtain p where p: "content_path (tg_node t) (al_storage q) = CHR ''/'' # p" using config_paths_slash(3) by blast
  show ?thesis
    unfolding VolumeAlloc_Apply_def
  proof (rule traces_bind [OF traces_RawRequest_sent [OF p]], simp, rule traces_case_sum, goal_cases)
    case (1 r es e)
    then show ?case by (auto intro!: traces_return simp: remote_def)
  next
    case post: (2 r es raw)
    then obtain a where es: "es = [EHttp POST (content_path (tg_node t) (al_storage q)) (alloc_form q) a]"
      and raw: "raw_result a = Inr raw" by auto
    show ?case
    proof (rule traces_case_sum, goal_cases)
      case (1 e)
      with es show ?case by (auto intro!: traces_return simp: remote_def)
    next
      case (2 returned)
      then have ret: "raw_result a = Inr (JStr returned)" "returned \<noteq> []" using raw by (auto simp: decodeScalarString_ok)
      have remote: "list_all remote es" by (simp add: es remote_def)
      show ?case
      proof (rule traces_bind [OF traces_GetStorageVolumes], rule traces_case_sum, goal_cases)
        case (1 r fs e)
        with remote show ?case by (auto intro!: traces_return dest: reads_remote simp: list_all_iff)
      next
        case (2 r fs vols)
        then obtain e where e: "fs = [e]" "reads e" "\<forall>sc \<in> set vols. volume_listed (tg_node t) (al_storage q) sc e"
          by auto
        have fs: "list_all remote (es @ fs)" using remote e(1,2) by (simp add: reads_remote)
        show ?case
        proof (rule traces_if, goal_cases)
          case 1
          then obtain sc where "sc \<in> set vols" "sc_volid sc = returned" by (auto simp: list_ex_iff)
          with e es ret have "alloc_done t q (es @ fs)" unfolding alloc_done_def by auto
          with fs show ?case by (auto intro!: traces_bind [OF traces_modify] traces_return)
        next
          case 2
          with fs show ?case by (auto intro!: traces_return)
        qed
      qed
    qed
  qed
qed

interpretation volalloc_op: op_contract "VolumeAlloc env t q" "\<lambda>r es. list_all remote es \<and> (r = None \<longrightarrow> alloc_done t q es)"
    "\<lambda>c es. c \<noteq> [] \<longrightarrow> alloc_found t q c es" VolumeAlloc_Satisfied
  for env t q
  by unfold_locales (use traces_VolumeAlloc_Read traces_VolumeAlloc_Apply in \<open>auto simp: VolumeAlloc_def\<close>)

text \<open>
  An allocation that reports a change sent one allocation request, PVE answered it with a volid, and
  the content list read right after holds that volid; one that reports no change saw, on the
  storage, a volume of the VM with the requested file name.
\<close>

theorem VolumeAlloc_success:
  assumes "run_state (Run env rp key (VolumeAlloc env t q) force) s = (Inr x, s')"
  shows "\<exists>pre mid post. log s' = log s @ pre @ mid @ post \<and>
     (if Changed x then alloc_done t q mid else alloc_found t q (Before x) mid)"
proof -
  obtain es pre mid post where es: "log s' = log s @ es" "es = pre @ mid @ post"
    and mid: "if Changed x then list_all remote mid \<and> alloc_done t q mid
      else VolumeAlloc_Satisfied (Before x) \<and> (Before x \<noteq> [] \<longrightarrow> alloc_found t q (Before x) mid)"
    using volalloc_op.Run_success [OF assms] by (auto split: if_splits)
  from mid have "if Changed x then alloc_done t q mid else alloc_found t q (Before x) mid"
    by (auto simp: VolumeAlloc_Satisfied_def split: if_splits)
  with es show ?thesis by blast
qed

section \<open>A free that finds one volume\<close>

text \<open>VM 100 has one disk and no snapshot; the storage lists that disk and a second one.\<close>

definition disk_config :: http_reply where
  "disk_config = HAnswer 200 ''200 OK'' ''{..}'' (Some (JObj ''{..}'' [(''data'',
     JObj ''{..}'' [(''digest'', JStr ''d1''), (''scsi0'', JStr ''fast:vm-100-disk-0,size=8G'')])]))"

definition disk_entry :: "string \<Rightarrow> content_entry option" where
  "disk_entry v = Some \<lparr>ce_content = ''images'', ce_storage = Some \<lparr>sc_volid = v, sc_vmid = 100\<rparr>\<rparr>"

definition volume_world :: env where
  "volume_world = calm\<lparr>e_http := (\<lambda>h m p f. if m = GET then disk_config else upid_answer),
     e_snapshots := (\<lambda>h p. Inr (Some [Some (snap ''current'' 0)])),
     e_content := (\<lambda>h p. Inr (Some [disk_entry ''fast:vm-100-disk-0'', disk_entry ''fast:vm-100-disk-1'']))\<rparr>"

definition demo_free :: free_request where
  "demo_free = \<lparr>fo_storage = ''fast'', fo_vmid = 100, fo_complete = None, fo_pairs = Some [(''pve1'', 100)]\<rparr>"

definition empty_free :: volfree where
  "empty_free = \<lparr>log = [], ssh_open = False, vf_applied = [], vf_orphans = []\<rparr>"

lemma disk_config_volids:
  "config_volids_of 100 [] True (raw_result disk_config) =
     Inr \<lparr>cf_volids = [''fast:vm-100-disk-0''], cf_vmstate = [], cf_lock = []\<rparr>"
  by code_simp

lemma run_Claimed_world:
  "run_state (ClaimedVolumes volume_world ''pve1'' 100) s =
     (Inr [''fast:vm-100-disk-0'', ''fast:vm-100-disk-0''],
      s\<lparr>log := log s @ [EHttp GET (live_path ''pve1'' 100) [] disk_config,
        EHttp GET (live_path ''pve1'' 100) [(''current'', [''1''])] disk_config,
        snaps_event ''pve1'' 100 [Some (snap ''current'' 0)]]\<rparr>)"
proof -
  obtain p where p: "live_path ''pve1'' 100 = CHR ''/'' # p" using config_paths_slash(1) by blast
  have get: "run_state (configVolids volume_world 100 [] (live_path ''pve1'' 100) params True) s =
      (Inr \<lparr>cf_volids = [''fast:vm-100-disk-0''], cf_vmstate = [], cf_lock = []\<rparr>,
       s\<lparr>log := log s @ [EHttp GET (live_path ''pve1'' 100) params disk_config]\<rparr>)" for params and s :: "'r sess_scheme"
    by (simp add: configVolids_def RawRequest_def p strings_HasPrefix_def http_do_def run_perform volume_world_def
        disk_config_volids)
  have "verifiable [Some (snap ''current'' 0)]" "realSnapshots [Some (snap ''current'' 0)] = []"
    by (simp_all add: verifiable_def snap_def currentPseudoSnapshot_def)
  moreover have "strings_HasPrefix [] ''suspend'' = False" by (simp add: strings_HasPrefix_def)
  ultimately show ?thesis
    by (simp add: ClaimedVolumes_def get run_verifiable volume_world_def [THEN arg_cong [of _ _ e_snapshots]])
qed

lemma disk_one: "strings_HasPrefix ''fast:vm-100-disk-1'' (vmid_prefix ''fast'' 100)"
  by code_simp

lemma world_orphans:
  "orphansFromClaimed [disk_entry ''fast:vm-100-disk-0'', disk_entry ''fast:vm-100-disk-1'']
     [''fast:vm-100-disk-0'', ''fast:vm-100-disk-0''] = Inr [\<lparr>sc_volid = ''fast:vm-100-disk-1'', sc_vmid = 100\<rparr>]"
  by code_simp

lemma run_VolumeFree_Read_world:
  "\<exists>s'. run_state (VolumeFree_Read volume_world demo_target demo_free) s =
     (Inr (marshal_strings [''fast:vm-100-disk-1'']), s') \<and>
     vf_orphans s' = [\<lparr>sc_volid = ''fast:vm-100-disk-1'', sc_vmid = 100\<rparr>]"
proof -
  have node: "tg_node demo_target = ''pve1''" by (simp add: demo_target_def)
  have full: "\<not> 0 \<le> nullEntry [disk_entry ''fast:vm-100-disk-0'', disk_entry ''fast:vm-100-disk-1'']"
    by (simp add: not_le nullEntry_neg_iff disk_entry_def)
  have content: "e_content volume_world h p = Inr (Some [disk_entry ''fast:vm-100-disk-0'', disk_entry ''fast:vm-100-disk-1''])" for h p
    by (simp add: volume_world_def)
  show ?thesis
    by (simp add: VolumeFree_Read_def selector_guard_def scan_orphans_def demo_free_def node OrphanVolumesClusterForVMID_def
        storageContentWithType_def pc_content_def run_perform content full ClusterClaimedVolumes_def run_Claimed_world
        world_orphans narrowToVMIDPrefix_def disk_one modify_def)
qed

lemma run_freeOne_world:
  "\<exists>s'. run_state (freeOne volume_world demo_target demo_free v) s = (None, s') \<and> list_ex is_write (log s') \<and>
     vf_orphans s' = vf_orphans s \<and> vf_applied s' = vf_applied s"
proof -
  obtain p where p: "volume_path ''pve1'' ''fast'' v = CHR ''/'' # p" using config_paths_slash(4) by blast
  have node: "tg_node demo_target = ''pve1''" by (simp add: demo_target_def)
  show ?thesis
    by (simp add: freeOne_def RawRequest_def node p strings_HasPrefix_def http_do_def run_perform demo_free_def
        volume_world_def raw_upid decodeScalarString_def demo_upid_def run_WaitForTask_calm [unfolded demo_upid_def])
qed

lemma run_free_world:
  "\<exists>s' x. run_state (Run volume_world ''roster.yaml'' demo_key (VolumeFree volume_world demo_target demo_free) False) empty_free =
     (Inr x, s') \<and> Changed x \<and> list_ex is_write (log s')"
proof -
  let ?oper = "VolumeFree volume_world demo_target demo_free"
  obtain s1 where mut: "run_state (Mutation volume_world ''roster.yaml'' demo_key) empty_free =
      (Inr (kf_resource (filesFor ''roster.yaml'' demo_key)), s1)"
    by (simp add: Mutation_def ensureLockDir_def acquire_def Let_def primitive_defs run_simps volume_world_def)
  obtain s2 where rd: "run_state (op_Read ?oper) s1 = (Inr (marshal_strings [''fast:vm-100-disk-1'']), s2)"
    and os: "vf_orphans s2 = [\<lparr>sc_volid = ''fast:vm-100-disk-1'', sc_vmid = 100\<rparr>]"
    using run_VolumeFree_Read_world [of s1] by (auto simp: VolumeFree_def)
  have "marshal_strings [''fast:vm-100-disk-1''] \<noteq> ''[]''" by code_simp
  then have unsat: "\<not> op_Satisfied ?oper s2 (marshal_strings [''fast:vm-100-disk-1''])"
    by (simp add: VolumeFree_def VolumeFree_Satisfied_def)
  obtain s3 where one: "run_state (freeOne volume_world demo_target demo_free ''fast:vm-100-disk-1'') s2 = (None, s3)"
    "list_ex is_write (log s3)" using run_freeOne_world by blast
  then obtain s4 where ap: "run_state (op_Apply ?oper) s2 = (None, s4)" "log s4 = log s3"
    by (simp add: VolumeFree_def VolumeFree_Apply_def State_Monad.get_def os modify_def)
  obtain a s5 where rr: "run_state (case op_ReRead ?oper of None \<Rightarrow> op_Read ?oper | Some m \<Rightarrow> m) s4 = (a, s5)" by force
  moreover have post: "run_state (run_check demo_key '': post-apply check: '' (op_PostApply ?oper)) s5 = (None, s5)"
    by (simp add: run_check_def VolumeFree_def)
  moreover obtain x where "run_state (attempts (maxConflictRetries - 1) demo_key ?oper False) s1 = (Inr x, s5)" "Changed x"
    using run_attempts_applied [OF rd disjI2 [OF unsat] ap(1) rr post] by blast
  moreover obtain u s6 where un: "run_state (unlock volume_world (kf_resource (filesFor ''roster.yaml'' demo_key))) s5 = (u, s6)"
    by force
  ultimately show ?thesis
    using mut one(2) ap(2) traces_runD [OF volfree_op.traces_reread rr] traces_runD [OF traces_flock_Unlock un [unfolded unlock_def]]
    by (auto simp: Run_def)
qed

theorem VolumeFree_unclaimed_only_witness:
  "\<exists>pre volid. strings_HasPrefix volid (vmid_prefix ''fast'' 100) \<and> vm_clear ''pve1'' 100 volid pre"
proof -
  obtain s' x where run: "run_state (Run volume_world ''roster.yaml'' demo_key (VolumeFree volume_world demo_target demo_free) False)
      empty_free = (Inr x, s')" "list_ex is_write (log s')" using run_free_world by blast
  then obtain e pre post where es: "log s' = pre @ e # post" "is_write e" by (auto simp: list_ex_iff) (meson split_list)
  have "log empty_free = []" "fo_pairs demo_free = Some [(''pve1'', 100)]" "fo_complete demo_free = None"
    "fo_storage demo_free = ''fast''" "fo_vmid demo_free = 100"
    by (simp_all add: empty_free_def demo_free_def)
  with VolumeFree_unclaimed_only [OF run(1)] es show ?thesis by fastforce
qed

theorem VolumeFree_Applied_exact_witness:
  "\<exists>s' :: volfree. set (vf_applied s') = {''fast:vm-100-disk-1''} \<and>
     ended_well DELETE (volume_path ''pve1'' ''fast'' ''fast:vm-100-disk-1'') (log s')"
proof -
  let ?s = "empty_free\<lparr>vf_orphans := [\<lparr>sc_volid = ''fast:vm-100-disk-1'', sc_vmid = 100\<rparr>]\<rparr>"
  obtain s3 where "run_state (freeOne volume_world demo_target demo_free ''fast:vm-100-disk-1'') ?s = (None, s3)"
    using run_freeOne_world by blast
  then obtain s4 where ap: "run_state (VolumeFree_Apply volume_world demo_target demo_free) ?s = (None, s4)"
    by (simp add: VolumeFree_Apply_def State_Monad.get_def modify_def)
  have "vf_applied ?s = []" "log ?s = []" "tg_node demo_target = ''pve1''" "fo_storage demo_free = ''fast''"
    by (simp_all add: empty_free_def demo_target_def demo_free_def)
  with VolumeFree_Applied_exact [OF ap] show ?thesis by auto
qed

section \<open>An allocation\<close>

text \<open>The storage lists the volume once it was asked for.\<close>

definition volid_answer :: http_reply where
  "volid_answer = HAnswer 200 ''200 OK'' ''{..}'' (Some (JObj ''{..}'' [(''data'', JStr ''fast:vm-100-disk-0'')]))"

definition alloc_world :: env where
  "alloc_world = calm\<lparr>e_http := (\<lambda>h m p f. volid_answer),
     e_content := (\<lambda>h p. Inr (Some (if list_ex (is_request POST) h then [disk_entry ''fast:vm-100-disk-0''] else [])))\<rparr>"

definition demo_alloc :: alloc_request where
  "demo_alloc = \<lparr>al_storage = ''fast'', al_filename = ''vm-100-disk-0'', al_size = ''8G'', al_vmid = 100, al_format = []\<rparr>"

definition empty_alloc :: volalloc where
  "empty_alloc = \<lparr>log = [], ssh_open = False, va_volid = []\<rparr>"

lemma raw_volid: "raw_result volid_answer = Inr (JStr ''fast:vm-100-disk-0'')"
  by code_simp

lemma run_volumes_world:
  "run_state (GetStorageVolumes alloc_world ''pve1'' ''fast'') s =
     (Inr (if list_ex (is_request POST) (log s) then [\<lparr>sc_volid = ''fast:vm-100-disk-0'', sc_vmid = 100\<rparr>] else []),
      s\<lparr>log := log s @ [EContent (content_path ''pve1'' ''fast'') (e_content alloc_world (log s) (content_path ''pve1'' ''fast''))]\<rparr>)"
  by (simp add: GetStorageVolumes_def pc_content_def run_perform alloc_world_def nullEntry_def entries_of_def disk_entry_def
      entry_volume_def)

lemma run_alloc:
  "\<exists>s' x. run_state (Run alloc_world ''roster.yaml'' demo_key (VolumeAlloc alloc_world demo_target demo_alloc) False) empty_alloc =
     (Inr x, s') \<and> Changed x"
proof -
  let ?oper = "VolumeAlloc alloc_world demo_target demo_alloc"
  obtain p where p: "content_path ''pve1'' ''fast'' = CHR ''/'' # p" using config_paths_slash(3) by blast
  have node: "tg_node demo_target = ''pve1''" by (simp add: demo_target_def)
  have req: "al_storage demo_alloc = ''fast''" by (simp add: demo_alloc_def)
  obtain s1 where mut: "run_state (Mutation alloc_world ''roster.yaml'' demo_key) empty_alloc =
      (Inr (kf_resource (filesFor ''roster.yaml'' demo_key)), s1)" and "\<not> list_ex (is_request POST) (log s1)"
    by (simp add: Mutation_def ensureLockDir_def acquire_def Let_def primitive_defs run_simps alloc_world_def empty_alloc_def)
  then obtain s2 where rd: "run_state (op_Read ?oper) s1 = (Inr [], s2)"
    by (simp add: VolumeAlloc_def VolumeAlloc_Read_def node req run_volumes_world find_alloc_def modify_def)
  have unsat: "\<not> op_Satisfied ?oper s2 []" by (simp add: VolumeAlloc_def VolumeAlloc_Satisfied_def)
  have post: "run_state (RawRequest alloc_world POST (content_path ''pve1'' ''fast'') f) s =
      (Inr (JStr ''fast:vm-100-disk-0''),
       s\<lparr>log := log s @ [EHttp POST (content_path ''pve1'' ''fast'') f volid_answer]\<rparr>)" for f and s :: volalloc
    by (simp add: RawRequest_def p strings_HasPrefix_def http_do_def run_perform alloc_world_def raw_volid)
  then obtain s3 where ap: "run_state (op_Apply ?oper) s2 = (None, s3)"
    by (simp add: VolumeAlloc_def VolumeAlloc_Apply_def node req post run_volumes_world decodeScalarString_def modify_def)
  obtain a s5 where rr: "run_state (case op_ReRead ?oper of None \<Rightarrow> op_Read ?oper | Some m \<Rightarrow> m) s3 = (a, s5)" by force
  have chk: "run_state (run_check demo_key '': post-apply check: '' (op_PostApply ?oper)) s5 = (None, s5)"
    by (simp add: run_check_def VolumeAlloc_def)
  obtain x where "run_state (attempts (maxConflictRetries - 1) demo_key ?oper False) s1 = (Inr x, s5)" "Changed x"
    using run_attempts_applied [OF rd disjI2 [OF unsat] ap(1) rr chk] by blast
  moreover obtain u s6 where "run_state (unlock alloc_world (kf_resource (filesFor ''roster.yaml'' demo_key))) s5 = (u, s6)"
    by force
  ultimately show ?thesis using mut by (simp add: Run_def)
qed

theorem VolumeAlloc_success_witness: "\<exists>mid. alloc_done demo_target demo_alloc mid"
proof -
  obtain s' x where "run_state (Run alloc_world ''roster.yaml'' demo_key (VolumeAlloc alloc_world demo_target demo_alloc) False)
      empty_alloc = (Inr x, s')" "Changed x" using run_alloc by blast
  from VolumeAlloc_success [OF this(1)] this(2) show ?thesis by auto
qed

end
