(* ===== verification/Access.thy ===== *)
theory Access
  imports PveCluster
begin

text \<open>
  What a token may do, as PVE reports it: the effective permission tree and the permissions at one
  path, the privileges of a role (\<open>internal/pve/client.go\<close>), the members of a pool and the list of
  storages (\<open>internal/pve/pools.go\<close>).  All of them are decoded strictly.  A Go \<open>map[string]bool\<close> is an
  association list; one used as a set is the list of its members.
\<close>

section \<open>The alphabets\<close>

definition acl_char :: "char \<Rightarrow> bool" where
  "acl_char c \<longleftrightarrow> is_alnum c \<or> c \<in> set ''._/-''"

definition aclPathRE :: "string \<Rightarrow> bool" where
  "aclPathRE s \<longleftrightarrow> (case s of [] \<Rightarrow> False | c # cs \<Rightarrow> c = CHR ''/'' \<and> list_all acl_char cs)"

definition id_char :: "char \<Rightarrow> bool" where
  "id_char c \<longleftrightarrow> is_alnum c \<or> c \<in> set ''._-''"

definition roleIDRE :: "string \<Rightarrow> bool" where
  "roleIDRE s \<longleftrightarrow> s \<noteq> [] \<and> list_all id_char s"

definition privNameRE :: "string \<Rightarrow> bool" where
  "privNameRE s \<longleftrightarrow>
     (case s of [] \<Rightarrow> False
      | c # cs \<Rightarrow> (is_lower c \<or> is_upper c) \<and> list_all (\<lambda>c. is_alnum c \<or> c = CHR ''.'') cs)"

text \<open>
  \<open>storageIDRE\<close> is case-insensitive, which in Go lets two non-ASCII runes through as letters: the long s
  (\<open>C5 BF\<close>) and the Kelvin sign (\<open>E2 84 AA\<close>).  \<open>fold_id\<close> reads a text as classes: a letter, a digit
  or a mark.
\<close>

fun fold_id :: "string \<Rightarrow> char list option" where
  "fold_id [] = Some []"
| "fold_id (c # cs) =
     (if is_lower c \<or> is_upper c then map_option ((#) CHR ''a'') (fold_id cs)
      else if is_digit c then map_option ((#) CHR ''0'') (fold_id cs)
      else if c \<in> set ''_.-'' then map_option ((#) CHR ''-'') (fold_id cs)
      else if c = CHR 0xC5 then
        (case cs of d # ds \<Rightarrow> if d = CHR 0xBF then map_option ((#) CHR ''a'') (fold_id ds) else None | _ \<Rightarrow> None)
      else if c = CHR 0xE2 then
        (case cs of d # e # ds \<Rightarrow> if d = CHR 0x84 \<and> e = CHR 0xAA then map_option ((#) CHR ''a'') (fold_id ds) else None
         | _ \<Rightarrow> None)
      else None)"

definition storageIDRE :: "string \<Rightarrow> bool" where
  "storageIDRE s \<longleftrightarrow>
     (case fold_id s of None \<Rightarrow> False
      | Some w \<Rightarrow> length w \<ge> 2 \<and> hd w = CHR ''a'' \<and> last w \<noteq> CHR ''-'')"

section \<open>Permissions\<close>

text \<open>\<open>json.Unmarshal\<close> into a map, where null counts as the nil map.\<close>

definition unmarshal_object :: "json \<Rightarrow> json gomap option" where
  "unmarshal_object j = (case unmarshal_map j of Some (True, m) \<Rightarrow> Some m | _ \<Rightarrow> None)"

definition unverifiable_read :: "string \<Rightarrow> gerror" where
  "unverifiable_read t = Errorf [Wrapped (Sentinel ErrUnverifiableRead), Lit t]"

fun priv_flags :: "json gomap \<Rightarrow> gerror + bool gomap" where
  "priv_flags [] = Inr []"
| "priv_flags ((name, v) # rest) =
     (if \<not> privNameRE name then Inl (unverifiable_read '': a privilege set holds a name that is not a privilege name'')
      else if raw_text v = ''1'' \<or> raw_text v = ''true'' then map_sum id ((#) (name, True)) (priv_flags rest)
      else if raw_text v = ''0'' \<or> raw_text v = ''false'' then map_sum id ((#) (name, False)) (priv_flags rest)
      else Inl (Errorf [Wrapped (Sentinel ErrUnverifiableRead), Lit '': privilege '', Lit name,
        Lit '' has a flag that is not 0/1/true/false'']))"

definition decodePrivSet :: "json \<Rightarrow> gerror + bool gomap" where
  "decodePrivSet raw =
     (case unmarshal_object raw of
        None \<Rightarrow> Inl (unverifiable_read '': a privilege set is not a JSON object'')
      | Some flags \<Rightarrow> priv_flags flags)"

fun perm_paths :: "json gomap \<Rightarrow> gerror + bool gomap gomap" where
  "perm_paths [] = Inr []"
| "perm_paths ((path, v) # rest) =
     (if \<not> aclPathRE path then Inl (unverifiable_read '': the permission tree holds a key that is not an ACL path'')
      else case decodePrivSet v of
          Inl e \<Rightarrow> Inl (Errorf [Wrapped e, Lit '' (at '', Lit path, Lit '')''])
        | Inr flags \<Rightarrow> map_sum id ((#) (path, flags)) (perm_paths rest))"

definition decodePermTree :: "json \<Rightarrow> gerror + bool gomap gomap" where
  "decodePermTree raw =
     (case unmarshal_map raw of
        None \<Rightarrow> Inl (unverifiable_read '': the permission tree is not a JSON object'')
      | Some (False, _) \<Rightarrow> Inl (unverifiable_read '': the permission tree is null'')
      | Some (True, tree) \<Rightarrow> perm_paths tree)"

definition EffectivePermissions :: "env \<Rightarrow> ('r sess_scheme, gerror + bool gomap gomap) state" where
  "EffectivePermissions env = do {
     r \<leftarrow> RawRequest env GET ''/access/permissions'' [];
     ret (case r of
         Inl e \<Rightarrow> Inl (Errorf [Lit ''read effective permissions: '', Wrapped e])
       | Inr raw \<Rightarrow>
           (case decodePermTree raw of
              Inl e \<Rightarrow> Inl (Errorf [Lit ''read effective permissions: '', Wrapped e])
            | Inr tree \<Rightarrow> Inr tree))
   }"

text \<open>The answer to a read at one path: it must be keyed by exactly that path.\<close>

definition path_answer :: "string \<Rightarrow> json \<Rightarrow> gerror + bool gomap" where
  "path_answer path raw =
     (case decodePermTree raw of
        Inl e \<Rightarrow> Inl (Errorf [Lit ''read permissions at '', Lit path, Lit '': '', Wrapped e])
      | Inr tree \<Rightarrow>
          (case map_of tree path of
             None \<Rightarrow> Inl (Errorf [Lit ''read permissions at '', Lit path, Lit '': '', Wrapped (Sentinel ErrUnverifiableRead),
               Lit '': the answer is not keyed by exactly the requested path ('', Dec (int (length tree)), Lit '' keys)''])
           | Some perms \<Rightarrow>
               if length tree \<noteq> 1 then
                 Inl (Errorf [Lit ''read permissions at '', Lit path, Lit '': '', Wrapped (Sentinel ErrUnverifiableRead),
                   Lit '': the answer is not keyed by exactly the requested path ('', Dec (int (length tree)), Lit '' keys)''])
               else Inr perms))"

definition PathPermissions :: "env \<Rightarrow> string \<Rightarrow> ('r sess_scheme, gerror + bool gomap) state" where
  "PathPermissions env path =
     (if \<not> aclPathRE path then
        ret (Inl (Errorf [Lit ''read permissions at '', Quo path, Lit '': '', Wrapped (Sentinel ErrInvalidGrant),
          Lit '': not an ACL path'']))
      else do {
        r \<leftarrow> RawRequest env GET ''/access/permissions'' [(''path'', [path])];
        ret (case r of
            Inl e \<Rightarrow> Inl (Errorf [Lit ''read permissions at '', Lit path, Lit '': '', Wrapped e])
          | Inr raw \<Rightarrow> path_answer path raw)
      })"

definition role_path :: "string \<Rightarrow> string" where
  "role_path role = ''/access/roles/'' @ role"

definition role_answer :: "string \<Rightarrow> json \<Rightarrow> gerror + string list" where
  "role_answer role raw =
     (case decodePrivSet raw of
        Inl e \<Rightarrow> Inl (Errorf [Lit ''read role '', Lit role, Lit '': '', Wrapped e])
      | Inr flags \<Rightarrow>
          (case find (\<lambda>(p, v). \<not> v) flags of
             Some (p, v) \<Rightarrow> Inl (Errorf [Lit ''read role '', Lit role, Lit '': '', Wrapped (Sentinel ErrUnverifiableRead),
               Lit '': privilege '', Lit p, Lit '' is present but not set''])
           | None \<Rightarrow>
               if flags = [] then
                 Inl (Errorf [Lit ''read role '', Lit role, Lit '': '', Wrapped (Sentinel ErrUnverifiableRead),
                   Lit '': the role has no privileges''])
               else Inr (sort (map fst flags))))"

definition RolePrivileges :: "env \<Rightarrow> string \<Rightarrow> ('r sess_scheme, gerror + string list) state" where
  "RolePrivileges env role =
     (if \<not> roleIDRE role then
        ret (Inl (Errorf [Lit ''read role '', Quo role, Lit '': '', Wrapped (Sentinel ErrInvalidGrant), Lit '': not a role id'']))
      else do {
        r \<leftarrow> RawRequest env GET (role_path role) [];
        ret (case r of
            Inl e \<Rightarrow> Inl (Errorf [Lit ''read role '', Lit role, Lit '': '', Wrapped e])
          | Inr raw \<Rightarrow> role_answer role raw)
      })"

section \<open>Pools and storages\<close>

text \<open>\<open>json.Unmarshal\<close> into a slice of maps: a null entry is the nil map; null is the nil slice.\<close>

definition unmarshal_entry :: "json \<Rightarrow> json gomap option option" where
  "unmarshal_entry j = (case unmarshal_map j of None \<Rightarrow> None | Some (False, _) \<Rightarrow> Some None | Some (True, m) \<Rightarrow> Some (Some m))"

definition unmarshal_entries :: "json \<Rightarrow> json gomap option list option" where
  "unmarshal_entries j =
     (case j of
        JArr t xs \<Rightarrow> if list_all (\<lambda>x. unmarshal_entry x \<noteq> None) xs then Some (map (\<lambda>x. the (unmarshal_entry x)) xs) else None
      | _ \<Rightarrow> None)"

text \<open>A string field; an absent one (an empty \<open>RawMessage\<close>) does not decode.\<close>

definition string_field :: "json gomap \<Rightarrow> string \<Rightarrow> string option" where
  "string_field m k = Option.bind (map_of m k) unmarshal_string"

text \<open>The \<open>vmid\<close> of a member: a JSON number (null leaves an empty \<open>json.Number\<close>).\<close>

definition number_field :: "json gomap \<Rightarrow> string \<Rightarrow> string option" where
  "number_field m k = (case map_of m k of Some (JNum t) \<Rightarrow> Some t | Some JNull \<Rightarrow> Some [] | _ \<Rightarrow> None)"

definition pool_member :: "int \<Rightarrow> json gomap option \<Rightarrow> gerror + string" where
  "pool_member i entry =
     (let bad = (\<lambda>before after. Inl (Errorf [Wrapped (Sentinel ErrUnverifiableRead), Lit before, Dec i, Lit after])) in
      case entry of
        None \<Rightarrow> bad '': member '' '' is not an object''
      | Some e \<Rightarrow>
          (case string_field e ''type'' of
             None \<Rightarrow> bad '': member '' '' has no type''
           | Some t \<Rightarrow>
               if t \<in> {''qemu'', ''lxc'', ''openvz''} then
                 (case number_field e ''vmid'' of
                    None \<Rightarrow> bad '': guest member '' '' has no numeric vmid''
                  | Some n \<Rightarrow>
                      (case strconv_Atoi n of
                         None \<Rightarrow> bad '': guest member '' '' has a vmid that is not a positive integer''
                       | Some vmid \<Rightarrow>
                           if vmid \<le> 0 then bad '': guest member '' '' has a vmid that is not a positive integer''
                           else Inr (''/vms/'' @ strconv_Itoa vmid)))
               else if t = ''storage'' then
                 (case string_field e ''storage'' of
                    None \<Rightarrow> bad '': storage member '' '' has no valid storage id''
                  | Some s \<Rightarrow> if storageIDRE s then Inr (''/storage/'' @ s)
                      else bad '': storage member '' '' has no valid storage id'')
               else bad '': member '' '' has an unknown type''))"

fun pool_paths :: "int \<Rightarrow> json gomap option list \<Rightarrow> gerror + string list" where
  "pool_paths i [] = Inr []"
| "pool_paths i (e # es) =
     (case pool_member i e of
        Inl err \<Rightarrow> Inl err
      | Inr p \<Rightarrow> map_sum id ((#) p) (pool_paths (i + 1) es))"

definition decodePoolMembers :: "json \<Rightarrow> string \<Rightarrow> gerror + string list" where
  "decodePoolMembers raw poolid =
     (case unmarshal_entries raw of
        None \<Rightarrow> Inl (unverifiable_read '': the pool list is not a JSON array'')
      | Some pools \<Rightarrow>
          (case pools of
             [Some pool] \<Rightarrow>
               if string_field pool ''poolid'' \<noteq> Some poolid then
                 Inl (unverifiable_read ('': the pool list'' @ [CHR 0x27] @ ''s entry is not the pool asked for''))
               else (case Option.bind (map_of pool ''members'') unmarshal_entries of
                   None \<Rightarrow> Inl (unverifiable_read '': the pool entry carries no members array'')
                 | Some entries \<Rightarrow> pool_paths 0 entries)
           | _ \<Rightarrow> Inl (Errorf [Wrapped (Sentinel ErrUnverifiableRead), Lit '': the pool list has '',
               Dec (int (length pools)), Lit '' entries, not the one pool asked for''])))"

definition PoolMembers :: "env \<Rightarrow> string \<Rightarrow> ('r sess_scheme, gerror + string list) state" where
  "PoolMembers env poolid = do {
     r \<leftarrow> RawRequest env GET ''/pools'' [(''poolid'', [poolid])];
     ret (case r of
         Inl e \<Rightarrow> Inl (Errorf [Lit ''read members of pool '', Lit poolid, Lit '': '', Wrapped e])
       | Inr raw \<Rightarrow>
           (case decodePoolMembers raw poolid of
              Inl e \<Rightarrow> Inl (Errorf [Lit ''read members of pool '', Lit poolid, Lit '': '', Wrapped e])
            | Inr members \<Rightarrow> Inr members))
   }"

fun storage_ids :: "int \<Rightarrow> json gomap option list \<Rightarrow> gerror + string list" where
  "storage_ids i [] = Inr []"
| "storage_ids i (e # es) =
     (let bad = Inl (Errorf [Lit ''read storage list: '', Wrapped (Sentinel ErrUnverifiableRead), Lit '': entry '', Dec i,
          Lit '' has no valid storage id'']) in
      case e of
        None \<Rightarrow> bad
      | Some m \<Rightarrow>
          (case string_field m ''storage'' of
             None \<Rightarrow> bad
           | Some s \<Rightarrow> if storageIDRE s then map_sum id ((#) s) (storage_ids (i + 1) es) else bad))"

definition StorageIDs :: "env \<Rightarrow> ('r sess_scheme, gerror + string list) state" where
  "StorageIDs env = do {
     r \<leftarrow> RawRequest env GET ''/storage'' [];
     ret (case r of
         Inl e \<Rightarrow> Inl (Errorf [Lit ''read storage list: '', Wrapped e])
       | Inr raw \<Rightarrow>
           (case unmarshal_entries raw of
              None \<Rightarrow> Inl (Errorf [Lit ''read storage list: '', Wrapped (Sentinel ErrUnverifiableRead), Lit '': not a JSON array''])
            | Some es \<Rightarrow> storage_ids 0 es))
   }"

section \<open>What the reads have seen\<close>

definition answered :: "string \<Rightarrow> url_values \<Rightarrow> json \<Rightarrow> event \<Rightarrow> bool" where
  "answered path params raw e \<longleftrightarrow> (\<exists>a. e = EHttp GET path params a \<and> raw_result a = Inr raw)"

definition tree_event :: "bool gomap gomap \<Rightarrow> event \<Rightarrow> bool" where
  "tree_event tree e \<longleftrightarrow> (\<exists>raw. answered ''/access/permissions'' [] raw e \<and> decodePermTree raw = Inr tree)"

definition path_event :: "string \<Rightarrow> bool gomap \<Rightarrow> event \<Rightarrow> bool" where
  "path_event path h e \<longleftrightarrow> (\<exists>raw. answered ''/access/permissions'' [(''path'', [path])] raw e \<and> path_answer path raw = Inr h)"

definition role_event :: "string \<Rightarrow> string list \<Rightarrow> event \<Rightarrow> bool" where
  "role_event role ps e \<longleftrightarrow> (\<exists>raw. answered (role_path role) [] raw e \<and> role_answer role raw = Inr ps)"

definition members_event :: "string \<Rightarrow> string list \<Rightarrow> event \<Rightarrow> bool" where
  "members_event poolid ms e \<longleftrightarrow> (\<exists>raw. answered ''/pools'' [(''poolid'', [poolid])] raw e \<and> decodePoolMembers raw poolid = Inr ms)"

definition storages_event :: "string list \<Rightarrow> event \<Rightarrow> bool" where
  "storages_event ids e \<longleftrightarrow>
     (\<exists>raw es. answered ''/storage'' [] raw e \<and> unmarshal_entries raw = Some es \<and> storage_ids 0 es = Inr ids)"

text \<open>One GET whose answer is decoded: what a success has seen, and that a failure is no verdict.\<close>

definition seen_by :: "('a \<Rightarrow> event \<Rightarrow> bool) \<Rightarrow> gerror + 'a \<Rightarrow> event list \<Rightarrow> bool" where
  "seen_by P r es \<longleftrightarrow> list_all reads es \<and>
     (case r of Inl e \<Rightarrow> \<exists>fs. e = Errorf fs | Inr x \<Rightarrow> \<exists>e. es = [e] \<and> P x e)"

lemma traces_GET:
  assumes "path = CHR ''/'' # p" and "\<And>a. T (f (raw_result a)) [EHttp GET path params a]"
  shows "traces (do { r \<leftarrow> RawRequest env GET path params; ret (f r) }) T"
  by (rule traces_bind [OF traces_RawRequest_sent [OF assms(1)]]) (auto intro!: traces_return assms(2))

lemma map_sum_Inl: "map_sum id f x = Inl e \<longleftrightarrow> x = Inl e"
  by (cases x) auto

lemma storage_ids_error: "storage_ids i es = Inl e \<Longrightarrow> \<exists>fs. e = Errorf fs"
  by (induction es arbitrary: i) (auto simp: Let_def map_sum_Inl split: option.splits if_splits)

lemma traces_EffectivePermissions: "traces (EffectivePermissions env) (seen_by tree_event)"
  unfolding EffectivePermissions_def
  by (rule traces_GET) (auto simp: seen_by_def tree_event_def answered_def reads_def split: sum.splits)

lemma traces_PathPermissions: "traces (PathPermissions env path) (seen_by (path_event path))"
  unfolding PathPermissions_def
  by (intro traces_if traces_return traces_GET)
    (auto simp: seen_by_def path_event_def answered_def reads_def path_answer_def split: sum.splits option.splits if_splits)

lemma traces_RolePrivileges: "traces (RolePrivileges env role) (seen_by (role_event role))"
  unfolding RolePrivileges_def
  by (intro traces_if traces_return traces_GET)
    (auto simp: seen_by_def role_event_def answered_def reads_def role_answer_def role_path_def split: sum.splits option.splits if_splits)

lemma traces_PoolMembers: "traces (PoolMembers env poolid) (seen_by (members_event poolid))"
  unfolding PoolMembers_def
  by (rule traces_GET) (auto simp: seen_by_def members_event_def answered_def reads_def split: sum.splits)

lemma traces_StorageIDs: "traces (StorageIDs env) (seen_by storages_event)"
  unfolding StorageIDs_def
  by (rule traces_GET)
    (auto simp: seen_by_def storages_event_def answered_def reads_def split: sum.splits option.splits dest: storage_ids_error)

section \<open>The decoded maps\<close>

lemma priv_flags_keys: "priv_flags m = Inr out \<Longrightarrow> map fst out = map fst m"
  by (induction m arbitrary: out rule: priv_flags.induct) (auto simp: map_sum_Inr split: if_splits)

lemma perm_paths_keys: "perm_paths m = Inr out \<Longrightarrow> map fst out = map fst m"
  by (induction m arbitrary: out rule: perm_paths.induct) (auto simp: map_sum_Inr split: if_splits sum.splits)

lemma distinct_decodePrivSet: "decodePrivSet raw = Inr flags \<Longrightarrow> distinct (map fst flags)"
  by (auto simp: decodePrivSet_def unmarshal_object_def unmarshal_map_def priv_flags_keys distinct_gomap_of
      split: option.splits json.splits)

lemma perm_paths_flags: "perm_paths m = Inr out \<Longrightarrow> (path, flags) \<in> set out \<Longrightarrow> distinct (map fst flags)"
  by (induction m arbitrary: out rule: perm_paths.induct)
    (auto simp: map_sum_Inr distinct_decodePrivSet split: if_splits sum.splits)

lemma decodePermTree_distinct:
  assumes "decodePermTree raw = Inr tree"
  shows "distinct (map fst tree)" and "(path, flags) \<in> set tree \<Longrightarrow> distinct (map fst flags)"
proof -
  from assms obtain m where m: "unmarshal_map raw = Some (True, m)" "perm_paths m = Inr tree"
    by (auto simp: decodePermTree_def split: option.splits prod.splits bool.splits)
  then have "distinct (map fst m)" by (auto simp: unmarshal_map_def distinct_gomap_of split: json.splits)
  with m show "distinct (map fst tree)" by (simp add: perm_paths_keys)
  show "(path, flags) \<in> set tree \<Longrightarrow> distinct (map fst flags)" using perm_paths_flags [OF m(2)] by simp
qed

end
