(* ===== verification/Grants.thy ===== *)
theory Grants
  imports Access
begin

text \<open>
  The grants requested for a token and their validation against what PVE says the token can do
  (\<open>internal/pve/grant.go\<close>, \<open>internal/pve/validate.go\<close>).  The three parallel slices of the
  source, the grants, their privileges and their resolved pool members, are one list of rows.
\<close>

section \<open>Requested grants\<close>

record grant =
  g_path :: string
  g_role :: string
  g_propagate :: bool
  g_privs :: "string list option"

definition invalid_grant :: "frag list \<Rightarrow> gerror" where
  "invalid_grant what = Errorf (Wrapped (Sentinel ErrInvalidGrant) # what)"

fun check_privs :: "string \<Rightarrow> string list \<Rightarrow> string list \<Rightarrow> gerror option" where
  "check_privs path seen [] = None"
| "check_privs path seen (p # ps) =
     (if \<not> privNameRE p then
        Some (invalid_grant [Lit '': '', Lit path, Lit '': '', Quo p, Lit '' is not a privilege name''])
      else if p \<in> set seen then
        Some (invalid_grant [Lit '': '', Lit path, Lit '': privilege '', Lit p, Lit '' is listed twice''])
      else check_privs path (p # seen) ps)"

definition Grant_Check :: "grant \<Rightarrow> gerror option" where
  "Grant_Check g =
     (if \<not> aclPathRE (g_path g) then
        Some (invalid_grant [Lit '': path '', Quo (g_path g), Lit '' is not an ACL path''])
      else if strings_Contains (g_path g) ''//'' \<or> g_path g \<noteq> ''/'' \<and> strings_HasSuffix (g_path g) ''/'' then
        Some (invalid_grant [Lit '': path '', Quo (g_path g), Lit '' is not normalized''])
      else if g_role g = [] then Some (invalid_grant [Lit '': role is required''])
      else if \<not> roleIDRE (g_role g) then
        Some (invalid_grant [Lit '': role '', Quo (g_role g), Lit '' is not a role id''])
      else if g_privs g = Some [] then
        Some (invalid_grant [Lit '': '', Lit (g_path g),
          Lit '': pinned privileges are empty (leave them nil to use the role'', Lit [CHR 0x27], Lit ''s own)''])
      else check_privs (g_path g) [] (case g_privs g of None \<Rightarrow> [] | Some ps \<Rightarrow> ps))"

fun check_grants_from :: "string list \<Rightarrow> grant list \<Rightarrow> gerror option" where
  "check_grants_from paths [] = None"
| "check_grants_from paths (g # want) =
     (case Grant_Check g of
        Some e \<Rightarrow> Some e
      | None \<Rightarrow>
          if g_path g \<in> set paths then Some (invalid_grant [Lit '': two grants on path '', Lit (g_path g)])
          else check_grants_from (g_path g # paths) want)"

definition CheckGrants :: "grant list \<Rightarrow> gerror option" where
  "CheckGrants want =
     (if want = [] then Some (invalid_grant [Lit '': no grants requested'']) else check_grants_from [] want)"

section \<open>What a grant confers\<close>

definition under :: "string \<Rightarrow> string \<Rightarrow> bool" where
  "under path ancestor =
     (if ancestor = ''/'' then path \<noteq> ''/'' else strings_HasPrefix path (ancestor @ ''/''))"

text \<open>A grant, its privileges, and its resolved pool members (none when they are not resolved).\<close>

record row =
  r_grant :: grant
  r_privs :: "string list"
  r_members :: "string list option"

definition pool_path :: "grant \<Rightarrow> string \<Rightarrow> bool" where
  "pool_path g path \<longleftrightarrow>
     (strings_HasPrefix (g_path g) ''/pool/'' \<or> g_path g = ''/pool'' \<and> g_propagate g) \<and>
     (strings_HasPrefix path ''/vms/'' \<or> strings_HasPrefix path ''/storage/'')"

definition confers :: "row \<Rightarrow> string \<Rightarrow> string \<Rightarrow> bool \<Rightarrow> bool" where
  "confers r path priv prop =
     (let g = r_grant r in
      if priv \<notin> set (r_privs r) then False
      else if prop then g_propagate g \<and> (path = g_path g \<or> under path (g_path g))
      else if path = g_path g \<or> g_propagate g \<and> under path (g_path g) then True
      else pool_path g path \<and> (case r_members r of None \<Rightarrow> True | Some ms \<Rightarrow> path \<in> set ms))"

definition conferred :: "row list \<Rightarrow> string \<Rightarrow> string \<Rightarrow> bool \<Rightarrow> bool" where
  "conferred rows path priv prop \<longleftrightarrow> list_ex (\<lambda>r. confers r path priv prop) rows"

definition unresolved :: "row list \<Rightarrow> row list" where
  "unresolved rows = map (\<lambda>r. r\<lparr>r_members := None\<rparr>) rows"

definition onlyMembership :: "row list \<Rightarrow> string \<Rightarrow> string list \<Rightarrow> bool gomap \<Rightarrow> bool" where
  "onlyMembership rows path unsourced flags \<longleftrightarrow>
     list_all (\<lambda>priv. conferred (unresolved rows) path priv (map_of flags priv = Some True)) unsourced"

definition resolvable :: "row \<Rightarrow> bool" where
  "resolvable r \<longleftrightarrow>
     strings_HasPrefix (g_path (r_grant r)) ''/pool/'' \<and> \<not> g_propagate (r_grant r) \<and> ''Pool.Audit'' \<in> set (r_privs r)"

text \<open>
  \<open>poolCandidates\<close>: the resolvable grants, by their paths (which are distinct), when some path of the
  tree holds a privilege that is conferred no more once their members are taken as empty.
\<close>

definition emptied :: "row list \<Rightarrow> row list" where
  "emptied rows = map (\<lambda>r. if resolvable r then r\<lparr>r_members := Some []\<rparr> else r\<lparr>r_members := None\<rparr>) rows"

definition poolCandidates :: "row list \<Rightarrow> bool gomap gomap \<Rightarrow> string list" where
  "poolCandidates rows tree =
     (let cands = map (\<lambda>r. g_path (r_grant r)) (filter resolvable rows) in
      if list_ex (\<lambda>(path, flags). list_ex (\<lambda>(priv, prop).
           \<not> prop \<and> conferred (unresolved rows) path priv False \<and> \<not> conferred (emptied rows) path priv False) flags) tree
      then cands else [])"

section \<open>Failures of the reads\<close>

text \<open>
  \<open>unverifiable\<close> flattens a failure: an HTTP answer is named by its status, any other cause by its
  text, cut at 256 bytes before a rune that would not fit, and quoted.
\<close>

definition rune_start :: "char \<Rightarrow> bool" where
  "rune_start c \<longleftrightarrow> of_char c div 64 \<noteq> (2 :: nat)"

fun cut_at :: "string \<Rightarrow> nat \<Rightarrow> nat" where
  "cut_at text 0 = 0"
| "cut_at text (Suc n) = (if rune_start (text ! Suc n) then Suc n else cut_at text n)"

definition bounded_text :: "string \<Rightarrow> string" where
  "bounded_text text =
     (if length text > 256 then take (cut_at text 256) text @ [CHR 0xE2, CHR 0x80, CHR 0xA6] else text)"

definition vtg :: "frag list \<Rightarrow> gerror" where
  "vtg what = Errorf (Lit ''validate token grants: '' # what)"

definition unverifiable :: "string \<Rightarrow> gerror \<Rightarrow> gerror" where
  "unverifiable what e =
     (case errors_As (\<lambda>x. case x of StatusError code st b w \<Rightarrow> Some code | _ \<Rightarrow> None) e of
        Some code \<Rightarrow> vtg [Wrapped (Sentinel ErrUnverifiableRead), Lit '': '', Lit what, Lit '': PVE answered HTTP '', Dec code]
      | None \<Rightarrow>
          (case errors_As (\<lambda>x. case x of ProxmoxStatusError code st b \<Rightarrow> Some code | _ \<Rightarrow> None) e of
             Some code \<Rightarrow> vtg [Wrapped (Sentinel ErrUnverifiableRead), Lit '': '', Lit what, Lit '': PVE answered HTTP '', Dec code]
           | None \<Rightarrow>
               if errors_Is e ErrNotAuthorized then
                 vtg [Wrapped (Sentinel ErrUnverifiableRead), Lit '': '', Lit what,
                   Lit '': PVE answered HTTP 401/403 (not authorized)'']
               else vtg [Wrapped (Sentinel ErrUnverifiableRead), Lit '': '', Lit what, Lit '': '',
                   Quo (bounded_text (err_text e))]))"

definition readFailure :: "string \<Rightarrow> gerror \<Rightarrow> gerror" where
  "readFailure what e =
     (if \<not> errors_Is e ErrNotAuthorized then e
      else Errorf [Lit what, Lit '': '', Wrapped (Sentinel ErrNotAuthorized), Lit '' (PVE answered HTTP '',
        Dec (case HTTPStatus e of Some c \<Rightarrow> c | None \<Rightarrow> 0), Lit '')''])"

section \<open>Does the object at a path exist?\<close>

definition vmsPathRE :: "string \<Rightarrow> string option" where
  "vmsPathRE path =
     (case strings_CutPrefix path ''/vms/'' of
        (d # ds, True) \<Rightarrow> if is_digit d \<and> d \<noteq> CHR ''0'' \<and> list_all is_digit ds then Some (d # ds) else None
      | _ \<Rightarrow> None)"

definition exists_what :: "string \<Rightarrow> string" where
  "exists_what path = ''check whether '' @ path @ '' exists''"

text \<open>\<open>existence.check\<close>, with the storage list once it is read.\<close>

definition existence_check ::
    "env \<Rightarrow> string list option \<Rightarrow> string \<Rightarrow> ('r sess_scheme, (gerror + bool) \<times> string list option) state" where
  "existence_check env storages path =
     (case vmsPathRE path of
        Some n \<Rightarrow>
          (case strconv_Atoi n of
             None \<Rightarrow> ret (Inl (unverifiable (exists_what path)
                 (Errorf [Lit ''strconv.Atoi: parsing '', Quo n, Lit '': value out of range''])), storages)
           | Some vmid \<Rightarrow> do {
               free \<leftarrow> vmidFree env vmid;
               ret (case free of Inl e \<Rightarrow> Inl (unverifiable (exists_what path) e) | Inr free \<Rightarrow> Inr (\<not> free), storages)
             })
      | None \<Rightarrow>
          (case strings_CutPrefix path ''/storage/'' of
             (sid, ok) \<Rightarrow>
               if ok \<and> storageIDRE sid then
                 (case storages of
                    Some ids \<Rightarrow> ret (Inr (sid \<in> set ids), storages)
                  | None \<Rightarrow> do {
                      r \<leftarrow> StorageIDs env;
                      ret (case r of
                          Inl e \<Rightarrow> (Inl (unverifiable (exists_what path) e), None)
                        | Inr ids \<Rightarrow> (Inr (sid \<in> set ids), Some ids))
                    })
               else ret (Inl (vtg [Wrapped (Sentinel ErrUnverifiableRead), Lit '': cannot check whether '', Lit path,
                 Lit '' exists: not a guest or storage path'']), storages)))"

section \<open>The validation\<close>

fun load_rows ::
    "env \<Rightarrow> (string \<times> string list) list \<Rightarrow> grant list \<Rightarrow> ('r sess_scheme, gerror + row list) state" where
  "load_rows env cache [] = ret (Inr [])"
| "load_rows env cache (g # want) =
     (let add = (\<lambda>list. map_sum id ((#) \<lparr>r_grant = g, r_privs = list, r_members = None\<rparr>)) in
      case g_privs g of
        Some list \<Rightarrow> do { rest \<leftarrow> load_rows env cache want; ret (add list rest) }
      | None \<Rightarrow>
          (case map_of cache (g_role g) of
             Some list \<Rightarrow> do { rest \<leftarrow> load_rows env cache want; ret (add list rest) }
           | None \<Rightarrow> do {
               r \<leftarrow> RolePrivileges env (g_role g);
               case r of
                 Inl e \<Rightarrow> ret (Inl (vtg [Wrapped (readFailure (''read role '' @ g_role g) e)]))
               | Inr list \<Rightarrow> do { rest \<leftarrow> load_rows env ((g_role g, list) # cache) want; ret (add list rest) }
             }))"

definition path_failure :: "string \<Rightarrow> gerror \<Rightarrow> gerror" where
  "path_failure path e = vtg [Wrapped (readFailure (''read permissions at '' @ path) e)]"

text \<open>The permissions at the candidates, and those of them where the token holds \<open>Pool.Audit\<close>.\<close>

fun read_held ::
    "env \<Rightarrow> string list \<Rightarrow> ('r sess_scheme, gerror + (bool gomap) gomap) state" where
  "read_held env [] = ret (Inr [])"
| "read_held env (path # paths) = do {
     r \<leftarrow> PathPermissions env path;
     case r of
       Inl e \<Rightarrow> ret (Inl (path_failure path e))
     | Inr h \<Rightarrow> do { rest \<leftarrow> read_held env paths; ret (map_sum id ((#) (path, h)) rest) }
   }"

definition gated_pools :: "bool gomap gomap \<Rightarrow> string list" where
  "gated_pools held = map fst (filter (\<lambda>(path, h). map_of h ''Pool.Audit'' \<noteq> None) held)"

fun readPoolMembers ::
    "env \<Rightarrow> string list \<Rightarrow> ('r sess_scheme, gerror + string list gomap) state" where
  "readPoolMembers env [] = ret (Inr [])"
| "readPoolMembers env (path # paths) = do {
     r \<leftarrow> PoolMembers env (strings_TrimPrefix path ''/pool/'');
     case r of
       Inl e \<Rightarrow> ret (Inl (unverifiable (''read members of pool '' @ strings_TrimPrefix path ''/pool/'') e))
     | Inr ms \<Rightarrow> do { rest \<leftarrow> readPoolMembers env paths; ret (map_sum id ((#) (path, ms)) rest) }
   }"

definition set_members :: "string list gomap \<Rightarrow> string list gomap \<Rightarrow> row list \<Rightarrow> row list" where
  "set_members before after rows =
     map (\<lambda>r. case map_of before (g_path (r_grant r)) of
            None \<Rightarrow> r
          | Some b \<Rightarrow> r\<lparr>r_members := Some (b @ (case map_of after (g_path (r_grant r)) of None \<Rightarrow> [] | Some a \<Rightarrow> a))\<rparr>) rows"

text \<open>
  The resolution of the pool members: the rows with their members, the tree to judge, and the
  permissions that were read on the way.
\<close>

definition resolve_members ::
    "env \<Rightarrow> row list \<Rightarrow> bool gomap gomap \<Rightarrow>
     ('r sess_scheme, gerror + row list \<times> bool gomap gomap \<times> bool gomap gomap) state" where
  "resolve_members env rows tree = do {
     r \<leftarrow> read_held env (poolCandidates rows tree);
     case r of
       Inl e \<Rightarrow> ret (Inl e)
     | Inr held \<Rightarrow>
         if gated_pools held = [] then ret (Inr (rows, tree, held))
         else do {
           b \<leftarrow> readPoolMembers env (gated_pools held);
           case b of
             Inl e \<Rightarrow> ret (Inl e)
           | Inr before \<Rightarrow> do {
               t \<leftarrow> EffectivePermissions env;
               case t of
                 Inl e \<Rightarrow> ret (Inl (unverifiable ''re-read effective permissions'' e))
               | Inr tree2 \<Rightarrow>
                   if tree2 = [] then
                     ret (Inl (vtg [Wrapped (Sentinel ErrUnverifiableRead),
                       Lit '': the second read of the effective permissions was empty, though the first was not'']))
                   else do {
                     a \<leftarrow> readPoolMembers env (gated_pools held);
                     case a of
                       Inl e \<Rightarrow> ret (Inl e)
                     | Inr after \<Rightarrow> ret (Inr (set_members before after rows, tree2, held))
                   }
             }
         }
   }"

definition unsourced_privs :: "row list \<Rightarrow> string \<Rightarrow> bool gomap \<Rightarrow> string list" where
  "unsourced_privs rows path flags =
     filter (\<lambda>priv. \<not> conferred rows path priv (map_of flags priv = Some True)) (sort (map fst flags))"

definition too_wide :: "string \<Rightarrow> string list \<Rightarrow> gerror" where
  "too_wide path privs =
     vtg [Wrapped (Sentinel ErrScopeTooWide), Lit '': at '', Lit path, Lit '' the token holds '',
       Lit (join_with '','' privs), Lit '', which no requested grant confers there'']"

definition no_member :: "string \<Rightarrow> string list \<Rightarrow> gerror" where
  "no_member path privs =
     vtg [Wrapped (Sentinel ErrUnverifiableRead), Lit '': at '', Lit path, Lit '' the token holds '',
       Lit (join_with '','' privs), Lit '' through pool membership, but '', Lit path,
       Lit '' is not a member of the pool and does not exist or is not visible to the token (an orphaned pool entry, whose config is gone?)'']"

text \<open>The bound: the violation found, if any, and the first path that could not be settled.\<close>

fun bound_scan ::
    "env \<Rightarrow> row list \<Rightarrow> bool gomap gomap \<Rightarrow> string list option \<Rightarrow> gerror option \<Rightarrow> string list \<Rightarrow>
     ('r sess_scheme, gerror option \<times> gerror option) state" where
  "bound_scan env rows tree storages unsure [] = ret (None, unsure)"
| "bound_scan env rows tree storages unsure (path # paths) =
     (let flags = (case map_of tree path of Some f \<Rightarrow> f | None \<Rightarrow> []);
          unsourced = unsourced_privs rows path flags
      in if unsourced = [] then bound_scan env rows tree storages unsure paths
         else if onlyMembership rows path unsourced flags then do {
           x \<leftarrow> existence_check env storages path;
           case x of
             (Inr True, storages) \<Rightarrow> ret (Some (too_wide path unsourced), unsure)
           | (Inr False, storages) \<Rightarrow>
               bound_scan env rows tree storages
                 (case unsure of None \<Rightarrow> Some (no_member path unsourced) | Some u \<Rightarrow> Some u) paths
           | (Inl e, storages) \<Rightarrow>
               bound_scan env rows tree storages (case unsure of None \<Rightarrow> Some e | Some u \<Rightarrow> Some u) paths
         }
         else ret (Some (too_wide path unsourced), unsure))"

definition absent_privs :: "row \<Rightarrow> bool gomap \<Rightarrow> string list" where
  "absent_privs r h = filter (\<lambda>p. map_of h p = None) (sort (remdups (r_privs r)))"

definition flat_privs :: "row \<Rightarrow> bool gomap \<Rightarrow> string list" where
  "flat_privs r h = filter (\<lambda>p. g_propagate (r_grant r) \<and> map_of h p = Some False) (sort (remdups (r_privs r)))"

definition wrong_scope :: "row \<Rightarrow> bool gomap \<Rightarrow> gerror option" where
  "wrong_scope r h =
     (if absent_privs r h \<noteq> [] \<or> flat_privs r h \<noteq> [] then
        Some (vtg [Wrapped (Sentinel ErrWrongScope), Lit '': at '', Lit (g_path (r_grant r)), Lit '' the token lacks ['',
          Lit (join_with '','' (absent_privs r h)), Lit ''] and holds without propagate ['',
          Lit (join_with '','' (flat_privs r h)), Lit '']''])
      else None)"

fun presence ::
    "env \<Rightarrow> bool gomap gomap \<Rightarrow> gerror option \<Rightarrow> row list \<Rightarrow> ('r sess_scheme, gerror + gerror option) state" where
  "presence env held missing [] = ret (Inr missing)"
| "presence env held missing (r # rows) = do {
     x \<leftarrow> (case map_of held (g_path (r_grant r)) of
            Some h \<Rightarrow> ret (Inr h)
          | None \<Rightarrow> PathPermissions env (g_path (r_grant r)));
     case x of
       Inl e \<Rightarrow> ret (Inl (path_failure (g_path (r_grant r)) e))
     | Inr h \<Rightarrow> presence env held (case missing of None \<Rightarrow> wrong_scope r h | Some m \<Rightarrow> Some m) rows
   }"

definition verdict :: "gerror option \<times> gerror option \<Rightarrow> gerror option \<Rightarrow> gerror option" where
  "verdict bound missing =
     (case bound of (Some wide, _) \<Rightarrow> Some wide | (None, Some unsure) \<Rightarrow> Some unsure | (None, None) \<Rightarrow> missing)"

definition judge :: "env \<Rightarrow> row list \<Rightarrow> bool gomap gomap \<Rightarrow> bool gomap gomap \<Rightarrow> ('r sess_scheme, gerror option) state" where
  "judge env rows tree held = do {
     bound \<leftarrow> bound_scan env rows tree None None (sort (map fst tree));
     missing \<leftarrow> presence env held None rows;
     ret (case missing of Inl e \<Rightarrow> Some e | Inr m \<Rightarrow> verdict bound m)
   }"

definition ValidateTokenGrants :: "env \<Rightarrow> grant list \<Rightarrow> ('r sess_scheme, gerror option) state" where
  "ValidateTokenGrants env want =
     (case CheckGrants want of
        Some e \<Rightarrow> ret (Some (vtg [Wrapped e]))
      | None \<Rightarrow> do {
          t \<leftarrow> EffectivePermissions env;
          case t of
            Inl e \<Rightarrow> ret (Some (vtg [Wrapped (readFailure ''read effective permissions'' e)]))
          | Inr tree \<Rightarrow>
              if tree = [] then ret (Some (vtg [Wrapped (Sentinel ErrNoGrants)]))
              else do {
                p \<leftarrow> load_rows env [] want;
                case p of
                  Inl e \<Rightarrow> ret (Some e)
                | Inr rows \<Rightarrow> do {
                    m \<leftarrow> resolve_members env rows tree;
                    case m of
                      Inl e \<Rightarrow> ret (Some e)
                    | Inr (rows, tree, held) \<Rightarrow> judge env rows tree held
                  }
              }
        })"

section \<open>What the steps of a validation have seen\<close>

definition vtg_error :: "gerror \<Rightarrow> bool" where
  "vtg_error e \<longleftrightarrow> (\<exists>f fs. e = vtg (f # fs) \<and> f \<noteq> Wrapped (Sentinel ErrScopeTooWide))"

lemma vtg_error_vtg: "f \<noteq> Wrapped (Sentinel ErrScopeTooWide) \<Longrightarrow> vtg_error (vtg (f # fs))"
  by (auto simp: vtg_error_def)

lemma readFailure_Errorf: "\<exists>fs. e = Errorf fs \<Longrightarrow> \<exists>fs. readFailure what e = Errorf fs"
  by (auto simp: readFailure_def)

lemma vtg_error_read: "\<exists>fs. e = Errorf fs \<Longrightarrow> vtg_error (vtg [Wrapped (readFailure what e)])"
  using readFailure_Errorf [of e what] by (auto simp: vtg_error_def vtg_def)

lemma vtg_error_unverifiable: "vtg_error (unverifiable what e)"
  by (auto simp: unverifiable_def vtg_error_def vtg_def split: option.splits)

text \<open>The privileges of a row come from the request or from PVE's role; its members from two pool reads.\<close>

definition privs_known :: "row \<Rightarrow> event list \<Rightarrow> bool" where
  "privs_known r es \<longleftrightarrow>
     (case g_privs (r_grant r) of
        Some ps \<Rightarrow> r_privs r = ps
      | None \<Rightarrow> \<exists>e \<in> set es. role_event (g_role (r_grant r)) (r_privs r) e)"

definition members_known :: "row \<Rightarrow> event list \<Rightarrow> bool" where
  "members_known r es \<longleftrightarrow>
     (\<forall>ms. r_members r = Some ms \<longrightarrow>
        (\<exists>b a e1 e2. ms = b @ a \<and> e1 \<in> set es \<and> e2 \<in> set es \<and>
           members_event (strings_TrimPrefix (g_path (r_grant r)) ''/pool/'') b e1 \<and>
           members_event (strings_TrimPrefix (g_path (r_grant r)) ''/pool/'') a e2))"

lemma known_mono:
  "privs_known r es \<Longrightarrow> set es \<subseteq> set fs \<Longrightarrow> privs_known r fs"
  "members_known r es \<Longrightarrow> set es \<subseteq> set fs \<Longrightarrow> members_known r fs"
  unfolding privs_known_def members_known_def by (auto split: option.splits, blast)

definition rows_spec :: "(string \<times> string list) list \<Rightarrow> grant list \<Rightarrow> gerror + row list \<Rightarrow> event list \<Rightarrow> bool" where
  "rows_spec cache want r es \<longleftrightarrow> list_all reads es \<and>
     (case r of
        Inl e \<Rightarrow> vtg_error e
      | Inr rows \<Rightarrow> map r_grant rows = want \<and>
          (\<forall>x \<in> set rows. r_members x = None \<and>
             (privs_known x es \<or> g_privs (r_grant x) = None \<and> (g_role (r_grant x), r_privs x) \<in> set cache)))"

lemma rows_spec_add:
  assumes "rows_spec cache want rest es"
    and "privs_known \<lparr>r_grant = g, r_privs = ps, r_members = None\<rparr> es \<or> g_privs g = None \<and> (g_role g, ps) \<in> set cache"
  shows "rows_spec cache (g # want) (map_sum id ((#) \<lparr>r_grant = g, r_privs = ps, r_members = None\<rparr>) rest) es"
  using assms by (auto simp: rows_spec_def split: sum.splits)

lemma rows_spec_weaken:
  assumes "rows_spec c want rest fs" and "list_all reads es"
    and "\<And>ro ps. (ro, ps) \<in> set c \<Longrightarrow> (ro, ps) \<in> set cache \<or> (\<exists>e \<in> set es. role_event ro ps e)"
  shows "rows_spec cache want rest (es @ fs)"
proof (cases rest)
  case (Inr rows)
  have "r_members x = None \<and> (privs_known x (es @ fs) \<or> g_privs (r_grant x) = None \<and> (g_role (r_grant x), r_privs x) \<in> set cache)"
    if "x \<in> set rows" for x
  proof -
    from assms(1) Inr that have "r_members x = None"
      and x: "privs_known x fs \<or> g_privs (r_grant x) = None \<and> (g_role (r_grant x), r_privs x) \<in> set c"
      by (auto simp: rows_spec_def)
    moreover from x assms(3) [of "g_role (r_grant x)" "r_privs x"] known_mono(1) [of x fs "es @ fs"]
    have "privs_known x (es @ fs) \<or> g_privs (r_grant x) = None \<and> (g_role (r_grant x), r_privs x) \<in> set cache"
      by (auto simp: privs_known_def)
    ultimately show ?thesis by blast
  qed
  with assms(1,2) Inr show ?thesis by (simp add: rows_spec_def)
qed (use assms(1,2) in \<open>simp add: rows_spec_def\<close>)

lemma traces_load_rows:
  "traces (load_rows env cache want :: ('r sess_scheme, gerror + row list) state) (rows_spec cache want)"
proof (induction want arbitrary: cache)
  case Nil
  show ?case by (auto intro!: traces_return simp: rows_spec_def)
next
  case (Cons g want)
  have add: "traces (do { rest \<leftarrow> (load_rows env c want :: ('r sess_scheme, gerror + row list) state);
        ret (map_sum id ((#) \<lparr>r_grant = g, r_privs = ps, r_members = None\<rparr>) rest) })
      (\<lambda>r fs. rows_spec cache (g # want) r (es @ fs))"
    if "list_all reads es" "set c \<subseteq> insert (g_role g, ps) (set cache)"
      "privs_known \<lparr>r_grant = g, r_privs = ps, r_members = None\<rparr> es \<or> g_privs g = None \<and> (g_role g, ps) \<in> set cache"
      "c \<noteq> cache \<Longrightarrow> \<exists>e \<in> set es. role_event (g_role g) ps e" for c ps es
  proof (rule traces_bind [OF Cons.IH], rule traces_return)
    fix rest fs
    assume "rows_spec c want rest fs"
    then have "rows_spec cache want rest (es @ fs)"
      by (rule rows_spec_weaken) (use that(1,2,4) in blast)+
    moreover have "privs_known \<lparr>r_grant = g, r_privs = ps, r_members = None\<rparr> (es @ fs) \<or>
        g_privs g = None \<and> (g_role g, ps) \<in> set cache"
      using that(3) by (auto intro: known_mono(1))
    ultimately show "rows_spec cache (g # want) (map_sum id ((#) \<lparr>r_grant = g, r_privs = ps, r_members = None\<rparr>) rest) (es @ fs @ [])"
      using rows_spec_add by simp
  qed
  show ?case
    unfolding load_rows.simps Let_def
  proof (intro traces_case_option, goal_cases)
    case unknown: 1
    show ?case
    proof (rule traces_bind [OF traces_RolePrivileges], rule traces_case_sum, goal_cases)
      case (1 r es e)
      then show ?case by (auto intro!: traces_return vtg_error_read simp: rows_spec_def seen_by_def)
    next
      case (2 r es ps)
      then show ?case
        by (intro add) (auto simp: seen_by_def privs_known_def unknown)
    qed
  next
    case (2 ps)
    then show ?case using add [of "[]" cache ps] by (simp add: map_of_SomeD subset_insertI)
  next
    case (3 ps)
    then show ?case using add [of "[]" cache ps] by (simp add: privs_known_def subset_insertI)
  qed
qed

definition all_seen :: "(string \<Rightarrow> 'a \<Rightarrow> event \<Rightarrow> bool) \<Rightarrow> 'a gomap \<Rightarrow> event list \<Rightarrow> bool" where
  "all_seen P m es \<longleftrightarrow> (\<forall>k v. (k, v) \<in> set m \<longrightarrow> (\<exists>e \<in> set es. P k v e))"

lemma all_seen_mono: "all_seen P m es \<Longrightarrow> set es \<subseteq> set fs \<Longrightarrow> all_seen P m fs"
  unfolding all_seen_def by blast

lemma all_seen_Cons: "all_seen P ((k, v) # m) es \<longleftrightarrow> (\<exists>e \<in> set es. P k v e) \<and> all_seen P m es"
  unfolding all_seen_def by auto

definition map_spec ::
    "(string \<Rightarrow> 'a \<Rightarrow> event \<Rightarrow> bool) \<Rightarrow> string list \<Rightarrow> gerror + 'a gomap \<Rightarrow> event list \<Rightarrow> bool" where
  "map_spec P paths r es \<longleftrightarrow> list_all reads es \<and>
     (case r of Inl e \<Rightarrow> vtg_error e | Inr m \<Rightarrow> map fst m = paths \<and> all_seen P m es)"

lemma map_spec_add:
  assumes "seen_by (P k) (Inr v) es" and "map_spec P paths rest fs"
  shows "map_spec P (k # paths) (map_sum id ((#) (k, v)) rest) (es @ fs)"
  using assms all_seen_mono [of P _ fs "es @ fs"]
  by (auto simp: map_spec_def seen_by_def all_seen_Cons split: sum.splits)

lemma traces_read_held: "traces (read_held env paths) (map_spec path_event paths)"
proof (induction paths)
  case Nil
  show ?case by (auto intro!: traces_return simp: map_spec_def all_seen_def)
next
  case (Cons path paths)
  show ?case
    unfolding read_held.simps
  proof (rule traces_bind [OF traces_PathPermissions], rule traces_case_sum, goal_cases)
    case (1 r es e)
    then show ?case by (auto intro!: traces_return vtg_error_read simp: map_spec_def seen_by_def path_failure_def)
  next
    case (2 r es h)
    then show ?case by (intro traces_bind [OF Cons.IH] traces_return) (simp add: map_spec_add)
  qed
qed

abbreviation "pool_event path \<equiv> members_event (strings_TrimPrefix path ''/pool/'')"

lemma traces_readPoolMembers: "traces (readPoolMembers env paths) (map_spec pool_event paths)"
proof (induction paths)
  case Nil
  show ?case by (auto intro!: traces_return simp: map_spec_def all_seen_def)
next
  case (Cons path paths)
  show ?case
    unfolding readPoolMembers.simps
  proof (rule traces_bind [OF traces_PoolMembers], rule traces_case_sum, goal_cases)
    case (1 r es e)
    then show ?case by (auto intro!: traces_return vtg_error_unverifiable simp: map_spec_def seen_by_def)
  next
    case (2 r es ms)
    then show ?case by (intro traces_bind [OF Cons.IH] traces_return) (simp add: map_spec_add)
  qed
qed

text \<open>The resolution changes nothing of the rows but their members, which two reads of the pool gave.\<close>

definition resolve_spec ::
    "row list \<Rightarrow> bool gomap gomap \<Rightarrow> gerror + row list \<times> bool gomap gomap \<times> bool gomap gomap \<Rightarrow> event list \<Rightarrow> bool" where
  "resolve_spec rows0 tree0 r es \<longleftrightarrow> list_all reads es \<and>
     (case r of
        Inl e \<Rightarrow> vtg_error e
      | Inr (rows, tree, held) \<Rightarrow>
          (\<exists>f. rows = map (\<lambda>r. r\<lparr>r_members := f r\<rparr>) rows0) \<and> (\<forall>x \<in> set rows. members_known x es) \<and>
          (tree = tree0 \<or> tree \<noteq> [] \<and> (\<exists>e \<in> set es. tree_event tree e)) \<and> all_seen path_event held es)"

lemma members_known_set_members:
  assumes "\<forall>x \<in> set rows. r_members x = None" and "all_seen pool_event before es" and "all_seen pool_event after es"
    and "map fst before = map fst after" and "x \<in> set (set_members before after rows)"
  shows "members_known x es"
proof -
  from assms(5) obtain r where r: "r \<in> set rows"
    and x: "x = (case map_of before (g_path (r_grant r)) of None \<Rightarrow> r
      | Some b \<Rightarrow> r\<lparr>r_members := Some (b @ (case map_of after (g_path (r_grant r)) of None \<Rightarrow> [] | Some a \<Rightarrow> a))\<rparr>)"
    by (auto simp: set_members_def)
  show ?thesis
  proof (cases "map_of before (g_path (r_grant r))")
    case None
    with x r assms(1) show ?thesis by (simp add: members_known_def)
  next
    case (Some b)
    then have "g_path (r_grant r) \<in> fst ` set after" using assms(4) by (metis map_of_eq_None_iff list.set_map option.distinct(1))
    then obtain a where a: "map_of after (g_path (r_grant r)) = Some a" by (metis map_of_eq_None_iff not_None_eq)
    from Some a assms(2,3) obtain e1 e2 where "e1 \<in> set es" "pool_event (g_path (r_grant r)) b e1"
      "e2 \<in> set es" "pool_event (g_path (r_grant r)) a e2"
      unfolding all_seen_def by (meson map_of_SomeD)
    then show ?thesis unfolding members_known_def by (auto simp: x Some a)
  qed
qed

lemma set_members_map: "\<exists>f. set_members before after rows = map (\<lambda>r. r\<lparr>r_members := f r\<rparr>) rows"
  by (rule exI [of _ "\<lambda>r. case map_of before (g_path (r_grant r)) of None \<Rightarrow> r_members r
      | Some b \<Rightarrow> Some (b @ (case map_of after (g_path (r_grant r)) of None \<Rightarrow> [] | Some a \<Rightarrow> a))"])
    (auto simp: set_members_def split: option.splits)

lemma traces_resolve_members:
  assumes "\<forall>x \<in> set rows. r_members x = None"
  shows "traces (resolve_members env rows tree) (resolve_spec rows tree)"
  unfolding resolve_members_def
proof (rule traces_bind [OF traces_read_held], rule traces_case_sum, goal_cases)
  case (1 r es e)
  then show ?case by (auto intro!: traces_return simp: map_spec_def resolve_spec_def)
next
  case held: (2 r es held)
  have same: "\<exists>f. rows = map (\<lambda>r. r\<lparr>r_members := f r\<rparr>) rows" by (rule exI [of _ r_members]) simp
  have none: "\<forall>x \<in> set rows. members_known x es" for es using assms by (simp add: members_known_def)
  show ?case
  proof (rule traces_if, goal_cases)
    case 1
    show ?case using held same none by (auto intro!: traces_return simp: map_spec_def resolve_spec_def)
  next
    case 2
    show ?case
    proof (rule traces_bind [OF traces_readPoolMembers], rule traces_case_sum, goal_cases)
      case (1 r fs e)
      with held show ?case by (auto intro!: traces_return simp: map_spec_def resolve_spec_def)
    next
      case before: (2 r fs before)
      show ?case
      proof (rule traces_bind [OF traces_EffectivePermissions], rule traces_case_sum, goal_cases)
        case (1 r gs e)
        with held before show ?case
          by (auto intro!: traces_return vtg_error_unverifiable simp: map_spec_def resolve_spec_def seen_by_def)
      next
        case tree: (2 r gs tree2)
        show ?case
        proof (rule traces_if, goal_cases)
          case 1
          with held before tree show ?case
            by (auto intro!: traces_return vtg_error_vtg simp: map_spec_def resolve_spec_def seen_by_def)
        next
          case nonempty: 2
          show ?case
          proof (rule traces_bind [OF traces_readPoolMembers], rule traces_case_sum, goal_cases)
            case (1 r hs e)
            with held before tree show ?case
              by (auto intro!: traces_return simp: map_spec_def resolve_spec_def seen_by_def)
          next
            case after: (2 r hs after)
            let ?all = "es @ fs @ gs @ hs"
            have seen: "all_seen pool_event before ?all" "all_seen pool_event after ?all" "all_seen path_event held ?all"
              "map fst before = map fst after"
              using held before after by (auto simp: map_spec_def elim: all_seen_mono)
            have "\<exists>e \<in> set ?all. tree_event tree2 e" using tree by (auto simp: seen_by_def)
            moreover have "list_all reads ?all" using held before tree after by (simp add: map_spec_def seen_by_def)
            ultimately have "resolve_spec rows tree (Inr (set_members before after rows, tree2, held)) ?all"
              using nonempty set_members_map seen members_known_set_members [OF assms seen(1,2,4)]
              by (simp add: resolve_spec_def)
            with after(2) show ?case by (intro traces_return) simp
          qed
        qed
      qed
    qed
  qed
qed

section \<open>The bound and the presence\<close>

text \<open>That an object was seen to exist: PVE refused its vmid as taken, or listed the storage.\<close>

definition exists_shown :: "string \<Rightarrow> event list \<Rightarrow> bool" where
  "exists_shown path es \<longleftrightarrow>
     (\<exists>n vmid e. vmsPathRE path = Some n \<and> strconv_Atoi n = Some vmid \<and>
        ENextID (''/cluster/nextid?vmid='' @ strconv_Itoa vmid) (Inl e) \<in> set es \<and> isVMIDTakenError e vmid) \<or>
     (\<exists>sid ids e. path = ''/storage/'' @ sid \<and> e \<in> set es \<and> storages_event ids e \<and> sid \<in> set ids)"

lemma exists_shown_mono: "exists_shown path es \<Longrightarrow> set es \<subseteq> set fs \<Longrightarrow> exists_shown path fs"
  unfolding exists_shown_def by blast

definition storages_known :: "string list option \<Rightarrow> event list \<Rightarrow> bool" where
  "storages_known storages es \<longleftrightarrow> (\<forall>ids. storages = Some ids \<longrightarrow> (\<exists>e \<in> set es. storages_event ids e))"

lemma storages_known_mono: "storages_known st es \<Longrightarrow> set es \<subseteq> set fs \<Longrightarrow> storages_known st fs"
  unfolding storages_known_def by blast

definition check_spec ::
    "string list option \<Rightarrow> string \<Rightarrow> (gerror + bool) \<times> string list option \<Rightarrow> event list \<Rightarrow> bool" where
  "check_spec storages path x es \<longleftrightarrow> list_all reads es \<and>
     (\<forall>e. fst x = Inl e \<longrightarrow> vtg_error e) \<and>
     (\<forall>pre. storages_known storages pre \<longrightarrow>
        storages_known (snd x) (pre @ es) \<and> (fst x = Inr True \<longrightarrow> exists_shown path (pre @ es)))"

lemma traces_vmidFree_taken:
  "traces (vmidFree env vmid) (\<lambda>r es. list_all reads es \<and>
     (r = Inr False \<longrightarrow> (\<exists>e. es = [ENextID (''/cluster/nextid?vmid='' @ strconv_Itoa vmid) (Inl e)] \<and> isVMIDTakenError e vmid)))"
  unfolding vmidFree_def pc_nextid_def
  by (auto simp: traces_def perform_def reads_def split: sum.splits if_splits)

lemma CutPrefix_True: "strings_CutPrefix s p = (rest, True) \<Longrightarrow> s = p @ rest"
  by (auto simp: strings_CutPrefix_def prefix_def split: if_splits)

lemma traces_existence_check: "traces (existence_check env storages path) (check_spec storages path)"
proof (cases "vmsPathRE path")
  case (Some n)
  show ?thesis
  proof (cases "strconv_Atoi n")
    case None
    with Some show ?thesis
      by (auto intro!: traces_return simp: existence_check_def check_spec_def vtg_error_unverifiable)
  next
    case vmid: (Some vmid)
    have "traces (do { free \<leftarrow> vmidFree env vmid;
        ret (case free of Inl e \<Rightarrow> Inl (unverifiable (exists_what path) e) | Inr free \<Rightarrow> Inr (\<not> free), storages) })
      (check_spec storages path)"
      by (rule traces_bind [OF traces_vmidFree_taken], rule traces_return)
        (use Some vmid in \<open>auto simp: check_spec_def vtg_error_unverifiable exists_shown_def
           intro: storages_known_mono split: sum.splits\<close>)
    with Some vmid show ?thesis by (simp add: existence_check_def)
  qed
next
  case None
  obtain sid ok where cut: "strings_CutPrefix path ''/storage/'' = (sid, ok)" by force
  then have path: "ok \<Longrightarrow> path = ''/storage/'' @ sid"
    using CutPrefix_True [of path "''/storage/''" sid] by simp
  show ?thesis
    unfolding existence_check_def None cut option.case prod.case
  proof (intro traces_if traces_case_option, goal_cases)
    case 1
    show ?case
    proof (rule traces_bind [OF traces_StorageIDs], rule traces_return, goal_cases)
      case (1 r es)
      have "\<exists>e \<in> set (es @ []). storages_event ids e" if "r = Inr ids" for ids
        using 1 that by (auto simp: seen_by_def)
      with 1 path \<open>ok \<and> storageIDRE sid\<close> show ?case
        by (auto simp: check_spec_def seen_by_def vtg_error_unverifiable storages_known_def exists_shown_def split: sum.splits)
    qed
  next
    case (2 ids)
    then show ?case using path
      by (auto intro!: traces_return simp: check_spec_def storages_known_def exists_shown_def)
  next
    case 3
    show ?case by (auto intro!: traces_return vtg_error_vtg simp: check_spec_def)
  qed
qed

text \<open>
  The scan of the bound: without a result every privilege is sourced; a violation is a path whose
  unsourced privileges no grant confers even if it were a member of every pool, or whose object exists.
\<close>

definition flags_at :: "bool gomap gomap \<Rightarrow> string \<Rightarrow> bool gomap" where
  "flags_at tree path = (case map_of tree path of Some f \<Rightarrow> f | None \<Rightarrow> [])"

definition violation :: "row list \<Rightarrow> bool gomap gomap \<Rightarrow> string \<Rightarrow> event list \<Rightarrow> bool" where
  "violation rows tree path es \<longleftrightarrow>
     unsourced_privs rows path (flags_at tree path) \<noteq> [] \<and>
     (onlyMembership rows path (unsourced_privs rows path (flags_at tree path)) (flags_at tree path) \<longrightarrow> exists_shown path es)"

lemma violation_mono: "violation rows tree path es \<Longrightarrow> set es \<subseteq> set fs \<Longrightarrow> violation rows tree path fs"
  unfolding violation_def using exists_shown_mono by blast

definition scan_spec ::
    "row list \<Rightarrow> bool gomap gomap \<Rightarrow> string list option \<Rightarrow> gerror option \<Rightarrow> string list \<Rightarrow>
     gerror option \<times> gerror option \<Rightarrow> event list \<Rightarrow> bool" where
  "scan_spec rows tree storages unsure paths x es \<longleftrightarrow> list_all reads es \<and>
     (x = (None, None) \<longrightarrow> unsure = None \<and> (\<forall>path \<in> set paths. unsourced_privs rows path (flags_at tree path) = [])) \<and>
     (\<forall>e. fst x = None \<longrightarrow> snd x = Some e \<longrightarrow> unsure = Some e \<or> vtg_error e) \<and>
     (\<forall>pre e. storages_known storages pre \<longrightarrow> fst x = Some e \<longrightarrow>
        (\<exists>path \<in> set paths. e = too_wide path (unsourced_privs rows path (flags_at tree path)) \<and>
           violation rows tree path (pre @ es)))"

lemma scan_spec_skip:
  assumes "check_spec storages path (res, st) es" and "res \<noteq> Inr True"
    and "scan_spec rows tree st (case unsure of None \<Rightarrow> Some u | Some v \<Rightarrow> Some v) paths x fs"
    and "res = Inl u \<or> vtg_error u"
  shows "scan_spec rows tree storages unsure (path # paths) x (es @ fs)"
proof -
  have u: "vtg_error u" using assms(1,4) by (auto simp: check_spec_def)
  have "\<exists>p \<in> set (path # paths). e = too_wide p (unsourced_privs rows p (flags_at tree p)) \<and>
      violation rows tree p (pre @ es @ fs)" if "storages_known storages pre" "fst x = Some e" for pre e
  proof -
    from that(1) assms(1) have "storages_known st (pre @ es)" by (simp add: check_spec_def)
    with that(2) assms(3) show ?thesis unfolding scan_spec_def by fastforce
  qed
  with assms(1,3) u show ?thesis
    unfolding scan_spec_def check_spec_def by (cases unsure) auto
qed

lemma traces_bound_scan:
  "traces (bound_scan env rows tree storages unsure paths) (scan_spec rows tree storages unsure paths)"
proof (induction paths arbitrary: storages unsure)
  case Nil
  show ?case by (auto intro!: traces_return simp: scan_spec_def)
next
  case (Cons path paths)
  let ?un = "unsourced_privs rows path (flags_at tree path)"
  show ?case
    unfolding bound_scan.simps Let_def flags_at_def [symmetric]
  proof (intro traces_if, goal_cases)
    case 1
    then show ?case by (intro traces_mono [OF Cons.IH]) (auto simp: scan_spec_def)
  next
    case 2
    show ?case
    proof (rule traces_bind [OF traces_existence_check], goal_cases)
      case (1 x es)
      obtain res st where x: "x = (res, st)" by force
      show ?case
      proof (cases "res = Inr True")
        case True
        then have "violation rows tree path (pre @ es)" if "storages_known storages pre" for pre
          using 1 2 that x by (simp add: violation_def check_spec_def)
        with 1 x True show ?thesis
          by (auto intro!: traces_return simp: scan_spec_def check_spec_def)
      next
        case False
        note skip = scan_spec_skip [OF 1 [unfolded x] False]
        show ?thesis
        proof (cases res)
          case (Inl e)
          then show ?thesis using skip by (auto simp: x intro!: traces_mono [OF Cons.IH])
        next
          case (Inr b)
          with False have "res = Inr False" by simp
          moreover have "vtg_error (no_member path ?un)" by (simp add: no_member_def vtg_error_vtg)
          ultimately show ?thesis using skip by (auto simp: x intro!: traces_mono [OF Cons.IH])
        qed
      qed
    qed
  next
    case 3
    then show ?case by (auto intro!: traces_return simp: scan_spec_def violation_def)
  qed
qed

definition present :: "row \<Rightarrow> event list \<Rightarrow> bool" where
  "present r es \<longleftrightarrow>
     (\<exists>h. (\<exists>e \<in> set es. path_event (g_path (r_grant r)) h e) \<and>
        (\<forall>p \<in> set (r_privs r). \<exists>prop. map_of h p = Some prop \<and> (g_propagate (r_grant r) \<longrightarrow> prop)))"

lemma present_mono: "present r es \<Longrightarrow> set es \<subseteq> set fs \<Longrightarrow> present r fs"
  unfolding present_def by blast

lemma wrong_scope_None:
  "wrong_scope r h = None \<longleftrightarrow>
     (\<forall>p \<in> set (r_privs r). \<exists>prop. map_of h p = Some prop \<and> (g_propagate (r_grant r) \<longrightarrow> prop))"
proof -
  have flag: "x \<noteq> None \<and> \<not> (b \<and> x = Some False) \<longleftrightarrow> (\<exists>prop. x = Some prop \<and> (b \<longrightarrow> prop))" for x b
    by (cases x) auto
  have "wrong_scope r h = None \<longleftrightarrow>
      (\<forall>p \<in> set (r_privs r). map_of h p \<noteq> None \<and> \<not> (g_propagate (r_grant r) \<and> map_of h p = Some False))"
    by (auto simp: wrong_scope_def absent_privs_def flat_privs_def filter_empty_conv)
  then show ?thesis unfolding flag .
qed

lemma wrong_scope_error: "wrong_scope r h = Some e \<Longrightarrow> vtg_error e"
  by (auto simp: wrong_scope_def vtg_error_vtg split: if_splits)

definition presence_spec ::
    "bool gomap gomap \<Rightarrow> gerror option \<Rightarrow> row list \<Rightarrow> gerror + gerror option \<Rightarrow> event list \<Rightarrow> bool" where
  "presence_spec held missing rows x es \<longleftrightarrow> list_all reads es \<and>
     (\<forall>e. x = Inl e \<longrightarrow> vtg_error e) \<and>
     (\<forall>e. x = Inr (Some e) \<longrightarrow> missing = Some e \<or> vtg_error e) \<and>
     (\<forall>pre. x = Inr None \<longrightarrow> all_seen path_event held pre \<longrightarrow> missing = None \<and> (\<forall>r \<in> set rows. present r (pre @ es)))"

lemma presence_spec_step:
  assumes "list_all reads es" and "\<And>pre. all_seen path_event held pre \<Longrightarrow> \<exists>e \<in> set (pre @ es). path_event (g_path (r_grant r)) h e"
    and "presence_spec held (case missing of None \<Rightarrow> wrong_scope r h | Some m \<Rightarrow> Some m) rows x fs"
  shows "presence_spec held missing (r # rows) x (es @ fs)"
proof -
  have "missing = None \<and> (\<forall>y \<in> set (r # rows). present y (pre @ es @ fs))"
    if "x = Inr None" "all_seen path_event held pre" for pre
  proof -
    from that assms(3) have none: "missing = None" "wrong_scope r h = None"
      by (auto simp: presence_spec_def split: option.splits)
    from assms(2) [OF that(2)] none(2) have "present r (pre @ es)" unfolding present_def wrong_scope_None by blast
    moreover have "all_seen path_event held (pre @ es)" using that(2) by (rule all_seen_mono) simp
    then have "\<forall>y \<in> set rows. present y ((pre @ es) @ fs)" using that(1) assms(3) unfolding presence_spec_def by blast
    then have "\<forall>y \<in> set rows. present y (pre @ es @ fs)" by simp
    ultimately show ?thesis using none(1) by (auto elim: present_mono)
  qed
  with assms(1,3) show ?thesis
    unfolding presence_spec_def by (auto dest: wrong_scope_error split: option.splits)
qed

lemma traces_presence: "traces (presence env held missing rows) (presence_spec held missing rows)"
proof (induction rows arbitrary: missing)
  case Nil
  show ?case by (auto intro!: traces_return simp: presence_spec_def)
next
  case (Cons r rows)
  let ?path = "g_path (r_grant r)"
  show ?case
  proof (cases "map_of held ?path")
    case (Some h)
    have "presence_spec held missing (r # rows) x fs"
      if "presence_spec held (case missing of None \<Rightarrow> wrong_scope r h | Some m \<Rightarrow> Some m) rows x fs" for x fs
      using presence_spec_step [of "[]" held r h missing rows x fs] that map_of_SomeD [OF Some]
      by (auto simp: all_seen_def)
    with Some show ?thesis by (simp add: traces_mono [OF Cons.IH])
  next
    case None
    show ?thesis
      unfolding presence.simps None option.case
    proof (rule traces_bind [OF traces_PathPermissions], rule traces_case_sum, goal_cases)
      case (1 x es e)
      then show ?case
        by (auto intro!: traces_return vtg_error_read simp: presence_spec_def seen_by_def path_failure_def)
    next
      case (2 x es h)
      then show ?case
        by (intro traces_mono [OF Cons.IH] presence_spec_step) (auto simp: seen_by_def)
    qed
  qed
qed

section \<open>The validation as a whole\<close>

lemma sourced_conferred:
  assumes "decodePermTree raw = Inr tree" and "unsourced_privs rows path (flags_at tree path) = []"
    and "(path, flags) \<in> set tree" and "(priv, prop) \<in> set flags"
  shows "conferred rows path priv prop"
proof -
  have "map_of tree path = Some flags"
    using decodePermTree_distinct(1) [OF assms(1)] assms(3) by (simp add: map_of_is_SomeI)
  then have at: "flags_at tree path = flags" by (simp add: flags_at_def)
  have "map_of flags priv = Some prop"
    using decodePermTree_distinct(2) [OF assms(1,3)] assms(4) by (simp add: map_of_is_SomeI)
  moreover from assms(2,4) at have "conferred rows path priv (map_of flags priv = Some True)"
    by (force simp: unsourced_privs_def filter_empty_conv)
  ultimately show ?thesis by simp
qed

text \<open>What the judgement may rest on: rows that come from the request and from PVE's answers.\<close>

definition grounded :: "grant list \<Rightarrow> row list \<Rightarrow> bool gomap gomap \<Rightarrow> event list \<Rightarrow> bool" where
  "grounded want rows tree es \<longleftrightarrow>
     map r_grant rows = want \<and> tree \<noteq> [] \<and> (\<exists>e \<in> set es. tree_event tree e) \<and>
     (\<forall>x \<in> set rows. privs_known x es \<and> members_known x es)"

lemma grounded_mono: "grounded want rows tree es \<Longrightarrow> set es \<subseteq> set fs \<Longrightarrow> grounded want rows tree fs"
  unfolding grounded_def by (blast intro: known_mono)

definition valid_spec :: "grant list \<Rightarrow> gerror option \<Rightarrow> event list \<Rightarrow> bool" where
  "valid_spec want r es \<longleftrightarrow> list_all reads es \<and>
     (r = None \<longrightarrow>
        (\<exists>rows tree. grounded want rows tree es \<and> (\<forall>x \<in> set rows. present x es) \<and>
           (\<forall>path flags priv prop. (path, flags) \<in> set tree \<longrightarrow> (priv, prop) \<in> set flags \<longrightarrow> conferred rows path priv prop))) \<and>
     (\<forall>fs. r = Some (vtg (Wrapped (Sentinel ErrScopeTooWide) # fs)) \<longrightarrow>
        (\<exists>rows tree path. grounded want rows tree es \<and> path \<in> fst ` set tree \<and> violation rows tree path es \<and>
           r = Some (too_wide path (unsourced_privs rows path (flags_at tree path)))))"

lemma valid_spec_error: "list_all reads es \<Longrightarrow> vtg_error e \<Longrightarrow> valid_spec want (Some e) es"
  by (auto simp: valid_spec_def vtg_error_def vtg_def)

lemma traces_judge:
  assumes "grounded want rows tree pre" and "all_seen path_event held pre" and "list_all reads pre"
  shows "traces (judge env rows tree held) (\<lambda>r es. valid_spec want r (pre @ es))"
  unfolding judge_def
proof (rule traces_bind [OF traces_bound_scan], rule traces_bind [OF traces_presence], rule traces_return, goal_cases)
  case (1 bound es missing fs)
  let ?es = "pre @ es @ fs" and ?r = "case missing of Inl e \<Rightarrow> Some e | Inr m \<Rightarrow> verdict bound m"
  have ground: "grounded want rows tree ?es" using assms(1) by (rule grounded_mono) auto
  have rd: "list_all reads ?es" using 1 assms(3) by (simp add: scan_spec_def presence_spec_def)
  have wide: "\<exists>path \<in> fst ` set tree. e = too_wide path (unsourced_privs rows path (flags_at tree path)) \<and>
      violation rows tree path ?es" if "fst bound = Some e" for e
  proof -
    from 1(1) have "\<exists>path \<in> fst ` set tree. e = too_wide path (unsourced_privs rows path (flags_at tree path)) \<and>
        violation rows tree path (pre @ es)"
      using that unfolding scan_spec_def storages_known_def by simp
    then obtain path where "path \<in> fst ` set tree" "e = too_wide path (unsourced_privs rows path (flags_at tree path))"
      "violation rows tree path (pre @ es)" by blast
    then show ?thesis by (intro bexI [of _ path]) (auto elim: violation_mono)
  qed
  have "valid_spec want ?r ?es"
  proof (cases missing)
    case (Inl e)
    with 1(2) have "vtg_error e" by (simp add: presence_spec_def)
    with rd Inl show ?thesis by (simp add: valid_spec_error)
  next
    case (Inr m)
    show ?thesis
    proof (cases "fst bound")
      case (Some e)
      then have r: "?r = Some e" using Inr by (cases bound) (simp add: verdict_def)
      from wide [OF Some] ground rd show ?thesis unfolding r valid_spec_def by blast
    next
      case nowide: None
      show ?thesis
      proof (cases "snd bound")
        case (Some e)
        with nowide 1(1) have "vtg_error e" by (auto simp: scan_spec_def)
        moreover from nowide Some Inr have "?r = Some e" by (cases bound) (simp add: verdict_def)
        ultimately show ?thesis using rd by (simp add: valid_spec_error)
      next
        case None
        with nowide have bound: "bound = (None, None)" by (cases bound) simp
        then have r: "?r = m" using Inr by (simp add: verdict_def)
        show ?thesis
        proof (cases m)
          case (Some e)
          with 1(2) Inr have "vtg_error e" by (auto simp: presence_spec_def)
          with rd r Some show ?thesis by (simp add: valid_spec_error)
        next
          case None
          have "all_seen path_event held (pre @ es)" using assms(2) by (rule all_seen_mono) simp
          then have "\<forall>x \<in> set rows. present x ((pre @ es) @ fs)"
            using 1(2) Inr None unfolding presence_spec_def by blast
          then have "\<forall>x \<in> set rows. present x ?es" by simp
          moreover from 1(1) bound have sourced: "\<forall>path \<in> fst ` set tree. unsourced_privs rows path (flags_at tree path) = []"
            by (simp add: scan_spec_def)
          have conf: "conferred rows path priv b"
            if "(path, flags) \<in> set tree" "(priv, b) \<in> set flags" for path flags priv b
          proof -
            from assms(1) obtain raw where "decodePermTree raw = Inr tree" by (auto simp: grounded_def tree_event_def)
            from sourced_conferred [OF this _ that] sourced that(1) show ?thesis by force
          qed
          ultimately show ?thesis
            unfolding r None valid_spec_def using ground rd conf by blast
        qed
      qed
    qed
  qed
  then show ?case by simp
qed

lemma grounded_resolved:
  assumes "map r_grant rows0 = want" and "\<forall>x \<in> set rows0. privs_known x es"
    and "rows = map (\<lambda>r. r\<lparr>r_members := f r\<rparr>) rows0" and "\<forall>x \<in> set rows. members_known x es"
    and "tree \<noteq> []" and "\<exists>e \<in> set es. tree_event tree e"
  shows "grounded want rows tree es"
proof -
  have "privs_known x es" if "x \<in> set rows" for x
  proof -
    from that assms(3) obtain r where r: "r \<in> set rows0" "r_grant x = r_grant r" "r_privs x = r_privs r" by auto
    with assms(2) have "privs_known r es" by blast
    with r(2,3) show ?thesis by (cases "g_privs (r_grant r)") (simp_all add: privs_known_def)
  qed
  then show ?thesis using assms by (simp add: grounded_def comp_def)
qed

lemma traces_ValidateTokenGrants:
  "CheckGrants want = None \<Longrightarrow> traces (ValidateTokenGrants env want) (valid_spec want)"
  unfolding ValidateTokenGrants_def
proof (simp, rule traces_bind [OF traces_EffectivePermissions], rule traces_case_sum, goal_cases)
  case (1 r es e)
  then show ?case by (auto intro!: traces_return valid_spec_error vtg_error_read simp: seen_by_def)
next
  case tree: (2 r es tree)
  show ?case
  proof (rule traces_if, goal_cases)
    case 1
    show ?case using tree by (auto intro!: traces_return valid_spec_error vtg_error_vtg simp: seen_by_def)
  next
    case nonempty: 2
    show ?case
    proof (rule traces_bind [OF traces_load_rows], rule traces_case_sum, goal_cases)
      case (1 r fs e)
      with tree show ?case by (auto intro!: traces_return valid_spec_error simp: rows_spec_def seen_by_def)
    next
      case rows: (2 r fs rows0)
      then have none: "\<forall>x \<in> set rows0. r_members x = None" by (simp add: rows_spec_def)
      show ?case
      proof (rule traces_bind [OF traces_resolve_members [OF none]], rule traces_case_sum, goal_cases)
        case (1 r gs e)
        with tree rows show ?case
          by (auto intro!: traces_return valid_spec_error simp: resolve_spec_def rows_spec_def seen_by_def)
      next
        case (2 r gs x)
        obtain rows1 tree1 held where x: "x = (rows1, tree1, held)" by (cases x)
        let ?es = "es @ fs @ gs"
        from 2 x obtain f where res: "rows1 = map (\<lambda>r. r\<lparr>r_members := f r\<rparr>) rows0"
          "\<forall>x \<in> set rows1. members_known x gs" "tree1 = tree \<or> tree1 \<noteq> [] \<and> (\<exists>e \<in> set gs. tree_event tree1 e)"
          "all_seen path_event held gs" "list_all reads gs"
          by (auto simp: resolve_spec_def)
        have "\<forall>x \<in> set rows0. privs_known x ?es" "map r_grant rows0 = want" "list_all reads fs"
          using rows by (auto simp: rows_spec_def intro: known_mono)
        moreover have "\<forall>x \<in> set rows1. members_known x ?es" using res(2) by (auto intro: known_mono)
        moreover have "tree1 \<noteq> []" "\<exists>e \<in> set ?es. tree_event tree1 e"
          using res(3) nonempty tree by (auto simp: seen_by_def)
        ultimately have "grounded want rows1 tree1 ?es" using res(1) grounded_resolved by blast
        moreover have "all_seen path_event held ?es" using res(4) by (rule all_seen_mono) auto
        moreover have "list_all reads ?es" using tree rows res(5) by (simp add: seen_by_def rows_spec_def)
        ultimately show ?case using traces_judge [of want rows1 tree1 ?es held env] x by simp
      qed
    qed
  qed
qed

section \<open>Properties\<close>

definition well_formed :: "grant \<Rightarrow> bool" where
  "well_formed g \<longleftrightarrow>
     aclPathRE (g_path g) \<and> \<not> sublist ''//'' (g_path g) \<and> (g_path g = ''/'' \<or> last (g_path g) \<noteq> CHR ''/'') \<and>
     roleIDRE (g_role g) \<and>
     (\<forall>ps. g_privs g = Some ps \<longrightarrow> ps \<noteq> [] \<and> distinct ps \<and> list_all privNameRE ps)"

lemma check_privs_None: "check_privs path seen ps = None \<longleftrightarrow> list_all privNameRE ps \<and> distinct ps \<and> set ps \<inter> set seen = {}"
  by (induction path seen ps rule: check_privs.induct) auto

lemma suffix_slash: "xs \<noteq> [] \<Longrightarrow> Sublist.suffix [c] xs \<longleftrightarrow> last xs = c"
  by (cases xs rule: rev_cases) auto

lemma Grant_Check_None: "Grant_Check g = None \<longleftrightarrow> well_formed g"
proof (cases "aclPathRE (g_path g)")
  case True
  then have "g_path g \<noteq> []" by (auto simp: aclPathRE_def)
  then have slash: "strings_HasSuffix (g_path g) ''/'' \<longleftrightarrow> last (g_path g) = CHR ''/''"
    by (simp add: strings_HasSuffix_def suffix_slash)
  have "roleIDRE [] = False" by (simp add: roleIDRE_def)
  with True slash show ?thesis
    by (auto simp: Grant_Check_def well_formed_def strings_Contains_def check_privs_None split: option.splits)
qed (simp add: Grant_Check_def well_formed_def)

lemma check_grants_from_None:
  "check_grants_from paths want = None \<longleftrightarrow>
     list_all well_formed want \<and> distinct (map g_path want) \<and> set (map g_path want) \<inter> set paths = {}"
  by (induction paths want rule: check_grants_from.induct)
    (auto simp: Grant_Check_None [symmetric] split: option.splits)

lemma CheckGrants_Errorf: "CheckGrants want = Some e \<Longrightarrow> \<exists>fs. e = Errorf fs"
proof -
  have privs: "check_privs path seen ps = Some e \<Longrightarrow> \<exists>fs. e = Errorf fs" for path seen ps
    by (induction path seen ps rule: check_privs.induct) (auto simp: invalid_grant_def split: if_splits)
  have "Grant_Check g = Some e \<Longrightarrow> \<exists>fs. e = Errorf fs" for g
    by (auto simp: Grant_Check_def invalid_grant_def dest: privs split: if_splits)
  then have "check_grants_from paths want = Some e \<Longrightarrow> \<exists>fs. e = Errorf fs" for paths want
    by (induction paths want rule: check_grants_from.induct) (auto simp: invalid_grant_def split: option.splits if_splits)
  then show "CheckGrants want = Some e \<Longrightarrow> \<exists>fs. e = Errorf fs"
    by (auto simp: CheckGrants_def invalid_grant_def split: if_splits)
qed

text \<open>
  A request is accepted exactly when it names at least one grant, no two grants share a path, and
  every grant has a normalized ACL path, a role id, and, when it pins its privileges, a
  non-empty list of distinct privilege names.
\<close>

theorem CheckGrants_iff:
  "CheckGrants want = None \<longleftrightarrow> want \<noteq> [] \<and> list_all well_formed want \<and> distinct (map g_path want)"
  by (simp add: CheckGrants_def check_grants_from_None)

text \<open>
  What may account for a privilege at a path, as the sources describe it: a propagating grant at the
  path or at an ancestor; for a privilege without propagation also a grant at the path itself or, on
  a guest or storage path, a pool grant whose members, if they were resolved, hold the path.
\<close>

definition below :: "string \<Rightarrow> string \<Rightarrow> bool" where
  "below path ancestor \<longleftrightarrow>
     (ancestor = ''/'' \<and> path \<noteq> ''/'') \<or> (ancestor \<noteq> ''/'' \<and> (\<exists>rest. path = ancestor @ ''/'' @ rest))"

inductive sourced :: "row \<Rightarrow> string \<Rightarrow> string \<Rightarrow> bool \<Rightarrow> bool" for r where
  propagated: "priv \<in> set (r_privs r) \<Longrightarrow> g_propagate (r_grant r) \<Longrightarrow>
    path = g_path (r_grant r) \<or> below path (g_path (r_grant r)) \<Longrightarrow> sourced r path priv b"
| here: "priv \<in> set (r_privs r) \<Longrightarrow> path = g_path (r_grant r) \<Longrightarrow> sourced r path priv False"
| member: "priv \<in> set (r_privs r) \<Longrightarrow>
    (\<exists>pool. g_path (r_grant r) = ''/pool/'' @ pool) \<or> g_path (r_grant r) = ''/pool'' \<and> g_propagate (r_grant r) \<Longrightarrow>
    (\<exists>n. path = ''/vms/'' @ n) \<or> (\<exists>n. path = ''/storage/'' @ n) \<Longrightarrow>
    (\<And>ms. r_members r = Some ms \<Longrightarrow> path \<in> set ms) \<Longrightarrow> sourced r path priv False"

inductive_simps sourced_simps: "sourced r path priv True" "sourced r path priv False"

lemma under_below: "under path ancestor \<longleftrightarrow> below path ancestor"
  by (auto simp: under_def below_def strings_HasPrefix_def prefix_def)

lemma pool_path_iff:
  "pool_path g path \<longleftrightarrow>
     ((\<exists>pool. g_path g = ''/pool/'' @ pool) \<or> g_path g = ''/pool'' \<and> g_propagate g) \<and>
     ((\<exists>n. path = ''/vms/'' @ n) \<or> (\<exists>n. path = ''/storage/'' @ n))"
  by (auto simp: pool_path_def strings_HasPrefix_def prefix_def)

lemma confers_sourced: "confers r path priv b \<longleftrightarrow> sourced r path priv b"
proof (cases b)
  case True
  then show ?thesis
    by (auto simp: confers_def Let_def under_below sourced_simps)
next
  case False
  have "confers r path priv False \<longleftrightarrow> priv \<in> set (r_privs r) \<and>
      (path = g_path (r_grant r) \<or> g_propagate (r_grant r) \<and> below path (g_path (r_grant r)) \<or>
       pool_path (r_grant r) path \<and> (\<forall>ms. r_members r = Some ms \<longrightarrow> path \<in> set ms))"
    by (auto simp: confers_def Let_def under_below split: option.splits)
  also have "\<dots> \<longleftrightarrow> sourced r path priv False"
    unfolding pool_path_iff sourced_simps by simp blast
  finally show ?thesis using False by simp
qed

lemma conferred_sourced: "conferred rows path priv b \<longleftrightarrow> (\<exists>r \<in> set rows. sourced r path priv b)"
  by (auto simp: conferred_def list_ex_iff confers_sourced)

lemma unsourced_found:
  assumes "decodePermTree raw = Inr tree" and "(path, flags) \<in> set tree"
    and "unsourced_privs rows path (flags_at tree path) \<noteq> []"
  shows "\<exists>priv b. (priv, b) \<in> set flags \<and> (\<forall>r \<in> set rows. \<not> sourced r path priv b)"
proof -
  have "map_of tree path = Some flags"
    using decodePermTree_distinct(1) [OF assms(1)] assms(2) by (simp add: map_of_is_SomeI)
  then have at: "flags_at tree path = flags" by (simp add: flags_at_def)
  with assms(3) obtain priv where priv: "priv \<in> fst ` set flags"
    "\<not> conferred rows path priv (map_of flags priv = Some True)"
    by (auto simp: unsourced_privs_def filter_empty_conv)
  then obtain b where b: "(priv, b) \<in> set flags" by auto
  then have "map_of flags priv = Some b"
    using decodePermTree_distinct(2) [OF assms(1,2)] by (simp add: map_of_is_SomeI)
  with priv(2) b show ?thesis by (auto simp: conferred_sourced)
qed

lemma run_ValidateTokenGrants:
  assumes "run_state (ValidateTokenGrants env want) s = (r, s')"
    and "r = None \<or> (\<exists>fs. r = Some (vtg (Wrapped (Sentinel ErrScopeTooWide) # fs)))"
  shows "\<exists>es. log s' = log s @ es \<and> CheckGrants want = None \<and> valid_spec want r es"
proof (cases "CheckGrants want")
  case None
  from traces_runD [OF traces_ValidateTokenGrants [OF None] assms(1)] None show ?thesis by blast
next
  case (Some e)
  with assms(1) have "r = Some (vtg [Wrapped e])" by (simp add: ValidateTokenGrants_def)
  with assms(2) CheckGrants_Errorf [OF Some] show ?thesis by (auto simp: vtg_def)
qed

text \<open>
  C16: a validation that passes sent nothing but reads, and rests on PVE's own answers: the request is
  well formed; at every path of a non-empty permission tree that PVE answered, every privilege is
  conferred, with its propagation, by a requested grant (for a grant on a pool whose members were
  resolved, only on paths that one of two reads of the pool listed); and at every requested path
  PVE answered that every privilege of the grant is held, with propagation when the grant asks for
  it.  The privileges of a grant are the pinned ones or those PVE answered for its role.
\<close>

theorem ValidateTokenGrants_sound:
  assumes "run_state (ValidateTokenGrants env want) s = (None, s')"
  shows "\<exists>es rows tree. log s' = log s @ es \<and> list_all reads es \<and> CheckGrants want = None \<and>
     grounded want rows tree es \<and>
     (\<forall>path flags priv b. (path, flags) \<in> set tree \<longrightarrow> (priv, b) \<in> set flags \<longrightarrow>
        (\<exists>r \<in> set rows. sourced r path priv b)) \<and>
     (\<forall>x \<in> set rows. present x es)"
  using run_ValidateTokenGrants [OF assms] unfolding valid_spec_def conferred_sourced by simp blast

text \<open>
  C17: the verdict \<open>ErrScopeTooWide\<close> is never given without a violation: PVE's permission tree holds, at
  the path it names, privileges that no requested grant confers there, and when they would be
  conferred on a member of a requested pool, the object at the path was seen to exist.
\<close>

theorem ValidateTokenGrants_too_wide:
  assumes "run_state (ValidateTokenGrants env want) s = (Some (vtg (Wrapped (Sentinel ErrScopeTooWide) # fs)), s')"
  shows "\<exists>es rows tree path flags. log s' = log s @ es \<and> grounded want rows tree es \<and> (path, flags) \<in> set tree \<and>
     (\<exists>priv b. (priv, b) \<in> set flags \<and> (\<forall>r \<in> set rows. \<not> sourced r path priv b)) \<and>
     vtg (Wrapped (Sentinel ErrScopeTooWide) # fs) = too_wide path (unsourced_privs rows path (flags_at tree path)) \<and>
     (onlyMembership rows path (unsourced_privs rows path (flags_at tree path)) (flags_at tree path) \<longrightarrow>
        exists_shown path es)"
proof -
  from run_ValidateTokenGrants [OF assms] obtain es where "log s' = log s @ es"
    and valid: "valid_spec want (Some (vtg (Wrapped (Sentinel ErrScopeTooWide) # fs))) es" by auto
  then obtain rows tree path where ground: "grounded want rows tree es" and path: "path \<in> fst ` set tree"
    and bad: "violation rows tree path es"
    and e: "vtg (Wrapped (Sentinel ErrScopeTooWide) # fs) = too_wide path (unsourced_privs rows path (flags_at tree path))"
    using conjunct2 [OF conjunct2 [OF valid [unfolded valid_spec_def]], THEN spec [of _ fs], THEN mp [OF _ refl]]
    unfolding option.inject by blast
  from path obtain flags where "(path, flags) \<in> set tree" by auto
  moreover from ground obtain raw where "decodePermTree raw = Inr tree" by (auto simp: grounded_def tree_event_def)
  ultimately have "\<exists>priv b. (priv, b) \<in> set flags \<and> (\<forall>r \<in> set rows. \<not> sourced r path priv b)"
    using unsourced_found bad unfolding violation_def by blast
  with \<open>(path, flags) \<in> set tree\<close> \<open>log s' = log s @ es\<close> ground bad e show ?thesis unfolding violation_def by blast
qed

text \<open>
  A failure of the membership and existence reads never becomes a verdict: whatever the cause, a
  rejected credential or an HTTP answer included, the flattened error is \<open>ErrUnverifiableRead\<close> and
  no other sentinel, and carries no HTTP status; the other reads keep a rejected credential a
  rejected credential, and nothing else becomes one.
\<close>

theorem read_failures_classified:
  "(errors_Is (unverifiable what e) t \<longleftrightarrow> t = ErrUnverifiableRead) \<and>
   HTTPStatus (unverifiable what e) = None \<and>
   (errors_Is (readFailure what e) ErrNotAuthorized \<longleftrightarrow> errors_Is e ErrNotAuthorized)"
  by (auto simp: unverifiable_def vtg_def readFailure_def HTTPStatus_def go_error split: option.splits)

section \<open>A token with one grant\<close>

text \<open>PVE says that the token holds \<open>VM.Audit\<close> on VM 100, with propagation, and nothing on VM 101.\<close>

definition perm_answer :: "string \<Rightarrow> (string \<times> json) list \<Rightarrow> http_reply" where
  "perm_answer path flags = HAnswer 200 ''200 OK'' ''{..}'' (Some (JObj ''{..}'' [(''data'',
     JObj ''{..}'' [(path, JObj ''{..}'' flags)])]))"

definition grant_world :: env where
  "grant_world = calm\<lparr>e_http := (\<lambda>h m p f.
     if f = [(''path'', [''/vms/101''])] then perm_answer ''/vms/101'' [(''VM.Audit'', JNum ''0'')]
     else perm_answer ''/vms/100'' [(''VM.Audit'', JNum ''1'')])\<rparr>"

definition audit_grant :: "string \<Rightarrow> bool \<Rightarrow> grant" where
  "audit_grant path b = \<lparr>g_path = path, g_role = ''PVEAuditor'', g_propagate = b, g_privs = Some [''VM.Audit'']\<rparr>"

lemma audit_grants_ok:
  "CheckGrants [audit_grant ''/vms/100'' True] = None" "CheckGrants [audit_grant ''/vms/101'' False] = None"
  by code_simp+

lemma perm_answers:
  "raw_result (perm_answer ''/vms/100'' [(''VM.Audit'', JNum ''1'')]) = Inr (JObj ''{..}'' [(''/vms/100'', JObj ''{..}'' [(''VM.Audit'', JNum ''1'')])])"
  "decodePermTree (JObj ''{..}'' [(''/vms/100'', JObj ''{..}'' [(''VM.Audit'', JNum ''1'')])]) = Inr [(''/vms/100'', [(''VM.Audit'', True)])]"
  "path_answer ''/vms/100'' (JObj ''{..}'' [(''/vms/100'', JObj ''{..}'' [(''VM.Audit'', JNum ''1'')])]) = Inr [(''VM.Audit'', True)]"
  "raw_result (perm_answer ''/vms/101'' [(''VM.Audit'', JNum ''0'')]) = Inr (JObj ''{..}'' [(''/vms/101'', JObj ''{..}'' [(''VM.Audit'', JNum ''0'')])])"
  "path_answer ''/vms/101'' (JObj ''{..}'' [(''/vms/101'', JObj ''{..}'' [(''VM.Audit'', JNum ''0'')])]) = Inr [(''VM.Audit'', False)]"
  by code_simp+

lemma run_perms_world:
  "\<exists>s'. run_state (EffectivePermissions grant_world) s = (Inr [(''/vms/100'', [(''VM.Audit'', True)])], s')"
  "\<exists>s'. run_state (PathPermissions grant_world ''/vms/100'') s = (Inr [(''VM.Audit'', True)], s')"
  "\<exists>s'. run_state (PathPermissions grant_world ''/vms/101'') s = (Inr [(''VM.Audit'', False)], s')"
proof -
  have paths: "aclPathRE ''/vms/100''" "aclPathRE ''/vms/101''" by code_simp+
  show "\<exists>s'. run_state (EffectivePermissions grant_world) s = (Inr [(''/vms/100'', [(''VM.Audit'', True)])], s')"
    "\<exists>s'. run_state (PathPermissions grant_world ''/vms/100'') s = (Inr [(''VM.Audit'', True)], s')"
    "\<exists>s'. run_state (PathPermissions grant_world ''/vms/101'') s = (Inr [(''VM.Audit'', False)], s')"
    by (simp_all add: EffectivePermissions_def PathPermissions_def paths RawRequest_def strings_HasPrefix_def http_do_def
        run_perform grant_world_def perm_answers)
qed

lemma run_validate_ok: "\<exists>s'. run_state (ValidateTokenGrants grant_world [audit_grant ''/vms/100'' True]) s = (None, s')"
proof -
  obtain s1 where tree: "run_state (EffectivePermissions grant_world) s = (Inr [(''/vms/100'', [(''VM.Audit'', True)])], s1)"
    using run_perms_world(1) by blast
  let ?row = "\<lparr>r_grant = audit_grant ''/vms/100'' True, r_privs = [''VM.Audit''], r_members = None\<rparr>"
  have cands: "poolCandidates [?row] [(''/vms/100'', [(''VM.Audit'', True)])] = []"
    "unsourced_privs [?row] ''/vms/100'' [(''VM.Audit'', True)] = []" "wrong_scope ?row [(''VM.Audit'', True)] = None"
    by code_simp+
  obtain s2 where held: "run_state (PathPermissions grant_world ''/vms/100'') s1 = (Inr [(''VM.Audit'', True)], s2)"
    using run_perms_world(2) by blast
  have g: "g_privs (audit_grant ''/vms/100'' True) = Some [''VM.Audit'']" "g_path (audit_grant ''/vms/100'' True) = ''/vms/100''"
    by (simp_all add: audit_grant_def)
  show ?thesis
    by (simp add: ValidateTokenGrants_def audit_grants_ok tree g resolve_members_def cands gated_pools_def judge_def held
        verdict_def)
qed

lemma run_validate_wide:
  "\<exists>s'. run_state (ValidateTokenGrants grant_world [audit_grant ''/vms/101'' False]) s =
     (Some (too_wide ''/vms/100'' [''VM.Audit'']), s')"
proof -
  obtain s1 where tree: "run_state (EffectivePermissions grant_world) s = (Inr [(''/vms/100'', [(''VM.Audit'', True)])], s1)"
    using run_perms_world(1) by blast
  let ?row = "\<lparr>r_grant = audit_grant ''/vms/101'' False, r_privs = [''VM.Audit''], r_members = None\<rparr>"
  have cands: "poolCandidates [?row] [(''/vms/100'', [(''VM.Audit'', True)])] = []"
    "unsourced_privs [?row] ''/vms/100'' [(''VM.Audit'', True)] = [''VM.Audit'']"
    "onlyMembership [?row] ''/vms/100'' [''VM.Audit''] [(''VM.Audit'', True)] = False"
    by code_simp+
  obtain s2 where held: "run_state (PathPermissions grant_world ''/vms/101'') s1 = (Inr [(''VM.Audit'', False)], s2)"
    using run_perms_world(3) by blast
  have g: "g_privs (audit_grant ''/vms/101'' False) = Some [''VM.Audit'']" "g_path (audit_grant ''/vms/101'' False) = ''/vms/101''"
    by (simp_all add: audit_grant_def)
  show ?thesis
    by (simp add: ValidateTokenGrants_def audit_grants_ok tree g resolve_members_def cands gated_pools_def judge_def held
        verdict_def)
qed

theorem ValidateTokenGrants_sound_witness:
  "\<exists>es rows tree. grounded [audit_grant ''/vms/100'' True] rows tree es \<and> (\<forall>x \<in> set rows. present x es)"
proof -
  obtain s' where "run_state (ValidateTokenGrants grant_world [audit_grant ''/vms/100'' True]) fresh = (None, s')"
    using run_validate_ok by blast
  from ValidateTokenGrants_sound [OF this] show ?thesis by blast
qed

theorem ValidateTokenGrants_too_wide_witness:
  "\<exists>es rows tree path flags priv b. grounded [audit_grant ''/vms/101'' False] rows tree es \<and>
     (path, flags) \<in> set tree \<and> (priv, b) \<in> set flags \<and> (\<forall>r \<in> set rows. \<not> sourced r path priv b)"
proof -
  obtain s' where "run_state (ValidateTokenGrants grant_world [audit_grant ''/vms/101'' False]) fresh =
      (Some (too_wide ''/vms/100'' [''VM.Audit'']), s')" using run_validate_wide by blast
  from ValidateTokenGrants_too_wide [OF this [unfolded too_wide_def]] show ?thesis by blast
qed

end
