(* ===== verification/AccessGuard.thy ===== *)
theory AccessGuard
  imports GoPrelude
begin

text \<open>
  The guard in front of every HTTP request (\<open>internal/pve/client.go\<close>, \<open>accessWriteGuard\<close>): a request that
  would write PVE's \<open>/access\<close> API is refused before it leaves the process, however its path is spelled.
\<close>

section \<open>Paths\<close>

text \<open>\<open>url.PathUnescape\<close>: every percent sign must start an escape of two hexadecimal digits.\<close>

fun url_PathUnescape :: "string \<Rightarrow> string option" where
  "url_PathUnescape [] = Some []"
| "url_PathUnescape (c # cs) =
     (if c = CHR ''%'' then
        (case cs of
           a # b # rest \<Rightarrow>
             (case (hex_digit a, hex_digit b) of
                (Some x, Some y) \<Rightarrow> map_option ((#) (char_of (16 * x + y))) (url_PathUnescape rest)
              | _ \<Rightarrow> None)
         | _ \<Rightarrow> None)
      else map_option ((#) c) (url_PathUnescape cs))"

text \<open>\<open>path.Clean\<close> of a rooted path: its segments without empty ones and dots, each \<open>..\<close> undoing one.\<close>

fun clean_segments :: "string list \<Rightarrow> string list \<Rightarrow> string list" where
  "clean_segments out [] = rev out"
| "clean_segments out (w # ws) =
     (if w = [] \<or> w = ''.'' then clean_segments out ws
      else if w = ''..'' then clean_segments (tl out) ws
      else clean_segments (w # out) ws)"

definition path_Clean :: "string \<Rightarrow> string" where
  "path_Clean p = CHR ''/'' # strings_Join (clean_segments [] (strings_Split p CHR ''/'')) CHR ''/''"

fun api_access :: "string list \<Rightarrow> bool" where
  "api_access (a # b # c # ws) = (a = ''api2'' \<and> b \<noteq> [] \<and> c = ''access'' \<or> api_access (b # c # ws))"
| "api_access _ = False"

text \<open>\<open>accessPathRE\<close>, on the segments between the slashes of a path.\<close>

definition accessPathRE :: "string \<Rightarrow> bool" where
  "accessPathRE p =
     (let ws = strings_Split p CHR ''/'' in
      api_access ws \<or> (case ws of a # b # _ \<Rightarrow> a = [] \<and> b = ''access'' | _ \<Rightarrow> False))"

section \<open>The guard\<close>

record http_request =
  rq_method :: string
  rq_path :: string
  rq_escaped :: string

lemma unescape_shorter: "url_PathUnescape p = Some u \<Longrightarrow> u = p \<or> length u + 2 \<le> length p"
proof (induction p arbitrary: u rule: url_PathUnescape.induct)
  case (2 c cs)
  show ?case
  proof (cases "c = CHR ''%''")
    case True
    with "2.prems" obtain a b rest x y v where cs: "cs = a # b # rest" "hex_digit a = Some x" "hex_digit b = Some y"
      "url_PathUnescape rest = Some v" "u = char_of (16 * x + y) # v"
      by (auto split: list.splits option.splits)
    from "2.IH"(1) [OF True cs(1) refl refl cs(2) cs(3) cs(4)] cs show ?thesis by fastforce
  next
    case False
    with "2.prems" obtain v where "url_PathUnescape cs = Some v" "u = c # v" by auto
    with "2.IH"(2) [OF False] show ?thesis by fastforce
  qed
qed simp

text \<open>The candidates of the loop of \<open>isAccessWrite\<close>: it stops at a failure and at a text without escapes.\<close>

function unescapings :: "string \<Rightarrow> string list" where
  "unescapings p =
     (case url_PathUnescape p of
        None \<Rightarrow> []
      | Some u \<Rightarrow> if u = p then [] else u # unescapings u)"
  by auto
termination
  by (relation "measure length") (auto dest: unescape_shorter)

declare unescapings.simps [simp del]

definition isAccessWrite :: "http_request \<Rightarrow> bool" where
  "isAccessWrite req =
     (if rq_method req = ''GET'' \<or> rq_method req = ''HEAD'' then False
      else list_ex (\<lambda>p. accessPathRE (strings_ToLower (path_Clean (CHR ''/'' # p))))
             (rq_path req # rq_escaped req # unescapings (rq_escaped req)))"

datatype access_write_error = AccessWriteError string string

definition accessWriteGuard_RoundTrip ::
    "(http_request \<Rightarrow> 'h \<Rightarrow> 'a \<times> 'h) \<Rightarrow> http_request \<Rightarrow> 'h \<Rightarrow> (access_write_error + 'a) \<times> 'h" where
  "accessWriteGuard_RoundTrip next' req h =
     (if isAccessWrite req then (Inl (AccessWriteError (rq_method req) (rq_path req)), h)
      else case next' req h of (r, h') \<Rightarrow> (Inr r, h'))"

section \<open>What the guard decides\<close>

text \<open>What a text can be read as, by unescaping it any number of times.\<close>

inductive unescapes :: "string \<Rightarrow> string \<Rightarrow> bool" for p where
  itself: "unescapes p p"
| again: "unescapes p u \<Longrightarrow> url_PathUnescape u = Some v \<Longrightarrow> unescapes p v"

lemma unescapes_first: "url_PathUnescape p = Some u \<Longrightarrow> unescapes u v \<Longrightarrow> unescapes p v"
  by (rotate_tac 1, induction rule: unescapes.induct) (auto intro: unescapes.intros)

lemma in_unescapings:
  "u \<in> set (unescapings p) \<longleftrightarrow> (\<exists>v. url_PathUnescape p = Some v \<and> v \<noteq> p \<and> (u = v \<or> u \<in> set (unescapings v)))"
proof (cases "url_PathUnescape p")
  case (Some v)
  then have "unescapings p = (if v = p then [] else v # unescapings v)"
    by (simp only: unescapings.simps [of p] option.case)
  with Some show ?thesis by simp
qed (simp add: unescapings.simps [of p])

lemma unescapings_sound: "u \<in> set (unescapings p) \<Longrightarrow> unescapes p u"
proof (induction p rule: unescapings.induct)
  case (1 p)
  then obtain v where v: "url_PathUnescape p = Some v" "v \<noteq> p" "u = v \<or> u \<in> set (unescapings v)"
    unfolding in_unescapings [of u p] by blast
  with "1.IH" [OF v(1)] show ?case
    by (auto intro: unescapes_first [OF v(1)] unescapes.itself)
qed

lemma unescapings_complete: "unescapes p u \<Longrightarrow> u \<in> set (p # unescapings p)"
proof (induction rule: unescapes.induct)
  case (again u v)
  have "v \<in> set (q # unescapings q)" if "u \<in> set (q # unescapings q)" for q
    using that
  proof (induction q rule: unescapings.induct)
    case (1 q)
    show ?case
    proof (cases "u = q")
      case True
      with again.hyps(2) show ?thesis using in_unescapings [of v q] by auto
    next
      case False
      with "1.prems" obtain w where w: "url_PathUnescape q = Some w" "w \<noteq> q" "u \<in> set (w # unescapings w)"
        using in_unescapings [of u q] by auto
      from "1.IH" [OF w] w(1,2) show ?thesis using in_unescapings [of v q] by auto
    qed
  qed
  with again.IH show ?case by blast
qed simp

text \<open>
  C40: the loop of the guard ends, after at most half as many rounds as the path has bytes, because every
  round that changes the text shortens it by two bytes or more.
\<close>

theorem unescapings_bounded: "2 * length (unescapings p) \<le> length p"
proof (induction p rule: unescapings.induct)
  case (1 p)
  show ?case
  proof (cases "url_PathUnescape p")
    case (Some u)
    show ?thesis
    proof (cases "u = p")
      case False
      with Some have "unescapings p = u # unescapings u" by (simp only: unescapings.simps [of p] option.case if_False)
      with unescape_shorter [OF Some] "1.IH" [OF Some False] False show ?thesis by simp
    next
      case True
      with Some have "url_PathUnescape p = Some p" by simp
      then have "unescapings p = []" by (subst unescapings.simps) simp
      then show ?thesis by simp
    qed
  next
    case None
    then have "unescapings p = []" by (simp only: unescapings.simps [of p] option.case)
    then show ?thesis by simp
  qed
qed

text \<open>Where a path leads: its cleaned segments, lowered; and which of them address \<open>/access\<close>.\<close>

definition resolved :: "string \<Rightarrow> string list" where
  "resolved p = map strings_ToLower (clean_segments [] (strings_Split p CHR ''/''))"

definition addresses_access :: "string list \<Rightarrow> bool" where
  "addresses_access ws \<longleftrightarrow>
     prefix [''access''] ws \<or> (\<exists>pre x post. ws = pre @ [''api2'', x, ''access''] @ post)"

lemma clean_segments_plain:
  "w \<in> set (clean_segments out ws) \<Longrightarrow> w \<in> set out \<or> w \<in> set ws \<and> w \<noteq> [] \<and> w \<noteq> ''.'' \<and> w \<noteq> ''..''"
proof (induction out ws rule: clean_segments.induct)
  case (2 out w' ws)
  consider (skip) "w' = [] \<or> w' = ''.''" | (up) "w' = ''..''" | (keep) "w' \<noteq> []" "w' \<noteq> ''.''" "w' \<noteq> ''..''" by blast
  then show ?case
  proof cases
    case skip
    with 2 show ?thesis by auto
  next
    case up
    with "2.prems" have "w \<in> set (clean_segments (tl out) ws)" by simp
    with "2.IH"(2) up have "w \<in> set (tl out) \<or> w \<in> set ws \<and> w \<noteq> [] \<and> w \<noteq> ''.'' \<and> w \<noteq> ''..''" by simp
    moreover have "set (tl out) \<subseteq> set out" by (cases out) auto
    ultimately show ?thesis by auto
  next
    case keep
    with 2 show ?thesis by auto
  qed
qed simp

lemma api_access_iff:
  "api_access ws \<longleftrightarrow> (\<exists>pre x post. ws = pre @ [''api2'', x, ''access''] @ post \<and> x \<noteq> [])"
proof (induction ws rule: api_access.induct)
  case (1 a b c ws)
  show ?case
  proof
    assume "api_access (a # b # c # ws)"
    then consider "a = ''api2''" "b \<noteq> []" "c = ''access''" | "api_access (b # c # ws)" by auto
    then show "\<exists>pre x post. a # b # c # ws = pre @ [''api2'', x, ''access''] @ post \<and> x \<noteq> []"
    proof cases
      case 1
      then show ?thesis by (intro exI [of _ "[]"] exI [of _ b] exI [of _ ws]) simp
    next
      case 2
      with 1 obtain pre x post where "b # c # ws = pre @ [''api2'', x, ''access''] @ post" "x \<noteq> []" by blast
      then show ?thesis by (intro exI [of _ "a # pre"] exI [of _ x] exI [of _ post]) simp
    qed
  next
    assume "\<exists>pre x post. a # b # c # ws = pre @ [''api2'', x, ''access''] @ post \<and> x \<noteq> []"
    then obtain pre x post where e: "a # b # c # ws = pre @ [''api2'', x, ''access''] @ post" "x \<noteq> []" by blast
    show "api_access (a # b # c # ws)"
    proof (cases pre)
      case (Cons p ps)
      with e have "b # c # ws = ps @ [''api2'', x, ''access''] @ post" by simp
      with 1 e(2) have "api_access (b # c # ws)" by blast
      then show ?thesis by simp
    qed (use e in auto)
  qed
qed (auto simp: append_eq_Cons_conv)

lemma ascii_lower_slash: "ascii_lower c = CHR ''/'' \<longleftrightarrow> c = CHR ''/''"
proof (cases "CHR ''A'' \<le> c \<and> c \<le> CHR ''Z''")
  case True
  then have "65 \<le> (of_char c :: nat)" "(of_char c :: nat) \<le> 90" by (simp_all add: less_eq_char_def)
  then have "of_char (ascii_lower c) \<noteq> (47 :: nat)" "(of_char c :: nat) \<noteq> 47"
    using True by (auto simp: ascii_lower_def take_bit_eq_mod)
  then show ?thesis by auto
qed (auto simp: ascii_lower_def)

lemma ToLower_slash: "CHR ''/'' \<in> set (strings_ToLower w) \<longleftrightarrow> CHR ''/'' \<in> set w"
proof (induction w rule: strings_ToLower.induct)
  case (2 c w)
  have "CHR ''/'' \<in> set (drop 1 w) \<longleftrightarrow> CHR ''/'' \<in> set w" if "take 1 w = [CHR 0xB0]" using that by (cases w) auto
  moreover have "CHR ''/'' \<in> set (drop 2 w) \<longleftrightarrow> CHR ''/'' \<in> set w" if "take 2 w = [CHR 0x84, CHR 0xAA]"
    using that by (cases w; cases "tl w") auto
  ultimately show ?case using 2 by (auto simp: ascii_lower_slash eq_commute [of "CHR ''/''"])
qed simp

lemma ToLower_append_slash:
  "strings_ToLower (w @ CHR ''/'' # rest) = strings_ToLower w @ CHR ''/'' # strings_ToLower rest"
  using strings_ToLower_append [of "CHR ''/''" w rest] by (simp add: ascii_lower_def)

lemma ToLower_Join:
  "strings_ToLower (strings_Join ws CHR ''/'') = strings_Join (map strings_ToLower ws) CHR ''/''"
  by (induction ws rule: induct_list012) (simp_all add: ToLower_append_slash)

lemma resolved_words: "w \<in> set (resolved p) \<Longrightarrow> w \<noteq> [] \<and> CHR ''/'' \<notin> set w"
  unfolding resolved_def
  by (auto simp: strings_ToLower_Nil_iff ToLower_slash dest!: clean_segments_plain dest: strings_Split_words)

lemma lowered_path:
  "strings_ToLower (path_Clean p) = CHR ''/'' # strings_Join (resolved p) CHR ''/''"
  using ToLower_append_slash [of "[]"]
  by (simp add: path_Clean_def resolved_def ToLower_Join)

lemma lowered_segments:
  "strings_Split (strings_ToLower (path_Clean p)) CHR ''/'' = [] # (if resolved p = [] then [[]] else resolved p)"
proof (cases "resolved p = []")
  case False
  then have "strings_Split (strings_Join (resolved p) CHR ''/'') CHR ''/'' = resolved p"
    by (rule strings_Split_Join) (simp add: resolved_words)
  with False show ?thesis by (simp add: lowered_path)
qed (simp add: lowered_path)

lemma accessPathRE_iff: "accessPathRE (strings_ToLower (path_Clean p)) \<longleftrightarrow> addresses_access (resolved p)"
proof (cases "resolved p = []")
  case True
  then show ?thesis by (simp add: accessPathRE_def lowered_segments addresses_access_def)
next
  case False
  let ?ws = "resolved p"
  have "api_access ([] # ?ws) \<longleftrightarrow> api_access ?ws" by (cases ?ws rule: api_access.cases) auto
  moreover have "api_access ?ws \<longleftrightarrow> (\<exists>pre x post. ?ws = pre @ [''api2'', x, ''access''] @ post)"
    unfolding api_access_iff
  proof (intro iffI; elim exE)
    fix pre x post assume e: "?ws = pre @ [''api2'', x, ''access''] @ post"
    then have "x \<in> set ?ws" by simp
    with e show "\<exists>pre x post. ?ws = pre @ [''api2'', x, ''access''] @ post \<and> x \<noteq> []"
      using resolved_words [of x p] by blast
  qed blast
  moreover have "(case [] # ?ws of a # b # _ \<Rightarrow> a = [] \<and> b = ''access'' | _ \<Rightarrow> False) \<longleftrightarrow> prefix [''access''] ?ws"
    using False by (cases ?ws) auto
  ultimately show ?thesis using False
    by (auto simp: accessPathRE_def lowered_segments addresses_access_def Let_def)
qed

text \<open>
  What the guard refuses, exactly the requests that could write \<open>/access\<close>: the method is neither GET nor HEAD
  and the path, or what any number of unescapings makes of it, resolves (dots, doubled slashes and case aside)
  to \<open>/access\<close>, to \<open>/api2/<format>/access\<close> under any base, or below one.
\<close>

lemma isAccessWrite_writes:
  "isAccessWrite req \<longleftrightarrow>
     rq_method req \<notin> {''GET'', ''HEAD''} \<and>
     (\<exists>u. (u = rq_path req \<or> unescapes (rq_escaped req) u) \<and> addresses_access (resolved (CHR ''/'' # u)))"
proof -
  have "unescapes p u \<longleftrightarrow> u \<in> set (p # unescapings p)" for p u
    using unescapings_sound [of u p] unescapings_complete [of p u] by (auto intro: unescapes.itself)
  then show ?thesis
    by (auto simp: isAccessWrite_def accessPathRE_iff list_ex_iff)
qed

text \<open>
  C18: nothing reaches the transport below the guard for a request that writes \<open>/access\<close>, and every other
  request reaches it unchanged.
\<close>

theorem accessWriteGuard_blocks:
  "accessWriteGuard_RoundTrip next' req h =
     (if rq_method req \<notin> {''GET'', ''HEAD''} \<and>
         (\<exists>u. (u = rq_path req \<or> unescapes (rq_escaped req) u) \<and> addresses_access (resolved (CHR ''/'' # u)))
      then (Inl (AccessWriteError (rq_method req) (rq_path req)), h)
      else apfst Inr (next' req h))"
  unfolding accessWriteGuard_RoundTrip_def isAccessWrite_writes by (cases "next' req h") simp

end
