(* ===== verification/NotFound.thy ===== *)
theory NotFound
  imports JsonText PveClient
begin

text \<open>
  When PVE's answer says that an object does not exist (\<open>internal/pve/notfound.go\<close>): the rule for a fragment
  and the rule for a parameter, which reads PVE's parameter-verification map where there is one; and the two
  classifiers built on it, for interfaces (\<open>internal/idempotent/networkbridge.go\<close>) and storages
  (\<open>internal/pve/storage.go\<close>).  The regular expressions are matchers over the text: a \<open>\\s\<close> is one of five
  bytes, and a case-insensitive letter also matches the letter that folds to it (the long s, the Kelvin sign).
\<close>

section \<open>Matching text\<close>

definition missingPhrase :: string where
  "missingPhrase = ''does not exist''"

definition re_space :: "char \<Rightarrow> bool" where
  "re_space c \<longleftrightarrow> c \<in> {CHR 0x09, CHR 0x0A, CHR 0x0C, CHR 0x0D, CHR 0x20}"

definition re_word :: "char \<Rightarrow> bool" where
  "re_word c \<longleftrightarrow> is_alnum c \<or> c = CHR ''_''"

text \<open>What is left of a text after a lower-case ASCII literal, matched without regard to case.\<close>

fun strip_fold :: "string \<Rightarrow> string \<Rightarrow> string option" where
  "strip_fold [] t = Some t"
| "strip_fold (p # ps) t =
     (case t of
        [] \<Rightarrow> None
      | c # cs \<Rightarrow>
          if ascii_lower c = p then strip_fold ps cs
          else if p = CHR ''s'' \<and> take 2 t = [CHR 0xC5, CHR 0xBF] then strip_fold ps (drop 2 t)
          else if p = CHR ''k'' \<and> take 3 t = [CHR 0xE2, CHR 0x84, CHR 0xAA] then strip_fold ps (drop 3 t)
          else None)"

definition strip_exact :: "string \<Rightarrow> string \<Rightarrow> string option" where
  "strip_exact p t = (if prefix p t then Some (drop (length p) t) else None)"

text \<open>One space or more.\<close>

definition strip_spaces :: "string \<Rightarrow> string option" where
  "strip_spaces t = (case t of c # cs \<Rightarrow> if re_space c then Some (dropWhile re_space cs) else None | [] \<Rightarrow> None)"

text \<open>The names a text quotes: \<open>'([^']*)'|"([^"]*)"\<close>, all matches from the left.\<close>

function quoted_names :: "string \<Rightarrow> string list" where
  "quoted_names t =
     (case t of
        [] \<Rightarrow> []
      | c # cs \<Rightarrow>
          if (c = CHR 0x27 \<or> c = CHR 0x22) \<and> c \<in> set cs
          then takeWhile (\<lambda>x. x \<noteq> c) cs # quoted_names (tl (dropWhile (\<lambda>x. x \<noteq> c) cs))
          else quoted_names cs)"
  by auto
termination
proof (relation "measure length", goal_cases)
  case (2 t c cs)
  then show ?case using length_dropWhile_le [of "\<lambda>x. x \<noteq> c" cs] by (simp add: less_Suc_eq_le)
qed auto

declare quoted_names.simps [simp del]

section \<open>The parameter-verification map\<close>

text \<open>
  Decoding the document into a structure whose only field is the map \<open>errors\<close>: a name matches without regard
  to case, a second map adds to the first, a null empties it, anything else is an error.
\<close>

fun errors_field :: "(string \<times> json) list \<Rightarrow> json gomap option \<Rightarrow> json gomap option option" where
  "errors_field [] m = Some m"
| "errors_field ((k, j) # kvs) m =
     (if strip_fold ''errors'' k = Some [] then
        (case j of
           JNull \<Rightarrow> errors_field kvs None
         | JObj t es \<Rightarrow> errors_field kvs (Some (fold (\<lambda>(k, v) m. AList.update k v m) es (case m of None \<Rightarrow> [] | Some m \<Rightarrow> m)))
         | _ \<Rightarrow> None)
      else errors_field kvs m)"

definition text_entries :: "json gomap \<Rightarrow> string gomap" where
  "text_entries m = List.map_filter (\<lambda>(k, raw). map_option (\<lambda>s. (k, s)) (unmarshal_string raw)) m"

definition parameterErrors :: "string \<Rightarrow> string gomap \<times> bool" where
  "parameterErrors answer =
     (let body = dropWhile (\<lambda>c. c \<noteq> CHR 0x7B) answer;
          no_entries = ([], strings_Contains body ([CHR 0x22] @ ''errors'' @ [CHR 0x22]))
      in if body = [] then ([], False)
         else (case json_Decode body of
             Some (JObj t kvs) \<Rightarrow>
               (case errors_field kvs None of Some (Some m) \<Rightarrow> (text_entries m, True) | _ \<Rightarrow> no_entries)
           | _ \<Rightarrow> no_entries))"

section \<open>The rules\<close>

record subject =
  sb_fragment :: string
  sb_param :: string
  sb_name :: string
  sb_nouns :: "string list"

text \<open>\<open>(?i)^\\s*(?:(?:nouns)\\s+)?does not exist\\.?\\s*$\<close>\<close>

definition phrase_end :: "string \<Rightarrow> bool" where
  "phrase_end t =
     (case strip_fold missingPhrase t of
        None \<Rightarrow> False
      | Some u \<Rightarrow> list_all re_space (if take 1 u = ''.'' then drop 1 u else u))"

definition generic_missing :: "string list \<Rightarrow> string \<Rightarrow> bool" where
  "generic_missing nouns entry =
     (let t = dropWhile re_space entry in
      phrase_end t \<or>
      list_ex (\<lambda>n. case Option.bind (strip_fold n t) strip_spaces of None \<Rightarrow> False | Some u \<Rightarrow> phrase_end u) nouns)"

definition entryNamesTarget :: "string \<Rightarrow> subject \<Rightarrow> bool" where
  "entryNamesTarget entry s =
     (if \<not> strings_Contains (strings_ToLower entry) missingPhrase then False
      else if quoted_names entry = [] then generic_missing (sb_nouns s) entry
      else length (quoted_names entry) = 1 \<and> hd (quoted_names entry) = sb_name s)"

text \<open>\<open>(?i:\\b(?:nouns))\\s+(?:'name'|"name")\\s+(?i:does not exist)\<close>, starting at a given place.\<close>

definition names_missing_at :: "subject \<Rightarrow> string \<Rightarrow> bool" where
  "names_missing_at s t =
     list_ex (\<lambda>n. case Option.bind (strip_fold n t) strip_spaces of
         None \<Rightarrow> False
       | Some u \<Rightarrow> list_ex (\<lambda>q. case Option.bind (strip_exact ([q] @ sb_name s @ [q]) u) strip_spaces of
             None \<Rightarrow> False
           | Some v \<Rightarrow> strip_fold missingPhrase v \<noteq> None) [CHR 0x27, CHR 0x22]) (sb_nouns s)"

text \<open>Anywhere in the text, at the boundary of a word.\<close>

fun names_missing :: "subject \<Rightarrow> bool \<Rightarrow> string \<Rightarrow> bool" where
  "names_missing s in_word [] = False"
| "names_missing s in_word (c # cs) = (in_word \<noteq> re_word c \<and> names_missing_at s (c # cs) \<or> names_missing s (re_word c) cs)"

definition NotFound :: "gerror \<Rightarrow> subject \<Rightarrow> bool" where
  "NotFound e s =
     (case pveAnswer e of
        None \<Rightarrow> False
      | Some answer \<Rightarrow>
          if sb_fragment s \<noteq> [] then
            strings_Contains (strings_ToLower answer) (strings_ToLower (sb_fragment s)) \<and>
            strings_Contains (strings_ToLower answer) missingPhrase
          else if sb_param s \<noteq> [] \<and> sb_name s \<noteq> [] \<and> sb_nouns s \<noteq> [] then
            (case parameterErrors answer of
               (entries, structured) \<Rightarrow>
                 if structured
                 then entryNamesTarget (case map_of entries (sb_param s) of None \<Rightarrow> [] | Some t \<Rightarrow> t) s
                 else names_missing s False answer)
          else False)"

text \<open>The rule of a fragment alone, as the classifiers of VM answers use it.\<close>

lemma NotFound_fragment_rule:
  "NotFound e \<lparr>sb_fragment = f, sb_param = [], sb_name = [], sb_nouns = []\<rparr> = NotFound_fragment e f"
  by (auto simp: NotFound_def NotFound_fragment_def missingPhrase_def split: option.splits)

section \<open>Missing interfaces and storages\<close>

definition isMissingNetworkInterfaceError :: "gerror \<Rightarrow> string \<Rightarrow> bool" where
  "isMissingNetworkInterfaceError e iface =
     NotFound e \<lparr>sb_fragment = [], sb_param = ''iface'', sb_name = iface, sb_nouns = [''iface'', ''interface'']\<rparr>"

text \<open>\<open>(?i)\\bstorage '[^']*' does not exist\\b\<close>, at a given place and anywhere.\<close>

definition storage_missing_at :: "string \<Rightarrow> bool" where
  "storage_missing_at t =
     (case Option.bind (strip_fold ''storage'' t) (strip_exact [CHR 0x20, CHR 0x27]) of
        None \<Rightarrow> False
      | Some u \<Rightarrow>
          (case Option.bind (strip_exact [CHR 0x27, CHR 0x20] (dropWhile (\<lambda>c. c \<noteq> CHR 0x27) u)) (strip_fold missingPhrase) of
             None \<Rightarrow> False
           | Some v \<Rightarrow> (case v of [] \<Rightarrow> True | c # cs \<Rightarrow> \<not> re_word c)))"

fun storage_missing :: "bool \<Rightarrow> string \<Rightarrow> bool" where
  "storage_missing in_word [] = False"
| "storage_missing in_word (c # cs) = (in_word \<noteq> re_word c \<and> storage_missing_at (c # cs) \<or> storage_missing (re_word c) cs)"

definition IsStorageNotFoundError :: "gerror \<Rightarrow> bool" where
  "IsStorageNotFoundError e =
     (case pveAnswer e of
        None \<Rightarrow> False
      | Some answer \<Rightarrow>
          (case parameterErrors answer of
             (entries, structured) \<Rightarrow>
               structured \<and>
               strings_TrimSuffix (strings_TrimSpace (strings_ToLower
                 (case map_of entries ''storage'' of None \<Rightarrow> [] | Some t \<Rightarrow> t))) ''.'' = ''no such storage'' \<or>
               storage_missing False answer))"

section \<open>What counts as missing\<close>

lemma ascii_lower_lead: "ascii_lower CHR 0xC5 = CHR 0xC5" "ascii_lower CHR 0xE2 = CHR 0xE2"
  by code_simp+

lemma strip_fold_split: "strip_fold p t = Some r \<Longrightarrow> \<exists>m. t = m @ r \<and> strip_fold p m = Some []"
proof (induction p t arbitrary: r rule: strip_fold.induct)
  case (2 p ps t)
  then obtain c cs where t: "t = c # cs" by (cases t) auto
  consider (same) "ascii_lower c = p" | (s) "ascii_lower c \<noteq> p" "p = CHR ''s''" "take 2 t = [CHR 0xC5, CHR 0xBF]"
    | (k) "ascii_lower c \<noteq> p" "p = CHR ''k''" "take 3 t = [CHR 0xE2, CHR 0x84, CHR 0xAA]"
    using "2.prems" t by (auto split: if_splits)
  then show ?case
  proof cases
    case same
    with "2.prems" t "2.IH"(1) [OF t same] obtain m where "cs = m @ r" "strip_fold ps m = Some []" by auto
    with t same show ?thesis by (intro exI [of _ "c # m"]) simp
  next
    case s
    then obtain rest where rest: "t = CHR 0xC5 # CHR 0xBF # rest" by (cases t; cases "tl t") auto
    with "2.prems" s "2.IH"(2) [OF t s(1) conjI [OF s(2,3)]] obtain m where "rest = m @ r" "strip_fold ps m = Some []"
      by (auto simp: ascii_lower_lead)
    with s rest t show ?thesis by (intro exI [of _ "CHR 0xC5 # CHR 0xBF # m"]) (auto simp: ascii_lower_lead)
  next
    case k
    then obtain rest where rest: "t = CHR 0xE2 # CHR 0x84 # CHR 0xAA # rest"
      by (cases t; cases "tl t"; cases "tl (tl t)") auto
    with "2.prems" k "2.IH"(3) [OF t k(1) _ conjI [OF k(2,3)]] obtain m where "rest = m @ r" "strip_fold ps m = Some []"
      by (auto simp: ascii_lower_lead)
    with k rest t show ?thesis by (intro exI [of _ "CHR 0xE2 # CHR 0x84 # CHR 0xAA # m"]) (auto simp: ascii_lower_lead)
  qed
qed auto

lemma strip_spaces_split:
  "strip_spaces t = Some r \<Longrightarrow> \<exists>m. t = m @ r \<and> m \<noteq> [] \<and> list_all re_space m"
proof -
  assume "strip_spaces t = Some r"
  then obtain c cs where "t = c # cs" "re_space c" "r = dropWhile re_space cs"
    by (auto simp: strip_spaces_def split: list.splits if_splits)
  then show ?thesis
    by (intro exI [of _ "c # takeWhile re_space cs"]) (auto simp: list_all_iff dest: set_takeWhileD)
qed

lemma strip_exact_split: "strip_exact p t = Some r \<longleftrightarrow> t = p @ r"
  by (auto simp: strip_exact_def prefix_def)

text \<open>A noun, the quoted name and the phrase, in this order and with nothing but spaces between them.\<close>

definition says_missing :: "string list \<Rightarrow> string \<Rightarrow> string \<Rightarrow> bool" where
  "says_missing nouns name t \<longleftrightarrow>
     (\<exists>pre n noun sp q sp' phrase post.
        t = pre @ noun @ sp @ [q] @ name @ [q] @ sp' @ phrase @ post \<and> n \<in> set nouns \<and> strip_fold n noun = Some [] \<and>
        sp \<noteq> [] \<and> list_all re_space sp \<and> q \<in> {CHR 0x27, CHR 0x22} \<and> sp' \<noteq> [] \<and> list_all re_space sp' \<and>
        strip_fold missingPhrase phrase = Some [])"

lemma names_missing_at_sound:
  assumes "names_missing_at s t"
  shows "says_missing (sb_nouns s) (sb_name s) t"
proof -
  from assms obtain n where n: "n \<in> set (sb_nouns s)"
    and body: "case Option.bind (strip_fold n t) strip_spaces of
         None \<Rightarrow> False
       | Some u \<Rightarrow> list_ex (\<lambda>q. case Option.bind (strip_exact ([q] @ sb_name s @ [q]) u) strip_spaces of
             None \<Rightarrow> False
           | Some v \<Rightarrow> strip_fold missingPhrase v \<noteq> None) [CHR 0x27, CHR 0x22]"
    unfolding names_missing_at_def list_ex_iff by blast
  from body obtain u where u: "Option.bind (strip_fold n t) strip_spaces = Some u"
    by (cases "Option.bind (strip_fold n t) strip_spaces") auto
  with body obtain q where q: "q \<in> {CHR 0x27, CHR 0x22}"
    and quoted: "case Option.bind (strip_exact ([q] @ sb_name s @ [q]) u) strip_spaces of
        None \<Rightarrow> False | Some v \<Rightarrow> strip_fold missingPhrase v \<noteq> None" by auto
  from quoted obtain v where v: "Option.bind (strip_exact ([q] @ sb_name s @ [q]) u) strip_spaces = Some v"
      "strip_fold missingPhrase v \<noteq> None"
    by (cases "Option.bind (strip_exact ([q] @ sb_name s @ [q]) u) strip_spaces") auto
  from u obtain r where r: "strip_fold n t = Some r" "strip_spaces r = Some u" by (cases "strip_fold n t") auto
  from v obtain r' where r': "strip_exact ([q] @ sb_name s @ [q]) u = Some r'" "strip_spaces r' = Some v"
    by (cases "strip_exact ([q] @ sb_name s @ [q]) u") auto
  from v(2) obtain post where post: "strip_fold missingPhrase v = Some post" by blast
  from strip_fold_split [OF r(1)] obtain noun where noun: "t = noun @ r" "strip_fold n noun = Some []" by blast
  from strip_spaces_split [OF r(2)] obtain sp where sp: "r = sp @ u" "sp \<noteq> []" "list_all re_space sp" by blast
  from strip_spaces_split [OF r'(2)] obtain sp' where sp': "r' = sp' @ v" "sp' \<noteq> []" "list_all re_space sp'" by blast
  from strip_fold_split [OF post] obtain phrase where phrase: "v = phrase @ post" "strip_fold missingPhrase phrase = Some []" by blast
  have "t = [] @ noun @ sp @ [q] @ sb_name s @ [q] @ sp' @ phrase @ post"
    using noun(1) sp(1) r'(1) [unfolded strip_exact_split] sp'(1) phrase(1) by simp
  with n noun(2) sp(2,3) q sp'(2,3) phrase(2) show ?thesis unfolding says_missing_def by blast
qed

lemma says_missing_Cons: "says_missing nouns name t \<Longrightarrow> says_missing nouns name (c # t)"
  unfolding says_missing_def by (metis append_Cons)

lemma names_missing_sound: "names_missing s w t \<Longrightarrow> says_missing (sb_nouns s) (sb_name s) t"
  by (induction s w t rule: names_missing.induct) (auto intro: says_missing_Cons names_missing_at_sound)

text \<open>
  An error counts as "this interface does not exist" only when PVE answered, and its answer says so of
  this very name: its parameter map has an entry for the interface that carries the phrase and quotes no
  other name, or, without such a map, it names the interface in quotes right before the phrase.
\<close>

theorem isMissingNetworkInterfaceError_sound:
  assumes "isMissingNetworkInterfaceError e iface"
  shows "\<exists>answer. pveAnswer e = Some answer \<and> iface \<noteq> [] \<and>
     (if snd (parameterErrors answer) then
        (\<exists>entry. map_of (fst (parameterErrors answer)) ''iface'' = Some entry \<and>
           strings_Contains (strings_ToLower entry) ''does not exist'' \<and> set (quoted_names entry) \<subseteq> {iface})
      else says_missing [''iface'', ''interface''] iface answer)"
proof -
  let ?s = "\<lparr>sb_fragment = [], sb_param = ''iface'', sb_name = iface, sb_nouns = [''iface'', ''interface'']\<rparr>"
  from assms obtain answer where answer: "pveAnswer e = Some answer" "iface \<noteq> []"
    and match: "if snd (parameterErrors answer)
      then entryNamesTarget (case map_of (fst (parameterErrors answer)) ''iface'' of None \<Rightarrow> [] | Some t \<Rightarrow> t) ?s
      else names_missing ?s False answer"
    by (auto simp: isMissingNetworkInterfaceError_def NotFound_def split: option.splits prod.splits if_splits)
  have "\<exists>entry. map_of (fst (parameterErrors answer)) ''iface'' = Some entry \<and>
      strings_Contains (strings_ToLower entry) ''does not exist'' \<and> set (quoted_names entry) \<subseteq> {iface}"
    if structured: "snd (parameterErrors answer)"
  proof (cases "map_of (fst (parameterErrors answer)) ''iface''")
    case None
    with match structured show ?thesis by (simp add: entryNamesTarget_def strings_Contains_def missingPhrase_def)
  next
    case (Some entry)
    with match structured have "strings_Contains (strings_ToLower entry) missingPhrase"
      "quoted_names entry = [] \<or> quoted_names entry = [iface]"
      by (auto simp: entryNamesTarget_def length_Suc_conv split: if_splits)
    with Some show ?thesis by (auto simp: missingPhrase_def)
  qed
  with answer match names_missing_sound [of ?s False answer] show ?thesis by auto
qed

theorem isMissingNetworkInterfaceError_sound_witness:
  "\<exists>answer. pveAnswer (NewStatusError ''raw request'' 400 ''400 Bad Request''
       ''{\"errors\":{\"iface\":\"interface does not exist\"},\"data\":null}'') = Some answer \<and> snd (parameterErrors answer)"
proof -
  let ?e = "NewStatusError ''raw request'' 400 ''400 Bad Request''
       ''{\"errors\":{\"iface\":\"interface does not exist\"},\"data\":null}''"
  have "isMissingNetworkInterfaceError ?e ''vmbr1''" by code_simp
  from isMissingNetworkInterfaceError_sound [OF this] obtain answer where "pveAnswer ?e = Some answer" by blast
  moreover have "map_option (snd \<circ> parameterErrors) (pveAnswer ?e) = Some True" by code_simp
  ultimately show ?thesis by auto
qed

lemma missing_examples:
  "\<not> isMissingNetworkInterfaceError (NewStatusError ''raw request'' 400 ''400 Bad Request''
       ''{\"errors\":{\"iface\":\"interface 'vmbr10' does not exist\"},\"data\":null}'') ''vmbr1''"
  "\<not> isMissingNetworkInterfaceError (URLError ''interface 'vmbr1' does not exist'') ''vmbr1''"
  "isMissingNetworkInterfaceError (NewStatusError ''raw request'' 500 ''500 Interface 'vmbr1' does not exist'' ''null'') ''vmbr1''"
  by code_simp+

end
