(* ===== verification/LinkLayer.thy ===== *)
theory LinkLayer
  imports NotFound Routed
begin

text \<open>
  Network links over the standing SSH connection: the kernel state of a link and of a tap
  (\<open>internal/sshexec/linkstate.go\<close>, \<open>bridgelink.go\<close>) and the routed calls around them (\<open>internal/pve/routed.go\<close>).
  The commands that ask for a state are queries, the one that sets a flag is a command.
\<close>

section \<open>Answers of the commands\<close>

record link_state =
  lk_exists :: bool
  lk_up :: bool

record tap_link_state =
  tp_exists :: bool
  tp_isolated :: bool

definition absent_link :: link_state where
  "absent_link = \<lparr>lk_exists = False, lk_up = False\<rparr>"

definition absent_tap :: tap_link_state where
  "absent_tap = \<lparr>tp_exists = False, tp_isolated = False\<rparr>"

definition linkDoesNotExistSubstring :: string where
  "linkDoesNotExistSubstring = ''does not exist''"

definition tapDoesNotExistSubstring :: string where
  "tapDoesNotExistSubstring = ''does not exist''"

record ip_link_entry =
  ip_ifname :: string
  ip_operstate :: string
  ip_flags :: "string list"

record bridge_link_entry =
  br_ifname :: string
  br_isolated :: bool

text \<open>A field of a structure matches a name without regard to case; \<open>null\<close> leaves a text or a flag as it is.\<close>

definition names_field :: "string \<Rightarrow> string \<Rightarrow> bool" where
  "names_field name k \<longleftrightarrow> strip_fold name k = Some []"

definition unmarshal_text :: "string \<Rightarrow> json \<Rightarrow> string option" where
  "unmarshal_text old j = (case j of JStr s \<Rightarrow> Some s | JNull \<Rightarrow> Some old | _ \<Rightarrow> None)"

definition unmarshal_bool :: "bool \<Rightarrow> json \<Rightarrow> bool option" where
  "unmarshal_bool old j = (case j of JBool b \<Rightarrow> Some b | JNull \<Rightarrow> Some old | _ \<Rightarrow> None)"

definition unmarshal_strings :: "json \<Rightarrow> string list option" where
  "unmarshal_strings j = (case j of JArr t xs \<Rightarrow> those (map unmarshal_string xs) | JNull \<Rightarrow> Some [] | _ \<Rightarrow> None)"

fun ip_link_fields :: "(string \<times> json) list \<Rightarrow> ip_link_entry \<Rightarrow> ip_link_entry option" where
  "ip_link_fields [] e = Some e"
| "ip_link_fields ((k, j) # kvs) e =
     Option.bind
       (if names_field ''ifname'' k then map_option (\<lambda>s. e\<lparr>ip_ifname := s\<rparr>) (unmarshal_text (ip_ifname e) j)
        else if names_field ''operstate'' k then map_option (\<lambda>s. e\<lparr>ip_operstate := s\<rparr>) (unmarshal_text (ip_operstate e) j)
        else if names_field ''flags'' k then map_option (\<lambda>fs. e\<lparr>ip_flags := fs\<rparr>) (unmarshal_strings j)
        else Some e)
       (ip_link_fields kvs)"

fun bridge_link_fields :: "(string \<times> json) list \<Rightarrow> bridge_link_entry \<Rightarrow> bridge_link_entry option" where
  "bridge_link_fields [] e = Some e"
| "bridge_link_fields ((k, j) # kvs) e =
     Option.bind
       (if names_field ''ifname'' k then map_option (\<lambda>s. e\<lparr>br_ifname := s\<rparr>) (unmarshal_text (br_ifname e) j)
        else if names_field ''isolated'' k then map_option (\<lambda>b. e\<lparr>br_isolated := b\<rparr>) (unmarshal_bool (br_isolated e) j)
        else Some e)
       (bridge_link_fields kvs)"

text \<open>A list of structures; \<open>null\<close> is the zero structure as an element, and the empty list as the list.\<close>

definition decode_structs :: "((string \<times> json) list \<Rightarrow> 'e \<Rightarrow> 'e option) \<Rightarrow> 'e \<Rightarrow> json option \<Rightarrow> 'e list option" where
  "decode_structs fill zero doc =
     (case doc of
        Some (JArr t xs) \<Rightarrow>
          those (map (\<lambda>j. case j of JNull \<Rightarrow> Some zero | JObj t kvs \<Rightarrow> fill kvs zero | _ \<Rightarrow> None) xs)
      | Some JNull \<Rightarrow> Some []
      | _ \<Rightarrow> None)"

section \<open>The commands\<close>

definition link_command :: "string \<Rightarrow> string" where
  "link_command iface = ''ip -j link show dev '' @ ShellQuote iface"

definition tap_command :: "string \<Rightarrow> string" where
  "tap_command tap = ''bridge -j link show dev '' @ ShellQuote tap"

definition isolate_command :: "string \<Rightarrow> bool \<Rightarrow> string" where
  "isolate_command tap isolated =
     ''bridge link set dev '' @ ShellQuote tap @ '' isolated '' @ (if isolated then ''on'' else ''off'')"

text \<open>A link is up when its state or one of its flags says so.\<close>

definition link_of_entry :: "ip_link_entry \<Rightarrow> link_state" where
  "link_of_entry e =
     \<lparr>lk_exists = True,
      lk_up = (strings_EqualFold (ip_operstate e) ''UP'' \<or> list_ex (\<lambda>f. strings_EqualFold f ''UP'') (ip_flags e))\<rparr>"

definition link_answer :: "string \<Rightarrow> gerror + ssh_result \<Rightarrow> gerror + link_state" where
  "link_answer iface r =
     (let what = [Lit ''link state for '', Lit iface, Lit '': ''] in
      case r of
        Inl e \<Rightarrow> Inl (Errorf (what @ [Wrapped e]))
      | Inr res \<Rightarrow>
          if sr_exit res \<noteq> 0 then
            (if strings_Contains (sr_stderr res) linkDoesNotExistSubstring then Inr absent_link
             else Inl (Errorf (what @ [Lit ''ip exited '', Dec (sr_exit res), Lit '': '', Lit (sr_stderr res)])))
          else (case decode_structs ip_link_fields \<lparr>ip_ifname = [], ip_operstate = [], ip_flags = []\<rparr>
                  (json_Unmarshal (sr_stdout res)) of
              None \<Rightarrow> Inl (Errorf (what @ [Lit ''parse ip output: '', Wrapped json_type_error]))
            | Some [] \<Rightarrow> Inr absent_link
            | Some (e # es) \<Rightarrow> Inr (link_of_entry e)))"

definition Ssh_LinkState :: "env \<Rightarrow> string \<Rightarrow> ('r sess_scheme, gerror + link_state) state" where
  "Ssh_LinkState env iface =
     (if iface = [] then ret (Inl (ErrorString ''link state: interface name is required''))
      else do { r \<leftarrow> ssh_query env (link_command iface); ret (link_answer iface r) })"

definition TapDeviceName :: "int \<Rightarrow> int \<Rightarrow> string" where
  "TapDeviceName vmid netIndex = ''tap'' @ strconv_Itoa vmid @ ''i'' @ strconv_Itoa netIndex"

definition tap_answer :: "string \<Rightarrow> gerror + ssh_result \<Rightarrow> gerror + tap_link_state" where
  "tap_answer tap r =
     (let what = [Lit ''tap link state for '', Lit tap, Lit '': ''] in
      case r of
        Inl e \<Rightarrow> Inl (Errorf (what @ [Wrapped e]))
      | Inr res \<Rightarrow>
          if sr_exit res \<noteq> 0 then
            (if strings_Contains (sr_stderr res) tapDoesNotExistSubstring then Inr absent_tap
             else Inl (Errorf (what @ [Lit ''bridge exited '', Dec (sr_exit res), Lit '': '', Lit (sr_stderr res)])))
          else (case decode_structs bridge_link_fields \<lparr>br_ifname = [], br_isolated = False\<rparr>
                  (json_Unmarshal (sr_stdout res)) of
              None \<Rightarrow> Inl (Errorf (what @ [Lit ''parse bridge output: '', Wrapped json_type_error]))
            | Some [] \<Rightarrow> Inr absent_tap
            | Some (e # es) \<Rightarrow> Inr \<lparr>tp_exists = True, tp_isolated = br_isolated e\<rparr>))"

definition Ssh_TapLinkState :: "env \<Rightarrow> string \<Rightarrow> ('r sess_scheme, gerror + tap_link_state) state" where
  "Ssh_TapLinkState env tap =
     (if tap = [] then ret (Inl (ErrorString ''tap link state: tap device name is required''))
      else do { r \<leftarrow> ssh_query env (tap_command tap); ret (tap_answer tap r) })"

definition isolate_answer :: "string \<Rightarrow> gerror + ssh_result \<Rightarrow> gerror + unit" where
  "isolate_answer tap r =
     (let what = [Lit ''set bridge port isolated for '', Lit tap, Lit '': ''] in
      case r of
        Inl e \<Rightarrow> Inl (Errorf (what @ [Wrapped e]))
      | Inr res \<Rightarrow>
          if sr_exit res \<noteq> 0 then Inl (Errorf (what @ [Lit ''bridge exited '', Dec (sr_exit res), Lit '': '', Lit (sr_stderr res)]))
          else Inr ())"

definition Ssh_SetBridgePortIsolated :: "env \<Rightarrow> string \<Rightarrow> bool \<Rightarrow> ('r sess_scheme, gerror + unit) state" where
  "Ssh_SetBridgePortIsolated env tap isolated =
     (if tap = [] then ret (Inl (ErrorString ''set bridge port isolated: tap device name is required''))
      else do { r \<leftarrow> ssh_run env (isolate_command tap isolated); ret (isolate_answer tap r) })"

section \<open>The routed calls\<close>

definition withSSH :: "env \<Rightarrow> target \<Rightarrow> ('r sess_scheme, gerror + 'a) state \<Rightarrow> ('r sess_scheme, gerror + 'a) state" where
  "withSSH env t fn = do {
     opened \<leftarrow> get_ssh_open;
     dialled \<leftarrow> (if opened then ret None else dialSSH env t);
     case dialled of
       Some e \<Rightarrow> ret (Inl e)
     | None \<Rightarrow> do {
         r \<leftarrow> fn;
         case r of
           Inr x \<Rightarrow> ret (Inr x)
         | Inl e \<Rightarrow> do {
             healthy \<leftarrow> ssh_probe env;
             _ \<leftarrow> (if healthy then ret () else set_ssh_open False);
             ret (Inl e)
           }
       }
   }"

definition LinkState :: "env \<Rightarrow> target \<Rightarrow> string \<Rightarrow> ('r sess_scheme, gerror + link_state) state" where
  "LinkState env t iface = withSSH env t (Ssh_LinkState env iface)"

definition TapLinkState :: "env \<Rightarrow> target \<Rightarrow> string \<Rightarrow> ('r sess_scheme, gerror + tap_link_state) state" where
  "TapLinkState env t tap = withSSH env t (Ssh_TapLinkState env tap)"

definition SetBridgePortIsolated :: "env \<Rightarrow> target \<Rightarrow> string \<Rightarrow> bool \<Rightarrow> ('r sess_scheme, gerror + unit) state" where
  "SetBridgePortIsolated env t tap isolated = withSSH env t (Ssh_SetBridgePortIsolated env tap isolated)"

section \<open>What the calls do on the wire\<close>

lemma emits_withSSH:
  "emits P fn \<Longrightarrow> (\<And>e. reads e \<Longrightarrow> P e) \<Longrightarrow> emits P (withSSH env t fn)"
  unfolding withSSH_def
  by (intro emits_intro) (auto intro: emits_mono [OF emits_dialSSH] emits_mono [OF emits_ssh_probe])

lemma frames_withSSH [frames_intro]: "frames fn \<Longrightarrow> frames (withSSH env t fn)"
  unfolding withSSH_def by (intro frames_intro) auto

lemma emits_link_reads [emits_intro]:
  "emits reads (LinkState env t iface)" "emits reads (TapLinkState env t tap)"
  unfolding LinkState_def TapLinkState_def Ssh_LinkState_def Ssh_TapLinkState_def
  by (intro emits_withSSH emits_intro; assumption)+

lemma frames_link [frames_intro]:
  "frames (LinkState env t iface)" "frames (TapLinkState env t tap)" "frames (SetBridgePortIsolated env t tap b)"
  unfolding LinkState_def TapLinkState_def SetBridgePortIsolated_def Ssh_LinkState_def Ssh_TapLinkState_def
    Ssh_SetBridgePortIsolated_def
  by (intro frames_intro)+

text \<open>A call that succeeds over SSH: it ran, perhaps after a dial, and nothing came after it.\<close>

lemma traces_withSSH_ok:
  assumes "traces fn T"
  shows "traces (withSSH env t fn)
     (\<lambda>r es. \<forall>x. r = Inr x \<longrightarrow> (\<exists>pre fs. es = pre @ fs \<and> list_all reads pre \<and> T (Inr x) fs))"
proof -
  have opened: "traces get_ssh_open (\<lambda>_ es. es = [])" by (simp add: traces_def get_ssh_open_def)
  have dial: "traces (if b then ret None else dialSSH env t) (\<lambda>_ es. list_all reads es)" for b
    using emits_dialSSH [of env t] by (auto intro: traces_return simp: emits_def)
  have probe: "traces (ssh_probe env) (\<lambda>_ es. True)" by (simp add: ssh_probe_def traces_perform)
  have close: "traces (if h then ret () else set_ssh_open False) (\<lambda>_ es. True)" for h
    by (simp add: traces_def set_ssh_open_def)
  show ?thesis
    unfolding withSSH_def
    by (intro traces_bind [OF opened] traces_bind [OF dial] traces_case_option traces_return
        traces_bind [OF assms] traces_case_sum traces_bind [OF probe] traces_bind [OF close]) auto
qed

lemma traces_LinkState_ok:
  "traces (LinkState env t iface)
     (\<lambda>r es. list_all reads es \<and>
        (\<forall>x. r = Inr x \<longrightarrow> (\<exists>a. EQuery (link_command iface) a \<in> set es \<and> link_answer iface a = Inr x)))"
proof -
  have "traces (Ssh_LinkState env iface :: ('b sess_scheme, _) state)
      (\<lambda>r es. \<forall>x. r = Inr x \<longrightarrow> (\<exists>a. EQuery (link_command iface) a \<in> set es \<and> link_answer iface a = Inr x))"
    unfolding Ssh_LinkState_def ssh_query_def
    by (rule traces_if; (rule traces_return | rule traces_bind [OF traces_perform [where T = "\<lambda>x es. es = [EQuery (link_command iface) x]"]])) (auto intro: traces_return)
  from traces_conj [OF traces_withSSH_ok [OF this] emits_link_reads(1) [unfolded LinkState_def]]
  show ?thesis unfolding LinkState_def by (rule traces_mono) fastforce
qed

end
