(* ===== verification/NetStage.thy ===== *)
theory NetStage
  imports LinkLayer KvJson Engine
begin

text \<open>
  The staged network changes of a node (\<open>internal/idempotent/networkbridge.go\<close>): a change is staged by one
  request, all staged changes of the node are committed by another and discarded by a third.  This theory
  holds the calls that the network operations share, the abstract transaction that their \<open>Apply\<close> is, and
  what follows for a whole run, proved once for every operation that is such a transaction.
\<close>

section \<open>The shared calls\<close>

definition network_path :: "string \<Rightarrow> string" where
  "network_path node = ''/nodes/'' @ url_PathEscape node @ ''/network''"

definition iface_path :: "string \<Rightarrow> string \<Rightarrow> string" where
  "iface_path node iface = network_path node @ ''/'' @ url_PathEscape iface"

text \<open>What a read of one interface makes of the answer: none when PVE says that it does not exist.\<close>

definition interface_answer :: "string \<Rightarrow> gerror + json \<Rightarrow> gerror + json gomap option" where
  "interface_answer iface r =
     (case r of
        Inl e \<Rightarrow> if isMissingNetworkInterfaceError e iface then Inr None else Inl e
      | Inr raw \<Rightarrow>
          if strings_TrimSpace (raw_text raw) = ''null'' then
            Inl (Errorf [Lit ''interface '', Lit iface, Lit '': '', Wrapped (Sentinel ErrUnverifiableRead), Lit '': payload was null''])
          else (case unmarshal_map raw of
              None \<Rightarrow> Inl (Errorf [Lit ''parse: '', Wrapped json_type_error])
            | Some (notnil, m) \<Rightarrow> Inr (Some m)))"

definition fetchInterface :: "env \<Rightarrow> string \<Rightarrow> string \<Rightarrow> ('r sess_scheme, gerror + json gomap option) state" where
  "fetchInterface env node iface = do {
     r \<leftarrow> RawRequest env GET (iface_path node iface) [];
     ret (interface_answer iface r)
   }"

text \<open>Decoding into \<open>[]map[string]json.RawMessage\<close>; a \<open>null\<close> element is a nil map.\<close>

definition decode_maps :: "json \<Rightarrow> json gomap list option" where
  "decode_maps raw =
     (case raw of
        JNull \<Rightarrow> Some []
      | JArr t xs \<Rightarrow> those (map (\<lambda>j. map_option snd (unmarshal_map j)) xs)
      | _ \<Rightarrow> None)"

fun interfaces_by_name :: "json gomap list \<Rightarrow> json gomap gomap \<Rightarrow> gerror + json gomap gomap" where
  "interfaces_by_name [] m = Inr m"
| "interfaces_by_name (fields_of # entries) m =
     (case map_of fields_of ''iface'' of
        None \<Rightarrow> Inl (ErrorString (''list response entry missing '' @ [CHR 0x22] @ ''iface'' @ [CHR 0x22] @ '' field''))
      | Some raw \<Rightarrow>
          (case Scalar raw of
             Inl e \<Rightarrow> Inl (Errorf [Lit ''parse iface name: '', Wrapped e])
           | Inr iface \<Rightarrow> interfaces_by_name entries (AList.update iface fields_of m)))"

definition interfaces_answer :: "string \<Rightarrow> gerror + json \<Rightarrow> gerror + json gomap gomap" where
  "interfaces_answer node r =
     (case r of
        Inl e \<Rightarrow> Inl e
      | Inr raw \<Rightarrow>
          (case decode_maps raw of
             None \<Rightarrow> Inl (Errorf [Lit ''parse: '', Wrapped json_type_error])
           | Some entries \<Rightarrow>
               if entries = [] then
                 Inl (Errorf [Lit ''interface list on '', Lit node, Lit '': '', Wrapped (Sentinel ErrUnverifiableRead),
                   Lit '': payload was null or empty''])
               else interfaces_by_name entries []))"

definition fetchAllInterfaces :: "env \<Rightarrow> string \<Rightarrow> ('r sess_scheme, gerror + json gomap gomap) state" where
  "fetchAllInterfaces env node = do {
     r \<leftarrow> RawRequest env GET (network_path node) [];
     ret (interfaces_answer node r)
   }"

definition commit_answer :: "gerror + json \<Rightarrow> gerror + string" where
  "commit_answer r =
     (case r of
        Inl e \<Rightarrow> Inl e
      | Inr raw \<Rightarrow>
          (case Scalar raw of
             Inl e \<Rightarrow> Inl (Errorf [Lit ''parse commit upid: '', Wrapped e])
           | Inr upid \<Rightarrow>
               if upid = [] \<or> upid = ''null'' then Inl (ErrorString ''commit returned no upid'') else Inr upid))"

definition commitNetworkStage :: "env \<Rightarrow> string \<Rightarrow> ('r sess_scheme, gerror + string) state" where
  "commitNetworkStage env node = do {
     r \<leftarrow> RawRequest env PUT (network_path node) [];
     ret (commit_answer r)
   }"

text \<open>
  The discard of everything staged on the node, for a failure that already is an error.  The request is
  detached from the caller's context and bounded by thirty seconds, which is part of its answer.
\<close>

definition revertStagedAfter :: "env \<Rightarrow> string \<Rightarrow> gerror \<Rightarrow> ('r sess_scheme, gerror) state" where
  "revertStagedAfter env node cause = do {
     r \<leftarrow> RawRequest env DELETE (network_path node) [];
     ret (case r of
        Inl revertErr \<Rightarrow> Errorf [Wrapped cause, Lit '' (reverting staged changes also failed: '', Lit (err_text revertErr), Lit '')'']
      | Inr _ \<Rightarrow> cause)
   }"

definition revertNetworkStage :: "env \<Rightarrow> string \<Rightarrow> string \<Rightarrow> ('r sess_scheme, gerror) state" where
  "revertNetworkStage env node reason = revertStagedAfter env node (ErrorString reason)"

text \<open>The digest of the canonical text of an interface, without the digest of the whole node.\<close>

definition canonical_text :: "json gomap \<Rightarrow> string" where
  "canonical_text m = marshal_map (filter (\<lambda>(k, v). k \<noteq> ''digest'') m)"

definition canonicalHash :: "env \<Rightarrow> json gomap \<Rightarrow> string" where
  "canonicalHash env m = e_sha256 env (canonical_text m)"

fun field_diff :: "string \<Rightarrow> json option \<Rightarrow> json option \<Rightarrow> string option" where
  "field_diff k (Some b) None = Some (k @ '': removed (was '' @ raw_text b @ '')'')"
| "field_diff k None (Some a) = Some (k @ '': added (now '' @ raw_text a @ '')'')"
| "field_diff k (Some b) (Some a) =
     (if raw_text b \<noteq> raw_text a then Some (k @ '': '' @ raw_text b @ '' -> '' @ raw_text a) else None)"
| "field_diff k None None = None"

definition diffFields :: "json gomap \<Rightarrow> json gomap \<Rightarrow> string" where
  "diffFields before after =
     (let keys = filter (\<lambda>k. k \<noteq> ''digest'') (sort (remdups (map fst before @ map fst after)));
          diffs = List.map_filter (\<lambda>k. field_diff k (map_of before k) (map_of after k)) keys
      in if diffs = [] then ''fields differ but no per-key difference was found (possible key-ordering/whitespace artifact)''
         else join_with ''; '' diffs)"

definition NetworkLockKey :: "string \<Rightarrow> string \<Rightarrow> object_key" where
  "NetworkLockKey tgt node = \<lparr>ok_target_id = tgt, ok_kind = ''network'', ok_id = node\<rparr>"

section \<open>What the calls do on the wire\<close>

lemma network_paths_slash: "\<exists>p. network_path node = CHR ''/'' # p" "\<exists>p. iface_path node iface = CHR ''/'' # p"
  by (simp_all add: network_path_def iface_path_def)

lemma iface_path_neq: "iface_path node iface \<noteq> network_path node'" if "node = node'"
  using that by (simp add: iface_path_def)

lemma traces_raw:
  assumes "\<exists>p. path = CHR ''/'' # p" and "unsupported_method m = None"
  shows "traces (RawRequest env m path form) (\<lambda>r es. \<exists>a. es = [EHttp m path form a] \<and> r = raw_result a)"
proof -
  from assms(1) obtain p where "path = CHR ''/'' # p" ..
  from traces_RawRequest_sent [OF this assms(2)] show ?thesis .
qed

lemma traces_fetchInterface:
  "traces (fetchInterface env node iface)
     (\<lambda>r es. \<exists>a. es = [EHttp GET (iface_path node iface) [] a] \<and> r = interface_answer iface (raw_result a))"
  unfolding fetchInterface_def
  by (rule traces_bind [OF traces_raw [OF network_paths_slash(2)]], simp, rule traces_return) auto

lemma traces_fetchAllInterfaces:
  "traces (fetchAllInterfaces env node)
     (\<lambda>r es. \<exists>a. es = [EHttp GET (network_path node) [] a] \<and> r = interfaces_answer node (raw_result a))"
  unfolding fetchAllInterfaces_def
  by (rule traces_bind [OF traces_raw [OF network_paths_slash(1)]], simp, rule traces_return) auto

lemma traces_commitNetworkStage:
  "traces (commitNetworkStage env node)
     (\<lambda>r es. \<exists>a. es = [EHttp PUT (network_path node) [] a] \<and> r = commit_answer (raw_result a))"
  unfolding commitNetworkStage_def
  by (rule traces_bind [OF traces_raw [OF network_paths_slash(1)]], simp, rule traces_return) auto

lemma traces_revert:
  "traces (revertStagedAfter env node cause) (\<lambda>r es. \<exists>a. es = [EHttp DELETE (network_path node) [] a])"
  "traces (revertNetworkStage env node reason) (\<lambda>r es. \<exists>a. es = [EHttp DELETE (network_path node) [] a])"
proof -
  show "traces (revertStagedAfter env node cause) (\<lambda>r es. \<exists>a. es = [EHttp DELETE (network_path node) [] a])" for cause
    unfolding revertStagedAfter_def
    by (rule traces_bind [OF traces_raw [OF network_paths_slash(1)]], simp, rule traces_return) auto
  then show "traces (revertNetworkStage env node reason) (\<lambda>r es. \<exists>a. es = [EHttp DELETE (network_path node) [] a])"
    by (simp add: revertNetworkStage_def)
qed

lemma frames_stage_calls [frames_intro]:
  "frames (fetchInterface env node iface)" "frames (fetchAllInterfaces env node)" "frames (commitNetworkStage env node)"
  "frames (revertStagedAfter env node cause)" "frames (revertNetworkStage env node reason)"
  unfolding fetchInterface_def fetchAllInterfaces_def commitNetworkStage_def revertStagedAfter_def revertNetworkStage_def
  by (intro frames_intro)+

text \<open>What the log shows of an interface and of a link.\<close>

definition saw_interface :: "string \<Rightarrow> string \<Rightarrow> json gomap option \<Rightarrow> event list \<Rightarrow> bool" where
  "saw_interface node iface m es \<longleftrightarrow>
     (\<exists>a. EHttp GET (iface_path node iface) [] a \<in> set es \<and> interface_answer iface (raw_result a) = Inr m)"

definition saw_link :: "string \<Rightarrow> link_state \<Rightarrow> event list \<Rightarrow> bool" where
  "saw_link iface link es \<longleftrightarrow> (\<exists>a. EQuery (link_command iface) a \<in> set es \<and> link_answer iface a = Inr link)"

lemma saw_append:
  "saw_interface node iface m es \<Longrightarrow> saw_interface node iface m (es @ fs)" "saw_link iface link es \<Longrightarrow> saw_link iface link (es @ fs)"
  "saw_interface node iface m fs \<Longrightarrow> saw_interface node iface m (es @ fs)" "saw_link iface link fs \<Longrightarrow> saw_link iface link (es @ fs)"
  by (auto simp: saw_interface_def saw_link_def)

lemma traces_fetch_saw:
  "traces (fetchInterface env node iface)
     (\<lambda>r es. list_all reads es \<and> (\<forall>m. r = Inr m \<longrightarrow> saw_interface node iface m es))"
  by (rule traces_mono [OF traces_fetchInterface]) (auto simp: reads_def saw_interface_def)

lemma traces_link_saw:
  "traces (LinkState env t iface) (\<lambda>r es. list_all reads es \<and> (\<forall>link. r = Inr link \<longrightarrow> saw_link iface link es))"
  by (rule traces_mono [OF traces_LinkState_ok]) (auto simp: saw_link_def)

section \<open>The abstract transaction\<close>

definition commits :: "string \<Rightarrow> event \<Rightarrow> bool" where
  "commits node e \<longleftrightarrow> (\<exists>a. e = EHttp PUT (network_path node) [] a)"

definition reverts :: "string \<Rightarrow> event \<Rightarrow> bool" where
  "reverts node e \<longleftrightarrow> (\<exists>a. e = EHttp DELETE (network_path node) [] a)"

text \<open>The task a commit was answered with, and whether PVE took a request.\<close>

fun commit_upid :: "event \<Rightarrow> string option" where
  "commit_upid (EHttp m p f a) = (case commit_answer (raw_result a) of Inr u \<Rightarrow> Some u | Inl e \<Rightarrow> None)"
| "commit_upid _ = None"

fun accepted :: "event \<Rightarrow> bool" where
  "accepted (EHttp m p f a) = (\<exists>j. raw_result a = Inr j)"
| "accepted _ = False"

text \<open>
  What an \<open>Apply\<close> may do: refuse before anything is staged; fail to stage, and then discard nothing;
  stage and discard; commit under the guard \<open>G\<close>, discard when the commit's outcome is unknown; commit,
  and then only read, and report success only with \<open>V\<close>.
\<close>

inductive transaction ::
    "string \<Rightarrow> (event \<Rightarrow> bool) \<Rightarrow> (event list \<Rightarrow> event \<Rightarrow> event list \<Rightarrow> bool) \<Rightarrow> (string \<Rightarrow> event list \<Rightarrow> event list \<Rightarrow> bool) \<Rightarrow>
     gerror option \<Rightarrow> event list \<Rightarrow> bool" for node S G V where
  refused: "list_all reads es \<Longrightarrow> transaction node S G V (Some e) es"
| not_staged: "list_all reads pre \<Longrightarrow> S st \<Longrightarrow> \<not> accepted st \<Longrightarrow> transaction node S G V (Some e) (pre @ [st])"
| discarded: "list_all reads pre \<Longrightarrow> S st \<Longrightarrow> accepted st \<Longrightarrow> list_all reads mid \<Longrightarrow> reverts node rv \<Longrightarrow>
     transaction node S G V (Some e) (pre @ st # mid @ [rv])"
| commit_unknown: "list_all reads pre \<Longrightarrow> S st \<Longrightarrow> accepted st \<Longrightarrow> list_all reads mid \<Longrightarrow> G pre st mid \<Longrightarrow>
     commits node cm \<Longrightarrow> commit_upid cm = None \<Longrightarrow> reverts node rv \<Longrightarrow>
     transaction node S G V (Some e) (pre @ st # mid @ [cm, rv])"
| committed: "list_all reads pre \<Longrightarrow> S st \<Longrightarrow> accepted st \<Longrightarrow> list_all reads mid \<Longrightarrow> G pre st mid \<Longrightarrow>
     commits node cm \<Longrightarrow> commit_upid cm = Some u \<Longrightarrow> list_all reads post \<Longrightarrow>
     (r = None \<Longrightarrow> V u pre post) \<Longrightarrow> transaction node S G V r (pre @ st # mid @ cm # post)"

text \<open>A failure between the stage and the commit ends with the discard.\<close>

definition discards :: "string \<Rightarrow> event list \<Rightarrow> bool" where
  "discards node es \<longleftrightarrow> (\<exists>rd rv. es = rd @ [rv] \<and> list_all reads rd \<and> reverts node rv)"

lemma traces_revert_discards: "traces (revertStagedAfter env node cause) (\<lambda>r es. discards node es)"
  by (rule traces_mono [OF traces_revert(1)]) (auto simp: discards_def reverts_def)

lemma discards_after: "list_all reads rd \<Longrightarrow> discards node es \<Longrightarrow> discards node (rd @ es)"
  unfolding discards_def by (metis append.assoc list_all_append)

text \<open>What the commit of a stage does: a failed one discards the stage, and nothing is discarded after it.\<close>

definition commit_spec :: "string \<Rightarrow> (string \<Rightarrow> event list \<Rightarrow> bool) \<Rightarrow> gerror option \<Rightarrow> event list \<Rightarrow> bool" where
  "commit_spec node W r es \<longleftrightarrow>
     (\<exists>cm rv. es = [cm, rv] \<and> commits node cm \<and> commit_upid cm = None \<and> reverts node rv \<and> r \<noteq> None) \<or>
     (\<exists>cm u post. es = cm # post \<and> commits node cm \<and> commit_upid cm = Some u \<and> list_all reads post \<and> (r = None \<longrightarrow> W u post))"

lemma commit_spec_failed:
  "\<exists>a. es = [EHttp PUT (network_path node) [] a] \<and> Inl e = commit_answer (raw_result a) \<Longrightarrow>
     \<exists>b. fs = [EHttp DELETE (network_path node) [] b] \<Longrightarrow> commit_spec node W (Some x) (es @ fs)"
  unfolding commit_spec_def commits_def reverts_def by (elim exE conjE, rule disjI1) (auto dest: sym)

lemma commit_spec_ok:
  assumes "\<exists>a. es = [EHttp PUT (network_path node) [] a] \<and> Inr u = commit_answer (raw_result a)"
    and "list_all reads post" and "r = None \<Longrightarrow> W u post"
  shows "commit_spec node W r (es @ post)"
proof -
  from assms(1) obtain a where a: "es = [EHttp PUT (network_path node) [] a]" "commit_answer (raw_result a) = Inr u" by auto
  then have "commits node (hd es)" "commit_upid (hd es) = Some u" by (auto simp: commits_def)
  with a assms(2,3) show ?thesis
    unfolding commit_spec_def by (intro disjI2 exI [of _ "hd es"] exI [of _ u] exI [of _ post]) simp
qed

lemma transaction_discards:
  "list_all reads pre \<Longrightarrow> S st \<Longrightarrow> accepted st \<Longrightarrow> list_all reads mid \<Longrightarrow> discards node es \<Longrightarrow>
     transaction node S G V (Some e) (pre @ st # mid @ es)"
  unfolding discards_def using transaction.discarded [of pre S st "mid @ rd" node rv G V e for rd rv] by auto

lemma transaction_commit:
  assumes "commit_spec node W r es" and "list_all reads pre" "S st" "accepted st" "list_all reads mid" "G pre st mid"
    and "\<And>u post. W u post \<Longrightarrow> V u pre post"
  shows "transaction node S G V r (pre @ st # mid @ es)"
  using assms(1) unfolding commit_spec_def
proof (elim disjE exE conjE)
  fix cm rv assume "es = [cm, rv]" "commits node cm" "commit_upid cm = None" "reverts node rv" "r \<noteq> None"
  with assms(2-6) show ?thesis by (auto intro: transaction.commit_unknown)
next
  fix cm u post assume "es = cm # post" "commits node cm" "commit_upid cm = Some u" "list_all reads post" "r = None \<longrightarrow> W u post"
  with assms(2-7) show ?thesis by (auto intro: transaction.committed)
qed

text \<open>What stands before a write of a run: the transaction it belongs to, up to that write.\<close>

definition stage_admits :: "string \<Rightarrow> (event \<Rightarrow> bool) \<Rightarrow> (event list \<Rightarrow> event \<Rightarrow> event list \<Rightarrow> bool) \<Rightarrow> event list \<Rightarrow> event \<Rightarrow> bool" where
  "stage_admits node S G before e \<longleftrightarrow>
     S e \<or>
     (\<exists>hist pre st mid. before = hist @ pre @ st # mid \<and> list_all reads pre \<and> S st \<and> accepted st \<and> list_all reads mid \<and>
        (commits node e \<and> G pre st mid \<or> reverts node e)) \<or>
     (\<exists>hist pre st mid cm. before = hist @ pre @ st # mid @ [cm] \<and> list_all reads pre \<and> S st \<and> accepted st \<and>
        list_all reads mid \<and> commits node cm \<and> commit_upid cm = None \<and> reverts node e)"

text \<open>Nothing this program staged is left behind: each accepted stage is committed or discarded next.\<close>

definition settled :: "string \<Rightarrow> (event \<Rightarrow> bool) \<Rightarrow> event list \<Rightarrow> bool" where
  "settled node S es \<longleftrightarrow>
     (\<forall>pre e post. es = pre @ e # post \<longrightarrow>
        (S e \<and> accepted e \<longrightarrow>
           (\<exists>mid w rest. post = mid @ w # rest \<and> list_all reads mid \<and> (commits node w \<or> reverts node w))) \<and>
        (commits node e \<and> commit_upid e = None \<longrightarrow> (\<exists>w rest. post = w # rest \<and> reverts node w)))"

lemma reads_not_staged: "list_all reads es \<Longrightarrow> e \<in> set es \<Longrightarrow> \<not> is_write e"
  by (auto simp: list_all_iff reads_def)

lemma closing_writes: "commits node e \<Longrightarrow> is_write e" "reverts node e \<Longrightarrow> is_write e"
  by (auto simp: commits_def reverts_def)

lemma commit_not_revert: "commits node e \<Longrightarrow> \<not> reverts node e"
  by (auto simp: commits_def reverts_def)

lemma stage_admits_looks_back: "looks_back (stage_admits node S G)"
  unfolding looks_back_def stage_admits_def
proof (intro allI impI, elim disjE, goal_cases)
  case (1 before pre e)
  then show ?case by blast
next
  case (2 before pre e)
  then obtain hist p st mid where "pre = hist @ p @ st # mid" "list_all reads p \<and> S st \<and> accepted st \<and> list_all reads mid \<and>
        (commits node e \<and> G p st mid \<or> reverts node e)" by blast
  then show ?case by (intro disjI2 disjI1 exI [of _ "before @ hist"] exI [of _ p] exI [of _ st] exI [of _ mid]) simp
next
  case (3 before pre e)
  then obtain hist p st mid cm where "pre = hist @ p @ st # mid @ [cm]" "list_all reads p \<and> S st \<and> accepted st \<and>
        list_all reads mid \<and> commits node cm \<and> commit_upid cm = None \<and> reverts node e" by blast
  then show ?case
    by (intro disjI2 exI [of _ "before @ hist"] exI [of _ p] exI [of _ st] exI [of _ mid] exI [of _ cm]) simp
qed

lemma stage_admits_stage: "S e \<Longrightarrow> stage_admits node S G before e"
  by (simp add: stage_admits_def)

lemma stage_admits_close:
  assumes "list_all reads pre" "S st" "accepted st" "list_all reads mid" "commits node e \<and> G pre st mid \<or> reverts node e"
  shows "stage_admits node S G (pre @ st # mid) e"
  using assms unfolding stage_admits_def by (intro disjI2 disjI1 exI [of _ "[]"] exI [of _ pre] exI [of _ st] exI [of _ mid]) auto

lemma stage_admits_after_commit:
  assumes "list_all reads pre" "S st" "accepted st" "list_all reads mid" "commits node cm" "commit_upid cm = None" "reverts node e"
  shows "stage_admits node S G (pre @ st # mid @ [cm]) e"
  using assms unfolding stage_admits_def
  by (intro disjI2 exI [of _ "[]"] exI [of _ pre] exI [of _ st] exI [of _ mid] exI [of _ cm]) auto

lemma transaction_gated: "transaction node S G V r es \<Longrightarrow> gated (stage_admits node S G) es"
proof (induction rule: transaction.induct)
  case (refused es e)
  then show ?case by (rule gated_reads)
next
  case (not_staged pre st e)
  then show ?case by (intro gated_after [OF gated_reads] gated_Cons) (auto simp: stage_admits_stage gated_def)
next
  case (discarded pre st mid rv e)
  from discarded(1-4) have "stage_admits node S G (pre @ st # mid) rv"
    by (rule stage_admits_close) (use discarded(5) in blast)
  then show ?case
    using discarded by (intro gated_after [OF gated_reads] gated_Cons) (auto simp: stage_admits_stage gated_def)
next
  case (commit_unknown pre st mid cm rv e)
  from commit_unknown(1-4) have "stage_admits node S G (pre @ st # mid) cm"
    by (rule stage_admits_close) (use commit_unknown(5,6) in blast)
  moreover from commit_unknown(1-4,6-8) have "stage_admits node S G (pre @ st # mid @ [cm]) rv"
    by (rule stage_admits_after_commit)
  ultimately show ?case
    using commit_unknown by (intro gated_after [OF gated_reads] gated_Cons) (auto simp: stage_admits_stage gated_def)
next
  case (committed pre st mid cm u post r)
  from committed(1-4) have "stage_admits node S G (pre @ st # mid) cm"
    by (rule stage_admits_close) (use committed(5,6) in blast)
  then show ?case
    using committed by (intro gated_after [OF gated_reads] gated_Cons gated_reads) (auto simp: stage_admits_stage)
qed

lemma settled_append: "settled node S es \<Longrightarrow> settled node S fs \<Longrightarrow> settled node S (es @ fs)"
  unfolding settled_def
proof (intro allI impI, goal_cases)
  case (1 pre e post)
  consider (left) mid where "es = pre @ e # mid" "post = mid @ fs" | (right) mid where "fs = mid @ e # post"
    using 1(3) by (auto simp: append_eq_append_conv2 append_eq_Cons_conv Cons_eq_append_conv)
  then show ?case
  proof cases
    case left
    from 1(1) left(1) have
      "(S e \<and> accepted e \<longrightarrow> (\<exists>m w rest. mid = m @ w # rest \<and> list_all reads m \<and> (commits node w \<or> reverts node w))) \<and>
       (commits node e \<and> commit_upid e = None \<longrightarrow> (\<exists>w rest. mid = w # rest \<and> reverts node w))" by blast
    moreover have "\<exists>m w rest. mid @ fs = m @ w # rest \<and> P m w" if "\<exists>m w rest. mid = m @ w # rest \<and> P m w" for P
      using that by (metis append.assoc append_Cons)
    moreover have "\<exists>w rest. mid @ fs = w # rest \<and> P w" if "\<exists>w rest. mid = w # rest \<and> P w" for P
      using that by (metis append_Cons)
    ultimately show ?thesis unfolding left(2) by presburger
  next
    case right
    with 1(2) show ?thesis by blast
  qed
qed

lemma settled_quiet: "(\<And>e. e \<in> set es \<Longrightarrow> \<not> (S e \<and> accepted e) \<and> \<not> commits node e) \<Longrightarrow> settled node S es"
  by (auto simp: settled_def)

lemma settled_no_write: "(\<And>e. S e \<Longrightarrow> is_write e) \<Longrightarrow> list_all (\<lambda>e. \<not> is_write e) es \<Longrightarrow> settled node S es"
  by (rule settled_quiet) (auto simp: list_all_iff dest: closing_writes)

lemma settled_reads: "(\<And>e. S e \<Longrightarrow> is_write e) \<Longrightarrow> list_all reads es \<Longrightarrow> settled node S es"
  by (rule settled_no_write) (auto simp: list_all_iff reads_def)

lemma settled_after_reads:
  "(\<And>e. S e \<Longrightarrow> is_write e) \<Longrightarrow> list_all reads pre \<Longrightarrow> settled node S rest \<Longrightarrow> settled node S (pre @ rest)"
  by (rule settled_append [OF settled_reads])

text \<open>A closing request right after the reads settles the stage before them.\<close>

lemma settled_stage:
  assumes "\<And>e. S e \<Longrightarrow> is_write e \<and> \<not> commits node e" and "S st" and "list_all reads mid"
    and "commits node w \<or> reverts node w" and "settled node S (w # rest)"
  shows "settled node S (st # mid @ w # rest)"
  unfolding settled_def
proof (intro allI impI, goal_cases)
  case (1 pre e post)
  show ?case
  proof (cases pre)
    case Nil
    with 1 assms(1) [OF assms(2)] assms(3,4) show ?thesis by auto
  next
    case (Cons p ps)
    have "settled node S (mid @ w # rest)"
      using assms(1) by (intro settled_append [OF _ assms(5)] settled_reads [OF _ assms(3)]) blast
    with 1 Cons show ?thesis unfolding settled_def by auto
  qed
qed

lemma settled_Cons:
  "(commits node w \<Longrightarrow> commit_upid w \<noteq> None) \<Longrightarrow> \<not> (S w \<and> accepted w) \<Longrightarrow> settled node S rest \<Longrightarrow> settled node S (w # rest)"
  unfolding settled_def by (auto simp: Cons_eq_append_conv)

lemma transaction_settled:
  assumes stage: "\<And>e. S e \<Longrightarrow> is_write e \<and> \<not> commits node e \<and> \<not> reverts node e"
    and "transaction node S G V r es"
  shows "settled node S es"
  using assms(2)
proof cases
  case (refused e)
  then show ?thesis using stage by (intro settled_reads) auto
next
  case (not_staged pre st e)
  then show ?thesis using stage by (intro subst [OF not_staged(2) [symmetric], of "settled node S"] settled_append settled_reads settled_quiet) auto
next
  case (discarded pre st mid rv e)
  have "settled node S [rv]" using discarded stage by (intro settled_quiet) (auto dest: commit_not_revert)
  then have "settled node S (st # mid @ [rv])" using discarded stage by (intro settled_stage) auto
  with discarded stage show ?thesis by (auto intro: settled_after_reads)
next
  case (commit_unknown pre st mid cm rv e)
  have "settled node S [cm, rv]"
    using commit_unknown stage unfolding settled_def by (auto simp: Cons_eq_append_conv dest: commit_not_revert)
  then have "settled node S (st # mid @ cm # [rv])" using commit_unknown stage by (intro settled_stage) auto
  with commit_unknown stage show ?thesis by (auto intro: settled_after_reads)
next
  case (committed pre st mid cm u post)
  have "settled node S (cm # post)" using committed stage by (intro settled_Cons settled_reads) auto
  then have "settled node S (st # mid @ cm # post)" using committed stage by (intro settled_stage) auto
  with committed stage show ?thesis by (auto intro: settled_after_reads)
qed

section \<open>Operations that are transactions\<close>

locale staged_op = op_contract oper "transaction node S G V" R Sat
    for oper :: "('r sess_scheme, 'c) op" and node :: string and S :: "event \<Rightarrow> bool"
      and G :: "event list \<Rightarrow> event \<Rightarrow> event list \<Rightarrow> bool" and V :: "string \<Rightarrow> event list \<Rightarrow> event list \<Rightarrow> bool"
      and R :: "'c \<Rightarrow> event list \<Rightarrow> bool" and Sat :: "'c \<Rightarrow> bool" +
  assumes stage_events: "S e \<Longrightarrow> is_write e \<and> \<not> commits node e \<and> \<not> reverts node e"
begin

text \<open>Every write of a run is a stage request, a guarded commit, or the discard of what the run staged itself.\<close>

lemma Run_guarded:
  assumes "run_state (Run env rp key oper force) s = (res, s')"
  shows "\<exists>es. log s' = log s @ es \<and> gated (stage_admits node S G) es"
  by (rule Run_gated [OF stage_admits_looks_back _ assms]) (rule transaction_gated)

lemma Run_settled:
  assumes "run_state (Run env rp key oper force) s = (res, s')"
  shows "\<exists>es. log s' = log s @ es \<and> settled node S es"
proof -
  have attempts: "settled node S es" if "attempts_log (transaction node S G V) Q n res es" for Q n es
    using that
    by (induction rule: attempts_log.induct)
      (auto intro!: settled_append intro: settled_reads transaction_settled [OF stage_events] simp: stage_events)
  have quiet: "settled node S es" if "list_all (\<lambda>e. \<not> is_write e) es" for es
    using that stage_events by (auto intro: settled_no_write)
  from traces_runD [OF traces_Run assms] obtain es where es: "log s' = log s @ es"
    and "list_all (\<lambda>e. \<not> is_write e) es \<or>
        (\<exists>lk body u. es = lk @ body @ [EUnlock (kf_resource (filesFor rp key)) u] \<and> list_all (\<lambda>e. \<not> is_write e) lk \<and>
           attempts_log (transaction node S G V) (noop_seen R Sat) (maxConflictRetries - 1) res body)" by blast
  then have "settled node S es" by (auto intro!: settled_append intro: quiet attempts)
  with es show ?thesis by blast
qed

text \<open>A run that reports a change committed it and saw the verification hold.\<close>

lemma Run_committed:
  assumes "run_state (Run env rp key oper force) s = (Inr x, s')" and "Changed x"
  shows "\<exists>es before st mid cm u post after. log s' = log s @ es \<and> es = before @ st # mid @ cm # post @ after \<and>
      S st \<and> accepted st \<and> list_all reads mid \<and> commits node cm \<and> commit_upid cm = Some u \<and> list_all reads post \<and>
      (\<exists>hist pre. before = hist @ pre \<and> list_all reads pre \<and> G pre st mid \<and> V u pre post)"
proof -
  from Run_success [OF assms(1)] assms(2) obtain es hist tr after
    where es: "log s' = log s @ es" "es = hist @ tr @ after" and tr: "transaction node S G V None tr" by auto
  from tr obtain pre st mid cm u post where "list_all reads pre" "S st" "accepted st" "list_all reads mid" "G pre st mid"
    "commits node cm" "commit_upid cm = Some u" "list_all reads post" "V u pre post" "tr = pre @ st # mid @ cm # post"
    by cases auto
  with es show ?thesis
    by (intro exI [of _ es] exI [of _ "hist @ pre"] exI [of _ st] exI [of _ mid] exI [of _ cm] exI [of _ u] exI [of _ post]
        exI [of _ after]) auto
qed

end

end
