(* ===== verification/KvRender.thy ===== *)
theory KvRender
  imports KvJson JsonText
begin

text \<open>
  The output side of \<open>internal/kvjson/kvjson.go\<close>: how a document is rendered as key=value lines or as
  indented JSON, and which keys and values are quoted.  The line contract of the package is stated as a
  reader, and every line that is written is read back as the key and the value it was written from.
\<close>

section \<open>Runes that could break a line\<close>

definition isC1 :: "string \<Rightarrow> bool" where
  "isC1 r \<longleftrightarrow> (case r of [c] \<Rightarrow> c = CHR 0x7F | [c, d] \<Rightarrow> c = CHR 0xC2 \<and> between 0x80 0x9F d | _ \<Rightarrow> False)"

definition isControl :: "string \<Rightarrow> bool" where
  "isControl r \<longleftrightarrow> isC1 r \<or> (case r of [c] \<Rightarrow> (of_char c :: nat) < 32 | _ \<Rightarrow> False)"

definition isSpace :: "string \<Rightarrow> bool" where
  "isSpace r \<longleftrightarrow> r \<in> set space_encodings"

text \<open>The escape of such a rune; what is not well-formed is written as the replacement character.\<close>

definition escape_rune :: "string \<Rightarrow> string" where
  "escape_rune r =
     (if isC1 r then unicode_escape (of_char (last r))
      else if rune_error r then [CHR 0xEF, CHR 0xBF, CHR 0xBD]
      else r)"

definition escapeC1 :: "string \<Rightarrow> string" where
  "escapeC1 s = (if list_ex isC1 (runes s) then concat (map escape_rune (runes s)) else s)"

section \<open>Quoting\<close>

definition needsQuote :: "string \<Rightarrow> bool" where
  "needsQuote s =
     (if s = [] then False
      else if strings_HasPrefix s [CHR 0x22] then True
      else if isSpace (hd (runes s)) \<or> isSpace (last (runes s)) then True
      else list_ex (\<lambda>r. isControl r \<or> r = [CHR 0xE2, CHR 0x80, CHR 0xA8] \<or> r = [CHR 0xE2, CHR 0x80, CHR 0xA9]) (runes s))"

definition LineUnsafe :: "string \<Rightarrow> bool" where
  "LineUnsafe s = needsQuote s"

definition quoteString :: "string \<Rightarrow> string" where
  "quoteString s = escapeC1 (json_quote False s)"

definition QuoteKey :: "string \<Rightarrow> string" where
  "QuoteKey k = (if needsQuote k \<or> strings_Contains k ''='' then quoteString k else k)"

definition QuoteValue :: "string \<Rightarrow> string" where
  "QuoteValue v = (if needsQuote v \<or> v = ''null'' then quoteString v else v)"

section \<open>Rendering\<close>

definition kvValue :: "json \<Rightarrow> gerror + string" where
  "kvValue raw =
     (case raw of
        JStr s \<Rightarrow> Inr (QuoteValue s)
      | _ \<Rightarrow> (case Scalar raw of Inl e \<Rightarrow> Inl e | Inr s \<Rightarrow> Inr (escapeC1 s)))"

fun kv_lines :: "json gomap \<Rightarrow> string list \<Rightarrow> gerror + string" where
  "kv_lines flat [] = Inr []"
| "kv_lines flat (k # ks) =
     (case kvValue (the (map_of flat k)) of
        Inl e \<Rightarrow> Inl (Errorf [Lit ''render: field '', Quo k, Lit '': '', Wrapped e])
      | Inr val \<Rightarrow>
          (case kv_lines flat ks of
             Inl e \<Rightarrow> Inl e
           | Inr rest \<Rightarrow> Inr (QuoteKey k @ ''='' @ val @ [CHR 0x0A] @ rest)))"

definition renderKV :: "json option \<Rightarrow> gerror + string" where
  "renderKV compact_doc =
     (let what = ''render: kv output requires a JSON object at the top level'' in
      case Option.bind compact_doc unmarshal_map of
        None \<Rightarrow> Inl (Errorf [Lit (what @ '': ''), Wrapped json_type_error])
      | Some (notnil, flat) \<Rightarrow>
          if \<not> notnil then Inl (ErrorString (what @ '', got null''))
          else kv_lines flat (sort (map fst flat)))"

text \<open>
  \<open>json.Indent\<close> with two spaces: the depth, whether a bracket was just opened, and whether the text is
  inside a string.
\<close>

definition indent_line :: "nat \<Rightarrow> string" where
  "indent_line depth = CHR 0x0A # concat (replicate depth [CHR 0x20, CHR 0x20])"

fun json_indent :: "nat \<Rightarrow> bool \<Rightarrow> bool \<Rightarrow> string \<Rightarrow> string" where
  "json_indent depth opened quoted [] = []"
| "json_indent depth opened quoted (c # cs) =
     (if quoted \<and> c = CHR 0x5C then (case cs of [] \<Rightarrow> [c] | d # ds \<Rightarrow> c # d # json_indent depth False True ds)
      else if quoted then c # json_indent depth False (c \<noteq> CHR 0x22) cs
      else if json_space c then json_indent depth opened False cs
      else if opened \<and> c \<in> {CHR 0x5D, CHR 0x7D} then c # json_indent depth False False cs
      else if c \<in> {CHR 0x5D, CHR 0x7D} then indent_line (depth - 1) @ c # json_indent (depth - 1) False False cs
      else (let d = (if opened then depth + 1 else depth) in
        (if opened then indent_line d else []) @
        (if c \<in> {CHR 0x5B, CHR 0x7B} then c # json_indent d True False cs
         else if c = CHR '','' then c # indent_line d @ json_indent d False False cs
         else if c = CHR '':'' then c # CHR 0x20 # json_indent d False False cs
         else c # json_indent d False (c = CHR 0x22) cs)))"

definition Render :: "format_kind \<Rightarrow> gerror + string \<Rightarrow> gerror + string" where
  "Render f marshalled =
     (case marshalled of
        Inl e \<Rightarrow> Inl (Errorf [Lit ''render: marshal: '', Wrapped e])
      | Inr doc \<Rightarrow>
          (case f of
             JSON \<Rightarrow> Inr (escapeC1 (json_indent 0 False False doc) @ [CHR 0x0A])
           | KV \<Rightarrow> renderKV (json_Unmarshal doc)))"

section \<open>The line contract\<close>

text \<open>
  How a consumer reads a line: a key that starts with a quote is one JSON string followed by the equals
  sign, any other key ends at the first equals sign; a value that starts with a quote is one JSON string.
\<close>

definition read_key :: "string \<Rightarrow> (string \<times> string) option" where
  "read_key line =
     (if take 1 line = [CHR 0x22] then
        (case json_chars (drop 1 line) of
           Some (k, c # v) \<Rightarrow> if c = CHR ''='' then Some (k, v) else None
         | _ \<Rightarrow> None)
      else (case strings_Cut line CHR ''='' of (k, v, ok) \<Rightarrow> if ok then Some (k, v) else None))"

definition read_value :: "string \<Rightarrow> string option" where
  "read_value v =
     (if take 1 v = [CHR 0x22] then (case json_chars (drop 1 v) of Some (s, []) \<Rightarrow> Some s | _ \<Rightarrow> None) else Some v)"

definition read_line :: "string \<Rightarrow> (string \<times> string) option" where
  "read_line line = Option.bind (read_key line) (\<lambda>(k, v). map_option (\<lambda>s. (k, s)) (read_value v))"

section \<open>A quoted string is read back\<close>

lemma json_chars_plain:
  "c \<noteq> CHR 0x22 \<Longrightarrow> c \<noteq> CHR 0x5C \<Longrightarrow> \<not> (of_char c :: nat) < 32 \<Longrightarrow>
     json_chars (c # t) = map_option (apfst ((#) c)) (json_chars t)"
  by (subst json_chars.simps) simp

lemma json_chars_close: "json_chars (CHR 0x22 # t) = Some ([], t)"
  by (subst json_chars.simps) simp

lemma json_chars_escape:
  "escaped_char d = Some e \<Longrightarrow> json_chars (CHR 0x5C # d # t) = map_option (apfst ((#) e)) (json_chars t)"
  by (subst json_chars.simps) (auto simp: escaped_char_def)

lemma json_chars_unicode:
  "json_unicode t = Some (u, rest) \<Longrightarrow> json_chars (CHR 0x5C # CHR ''u'' # t) = map_option (apfst ((@) u)) (json_chars rest)"
  by (subst json_chars.simps) simp

text \<open>\<open>writes u p\<close>: the text \<open>p\<close> inside a JSON string denotes the bytes \<open>u\<close>.\<close>

definition writes :: "string \<Rightarrow> string \<Rightarrow> bool" where
  "writes u p \<longleftrightarrow> (\<forall>rest. json_chars (p @ rest) = map_option (apfst ((@) u)) (json_chars rest))"

lemma writes_Nil: "writes [] []"
  by (simp add: writes_def option.map_ident_strong prod_eq_iff)

lemma writes_append: "writes u p \<Longrightarrow> writes v q \<Longrightarrow> writes (u @ v) (p @ q)"
  by (simp add: writes_def option.map_comp comp_def apfst_def map_prod_def case_prod_unfold)

lemma writes_plain: "list_all (\<lambda>c. c \<noteq> CHR 0x22 \<and> c \<noteq> CHR 0x5C \<and> \<not> (of_char c :: nat) < 32) w \<Longrightarrow> writes w w"
proof (induction w)
  case (Cons c w)
  have "(#) c = (@) [c]" by (simp add: fun_eq_iff)
  with Cons.prems have "writes [c] [c]" by (simp add: writes_def json_chars_plain)
  from writes_append [OF this] Cons show ?case by simp
qed (rule writes_Nil)

lemma writes_concat: "list_all (\<lambda>r. writes r (f r)) rs \<Longrightarrow> writes (concat rs) (concat (map f rs))"
  by (induction rs) (auto intro: writes_Nil writes_append)

lemma hex_digit_char: "n < 16 \<Longrightarrow> hex_digit (hex_char n) = Some n"
proof -
  assume "n < 16"
  moreover have "list_all (\<lambda>n. hex_digit (hex_char n) = Some n) [0..<16]" by code_simp
  ultimately show ?thesis unfolding list_all_iff set_upt by simp
qed

lemma writes_unicode: "n < 256 \<Longrightarrow> writes (utf8 n) (unicode_escape n)"
proof -
  assume n: "n < 256"
  have "hex4 CHR ''0'' CHR ''0'' (hex_char (n div 16)) (hex_char (n mod 16)) = Some n"
  proof -
    have "hex_digit CHR ''0'' = Some 0" by code_simp
    moreover have "n div 16 < 16" using n by simp
    ultimately show ?thesis by (simp add: hex4_def hex_digit_char)
  qed
  then have "json_unicode (drop 2 (unicode_escape n) @ rest) = Some (utf8 n, rest)" for rest
    using n by (simp add: json_unicode_def unicode_escape_def)
  from json_chars_unicode [OF this] show ?thesis
    by (simp add: writes_def unicode_escape_def)
qed

text \<open>What a rune becomes in a quoted string.\<close>

definition quoted_rune :: "string \<Rightarrow> string" where
  "quoted_rune r = (if isC1 r then unicode_escape (of_char (last r)) else json_rune False r)"

definition ascii :: "string \<Rightarrow> bool" where
  "ascii w \<longleftrightarrow> list_all (\<lambda>c. (of_char c :: nat) < 0x80) w"

lemma runes_ascii: "ascii w \<Longrightarrow> runes (w @ rest) = map (\<lambda>c. [c]) w @ runes rest"
proof (induction w)
  case (Cons c w)
  then have "whole_rune [c]" by (intro whole_rune_ascii) (simp add: ascii_def)
  from runes_whole [OF this, of "w @ rest"] Cons show ?case by (simp add: ascii_def)
qed simp

lemma hex_char_ascii: "n < 16 \<Longrightarrow> 0x30 \<le> (of_char (hex_char n) :: nat) \<and> (of_char (hex_char n) :: nat) < 0x7F"
proof -
  assume "n < 16"
  moreover have "list_all (\<lambda>n. hex_char n \<in> set ''0123456789abcdef'') [0..<16]" by code_simp
  ultimately have "hex_char n \<in> set ''0123456789abcdef''" unfolding list_all_iff set_upt by simp
  then show ?thesis by auto
qed

text \<open>Printable ASCII.\<close>

definition printable :: "string \<Rightarrow> bool" where
  "printable w \<longleftrightarrow> list_all (\<lambda>c. 32 \<le> (of_char c :: nat) \<and> (of_char c :: nat) < 0x7F) w"

lemma printable_ascii: "printable w \<Longrightarrow> ascii w"
  by (auto simp: printable_def ascii_def list_all_iff)

lemma printable_unicode_escape: "n < 256 \<Longrightarrow> printable (unicode_escape n)"
proof -
  assume "n < 256"
  then have "n div 16 < 16" by simp
  from hex_char_ascii [OF this] hex_char_ascii [of "n mod 16"] show ?thesis by (simp add: printable_def unicode_escape_def)
qed

lemma printable_json_char: "json_char False c \<noteq> [c] \<Longrightarrow> printable (json_char False c)"
proof -
  assume changed: "json_char False c \<noteq> [c]"
  have "printable (unicode_escape (of_char c))" by (rule printable_unicode_escape) (rule nat_of_char_less_256)
  with changed show ?thesis unfolding json_char_def by (auto simp: printable_def)
qed

lemma json_rune_cases:
  assumes "\<not> rune_error r" "whole_rune r"
  obtains (same) "json_rune False r = r" | (escaped) "printable (json_rune False r)" "\<not> isC1 r" "json_rune False r \<noteq> []"
proof -
  consider (sep) "r = [CHR 0xE2, CHR 0x80, CHR 0xA8] \<or> r = [CHR 0xE2, CHR 0x80, CHR 0xA9]" | (byte) c where "r = [c]"
    | (other) "r \<noteq> [CHR 0xE2, CHR 0x80, CHR 0xA8]" "r \<noteq> [CHR 0xE2, CHR 0x80, CHR 0xA9]" "\<nexists>c. r = [c]" by blast
  then show ?thesis
  proof cases
    case sep
    then show ?thesis using assms(1)
      by (intro escaped) (auto simp: json_rune_def printable_def isC1_def rune_error_def)
  next
    case (byte c)
    show ?thesis
    proof (cases "json_char False c = [c]")
      case True
      with byte assms(1) show ?thesis by (intro same) (simp add: json_rune_def)
    next
      case False
      then have "printable (json_char False c)" by (rule printable_json_char)
      moreover have "json_char False CHR 0x7F = [CHR 0x7F]" by code_simp
      with False have "c \<noteq> CHR 0x7F" by auto
      moreover have "json_char False c \<noteq> []" by (simp add: json_char_def unicode_escape_def)
      ultimately show ?thesis using byte assms(1)
        by (intro escaped) (simp_all add: json_rune_def isC1_def)
    qed
  next
    case other
    then show ?thesis using assms by (intro same) (auto simp: json_rune_def whole_rune_def split: list.splits)
  qed
qed

definition pieces :: "string \<Rightarrow> string list" where
  "pieces r = (if json_rune False r = r then [r] else map (\<lambda>c. [c]) (json_rune False r))"

lemma printable_byte:
  "32 \<le> (of_char c :: nat) \<Longrightarrow> (of_char c :: nat) < 0x7F \<Longrightarrow> \<not> isC1 [c] \<and> \<not> rune_error [c] \<and> escape_rune [c] = [c]"
  by (auto simp: isC1_def rune_error_def escape_rune_def)

lemma runes_piece:
  assumes "\<not> rune_error r" "whole_rune r"
  shows "runes (json_rune False r @ rest) = pieces r @ runes rest \<and>
    concat (map escape_rune (pieces r)) = quoted_rune r \<and> (list_ex isC1 (pieces r) \<longleftrightarrow> isC1 r)"
proof (cases "json_rune False r = r")
  case True
  with assms show ?thesis by (simp add: pieces_def runes_whole escape_rune_def quoted_rune_def)
next
  case False
  with assms have esc: "printable (json_rune False r)" "\<not> isC1 r" by (auto elim: json_rune_cases)
  have byte: "\<not> isC1 [c] \<and> escape_rune [c] = [c]" if "c \<in> set (json_rune False r)" for c
    using that esc(1) printable_byte [of c] by (auto simp: printable_def list_all_iff)
  then have "concat (map escape_rune (map (\<lambda>c. [c]) (json_rune False r))) = concat (map (\<lambda>c. [c]) (json_rune False r))"
    by (simp add: comp_def cong: map_cong)
  then have "concat (map escape_rune (pieces r)) = json_rune False r" using False by (simp add: pieces_def comp_def)
  with False esc byte runes_ascii [OF printable_ascii [OF esc(1)], of rest] show ?thesis
    by (auto simp: pieces_def quoted_rune_def list_ex_iff)
qed

lemma runes_quoted:
  "list_all (\<lambda>r. \<not> rune_error r \<and> whole_rune r) rs \<Longrightarrow>
     runes (concat (map (json_rune False) rs) @ rest) = concat (map pieces rs) @ runes rest"
  by (induction rs) (simp_all add: runes_piece)

lemma escaped_pieces:
  "list_all (\<lambda>r. \<not> rune_error r \<and> whole_rune r) rs \<Longrightarrow>
     concat (map escape_rune (concat (map pieces rs))) = concat (map quoted_rune rs) \<and>
     (list_ex isC1 (concat (map pieces rs)) \<longleftrightarrow> list_ex isC1 rs)"
  by (induction rs) (auto simp: runes_piece)

lemma utf8_valid_runes: "utf8_valid s \<Longrightarrow> list_all (\<lambda>r. \<not> rune_error r \<and> whole_rune r) (runes s)"
  unfolding utf8_valid_def list_all_iff by (blast intro: whole_runes)

lemma quoteString_runes:
  assumes "utf8_valid s"
  shows "quoteString s = CHR 0x22 # concat (map quoted_rune (runes s)) @ [CHR 0x22]"
proof -
  let ?rs = "runes s" and ?q = "[CHR 0x22]"
  note ok = utf8_valid_runes [OF assms]
  have q: "whole_rune ?q" "\<not> isC1 ?q" "escape_rune ?q = ?q"
    using printable_byte [of "CHR 0x22"] by (simp_all add: whole_rune_ascii)
  have "runes (?q @ []) = [?q]" using runes_whole [OF q(1), of "[]"] by simp
  with runes_quoted [OF ok, of ?q] runes_whole [OF q(1), of "concat (map (json_rune False) ?rs) @ ?q"]
  have split: "runes (json_quote False s) = ?q # concat (map pieces ?rs) @ [?q]" by (simp add: json_quote_def)
  show ?thesis
  proof (cases "list_ex isC1 ?rs")
    case True
    with split q escaped_pieces [OF ok] show ?thesis by (simp add: quoteString_def escapeC1_def)
  next
    case False
    then have "map quoted_rune ?rs = map (json_rune False) ?rs" by (auto simp: quoted_rune_def list_ex_iff)
    then have same: "concat (map quoted_rune ?rs) = concat (map (json_rune False) ?rs)" by (simp only:)
    from False split q escaped_pieces [OF ok] have "quoteString s = json_quote False s"
      by (simp add: quoteString_def escapeC1_def)
    then show ?thesis by (simp add: same json_quote_def)
  qed
qed

lemma writes_quoted_rune:
  assumes "r \<in> set (runes s)" "\<not> rune_error r"
  shows "writes r (quoted_rune r)"
proof -
  consider (c1) "isC1 r" | (sep) "r = [CHR 0xE2, CHR 0x80, CHR 0xA8] \<or> r = [CHR 0xE2, CHR 0x80, CHR 0xA9]" "\<not> isC1 r"
    | (byte) c where "r = [c]" "\<not> isC1 r"
    | (other) "\<not> isC1 r" "r \<noteq> [CHR 0xE2, CHR 0x80, CHR 0xA8]" "r \<noteq> [CHR 0xE2, CHR 0x80, CHR 0xA9]" "\<nexists>c. r = [c]" by blast
  then show ?thesis
  proof cases
    case c1
    have "utf8 (of_char (last r)) = r"
    proof (cases "r = [CHR 0x7F]")
      case False
      with c1 obtain d where d: "r = [CHR 0xC2, d]" "0x80 \<le> (of_char d :: nat)" "(of_char d :: nat) \<le> 0x9F"
        by (auto simp: isC1_def between_def split: list.splits)
      define n where "n = (of_char d :: nat)"
      from d(2,3) have n: "0x80 \<le> n" "n \<le> 0x9F" by (simp_all add: n_def)
      then have div: "n div 64 = 2" by linarith
      with div_mult_mod_eq [of n 64] have "0x80 + n mod 64 = n" by linarith
      moreover have "char_of (194 :: nat) = CHR 0xC2" by code_simp
      ultimately have "utf8 n = [CHR 0xC2, char_of n]" using n div by (simp add: utf8_def)
      then show ?thesis by (simp add: d(1) n_def)
    next
      case True
      have "char_of (127 :: nat) = CHR 0x7F" by code_simp
      with True show ?thesis by (simp add: utf8_def)
    qed
    moreover have "writes (utf8 (of_char (last r))) (unicode_escape (of_char (last r)))"
      by (rule writes_unicode) (rule nat_of_char_less_256)
    ultimately show ?thesis using c1 by (simp add: quoted_rune_def)
  next
    case sep
    have digits: "hex_digit CHR ''2'' = Some 2" "hex_digit CHR ''0'' = Some 0" "hex_digit CHR ''8'' = Some 8"
      "hex_digit CHR ''9'' = Some 9" by code_simp+
    have utf: "utf8 0x2028 = [CHR 0xE2, CHR 0x80, CHR 0xA8]" "utf8 0x2029 = [CHR 0xE2, CHR 0x80, CHR 0xA9]"
      by (simp add: utf8_def, code_simp)+
    have "json_unicode (''2028'' @ rest) = Some (utf8 0x2028, rest)" "json_unicode (''2029'' @ rest) = Some (utf8 0x2029, rest)" for rest
      by (simp_all add: json_unicode_def hex4_def digits)
    from json_chars_unicode [OF this(1)] json_chars_unicode [OF this(2)] sep assms(2) show ?thesis
      by (auto simp: writes_def quoted_rune_def json_rune_def utf)
  next
    case (byte c)
    have "writes [c] (json_char False c)"
    proof (cases "json_char False c = [c]")
      case True
      have "\<not> (of_char c :: nat) < 32" "c \<noteq> CHR 0x22" "c \<noteq> CHR 0x5C"
        using True by (auto simp: json_char_def unicode_escape_def split: if_splits)
      then show ?thesis unfolding True by (intro writes_plain) simp
    next
      case False
      consider (esc) d where "json_char False c = [CHR 0x5C, d]" "escaped_char d = Some c"
        | (uni) "json_char False c = unicode_escape (of_char c)" "(of_char c :: nat) < 32"
        using False by (auto simp: json_char_def escaped_char_def split: if_splits)
      then show ?thesis
      proof cases
        case esc
        have "(#) c = (@) [c]" by (simp add: fun_eq_iff)
        with esc json_chars_escape [OF esc(2)] show ?thesis by (simp add: writes_def)
      next
        case uni
        with writes_unicode [of "of_char c"] show ?thesis by (simp add: utf8_def)
      qed
    qed
    with byte assms(2) show ?thesis by (simp add: quoted_rune_def json_rune_def)
  next
    case other
    with in_runes [OF assms(1)] have "\<forall>c \<in> set r. 0x80 \<le> (of_char c :: nat)" by auto
    then have "writes r r" by (intro writes_plain) (auto simp: list_all_iff)
    with other assms(2) show ?thesis by (auto simp: quoted_rune_def json_rune_def split: list.splits)
  qed
qed

lemma json_chars_quoteString:
  assumes "utf8_valid s"
  shows "json_chars (drop 1 (quoteString s) @ rest) = Some (s, rest)"
proof -
  have "writes (concat (runes s)) (concat (map quoted_rune (runes s)))"
    using assms by (intro writes_concat) (auto simp: list_all_iff utf8_valid_def intro: writes_quoted_rune)
  then show ?thesis
    by (simp add: quoteString_runes [OF assms] writes_def concat_runes json_chars_close)
qed

section \<open>Lines are read back\<close>

lemma unquoted_start: "\<not> needsQuote s \<Longrightarrow> take 1 s \<noteq> [CHR 0x22]"
  by (cases s) (auto simp: needsQuote_def strings_HasPrefix_def)

lemma quoteString_start: "utf8_valid s \<Longrightarrow> take 1 (quoteString s @ rest) = [CHR 0x22]"
  by (simp add: quoteString_runes)

lemma read_key_QuoteKey:
  assumes "utf8_valid k"
  shows "read_key (QuoteKey k @ ''='' @ v) = Some (k, v)"
proof (cases "needsQuote k \<or> strings_Contains k ''=''")
  case True
  have "drop 1 (quoteString k @ ''='' @ v) = drop 1 (quoteString k) @ ''='' @ v" by (simp add: quoteString_runes [OF assms])
  with True json_chars_quoteString [OF assms, of "''='' @ v"] quoteString_start [OF assms, of "''='' @ v"] show ?thesis
    by (simp add: read_key_def QuoteKey_def)
next
  case False
  have "CHR ''='' \<notin> set k"
  proof
    assume "CHR ''='' \<in> set k"
    then obtain a b where "k = a @ ''='' @ b" by (auto simp: in_set_conv_decomp)
    with False show False unfolding strings_Contains_def by (simp only: sublist_appendI) simp
  qed
  moreover have "take 1 (k @ ''='' @ v) \<noteq> [CHR 0x22]" using False unquoted_start [of k] by (cases k) auto
  ultimately show ?thesis using False strings_Cut_at [of "CHR ''=''" k v] by (simp add: read_key_def QuoteKey_def)
qed

lemma read_value_QuoteValue:
  assumes "utf8_valid v"
  shows "read_value (QuoteValue v) = Some v"
proof (cases "needsQuote v \<or> v = ''null''")
  case True
  with json_chars_quoteString [OF assms, of "[]"] quoteString_start [OF assms, of "[]"] show ?thesis
    by (simp add: read_value_def QuoteValue_def)
next
  case False
  with unquoted_start [of v] show ?thesis by (simp add: read_value_def QuoteValue_def)
qed

text \<open>No byte that could end a line, or steer a terminal, is left.\<close>

definition calm_bytes :: "string \<Rightarrow> bool" where
  "calm_bytes w \<longleftrightarrow> list_all (\<lambda>c. 32 \<le> (of_char c :: nat) \<and> c \<noteq> CHR 0x7F) w"

lemma calm_no_newline: "calm_bytes w \<Longrightarrow> CHR 0x0A \<notin> set w"
  by (force simp: calm_bytes_def list_all_iff)

lemma calm_bytes_append: "calm_bytes (v @ w) \<longleftrightarrow> calm_bytes v \<and> calm_bytes w"
  by (simp add: calm_bytes_def)

lemma calm_bytes_quoted:
  assumes "utf8_valid s"
  shows "calm_bytes (quoteString s)"
proof -
  have "calm_bytes (quoted_rune r)" if r: "r \<in> set (runes s)" for r
  proof -
    have ok: "\<not> rune_error r" "whole_rune r" using utf8_valid_runes [OF assms] r by (auto simp: list_all_iff)
    have printed: "calm_bytes w" if "printable w" for w
      using that by (fastforce simp: printable_def calm_bytes_def list_all_iff)
    show ?thesis
    proof (cases "isC1 r")
      case True
      then show ?thesis
        by (simp add: quoted_rune_def printed printable_unicode_escape)
    next
      case no: False
      show ?thesis
      proof (cases rule: json_rune_cases [OF ok])
        case same: 1
        from in_runes [OF r] consider c where "r = [c]" | "\<forall>c \<in> set r. 0x80 \<le> (of_char c :: nat)" by auto
        then show ?thesis
        proof cases
          case 1
          have "\<not> (of_char c :: nat) < 32"
            using 1 same ok(1) by (auto simp: json_rune_def json_char_def unicode_escape_def split: if_splits)
          with 1 same no show ?thesis by (auto simp: quoted_rune_def calm_bytes_def isC1_def)
        next
          case 2
          then have "calm_bytes r" by (fastforce simp: calm_bytes_def list_all_iff)
          with same no show ?thesis by (simp add: quoted_rune_def)
        qed
      next
        case 2
        with no show ?thesis by (simp add: quoted_rune_def printed)
      qed
    qed
  qed
  then show ?thesis by (auto simp: quoteString_runes [OF assms] calm_bytes_def list_all_iff)
qed

lemma calm_bytes_unquoted:
  assumes "\<not> needsQuote s"
  shows "calm_bytes s"
proof -
  have "32 \<le> (of_char c :: nat) \<and> c \<noteq> CHR 0x7F" if "c \<in> set s" for c
  proof -
    from that have "c \<in> set (concat (runes s))" by (simp add: concat_runes)
    then obtain r where r: "r \<in> set (runes s)" "c \<in> set r" by auto
    with assms have "\<not> isControl r" "s \<noteq> []" by (cases s; auto simp: needsQuote_def list_ex_iff split: if_splits)+
    with in_runes [OF r(1)] r(2) show ?thesis by (fastforce simp: isControl_def isC1_def)
  qed
  then show ?thesis by (simp add: calm_bytes_def list_all_iff)
qed

lemma calm_bytes_line: "utf8_valid k \<Longrightarrow> calm_bytes (QuoteKey k)" "utf8_valid v \<Longrightarrow> calm_bytes (QuoteValue v)"
  by (auto simp: QuoteKey_def QuoteValue_def intro: calm_bytes_quoted calm_bytes_unquoted)

text \<open>
  C39: the key=value output of an object of strings is, line by line, what a consumer following the line
  contract reads back: each line, in the order of the keys, is read as its key and its value, whatever they
  hold (equals signs, quotes, line breaks, the word null), and no line holds a control byte.
\<close>

theorem renderKV_roundtrip:
  assumes "unmarshal_map doc = Some (True, flat)"
    and "\<And>k j. (k, j) \<in> set flat \<Longrightarrow> utf8_valid k \<and> (\<exists>v. j = JStr v \<and> utf8_valid v)"
  shows "\<exists>out lines. renderKV (Some doc) = Inr out \<and> strings_Split out CHR 0x0A = lines @ [[]] \<and>
     list_all calm_bytes lines \<and>
     map read_line lines = map (\<lambda>k. map_option (\<lambda>j. (k, str_of j)) (map_of flat k)) (sort (map fst flat))"
proof -
  have lines: "\<exists>out lines. kv_lines flat ks = Inr out \<and> strings_Split out CHR 0x0A = lines @ [[]] \<and>
      list_all calm_bytes lines \<and> map read_line lines = map (\<lambda>k. map_option (\<lambda>j. (k, str_of j)) (map_of flat k)) ks"
    if "set ks \<subseteq> fst ` set flat" for ks
    using that
  proof (induction ks)
    case (Cons k ks)
    then obtain out lines where rest: "kv_lines flat ks = Inr out" "strings_Split out CHR 0x0A = lines @ [[]]"
      "list_all calm_bytes lines" "map read_line lines = map (\<lambda>k. map_option (\<lambda>j. (k, str_of j)) (map_of flat k)) ks" by auto
    from Cons.prems obtain j where j: "map_of flat k = Some j"
      by (cases "map_of flat k") (auto simp: map_of_eq_None_iff)
    with assms(2) obtain v where v: "j = JStr v" "utf8_valid v" "utf8_valid k" by (blast dest: map_of_SomeD)
    let ?line = "QuoteKey k @ ''='' @ QuoteValue v"
    have calm: "calm_bytes ?line" using calm_bytes_line v by (simp add: calm_bytes_append) (simp add: calm_bytes_def)
    then have "CHR 0x0A \<notin> set ?line" by (rule calm_no_newline)
    from strings_Split_append [OF this, of out] rest(2)
    have "strings_Split (?line @ [CHR 0x0A] @ out) CHR 0x0A = (?line # lines) @ [[]]" by simp
    moreover have "kv_lines flat (k # ks) = Inr (?line @ [CHR 0x0A] @ out)" using j v rest(1) by (simp add: kvValue_def)
    moreover have "read_line ?line = Some (k, v)"
      using read_key_QuoteKey [OF v(3)] read_value_QuoteValue [OF v(2)] by (simp add: read_line_def)
    ultimately show ?case using rest(3,4) calm j v(1)
      by (intro exI [of _ "?line @ [CHR 0x0A] @ out"] exI [of _ "?line # lines"]) (simp add: str_of_def)
  qed simp
  have "set (sort (map fst flat)) \<subseteq> fst ` set flat" by simp
  from lines [OF this] assms(1) show ?thesis by (simp add: renderKV_def)
qed

theorem renderKV_roundtrip_witness:
  "\<exists>out lines. renderKV (Some (JObj [] [(''a=b'', JStr ''null''), (''c'', JStr [CHR 0x0A])])) = Inr out \<and>
     strings_Split out CHR 0x0A = lines @ [[]] \<and> map read_line lines = [Some (''a=b'', ''null''), Some (''c'', [CHR 0x0A])]"
proof -
  let ?doc = "JObj [] [(''a=b'', JStr ''null''), (''c'', JStr [CHR 0x0A])]"
  let ?flat = "[(''a=b'', JStr ''null''), (''c'', JStr [CHR 0x0A])]"
  have doc: "unmarshal_map ?doc = Some (True, ?flat)" by code_simp
  have valid: "utf8_valid ''a=b''" "utf8_valid ''null''" "utf8_valid ''c''" "utf8_valid [CHR 0x0A]" by code_simp+
  have sorted: "sort (map fst ?flat) = [''a=b'', ''c'']" by code_simp
  have "\<exists>out lines. renderKV (Some ?doc) = Inr out \<and> strings_Split out CHR 0x0A = lines @ [[]] \<and>
     list_all calm_bytes lines \<and>
     map read_line lines = map (\<lambda>k. map_option (\<lambda>j. (k, str_of j)) (map_of ?flat k)) (sort (map fst ?flat))"
    by (rule renderKV_roundtrip [OF doc]) (use valid in auto)
  then show ?thesis unfolding sorted by (auto simp: str_of_def)
qed

end
