(* ===== verification/NetBridge.thy ===== *)
theory NetBridge
  imports NetStage KvRender
begin

text \<open>
  The creation and the removal of a bridge (\<open>internal/idempotent/networkbridge.go\<close>), as an operation of the
  engine: what is wanted, when it is satisfied, and the transaction that brings it about under the guard of
  the management bridge.  The comparable state of \<open>Read\<close> is the JSON text of the interface, empty when it does
  not exist; here it is the decoded map of that text, whose values are compacted as \<open>json.Marshal\<close> does it.
\<close>

section \<open>The operation\<close>

datatype networkBridgeMode = modeUnset | modeCreate | modeDestroy

record bridge_request =
  nb_node :: string
  nb_iface :: string
  nb_management :: string
  nb_wanted :: "string gomap"
  nb_mode :: networkBridgeMode

definition NewNetworkBridgeCreate :: "string \<Rightarrow> string \<Rightarrow> string \<Rightarrow> string gomap \<Rightarrow> bridge_request" where
  "NewNetworkBridgeCreate node iface mgmtBridge wanted =
     \<lparr>nb_node = node, nb_iface = iface, nb_management = mgmtBridge, nb_wanted = wanted, nb_mode = modeCreate\<rparr>"

definition NewNetworkBridgeDestroy :: "string \<Rightarrow> string \<Rightarrow> string \<Rightarrow> bridge_request" where
  "NewNetworkBridgeDestroy node iface mgmtBridge =
     \<lparr>nb_node = node, nb_iface = iface, nb_management = mgmtBridge, nb_wanted = [], nb_mode = modeDestroy\<rparr>"

definition normalizeAutostart :: "string \<Rightarrow> string option" where
  "normalizeAutostart v =
     (case parseBoolish v of (b, ok) \<Rightarrow> if \<not> ok then None else if b then Some ''1'' else Some ''0'')"

definition bridge_error :: "bridge_request \<Rightarrow> frag list \<Rightarrow> gerror" where
  "bridge_error q what = Errorf ([Lit ''network bridge ensure: '', Lit (nb_iface q), Lit '': ''] @ what)"

definition NetworkBridge_Validate :: "bridge_request \<Rightarrow> gerror option" where
  "NetworkBridge_Validate q =
     (let refuse = (\<lambda>what. Some (Errorf ([Lit ''network bridge ensure: iface '', Lit (nb_iface q), Lit '': ''] @ what))) in
      if nb_node q = [] then Some (ErrorString ''network bridge ensure: node is required'')
      else if nb_iface q = [] then Some (ErrorString ''network bridge ensure: iface is required'')
      else if nb_management q = [] then
        Some (ErrorString (''network bridge ensure: management bridge is required (no default is provided '' @
          [CHR 0xE2, CHR 0x80, CHR 0x94] @ '' see NetworkBridgeEnsure.ManagementBridge'' @ [CHR 0x27] @ ''s own doc comment)''))
      else if map_of (nb_wanted q) ''iface'' \<noteq> None then
        refuse [Lit (''Wanted must not itself contain an '' @ [CHR 0x22] @ ''iface'' @ [CHR 0x22] @ '' key; Apply always sets it from Iface'')]
      else if (case map_of (nb_wanted q) ''autostart'' of None \<Rightarrow> False | Some v \<Rightarrow> normalizeAutostart v = None) then
        refuse [Lit ''autostart '', Lit (QuoteValue (the (map_of (nb_wanted q) ''autostart''))),
          Lit '' is not a boolean; use 1/true or 0/false'']
      else if nb_mode q = modeUnset then
        refuse [Lit ''mode is unset; construct with NewNetworkBridgeCreate or NewNetworkBridgeDestroy'']
      else if nb_mode q = modeDestroy \<and> nb_wanted q \<noteq> [] then
        refuse [Lit ''a destroy carries no Wanted fields (got '', Dec (int (length (nb_wanted q))), Lit '')'']
      else None)"

definition NetworkBridge_Read :: "env \<Rightarrow> bridge_request \<Rightarrow> ('r sess_scheme, gerror + json gomap option) state" where
  "NetworkBridge_Read env q = do {
     r \<leftarrow> fetchInterface env (nb_node q) (nb_iface q);
     ret (case r of
        Inl e \<Rightarrow> Inl (Errorf [Lit ''network bridge ensure: read '', Lit (nb_iface q), Lit '': '', Wrapped e])
      | Inr None \<Rightarrow> Inr None
      | Inr (Some m) \<Rightarrow> Inr (Some (map (\<lambda>(k, v). (k, compact_value v)) m)))
   }"

text \<open>What a create asks for: the wanted fields, a type and an autostart flag in PVE's spelling.\<close>

definition effectiveWanted :: "bridge_request \<Rightarrow> string gomap" where
  "effectiveWanted q =
     (if nb_mode q \<noteq> modeCreate then []
      else
        let out = (case map_of (nb_wanted q) ''type'' of
                     None \<Rightarrow> AList.update ''type'' ''bridge'' (nb_wanted q) | Some _ \<Rightarrow> nb_wanted q)
        in (case map_of out ''autostart'' of
              None \<Rightarrow> AList.update ''autostart'' ''1'' out
            | Some v \<Rightarrow> (case normalizeAutostart v of None \<Rightarrow> out | Some norm \<Rightarrow> AList.update ''autostart'' norm out)))"

definition autostartRequested :: "string gomap \<Rightarrow> bool" where
  "autostartRequested want =
     (case map_of want ''autostart'' of None \<Rightarrow> False | Some v \<Rightarrow> normalizeAutostart v = Some ''1'')"

definition field_satisfied :: "json gomap \<Rightarrow> string \<Rightarrow> string \<Rightarrow> bool" where
  "field_satisfied m field want =
     (case map_of m field of
        None \<Rightarrow> field = ''autostart'' \<and> fieldsEqual ''0'' want
      | Some raw \<Rightarrow> (case Scalar raw of Inl e \<Rightarrow> False | Inr got \<Rightarrow> fieldsEqual got want))"

definition NetworkBridge_Satisfied :: "bridge_request \<Rightarrow> json gomap option \<Rightarrow> bool" where
  "NetworkBridge_Satisfied q current =
     (case nb_mode q of
        modeDestroy \<Rightarrow> current = None
      | modeCreate \<Rightarrow>
          (case current of
             None \<Rightarrow> False
           | Some m \<Rightarrow> list_all (\<lambda>(field, want). field_satisfied m field want) (effectiveWanted q))
      | modeUnset \<Rightarrow> False)"

definition negativeLivenessReliable :: "bridge_request \<Rightarrow> string gomap \<Rightarrow> bool" where
  "negativeLivenessReliable q want =
     (if nb_mode q = modeDestroy then True
      else if map_of want ''type'' \<in> {Some ''OVSPort'', Some ''OVSIntPort'', Some ''OVSBond''} then
        (case map_of want ''ovs_bridge'' of None \<Rightarrow> True | Some b \<Rightarrow> b = [])
      else True)"

section \<open>Apply\<close>

text \<open>The stage request: a create over an existing interface converges it, any other create adds it.\<close>

definition wanted_form :: "string gomap \<Rightarrow> url_values" where
  "wanted_form want = fold (\<lambda>(field, val) params. values_Set field val params) want []"

definition stage_request :: "bridge_request \<Rightarrow> bool \<Rightarrow> http_method \<times> string \<times> url_values" where
  "stage_request q converge =
     (if nb_mode q = modeCreate then
        (if converge then (PUT, iface_path (nb_node q) (nb_iface q), wanted_form (effectiveWanted q))
         else (POST, network_path (nb_node q), values_Set ''iface'' (nb_iface q) (wanted_form (effectiveWanted q))))
      else (DELETE, iface_path (nb_node q) (nb_iface q), []))"

definition NetworkBridge_stage :: "env \<Rightarrow> bridge_request \<Rightarrow> bool \<Rightarrow> ('r sess_scheme, gerror option) state" where
  "NetworkBridge_stage env q converge =
     (case stage_request q converge of (meth, path, params) \<Rightarrow> do {
        r \<leftarrow> RawRequest env meth path params;
        ret (case r of Inl e \<Rightarrow> Some e | Inr _ \<Rightarrow> None)
      })"

definition abortAndRevert :: "env \<Rightarrow> bridge_request \<Rightarrow> string \<Rightarrow> ('r sess_scheme, gerror) state" where
  "abortAndRevert env q reason = do {
     e \<leftarrow> revertNetworkStage env (nb_node q) reason;
     ret (bridge_error q [Wrapped e])
   }"

definition activeTruthy :: "string \<Rightarrow> bool" where
  "activeTruthy s \<longleftrightarrow> strings_ToLower (strings_TrimSpace s) \<notin> {[], ''0'', ''false'', ''null''}"

text \<open>The flag PVE reports for an interface it just answered for.\<close>

definition reported_active :: "json gomap option \<Rightarrow> gerror + bool" where
  "reported_active existing =
     (case Option.bind existing (\<lambda>m. map_of m ''active'') of
        None \<Rightarrow> Inr False
      | Some raw \<Rightarrow> (case Scalar raw of Inl e \<Rightarrow> Inl e | Inr s \<Rightarrow> Inr (activeTruthy s)))"

definition self_check_text :: "bridge_request \<Rightarrow> bool \<Rightarrow> link_state \<Rightarrow> string option" where
  "self_check_text q active link =
     (let already = ('' immediately after staging, before commit'');
          reports = (\<lambda>b. Some (''guard self-check failed: op.Iface '' @ nb_iface q @ '' already reports active='' @ b @ already));
          shows = (\<lambda>b. Some (''guard self-check failed: op.Iface '' @ nb_iface q @ [CHR 0x27] @ ''s LinkState already shows Exists='' @ b @ already))
      in if nb_mode q = modeCreate then
           (if active then reports ''true'' else if lk_exists link then shows ''true'' else None)
         else (if \<not> active then reports ''false'' else if \<not> lk_exists link then shows ''false'' else None))"

definition guardSelfCheck :: "env \<Rightarrow> target \<Rightarrow> bridge_request \<Rightarrow> ('r sess_scheme, gerror option) state" where
  "guardSelfCheck env t q = do {
     r \<leftarrow> fetchInterface env (nb_node q) (nb_iface q);
     case r of
       Inl e \<Rightarrow> do {
         x \<leftarrow> revertStagedAfter env (nb_node q) (bridge_error q [Lit ''guard self-check: read iface state: '', Wrapped e]);
         ret (Some x)
       }
     | Inr existing \<Rightarrow>
         (case reported_active existing of
            Inl e \<Rightarrow> do {
              x \<leftarrow> revertStagedAfter env (nb_node q) (bridge_error q [Lit ''guard self-check: parse active flag: '', Wrapped e]);
              ret (Some x)
            }
          | Inr active \<Rightarrow> do {
              l \<leftarrow> LinkState env t (nb_iface q);
              case l of
                Inl e \<Rightarrow> do {
                  x \<leftarrow> revertStagedAfter env (nb_node q) (bridge_error q [Lit ''guard self-check: read kernel link state: '', Wrapped e]);
                  ret (Some x)
                }
              | Inr link \<Rightarrow>
                  (case self_check_text q active link of
                     None \<Rightarrow> ret None
                   | Some reason \<Rightarrow> do { x \<leftarrow> abortAndRevert env q reason; ret (Some x) })
            })
   }"

text \<open>The refusal of a create over an interface of another type, and whether the create converges it.\<close>

definition existing_type :: "json gomap \<Rightarrow> string" where
  "existing_type m = (case map_of m ''type'' of None \<Rightarrow> [] | Some raw \<Rightarrow> (case Scalar raw of Inl e \<Rightarrow> [] | Inr s \<Rightarrow> s))"

definition wanted_type :: "bridge_request \<Rightarrow> string" where
  "wanted_type q = (case map_of (effectiveWanted q) ''type'' of None \<Rightarrow> [] | Some ty \<Rightarrow> ty)"

definition converges :: "env \<Rightarrow> bridge_request \<Rightarrow> ('r sess_scheme, gerror + bool) state" where
  "converges env q =
     (if nb_mode q \<noteq> modeCreate then ret (Inr False)
      else do {
        r \<leftarrow> fetchInterface env (nb_node q) (nb_iface q);
        ret (case r of
            Inl e \<Rightarrow> Inl (bridge_error q [Lit ''pre-stage read: '', Wrapped e])
          | Inr None \<Rightarrow> Inr False
          | Inr (Some m) \<Rightarrow>
              if existing_type m = [] \<or> existing_type m \<noteq> wanted_type q then
                Inl (bridge_error q [Lit ''already exists as type '', Lit (QuoteValue (existing_type m)), Lit '', not '',
                  Lit (QuoteValue (wanted_type q)), Lit ''; refusing to create it (nothing staged)''])
              else Inr True)
      })"

text \<open>Step 1: the management bridge and its link before anything is staged.\<close>

definition bridge_snapshot :: "env \<Rightarrow> target \<Rightarrow> bridge_request \<Rightarrow> ('r sess_scheme, gerror + json gomap \<times> link_state) state" where
  "bridge_snapshot env t q = do {
     r \<leftarrow> fetchInterface env (nb_node q) (nb_management q);
     case r of
       Inl e \<Rightarrow> ret (Inl (bridge_error q [Lit ''pre-stage snapshot of management bridge '', Lit (nb_management q), Lit '': '', Wrapped e]))
     | Inr None \<Rightarrow> ret (Inl (bridge_error q [Lit ''management bridge '', Lit (nb_management q), Lit '' does not exist'']))
     | Inr (Some m) \<Rightarrow> do {
         l \<leftarrow> LinkState env t (nb_management q);
         ret (case l of
            Inl e \<Rightarrow> Inl (bridge_error q [Lit ''pre-stage kernel snapshot of management bridge '', Lit (nb_management q), Lit '': '', Wrapped e])
          | Inr link \<Rightarrow> Inr (m, link))
       }
   }"

text \<open>Step 3: the management bridge again, with the stage pending; an error has discarded the stage.\<close>

definition pending_snapshot :: "env \<Rightarrow> bridge_request \<Rightarrow> ('r sess_scheme, gerror + json gomap) state" where
  "pending_snapshot env q = do {
     r \<leftarrow> fetchInterface env (nb_node q) (nb_management q);
     case r of
       Inl e \<Rightarrow> do {
         x \<leftarrow> revertStagedAfter env (nb_node q)
           (bridge_error q [Lit ''post-stage snapshot of management bridge '', Lit (nb_management q), Lit '': '', Wrapped e]);
         ret (Inl x)
       }
     | Inr None \<Rightarrow> do {
         x \<leftarrow> revertStagedAfter env (nb_node q)
           (bridge_error q [Lit ''management bridge '', Lit (nb_management q), Lit '' vanished immediately after staging'']);
         ret (Inl x)
       }
     | Inr (Some m) \<Rightarrow> ret (Inr m)
   }"

definition bool_text :: "bool \<Rightarrow> string" where
  "bool_text b = (if b then ''true'' else ''false'')"

text \<open>Steps 7 and 8: the links after the commit.\<close>

definition verify_links :: "env \<Rightarrow> target \<Rightarrow> bridge_request \<Rightarrow> link_state \<Rightarrow> ('r sess_scheme, gerror option) state" where
  "verify_links env t q before = do {
     p \<leftarrow> LinkState env t (nb_management q);
     case p of
       Inl e \<Rightarrow> ret (Some (bridge_error q [Lit ''post-apply kernel check of management bridge '', Lit (nb_management q), Lit '': '', Wrapped e]))
     | Inr after \<Rightarrow>
         if lk_exists after \<noteq> lk_exists before \<or> lk_up after \<noteq> lk_up before then
           ret (Some (bridge_error q [Lit ''management bridge '', Lit (nb_management q),
             Lit ([CHR 0x27] @ ''s kernel link state changed unexpectedly during apply (before: exists=''), Lit (bool_text (lk_exists before)),
             Lit '' up='', Lit (bool_text (lk_up before)), Lit ''; after: exists='', Lit (bool_text (lk_exists after)), Lit '' up='',
             Lit (bool_text (lk_up after)), Lit ('') '' @ [CHR 0xE2, CHR 0x80, CHR 0x94] @
               '' pve has already committed and reconfigured the kernel; no automatic remediation attempted'')]))
         else do {
           let ew = effectiveWanted q;
           let wantExists = (nb_mode q = modeCreate \<and> autostartRequested ew);
           l \<leftarrow> LinkState env t (nb_iface q);
           ret (case l of
              Inl e \<Rightarrow> Some (bridge_error q [Lit ''post-apply kernel check: '', Wrapped e])
            | Inr link \<Rightarrow>
                if (wantExists \<or> negativeLivenessReliable q ew) \<and> lk_exists link \<noteq> wantExists then
                  Some (bridge_error q [Lit ''post-apply kernel state mismatch: expected exists='', Lit (bool_text wantExists),
                    Lit '', kernel reports exists='', Lit (bool_text (lk_exists link))])
                else None)
         }
   }"

text \<open>Steps 6 to 8: commit, wait, verify.\<close>

definition bridge_commit :: "env \<Rightarrow> target \<Rightarrow> bridge_request \<Rightarrow> link_state \<Rightarrow> ('r sess_scheme, gerror option) state" where
  "bridge_commit env t q before = do {
     c \<leftarrow> commitNetworkStage env (nb_node q);
     case c of
       Inl e \<Rightarrow> do {
         x \<leftarrow> revertStagedAfter env (nb_node q)
           (bridge_error q [Lit ''commit failed, outcome unknown (the change may or may not have been applied): '', Wrapped e]);
         ret (Some x)
       }
     | Inr upid \<Rightarrow> do {
         w \<leftarrow> WaitForTask env (nb_node q) upid;
         case w of
           Some e \<Rightarrow> ret (Some (bridge_error q [Lit ''commit task '', Lit upid,
               Lit '' did not complete successfully (no revert attempted: pve may already have applied this change, in whole or in part): '', Wrapped e]))
         | None \<Rightarrow> verify_links env t q before
       }
   }"

definition NetworkBridge_Apply :: "env \<Rightarrow> target \<Rightarrow> bridge_request \<Rightarrow> ('r sess_scheme, gerror option) state" where
  "NetworkBridge_Apply env t q =
     (case NetworkBridge_Validate q of
        Some e \<Rightarrow> ret (Some e)
      | None \<Rightarrow> do {
          snap \<leftarrow> bridge_snapshot env t q;
          case snap of
            Inl e \<Rightarrow> ret (Some e)
          | Inr (current, before) \<Rightarrow> do {
              cv \<leftarrow> converges env q;
              case cv of
                Inl e \<Rightarrow> ret (Some e)
              | Inr converge \<Rightarrow> do {
                  st \<leftarrow> NetworkBridge_stage env q converge;
                  case st of
                    Some e \<Rightarrow> ret (Some (bridge_error q [Lit ''stage: '', Wrapped e]))
                  | None \<Rightarrow> do {
                      pend \<leftarrow> pending_snapshot env q;
                      case pend of
                        Inl e \<Rightarrow> ret (Some e)
                      | Inr pending \<Rightarrow> do {
                          g \<leftarrow> guardSelfCheck env t q;
                          case g of
                            Some e \<Rightarrow> ret (Some e)
                          | None \<Rightarrow>
                              if canonicalHash env pending \<noteq> canonicalHash env current then do {
                                x \<leftarrow> abortAndRevert env q (''management bridge '' @ nb_management q @ [CHR 0x27] @
                                  ''s staged config changed during the stage window (refusing to commit an unrelated staged change): '' @
                                  diffFields current pending);
                                ret (Some x)
                              }
                              else bridge_commit env t q before
                        }
                    }
                }
            }
        })"

definition NetworkBridge :: "env \<Rightarrow> target \<Rightarrow> bridge_request \<Rightarrow> ('r sess_scheme, json gomap option) op" where
  "NetworkBridge env t q =
     \<lparr>op_Read = NetworkBridge_Read env q, op_Satisfied = (\<lambda>_. NetworkBridge_Satisfied q),
      op_Apply = NetworkBridge_Apply env t q, op_PostApply = None, op_ReRead = None, op_PostNoop = None\<rparr>"

section \<open>The transaction\<close>

text \<open>The stage request, the guard of the commit and what a success rests on.\<close>

definition bridge_stage :: "bridge_request \<Rightarrow> event \<Rightarrow> bool" where
  "bridge_stage q e \<longleftrightarrow> (\<exists>converge a. case stage_request q converge of (m, p, f) \<Rightarrow> e = EHttp m p f a)"

definition bridge_guard :: "env \<Rightarrow> bridge_request \<Rightarrow> event list \<Rightarrow> event list \<Rightarrow> bool" where
  "bridge_guard env q pre mid \<longleftrightarrow>
     (\<exists>current pending. saw_interface (nb_node q) (nb_management q) (Some current) pre \<and>
        saw_interface (nb_node q) (nb_management q) (Some pending) mid \<and>
        canonicalHash env current = canonicalHash env pending) \<and>
     (\<exists>existing. saw_interface (nb_node q) (nb_iface q) existing mid \<and>
        reported_active existing = Inr (nb_mode q \<noteq> modeCreate)) \<and>
     (\<exists>link. saw_link (nb_iface q) link mid \<and> lk_exists link = (nb_mode q \<noteq> modeCreate))"

definition bridge_verified :: "bridge_request \<Rightarrow> string \<Rightarrow> event list \<Rightarrow> event list \<Rightarrow> bool" where
  "bridge_verified q u pre post \<longleftrightarrow>
     task_seen_ok u post \<and>
     (\<exists>before after. saw_link (nb_management q) before pre \<and> saw_link (nb_management q) after post \<and>
        lk_exists after = lk_exists before \<and> lk_up after = lk_up before) \<and>
     (\<exists>link. saw_link (nb_iface q) link post \<and>
        (let up = (nb_mode q = modeCreate \<and> autostartRequested (effectiveWanted q)) in
         lk_exists link = up \<or> \<not> up \<and> \<not> negativeLivenessReliable q (effectiveWanted q)))"

lemma traces_abortAndRevert: "traces (abortAndRevert env q reason) (\<lambda>r es. discards (nb_node q) es)"
  unfolding abortAndRevert_def
  by (rule traces_bind [OF traces_revert(2)], rule traces_return) (auto simp: discards_def reverts_def)

lemma traces_bridge_snapshot:
  "traces (bridge_snapshot env t q)
     (\<lambda>r es. list_all reads es \<and> (\<forall>m link. r = Inr (m, link) \<longrightarrow>
        saw_interface (nb_node q) (nb_management q) (Some m) es \<and> saw_link (nb_management q) link es))"
  unfolding bridge_snapshot_def
  by (intro traces_bind [OF traces_fetch_saw] traces_bind [OF traces_link_saw] traces_case_sum traces_case_option traces_return)
    (auto intro: saw_append split: sum.splits)

lemma traces_converges: "traces (converges env q) (\<lambda>r es. list_all reads es)"
  unfolding converges_def by (intro traces_if traces_return traces_bind [OF traces_fetch_saw]) auto

lemma stage_request_path:
  "stage_request q c = (m, p, f) \<Longrightarrow> (\<exists>rest. p = CHR ''/'' # rest) \<and> unsupported_method m = None \<and> m \<noteq> GET"
  using network_paths_slash by (auto simp: stage_request_def split: if_splits)

lemma traces_NetworkBridge_stage:
  "traces (NetworkBridge_stage env q c) (\<lambda>r es. \<exists>e. es = [e] \<and> bridge_stage q e \<and> (r = None \<longleftrightarrow> accepted e))"
proof -
  obtain m p f where st: "stage_request q c = (m, p, f)" by (metis prod_cases3)
  note path = stage_request_path [OF st]
  have "bridge_stage q (EHttp m p f a)" for a unfolding bridge_stage_def using st by (intro exI [of _ c]) simp
  then have here: "\<exists>e. [EHttp m p f a] @ [] = [e] \<and> bridge_stage q e \<and>
      ((case raw_result a of Inl e \<Rightarrow> Some e | Inr _ \<Rightarrow> None) = None) = accepted e" for a
    by (cases "raw_result a") auto
  show ?thesis
    unfolding NetworkBridge_stage_def st prod.case
    by (rule traces_bind [OF traces_raw], use path in blast, use path in blast, rule traces_return)
      (use here in auto)
qed

lemma traces_pending_snapshot:
  "traces (pending_snapshot env q)
     (\<lambda>r es. case r of Inl e \<Rightarrow> discards (nb_node q) es
        | Inr m \<Rightarrow> list_all reads es \<and> saw_interface (nb_node q) (nb_management q) (Some m) es)"
  unfolding pending_snapshot_def
  by (intro traces_bind [OF traces_fetch_saw] traces_bind [OF traces_revert_discards] traces_case_sum traces_case_option traces_return)
    (auto intro: discards_after)

lemma traces_guardSelfCheck:
  "traces (guardSelfCheck env t q)
     (\<lambda>r es. case r of Some e \<Rightarrow> discards (nb_node q) es
        | None \<Rightarrow> list_all reads es \<and>
            (\<exists>existing. saw_interface (nb_node q) (nb_iface q) existing es \<and> reported_active existing = Inr (nb_mode q \<noteq> modeCreate)) \<and>
            (\<exists>link. saw_link (nb_iface q) link es \<and> lk_exists link = (nb_mode q \<noteq> modeCreate)))"
  unfolding guardSelfCheck_def
  by (intro traces_bind [OF traces_fetch_saw] traces_bind [OF traces_link_saw] traces_bind [OF traces_revert_discards]
      traces_bind [OF traces_abortAndRevert] traces_case_sum traces_case_option traces_return)
    (auto intro: discards_after saw_append simp: self_check_text_def Let_def split: if_splits)

definition links_verified :: "bridge_request \<Rightarrow> link_state \<Rightarrow> event list \<Rightarrow> bool" where
  "links_verified q before es \<longleftrightarrow>
     (\<exists>after. saw_link (nb_management q) after es \<and> lk_exists after = lk_exists before \<and> lk_up after = lk_up before) \<and>
     (\<exists>link. saw_link (nb_iface q) link es \<and>
        (let up = (nb_mode q = modeCreate \<and> autostartRequested (effectiveWanted q)) in
         lk_exists link = up \<or> \<not> up \<and> \<not> negativeLivenessReliable q (effectiveWanted q)))"

lemma links_verified_append: "links_verified q before es \<Longrightarrow> links_verified q before (fs @ es)"
  unfolding links_verified_def by (blast intro: saw_append)

lemma traces_verify_links:
  "traces (verify_links env t q before) (\<lambda>r es. list_all reads es \<and> (r = None \<longrightarrow> links_verified q before es))"
  unfolding verify_links_def Let_def
proof (rule traces_bind [OF traces_link_saw], rule traces_case_sum, goal_cases)
  case (1 p es e)
  then show ?case by (auto intro: traces_return)
next
  case (2 p es after)
  then have es: "list_all reads es" "saw_link (nb_management q) after es" by auto
  show ?case
  proof (rule traces_if, goal_cases)
    case 1
    with es show ?case by (auto intro: traces_return)
  next
    case 2
    show ?case
      by (rule traces_bind [OF traces_link_saw], rule traces_return)
        (use 2 es in \<open>auto simp: links_verified_def Let_def intro: saw_append split: sum.splits if_splits\<close>)
  qed
qed

lemma traces_bridge_commit:
  "traces (bridge_commit env t q before)
     (commit_spec (nb_node q) (\<lambda>u post. task_seen_ok u post \<and> links_verified q before post))"
  unfolding bridge_commit_def
proof (rule traces_bind [OF traces_commitNetworkStage], rule traces_case_sum, goal_cases)
  case (1 c es e)
  show ?case
    by (rule traces_bind [OF traces_revert(1)], rule traces_return) (use 1 in \<open>auto intro!: commit_spec_failed\<close>)
next
  case cm: (2 c es upid)
  show ?case
  proof (rule traces_bind [OF traces_WaitForTask_ok], rule traces_case_option, goal_cases)
    case (1 w fs)
    show ?case
      by (rule traces_mono [OF traces_verify_links], rule commit_spec_ok)
        (use 1 cm in \<open>auto intro: links_verified_append\<close>)
  next
    case (2 w fs e)
    show ?case by (rule traces_return, rule commit_spec_ok) (use 2 cm in auto)
  qed
qed

lemma traces_NetworkBridge_Apply:
  "traces (NetworkBridge_Apply env t q)
     (transaction (nb_node q) (bridge_stage q) (\<lambda>pre st. bridge_guard env q pre) (bridge_verified q))"
  unfolding NetworkBridge_Apply_def
proof (rule traces_case_option, goal_cases)
  case 2
  then show ?case by (auto intro!: traces_return transaction.refused)
next
  case 1
  show ?case
  proof (rule traces_bind [OF traces_bridge_snapshot], rule traces_case_sum, goal_cases)
    case (1 s0 e0 e)
    then show ?case by (auto intro!: traces_return transaction.refused)
  next
    case snap: (2 s0 e0 mb)
    obtain current before where mb: "mb = (current, before)" by force
    show ?case unfolding mb prod.case
    proof (rule traces_bind [OF traces_converges], rule traces_case_sum, goal_cases)
      case (1 cv e1 e)
      with snap show ?case by (auto intro!: traces_return transaction.refused)
    next
      case cv: (2 cv e1 converge)
      let ?pre = "e0 @ e1"
      have pre: "list_all reads ?pre" "saw_interface (nb_node q) (nb_management q) (Some current) ?pre"
        "saw_link (nb_management q) before ?pre" using snap cv mb by (auto intro: saw_append)
      show ?case
      proof (rule traces_bind [OF traces_NetworkBridge_stage], rule traces_case_option, goal_cases)
        case (2 st es e)
        then obtain sg where sg: "es = [sg]" "bridge_stage q sg" "\<not> accepted sg" by auto
        from transaction.not_staged [where pre = ?pre and S = "bridge_stage q", OF pre(1) sg(2,3)] show ?case
          by (intro traces_return) (simp add: sg(1))
      next
        case (1 st es)
        then obtain sg where sg: "es = [sg]" "bridge_stage q sg" "accepted sg" by auto
        have disc: "transaction (nb_node q) (bridge_stage q) (\<lambda>pre st. bridge_guard env q pre) (bridge_verified q) (Some e) (e0 @ e1 @ es @ m @ d)"
          if "list_all reads m" "discards (nb_node q) d" for e m d
          using transaction_discards [where pre = ?pre and S = "bridge_stage q" and G = "\<lambda>pre st. bridge_guard env q pre" and V = "bridge_verified q"
            and e = e, OF pre(1) sg(2,3) that] by (simp add: sg(1))
        show ?case
        proof (rule traces_bind [OF traces_pending_snapshot], rule traces_case_sum, goal_cases)
          case (1 pd e2 e)
          with disc [of "[]" e2] show ?case by (intro traces_return) simp
        next
          case pend: (2 pd e2 pending)
          show ?case
          proof (rule traces_bind [OF traces_guardSelfCheck], rule traces_case_option, goal_cases)
            case (2 g e3 e)
            with disc [of e2 e3] pend show ?case by (intro traces_return) simp
          next
            case chk: (1 g e3)
            let ?mid = "e2 @ e3"
            show ?case
            proof (rule traces_if, goal_cases)
              case 1
              show ?case
                by (rule traces_bind [OF traces_abortAndRevert], rule traces_return)
                  (use disc [of ?mid] pend chk in simp)
            next
              case 2
              have "saw_interface (nb_node q) (nb_management q) (Some pending) ?mid" using pend by (simp add: saw_append)
              moreover have "canonicalHash env current = canonicalHash env pending" using 2 by simp
              moreover have "\<exists>existing. saw_interface (nb_node q) (nb_iface q) existing ?mid \<and>
                  reported_active existing = Inr (nb_mode q \<noteq> modeCreate)"
                "\<exists>link. saw_link (nb_iface q) link ?mid \<and> lk_exists link = (nb_mode q \<noteq> modeCreate)"
                using chk by (auto intro: saw_append)
              ultimately have guard: "bridge_guard env q ?pre ?mid"
                unfolding bridge_guard_def using pre(2) by blast
              show ?case
              proof (rule traces_mono [OF traces_bridge_commit])
                fix r fs
                assume spec: "commit_spec (nb_node q) (\<lambda>u post. task_seen_ok u post \<and> links_verified q before post) r fs"
                have mid: "list_all reads ?mid" using pend chk by simp
                have "transaction (nb_node q) (bridge_stage q) (\<lambda>pre st. bridge_guard env q pre) (bridge_verified q) r (?pre @ sg # ?mid @ fs)"
                  by (rule transaction_commit [where V = "bridge_verified q" and G = "\<lambda>pre st. bridge_guard env q pre" and S = "bridge_stage q" and pre = ?pre,
                        OF spec pre(1) sg(2,3) mid guard])
                    (use pre(3) in \<open>unfold bridge_verified_def links_verified_def, blast\<close>)
                then show "transaction (nb_node q) (bridge_stage q) (\<lambda>pre st. bridge_guard env q pre) (bridge_verified q) r
                    (e0 @ e1 @ es @ e2 @ e3 @ fs)" by (simp add: sg(1))
              qed
            qed
          qed
        qed
      qed
    qed
  qed
qed

section \<open>What a run does\<close>

text \<open>What a read of the interface showed, as the comparable state keeps it.\<close>

definition bridge_read :: "bridge_request \<Rightarrow> json gomap option \<Rightarrow> event list \<Rightarrow> bool" where
  "bridge_read q c es \<longleftrightarrow>
     (\<exists>m. saw_interface (nb_node q) (nb_iface q) m es \<and> c = map_option (map (\<lambda>(k, v). (k, compact_value v))) m)"

lemma traces_NetworkBridge_Read:
  "traces (NetworkBridge_Read env q) (\<lambda>r es. list_all reads es \<and> (\<forall>c. r = Inr c \<longrightarrow> bridge_read q c es))"
  unfolding NetworkBridge_Read_def
  by (rule traces_bind [OF traces_fetch_saw], rule traces_return) (fastforce simp: bridge_read_def split: sum.splits option.splits)

lemma bridge_stage_events:
  "bridge_stage q e \<Longrightarrow> is_write e \<and> \<not> commits (nb_node q) e \<and> \<not> reverts (nb_node q) e"
  by (auto simp: bridge_stage_def stage_request_def commits_def reverts_def iface_path_def split: if_splits)

interpretation bridge_op: staged_op "NetworkBridge env t q" "nb_node q" "bridge_stage q" "\<lambda>pre st. bridge_guard env q pre" "bridge_verified q"
    "bridge_read q" "NetworkBridge_Satisfied q" for env t q
  by unfold_locales
    (use traces_NetworkBridge_Read traces_NetworkBridge_Apply bridge_stage_events in \<open>auto simp: NetworkBridge_def\<close>)

text \<open>
  C4: every write of a run that ensures a bridge is its one stage request, a commit or a discard; a commit
  only follows a stage that PVE accepted, with the management bridge read before and after it and hashed to
  the same value, and with PVE and the kernel both still showing the interface in its old state; a discard
  only follows such a stage, and never a commit that PVE answered with a task.
\<close>

theorem NetworkBridge_commit_guarded:
  assumes "run_state (Run env rp key (NetworkBridge env t q) force) s = (res, s')"
  shows "\<exists>es. log s' = log s @ es \<and>
    (\<forall>before e after. es = before @ e # after \<longrightarrow> is_write e \<longrightarrow>
       bridge_stage q e \<or>
       (\<exists>hist pre st mid. before = hist @ pre @ st # mid \<and> list_all reads pre \<and> bridge_stage q st \<and> accepted st \<and>
          list_all reads mid \<and> (commits (nb_node q) e \<and> bridge_guard env q pre mid \<or> reverts (nb_node q) e)) \<or>
       (\<exists>hist pre st mid cm. before = hist @ pre @ st # mid @ [cm] \<and> list_all reads pre \<and> bridge_stage q st \<and> accepted st \<and>
          list_all reads mid \<and> commits (nb_node q) cm \<and> commit_upid cm = None \<and> reverts (nb_node q) e))"
  using bridge_op.Run_guarded [OF assms] unfolding gated_def stage_admits_def .

text \<open>
  C5: a run never leaves its stage pending: the next write after a stage that PVE accepted commits or discards
  it, with only reads between, and a commit whose outcome is unknown is discarded at once, on every path.
\<close>

theorem NetworkBridge_settles:
  assumes "run_state (Run env rp key (NetworkBridge env t q) force) s = (res, s')"
  shows "\<exists>es. log s' = log s @ es \<and>
    (\<forall>pre e post. es = pre @ e # post \<longrightarrow>
       (bridge_stage q e \<and> accepted e \<longrightarrow>
          (\<exists>mid w rest. post = mid @ w # rest \<and> list_all reads mid \<and> (commits (nb_node q) w \<or> reverts (nb_node q) w))) \<and>
       (commits (nb_node q) e \<and> commit_upid e = None \<longrightarrow> (\<exists>w rest. post = w # rest \<and> reverts (nb_node q) w)))"
  using bridge_op.Run_settled [OF assms] unfolding settled_def .

text \<open>
  C27: a run that reports a change committed it: PVE took the stage and answered the commit with a task, the
  task was seen to end well, the management bridge's link is as before, and the interface's link exists
  exactly when the request asks for it (except for ports that PVE starts itself); a run that reports none
  saw PVE's answer that the interface is missing, for a removal, or its fields as wanted, for a creation.
\<close>

theorem NetworkBridge_success:
  assumes "run_state (Run env rp key (NetworkBridge env t q) force) s = (Inr x, s')"
  shows "\<exists>es. log s' = log s @ es \<and>
    (if Changed x then
       (\<exists>hist pre st mid cm u post after. es = hist @ pre @ st # mid @ cm # post @ after \<and> bridge_stage q st \<and> accepted st \<and>
          commits (nb_node q) cm \<and> commit_upid cm = Some u \<and> bridge_guard env q pre mid \<and> bridge_verified q u pre post)
     else
       (\<exists>pre mid post m. es = pre @ mid @ post \<and> saw_interface (nb_node q) (nb_iface q) m mid \<and>
          NetworkBridge_Satisfied q (map_option (map (\<lambda>(k, v). (k, compact_value v))) m)))"
proof (cases "Changed x")
  case True
  from bridge_op.Run_committed [OF assms True] obtain es before st mid cm u post after hist pre where
    "log s' = log s @ es" "es = before @ st # mid @ cm # post @ after" "before = hist @ pre" "bridge_stage q st" "accepted st"
    "commits (nb_node q) cm" "commit_upid cm = Some u" "bridge_guard env q pre mid" "bridge_verified q u pre post" by blast
  then have run: "es = hist @ pre @ st # mid @ cm # post @ after" by simp
  note exs = exI [of _ hist] exI [of _ pre] exI [of _ st] exI [of _ mid] exI [of _ cm] exI [of _ u] exI [of _ post] exI [of _ after]
  show ?thesis unfolding if_P [OF True] by (rule exI [of _ es], rule conjI, fact, (rule exs)+, intro conjI) (fact | rule run)+
next
  case False
  with bridge_op.Run_success [OF assms] obtain pre mid post m where run: "log s' = log s @ pre @ mid @ post"
    and seen: "saw_interface (nb_node q) (nb_iface q) m mid"
      "NetworkBridge_Satisfied q (map_option (map (\<lambda>(k, v). (k, compact_value v))) m)" unfolding bridge_read_def by auto
  show ?thesis unfolding if_not_P [OF False]
    by (rule exI [of _ "pre @ mid @ post"], rule conjI, fact, intro exI conjI) (rule refl | fact)+
qed


section \<open>A removal, step by step\<close>

text \<open>A node whose kernel loses the bridge \<open>vmbr9\<close> once a staged change was committed.\<close>

definition net_fields :: "json gomap" where
  "net_fields = [(''type'', JStr ''bridge''), (''active'', JNum ''1'')]"

definition net_answer :: "http_method \<Rightarrow> http_reply" where
  "net_answer m = HAnswer 200 ''200 OK'' ''{..}'' (Some (JObj ''{..}''
     [(''data'', if m = GET then JObj ''{..}'' net_fields else if m = PUT then JStr demo_upid else JNull)]))"

definition up_reply :: ssh_result where
  "up_reply = \<lparr>sr_stdout = ''[{'' @ [CHR 0x22] @ ''operstate'' @ [CHR 0x22] @ '':'' @ [CHR 0x22] @ ''UP'' @ [CHR 0x22] @ ''}]'',
     sr_stderr = [], sr_exit = 0\<rparr>"

definition gone_reply :: ssh_result where
  "gone_reply = \<lparr>sr_stdout = [], sr_stderr = ''Device does not exist.'', sr_exit = 1\<rparr>"

definition net_world :: env where
  "net_world = calm\<lparr>e_http := (\<lambda>h m p f. net_answer m),
     e_ssh := (\<lambda>h cmd. Inr (if list_ex (is_request PUT) h \<and> cmd = link_command ''vmbr9'' then gone_reply else up_reply))\<rparr>"

definition demo_bridge :: bridge_request where
  "demo_bridge = NewNetworkBridgeDestroy ''pve1'' ''vmbr9'' ''vmbr0''"

definition open_session :: sess where
  "open_session = \<lparr>log = [], ssh_open = True\<rparr>"

lemma raw_net_answer: "raw_result (net_answer m) = Inr (if m = GET then JObj ''{..}'' net_fields else if m = PUT then JStr demo_upid else JNull)"
  by (cases m) code_simp+

lemma link_replies: "link_answer iface (Inr up_reply) = Inr \<lparr>lk_exists = True, lk_up = True\<rparr>"
  "link_answer iface (Inr gone_reply) = Inr absent_link"
proof -
  have "decode_structs ip_link_fields \<lparr>ip_ifname = [], ip_operstate = [], ip_flags = []\<rparr> (json_Unmarshal (sr_stdout up_reply)) =
      Some [\<lparr>ip_ifname = [], ip_operstate = ''UP'', ip_flags = []\<rparr>]" by code_simp
  moreover have "strings_Contains (sr_stderr gone_reply) linkDoesNotExistSubstring" by code_simp
  ultimately show "link_answer iface (Inr up_reply) = Inr \<lparr>lk_exists = True, lk_up = True\<rparr>"
    "link_answer iface (Inr gone_reply) = Inr absent_link"
    by (simp_all add: link_answer_def link_of_entry_def up_reply_def gone_reply_def strings_EqualFold_def)
qed

lemma run_fetch_world:
  "run_state (fetchInterface net_world ''pve1'' iface) s =
     (Inr (Some net_fields), s\<lparr>log := log s @ [EHttp GET (iface_path ''pve1'' iface) [] (net_answer GET)]\<rparr>)"
proof -
  obtain p where p: "iface_path ''pve1'' iface = CHR ''/'' # p" using network_paths_slash by blast
  have "interface_answer iface (Inr (JObj ''{..}'' net_fields)) = Inr (Some net_fields)" by code_simp
  then show ?thesis
    by (simp add: fetchInterface_def RawRequest_def p strings_HasPrefix_def http_do_def run_perform net_world_def raw_net_answer)
qed

lemma run_link_world:
  assumes "ssh_open s" and "iface \<noteq> []"
  shows "run_state (LinkState net_world demo_target iface) s =
     (Inr (if list_ex (is_request PUT) (log s) \<and> link_command iface = link_command ''vmbr9'' then absent_link
           else \<lparr>lk_exists = True, lk_up = True\<rparr>),
      s\<lparr>log := log s @ [EQuery (link_command iface) (e_ssh net_world (log s) (link_command iface))]\<rparr>)"
  using assms
  by (simp add: LinkState_def withSSH_def Ssh_LinkState_def ssh_query_def run_simps net_world_def link_replies)

lemma link_commands: "link_command ''vmbr0'' \<noteq> link_command ''vmbr9''"
  by code_simp

lemma run_raw_net:
  assumes "path = CHR ''/'' # p" and "unsupported_method m = None"
  shows "run_state (RawRequest net_world m path f) s =
     (Inr (if m = GET then JObj ''{..}'' net_fields else if m = PUT then JStr demo_upid else JNull),
      s\<lparr>log := log s @ [EHttp m path f (net_answer m)]\<rparr>)"
  using assms by (simp add: RawRequest_def strings_HasPrefix_def http_do_def run_perform net_world_def raw_net_answer)

lemma demo_bridge_fields:
  "nb_node demo_bridge = ''pve1''" "nb_iface demo_bridge = ''vmbr9''" "nb_management demo_bridge = ''vmbr0''"
  "nb_mode demo_bridge = modeDestroy" "NetworkBridge_Validate demo_bridge = None"
  "stage_request demo_bridge c = (DELETE, iface_path ''pve1'' ''vmbr9'', [])"
  by (simp_all add: demo_bridge_def NewNetworkBridgeDestroy_def NetworkBridge_Validate_def stage_request_def)

lemma run_bridge_Apply:
  fixes s :: sess
  assumes "ssh_open s" and "\<not> list_ex (is_request PUT) (log s)"
  shows "\<exists>s'. run_state (NetworkBridge_Apply net_world demo_target demo_bridge) s = (None, s')"
proof -
  obtain p p' where p: "iface_path ''pve1'' ''vmbr9'' = CHR ''/'' # p" "network_path ''pve1'' = CHR ''/'' # p'"
    using network_paths_slash by blast
  have active: "reported_active (Some net_fields) = Inr True" by code_simp
  have upid: "commit_answer (Inr (JStr demo_upid)) = Inr demo_upid" by code_simp
  have wait: "run_state (WaitForTask net_world ''pve1'' demo_upid) s =
      (None, s\<lparr>log := log s @ [ETask demo_upid (Inr \<lparr>ts_status = ''stopped'', ts_exitstatus = ''OK''\<rparr>)]\<rparr>)" for s :: sess
    by (rule run_WaitForTask_calm) (simp_all add: net_world_def)
  have snapshot: "\<exists>s1. run_state (bridge_snapshot net_world demo_target demo_bridge) s =
      (Inr (net_fields, \<lparr>lk_exists = True, lk_up = True\<rparr>), s1) \<and> ssh_open s1 \<and> \<not> list_ex (is_request PUT) (log s1)"
    using assms by (simp add: bridge_snapshot_def run_fetch_world run_link_world demo_bridge_fields link_commands)
  have staged: "\<exists>s2. run_state (NetworkBridge_stage net_world demo_bridge False) s1 = (None, s2) \<and> ssh_open s2 \<and>
      \<not> list_ex (is_request PUT) (log s2)" if "ssh_open s1" "\<not> list_ex (is_request PUT) (log s1)" for s1 :: sess
    using that by (simp add: NetworkBridge_stage_def demo_bridge_fields run_raw_net [OF p(1)])
  have pending: "\<exists>s3. run_state (pending_snapshot net_world demo_bridge) s2 = (Inr net_fields, s3) \<and> ssh_open s3 \<and>
      \<not> list_ex (is_request PUT) (log s3)" if "ssh_open s2" "\<not> list_ex (is_request PUT) (log s2)" for s2 :: sess
    using that by (simp add: pending_snapshot_def demo_bridge_fields run_fetch_world)
  have checked: "\<exists>s4. run_state (guardSelfCheck net_world demo_target demo_bridge) s3 = (None, s4) \<and> ssh_open s4"
    if "ssh_open s3" "\<not> list_ex (is_request PUT) (log s3)" for s3 :: sess
    using that by (simp add: guardSelfCheck_def demo_bridge_fields run_fetch_world run_link_world active self_check_text_def)
  have committed: "\<exists>s5. run_state (bridge_commit net_world demo_target demo_bridge \<lparr>lk_exists = True, lk_up = True\<rparr>) s4 = (None, s5)"
    if "ssh_open s4" for s4 :: sess
    using that
    by (simp add: bridge_commit_def commitNetworkStage_def demo_bridge_fields run_raw_net [OF p(2)] upid wait verify_links_def
        run_link_world link_commands absent_link_def)
  from snapshot obtain s1 where s1: "run_state (bridge_snapshot net_world demo_target demo_bridge) s =
      (Inr (net_fields, \<lparr>lk_exists = True, lk_up = True\<rparr>), s1)" "ssh_open s1" "\<not> list_ex (is_request PUT) (log s1)" by blast
  from staged [OF s1(2,3)] obtain s2 where s2: "run_state (NetworkBridge_stage net_world demo_bridge False) s1 = (None, s2)"
    "ssh_open s2" "\<not> list_ex (is_request PUT) (log s2)" by blast
  from pending [OF s2(2,3)] obtain s3 where s3: "run_state (pending_snapshot net_world demo_bridge) s2 = (Inr net_fields, s3)"
    "ssh_open s3" "\<not> list_ex (is_request PUT) (log s3)" by blast
  from checked [OF s3(2,3)] obtain s4 where s4: "run_state (guardSelfCheck net_world demo_target demo_bridge) s3 = (None, s4)"
    "ssh_open s4" by blast
  from committed [OF s4(2)] show ?thesis
    by (simp add: NetworkBridge_Apply_def demo_bridge_fields converges_def s1(1) s2(1) s3(1) s4(1))
qed

lemma run_bridge:
  "\<exists>s' x. run_state (Run net_world ''roster.yaml'' demo_key (NetworkBridge net_world demo_target demo_bridge) False) open_session =
     (Inr x, s') \<and> Changed x"
proof -
  let ?oper = "NetworkBridge net_world demo_target demo_bridge"
  let ?cmp = "map (\<lambda>(k, v). (k, compact_value v)) net_fields"
  obtain s1 where mut: "run_state (Mutation net_world ''roster.yaml'' demo_key) open_session =
      (Inr (kf_resource (filesFor ''roster.yaml'' demo_key)), s1)" and s1: "ssh_open s1" "\<not> list_ex (is_request PUT) (log s1)"
    by (simp add: Mutation_def ensureLockDir_def acquire_def Let_def primitive_defs run_simps net_world_def open_session_def)
  then obtain s2 where rd: "run_state (op_Read ?oper) s1 = (Inr (Some ?cmp), s2)"
    and s2: "ssh_open s2" "\<not> list_ex (is_request PUT) (log s2)"
    by (simp add: NetworkBridge_def NetworkBridge_Read_def demo_bridge_fields run_fetch_world)
  have unsat: "\<not> op_Satisfied ?oper s2 (Some ?cmp)"
    by (simp add: NetworkBridge_def NetworkBridge_Satisfied_def demo_bridge_fields)
  from run_bridge_Apply [OF s2] obtain s3 where ap: "run_state (op_Apply ?oper) s2 = (None, s3)"
    by (auto simp: NetworkBridge_def)
  obtain a s5 where rr: "run_state (case op_ReRead ?oper of None \<Rightarrow> op_Read ?oper | Some m \<Rightarrow> m) s3 = (a, s5)" by force
  have chk: "run_state (run_check demo_key '': post-apply check: '' (op_PostApply ?oper)) s5 = (None, s5)"
    by (simp add: run_check_def NetworkBridge_def)
  obtain x where "run_state (attempts (maxConflictRetries - 1) demo_key ?oper False) s1 = (Inr x, s5)" "Changed x"
    using run_attempts_applied [OF rd disjI2 [OF unsat] ap(1) rr chk] by blast
  moreover obtain u s6 where "run_state (unlock net_world (kf_resource (filesFor ''roster.yaml'' demo_key))) s5 = (u, s6)"
    by force
  ultimately show ?thesis using mut by (simp add: Run_def)
qed

text \<open>The run that removes \<open>vmbr9\<close> there: it stages, commits, and the commit is guarded.\<close>

abbreviation demo_removal :: "(gerror + json gomap option result) \<times> sess" where
  "demo_removal \<equiv>
     run_state (Run net_world ''roster.yaml'' demo_key (NetworkBridge net_world demo_target demo_bridge) False) open_session"

theorem NetworkBridge_commit_guarded_witness:
  "\<exists>es. log (snd demo_removal) = es \<and> (\<forall>before e after. es = before @ e # after \<longrightarrow> is_write e \<longrightarrow>
     bridge_stage demo_bridge e \<or>
     (\<exists>hist pre st mid. before = hist @ pre @ st # mid \<and> list_all reads pre \<and> bridge_stage demo_bridge st \<and> accepted st \<and>
        list_all reads mid \<and> (commits ''pve1'' e \<and> bridge_guard net_world demo_bridge pre mid \<or> reverts ''pve1'' e)) \<or>
     (\<exists>hist pre st mid cm. before = hist @ pre @ st # mid @ [cm] \<and> list_all reads pre \<and> bridge_stage demo_bridge st \<and> accepted st \<and>
        list_all reads mid \<and> commits ''pve1'' cm \<and> commit_upid cm = None \<and> reverts ''pve1'' e))"
proof -
  have "log open_session = []" by (simp add: open_session_def)
  with NetworkBridge_commit_guarded [of net_world "''roster.yaml''" demo_key demo_target demo_bridge False open_session
      "fst demo_removal" "snd demo_removal"]
  show ?thesis unfolding demo_bridge_fields by simp
qed

theorem NetworkBridge_settles_witness:
  "\<exists>es. log (snd demo_removal) = es \<and> (\<forall>pre e post. es = pre @ e # post \<longrightarrow>
     (bridge_stage demo_bridge e \<and> accepted e \<longrightarrow>
        (\<exists>mid w rest. post = mid @ w # rest \<and> list_all reads mid \<and> (commits ''pve1'' w \<or> reverts ''pve1'' w))) \<and>
     (commits ''pve1'' e \<and> commit_upid e = None \<longrightarrow> (\<exists>w rest. post = w # rest \<and> reverts ''pve1'' w)))"
proof -
  have "log open_session = []" by (simp add: open_session_def)
  with NetworkBridge_settles [of net_world "''roster.yaml''" demo_key demo_target demo_bridge False open_session
      "fst demo_removal" "snd demo_removal"]
  show ?thesis unfolding demo_bridge_fields by simp
qed

theorem NetworkBridge_success_witness:
  "\<exists>hist pre st mid cm u post after. log (snd demo_removal) = hist @ pre @ st # mid @ cm # post @ after \<and>
     bridge_stage demo_bridge st \<and> accepted st \<and> commits ''pve1'' cm \<and> commit_upid cm = Some u \<and>
     bridge_guard net_world demo_bridge pre mid \<and> bridge_verified demo_bridge u pre post"
proof -
  obtain s' x where run: "demo_removal = (Inr x, s')" "Changed x" using run_bridge by blast
  have "log open_session = []" by (simp add: open_session_def)
  with NetworkBridge_success [OF run(1)] run show ?thesis unfolding demo_bridge_fields if_P [OF run(2)] by simp
qed

end
