(* ===== verification/NetFields.thy ===== *)
theory NetFields
  imports NetBridge
begin

text \<open>
  Setting fields of a network interface (\<open>internal/idempotent/networkfields.go\<close>): the second operation
  that is a transaction of \<open>NetStage\<close>.  Its guard is wider than the bridge's: every other interface of the
  node must hash to what it was before the stage.  The comparable state of \<open>Read\<close> is the JSON text of
  \<open>networkFieldsState\<close>, whose \<open>otherHashes\<close> is never filled; here it is the map \<open>current\<close> of that text.
\<close>

section \<open>The operation\<close>

record net_request =
  nf_node :: string
  nf_iface :: string
  nf_pairs :: "pair list"

text \<open>The fields that the operation's methods write.\<close>

record netfields = sess +
  nf_current :: "string gomap"
  nf_applied :: "string list"

definition net_error :: "net_request \<Rightarrow> frag list \<Rightarrow> gerror" where
  "net_error q what = Errorf ([Lit ''network fields ensure: '', Lit (nf_iface q), Lit '': ''] @ what)"

fun validate_net_pairs :: "string \<Rightarrow> string list \<Rightarrow> pair list \<Rightarrow> gerror option" where
  "validate_net_pairs iface seen [] = None"
| "validate_net_pairs iface seen (p # ps) =
     (let refuse = (\<lambda>what. Some (Errorf ([Lit ''network fields ensure: iface '', Lit iface, Lit '': ''] @ what))) in
      if pr_field p \<in> set seen then refuse [Lit ''field '', Quo (pr_field p), Lit '' specified more than once'']
      else if pr_field p = ''type'' then
        refuse [Lit ([CHR 0x22] @ ''type'' @ [CHR 0x22] @ '' cannot be set: the stage always sends the interface'' @ [CHR 0x27] @
          ''s current type itself, as PVE requires, and an interface'' @ [CHR 0x27] @ ''s type cannot be changed this way'')]
      else validate_net_pairs iface (pr_field p # seen) ps)"

definition NetworkFields_Validate :: "net_request \<Rightarrow> gerror option" where
  "NetworkFields_Validate q =
     (if nf_node q = [] then Some (ErrorString ''network fields ensure: node is required'')
      else if nf_iface q = [] then Some (ErrorString ''network fields ensure: iface is required'')
      else if nf_pairs q = [] then
        Some (Errorf [Lit ''network fields ensure: iface '', Lit (nf_iface q), Lit '': at least one field is required''])
      else validate_net_pairs (nf_iface q) [] (nf_pairs q))"

text \<open>The current values of the requested fields; an absent field stays absent.\<close>

fun current_values :: "net_request \<Rightarrow> json gomap \<Rightarrow> string gomap \<Rightarrow> pair list \<Rightarrow> gerror + string gomap" where
  "current_values q m current [] = Inr current"
| "current_values q m current (p # ps) =
     (case map_of m (pr_field p) of
        None \<Rightarrow> current_values q m current ps
      | Some raw \<Rightarrow>
          (case Scalar raw of
             Inl e \<Rightarrow> Inl (net_error q [Lit ''field '', Quo (pr_field p), Lit '': '', Wrapped e])
           | Inr s \<Rightarrow> current_values q m (AList.update (pr_field p) s current) ps))"

definition NetworkFields_Read :: "env \<Rightarrow> net_request \<Rightarrow> (netfields, gerror + string gomap) state" where
  "NetworkFields_Read env q = do {
     r \<leftarrow> fetchInterface env (nf_node q) (nf_iface q);
     case r of
       Inl e \<Rightarrow> ret (Inl (net_error q [Lit ''read: '', Wrapped e]))
     | Inr None \<Rightarrow> ret (Inl (net_error q [Lit ''interface does not exist'']))
     | Inr (Some m) \<Rightarrow>
         (case current_values q m [] (nf_pairs q) of
            Inl e \<Rightarrow> ret (Inl e)
          | Inr current \<Rightarrow> do {
              _ \<leftarrow> modify (\<lambda>s. s\<lparr>nf_current := current\<rparr>);
              ret (Inr current)
            })
   }"

definition NetworkFields_Satisfied :: "net_request \<Rightarrow> string gomap \<Rightarrow> bool" where
  "NetworkFields_Satisfied q current =
     list_all (\<lambda>p. case map_of current (pr_field p) of None \<Rightarrow> False | Some v \<Rightarrow> fieldsEqual v (pr_value p)) (nf_pairs q)"

section \<open>Apply\<close>

text \<open>The type an interface has in a listing of the node.\<close>

definition currentInterfaceType :: "json gomap gomap \<Rightarrow> string \<Rightarrow> gerror + string" where
  "currentInterfaceType listing iface =
     (case map_of listing iface of
        None \<Rightarrow> Inl (ErrorString (''interface is not in the node'' @ [CHR 0x27] @
          ''s interface list, so its current type is unknown; refusing to stage''))
      | Some m \<Rightarrow>
          (case map_of m ''type'' of
             None \<Rightarrow> Inl (ErrorString (''interface has no type in the node'' @ [CHR 0x27] @
               ''s interface list; refusing to stage without one''))
           | Some raw \<Rightarrow>
               (case unmarshal_string raw of
                  Some ty \<Rightarrow> if ty \<noteq> [] then Inr ty
                    else Inl (Errorf [Lit (''interface'' @ [CHR 0x27] @ ''s type ''), Lit (raw_text raw),
                      Lit '' is not a non-empty string; refusing to stage''])
                | None \<Rightarrow> Inl (Errorf [Lit (''interface'' @ [CHR 0x27] @ ''s type ''), Lit (raw_text raw),
                      Lit '' is not a non-empty string; refusing to stage'']))))"

definition otherInterfaceHashes :: "env \<Rightarrow> json gomap gomap \<Rightarrow> string \<Rightarrow> string gomap" where
  "otherInterfaceHashes env listing exclude =
     map (\<lambda>(iface, m). (iface, canonicalHash env m)) (filter (\<lambda>(iface, m). iface \<noteq> exclude) listing)"

text \<open>A Go map reads as the zero value where it has no entry.\<close>

definition hash_at :: "string gomap \<Rightarrow> string \<Rightarrow> string" where
  "hash_at hashes iface = (case map_of hashes iface of None \<Rightarrow> [] | Some h \<Rightarrow> h)"

definition fields_at :: "json gomap gomap \<Rightarrow> string \<Rightarrow> json gomap" where
  "fields_at listing iface = (case map_of listing iface of None \<Rightarrow> [] | Some m \<Rightarrow> m)"

definition changedOtherInterfaces ::
    "json gomap gomap \<Rightarrow> json gomap gomap \<Rightarrow> string gomap \<Rightarrow> string gomap \<Rightarrow> string" where
  "changedOtherInterfaces beforeFields afterFields beforeHashes afterHashes =
     (let sorted_names = sort (remdups (map fst beforeHashes @ map fst afterHashes));
          changed = filter (\<lambda>iface. hash_at beforeHashes iface \<noteq> hash_at afterHashes iface) sorted_names
      in join_with ''; '' (map (\<lambda>iface. iface @ '': '' @ diffFields (fields_at beforeFields iface) (fields_at afterFields iface)) changed))"

text \<open>The request of the stage carries the current type beside the pairs.\<close>

definition fields_form :: "net_request \<Rightarrow> string \<Rightarrow> url_values" where
  "fields_form q ty = values_Set ''type'' ty (fold (\<lambda>p params. values_Set (pr_field p) (pr_value p) params) (nf_pairs q) [])"

definition NetworkFields_stage :: "env \<Rightarrow> net_request \<Rightarrow> string \<Rightarrow> ('r sess_scheme, gerror option) state" where
  "NetworkFields_stage env q ty = do {
     r \<leftarrow> RawRequest env PUT (iface_path (nf_node q) (nf_iface q)) (fields_form q ty);
     ret (case r of Inl e \<Rightarrow> Some e | Inr _ \<Rightarrow> None)
   }"

text \<open>Step 1: the listing before the stage, and the type the stage must carry.\<close>

definition fields_snapshot :: "env \<Rightarrow> net_request \<Rightarrow> ('r sess_scheme, gerror + json gomap gomap \<times> string) state" where
  "fields_snapshot env q = do {
     r \<leftarrow> fetchAllInterfaces env (nf_node q);
     ret (case r of
        Inl e \<Rightarrow> Inl (net_error q [Lit ''pre-stage snapshot of other interfaces: '', Wrapped e])
      | Inr listing \<Rightarrow>
          (case currentInterfaceType listing (nf_iface q) of
             Inl e \<Rightarrow> Inl (net_error q [Wrapped e])
           | Inr ty \<Rightarrow> Inr (listing, ty)))
   }"

text \<open>Steps 3 and 4: the listing with the stage pending; a difference discards the stage.\<close>

definition compare_others :: "env \<Rightarrow> net_request \<Rightarrow> json gomap gomap \<Rightarrow> ('r sess_scheme, gerror option) state" where
  "compare_others env q before = do {
     r \<leftarrow> fetchAllInterfaces env (nf_node q);
     case r of
       Inl e \<Rightarrow> do {
         x \<leftarrow> revertStagedAfter env (nf_node q) (net_error q [Lit ''post-stage snapshot of other interfaces: '', Wrapped e]);
         ret (Some x)
       }
     | Inr after \<Rightarrow>
         (let diff = changedOtherInterfaces before after (otherInterfaceHashes env before (nf_iface q))
                       (otherInterfaceHashes env after (nf_iface q)) in
          if diff \<noteq> [] then do {
            x \<leftarrow> revertNetworkStage env (nf_node q)
              (''another interface'' @ [CHR 0x27] @ ''s staged config changed during the stage window (refusing to commit an unrelated staged change): '' @ diff);
            ret (Some (net_error q [Wrapped x]))
          }
          else ret None)
   }"

text \<open>Steps 5 and 6: commit, wait, and the interface's link.\<close>

definition fields_verify :: "env \<Rightarrow> target \<Rightarrow> net_request \<Rightarrow> (netfields, gerror option) state" where
  "fields_verify env t q = do {
     l \<leftarrow> LinkState env t (nf_iface q);
     case l of
       Inl e \<Rightarrow> ret (Some (net_error q [Lit ''post-apply kernel check: '', Wrapped e]))
     | Inr link \<Rightarrow>
         if \<not> lk_exists link then
           ret (Some (net_error q [Lit (''post-apply kernel state mismatch: interface no longer exists after apply '' @
             [CHR 0xE2, CHR 0x80, CHR 0x94] @
             '' pve has already committed and reconfigured the kernel; no automatic remediation attempted'')]))
         else do {
           _ \<leftarrow> modify (\<lambda>s. s\<lparr>nf_applied := map pr_field (nf_pairs q)\<rparr>);
           ret None
         }
   }"

definition fields_commit :: "env \<Rightarrow> target \<Rightarrow> net_request \<Rightarrow> (netfields, gerror option) state" where
  "fields_commit env t q = do {
     c \<leftarrow> commitNetworkStage env (nf_node q);
     case c of
       Inl e \<Rightarrow> do {
         x \<leftarrow> revertStagedAfter env (nf_node q)
           (net_error q [Lit ''commit failed, outcome unknown (the change may or may not have been applied): '', Wrapped e]);
         ret (Some x)
       }
     | Inr upid \<Rightarrow> do {
         w \<leftarrow> WaitForTask env (nf_node q) upid;
         case w of
           Some e \<Rightarrow> ret (Some (net_error q [Lit ''commit task '', Lit upid,
               Lit '' did not complete successfully (no revert attempted: pve may already have applied this change, in whole or in part): '', Wrapped e]))
         | None \<Rightarrow> fields_verify env t q
       }
   }"

definition NetworkFields_Apply :: "env \<Rightarrow> target \<Rightarrow> net_request \<Rightarrow> (netfields, gerror option) state" where
  "NetworkFields_Apply env t q =
     (case NetworkFields_Validate q of
        Some e \<Rightarrow> ret (Some e)
      | None \<Rightarrow> do {
          _ \<leftarrow> modify (\<lambda>s. s\<lparr>nf_applied := []\<rparr>);
          snap \<leftarrow> fields_snapshot env q;
          case snap of
            Inl e \<Rightarrow> ret (Some e)
          | Inr (before, ty) \<Rightarrow> do {
              st \<leftarrow> NetworkFields_stage env q ty;
              case st of
                Some e \<Rightarrow> ret (Some (net_error q [Lit ''stage: '', Wrapped e]))
              | None \<Rightarrow> do {
                  c \<leftarrow> compare_others env q before;
                  case c of
                    Some e \<Rightarrow> ret (Some e)
                  | None \<Rightarrow> fields_commit env t q
                }
            }
        })"

definition NetworkFields :: "env \<Rightarrow> target \<Rightarrow> net_request \<Rightarrow> (netfields, string gomap) op" where
  "NetworkFields env t q =
     \<lparr>op_Read = NetworkFields_Read env q, op_Satisfied = (\<lambda>_. NetworkFields_Satisfied q),
      op_Apply = NetworkFields_Apply env t q, op_PostApply = None, op_ReRead = None, op_PostNoop = None\<rparr>"

section \<open>The transaction\<close>

definition saw_listing :: "string \<Rightarrow> json gomap gomap \<Rightarrow> event list \<Rightarrow> bool" where
  "saw_listing node l es \<longleftrightarrow> (\<exists>a. EHttp GET (network_path node) [] a \<in> set es \<and> interfaces_answer node (raw_result a) = Inr l)"

text \<open>The digest of one interface of a listing, empty when it is not listed.\<close>

definition listed_hash :: "env \<Rightarrow> json gomap gomap \<Rightarrow> string \<Rightarrow> string" where
  "listed_hash env l iface = (case map_of l iface of None \<Rightarrow> [] | Some m \<Rightarrow> e_sha256 env (canonical_text m))"

definition fields_stage :: "net_request \<Rightarrow> event \<Rightarrow> bool" where
  "fields_stage q e \<longleftrightarrow> (\<exists>ty a. e = EHttp PUT (iface_path (nf_node q) (nf_iface q)) (fields_form q ty) a)"

text \<open>A commit rests on two listings, and on a stage that carried the type the first one showed.\<close>

definition fields_guard :: "env \<Rightarrow> net_request \<Rightarrow> event list \<Rightarrow> event \<Rightarrow> event list \<Rightarrow> bool" where
  "fields_guard env q pre st mid \<longleftrightarrow>
     (\<exists>before after m ty a. saw_listing (nf_node q) before pre \<and> saw_listing (nf_node q) after mid \<and>
        map_of before (nf_iface q) = Some m \<and> map_of m ''type'' = Some (JStr ty) \<and>
        st = EHttp PUT (iface_path (nf_node q) (nf_iface q)) (fields_form q ty) a \<and>
        (\<forall>other. other \<noteq> nf_iface q \<longrightarrow> listed_hash env before other = listed_hash env after other))"

definition fields_verified :: "net_request \<Rightarrow> string \<Rightarrow> event list \<Rightarrow> event list \<Rightarrow> bool" where
  "fields_verified q u pre post \<longleftrightarrow>
     task_seen_ok u post \<and> (\<exists>link. saw_link (nf_iface q) link post \<and> lk_exists link)"

lemma traces_listing:
  "traces (fetchAllInterfaces env node) (\<lambda>r es. list_all reads es \<and> (\<forall>l. r = Inr l \<longrightarrow> saw_listing node l es))"
  by (rule traces_mono [OF traces_fetchAllInterfaces]) (auto simp: reads_def saw_listing_def)

lemma currentInterfaceType_sound:
  "currentInterfaceType l iface = Inr ty \<Longrightarrow> \<exists>m. map_of l iface = Some m \<and> map_of m ''type'' = Some (JStr ty)"
  by (auto simp: currentInterfaceType_def unmarshal_string_def split: option.splits json.splits if_splits)

lemma hash_at_others:
  "hash_at (otherInterfaceHashes env l exclude) other = (if other = exclude then [] else listed_hash env l other)"
  by (induction l) (auto simp: hash_at_def otherInterfaceHashes_def listed_hash_def canonicalHash_def)

lemma hash_at_unlisted: "other \<notin> fst ` set hashes \<Longrightarrow> hash_at hashes other = []"
  by (simp add: hash_at_def map_of_eq_None_iff [THEN iffD2])

lemma join_with_Nil_iff: "(\<And>w. w \<in> set ws \<Longrightarrow> w \<noteq> []) \<Longrightarrow> join_with sep ws = [] \<longleftrightarrow> ws = []"
  by (cases "(sep, ws)" rule: join_with.cases) auto

lemma no_changed_others:
  assumes "changedOtherInterfaces before after (otherInterfaceHashes env before exclude) (otherInterfaceHashes env after exclude) = []"
    and "other \<noteq> exclude"
  shows "listed_hash env before other = listed_hash env after other"
proof -
  let ?b = "otherInterfaceHashes env before exclude" and ?a = "otherInterfaceHashes env after exclude"
  have "filter (\<lambda>iface. hash_at ?b iface \<noteq> hash_at ?a iface) (sort (remdups (map fst ?b @ map fst ?a))) = []"
    using assms(1) unfolding changedOtherInterfaces_def Let_def by (subst (asm) join_with_Nil_iff) auto
  then have "hash_at ?b other = hash_at ?a other"
    by (cases "other \<in> fst ` set ?b \<or> other \<in> fst ` set ?a") (auto simp: filter_empty_conv hash_at_unlisted)
  with assms(2) show ?thesis by (simp add: hash_at_others)
qed

lemma traces_fields_snapshot:
  "traces (fields_snapshot env q)
     (\<lambda>r es. list_all reads es \<and> (\<forall>l ty. r = Inr (l, ty) \<longrightarrow>
        saw_listing (nf_node q) l es \<and> (\<exists>m. map_of l (nf_iface q) = Some m \<and> map_of m ''type'' = Some (JStr ty))))"
  unfolding fields_snapshot_def
  by (rule traces_bind [OF traces_listing], rule traces_return) (auto dest: currentInterfaceType_sound split: sum.splits)

lemma traces_fields_stage:
  "traces (NetworkFields_stage env q ty)
     (\<lambda>r es. \<exists>a. es = [EHttp PUT (iface_path (nf_node q) (nf_iface q)) (fields_form q ty) a] \<and>
        (r = None \<longleftrightarrow> (\<exists>j. raw_result a = Inr j)))"
  unfolding NetworkFields_stage_def
  by (rule traces_bind [OF traces_raw [OF network_paths_slash(2)]], simp, rule traces_return) (auto split: sum.splits)

lemma traces_compare_others:
  "traces (compare_others env q before)
     (\<lambda>r es. case r of Some e \<Rightarrow> discards (nf_node q) es
        | None \<Rightarrow> list_all reads es \<and> (\<exists>after. saw_listing (nf_node q) after es \<and>
            (\<forall>other. other \<noteq> nf_iface q \<longrightarrow> listed_hash env before other = listed_hash env after other)))"
  unfolding compare_others_def revertNetworkStage_def Let_def
  by (intro traces_bind [OF traces_listing] traces_bind [OF traces_revert_discards] traces_case_sum traces_if traces_return)
    (auto intro: discards_after no_changed_others)

lemma traces_fields_verify:
  "traces (fields_verify env t q) (\<lambda>r es. list_all reads es \<and> (r = None \<longrightarrow> (\<exists>link. saw_link (nf_iface q) link es \<and> lk_exists link)))"
  unfolding fields_verify_def
  by (intro traces_bind [OF traces_link_saw] traces_bind [OF traces_modify] traces_case_sum traces_if traces_return) auto

lemma traces_fields_commit:
  "traces (fields_commit env t q) (commit_spec (nf_node q) (\<lambda>u post. fields_verified q u [] post))"
  unfolding fields_commit_def
proof (rule traces_bind [OF traces_commitNetworkStage], rule traces_case_sum, goal_cases)
  case (1 c es e)
  show ?case
    by (rule traces_bind [OF traces_revert(1)], rule traces_return) (use 1 in \<open>auto intro!: commit_spec_failed\<close>)
next
  case cm: (2 c es upid)
  show ?case
  proof (rule traces_bind [OF traces_WaitForTask_ok], rule traces_case_option, goal_cases)
    case (1 w fs)
    show ?case
      by (rule traces_mono [OF traces_fields_verify], rule commit_spec_ok)
        (use 1 cm in \<open>auto simp: fields_verified_def intro: saw_append\<close>)
  next
    case (2 w fs e)
    show ?case by (rule traces_return, rule commit_spec_ok) (use 2 cm in auto)
  qed
qed

lemma traces_NetworkFields_Apply:
  "traces (NetworkFields_Apply env t q) (transaction (nf_node q) (fields_stage q) (fields_guard env q) (fields_verified q))"
  unfolding NetworkFields_Apply_def
proof (rule traces_case_option, goal_cases)
  case 2
  then show ?case by (auto intro!: traces_return transaction.refused)
next
  case 1
  show ?case
  proof (rule traces_bind [OF traces_modify], simp, rule traces_bind [OF traces_fields_snapshot], rule traces_case_sum, goal_cases)
    case (1 u e s0 e0 x)
    then show ?case by (auto intro!: traces_return transaction.refused)
  next
    case snap: (2 u e s0 pre lt)
    obtain before ty where lt: "lt = (before, ty)" by force
    then have e: "e = []" and pre: "list_all reads pre" and seen: "saw_listing (nf_node q) before pre"
      "\<exists>m. map_of before (nf_iface q) = Some m \<and> map_of m ''type'' = Some (JStr ty)" using snap by auto
    show ?case unfolding lt prod.case
    proof (rule traces_bind [OF traces_fields_stage], elim exE conjE, rule traces_case_option, goal_cases)
      case (2 st es a x)
      let ?st = "EHttp PUT (iface_path (nf_node q) (nf_iface q)) (fields_form q ty) a"
      have "fields_stage q ?st" "\<not> accepted ?st" using 2 by (auto simp: fields_stage_def)
      from transaction.not_staged [where S = "fields_stage q", OF pre this] show ?case
        by (intro traces_return) (simp add: 2 e)
    next
      case stg: (1 st es a)
      let ?st = "EHttp PUT (iface_path (nf_node q) (nf_iface q)) (fields_form q ty) a"
      have st: "fields_stage q ?st" "accepted ?st" using stg by (auto simp: fields_stage_def)
      show ?case
      proof (rule traces_bind [OF traces_compare_others], rule traces_case_option, goal_cases)
        case (2 c e1 x)
        with transaction_discards [where S = "fields_stage q" and mid = "[]" and es = e1, OF pre st] show ?case
          by (intro traces_return) (simp add: stg e)
      next
        case cmp: (1 c mid)
        have guard: "fields_guard env q pre ?st mid" unfolding fields_guard_def using seen cmp by auto
        have mid: "list_all reads mid" using cmp by simp
        show ?case
          by (rule traces_mono [OF traces_fields_commit])
            (use transaction_commit [where V = "fields_verified q" and G = "fields_guard env q" and S = "fields_stage q",
              OF _ pre st mid guard] in \<open>auto simp: stg e fields_verified_def\<close>)
      qed
    qed
  qed
qed

section \<open>What a run does\<close>

definition fields_read :: "net_request \<Rightarrow> string gomap \<Rightarrow> event list \<Rightarrow> bool" where
  "fields_read q c es \<longleftrightarrow>
     (\<exists>m. saw_interface (nf_node q) (nf_iface q) (Some m) es \<and>
        (\<forall>f v. map_of c f = Some v \<longrightarrow> (\<exists>raw. map_of m f = Some raw \<and> Scalar raw = Inr v)))"

lemma current_values_sound:
  "current_values q m current ps = Inr c \<Longrightarrow> map_of c f = Some v \<Longrightarrow>
     map_of current f = Some v \<or> (\<exists>raw. map_of m f = Some raw \<and> Scalar raw = Inr v)"
proof (induction ps arbitrary: current)
  case (Cons p ps)
  from Cons.prems show ?case
    by (auto dest!: Cons.IH split: option.splits sum.splits simp: update_conv' split: if_splits)
qed simp

lemma fields_readI:
  "current_values q m [] ps = Inr c \<Longrightarrow> saw_interface (nf_node q) (nf_iface q) (Some m) es \<Longrightarrow> fields_read q c es"
  unfolding fields_read_def using current_values_sound [of q m "[]" ps c] by fastforce

lemma traces_NetworkFields_Read:
  "traces (NetworkFields_Read env q) (\<lambda>r es. list_all reads es \<and> (\<forall>c. r = Inr c \<longrightarrow> fields_read q c es))"
  unfolding NetworkFields_Read_def
  by (intro traces_bind [OF traces_fetch_saw] traces_bind [OF traces_modify] traces_case_sum traces_case_option traces_return)
    (auto intro: fields_readI)

lemma fields_stage_events:
  "fields_stage q e \<Longrightarrow> is_write e \<and> \<not> commits (nf_node q) e \<and> \<not> reverts (nf_node q) e"
  by (auto simp: fields_stage_def commits_def reverts_def iface_path_def)

interpretation fields_op: staged_op "NetworkFields env t q" "nf_node q" "fields_stage q" "fields_guard env q" "fields_verified q"
    "fields_read q" "NetworkFields_Satisfied q" for env t q
  by unfold_locales
    (use traces_NetworkFields_Read traces_NetworkFields_Apply fields_stage_events in \<open>auto simp: NetworkFields_def\<close>)


text \<open>With digests that are never empty, equal digests also mean that the same interfaces are listed.\<close>

definition others_unchanged :: "env \<Rightarrow> net_request \<Rightarrow> json gomap gomap \<Rightarrow> json gomap gomap \<Rightarrow> bool" where
  "others_unchanged env q before after \<longleftrightarrow>
     (\<forall>other. other \<noteq> nf_iface q \<longrightarrow>
        map_option (\<lambda>m. e_sha256 env (canonical_text m)) (map_of before other) =
        map_option (\<lambda>m. e_sha256 env (canonical_text m)) (map_of after other))"

lemma others_unchangedI:
  assumes "\<forall>text. e_sha256 env text \<noteq> []"
    and "\<forall>other. other \<noteq> nf_iface q \<longrightarrow> listed_hash env before other = listed_hash env after other"
  shows "others_unchanged env q before after"
  unfolding others_unchanged_def
proof (intro allI impI)
  fix other assume "other \<noteq> nf_iface q"
  with assms(2) have "listed_hash env before other = listed_hash env after other" by blast
  with assms(1) show "map_option (\<lambda>m. e_sha256 env (canonical_text m)) (map_of before other) =
      map_option (\<lambda>m. e_sha256 env (canonical_text m)) (map_of after other)"
    by (cases "map_of before other"; cases "map_of after other") (auto simp: listed_hash_def, metis)
qed

text \<open>
  C6: every write of a run that sets fields of an interface is its one stage request, a commit or a discard;
  a commit only follows a stage that PVE accepted, that carried the pairs and the type which the listing before
  it showed for the interface, and listings before and after the stage in which the same other interfaces
  appear with the same digests; a discard only follows such a stage, and never a commit that was answered.
\<close>

theorem NetworkFields_commit_guarded:
  assumes "\<forall>text. e_sha256 env text \<noteq> []"
    and "run_state (Run env rp key (NetworkFields env t q) force) s = (res, s')"
  shows "\<exists>es. log s' = log s @ es \<and>
    (\<forall>prev e next. es = prev @ e # next \<longrightarrow> is_write e \<longrightarrow>
       fields_stage q e \<or>
       (\<exists>hist pre ty a mid. prev = hist @ pre @ EHttp PUT (iface_path (nf_node q) (nf_iface q)) (fields_form q ty) a # mid \<and>
          list_all reads pre \<and> list_all reads mid \<and> accepted (EHttp PUT (iface_path (nf_node q) (nf_iface q)) (fields_form q ty) a) \<and>
          (commits (nf_node q) e \<and>
             (\<exists>before after m. saw_listing (nf_node q) before pre \<and> saw_listing (nf_node q) after mid \<and>
                map_of before (nf_iface q) = Some m \<and> map_of m ''type'' = Some (JStr ty) \<and> others_unchanged env q before after) \<or>
           reverts (nf_node q) e)) \<or>
       (\<exists>hist pre st mid cm. prev = hist @ pre @ st # mid @ [cm] \<and> list_all reads pre \<and> fields_stage q st \<and> accepted st \<and>
          list_all reads mid \<and> commits (nf_node q) cm \<and> commit_upid cm = None \<and> reverts (nf_node q) e))"
proof -
  from fields_op.Run_guarded [OF assms(2)] obtain es where es: "log s' = log s @ es"
    and gate: "gated (stage_admits (nf_node q) (fields_stage q) (fields_guard env q)) es" by blast
  show ?thesis
  proof (rule exI [of _ es], rule conjI [OF es], intro allI impI, goal_cases)
    case (1 prev e "next")
    then have "stage_admits (nf_node q) (fields_stage q) (fields_guard env q) prev e" using gate by (auto simp: gated_def)
    then consider "fields_stage q e"
      | (close) hist pre st mid where "prev = hist @ pre @ st # mid" "list_all reads pre" "fields_stage q st" "accepted st"
          "list_all reads mid" "commits (nf_node q) e \<and> fields_guard env q pre st mid \<or> reverts (nf_node q) e"
      | "\<exists>hist pre st mid cm. prev = hist @ pre @ st # mid @ [cm] \<and> list_all reads pre \<and> fields_stage q st \<and> accepted st \<and>
          list_all reads mid \<and> commits (nf_node q) cm \<and> commit_upid cm = None \<and> reverts (nf_node q) e"
      unfolding stage_admits_def by blast
    then show ?case
    proof cases
      case close
      from close(3,6) obtain ty a where st: "st = EHttp PUT (iface_path (nf_node q) (nf_iface q)) (fields_form q ty) a"
        and cl: "commits (nf_node q) e \<and> (\<exists>before after m. saw_listing (nf_node q) before pre \<and> saw_listing (nf_node q) after mid \<and>
             map_of before (nf_iface q) = Some m \<and> map_of m ''type'' = Some (JStr ty) \<and> others_unchanged env q before after) \<or>
           reverts (nf_node q) e"
        unfolding fields_stage_def fields_guard_def using others_unchangedI [OF assms(1)] by blast
      show ?thesis
        by (rule disjI2, rule disjI1, rule exI [of _ hist], rule exI [of _ pre], rule exI [of _ ty], rule exI [of _ a],
            rule exI [of _ mid], intro conjI) (fact close(1,2,4,5) [unfolded st] cl)+
    qed blast+
  qed
qed

text \<open>
  A run that reports a change committed a stage with the pairs, under the guard, saw the commit's task end
  well and the interface's link still there; a run that reports none saw every requested field of the interface
  present and equal to what was asked for.
\<close>

theorem NetworkFields_success:
  assumes "run_state (Run env rp key (NetworkFields env t q) force) s = (Inr x, s')"
  shows "\<exists>es. log s' = log s @ es \<and>
    (if Changed x then
       (\<exists>hist pre st mid cm u post after. es = hist @ pre @ st # mid @ cm # post @ after \<and> fields_guard env q pre st mid \<and>
          accepted st \<and> commits (nf_node q) cm \<and> commit_upid cm = Some u \<and> task_seen_ok u post \<and>
          (\<exists>link. saw_link (nf_iface q) link post \<and> lk_exists link))
     else
       (\<exists>pre mid post m. es = pre @ mid @ post \<and> saw_interface (nf_node q) (nf_iface q) (Some m) mid \<and>
          (\<forall>p \<in> set (nf_pairs q). \<exists>raw v. map_of m (pr_field p) = Some raw \<and> Scalar raw = Inr v \<and> fieldsEqual v (pr_value p))))"
proof (cases "Changed x")
  case True
  from fields_op.Run_committed [OF assms True] obtain es before st mid cm u post after hist pre where
    "log s' = log s @ es" "es = before @ st # mid @ cm # post @ after" "before = hist @ pre" "accepted st"
    "commits (nf_node q) cm" "commit_upid cm = Some u" "fields_guard env q pre st mid" "fields_verified q u pre post" by blast
  then have run: "es = hist @ pre @ st # mid @ cm # post @ after" "task_seen_ok u post"
    "\<exists>link. saw_link (nf_iface q) link post \<and> lk_exists link" by (simp_all add: fields_verified_def)
  note exs = exI [of _ hist] exI [of _ pre] exI [of _ st] exI [of _ mid] exI [of _ cm] exI [of _ u] exI [of _ post] exI [of _ after]
  show ?thesis unfolding if_P [OF True] by (rule exI [of _ es], rule conjI, fact, (rule exs)+, intro conjI) (fact | rule run)+
next
  case False
  with fields_op.Run_success [OF assms] obtain pre mid post m where run: "log s' = log s @ pre @ mid @ post"
    and seen: "saw_interface (nf_node q) (nf_iface q) (Some m) mid"
    and val: "\<forall>f v. map_of (Before x) f = Some v \<longrightarrow> (\<exists>raw. map_of m f = Some raw \<and> Scalar raw = Inr v)"
    and sat: "NetworkFields_Satisfied q (Before x)" unfolding fields_read_def by auto
  have "\<forall>p \<in> set (nf_pairs q). \<exists>raw v. map_of m (pr_field p) = Some raw \<and> Scalar raw = Inr v \<and> fieldsEqual v (pr_value p)"
  proof
    fix p assume "p \<in> set (nf_pairs q)"
    with sat obtain v where "map_of (Before x) (pr_field p) = Some v" "fieldsEqual v (pr_value p)"
      by (auto simp: NetworkFields_Satisfied_def list_all_iff split: option.splits)
    with val show "\<exists>raw v. map_of m (pr_field p) = Some raw \<and> Scalar raw = Inr v \<and> fieldsEqual v (pr_value p)" by blast
  qed
  with run seen show ?thesis unfolding if_not_P [OF False]
    by (intro exI [of _ "pre @ mid @ post"] conjI exI [of _ pre] exI [of _ mid] exI [of _ post] exI [of _ m]) simp_all
qed

section \<open>Setting the MTU of a bridge\<close>

definition fields_answer :: "http_method \<Rightarrow> string \<Rightarrow> http_reply" where
  "fields_answer m path = HAnswer 200 ''200 OK'' ''{..}'' (Some (JObj ''{..}''
     [(''data'',
       if m = GET \<and> path = network_path ''pve1'' then
         JArr ''[..]'' [JObj ''{..}'' [(''iface'', JStr ''eth0''), (''type'', JStr ''eth'')],
           JObj ''{..}'' [(''iface'', JStr ''vmbr9''), (''type'', JStr ''bridge'')]]
       else if m = GET then JObj ''{..}'' net_fields
       else if path = network_path ''pve1'' then JStr demo_upid else JNull)]))"

definition fields_world :: env where
  "fields_world = calm\<lparr>e_http := (\<lambda>h m p f. fields_answer m p), e_ssh := (\<lambda>h cmd. Inr up_reply), e_sha256 := (\<lambda>w. CHR ''h'' # w)\<rparr>"

definition demo_mtu :: net_request where
  "demo_mtu = \<lparr>nf_node = ''pve1'', nf_iface = ''vmbr9'', nf_pairs = [\<lparr>pr_field = ''mtu'', pr_value = ''9000''\<rparr>]\<rparr>"

definition demo_listing :: "json gomap gomap" where
  "demo_listing = [(''eth0'', [(''iface'', JStr ''eth0''), (''type'', JStr ''eth'')]),
     (''vmbr9'', [(''iface'', JStr ''vmbr9''), (''type'', JStr ''bridge'')])]"

definition fields_session :: netfields where
  "fields_session = \<lparr>log = [], ssh_open = True, nf_current = [], nf_applied = []\<rparr>"

abbreviation demo_setting :: "(gerror + string gomap result) \<times> netfields" where
  "demo_setting \<equiv>
     run_state (Run fields_world ''roster.yaml'' demo_key (NetworkFields fields_world demo_target demo_mtu) False) fields_session"

lemma demo_mtu_fields:
  "nf_node demo_mtu = ''pve1''" "nf_iface demo_mtu = ''vmbr9''" "NetworkFields_Validate demo_mtu = None"
  "nf_pairs demo_mtu = [\<lparr>pr_field = ''mtu'', pr_value = ''9000''\<rparr>]"
  by (simp_all add: demo_mtu_def NetworkFields_Validate_def)

lemma fields_replies:
  "interfaces_answer ''pve1'' (raw_result (fields_answer GET (network_path ''pve1''))) = Inr demo_listing"
  "interface_answer ''vmbr9'' (raw_result (fields_answer GET (iface_path ''pve1'' ''vmbr9''))) = Inr (Some net_fields)"
  "commit_answer (raw_result (fields_answer PUT (network_path ''pve1''))) = Inr demo_upid"
  "raw_result (fields_answer PUT (iface_path ''pve1'' ''vmbr9'')) = Inr JNull"
  by code_simp+

lemma run_raw_fields:
  assumes "path = CHR ''/'' # p" and "unsupported_method m = None"
  shows "run_state (RawRequest fields_world m path f) s =
     (raw_result (fields_answer m path), s\<lparr>log := log s @ [EHttp m path f (fields_answer m path)]\<rparr>)"
  using assms by (simp add: RawRequest_def strings_HasPrefix_def http_do_def run_perform fields_world_def)

lemma run_link_fields:
  assumes "ssh_open s" and "iface \<noteq> []"
  shows "run_state (LinkState fields_world demo_target iface) s =
     (Inr \<lparr>lk_exists = True, lk_up = True\<rparr>, s\<lparr>log := log s @ [EQuery (link_command iface) (Inr up_reply)]\<rparr>)"
  using assms
  by (simp add: LinkState_def withSSH_def Ssh_LinkState_def ssh_query_def run_simps fields_world_def link_replies)

lemma run_fields_Apply:
  assumes "ssh_open s"
  shows "\<exists>s'. run_state (NetworkFields_Apply fields_world demo_target demo_mtu) s = (None, s')"
proof -
  obtain p p' where p: "iface_path ''pve1'' ''vmbr9'' = CHR ''/'' # p" "network_path ''pve1'' = CHR ''/'' # p'"
    using network_paths_slash by blast
  have wait: "run_state (WaitForTask fields_world ''pve1'' demo_upid) s =
      (None, s\<lparr>log := log s @ [ETask demo_upid (Inr \<lparr>ts_status = ''stopped'', ts_exitstatus = ''OK''\<rparr>)]\<rparr>)" for s :: netfields
    by (rule run_WaitForTask_calm) (simp_all add: fields_world_def)
  have ty: "currentInterfaceType demo_listing ''vmbr9'' = Inr ''bridge''" by code_simp
  have same: "changedOtherInterfaces demo_listing demo_listing hs hs = []" for hs
    by (simp add: changedOtherInterfaces_def)
  show ?thesis
    using assms
    by (simp add: NetworkFields_Apply_def demo_mtu_fields modify_def fields_snapshot_def fetchAllInterfaces_def
        run_raw_fields [OF p(2)] run_raw_fields [OF p(1)] fields_replies ty NetworkFields_stage_def compare_others_def same
        fields_commit_def commitNetworkStage_def wait fields_verify_def run_link_fields)
qed

lemma run_fields: "\<exists>s' x. demo_setting = (Inr x, s') \<and> Changed x"
proof -
  let ?oper = "NetworkFields fields_world demo_target demo_mtu"
  obtain p where p: "iface_path ''pve1'' ''vmbr9'' = CHR ''/'' # p" using network_paths_slash by blast
  obtain s1 where mut: "run_state (Mutation fields_world ''roster.yaml'' demo_key) fields_session =
      (Inr (kf_resource (filesFor ''roster.yaml'' demo_key)), s1)" and s1: "ssh_open s1"
    by (simp add: Mutation_def ensureLockDir_def acquire_def Let_def primitive_defs run_simps fields_world_def fields_session_def)
  then obtain s2 where rd: "run_state (op_Read ?oper) s1 = (Inr [], s2)" and s2: "ssh_open s2"
    by (simp add: NetworkFields_def NetworkFields_Read_def fetchInterface_def demo_mtu_fields run_raw_fields [OF p] fields_replies
        net_fields_def modify_def)
  have unsat: "\<not> op_Satisfied ?oper s2 []"
    by (simp add: NetworkFields_def NetworkFields_Satisfied_def demo_mtu_fields)
  from run_fields_Apply [OF s2] obtain s3 where ap: "run_state (op_Apply ?oper) s2 = (None, s3)"
    by (auto simp: NetworkFields_def)
  obtain a s5 where rr: "run_state (case op_ReRead ?oper of None \<Rightarrow> op_Read ?oper | Some m \<Rightarrow> m) s3 = (a, s5)" by force
  have chk: "run_state (run_check demo_key '': post-apply check: '' (op_PostApply ?oper)) s5 = (None, s5)"
    by (simp add: run_check_def NetworkFields_def)
  obtain x where "run_state (attempts (maxConflictRetries - 1) demo_key ?oper False) s1 = (Inr x, s5)" "Changed x"
    using run_attempts_applied [OF rd disjI2 [OF unsat] ap(1) rr chk] by blast
  moreover obtain u s6 where "run_state (unlock fields_world (kf_resource (filesFor ''roster.yaml'' demo_key))) s5 = (u, s6)"
    by force
  ultimately show ?thesis using mut by (simp add: Run_def)
qed

theorem NetworkFields_commit_guarded_witness:
  "\<exists>es. log (snd demo_setting) = es \<and>
    (\<forall>prev e next. es = prev @ e # next \<longrightarrow> is_write e \<longrightarrow>
       fields_stage demo_mtu e \<or>
       (\<exists>hist pre ty a mid. prev = hist @ pre @ EHttp PUT (iface_path ''pve1'' ''vmbr9'') (fields_form demo_mtu ty) a # mid \<and>
          list_all reads pre \<and> list_all reads mid \<and> accepted (EHttp PUT (iface_path ''pve1'' ''vmbr9'') (fields_form demo_mtu ty) a) \<and>
          (commits ''pve1'' e \<and>
             (\<exists>before after m. saw_listing ''pve1'' before pre \<and> saw_listing ''pve1'' after mid \<and>
                map_of before ''vmbr9'' = Some m \<and> map_of m ''type'' = Some (JStr ty) \<and>
                others_unchanged fields_world demo_mtu before after) \<or>
           reverts ''pve1'' e)) \<or>
       (\<exists>hist pre st mid cm. prev = hist @ pre @ st # mid @ [cm] \<and> list_all reads pre \<and> fields_stage demo_mtu st \<and> accepted st \<and>
          list_all reads mid \<and> commits ''pve1'' cm \<and> commit_upid cm = None \<and> reverts ''pve1'' e))"
proof -
  have "log fields_session = []" by (simp add: fields_session_def)
  moreover have "\<forall>w. e_sha256 fields_world w \<noteq> []" by (simp add: fields_world_def)
  ultimately show ?thesis
    using NetworkFields_commit_guarded [of fields_world "''roster.yaml''" demo_key demo_target demo_mtu False fields_session
      "fst demo_setting" "snd demo_setting"] unfolding demo_mtu_fields by simp
qed

theorem NetworkFields_success_witness:
  "\<exists>hist pre st mid cm u post after. log (snd demo_setting) = hist @ pre @ st # mid @ cm # post @ after \<and>
     fields_guard fields_world demo_mtu pre st mid \<and> accepted st \<and> commits ''pve1'' cm \<and> commit_upid cm = Some u \<and>
     task_seen_ok u post \<and> (\<exists>link. saw_link ''vmbr9'' link post \<and> lk_exists link)"
proof -
  obtain s' x where run: "demo_setting = (Inr x, s')" "Changed x" using run_fields by blast
  have "log fields_session = []" by (simp add: fields_session_def)
  with NetworkFields_success [OF run(1)] run show ?thesis unfolding demo_mtu_fields if_P [OF run(2)] by simp
qed

end
