(* ===== verification/StorageConfig.thy ===== *)
theory StorageConfig
  imports NotFound Engine
begin

text \<open>
  The cluster-wide storage configuration: its reads and writes (\<open>internal/pve/storage.go\<close>), the creation of
  a storage (\<open>internal/idempotent/storagecreate.go\<close>) and adding a content type to one
  (\<open>storagecontent.go\<close>).  The answer to a config read is what go-proxmox decodes into a map of raw values,
  none for the nil map.  A Go map used as a set is the list of its members.
\<close>

section \<open>Reads and writes of a storage definition\<close>

definition sconfig_path :: "string \<Rightarrow> string" where
  "sconfig_path storage = ''/storage/'' @ url_PathEscape storage"

definition GetStorageConfigRaw :: "env \<Rightarrow> string \<Rightarrow> ('r sess_scheme, gerror + json gomap option) state" where
  "GetStorageConfigRaw env storage =
     (if storage = [] then ret (Inl (ErrorString ''get storage config: storage id is required''))
      else do {
        r \<leftarrow> pc_sconfig env (sconfig_path storage);
        ret (case r of
            Inl e \<Rightarrow> Inl (Errorf [Lit ''get storage config for '', Quo storage, Lit '': '', Wrapped e])
          | Inr m \<Rightarrow> Inr m)
      })"

definition GetStorageConfigPath :: "env \<Rightarrow> string \<Rightarrow> ('r sess_scheme, gerror + string) state" where
  "GetStorageConfigPath env storage =
     (if storage = [] then ret (Inl (ErrorString ''get storage config path: storage id is required''))
      else do {
        r \<leftarrow> pc_spath env (sconfig_path storage);
        ret (case r of
            Inl e \<Rightarrow> Inl (Errorf [Lit ''get storage config for '', Quo storage, Lit '': '', Wrapped e])
          | Inr p \<Rightarrow>
              if p = [] then Inl (Errorf [Lit ''storage '', Quo storage,
                Lit '' has no configured filesystem path (not a directory-backed storage type?)''])
              else Inr p)
      })"

definition CreateStorage :: "env \<Rightarrow> string \<Rightarrow> url_values \<Rightarrow> ('r sess_scheme, gerror + json) state" where
  "CreateStorage env name params =
     (if name = [] then ret (Inl (ErrorString ''create storage: a storage name is required''))
      else do {
        r \<leftarrow> RawRequest env POST ''/storage'' (values_Set ''storage'' name params);
        ret (case r of
            Inl e \<Rightarrow> Inl (Errorf [Lit ''create storage '', Quo name, Lit '': '', Wrapped e])
          | Inr raw \<Rightarrow> Inr raw)
      })"

definition UpdateStorageConfig :: "env \<Rightarrow> string \<Rightarrow> url_values \<Rightarrow> ('r sess_scheme, gerror + json) state" where
  "UpdateStorageConfig env name params =
     (if name = [] then ret (Inl (ErrorString ''update storage config: a storage name is required''))
      else do {
        r \<leftarrow> RawRequest env PUT (sconfig_path name) params;
        ret (case r of
            Inl e \<Rightarrow> Inl (Errorf [Lit ''update storage config '', Quo name, Lit '': '', Wrapped e])
          | Inr raw \<Rightarrow> Inr raw)
      })"

section \<open>The values of a definition\<close>

definition jsonScalar :: "json \<Rightarrow> string" where
  "jsonScalar raw = (case unmarshal_string raw of Some s \<Rightarrow> s | None \<Rightarrow> strings_TrimSpace (raw_text raw))"

definition upidIfScalar :: "json \<Rightarrow> string option" where
  "upidIfScalar raw =
     (case unmarshal_string raw of
        None \<Rightarrow> None
      | Some s \<Rightarrow> if strings_HasPrefix s ''UPID:'' then Some s else None)"

text \<open>The values by lower-case key; a later key of the iteration replaces an earlier one.\<close>

definition lower_fields :: "json gomap \<Rightarrow> string gomap" where
  "lower_fields m = fold (\<lambda>(k, v) acc. AList.update (strings_ToLower k) (jsonScalar v) acc) m []"

text \<open>The members of a nil map.\<close>

definition entries :: "json gomap option \<Rightarrow> json gomap" where
  "entries raw = (case raw of None \<Rightarrow> [] | Some m \<Rightarrow> m)"

section \<open>Creating a storage\<close>

record create_request =
  sq_name :: string
  sq_params :: url_values

text \<open>
  The comparable state is empty for a missing storage, and otherwise the JSON text of its definition;
  here it is the map that this text decodes to again, whose inner option tells the nil map.
\<close>

record storagecreate = sess +
  sq_current :: "json gomap option option"

definition requiredKeysByType :: "string \<Rightarrow> string list" where
  "requiredKeysByType typ = (if typ = ''zfspool'' then [''pool''] else [])"

definition StorageCreate_Validate :: "create_request \<Rightarrow> gerror option" where
  "StorageCreate_Validate q =
     (let typ = values_Get (sq_params q) ''type'' in
      if sq_name q = [] then Some (ErrorString ''storage create: a storage name is required'')
      else if typ = [] then
        Some (Errorf [Lit ''storage create: storage '', Quo (sq_name q), Lit '': a storage type is required (--type)''])
      else (case find (\<lambda>key. values_Get (sq_params q) key = []) (requiredKeysByType typ) of
              None \<Rightarrow> None
            | Some key \<Rightarrow> Some (Errorf [Lit ''storage create: storage '', Quo (sq_name q), Lit '': type '', Quo typ,
                Lit '' requires '', Lit key, Lit '' to be set (e.g. --data '', Lit key, Lit ''=<value>)''])))"

definition encodeDesired :: "url_values \<Rightarrow> string" where
  "encodeDesired params =
     join_with '' '' (map (\<lambda>k. k @ ''='' @ values_Get params k) (sort (filter (\<lambda>k. k \<noteq> ''storage'') (map fst params))))"

definition compacted :: "json gomap option \<Rightarrow> json gomap option" where
  "compacted = map_option (map (\<lambda>(k, v). (k, compact_value v)))"

definition view_text :: "json gomap option \<Rightarrow> string" where
  "view_text raw = (case raw of None \<Rightarrow> ''null'' | Some m \<Rightarrow> marshal_map m)"

definition storage_error :: "string \<Rightarrow> string \<Rightarrow> frag list \<Rightarrow> gerror" where
  "storage_error what name rest = Errorf ([Lit what, Quo name, Lit '': ''] @ rest)"

definition StorageCreate_Read :: "env \<Rightarrow> create_request \<Rightarrow> (storagecreate, gerror + json gomap option option) state" where
  "StorageCreate_Read env q = do {
     r \<leftarrow> GetStorageConfigRaw env (sq_name q);
     case r of
       Inl e \<Rightarrow>
         if IsStorageNotFoundError e then do {
           _ \<leftarrow> modify (\<lambda>s. s\<lparr>sq_current := None\<rparr>);
           ret (Inr None)
         }
         else ret (Inl (storage_error ''storage create: storage '' (sq_name q) [Lit ''read current config: '', Wrapped e]))
     | Inr raw \<Rightarrow> do {
         _ \<leftarrow> modify (\<lambda>s. s\<lparr>sq_current := Some (compacted raw)\<rparr>);
         ret (Inr (Some (compacted raw)))
       }
   }"

definition param_matches :: "url_values \<Rightarrow> string gomap \<Rightarrow> string \<Rightarrow> bool" where
  "param_matches params actual key =
     (let lk = strings_ToLower key in
      lk = ''storage'' \<or> lk = ''digest'' \<or>
      (case map_of actual lk of None \<Rightarrow> False | Some got \<Rightarrow> got = values_Get params key))"

definition matches :: "url_values \<Rightarrow> json gomap option \<Rightarrow> bool" where
  "matches params current = list_all (param_matches params (lower_fields (entries current))) (map fst params)"

definition StorageCreate_Satisfied :: "create_request \<Rightarrow> json gomap option option \<Rightarrow> bool" where
  "StorageCreate_Satisfied q current = (case current of None \<Rightarrow> False | Some c \<Rightarrow> matches (sq_params q) c)"

definition StorageCreate_Apply :: "env \<Rightarrow> target \<Rightarrow> create_request \<Rightarrow> (storagecreate, gerror option) state" where
  "StorageCreate_Apply env t q =
     (case StorageCreate_Validate q of
        Some e \<Rightarrow> ret (Some e)
      | None \<Rightarrow> do {
          s \<leftarrow> State_Monad.get;
          if (case sq_current s of None \<Rightarrow> False | Some c \<Rightarrow> \<not> matches (sq_params q) c) then
            ret (Some (StorageDiffersError (sq_name q) (encodeDesired (sq_params q)) (view_text (the (sq_current s)))))
          else do {
            r \<leftarrow> CreateStorage env (sq_name q) (sq_params q);
            case r of
              Inl e \<Rightarrow> ret (Some (storage_error ''storage create: storage '' (sq_name q) [Wrapped e]))
            | Inr raw \<Rightarrow>
                (case upidIfScalar raw of
                   None \<Rightarrow> ret None
                 | Some upid \<Rightarrow> do {
                     w \<leftarrow> WaitForTask env (tg_node t) upid;
                     ret (case w of
                         None \<Rightarrow> None
                       | Some e \<Rightarrow> Some (storage_error ''storage create: storage '' (sq_name q) [Wrapped e]))
                   })
          }
        })"

definition StorageCreate :: "env \<Rightarrow> target \<Rightarrow> create_request \<Rightarrow> (storagecreate, json gomap option option) op" where
  "StorageCreate env t q =
     \<lparr>op_Read = StorageCreate_Read env q, op_Satisfied = (\<lambda>_. StorageCreate_Satisfied q),
      op_Apply = StorageCreate_Apply env t q, op_PostApply = None, op_ReRead = None, op_PostNoop = None\<rparr>"

section \<open>Adding a content type\<close>

record content_request =
  ct_storage :: string
  ct_type :: string

record content_snapshot =
  cs_content :: "string list"
  cs_digest :: string
  cs_fields :: "string gomap"

record storagecontent = sess +
  ct_snapshot :: content_snapshot

definition validStorageContentTypes :: "string list" where
  "validStorageContentTypes = [''images'', ''rootdir'', ''iso'', ''vztmpl'', ''backup'', ''snippets'', ''import'']"

definition content_error :: "string \<Rightarrow> frag list \<Rightarrow> gerror" where
  "content_error name rest = storage_error ''storage set-content: storage '' name rest"

definition StorageContent_Validate :: "content_request \<Rightarrow> gerror option" where
  "StorageContent_Validate q =
     (if ct_storage q = [] then Some (ErrorString ''storage set-content: a storage name is required'')
      else if ct_type q = [] then Some (ErrorString ''storage set-content: a content type is required'')
      else if ct_type q \<notin> set validStorageContentTypes then
        Some (content_error (ct_storage q) [Lit ''unknown content type '', Quo (ct_type q),
          Lit ''; valid types are backup, images, import, iso, rootdir, snippets, vztmpl''])
      else None)"

definition listed_types :: "string \<Rightarrow> string list" where
  "listed_types c = remdups (filter (\<lambda>w. w \<noteq> []) (map strings_TrimSpace (strings_Split c CHR '','')))"

definition parseStorageContentSnapshot :: "string \<Rightarrow> json gomap option \<Rightarrow> gerror + content_snapshot" where
  "parseStorageContentSnapshot storage raw =
     (case map_of (entries raw) ''digest'' of
        None \<Rightarrow> Inl (content_error storage [Lit ''config carries no digest (cannot compare-and-swap safely)''])
      | Some d \<Rightarrow>
          if jsonScalar d = [] then Inl (content_error storage [Lit ''config digest is empty''])
          else
            let flds = lower_fields (entries raw) in
            Inr \<lparr>cs_content = (case map_of flds ''content'' of None \<Rightarrow> [] | Some c \<Rightarrow> listed_types c),
                 cs_digest = jsonScalar d, cs_fields = flds\<rparr>)"

definition contentListString :: "string list \<Rightarrow> string" where
  "contentListString types = strings_Join (sort (remdups types)) CHR '','' "

definition StorageContent_Read :: "env \<Rightarrow> content_request \<Rightarrow> (storagecontent, gerror + string) state" where
  "StorageContent_Read env q = do {
     r \<leftarrow> GetStorageConfigRaw env (ct_storage q);
     case r of
       Inl e \<Rightarrow>
         ret (Inl (if IsStorageNotFoundError e then
             Errorf [Lit ''storage set-content: storage '', Quo (ct_storage q),
               Lit '' does not exist (create it first; set-content does not create a storage): '', Wrapped e]
           else content_error (ct_storage q) [Lit ''read current config: '', Wrapped e]))
     | Inr raw \<Rightarrow>
         (case parseStorageContentSnapshot (ct_storage q) raw of
            Inl e \<Rightarrow> ret (Inl e)
          | Inr sn \<Rightarrow> do {
              _ \<leftarrow> modify (\<lambda>s. s\<lparr>ct_snapshot := sn\<rparr>);
              ret (Inr (contentListString (cs_content sn)))
            })
   }"

definition StorageContent_Satisfied :: "content_request \<Rightarrow> storagecontent \<Rightarrow> bool" where
  "StorageContent_Satisfied q s \<longleftrightarrow> ct_type q \<in> set (cs_content (ct_snapshot s))"

definition field_text :: "string gomap \<Rightarrow> string \<Rightarrow> string" where
  "field_text flds k = (case map_of flds k of None \<Rightarrow> [] | Some v \<Rightarrow> v)"

definition unexpected_fields :: "content_snapshot \<Rightarrow> content_snapshot \<Rightarrow> string list" where
  "unexpected_fields pre post =
     filter (\<lambda>k. k \<noteq> ''content'' \<and> k \<noteq> ''digest'' \<and> field_text (cs_fields pre) k \<noteq> field_text (cs_fields post) k)
       (sort (remdups (map fst (cs_fields pre) @ map fst (cs_fields post))))"

definition diffGuard :: "env \<Rightarrow> content_request \<Rightarrow> content_snapshot \<Rightarrow> ('r sess_scheme, gerror option) state" where
  "diffGuard env q pre = do {
     r \<leftarrow> GetStorageConfigRaw env (ct_storage q);
     ret (case r of
         Inl e \<Rightarrow> Some (content_error (ct_storage q) [Lit ''diff-guard re-read: '', Wrapped e])
       | Inr raw \<Rightarrow>
           (case parseStorageContentSnapshot (ct_storage q) raw of
              Inl e \<Rightarrow> Some e
            | Inr post \<Rightarrow>
                if unexpected_fields pre post \<noteq> [] then
                  Some (content_error (ct_storage q) [Lit ''the write changed unexpected field(s) '',
                    Lit (join_with '', '' (unexpected_fields pre post)),
                    Lit ('' (only content and digest were meant to change) '' @ [CHR 0xE2, CHR 0x80, CHR 0x94] @ '' refusing to report success'')])
                else if ct_type q \<notin> set (cs_content post) then
                  Some (content_error (ct_storage q) [Lit ''the write reported success but content type '', Quo (ct_type q),
                    Lit ('' is not present on re-read '' @ [CHR 0xE2, CHR 0x80, CHR 0x94] @ '' refusing to report success'')])
                else None))
   }"

definition content_form :: "content_request \<Rightarrow> content_snapshot \<Rightarrow> url_values" where
  "content_form q pre =
     values_Set ''digest'' (cs_digest pre) (values_Set ''content'' (contentListString (ct_type q # cs_content pre)) [])"

text \<open>The write with its answer, and what follows it.\<close>

definition content_write :: "env \<Rightarrow> target \<Rightarrow> content_request \<Rightarrow> content_snapshot \<Rightarrow> ('r sess_scheme, gerror option) state" where
  "content_write env t q pre = do {
     resp \<leftarrow> UpdateStorageConfig env (ct_storage q) (content_form q pre);
     case resp of
       Inl e \<Rightarrow>
         ret (Some (if IsDigestConflictError e then
             content_error (ct_storage q) [Wrapped (Sentinel ErrConflict), Lit '': '', Wrapped e]
           else content_error (ct_storage q) [Lit ''write content: '', Wrapped e]))
     | Inr raw \<Rightarrow>
         (case upidIfScalar raw of
            None \<Rightarrow> diffGuard env q pre
          | Some upid \<Rightarrow> do {
              w \<leftarrow> WaitForTask env (tg_node t) upid;
              case w of
                Some e \<Rightarrow> ret (Some (content_error (ct_storage q) [Wrapped e]))
              | None \<Rightarrow> diffGuard env q pre
            })
   }"

definition StorageContent_Apply :: "env \<Rightarrow> target \<Rightarrow> content_request \<Rightarrow> ('r sess_scheme, gerror option) state" where
  "StorageContent_Apply env t q =
     (case StorageContent_Validate q of
        Some e \<Rightarrow> ret (Some e)
      | None \<Rightarrow> do {
          r \<leftarrow> GetStorageConfigRaw env (ct_storage q);
          case r of
            Inl e \<Rightarrow> ret (Some (content_error (ct_storage q) [Lit ''re-read before write: '', Wrapped e]))
          | Inr raw \<Rightarrow>
              (case parseStorageContentSnapshot (ct_storage q) raw of
                 Inl e \<Rightarrow> ret (Some e)
               | Inr pre \<Rightarrow> content_write env t q pre)
        })"

definition StorageContent :: "env \<Rightarrow> target \<Rightarrow> content_request \<Rightarrow> (storagecontent, string) op" where
  "StorageContent env t q =
     \<lparr>op_Read = StorageContent_Read env q, op_Satisfied = (\<lambda>s _. StorageContent_Satisfied q s),
      op_Apply = StorageContent_Apply env t q, op_PostApply = None, op_ReRead = None, op_PostNoop = None\<rparr>"

section \<open>What the calls do on the wire\<close>

lemma sconfig_path_slash: "\<exists>p. sconfig_path storage = CHR ''/'' # p"
  by (simp add: sconfig_path_def)

text \<open>A read of the definition, and its answer.\<close>

abbreviation config_event :: "string \<Rightarrow> gerror + json gomap option \<Rightarrow> event" where
  "config_event storage a \<equiv> EStorageConfig (sconfig_path storage) a"

lemma errors_As_wrapped:
  "p (Errorf [Lit w, Quo n, Lit v, Wrapped e]) = None \<Longrightarrow> errors_As p (Errorf [Lit w, Quo n, Lit v, Wrapped e]) = errors_As p e"
  by (subst errors_As.simps) (simp add: frags_As.simps split: option.split)

lemma pveAnswer_wrapped: "pveAnswer (Errorf [Lit w, Quo n, Lit v, Wrapped e]) = pveAnswer e"
  by (simp add: pveAnswer_def errors_As_wrapped cong: option.case_cong)

lemma missing_wrapped: "IsStorageNotFoundError (Errorf [Lit w, Quo n, Lit v, Wrapped e]) = IsStorageNotFoundError e"
  by (simp add: IsStorageNotFoundError_def pveAnswer_wrapped)

lemma traces_GetStorageConfigRaw:
  "traces (GetStorageConfigRaw env storage)
     (\<lambda>r es. es = [] \<and> (\<exists>e. r = Inl e \<and> \<not> IsStorageNotFoundError e) \<or>
        (\<exists>a. es = [config_event storage a] \<and>
           (case r of Inl e \<Rightarrow> \<exists>e'. a = Inl e' \<and> IsStorageNotFoundError e = IsStorageNotFoundError e' | Inr m \<Rightarrow> a = Inr m)))"
proof -
  have "\<not> IsStorageNotFoundError (ErrorString w)" for w by (simp add: IsStorageNotFoundError_def pveAnswer_def go_error)
  then show ?thesis
    unfolding GetStorageConfigRaw_def pc_sconfig_def traces_def
    by (simp add: run_perform split: sum.splits) (metis missing_wrapped)
qed

lemma frames_config [frames_intro]: "frames (GetStorageConfigRaw env storage)" "frames (GetStorageConfigPath env storage)"
  "frames (CreateStorage env name params)" "frames (UpdateStorageConfig env name params)"
  unfolding GetStorageConfigRaw_def GetStorageConfigPath_def CreateStorage_def UpdateStorageConfig_def
  by (intro frames_intro)+

lemma traces_CreateStorage:
  "name \<noteq> [] \<Longrightarrow> traces (CreateStorage env name params)
     (\<lambda>r es. \<exists>a. es = [EHttp POST ''/storage'' (values_Set ''storage'' name params) a] \<and> (\<forall>raw. r = Inr raw \<longrightarrow> raw_result a = Inr raw))"
  unfolding CreateStorage_def
  by (simp, rule traces_bind [OF traces_RawRequest_sent [OF refl]], simp, rule traces_return) (auto split: sum.splits)

lemma traces_UpdateStorageConfig:
  assumes "name \<noteq> []"
  shows "traces (UpdateStorageConfig env name params)
     (\<lambda>r es. \<exists>a. es = [EHttp PUT (sconfig_path name) params a] \<and> (\<forall>raw. r = Inr raw \<longrightarrow> raw_result a = Inr raw))"
proof -
  obtain p where "sconfig_path name = CHR ''/'' # p" using sconfig_path_slash by blast
  with assms show ?thesis
    unfolding UpdateStorageConfig_def
    by (simp, intro traces_bind [OF traces_RawRequest_sent [OF refl]] traces_return) (auto split: sum.splits)
qed

text \<open>A write that PVE answered, with the end of its task when the answer names one.\<close>

definition write_done :: "http_reply \<Rightarrow> event list \<Rightarrow> bool" where
  "write_done a es \<longleftrightarrow>
     (\<exists>raw. raw_result a = Inr raw \<and> (\<forall>u. raw = JStr u \<and> strings_HasPrefix u ''UPID:'' \<longrightarrow> task_seen_ok u es))"

lemma upidIfScalar_None: "upidIfScalar raw = None \<Longrightarrow> \<forall>u. raw = JStr u \<longrightarrow> \<not> strings_HasPrefix u ''UPID:''"
  by (auto simp: upidIfScalar_def unmarshal_string_def split: if_splits)

lemma upidIfScalar_Some: "upidIfScalar raw = Some u \<Longrightarrow> raw = JStr u"
  by (auto simp: upidIfScalar_def unmarshal_string_def strings_HasPrefix_def split: if_splits json.splits)

section \<open>A creation\<close>

definition create_post :: "create_request \<Rightarrow> http_reply \<Rightarrow> event" where
  "create_post q a = EHttp POST ''/storage'' (values_Set ''storage'' (sq_name q) (sq_params q)) a"

text \<open>Every parameter that was asked for, its name apart, is a value of the definition.\<close>

definition storage_agrees :: "url_values \<Rightarrow> json gomap option \<Rightarrow> bool" where
  "storage_agrees params raw \<longleftrightarrow>
     (\<forall>key \<in> fst ` set params. strings_ToLower key \<notin> {''storage'', ''digest''} \<longrightarrow>
        (\<exists>(k, v) \<in> set (entries raw). strings_ToLower k = strings_ToLower key \<and> jsonScalar (compact_value v) = values_Get params key))"

text \<open>What a write may rest on: PVE said that the storage is missing, or listed it as asked for.\<close>

definition create_basis :: "create_request \<Rightarrow> gerror + json gomap option \<Rightarrow> bool" where
  "create_basis q a \<longleftrightarrow> (case a of Inl e \<Rightarrow> IsStorageNotFoundError e | Inr raw \<Rightarrow> storage_agrees (sq_params q) raw)"

definition create_view :: "gerror + json gomap option \<Rightarrow> json gomap option option \<Rightarrow> bool" where
  "create_view a c \<longleftrightarrow> (case a of Inl e \<Rightarrow> IsStorageNotFoundError e \<and> c = None | Inr raw \<Rightarrow> c = Some (compacted raw))"

lemma lower_fields_source:
  "map_of (lower_fields m) lk = Some w \<Longrightarrow> \<exists>(k, v) \<in> set m. strings_ToLower k = lk \<and> jsonScalar v = w"
proof -
  have "map_of (fold (\<lambda>(k, v) acc. AList.update (strings_ToLower k) (jsonScalar v) acc) m acc) lk = Some w \<Longrightarrow>
      map_of acc lk = Some w \<or> (\<exists>(k, v) \<in> set m. strings_ToLower k = lk \<and> jsonScalar v = w)" for acc
    by (induction m arbitrary: acc) (fastforce simp: update_conv' split: if_splits)+
  from this [of "[]"] show "map_of (lower_fields m) lk = Some w \<Longrightarrow>
      \<exists>(k, v) \<in> set m. strings_ToLower k = lk \<and> jsonScalar v = w" by (simp add: lower_fields_def)
qed

lemma matches_agrees: "matches params (compacted raw) \<Longrightarrow> storage_agrees params raw"
proof (unfold storage_agrees_def, intro ballI impI)
  fix key assume m: "matches params (compacted raw)" and key: "key \<in> fst ` set params" "strings_ToLower key \<notin> {''storage'', ''digest''}"
  from key(1) have "key \<in> set (map fst params)" by simp
  with m have "param_matches params (lower_fields (entries (compacted raw))) key" unfolding matches_def list_all_iff by blast
  with key have "map_of (lower_fields (entries (compacted raw))) (strings_ToLower key) = Some (values_Get params key)"
    by (auto simp: param_matches_def Let_def split: option.splits)
  from lower_fields_source [OF this]
  show "\<exists>(k, v) \<in> set (entries raw). strings_ToLower k = strings_ToLower key \<and> jsonScalar (compact_value v) = values_Get params key"
    by (cases raw) (auto simp: compacted_def entries_def)
qed

lemma create_view_Some: "create_view a (Some d) \<longleftrightarrow> (\<exists>raw. a = Inr raw \<and> d = compacted raw)"
  by (cases a) (auto simp: create_view_def)

lemma create_view_basis: "create_view a c \<Longrightarrow> c = None \<or> (\<exists>d. c = Some d \<and> matches (sq_params q) d) \<Longrightarrow> create_basis q a"
  by (auto simp: create_view_def create_basis_def dest: matches_agrees split: sum.splits)

lemma runs_StorageCreate_Read:
  "runs s (StorageCreate_Read env q)
     (\<lambda>r s' es. list_all reads es \<and> (\<forall>c. r = Inr c \<longrightarrow> sq_current s' = c \<and> (\<exists>a. es = [config_event (sq_name q) a] \<and> create_view a c)))"
  unfolding StorageCreate_Read_def
proof (rule runs_bind, rule runs_traces [OF traces_GetStorageConfigRaw], rule frames_config, rule runs_case_sum, goal_cases)
  case (1 x s1 es e)
  then show ?case
    by (intro runs_if runs_bind runs_modify runs_return) (auto simp: create_view_def reads_def)
next
  case (2 x s1 es raw)
  then show ?case by (intro runs_bind runs_modify runs_return) (auto simp: create_view_def reads_def)
qed

definition create_spec :: "create_request \<Rightarrow> bool \<Rightarrow> gerror option \<Rightarrow> event list \<Rightarrow> bool" where
  "create_spec q may r es \<longleftrightarrow>
     es = [] \<and> r \<noteq> None \<or> (\<exists>a fs. es = create_post q a # fs \<and> list_all reads fs \<and> may \<and> (r = None \<longrightarrow> write_done a fs))"

lemma runs_StorageCreate_Apply:
  "runs s (StorageCreate_Apply env t q)
     (\<lambda>r s' es. create_spec q (sq_current s = None \<or> (\<exists>d. sq_current s = Some d \<and> matches (sq_params q) d)) r es)"
  unfolding StorageCreate_Apply_def
proof (rule runs_case_option, goal_cases)
  case (2 e)
  then show ?case by (auto intro!: runs_return simp: create_spec_def)
next
  case 1
  then have name: "sq_name q \<noteq> []" by (auto simp: StorageCreate_Validate_def Let_def split: if_splits)
  show ?case
  proof (rule runs_bind, rule runs_get, rule runs_if, goal_cases)
    case 1
    then show ?case by (auto intro!: runs_return simp: create_spec_def)
  next
    case 2
    then have may: "sq_current s = None \<or> (\<exists>d. sq_current s = Some d \<and> matches (sq_params q) d)" by (auto split: option.splits)
    show ?case
    proof (rule runs_bind, rule runs_traces [OF traces_CreateStorage [OF name] frames_config(3)], elim exE conjE, rule runs_case_sum, goal_cases)
      case (1 x s1 es a e)
      with may show ?case by (intro runs_return) (auto simp: create_spec_def create_post_def)
    next
      case (2 x s1 es a raw)
      then have raw: "raw_result a = Inr raw" by simp
      show ?case
      proof (rule runs_case_option, goal_cases)
        case 1
        with 2 raw may show ?case
          by (intro runs_return) (auto simp: create_spec_def create_post_def write_done_def dest: upidIfScalar_None)
      next
        case (2 u)
        show ?case
          by (rule runs_bind, rule runs_traces [OF traces_WaitForTask_ok], intro frames_intro, rule runs_return)
            (use 2 \<open>es = _\<close> raw may upidIfScalar_Some [OF 2] in
              \<open>auto simp: create_spec_def create_post_def write_done_def split: option.splits\<close>)
      qed
    qed
  qed
qed

text \<open>A write of a creation rests on the read right before it.\<close>

definition create_allowed :: "create_request \<Rightarrow> event list \<Rightarrow> event \<Rightarrow> bool" where
  "create_allowed q before e \<longleftrightarrow>
     (\<exists>hist a b. before = hist @ [config_event (sq_name q) a] \<and> create_basis q a \<and> e = create_post q b)"

lemma create_allowedI: "create_basis q a \<Longrightarrow> create_allowed q [config_event (sq_name q) a] (create_post q b)"
  unfolding create_allowed_def by (intro exI [of _ "[]"] exI [of _ a] exI [of _ b]) simp

interpretation create_op: op_attempt "StorageCreate env t q" "create_spec q True"
    "\<lambda>c es. \<exists>a. es = [config_event (sq_name q) a] \<and> create_view a c" "StorageCreate_Satisfied q" "create_allowed q" for env t q
proof unfold_locales
  show "traces (op_Read (StorageCreate env t q)) (\<lambda>r es. list_all reads es \<and>
      (\<forall>c. r = Inr c \<longrightarrow> (\<exists>a. es = [config_event (sq_name q) a] \<and> create_view a c)))"
    unfolding StorageCreate_def op.simps by (rule traces_runs, rule runs_mono [OF runs_StorageCreate_Read]) auto
  show "traces (op_Apply (StorageCreate env t q)) (create_spec q True)"
    unfolding StorageCreate_def op.simps
    by (rule traces_runs, rule runs_mono [OF runs_StorageCreate_Apply]) (auto simp: create_spec_def)
  show "looks_back (create_allowed q)" by (auto simp: looks_back_def create_allowed_def)
next
  fix s c s1 r s2
  assume "run_state (op_Read (StorageCreate env t q)) s = (Inr c, s1)" "run_state (op_Apply (StorageCreate env t q)) s1 = (r, s2)"
  then have rd: "run_state (StorageCreate_Read env q) s = (Inr c, s1)" and ap: "run_state (StorageCreate_Apply env t q) s1 = (r, s2)"
    by (simp_all add: StorageCreate_def)
  from runsD [OF runs_StorageCreate_Read rd] obtain a where a: "log s1 = log s @ [config_event (sq_name q) a]" "create_view a (sq_current s1)"
    by auto
  from runsD [OF runs_StorageCreate_Apply ap] obtain es where es: "log s2 = log s1 @ es"
    "create_spec q (sq_current s1 = None \<or> (\<exists>d. sq_current s1 = Some d \<and> matches (sq_params q) d)) r es" by blast
  have "gated (\<lambda>pre. create_allowed q (config_event (sq_name q) a # pre)) es"
  proof (cases "es = []")
    case True
    then show ?thesis by (simp add: gated_def)
  next
    case False
    with es(2) obtain b fs where "es = create_post q b # fs" "list_all reads fs"
      "sq_current s1 = None \<or> (\<exists>d. sq_current s1 = Some d \<and> matches (sq_params q) d)" unfolding create_spec_def by blast
    with create_allowedI [OF create_view_basis [OF a(2)]] show ?thesis by (simp add: gated_Cons gated_reads)
  qed
  then have "gated (create_allowed q) (config_event (sq_name q) a # es)" by (intro gated_Cons) auto
  with a es show "\<exists>es. log s2 = log s @ es \<and> gated (create_allowed q) es" by auto
qed (auto simp: StorageCreate_def)

section \<open>A content type\<close>

text \<open>The types a definition lists.\<close>

definition config_types :: "json gomap option \<Rightarrow> string list" where
  "config_types raw = (case map_of (lower_fields (entries raw)) ''content'' of None \<Rightarrow> [] | Some c \<Rightarrow> listed_types c)"

lemma parse_snapshot:
  "parseStorageContentSnapshot storage raw = Inr sn \<longleftrightarrow>
     (\<exists>d. map_of (entries raw) ''digest'' = Some d \<and> jsonScalar d \<noteq> [] \<and> cs_digest sn = jsonScalar d) \<and>
     cs_content sn = config_types raw \<and> cs_fields sn = lower_fields (entries raw)"
  by (cases sn) (auto simp: parseStorageContentSnapshot_def config_types_def Let_def split: option.splits if_splits)

lemma listed_types_words: "w \<in> set (listed_types c) \<Longrightarrow> w \<noteq> [] \<and> strings_TrimSpace w = w \<and> CHR '','' \<notin> set w"
  using set_strings_TrimSpace strings_Split_words by (fastforce simp: listed_types_def)

lemma valid_type_word: "w \<in> set validStorageContentTypes \<Longrightarrow> w \<noteq> [] \<and> strings_TrimSpace w = w \<and> CHR '','' \<notin> set w"
proof -
  have "list_all (\<lambda>w. w \<noteq> [] \<and> strings_TrimSpace w = w \<and> CHR '','' \<notin> set w) validStorageContentTypes" by code_simp
  then show "w \<in> set validStorageContentTypes \<Longrightarrow> w \<noteq> [] \<and> strings_TrimSpace w = w \<and> CHR '','' \<notin> set w"
    unfolding list_all_iff by blast
qed

text \<open>The list that is written reads back as the types it was made of.\<close>

lemma listed_contentListString:
  assumes "\<And>w. w \<in> set ws \<Longrightarrow> w \<noteq> [] \<and> strings_TrimSpace w = w \<and> CHR '','' \<notin> set w"
  shows "set (listed_types (contentListString ws)) = set ws"
proof (cases "ws = []")
  case True
  then show ?thesis by (simp add: listed_types_def contentListString_def) code_simp
next
  case False
  then have "sort (remdups ws) \<noteq> []" by (metis set_empty set_remdups set_sort)
  with assms have "strings_Split (contentListString ws) CHR '','' = sort (remdups ws)"
    unfolding contentListString_def by (intro strings_Split_Join) auto
  with assms show ?thesis by (force simp: listed_types_def)
qed

definition content_put :: "content_request \<Rightarrow> url_values \<Rightarrow> http_reply \<Rightarrow> event" where
  "content_put q f a = EHttp PUT (sconfig_path (ct_storage q)) f a"

text \<open>What a write may rest on, and what a success has seen.\<close>

definition content_basis :: "content_request \<Rightarrow> json gomap option \<Rightarrow> url_values \<Rightarrow> bool" where
  "content_basis q raw f \<longleftrightarrow>
     fst ` set f = {''content'', ''digest''} \<and>
     (\<exists>d. map_of (entries raw) ''digest'' = Some d \<and> values_Get f ''digest'' = jsonScalar d \<and> jsonScalar d \<noteq> []) \<and>
     set (listed_types (values_Get f ''content'')) = insert (ct_type q) (set (config_types raw))"

definition content_verified :: "content_request \<Rightarrow> json gomap option \<Rightarrow> json gomap option \<Rightarrow> bool" where
  "content_verified q before after \<longleftrightarrow>
     ct_type q \<in> set (config_types after) \<and>
     (\<forall>k. k \<notin> {''content'', ''digest''} \<longrightarrow>
        field_text (lower_fields (entries before)) k = field_text (lower_fields (entries after)) k)"

definition content_spec :: "content_request \<Rightarrow> gerror option \<Rightarrow> event list \<Rightarrow> bool" where
  "content_spec q r es \<longleftrightarrow>
     list_all reads es \<and> r \<noteq> None \<or>
     (\<exists>raw f a fs. es = config_event (ct_storage q) (Inr raw) # content_put q f a # fs \<and> content_basis q raw f \<and> list_all reads fs \<and>
        (r = None \<longrightarrow> write_done a fs \<and> (\<exists>after. config_event (ct_storage q) (Inr after) \<in> set fs \<and> content_verified q raw after)))"

lemma content_form_basis:
  assumes "StorageContent_Validate q = None" and "parseStorageContentSnapshot (ct_storage q) raw = Inr pre"
  shows "content_basis q raw (content_form q pre)"
proof -
  from assms(1) have "ct_type q \<in> set validStorageContentTypes"
    by (auto simp: StorageContent_Validate_def split: if_splits)
  from valid_type_word [OF this] have words: "w \<noteq> [] \<and> strings_TrimSpace w = w \<and> CHR '','' \<notin> set w"
    if "w \<in> set (ct_type q # config_types raw)" for w
    using that listed_types_words [of w] by (auto simp: config_types_def split: option.splits)
  from assms(2) have pre: "\<exists>d. map_of (entries raw) ''digest'' = Some d \<and> jsonScalar d \<noteq> [] \<and> cs_digest pre = jsonScalar d"
    "cs_content pre = config_types raw" by (simp_all add: parse_snapshot)
  then show ?thesis
    using listed_contentListString [of "ct_type q # config_types raw", OF words]
    by (auto simp: content_basis_def content_form_def values_Get_def values_Set_def)
qed

lemma unexpected_none:
  assumes "unexpected_fields pre post = []" and "k \<notin> {''content'', ''digest''}"
  shows "field_text (cs_fields pre) k = field_text (cs_fields post) k"
proof (cases "k \<in> fst ` set (cs_fields pre) \<or> k \<in> fst ` set (cs_fields post)")
  case True
  with assms show ?thesis by (auto simp: unexpected_fields_def filter_empty_conv)
next
  case False
  then show ?thesis by (simp add: field_text_def map_of_eq_None_iff [THEN iffD2])
qed

lemma traces_diffGuard:
  assumes "parseStorageContentSnapshot (ct_storage q) raw = Inr pre"
  shows "traces (diffGuard env q pre)
     (\<lambda>r es. list_all reads es \<and> (r = None \<longrightarrow> (\<exists>after. config_event (ct_storage q) (Inr after) \<in> set es \<and> content_verified q raw after)))"
  unfolding diffGuard_def
proof (rule traces_bind [OF traces_GetStorageConfigRaw], rule traces_return, goal_cases)
  case (1 r es)
  then have "list_all reads es" by (auto simp: reads_def)
  moreover have "content_verified q raw after" if "parseStorageContentSnapshot (ct_storage q) after = Inr post"
    "unexpected_fields pre post = []" "ct_type q \<in> set (cs_content post)" for after post
    using that assms unexpected_none [OF that(2)] by (simp add: content_verified_def parse_snapshot)
  ultimately show ?case using 1 by (auto split: sum.splits if_splits)
qed

lemma traces_content_write:
  assumes valid: "StorageContent_Validate q = None" and pre: "parseStorageContentSnapshot (ct_storage q) raw = Inr pre"
  shows "traces (content_write env t q pre) (\<lambda>r es. content_spec q r (config_event (ct_storage q) (Inr raw) # es))"
proof -
  have name: "ct_storage q \<noteq> []" using valid by (auto simp: StorageContent_Validate_def split: if_splits)
  have spec: "content_spec q r (config_event (ct_storage q) (Inr raw) # content_put q (content_form q pre) a # fs)"
    if "list_all reads fs" "r = None \<Longrightarrow> write_done a fs \<and> (\<exists>after. config_event (ct_storage q) (Inr after) \<in> set fs \<and> content_verified q raw after)"
    for r a fs
    using that content_form_basis [OF assms] unfolding content_spec_def by blast
  show ?thesis
    unfolding content_write_def
  proof (rule traces_bind [OF traces_UpdateStorageConfig [OF name]], elim exE conjE, rule traces_case_sum, goal_cases)
    case (1 x es a e)
    with spec [of "[]" "Some w" a for w] show ?case by (intro traces_return) (simp add: content_put_def)
  next
    case (2 x es a resp)
    then have resp: "raw_result a = Inr resp" and es: "es = [content_put q (content_form q pre) a]" by (simp_all add: content_put_def)
    show ?case
    proof (rule traces_case_option, goal_cases)
      case 1
      from upidIfScalar_None [OF this] show ?case
        by (intro traces_mono [OF traces_diffGuard [OF pre]]) (auto simp: es write_done_def resp intro!: spec)
    next
      case (2 u)
      show ?case
      proof (rule traces_bind [OF traces_WaitForTask_ok], rule traces_case_option, goal_cases)
        case (1 w fs)
        with upidIfScalar_Some [OF 2] show ?case
          by (intro traces_mono [OF traces_diffGuard [OF pre]]) (auto simp: es write_done_def resp intro!: spec)
      next
        case (2 w fs e)
        then show ?case by (auto intro!: traces_return spec simp: es)
      qed
    qed
  qed
qed

lemma traces_StorageContent_Apply: "traces (StorageContent_Apply env t q) (content_spec q)"
  unfolding StorageContent_Apply_def
proof (rule traces_case_option, goal_cases)
  case (2 e)
  then show ?case by (auto intro!: traces_return simp: content_spec_def)
next
  case valid: 1
  show ?case
  proof (rule traces_bind [OF traces_GetStorageConfigRaw], rule traces_case_sum, goal_cases)
    case (1 r es e)
    then show ?case by (auto intro!: traces_return simp: content_spec_def reads_def)
  next
    case (2 r es raw)
    then have es: "es = [config_event (ct_storage q) (Inr raw)]" by auto
    show ?case
    proof (rule traces_case_sum, goal_cases)
      case (1 e)
      then show ?case by (auto intro!: traces_return simp: content_spec_def reads_def es)
    next
      case (2 pre)
      from traces_content_write [OF valid this] show ?case by (simp add: es)
    qed
  qed
qed

lemma traces_StorageContent_Read:
  "traces (StorageContent_Read env q) (\<lambda>r es. list_all reads es \<and>
     (\<forall>c. r = Inr c \<longrightarrow> (\<exists>raw. es = [config_event (ct_storage q) (Inr raw)] \<and> c = contentListString (config_types raw))))"
  unfolding StorageContent_Read_def
proof (rule traces_bind [OF traces_GetStorageConfigRaw], rule traces_case_sum, goal_cases)
  case (1 r es e)
  then show ?case by (auto intro!: traces_return simp: reads_def)
next
  case (2 r es raw)
  then show ?case
    by (intro traces_case_sum traces_bind [OF traces_modify] traces_return) (auto simp: reads_def parse_snapshot)
qed

definition content_allowed :: "content_request \<Rightarrow> event list \<Rightarrow> event \<Rightarrow> bool" where
  "content_allowed q before e \<longleftrightarrow>
     (\<exists>hist raw f a. before = hist @ [config_event (ct_storage q) (Inr raw)] \<and> content_basis q raw f \<and> e = content_put q f a)"

lemma content_spec_gated: "content_spec q r es \<Longrightarrow> gated (content_allowed q) es"
proof (cases "list_all reads es")
  case False
  assume "content_spec q r es"
  with False obtain raw f a fs where es: "es = config_event (ct_storage q) (Inr raw) # content_put q f a # fs"
    and "content_basis q raw f" and fs: "list_all reads fs" unfolding content_spec_def by blast
  then have "content_allowed q [config_event (ct_storage q) (Inr raw)] (content_put q f a)"
    unfolding content_allowed_def by (intro exI [of _ "[]"] exI [of _ raw] exI [of _ f] exI [of _ a]) simp
  then show ?thesis unfolding es by (intro gated_Cons gated_reads [OF fs]) auto
qed (rule gated_reads)

interpretation content_op: op_contract "StorageContent env t q" "content_spec q"
    "\<lambda>c es. \<exists>raw. es = [config_event (ct_storage q) (Inr raw)] \<and> c = contentListString (config_types raw)" "\<lambda>_. True" for env t q
  by unfold_locales (use traces_StorageContent_Read traces_StorageContent_Apply in \<open>auto simp: StorageContent_def\<close>)

section \<open>What a run does\<close>

text \<open>
  C13: the only write of a run that creates a storage is its one request, and right before it PVE said that the
  storage does not exist, or showed every parameter that was asked for; a definition that differs is never touched.
\<close>

theorem StorageCreate_never_changes:
  assumes "run_state (Run env rp key (StorageCreate env t q) force) s = (res, s')"
  shows "\<exists>es. log s' = log s @ es \<and>
    (\<forall>before e after. es = before @ e # after \<longrightarrow> is_write e \<longrightarrow>
       (\<exists>hist a b. before = hist @ [config_event (sq_name q) a] \<and> e = create_post q b \<and>
          (case a of Inl err \<Rightarrow> IsStorageNotFoundError err | Inr raw \<Rightarrow> storage_agrees (sq_params q) raw)))"
proof -
  from create_op.Run_attempts_gated [OF assms] obtain es where "log s' = log s @ es" "gated (create_allowed q) es" by blast
  then show ?thesis unfolding gated_def create_allowed_def create_basis_def by blast
qed

text \<open>
  A creation that reports a change was answered by PVE, and its task, where the answer named one, ended
  well; one that reports none read a definition that has every parameter that was asked for.
\<close>

theorem StorageCreate_success:
  assumes "run_state (Run env rp key (StorageCreate env t q) force) s = (Inr x, s')"
  shows "\<exists>pre mid post. log s' = log s @ pre @ mid @ post \<and>
    (if Changed x then \<exists>a fs. mid = create_post q a # fs \<and> write_done a fs
     else \<exists>raw. mid = [config_event (sq_name q) (Inr raw)] \<and> storage_agrees (sq_params q) raw)"
proof -
  from create_op.Run_success [OF assms] obtain pre mid post where es: "log s' = log s @ pre @ mid @ post"
    and mid: "if Changed x then create_spec q True None mid
      else StorageCreate_Satisfied q (Before x) \<and> (\<exists>a. mid = [config_event (sq_name q) a] \<and> create_view a (Before x))" by auto
  have "if Changed x then \<exists>a fs. mid = create_post q a # fs \<and> write_done a fs
      else \<exists>raw. mid = [config_event (sq_name q) (Inr raw)] \<and> storage_agrees (sq_params q) raw"
    using mid by (auto simp: create_spec_def StorageCreate_Satisfied_def create_view_Some
      split: if_splits option.splits dest: matches_agrees)
  with es show ?thesis by blast
qed

text \<open>
  C12: every write of a run that adds a content type is a PUT of the content list and the digest only, whose
  list is exactly the types of the definition read right before it and the new one, and whose digest is that
  definition's.
\<close>

theorem StorageContent_guarded:
  assumes "run_state (Run env rp key (StorageContent env t q) force) s = (res, s')"
  shows "\<exists>es. log s' = log s @ es \<and>
    (\<forall>before e after. es = before @ e # after \<longrightarrow> is_write e \<longrightarrow>
       (\<exists>hist raw f a d. before = hist @ [config_event (ct_storage q) (Inr raw)] \<and> e = EHttp PUT (sconfig_path (ct_storage q)) f a \<and>
          fst ` set f = {''content'', ''digest''} \<and> map_of (entries raw) ''digest'' = Some d \<and> values_Get f ''digest'' = jsonScalar d \<and>
          jsonScalar d \<noteq> [] \<and> set (listed_types (values_Get f ''content'')) = insert (ct_type q) (set (config_types raw))))"
proof -
  have "looks_back (content_allowed q)" unfolding looks_back_def content_allowed_def by (metis append.assoc)
  from content_op.Run_gated [OF this _ assms] content_spec_gated obtain es
    where "log s' = log s @ es" "gated (content_allowed q) es" by blast
  then show ?thesis unfolding gated_def content_allowed_def content_basis_def content_put_def by blast
qed

text \<open>
  A run that reports a change was answered by PVE, its task ended well where the answer named one, and a
  later read shows the type listed and every field but the content and the digest as it was before the write.
\<close>

theorem StorageContent_success:
  assumes "run_state (Run env rp key (StorageContent env t q) force) s = (Inr x, s')" and "Changed x"
  shows "\<exists>pre before f a fs post after. log s' = log s @ pre @ config_event (ct_storage q) (Inr before) #
      EHttp PUT (sconfig_path (ct_storage q)) f a # fs @ post \<and> write_done a fs \<and>
    config_event (ct_storage q) (Inr after) \<in> set fs \<and> ct_type q \<in> set (config_types after) \<and>
    (\<forall>k. k \<notin> {''content'', ''digest''} \<longrightarrow>
       field_text (lower_fields (entries before)) k = field_text (lower_fields (entries after)) k)"
proof -
  from content_op.Run_success [OF assms(1)] assms(2) obtain pre mid post where
    es: "log s' = log s @ pre @ mid @ post" "content_spec q None mid" by auto
  then obtain before f a fs after where "mid = config_event (ct_storage q) (Inr before) # content_put q f a # fs" "write_done a fs"
    "config_event (ct_storage q) (Inr after) \<in> set fs" "content_verified q before after" unfolding content_spec_def by auto
  with es(1) show ?thesis
    unfolding content_verified_def content_put_def
    by (intro exI [of _ pre] exI [of _ before] exI [of _ f] exI [of _ a] exI [of _ fs] exI [of _ post] exI [of _ after]) simp
qed

section \<open>Two runs\<close>

text \<open>The storage is missing until it was created; later its definition lists one content type, or two once it was changed.\<close>

definition missing_storage :: gerror where
  "missing_storage = ProxmoxStatusError 500 (''500 storage '' @ [CHR 0x27] @ ''tank'' @ [CHR 0x27] @ '' does not exist'') []"

definition tank_definition :: "string \<Rightarrow> json gomap option" where
  "tank_definition types = Some [(''type'', JStr ''dir''), (''content'', JStr types), (''digest'', JStr ''d1'')]"

definition tank_world :: env where
  "tank_world = calm\<lparr>e_sconfig := (\<lambda>h p. if list_ex (is_request POST) h then Inr (tank_definition ''images'') else Inl missing_storage)\<rparr>"

definition types_world :: env where
  "types_world = calm\<lparr>e_sconfig := (\<lambda>h p. Inr (tank_definition (if list_ex (is_request PUT) h then ''images,snippets'' else ''images'')))\<rparr>"

definition demo_create :: create_request where
  "demo_create = \<lparr>sq_name = ''tank'', sq_params = [(''type'', [''dir''])]\<rparr>"

definition demo_types :: content_request where
  "demo_types = \<lparr>ct_storage = ''tank'', ct_type = ''snippets''\<rparr>"

definition create_session :: storagecreate where
  "create_session = \<lparr>log = [], ssh_open = False, sq_current = None\<rparr>"

definition types_session :: storagecontent where
  "types_session = \<lparr>log = [], ssh_open = False, ct_snapshot = \<lparr>cs_content = [], cs_digest = [], cs_fields = []\<rparr>\<rparr>"

abbreviation demo_creation :: "(gerror + json gomap option option result) \<times> storagecreate" where
  "demo_creation \<equiv> run_state (Run tank_world ''roster.yaml'' demo_key (StorageCreate tank_world demo_target demo_create) False) create_session"

abbreviation demo_typing :: "(gerror + string result) \<times> storagecontent" where
  "demo_typing \<equiv> run_state (Run types_world ''roster.yaml'' demo_key (StorageContent types_world demo_target demo_types) False) types_session"

lemma missing_storage_found: "IsStorageNotFoundError (Errorf [Lit w, Quo n, Lit v, Wrapped missing_storage])"
  unfolding missing_wrapped by code_simp

lemma calm_answer: "raw_result (HAnswer 200 ''200 OK'' ''{}'' (Some (JObj ''{}'' []))) = Inr JNull"
  by code_simp

lemma run_create_Apply:
  "sq_current s = None \<Longrightarrow> \<exists>s'. run_state (StorageCreate_Apply tank_world demo_target demo_create) s = (None, s')"
  by (simp add: StorageCreate_Apply_def StorageCreate_Validate_def demo_create_def requiredKeysByType_def values_Get_def Let_def
      State_Monad.get_def CreateStorage_def RawRequest_def strings_HasPrefix_def http_do_def run_perform tank_world_def calm_answer
      upidIfScalar_def unmarshal_string_def)

lemma run_creation: "\<exists>s' x. demo_creation = (Inr x, s') \<and> Changed x"
proof -
  let ?oper = "StorageCreate tank_world demo_target demo_create"
  obtain s1 where mut: "run_state (Mutation tank_world ''roster.yaml'' demo_key) create_session =
      (Inr (kf_resource (filesFor ''roster.yaml'' demo_key)), s1)" and s1: "\<not> list_ex (is_request POST) (log s1)"
    by (simp add: Mutation_def ensureLockDir_def acquire_def Let_def primitive_defs run_simps tank_world_def create_session_def)
  then obtain s2 where rd: "run_state (op_Read ?oper) s1 = (Inr None, s2)" and s2: "sq_current s2 = None"
    by (simp add: StorageCreate_def StorageCreate_Read_def GetStorageConfigRaw_def demo_create_def pc_sconfig_def run_perform
        tank_world_def missing_storage_found modify_def)
  have unsat: "\<not> op_Satisfied ?oper s2 None" by (simp add: StorageCreate_def StorageCreate_Satisfied_def)
  from run_create_Apply [OF s2] obtain s3 where ap: "run_state (op_Apply ?oper) s2 = (None, s3)" by (auto simp: StorageCreate_def)
  obtain a s5 where rr: "run_state (case op_ReRead ?oper of None \<Rightarrow> op_Read ?oper | Some m \<Rightarrow> m) s3 = (a, s5)" by force
  have chk: "run_state (run_check demo_key '': post-apply check: '' (op_PostApply ?oper)) s5 = (None, s5)"
    by (simp add: run_check_def StorageCreate_def)
  obtain x where "run_state (attempts (maxConflictRetries - 1) demo_key ?oper False) s1 = (Inr x, s5)" "Changed x"
    using run_attempts_applied [OF rd disjI2 [OF unsat] ap(1) rr chk] by blast
  moreover obtain u s6 where "run_state (unlock tank_world (kf_resource (filesFor ''roster.yaml'' demo_key))) s5 = (u, s6)" by force
  ultimately show ?thesis using mut by (simp add: Run_def)
qed

lemma parse_tank:
  "parseStorageContentSnapshot ''tank'' (tank_definition ''images'') =
     Inr \<lparr>cs_content = [''images''], cs_digest = ''d1'', cs_fields = [(''type'', ''dir''), (''content'', ''images''), (''digest'', ''d1'')]\<rparr>"
  "parseStorageContentSnapshot ''tank'' (tank_definition ''images,snippets'') =
     Inr \<lparr>cs_content = [''images'', ''snippets''], cs_digest = ''d1'',
       cs_fields = [(''type'', ''dir''), (''content'', ''images,snippets''), (''digest'', ''d1'')]\<rparr>"
  by code_simp+

lemma demo_types_fields: "ct_storage demo_types = ''tank''" "ct_type demo_types = ''snippets''"
  by (simp_all add: demo_types_def)

lemma run_types_read:
  "run_state (GetStorageConfigRaw types_world ''tank'') s =
     (Inr (tank_definition (if list_ex (is_request PUT) (log s) then ''images,snippets'' else ''images'')),
      s\<lparr>log := log s @ [config_event ''tank'' (Inr (tank_definition (if list_ex (is_request PUT) (log s) then ''images,snippets'' else ''images'')))]\<rparr>)"
  by (simp add: GetStorageConfigRaw_def pc_sconfig_def run_perform types_world_def)

lemma run_types_Apply:
  fixes s :: storagecontent
  assumes "\<not> list_ex (is_request PUT) (log s)"
  shows "\<exists>s'. run_state (StorageContent_Apply types_world demo_target demo_types) s = (None, s')"
proof -
  obtain p where p: "sconfig_path ''tank'' = CHR ''/'' # p" using sconfig_path_slash by blast
  have put: "run_state (UpdateStorageConfig types_world ''tank'' f) s =
      (Inr JNull, s\<lparr>log := log s @ [EHttp PUT (sconfig_path ''tank'') f (HAnswer 200 ''200 OK'' ''{}'' (Some (JObj ''{}'' [])))]\<rparr>)"
    for f and s :: storagecontent
    by (simp add: UpdateStorageConfig_def RawRequest_def p strings_HasPrefix_def http_do_def run_perform types_world_def calm_answer)
  have valid: "StorageContent_Validate demo_types = None" by code_simp
  have same: "unexpected_fields
      \<lparr>cs_content = [''images''], cs_digest = ''d1'', cs_fields = [(''type'', ''dir''), (''content'', ''images''), (''digest'', ''d1'')]\<rparr>
      \<lparr>cs_content = [''images'', ''snippets''], cs_digest = ''d1'',
        cs_fields = [(''type'', ''dir''), (''content'', ''images,snippets''), (''digest'', ''d1'')]\<rparr> = []" by code_simp
  show ?thesis
    using assms
    by (simp add: StorageContent_Apply_def valid run_types_read parse_tank content_write_def put diffGuard_def same
        upidIfScalar_def unmarshal_string_def strings_HasPrefix_def demo_types_fields)
qed

lemma run_typing: "\<exists>s' x. demo_typing = (Inr x, s') \<and> Changed x"
proof -
  let ?oper = "StorageContent types_world demo_target demo_types"
  obtain s1 where mut: "run_state (Mutation types_world ''roster.yaml'' demo_key) types_session =
      (Inr (kf_resource (filesFor ''roster.yaml'' demo_key)), s1)" and s1: "\<not> list_ex (is_request PUT) (log s1)"
    by (simp add: Mutation_def ensureLockDir_def acquire_def Let_def primitive_defs run_simps types_world_def types_session_def)
  then obtain s2 c where rd: "run_state (op_Read ?oper) s1 = (Inr c, s2)" and s2: "\<not> list_ex (is_request PUT) (log s2)"
    and ct: "cs_content (ct_snapshot s2) = [''images'']"
    by (simp add: StorageContent_def StorageContent_Read_def run_types_read demo_types_def parse_tank modify_def)
  have unsat: "\<not> op_Satisfied ?oper s2 c" by (simp add: StorageContent_def StorageContent_Satisfied_def ct demo_types_def)
  from run_types_Apply [OF s2] obtain s3 where ap: "run_state (op_Apply ?oper) s2 = (None, s3)" by (auto simp: StorageContent_def)
  obtain a s5 where rr: "run_state (case op_ReRead ?oper of None \<Rightarrow> op_Read ?oper | Some m \<Rightarrow> m) s3 = (a, s5)" by force
  have chk: "run_state (run_check demo_key '': post-apply check: '' (op_PostApply ?oper)) s5 = (None, s5)"
    by (simp add: run_check_def StorageContent_def)
  obtain x where "run_state (attempts (maxConflictRetries - 1) demo_key ?oper False) s1 = (Inr x, s5)" "Changed x"
    using run_attempts_applied [OF rd disjI2 [OF unsat] ap(1) rr chk] by blast
  moreover obtain u s6 where "run_state (unlock types_world (kf_resource (filesFor ''roster.yaml'' demo_key))) s5 = (u, s6)" by force
  ultimately show ?thesis using mut by (simp add: Run_def)
qed

theorem StorageCreate_never_changes_witness:
  "\<exists>es. log (snd demo_creation) = es \<and>
    (\<forall>before e after. es = before @ e # after \<longrightarrow> is_write e \<longrightarrow>
       (\<exists>hist a b. before = hist @ [config_event ''tank'' a] \<and> e = create_post demo_create b \<and>
          (case a of Inl err \<Rightarrow> IsStorageNotFoundError err | Inr raw \<Rightarrow> storage_agrees (sq_params demo_create) raw)))"
proof -
  have "log create_session = []" "sq_name demo_create = ''tank''" by (simp_all add: create_session_def demo_create_def)
  with StorageCreate_never_changes [of tank_world "''roster.yaml''" demo_key demo_target demo_create False create_session
      "fst demo_creation" "snd demo_creation"] show ?thesis by simp
qed

theorem StorageCreate_success_witness:
  "\<exists>pre a fs post. log (snd demo_creation) = pre @ create_post demo_create a # fs @ post \<and> write_done a fs"
proof -
  obtain s' x where run: "demo_creation = (Inr x, s')" "Changed x" using run_creation by blast
  have "log create_session = []" by (simp add: create_session_def)
  with StorageCreate_success [OF run(1)] run show ?thesis by fastforce
qed

theorem StorageContent_guarded_witness:
  "\<exists>es. log (snd demo_typing) = es \<and>
    (\<forall>before e after. es = before @ e # after \<longrightarrow> is_write e \<longrightarrow>
       (\<exists>hist raw f a d. before = hist @ [config_event ''tank'' (Inr raw)] \<and> e = EHttp PUT (sconfig_path ''tank'') f a \<and>
          fst ` set f = {''content'', ''digest''} \<and> map_of (entries raw) ''digest'' = Some d \<and> values_Get f ''digest'' = jsonScalar d \<and>
          jsonScalar d \<noteq> [] \<and> set (listed_types (values_Get f ''content'')) = insert ''snippets'' (set (config_types raw))))"
proof -
  note demo_types_fields
  moreover have "log types_session = []" by (simp add: types_session_def)
  ultimately show ?thesis using StorageContent_guarded [of types_world "''roster.yaml''" demo_key demo_target demo_types False types_session
      "fst demo_typing" "snd demo_typing"] by simp
qed

theorem StorageContent_success_witness:
  "\<exists>pre before f a fs post after. log (snd demo_typing) = pre @ config_event ''tank'' (Inr before) #
      EHttp PUT (sconfig_path ''tank'') f a # fs @ post \<and> write_done a fs \<and>
    config_event ''tank'' (Inr after) \<in> set fs \<and> ''snippets'' \<in> set (config_types after)"
proof -
  obtain s' x where run: "demo_typing = (Inr x, s')" "Changed x" using run_typing by blast
  have "log types_session = []" by (simp add: types_session_def)
  with StorageContent_success [OF run] run show ?thesis unfolding demo_types_fields append_Nil snd_conv by fastforce
qed

end
