(* ===== verification/Snippet.thy ===== *)
theory Snippet
  imports LinkLayer StorageConfig AccessGuard ShellLine
begin

text \<open>
  Files written on a node over SSH (\<open>internal/sshexec/writefile.go\<close>) and the upload of a snippet
  (\<open>UploadSnippet\<close> of \<open>internal/pve/routed.go\<close>).  The content travels in base64 as one word of the command
  line.  The time the command may take is part of its answer.
\<close>

section \<open>Base64\<close>

definition base64_alphabet :: string where
  "base64_alphabet = ''ABCDEFGHIJKLMNOPQRSTUVWXYZabcdefghijklmnopqrstuvwxyz0123456789+/''"

definition base64_digit :: "nat \<Rightarrow> char" where
  "base64_digit n = base64_alphabet ! n"

text \<open>\<open>base64.StdEncoding\<close>: three bytes become four digits, and the last group is padded.\<close>

fun base64_encode :: "string \<Rightarrow> string" where
  "base64_encode [] = []"
| "base64_encode [a] = (let n = of_char a :: nat in
     [base64_digit (n div 4), base64_digit (n mod 4 * 16), CHR ''='', CHR ''=''])"
| "base64_encode [a, b] = (let n = of_char a * 256 + of_char b :: nat in
     [base64_digit (n div 1024), base64_digit (n div 16 mod 64), base64_digit (n mod 16 * 4), CHR ''=''])"
| "base64_encode (a # b # c # cs) = (let n = (of_char a * 256 + of_char b) * 256 + of_char c :: nat in
     base64_digit (n div 262144) # base64_digit (n div 4096 mod 64) # base64_digit (n div 64 mod 64) # base64_digit (n mod 64) #
     base64_encode cs)"

text \<open>The reference: what \<open>base64 -d\<close> makes of such a text.\<close>

definition base64_value :: "char \<Rightarrow> nat option" where
  "base64_value c = (if c \<in> set base64_alphabet then Some (length (takeWhile (\<lambda>d. d \<noteq> c) base64_alphabet)) else None)"

fun base64_decode :: "string \<Rightarrow> string option" where
  "base64_decode [] = Some []"
| "base64_decode (w # x # y # z # rest) =
     (case (base64_value w, base64_value x) of
        (Some i, Some j) \<Rightarrow>
          (if y = CHR ''='' \<and> z = CHR ''='' \<and> rest = [] then Some [char_of (i * 4 + j div 16)]
           else (case base64_value y of
               None \<Rightarrow> None
             | Some k \<Rightarrow>
                 if z = CHR ''='' \<and> rest = [] then Some [char_of (i * 4 + j div 16), char_of (j mod 16 * 16 + k div 4)]
                 else (case base64_value z of
                     None \<Rightarrow> None
                   | Some l \<Rightarrow> map_option (\<lambda>s. char_of (i * 4 + j div 16) # char_of (j mod 16 * 16 + k div 4) #
                       char_of (k mod 4 * 64 + l) # s) (base64_decode rest))))
      | _ \<Rightarrow> None)"
| "base64_decode _ = None"

section \<open>Paths\<close>

text \<open>\<open>path.Clean\<close>, for a path that need not be rooted; the segments so far are in reverse.\<close>

fun rel_segments :: "string list \<Rightarrow> string list \<Rightarrow> string list" where
  "rel_segments out [] = rev out"
| "rel_segments out (w # ws) =
     (if w = [] \<or> w = ''.'' then rel_segments out ws
      else if w = ''..'' then rel_segments (if out = [] \<or> hd out = ''..'' then w # out else tl out) ws
      else rel_segments (w # out) ws)"

definition path_Clean_any :: "string \<Rightarrow> string" where
  "path_Clean_any p =
     (if strings_HasPrefix p ''/'' then path_Clean p
      else let segs = rel_segments [] (strings_Split p CHR ''/'') in
        if segs = [] then ''.'' else strings_Join segs CHR ''/'')"

text \<open>\<open>path.Join\<close> skips empty elements.\<close>

definition path_Join :: "string list \<Rightarrow> string" where
  "path_Join elems =
     (let es = filter (\<lambda>e. e \<noteq> []) elems in if es = [] then [] else path_Clean_any (strings_Join es CHR ''/''))"

text \<open>\<open>path.Dir\<close> cleans what stands before the last slash, the slash included.\<close>

definition path_Dir :: "string \<Rightarrow> string" where
  "path_Dir p = path_Clean_any (rev (dropWhile (\<lambda>c. c \<noteq> CHR ''/'') (rev p)))"

section \<open>Writing a file\<close>

definition write_command :: "string \<Rightarrow> string \<Rightarrow> string \<Rightarrow> string" where
  "write_command remotePath content mode =
     (let tmpPath = remotePath @ ''.pveforge-tmp'' in
      ''set -e'' @ [CHR 0x0A] @
      ''mkdir -p '' @ ShellQuote (path_Dir remotePath) @ [CHR 0x0A] @
      ''printf '' @ [CHR 0x27] @ ''%s'' @ [CHR 0x27] @ '' '' @ ShellQuote (base64_encode content) @ '' | base64 -d > '' @ ShellQuote tmpPath @ [CHR 0x0A] @
      ''chmod '' @ ShellQuote mode @ '' '' @ ShellQuote tmpPath @ [CHR 0x0A] @
      ''mv '' @ ShellQuote tmpPath @ '' '' @ ShellQuote remotePath @ [CHR 0x0A])"

definition write_answer :: "string \<Rightarrow> gerror + ssh_result \<Rightarrow> gerror + unit" where
  "write_answer remotePath r =
     (case r of
        Inl e \<Rightarrow> Inl (Errorf [Lit ''write file '', Lit remotePath, Lit '': '', Wrapped e])
      | Inr res \<Rightarrow>
          if sr_exit res \<noteq> 0 then
            Inl (Errorf [Lit ''write file '', Lit remotePath, Lit '': remote script exited '', Dec (sr_exit res), Lit '': '', Lit (sr_stderr res)])
          else Inr ())"

definition Ssh_WriteFile :: "env \<Rightarrow> string \<Rightarrow> string \<Rightarrow> string \<Rightarrow> ('r sess_scheme, gerror + unit) state" where
  "Ssh_WriteFile env remotePath content mode =
     (if remotePath = [] then ret (Inl (ErrorString ''write file: remote path is required''))
      else if mode = [] then ret (Inl (ErrorString ''write file: mode is required''))
      else do {
        r \<leftarrow> ssh_run env (write_command remotePath content mode);
        ret (write_answer remotePath r)
      })"

definition isSafeSnippetFilename :: "string \<Rightarrow> bool" where
  "isSafeSnippetFilename s \<longleftrightarrow> s \<noteq> [] \<and> s \<noteq> ''.'' \<and> s \<noteq> ''..'' \<and> list_all (\<lambda>c. is_alnum c \<or> c \<in> set ''-_.'') s"

definition snippet_path :: "string \<Rightarrow> string \<Rightarrow> string" where
  "snippet_path basePath filename = path_Join [basePath, ''snippets'', filename]"

definition UploadSnippet :: "env \<Rightarrow> target \<Rightarrow> string \<Rightarrow> string \<Rightarrow> string \<Rightarrow> ('r sess_scheme, gerror + unit) state" where
  "UploadSnippet env t storageID filename content =
     (if \<not> isSafeSnippetFilename filename then
        ret (Inl (Errorf [Lit ''upload snippet: filename '', Quo filename, Lit '' is empty or contains unsafe characters'']))
      else do {
        b \<leftarrow> GetStorageConfigPath env storageID;
        case b of
          Inl e \<Rightarrow> ret (Inl (Errorf [Lit ''upload snippet '', Quo filename, Lit '': '', Wrapped e]))
        | Inr basePath \<Rightarrow> do {
            r \<leftarrow> withSSH env t (Ssh_WriteFile env (snippet_path basePath filename) content ''0755'');
            ret (case r of
                Inl e \<Rightarrow> Inl (Errorf [Lit ''upload snippet '', Quo filename, Lit '': '', Wrapped e])
              | Inr u \<Rightarrow> Inr ())
          }
      })"

section \<open>The round trip of the content\<close>

lemma base64_alphabet_facts: "distinct base64_alphabet" "length base64_alphabet = 64" "CHR ''='' \<notin> set base64_alphabet"
  by code_simp+

lemma base64_value_digit: "n < 64 \<Longrightarrow> base64_value (base64_digit n) = Some n"
proof -
  assume "n < 64"
  then have n: "n < length base64_alphabet" by (simp add: base64_alphabet_facts)
  then have "base64_alphabet ! n \<in> set base64_alphabet" by simp
  moreover have "takeWhile (\<lambda>d. d \<noteq> base64_alphabet ! n) base64_alphabet = take n base64_alphabet"
    using base64_alphabet_facts(1) n by (intro takeWhile_eq_take_P_nth) (auto simp: nth_eq_iff_index_eq)
  ultimately show ?thesis using n by (simp add: base64_value_def base64_digit_def)
qed

lemma base64_digit_no_pad: "n < 64 \<Longrightarrow> base64_digit n \<noteq> CHR ''=''"
  using base64_alphabet_facts(2,3) nth_mem [of n base64_alphabet] unfolding base64_digit_def by metis

lemma of_char_less: "(of_char c :: nat) < 256"
  by (metis of_char_mod_256 mod_less_divisor zero_less_numeral)

lemma divmod_at: "m = q * n + r \<Longrightarrow> r < n \<Longrightarrow> m div n = q \<and> m mod n = (r :: nat)"
  by simp

lemma split_at: "\<exists>q r. m = q * n + r \<and> r < n" if "0 < n" for m :: nat
  by (intro exI [of _ "m div n"] exI [of _ "m mod n"]) (use that in simp)

lemma base64_roundtrip: "base64_decode (base64_encode w) = Some w"
proof (induction w rule: base64_encode.induct)
  case (2 a)
  obtain a1 a2 where a: "(of_char a :: nat) = a1 * 4 + a2" "a2 < 4" using split_at [of 4 "of_char a"] by auto
  then have "a1 < 64" using of_char_less [of a] by linarith
  moreover have "char_of (a1 * 4 + a2) = a" unfolding a(1) [symmetric] by simp
  ultimately show ?case using a divmod_at [OF a] by (simp add: Let_def base64_value_digit)
next
  case (3 a b)
  obtain a1 a2 where a: "(of_char a :: nat) = a1 * 4 + a2" "a2 < 4" using split_at [of 4 "of_char a"] by auto
  obtain b1 b2 where b: "(of_char b :: nat) = b1 * 16 + b2" "b2 < 16" using split_at [of 16 "of_char b"] by auto
  have less: "a1 < 64" "b1 < 16"
    using of_char_less [of a] of_char_less [of b] a b by linarith+
  let ?n = "(of_char a :: nat) * 256 + of_char b"
  have n: "?n div 1024 = a1" "?n div 16 = a1 * 64 + (a2 * 16 + b1)" "?n mod 16 = b2"
    using divmod_at [of ?n a1 1024 "a2 * 256 + (b1 * 16 + b2)"] divmod_at [of ?n "a1 * 64 + (a2 * 16 + b1)" 16 b2] a b less by auto
  have m: "(a1 * 64 + (a2 * 16 + b1)) mod 64 = a2 * 16 + b1"
    using divmod_at [of _ a1 64 "a2 * 16 + b1"] a(2) less by auto
  have bytes: "char_of (a1 * 4 + (a2 * 16 + b1) div 16) = a" "char_of ((a2 * 16 + b1) mod 16 * 16 + b2 * 4 div 4) = b"
  proof -
    have "(a2 * 16 + b1) div 16 = a2" "(a2 * 16 + b1) mod 16 = b1" using divmod_at [of _ a2 16 b1] less by auto
    then show "char_of (a1 * 4 + (a2 * 16 + b1) div 16) = a" "char_of ((a2 * 16 + b1) mod 16 * 16 + b2 * 4 div 4) = b"
      using a b by (simp_all add: a(1) [symmetric] b(1) [symmetric])
  qed
  have "a2 * 16 + b1 < 64" "b2 * 4 < 64" using a(2) b(2) less by linarith+
  then show ?case
    unfolding base64_encode.simps Let_def n m using less bytes by (simp add: base64_value_digit base64_digit_no_pad)
next
  case (4 a b c cs)
  obtain a1 a2 where a: "(of_char a :: nat) = a1 * 4 + a2" "a2 < 4" using split_at [of 4 "of_char a"] by auto
  obtain b1 b2 where b: "(of_char b :: nat) = b1 * 16 + b2" "b2 < 16" using split_at [of 16 "of_char b"] by auto
  obtain c1 c2 where c: "(of_char c :: nat) = c1 * 64 + c2" "c2 < 64" using split_at [of 64 "of_char c"] by auto
  have less: "a1 < 64" "b1 < 16" "c1 < 4"
    using of_char_less [of a] of_char_less [of b] of_char_less [of c] a b c by linarith+
  let ?n = "((of_char a :: nat) * 256 + of_char b) * 256 + of_char c"
  have n: "?n div 262144 = a1" "?n div 4096 = a1 * 64 + (a2 * 16 + b1)"
    "?n div 64 = (a1 * 64 + (a2 * 16 + b1)) * 64 + (b2 * 4 + c1)" "?n mod 64 = c2"
    using divmod_at [of ?n a1 262144 "a2 * 65536 + (b1 * 4096 + (b2 * 256 + (c1 * 64 + c2)))"]
      divmod_at [of ?n "a1 * 64 + (a2 * 16 + b1)" 4096 "b2 * 256 + (c1 * 64 + c2)"]
      divmod_at [of ?n "(a1 * 64 + (a2 * 16 + b1)) * 64 + (b2 * 4 + c1)" 64 c2] a b c less by auto
  have m: "(a1 * 64 + (a2 * 16 + b1)) mod 64 = a2 * 16 + b1"
    "((a1 * 64 + (a2 * 16 + b1)) * 64 + (b2 * 4 + c1)) mod 64 = b2 * 4 + c1"
    using divmod_at [of _ a1 64 "a2 * 16 + b1"] divmod_at [of _ "a1 * 64 + (a2 * 16 + b1)" 64 "b2 * 4 + c1"] a(2) b(2) less by auto
  have bytes: "char_of (a1 * 4 + (a2 * 16 + b1) div 16) = a" "char_of ((a2 * 16 + b1) mod 16 * 16 + (b2 * 4 + c1) div 4) = b"
    "char_of ((b2 * 4 + c1) mod 4 * 64 + c2) = c"
  proof -
    have "(a2 * 16 + b1) div 16 = a2" "(a2 * 16 + b1) mod 16 = b1" "(b2 * 4 + c1) div 4 = b2" "(b2 * 4 + c1) mod 4 = c1"
      using divmod_at [of _ a2 16 b1] divmod_at [of _ b2 4 c1] less by auto
    then show "char_of (a1 * 4 + (a2 * 16 + b1) div 16) = a" "char_of ((a2 * 16 + b1) mod 16 * 16 + (b2 * 4 + c1) div 4) = b"
      "char_of ((b2 * 4 + c1) mod 4 * 64 + c2) = c"
      using a b c by (simp_all add: a(1) [symmetric] b(1) [symmetric] c(1) [symmetric])
  qed
  have "a2 * 16 + b1 < 64" "b2 * 4 + c1 < 64" using a(2) b(2) less by linarith+
  then show ?case
    unfolding base64_encode.simps Let_def n m
    using less c(2) bytes 4 [OF refl] by (simp add: base64_value_digit base64_digit_no_pad)
qed simp

section \<open>Where a snippet is written\<close>

lemma Split_append: "strings_Split (a @ c # b) c = strings_Split a c @ strings_Split b c"
proof (induction a)
  case (Cons x a)
  then show ?case by (cases "strings_Split a c") auto
qed simp

lemma clean_segments_append: "clean_segments out (ws @ vs) = clean_segments (rev (clean_segments out ws)) vs"
  by (induction out ws rule: clean_segments.induct) auto

definition plain_segment :: "string \<Rightarrow> bool" where
  "plain_segment w \<longleftrightarrow> w \<noteq> [] \<and> w \<noteq> ''.'' \<and> w \<noteq> ''..''"

lemma clean_segments_keeps: "list_all plain_segment vs \<Longrightarrow> clean_segments out vs = rev out @ vs"
  by (induction vs arbitrary: out) (auto simp: plain_segment_def)

lemma clean_segments_clean: "list_all plain_segment (clean_segments [] ws)"
  using clean_segments_plain [of _ "[]" ws] by (auto simp: list_all_iff plain_segment_def)

lemma clean_segments_no_slash: "w \<in> set (clean_segments [] (strings_Split p CHR ''/'')) \<Longrightarrow> CHR ''/'' \<notin> set w"
  using clean_segments_plain [of w "[]"] strings_Split_words by fastforce

lemma Join_snoc: "ws \<noteq> [] \<Longrightarrow> strings_Join (ws @ [w]) c = strings_Join ws c @ c # w"
  by (induction ws c rule: strings_Join.induct) auto

lemma dropWhile_last_segment: "c \<notin> set w \<Longrightarrow> rev (dropWhile (\<lambda>x. x \<noteq> c) (rev (p @ c # w))) = p @ [c]"
  by (subst rev_append) (auto simp: dropWhile_append)

text \<open>The segments of a rooted path and the path they make.\<close>

definition rooted :: "string list \<Rightarrow> string" where
  "rooted ws = CHR ''/'' # strings_Join ws CHR ''/''"

lemma path_Clean_rooted: "path_Clean_any (CHR ''/'' # p) = rooted (clean_segments [] (strings_Split p CHR ''/''))"
  by (simp add: path_Clean_any_def strings_HasPrefix_def path_Clean_def rooted_def)

lemma path_Clean_snoc:
  assumes "list_all plain_segment ws" and "\<And>w. w \<in> set ws \<Longrightarrow> CHR ''/'' \<notin> set w" and "ws \<noteq> []"
  shows "path_Clean_any (rooted ws @ ''/'') = rooted ws"
proof -
  have "strings_Split (strings_Join ws CHR ''/'' @ CHR ''/'' # []) CHR ''/'' = ws @ [[]]"
    unfolding Split_append using assms by (simp add: strings_Split_Join)
  then show ?thesis
    using clean_segments_append [of "[]" ws "[[]]"] clean_segments_keeps [OF assms(1), of "[]"]
    by (simp add: rooted_def path_Clean_rooted [unfolded rooted_def])
qed

lemma safe_filename_segment: "isSafeSnippetFilename f \<Longrightarrow> plain_segment f \<and> CHR ''/'' \<notin> set f"
  by (auto simp: isSafeSnippetFilename_def plain_segment_def list_all_iff is_alnum_def is_digit_def)

text \<open>
  A file whose name is accepted is written into the snippets directory of a rooted base path and nowhere else:
  its path is the cleaned base, \<open>snippets\<close> and the name as three parts, and its directory is the snippets directory.
\<close>

theorem snippet_path_stays:
  assumes "isSafeSnippetFilename f" and "base = CHR ''/'' # rest"
  shows "strings_Split (snippet_path base f) CHR ''/'' =
      [] # clean_segments [] (strings_Split rest CHR ''/'') @ [''snippets'', f] \<and>
    path_Dir (snippet_path base f) = path_Join [base, ''snippets'']"
proof -
  let ?segs = "clean_segments [] (strings_Split rest CHR ''/'')"
  note f = safe_filename_segment [OF assms(1)]
  have sn: "plain_segment ''snippets''" "CHR ''/'' \<notin> set ''snippets''" by (simp_all add: plain_segment_def)
  have cleaned: "path_Clean_any (CHR ''/'' # rest @ CHR ''/'' # tail) = rooted (?segs @ ws)"
    if "strings_Split tail CHR ''/'' = ws" "list_all plain_segment ws" for tail ws
    unfolding path_Clean_rooted Split_append that(1) clean_segments_append by (simp add: clean_segments_keeps [OF that(2)])
  have dir: "path_Join [base, ''snippets''] = rooted (?segs @ [''snippets''])"
    using cleaned [of "''snippets''" "[''snippets'']"] sn by (simp add: path_Join_def assms(2))
  have full: "snippet_path base f = rooted (?segs @ [''snippets'', f])"
    using cleaned [of "''snippets/'' @ f" "[''snippets'', f]"] sn f Split_append [of "''snippets''" "CHR ''/''" f]
    by (simp add: snippet_path_def path_Join_def assms(2) strings_Split_word) (simp add: plain_segment_def)
  have words: "CHR ''/'' \<notin> set w" if "w \<in> set (?segs @ [''snippets'', f])" for w
    using that clean_segments_no_slash f by auto
  have "strings_Split (strings_Join (?segs @ [''snippets'', f]) CHR ''/'') CHR ''/'' = ?segs @ [''snippets'', f]"
    by (rule strings_Split_Join) (use words in auto)
  then have "strings_Split (snippet_path base f) CHR ''/'' = [] # ?segs @ [''snippets'', f]"
    by (simp add: full rooted_def)
  moreover have "snippet_path base f = rooted (?segs @ [''snippets'']) @ CHR ''/'' # f"
    using Join_snoc [of "?segs @ [''snippets'']" f] by (simp add: full rooted_def)
  then have "path_Dir (snippet_path base f) = path_Clean_any (rooted (?segs @ [''snippets'']) @ ''/'')"
    unfolding path_Dir_def by (simp only: dropWhile_last_segment [OF conjunct2 [OF f]])
  moreover have "path_Clean_any (rooted (?segs @ [''snippets'']) @ ''/'') = rooted (?segs @ [''snippets''])"
    by (rule path_Clean_snoc) (use clean_segments_clean sn words in auto)
  ultimately show ?thesis by (simp add: dir)
qed

theorem snippet_path_stays_witness:
  "strings_Split (snippet_path ''/var/lib/vz'' ''a.sh'') CHR ''/'' = [[], ''var'', ''lib'', ''vz'', ''snippets'', ''a.sh''] \<and>
   path_Dir (snippet_path ''/var/lib/vz'' ''a.sh'') = path_Join [''/var/lib/vz'', ''snippets'']"
proof -
  have "isSafeSnippetFilename ''a.sh''" by code_simp
  from snippet_path_stays [OF this refl, of "''var/lib/vz''"] show ?thesis by simp
qed

end
