(* ===== verification/BridgeIso.thy ===== *)
theory BridgeIso
  imports Snippet VmTag VmFields
begin

text \<open>
  Bridge port isolation that survives a reboot (\<open>internal/idempotent/bridgeisolation.go\<close>): a hookscript is
  uploaded, the VM's \<open>hookscript\<close> field is pointed at it, and the taps of a running VM are isolated at once.
  The comparable value of \<open>Read\<close> is the state itself (the code hands on its JSON text).
\<close>

record iso_request =
  bq_vmid :: int
  bq_indices :: "int list"
  bq_storage :: string

record bridgeiso = sess +
  is_applied :: "string list"
  is_digest :: string
  is_hookscript :: string
  is_running :: bool

record tap_observation =
  to_index :: int
  to_exists :: bool
  to_isolated :: bool

record isolation_state =
  ib_hookscript :: string
  ib_running :: bool
  ib_taps :: "tap_observation list"

definition iso_error :: "iso_request \<Rightarrow> frag list \<Rightarrow> gerror" where
  "iso_error q what = Errorf ([Lit ''bridge isolation ensure: vm '', Dec (bq_vmid q), Lit '': ''] @ what)"

section \<open>Names and content\<close>

definition isSafeStorageID :: "string \<Rightarrow> bool" where
  "isSafeStorageID s \<longleftrightarrow> s \<noteq> [] \<and> list_all (\<lambda>c. is_alnum c \<or> c \<in> set ''-_.'') s"

definition netIndicesSuffix :: "int list \<Rightarrow> string" where
  "netIndicesSuffix indices = ''net'' @ strings_Join (map strconv_Itoa (sort indices)) CHR ''-''"

definition snippetFilename :: "iso_request \<Rightarrow> string" where
  "snippetFilename q =
     ''pveforge-bridge-isolate-vm'' @ strconv_Itoa (bq_vmid q) @ ''-'' @ netIndicesSuffix (bq_indices q) @ ''.sh''"

definition wantedHookscript :: "iso_request \<Rightarrow> string" where
  "wantedHookscript q = bq_storage q @ '':snippets/'' @ snippetFilename q"

definition script_line :: "string \<Rightarrow> string" where
  "script_line l = l @ [CHR 0x0A]"

definition scriptContent :: "iso_request \<Rightarrow> string" where
  "scriptContent q =
     script_line ''#!/bin/sh'' @
     script_line (''# Generated by pveforge '' @ [CHR 0xE2, CHR 0x80, CHR 0x94] @ '' do not edit by hand; Apply overwrites this file'') @
     script_line ''# every time bridge-isolation state is reconciled for this VM.'' @
     script_line ''#'' @
     script_line ''# Always exits 0: a non-zero exit on any phase other than post-start would'' @
     script_line ''# abort that PVE lifecycle action (e.g. blocking the VM from starting or'' @
     script_line ''# stopping), which this best-effort networking tweak must never do.'' @
     script_line (''if [ '' @ [CHR 0x22] @ ''$2'' @ [CHR 0x22] @ '' = '' @ [CHR 0x22] @ ''post-start'' @ [CHR 0x22] @ '' ]; then'') @
     concat (map (\<lambda>idx. script_line (''  bridge link set dev '' @ TapDeviceName (bq_vmid q) idx @ '' isolated on 2>/dev/null || true''))
       (bq_indices q)) @
     script_line ''fi'' @
     script_line ''exit 0''"

section \<open>The operation\<close>

fun validate_indices :: "iso_request \<Rightarrow> int list \<Rightarrow> int list \<Rightarrow> gerror option" where
  "validate_indices q seen [] = None"
| "validate_indices q seen (idx # rest) =
     (if idx < 0 then Some (iso_error q [Lit ''net index '', Dec idx, Lit '' is negative''])
      else if idx \<in> set seen then Some (iso_error q [Lit ''net index '', Dec idx, Lit '' listed more than once''])
      else validate_indices q (idx # seen) rest)"

definition BridgeIsolation_Validate :: "iso_request \<Rightarrow> gerror option" where
  "BridgeIsolation_Validate q =
     (if bq_vmid q \<le> 0 then Some (Errorf [Lit ''bridge isolation ensure: vmid must be positive, got '', Dec (bq_vmid q)])
      else if bq_indices q = [] then Some (iso_error q [Lit ''at least one net index is required''])
      else case validate_indices q [] (bq_indices q) of
          Some e \<Rightarrow> Some e
        | None \<Rightarrow>
            if \<not> isSafeStorageID (bq_storage q) then
              Some (iso_error q [Lit ''storage id '', Quo (bq_storage q), Lit '' is empty or contains unsafe characters''])
            else None)"

fun read_taps :: "env \<Rightarrow> target \<Rightarrow> int \<Rightarrow> int list \<Rightarrow> ('r sess_scheme, gerror + tap_observation list) state" where
  "read_taps env t vmid [] = ret (Inr [])"
| "read_taps env t vmid (idx # rest) = do {
     r \<leftarrow> TapLinkState env t (TapDeviceName vmid idx);
     case r of
       Inl e \<Rightarrow> ret (Inl (Errorf [Lit ''bridge isolation ensure: read tap state for vm '', Dec vmid, Lit '' net'', Dec idx, Lit '': '', Wrapped e]))
     | Inr ts \<Rightarrow> do {
         r2 \<leftarrow> read_taps env t vmid rest;
         ret (case r2 of
             Inl e \<Rightarrow> Inl e
           | Inr obs \<Rightarrow> Inr (\<lparr>to_index = idx, to_exists = tp_exists ts, to_isolated = tp_isolated ts\<rparr> # obs))
       }
   }"

text \<open>The state is comparable because its taps are sorted (the code's sort need not be stable; valid indices are distinct).\<close>

definition isolation_text :: "isolation_state \<Rightarrow> isolation_state" where
  "isolation_text st = st\<lparr>ib_taps := sort_key to_index (ib_taps st)\<rparr>"

definition BridgeIsolation_Read :: "env \<Rightarrow> target \<Rightarrow> iso_request \<Rightarrow> (bridgeiso, gerror + isolation_state) state" where
  "BridgeIsolation_Read env t q = do {
     r \<leftarrow> GetVM env t (tg_node t) (bq_vmid q);
     case r of
       Inl e \<Rightarrow> ret (Inl (Errorf [Lit ''bridge isolation ensure: read vm '', Dec (bq_vmid q), Lit '': '', Wrapped e]))
     | Inr None \<Rightarrow> ret (Inl (ErrorString ''nil pointer dereference''))
     | Inr (Some v) \<Rightarrow>
         (case requireVMConfig v (bq_vmid q) ''bridge isolation ensure'' of
            Inl e \<Rightarrow> ret (Inl e)
          | Inr cfg \<Rightarrow> do {
              let running = (vs_status (vm_status v) = ''running'');
              _ \<leftarrow> modify (\<lambda>s. s\<lparr>is_hookscript := vc_hookscript cfg, is_digest := vc_digest cfg, is_running := running\<rparr>);
              r2 \<leftarrow> (if running then read_taps env t (bq_vmid q) (bq_indices q) else ret (Inr []));
              ret (case r2 of
                  Inl e \<Rightarrow> Inl e
                | Inr obs \<Rightarrow> Inr (isolation_text \<lparr>ib_hookscript = vc_hookscript cfg, ib_running = running, ib_taps = obs\<rparr>))
            })
   }"

definition BridgeIsolation_Satisfied :: "iso_request \<Rightarrow> isolation_state \<Rightarrow> bool" where
  "BridgeIsolation_Satisfied q st \<longleftrightarrow>
     ib_hookscript st = wantedHookscript q \<and>
     (\<not> ib_running st \<or>
      (let taps = map_of (rev (map (\<lambda>ob. (to_index ob, ob)) (ib_taps st))) in
       list_all (\<lambda>idx. case taps idx of None \<Rightarrow> False | Some ob \<Rightarrow> to_exists ob \<and> to_isolated ob) (bq_indices q)))"

definition mark_iso :: "string \<Rightarrow> (bridgeiso, gerror option) state" where
  "mark_iso f = do { _ \<leftarrow> modify (is_applied_update (\<lambda>l. appendOnce l f)); ret None }"

definition isolate_tap :: "env \<Rightarrow> target \<Rightarrow> iso_request \<Rightarrow> int \<Rightarrow> (bridgeiso, gerror option) state" where
  "isolate_tap env t q idx = do {
     let tap = TapDeviceName (bq_vmid q) idx;
     r \<leftarrow> SetBridgePortIsolated env t tap True;
     case r of
       Inl e \<Rightarrow> ret (Some (iso_error q [Lit ''apply live isolation to '', Lit tap, Lit '': '', Wrapped e]))
     | Inr u \<Rightarrow> mark_iso tap
   }"

definition wire_hookscript :: "env \<Rightarrow> target \<Rightarrow> iso_request \<Rightarrow> (bridgeiso, gerror option) state" where
  "wire_hookscript env t q = do {
     s \<leftarrow> State_Monad.get;
     r \<leftarrow> SetVMConfigFieldCAS env t (bq_vmid q) ''hookscript'' (wantedHookscript q) (is_digest s);
     case r of
       None \<Rightarrow> mark_iso ''hookscript''
     | Some e \<Rightarrow>
         if IsDigestConflictError e then ret (Some (iso_error q [Wrapped (Sentinel ErrConflict), Lit '': '', Wrapped e]))
         else if IsRootOnlyWriteError e then do {
           fb \<leftarrow> SetVMConfigFieldOverSSH env t (bq_vmid q) ''hookscript'' (wantedHookscript q);
           case fb of
             Some fe \<Rightarrow> ret (Some (iso_error q
               [Lit ''set hookscript: rejected as root-only by rest, ssh fallback also failed: '', Wrapped fe]))
           | None \<Rightarrow> mark_iso ''hookscript''
         }
         else ret (Some (iso_error q [Lit ''set hookscript: '', Wrapped e]))
   }"

definition BridgeIsolation_Apply :: "env \<Rightarrow> target \<Rightarrow> iso_request \<Rightarrow> (bridgeiso, gerror option) state" where
  "BridgeIsolation_Apply env t q =
     (case BridgeIsolation_Validate q of
        Some e \<Rightarrow> ret (Some e)
      | None \<Rightarrow> do {
          up \<leftarrow> UploadSnippet env t (bq_storage q) (snippetFilename q) (scriptContent q);
          case up of
            Inl e \<Rightarrow> ret (Some (iso_error q [Lit ''upload snippet: '', Wrapped e]))
          | Inr u \<Rightarrow> do {
              _ \<leftarrow> mark_iso ''snippet'';
              s \<leftarrow> State_Monad.get;
              r \<leftarrow> (if is_hookscript s \<noteq> wantedHookscript q then wire_hookscript env t q else ret None);
              case r of
                Some e \<Rightarrow> ret (Some e)
              | None \<Rightarrow> if is_running s then until_error (isolate_tap env t q) (bq_indices q) else ret None
            }
        })"

definition BridgeIsolation_Wrote :: "bridgeiso \<Rightarrow> bool" where
  "BridgeIsolation_Wrote s \<longleftrightarrow> is_applied s \<noteq> []"

definition BridgeIsolation :: "env \<Rightarrow> target \<Rightarrow> iso_request \<Rightarrow> (bridgeiso, isolation_state) op" where
  "BridgeIsolation env t q =
     \<lparr>op_Read = BridgeIsolation_Read env t q, op_Satisfied = (\<lambda>_. BridgeIsolation_Satisfied q),
      op_Apply = BridgeIsolation_Apply env t q, op_PostApply = None, op_ReRead = None, op_PostNoop = None\<rparr>"

section \<open>The wanted value names the request\<close>

lemma nat_digits_not_Nil: "nat_digits n \<noteq> []"
  by (subst nat_digits.simps) simp

lemma digit_char_inj: "digit_char m = digit_char n \<Longrightarrow> m < 10 \<Longrightarrow> n < 10 \<Longrightarrow> m = n"
  by (drule arg_cong [where f = "of_char :: char \<Rightarrow> nat"]) (simp add: digit_char_def)

lemma nat_digits_inj: "nat_digits m = nat_digits n \<Longrightarrow> m = n"
proof (induction m arbitrary: n rule: nat_digits.induct)
  case (1 m)
  consider "m < 10" "n < 10" | "\<not> m < 10" "\<not> n < 10" | "(m < 10) \<noteq> (n < 10)" by blast
  then show ?case
  proof cases
    case 1
    with "1.prems" show ?thesis
      by (simp add: nat_digits.simps [of m] nat_digits.simps [of n] digit_char_inj)
  next
    case 2
    with "1.prems" have "nat_digits (m div 10) = nat_digits (n div 10)" "digit_char (m mod 10) = digit_char (n mod 10)"
      by (simp_all add: nat_digits.simps [of m] nat_digits.simps [of n])
    with 2 "1.IH" have "m div 10 = n div 10" "m mod 10 = n mod 10" by (auto dest: digit_char_inj)
    then show ?thesis by (metis div_mult_mod_eq)
  next
    case 3
    with "1.prems" nat_digits_not_Nil show ?thesis
      by (auto simp: nat_digits.simps [of m] nat_digits.simps [of n] append_eq_Cons_conv Cons_eq_append_conv split: if_splits)
  qed
qed

lemma Itoa_inj: "0 \<le> i \<Longrightarrow> 0 \<le> j \<Longrightarrow> strconv_Itoa i = strconv_Itoa j \<Longrightarrow> i = j"
  using nat_digits_inj [of "nat i" "nat j"] by (simp add: strconv_Itoa_def)

lemma Itoa_digits: "0 \<le> i \<Longrightarrow> list_all is_digit (strconv_Itoa i)"
  by (simp add: strconv_Itoa_def nat_digits_digits)

lemma Itoa_no_dash: "0 \<le> i \<Longrightarrow> CHR ''-'' \<notin> set (strconv_Itoa i)"
  using Itoa_digits [of i] by (auto simp: list_all_iff is_digit_def)

lemma validate_indices_None:
  "validate_indices q seen is = None \<longleftrightarrow> list_all (\<lambda>i. 0 \<le> i) is \<and> distinct is \<and> set is \<inter> set seen = {}"
  by (induction q seen "is" rule: validate_indices.induct) auto

lemma valid_iso:
  assumes "BridgeIsolation_Validate q = None"
  shows "0 < bq_vmid q" "bq_indices q \<noteq> []" "list_all (\<lambda>i. 0 \<le> i) (bq_indices q)" "distinct (bq_indices q)"
    "isSafeStorageID (bq_storage q)"
  using assms by (auto simp: BridgeIsolation_Validate_def validate_indices_None split: if_splits option.splits)

lemma join_inj:
  assumes "strings_Join (map strconv_Itoa xs) CHR ''-'' = strings_Join (map strconv_Itoa ys) CHR ''-''"
    and "xs \<noteq> []" "ys \<noteq> []" "\<forall>x \<in> set xs \<union> set ys. 0 \<le> x"
  shows "xs = ys"
proof -
  have "strings_Split (strings_Join (map strconv_Itoa zs) CHR ''-'') CHR ''-'' = map strconv_Itoa zs"
    if "zs \<in> {xs, ys}" for zs
    using that assms Itoa_no_dash by (intro strings_Split_Join) auto
  with assms(1) have "map strconv_Itoa xs = map strconv_Itoa ys" by (metis insertI1 insertI2)
  with assms(4) show ?thesis
    by (auto intro!: map_inj_on [of strconv_Itoa xs ys] inj_onI Itoa_inj)
qed

lemma sort_set_eq: "distinct xs \<Longrightarrow> distinct ys \<Longrightarrow> sort xs = sort ys \<longleftrightarrow> set xs = set ys"
  by (metis distinct_sort set_sort sorted_distinct_set_unique sorted_sort)

text \<open>
  C28: for two valid requests, the hookscript values they want are equal exactly when they name the same storage,
  the same VM and the same set of interfaces, so a changed set is never mistaken for the one that is wired.
\<close>

theorem wantedHookscript_determines:
  assumes "BridgeIsolation_Validate q = None" and "BridgeIsolation_Validate q' = None"
  shows "wantedHookscript q = wantedHookscript q' \<longleftrightarrow>
    bq_storage q = bq_storage q' \<and> bq_vmid q = bq_vmid q' \<and> set (bq_indices q) = set (bq_indices q')"
proof
  assume eq: "wantedHookscript q = wantedHookscript q'"
  note v = valid_iso [OF assms(1)] and v' = valid_iso [OF assms(2)]
  have colon: "CHR '':'' \<notin> set s" if "isSafeStorageID s" for s
    using that by (auto simp: isSafeStorageID_def list_all_iff is_alnum_def is_digit_def)
  from arg_cong [OF eq, of "\<lambda>s. strings_Split s CHR '':''"] have "bq_storage q = bq_storage q'"
    using colon [OF v(5)] colon [OF v'(5)] by (simp add: wantedHookscript_def strings_Split_append)
  moreover from this eq have rest: "strconv_Itoa (bq_vmid q) @ ''-'' @ netIndicesSuffix (bq_indices q) @ ''.sh'' =
      strconv_Itoa (bq_vmid q') @ ''-'' @ netIndicesSuffix (bq_indices q') @ ''.sh''"
    by (simp add: wantedHookscript_def snippetFilename_def)
  from arg_cong [OF rest, of "\<lambda>s. hd (strings_Split s CHR ''-'')"] v(1) v'(1) have "strconv_Itoa (bq_vmid q) = strconv_Itoa (bq_vmid q')"
    by (simp add: Itoa_no_dash strings_Split_append)
  with rest v(1) v'(1) have "bq_vmid q = bq_vmid q'" "netIndicesSuffix (bq_indices q) = netIndicesSuffix (bq_indices q')"
    by (simp_all add: Itoa_inj)
  moreover from this(2) have "sort (bq_indices q) = sort (bq_indices q')"
    using v(2,3) v'(2,3) by (intro join_inj) (auto simp: netIndicesSuffix_def list_all_iff dest: arg_cong [of "sort _" _ set])
  ultimately show "bq_storage q = bq_storage q' \<and> bq_vmid q = bq_vmid q' \<and> set (bq_indices q) = set (bq_indices q')"
    using v(4) v'(4) by (simp add: sort_set_eq)
next
  assume "bq_storage q = bq_storage q' \<and> bq_vmid q = bq_vmid q' \<and> set (bq_indices q) = set (bq_indices q')"
  moreover from this have "sort (bq_indices q) = sort (bq_indices q')"
    using valid_iso(4) [OF assms(1)] valid_iso(4) [OF assms(2)] by (simp add: sort_set_eq)
  ultimately show "wantedHookscript q = wantedHookscript q'"
    by (simp add: wantedHookscript_def snippetFilename_def netIndicesSuffix_def)
qed

theorem wantedHookscript_determines_witness:
  "wantedHookscript \<lparr>bq_vmid = 7, bq_indices = [1, 0], bq_storage = ''local''\<rparr> =
     wantedHookscript \<lparr>bq_vmid = 7, bq_indices = [0, 1], bq_storage = ''local''\<rparr> \<and>
   wantedHookscript \<lparr>bq_vmid = 7, bq_indices = [1, 0], bq_storage = ''local''\<rparr> \<noteq>
     wantedHookscript \<lparr>bq_vmid = 7, bq_indices = [10], bq_storage = ''local''\<rparr>"
proof -
  have v: "BridgeIsolation_Validate \<lparr>bq_vmid = 7, bq_indices = [1, 0], bq_storage = ''local''\<rparr> = None"
    "BridgeIsolation_Validate \<lparr>bq_vmid = 7, bq_indices = [0, 1], bq_storage = ''local''\<rparr> = None"
    "BridgeIsolation_Validate \<lparr>bq_vmid = 7, bq_indices = [10], bq_storage = ''local''\<rparr> = None"
    by code_simp+
  show ?thesis
    using wantedHookscript_determines [OF v(1,2)] wantedHookscript_determines [OF v(1,3)] by auto
qed

section \<open>What the steps do on the wire\<close>

abbreviation upload_command :: "iso_request \<Rightarrow> string \<Rightarrow> string" where
  "upload_command q base \<equiv> write_command (snippet_path base (snippetFilename q)) (scriptContent q) ''0755''"

abbreviation hook_command :: "iso_request \<Rightarrow> string" where
  "hook_command q \<equiv> set_command (bq_vmid q) ''hookscript'' (wantedHookscript q)"

abbreviation tap_on :: "iso_request \<Rightarrow> int \<Rightarrow> string" where
  "tap_on q i \<equiv> isolate_command (TapDeviceName (bq_vmid q) i) True"

abbreviation hook_put :: "string \<Rightarrow> iso_request \<Rightarrow> string \<Rightarrow> http_reply \<Rightarrow> event" where
  "hook_put node q d a \<equiv>
     EHttp PUT (qemu_path node (bq_vmid q) ''/config'') (cas_form ''hookscript'' (wantedHookscript q) d) a"

lemma ssh_ran_ok_iff: "ssh_ran_ok cmd e \<longleftrightarrow> (\<exists>r. e = ESsh cmd (Inr r) \<and> sr_exit r = 0)"
  by (cases "(cmd, e)" rule: ssh_ran_ok.cases) auto

lemma traces_withSSH_command:
  assumes "traces fn (\<lambda>r es. list_all (only_ssh cmd) es \<and> (isl r \<longleftrightarrow> \<not> list_ex (ssh_ran_ok cmd) es))"
  shows "traces (withSSH env t fn) (\<lambda>r es. list_all (only_ssh cmd) es \<and> (isl r \<longleftrightarrow> \<not> list_ex (ssh_ran_ok cmd) es))"
proof -
  have opened: "traces (get_ssh_open :: ('a sess_scheme, bool) state) (\<lambda>b es. es = [])"
    by (simp add: traces_def get_ssh_open_def)
  have dialled: "traces (if b then ret None else dialSSH env t)
      (\<lambda>r es. list_all (only_ssh cmd) es \<and> \<not> list_ex (ssh_ran_ok cmd) es)" for b
    by (auto intro!: traces_return traces_mono [OF traces_dialSSH])
  have tail: "traces (do { healthy \<leftarrow> ssh_probe env; _ \<leftarrow> (if healthy then ret () else set_ssh_open False); ret (Inl e) })
      (\<lambda>r es. isl r \<and> list_all (only_ssh cmd) es \<and> \<not> list_ex (ssh_ran_ok cmd) es)" for e :: gerror
    by (auto simp: traces_def perform_def ssh_probe_def set_ssh_open_def)
  show ?thesis
    unfolding withSSH_def
  proof (rule traces_bind [OF opened], rule traces_bind [OF dialled], rule traces_case_option, goal_cases)
    case (1 b es r fs)
    show ?case
    proof (rule traces_bind [OF assms], rule traces_case_sum, goal_cases)
      case 1
      with \<open>es = []\<close> \<open>list_all _ fs \<and> _\<close> show ?case by (auto intro!: traces_mono [OF tail])
    next
      case 2
      with \<open>es = []\<close> \<open>list_all _ fs \<and> _\<close> show ?case by (auto intro!: traces_return)
    qed
  qed (auto intro!: traces_return)
qed

lemma write_answer_ok: "isl (write_answer p r) \<longleftrightarrow> \<not> ssh_ran_ok cmd (ESsh cmd r)"
  by (cases r) (auto simp: write_answer_def)

lemma isolate_answer_ok: "isl (isolate_answer tap r) \<longleftrightarrow> \<not> ssh_ran_ok cmd (ESsh cmd r)"
  by (cases r) (auto simp: isolate_answer_def Let_def)

lemma traces_ssh_run: "(\<And>a. T a [ESsh cmd a]) \<Longrightarrow> traces (ssh_run env cmd) T"
  unfolding ssh_run_def by (rule traces_perform)

lemma traces_SetBridgePortIsolated:
  "traces (SetBridgePortIsolated env t tap b)
     (\<lambda>r es. list_all (only_ssh (isolate_command tap b)) es \<and> (isl r \<longleftrightarrow> \<not> list_ex (ssh_ran_ok (isolate_command tap b)) es))"
  unfolding SetBridgePortIsolated_def Ssh_SetBridgePortIsolated_def
  by (intro traces_withSSH_command traces_if traces_return
      traces_bind [OF traces_ssh_run [where T = "\<lambda>a es. es = [ESsh (isolate_command tap b) a]"]])
    (auto simp: isolate_answer_ok [where cmd = "isolate_command tap b"])

lemma traces_WriteFile:
  "mode \<noteq> [] \<Longrightarrow> traces (Ssh_WriteFile env p content mode)
     (\<lambda>r es. list_all (only_ssh (write_command p content mode)) es \<and>
        (isl r \<longleftrightarrow> \<not> list_ex (ssh_ran_ok (write_command p content mode)) es))"
  unfolding Ssh_WriteFile_def
  by (intro traces_if traces_return
      traces_bind [OF traces_ssh_run [where T = "\<lambda>a es. es = [ESsh (write_command p content mode) a]"]])
    (auto simp: write_answer_ok [where cmd = "write_command p content mode"])

text \<open>The upload: the read of the storage's path, and the one command that writes the file there.\<close>

definition upload_log :: "iso_request \<Rightarrow> bool \<Rightarrow> event list \<Rightarrow> bool" where
  "upload_log q ok es \<longleftrightarrow>
     \<not> ok \<and> (es = [] \<or> (\<exists>b. es = [EStoragePath (sconfig_path (bq_storage q)) b])) \<or>
     (\<exists>base fs. es = EStoragePath (sconfig_path (bq_storage q)) (Inr base) # fs \<and>
        list_all (only_ssh (upload_command q base)) fs \<and> (ok \<longleftrightarrow> list_ex (ssh_ran_ok (upload_command q base)) fs))"

lemma traces_GetStorageConfigPath:
  "traces (GetStorageConfigPath env storage)
     (\<lambda>r es. es = [] \<and> isl r \<or> (\<exists>a. es = [EStoragePath (sconfig_path storage) a] \<and> (\<forall>p. r = Inr p \<longrightarrow> a = Inr p)))"
  unfolding GetStorageConfigPath_def pc_spath_def
  by (intro traces_if traces_return traces_bind [OF traces_perform [where T = "\<lambda>x es. es = [EStoragePath (sconfig_path storage) x]"]])
    (auto split: sum.splits)

lemma traces_UploadSnippet:
  "traces (UploadSnippet env t (bq_storage q) (snippetFilename q) (scriptContent q)) (\<lambda>r es. upload_log q (\<not> isl r) es)"
  unfolding UploadSnippet_def
proof (rule traces_if, goal_cases)
  case 1
  then show ?case by (auto intro!: traces_return simp: upload_log_def)
next
  case 2
  show ?case
  proof (rule traces_bind [OF traces_GetStorageConfigPath], rule traces_case_sum, goal_cases)
    case (1 r es e)
    then show ?case by (auto intro!: traces_return simp: upload_log_def)
  next
    case (2 r es base)
    then have "es = [EStoragePath (sconfig_path (bq_storage q)) (Inr base)]" by auto
    then show ?case
      by (intro traces_bind [OF traces_withSSH_command [OF traces_WriteFile]] traces_return)
        (auto simp: upload_log_def split: sum.splits)
  qed
qed

lemma frames_UploadSnippet [frames_intro]: "frames (UploadSnippet env t sid fname content)"
  unfolding UploadSnippet_def GetStorageConfigPath_def Ssh_WriteFile_def by (intro frames_intro)

section \<open>What an attempt may write\<close>

definition uploaded :: "iso_request \<Rightarrow> event list \<Rightarrow> bool" where
  "uploaded q es \<longleftrightarrow> (\<exists>base. EStoragePath (sconfig_path (bq_storage q)) (Inr base) \<in> set es \<and>
     list_ex (ssh_ran_ok (upload_command q base)) es)"

definition wired :: "string \<Rightarrow> iso_request \<Rightarrow> string \<Rightarrow> event list \<Rightarrow> bool" where
  "wired node q d es \<longleftrightarrow> (\<exists>a. hook_put node q d a \<in> set es \<and> answered_2xx a) \<or> list_ex (ssh_ran_ok (hook_command q)) es"

text \<open>What may be written after a read that showed the hookscript \<open>h\<close>, the digest \<open>d\<close> and whether the VM runs.\<close>

definition bridge_step :: "string \<Rightarrow> iso_request \<Rightarrow> string \<Rightarrow> string \<Rightarrow> bool \<Rightarrow> event list \<Rightarrow> event \<Rightarrow> bool" where
  "bridge_step node q h d running pre e \<longleftrightarrow>
     (\<exists>base a. EStoragePath (sconfig_path (bq_storage q)) (Inr base) \<in> set pre \<and> e = ESsh (upload_command q base) a) \<or>
     uploaded q pre \<and> h \<noteq> wantedHookscript q \<and>
       ((\<exists>a. e = hook_put node q d a) \<or>
        (\<exists>a. e = ESsh (hook_command q) a \<and> refused_before node (bq_vmid q) ''hookscript'' (wantedHookscript q) pre)) \<or>
     uploaded q pre \<and> (h = wantedHookscript q \<or> wired node q d pre) \<and> running \<and>
       (\<exists>i \<in> set (bq_indices q). \<exists>a. e = ESsh (tap_on q i) a)"

fun is_config_read :: "event \<Rightarrow> bool" where
  "is_config_read (EConfig p a) = True"
| "is_config_read _ = False"

lemma uploaded_append: "uploaded q es \<Longrightarrow> uploaded q (before @ es)" "uploaded q es \<Longrightarrow> uploaded q (es @ after)"
  by (auto simp: uploaded_def)

lemma wired_append: "wired node q d es \<Longrightarrow> wired node q d (before @ es)" "wired node q d es \<Longrightarrow> wired node q d (es @ after)"
  by (auto simp: wired_def)

lemma bridge_step_append: "bridge_step node q h d running pre e \<Longrightarrow> bridge_step node q h d running (before @ pre) e"
  unfolding bridge_step_def by (auto intro: uploaded_append wired_append refused_before_append)

lemma looks_back_bridge_step: "looks_back (bridge_step node q h d running)"
  by (auto simp: looks_back_def intro: bridge_step_append)

definition quiet_on_config :: "event list \<Rightarrow> bool" where
  "quiet_on_config es \<longleftrightarrow> list_all (\<lambda>e. remote e \<and> \<not> is_config_read e) es"

lemma quiet_on_config_append [simp]: "quiet_on_config (es @ fs) \<longleftrightarrow> quiet_on_config es \<and> quiet_on_config fs"
  by (simp add: quiet_on_config_def)

lemma quiet_on_config_Nil [simp]: "quiet_on_config []"
  by (simp add: quiet_on_config_def)

lemma only_ssh_quiet: "list_all (only_ssh cmd) es \<Longrightarrow> quiet_on_config es"
  unfolding quiet_on_config_def
proof (induction es)
  case (Cons e es)
  then show ?case by (cases e) (auto simp: remote_def)
qed simp

lemma only_ssh_no_read: "list_all (only_ssh cmd) es \<Longrightarrow> EStoragePath p a \<notin> set es"
  by (auto simp: list_all_iff)

lemma upload_log_facts:
  assumes "upload_log q ok es"
  shows "uploaded q es \<longleftrightarrow> ok" and "quiet_on_config es" and "gated (bridge_step node q h d running) es"
proof -
  from assms show "uploaded q es \<longleftrightarrow> ok"
    unfolding upload_log_def uploaded_def by (auto dest: only_ssh_no_read)
  from assms show "quiet_on_config es"
    unfolding upload_log_def by (auto simp: quiet_on_config_def remote_def dest: only_ssh_quiet [unfolded quiet_on_config_def])
  have "gated (bridge_step node q h d running) (EStoragePath (sconfig_path (bq_storage q)) (Inr base) # fs)"
    if "list_all (only_ssh (upload_command q base)) fs" for base fs
    by (intro gated_Cons gated_only_ssh [OF that]) (auto simp: bridge_step_def)
  with assms show "gated (bridge_step node q h d running) es"
    unfolding upload_log_def by (auto intro: gated_no_write)
qed

section \<open>The steps, one by one\<close>

lemma more_iso:
  assumes "sess.more s1 = sess.more (s :: bridgeiso)"
  shows "is_applied s1 = is_applied s" and "is_digest s1 = is_digest s" and "is_hookscript s1 = is_hookscript s"
    and "is_running s1 = is_running s"
  using assms by (cases s; cases s1; simp)+

lemma runs_mark_iso: "Psi None (is_applied_update (\<lambda>l. appendOnce l f) s) [] \<Longrightarrow> runs s (mark_iso f) Psi"
  unfolding mark_iso_def by (auto intro!: runs_bind runs_modify runs_return)

text \<open>A step keeps what the read left, and marks what it wrote.\<close>

definition marks :: "bridgeiso \<Rightarrow> string list \<Rightarrow> bridgeiso \<Rightarrow> bool" where
  "marks s fs s1 \<longleftrightarrow> is_applied s1 = foldl appendOnce (is_applied s) fs \<and> is_digest s1 = is_digest s \<and>
     is_hookscript s1 = is_hookscript s \<and> is_running s1 = is_running s"

lemma marks_none: "sess.more s1 = sess.more (s :: bridgeiso) \<Longrightarrow> marks s [] s1"
  unfolding marks_def by (simp add: more_iso [of s1 s])

lemma marks_one: "sess.more s1 = sess.more s \<Longrightarrow> marks s [f] (is_applied_update (\<lambda>l. appendOnce l f) s1)"
  unfolding marks_def by (simp add: more_iso [of s1 s])

lemma marks_trans: "marks s fs s1 \<Longrightarrow> marks s1 gs s2 \<Longrightarrow> marks s (fs @ gs) s2"
  by (simp add: marks_def)

definition wire_spec :: "string \<Rightarrow> iso_request \<Rightarrow> bridgeiso \<Rightarrow> gerror option \<Rightarrow> bridgeiso \<Rightarrow> event list \<Rightarrow> bool" where
  "wire_spec node q s r s1 es \<longleftrightarrow>
     (if is_hookscript s = wantedHookscript q then r = None \<and> es = [] \<and> marks s [] s1
      else marks s (if r = None then [''hookscript''] else []) s1 \<and>
        cas_outcome node (qemu_path node (bq_vmid q) ''/config'') (cas_form ''hookscript'' (wantedHookscript q) (is_digest s))
          (hook_command q) (r = None) es)"

lemma hookscript_plain: "\<not> RootOnlyFields ''hookscript''"
  by (simp add: RootOnlyFields_def)

lemma runs_wire:
  "runs s (if is_hookscript s \<noteq> wantedHookscript q then wire_hookscript env t q else ret None) (wire_spec (tg_node t) q s)"
proof (rule runs_if, goal_cases)
  case new: 1
  have ssh: "traces (SetVMConfigFieldOverSSH env t (bq_vmid q) ''hookscript'' (wantedHookscript q))
      (\<lambda>r es. list_all (only_ssh (hook_command q)) es \<and> (r = None \<longleftrightarrow> list_ex (ssh_ran_ok (hook_command q)) es))"
    unfolding SetVMConfigFieldOverSSH_def by (rule traces_setViaSSH)
  show ?case
    unfolding wire_hookscript_def
    by (intro runs_bind [of _ State_Monad.get] runs_get runs_cas_or_ssh [OF traces_cas_set [OF hookscript_plain] _ ssh]
        frames_intro runs_mark_iso)
      (use new in \<open>simp_all add: wire_spec_def marks_one marks_none\<close>)
next
  case 2
  then show ?case by (auto intro!: runs_return simp: wire_spec_def marks_none)
qed

lemma refused_put_before:
  "hook_put node q d a \<in> set pre \<Longrightarrow> \<not> answered_2xx a \<Longrightarrow> refused_before node (bq_vmid q) ''hookscript'' (wantedHookscript q) pre"
  by (rule refused_beforeI(2))

lemma wire_spec_facts:
  assumes "wire_spec node q s r s1 es"
  shows "r = None \<Longrightarrow> is_hookscript s = wantedHookscript q \<or> wired node q (is_digest s) es"
    and "quiet_on_config es"
    and "uploaded q pre \<Longrightarrow> gated (\<lambda>mid. bridge_step node q (is_hookscript s) (is_digest s) running (pre @ mid)) es"
proof -
  let ?cfg = "qemu_path node (bq_vmid q) ''/config''" and ?form = "cas_form ''hookscript'' (wantedHookscript q) (is_digest s)"
  from assms show "r = None \<Longrightarrow> is_hookscript s = wantedHookscript q \<or> wired node q (is_digest s) es"
    by (auto simp: wire_spec_def cas_outcome_def wired_def split: if_splits)
  have cas: "es = [] \<or> is_hookscript s \<noteq> wantedHookscript q \<and> cas_outcome node ?cfg ?form (hook_command q) (r = None) es"
    using assms by (auto simp: wire_spec_def split: if_splits)
  then show "quiet_on_config es"
    by (auto simp: cas_outcome_def quiet_on_config_def remote_def dest!: only_ssh_quiet)
  assume up: "uploaded q pre"
  have "gated (\<lambda>mid. bridge_step node q (is_hookscript s) (is_digest s) running (pre @ mid)) ([] @ es)"
    if "cas_outcome node ?cfg ?form (hook_command q) (r = None) es" "is_hookscript s \<noteq> wantedHookscript q"
    using that(1)
  proof (rule cas_outcome_gated)
    show "bridge_step node q (is_hookscript s) (is_digest s) running (pre @ []) (EHttp PUT ?cfg ?form a)" for a
      using up that(2) by (auto simp: bridge_step_def)
    show "bridge_step node q (is_hookscript s) (is_digest s) running (pre @ mid) (ESsh (hook_command q) a)"
      if "refused_before node (bq_vmid q) ''hookscript'' (wantedHookscript q) mid" for mid a
      using up that \<open>is_hookscript s \<noteq> wantedHookscript q\<close>
      by (auto simp: bridge_step_def intro: uploaded_append refused_before_append)
  qed simp
  with cas show "gated (\<lambda>mid. bridge_step node q (is_hookscript s) (is_digest s) running (pre @ mid)) es"
    by (auto intro: gated_no_write)
qed

definition loop_spec :: "iso_request \<Rightarrow> int list \<Rightarrow> bridgeiso \<Rightarrow> gerror option \<Rightarrow> bridgeiso \<Rightarrow> event list \<Rightarrow> bool" where
  "loop_spec q idx s r s1 es \<longleftrightarrow>
     list_all (\<lambda>e. \<exists>i \<in> set idx. only_ssh (tap_on q i) e) es \<and>
     (\<exists>n \<le> length idx. (r = None \<longleftrightarrow> n = length idx) \<and> marks s (map (TapDeviceName (bq_vmid q)) (take n idx)) s1 \<and>
        (\<forall>i \<in> set (take n idx). list_ex (ssh_ran_ok (tap_on q i)) es))"

lemma runs_isolate_tap:
  "runs s (isolate_tap env t q i) (\<lambda>r s1 es. list_all (only_ssh (tap_on q i)) es \<and>
     (r = None \<longleftrightarrow> list_ex (ssh_ran_ok (tap_on q i)) es) \<and>
     marks s (if r = None then [TapDeviceName (bq_vmid q) i] else []) s1)"
  unfolding isolate_tap_def Let_def
  by (rule runs_bind, rule runs_traces [OF traces_SetBridgePortIsolated frames_link(3)], rule runs_case_sum)
    (auto intro!: runs_return runs_mark_iso simp: marks_none marks_one)

lemma runs_isolate_loop: "runs s (until_error (isolate_tap env t q) idx) (loop_spec q idx s)"
proof (induction idx arbitrary: s)
  case Nil
  show ?case by (auto intro!: runs_return simp: loop_spec_def marks_none)
next
  case (Cons i idx)
  show ?case
    unfolding until_error.simps
  proof (rule runs_bind, rule runs_mono [OF runs_isolate_tap], rule runs_case_option, goal_cases)
    case (1 r s1 es)
    show ?case
    proof (rule runs_mono [OF Cons.IH])
      fix r2 s2 fs
      assume "loop_spec q idx s1 r2 s2 fs"
      then obtain n where n: "n \<le> length idx" "r2 = None \<longleftrightarrow> n = length idx"
        "marks s1 (map (TapDeviceName (bq_vmid q)) (take n idx)) s2" "\<forall>i \<in> set (take n idx). list_ex (ssh_ran_ok (tap_on q i)) fs"
        and fs: "list_all (\<lambda>e. \<exists>i \<in> set idx. only_ssh (tap_on q i) e) fs" unfolding loop_spec_def by blast
      from 1 have step: "marks s [TapDeviceName (bq_vmid q) i] s1" "list_ex (ssh_ran_ok (tap_on q i)) es"
        "list_all (only_ssh (tap_on q i)) es" by auto
      from marks_trans [OF step(1) n(3)] n step(2) have "Suc n \<le> length (i # idx) \<and> (r2 = None \<longleftrightarrow> Suc n = length (i # idx)) \<and>
          marks s (map (TapDeviceName (bq_vmid q)) (take (Suc n) (i # idx))) s2 \<and>
          (\<forall>j \<in> set (take (Suc n) (i # idx)). list_ex (ssh_ran_ok (tap_on q j)) (es @ fs))" by auto
      moreover have "list_all (\<lambda>e. \<exists>j \<in> set (i # idx). only_ssh (tap_on q j) e) (es @ fs)"
        using step(3) fs by (auto simp: list_all_iff)
      ultimately show "loop_spec q (i # idx) s r2 s2 (es @ fs)" unfolding loop_spec_def by blast
    qed
  next
    case (2 r s1 es e)
    then show ?case by (intro runs_return) (auto simp: loop_spec_def list_all_iff intro!: exI [of _ 0])
  qed
qed

lemma loop_spec_facts:
  assumes "loop_spec q (bq_indices q) s r s1 es"
  shows "r = None \<Longrightarrow> i \<in> set (bq_indices q) \<Longrightarrow> list_ex (ssh_ran_ok (tap_on q i)) es" and "quiet_on_config es"
    and "uploaded q pre \<Longrightarrow> h = wantedHookscript q \<or> wired node q d pre \<Longrightarrow>
      gated (\<lambda>mid. bridge_step node q h d True (pre @ mid)) es"
proof -
  from assms show "r = None \<Longrightarrow> i \<in> set (bq_indices q) \<Longrightarrow> list_ex (ssh_ran_ok (tap_on q i)) es"
    unfolding loop_spec_def by auto
  have ev: "list_all (\<lambda>e. \<exists>i \<in> set (bq_indices q). only_ssh (tap_on q i) e) es"
    using assms unfolding loop_spec_def by blast
  have "remote e \<and> \<not> is_config_read e" if "only_ssh c e" for c e
    using that by (cases e) (auto simp: remote_def)
  with ev show "quiet_on_config es" unfolding quiet_on_config_def list_all_iff by blast
  assume pre: "uploaded q pre" "h = wantedHookscript q \<or> wired node q d pre"
  have "bridge_step node q h d True (pre @ mid) e" if "e \<in> set es" "is_write e" for mid e
  proof -
    from ev that(1) obtain i where i: "i \<in> set (bq_indices q)" "only_ssh (tap_on q i) e" by (auto simp: list_all_iff)
    with that(2) obtain a where "e = ESsh (tap_on q i) a" by (cases e) auto
    with i pre show ?thesis unfolding bridge_step_def by (blast intro: uploaded_append wired_append)
  qed
  then show "gated (\<lambda>mid. bridge_step node q h d True (pre @ mid)) es"
    unfolding gated_def by (metis in_set_conv_decomp)
qed

section \<open>The whole attempt\<close>

definition isolated_all :: "iso_request \<Rightarrow> event list \<Rightarrow> bool" where
  "isolated_all q es \<longleftrightarrow> (\<forall>i \<in> set (bq_indices q). list_ex (ssh_ran_ok (tap_on q i)) es)"

definition apply_spec :: "string \<Rightarrow> iso_request \<Rightarrow> bridgeiso \<Rightarrow> gerror option \<Rightarrow> bridgeiso \<Rightarrow> event list \<Rightarrow> bool" where
  "apply_spec node q s r s1 es \<longleftrightarrow>
     quiet_on_config es \<and> gated (bridge_step node q (is_hookscript s) (is_digest s) (is_running s)) es \<and>
     (r = None \<longrightarrow> uploaded q es \<and> (is_hookscript s = wantedHookscript q \<or> wired node q (is_digest s) es) \<and>
        (is_running s \<longrightarrow> isolated_all q es)) \<and>
     (\<exists>fs. marks s fs s1 \<and> (uploaded q es \<longleftrightarrow> fs \<noteq> []))"

lemma wire_then:
  assumes "upload_log q True es" and "wire_spec node q s r s1 fs" and "marks s0 [''snippet''] s"
  shows "quiet_on_config (es @ fs)"
    and "gated (bridge_step node q (is_hookscript s0) (is_digest s0) running) (es @ fs)"
    and "uploaded q (es @ fs)" and "\<exists>gs. marks s0 (''snippet'' # gs) s1" and "is_running s1 = is_running s0"
    and "r = None \<Longrightarrow> is_hookscript s0 = wantedHookscript q \<or> wired node q (is_digest s0) (es @ fs)"
proof -
  note up = upload_log_facts [OF assms(1)] and w = wire_spec_facts [OF assms(2)]
  have s: "is_hookscript s0 = is_hookscript s" "is_digest s0 = is_digest s" "is_running s0 = is_running s"
    using assms(3) by (simp_all add: marks_def)
  show "quiet_on_config (es @ fs)" using up(2) w(2) by simp
  show "gated (bridge_step node q (is_hookscript s0) (is_digest s0) running) (es @ fs)"
    unfolding s using up(1) by (intro gated_after up(3) w(3)) simp
  show "uploaded q (es @ fs)" using up(1) by (auto intro: uploaded_append)
  obtain gs where gs: "marks s gs s1" using assms(2) unfolding wire_spec_def by (auto split: if_splits)
  from marks_trans [OF assms(3) this] show "\<exists>gs. marks s0 (''snippet'' # gs) s1" by auto
  show "is_running s1 = is_running s0" using gs s by (simp add: marks_def)
  show "r = None \<Longrightarrow> is_hookscript s0 = wantedHookscript q \<or> wired node q (is_digest s0) (es @ fs)"
    unfolding s using w(1) wired_append(1) by blast
qed

lemma runs_BridgeIsolation_Apply: "runs s (BridgeIsolation_Apply env t q) (apply_spec (tg_node t) q s)"
  unfolding BridgeIsolation_Apply_def
proof (rule runs_case_option, goal_cases)
  case (2 e)
  then show ?case
    by (auto intro!: runs_return simp: apply_spec_def quiet_on_config_def gated_no_write uploaded_def marks_none)
next
  case 1
  show ?case
  proof (rule runs_bind, rule runs_traces [OF traces_UploadSnippet frames_UploadSnippet], rule runs_case_sum, goal_cases)
    case (1 r s1 es e)
    with upload_log_facts [of q False es] show ?case
      by (auto intro!: runs_return marks_none exI [of _ "[]"] simp: apply_spec_def)
  next
    case (2 r s1 es u)
    then have up: "upload_log q True es" by simp
    from 2(2) have m: "marks s [''snippet''] (is_applied_update (\<lambda>l. appendOnce l ''snippet'') s1)" by (rule marks_one)
    show ?case
    proof (rule runs_bind, rule runs_mark_iso, rule runs_bind, rule runs_get, rule runs_bind, rule runs_mono [OF runs_wire],
        rule runs_case_option, goal_cases)
      case (1 r2 s2 fs)
      note w = wire_then [OF up 1(1) m]
      from w(4) obtain gs where gs: "marks s (''snippet'' # gs) s2" by blast
      have running: "is_running (is_applied_update (\<lambda>l. appendOnce l ''snippet'') s1) = is_running s" using m by (simp add: marks_def)
      show ?case
      proof (rule runs_if, goal_cases)
        case running: 1
        show ?case
        proof (rule runs_mono [OF runs_isolate_loop])
          fix r3 s3 hs
          assume l: "loop_spec q (bq_indices q) s2 r3 s3 hs"
          note lf = loop_spec_facts [OF l]
          from l obtain ks where "marks s2 ks s3" unfolding loop_spec_def by blast
          from marks_trans [OF gs this] have "marks s (''snippet'' # gs @ ks) s3" by simp
          moreover have "gated (bridge_step (tg_node t) q (is_hookscript s) (is_digest s) True) ((es @ fs) @ hs)"
            using w(6) 1(2) by (intro gated_after w(2) lf(3) w(3)) blast
          moreover have "is_running s" using running m by (simp add: marks_def)
          moreover have "r3 = None \<Longrightarrow> isolated_all q ((es @ fs) @ hs)" using lf(1) by (auto simp: isolated_all_def)
          ultimately show "apply_spec (tg_node t) q s r3 s3 (es @ [] @ [] @ fs @ hs)"
            using w(1,3) lf(2) w(6) 1(2) unfolding apply_spec_def
            by (auto simp del: append_assoc simp: append_assoc [symmetric] intro: uploaded_append wired_append)
        qed
      next
        case 2
        with w gs 1(2) running show ?case by (auto intro!: runs_return simp: apply_spec_def)
      qed
    next
      case (2 r2 s2 fs e)
      note w = wire_then [OF up 2(1) m]
      with 2(2) show ?case by (auto intro!: runs_return simp: apply_spec_def)
    qed
  qed
qed

section \<open>What a read observes\<close>

fun ssh_read :: "event \<Rightarrow> bool" where
  "ssh_read (EDial a r) = True"
| "ssh_read (EProbe b) = True"
| "ssh_read (EQuery c a) = True"
| "ssh_read _ = False"

lemma ssh_read_facts: "ssh_read e \<Longrightarrow> reads e \<and> remote e \<and> \<not> is_config_read e \<and> \<not> is_write e"
  by (cases e) (auto simp: reads_def remote_def)

lemma ssh_reads_quiet: "list_all ssh_read es \<Longrightarrow> list_all reads es \<and> quiet_on_config es"
  by (auto simp: list_all_iff quiet_on_config_def dest: ssh_read_facts)

lemma emits_TapLinkState: "emits ssh_read (TapLinkState env t tap)"
  unfolding TapLinkState_def Ssh_TapLinkState_def withSSH_def dialSSH_def ssh_dial_def ssh_probe_def ssh_query_def
  by (intro emits_intro emits_perform; simp)

definition tap_seen :: "int \<Rightarrow> event list \<Rightarrow> tap_observation \<Rightarrow> bool" where
  "tap_seen vmid es ob \<longleftrightarrow> (\<exists>a. EQuery (tap_command (TapDeviceName vmid (to_index ob))) a \<in> set es \<and>
     tap_answer (TapDeviceName vmid (to_index ob)) a = Inr \<lparr>tp_exists = to_exists ob, tp_isolated = to_isolated ob\<rparr>)"

lemma tap_seen_append: "tap_seen vmid es ob \<Longrightarrow> tap_seen vmid (before @ es) ob" "tap_seen vmid es ob \<Longrightarrow> tap_seen vmid (es @ after) ob"
  by (auto simp: tap_seen_def)

lemma traces_TapLinkState:
  "traces (TapLinkState env t tap) (\<lambda>r es. list_all ssh_read es \<and>
     (\<forall>x. r = Inr x \<longrightarrow> (\<exists>a. EQuery (tap_command tap) a \<in> set es \<and> tap_answer tap a = Inr x)))"
proof -
  have "traces (Ssh_TapLinkState env tap :: ('b sess_scheme, _) state)
      (\<lambda>r es. \<forall>x. r = Inr x \<longrightarrow> (\<exists>a. EQuery (tap_command tap) a \<in> set es \<and> tap_answer tap a = Inr x))"
    unfolding Ssh_TapLinkState_def ssh_query_def
    by (rule traces_if; (rule traces_return | rule traces_bind [OF traces_perform [where T = "\<lambda>x es. es = [EQuery (tap_command tap) x]"]]))
      (auto intro: traces_return)
  from traces_conj [OF traces_withSSH_ok [OF this] emits_TapLinkState [unfolded TapLinkState_def]]
  show ?thesis unfolding TapLinkState_def by (rule traces_mono) fastforce
qed

lemma traces_read_taps:
  "traces (read_taps env t vmid idx) (\<lambda>r es. list_all ssh_read es \<and> (\<forall>obs. r = Inr obs \<longrightarrow> list_all (tap_seen vmid es) obs))"
proof (induction idx)
  case (Cons i idx)
  show ?case
    unfolding read_taps.simps
  proof (rule traces_bind [OF traces_TapLinkState], rule traces_case_sum, goal_cases)
    case (2 r es ts)
    then have "tap_seen vmid (es @ fs) \<lparr>to_index = i, to_exists = tp_exists ts, to_isolated = tp_isolated ts\<rparr>" for fs
      by (auto simp: tap_seen_def)
    with 2 show ?case
      by (intro traces_bind [OF Cons.IH] traces_return)
        (auto split: sum.splits simp: list_all_iff intro: tap_seen_append)
  qed (auto intro!: traces_return)
qed (simp add: traces_return)

lemma frames_read_taps: "frames (read_taps env t vmid idx)"
  by (induction idx) (auto intro!: frames_intro)

definition iso_seen :: "string \<Rightarrow> iso_request \<Rightarrow> vm_status_reply \<Rightarrow> vm_config \<Rightarrow> event list \<Rightarrow> event list" where
  "iso_seen node q st c fs = EStatus (qemu_path node (bq_vmid q) ''/status/current'') (Inr st) #
     EConfig (qemu_path node (bq_vmid q) ''/config'') (Inr (Some c)) # fs"

definition read_spec :: "string \<Rightarrow> iso_request \<Rightarrow> isolation_state \<Rightarrow> event list \<Rightarrow> vm_status_reply \<Rightarrow> vm_config \<Rightarrow> event list \<Rightarrow> bool" where
  "read_spec node q cur es st c fs \<longleftrightarrow> es = iso_seen node q st c fs \<and> list_all ssh_read fs \<and>
     ib_hookscript cur = vc_hookscript c \<and> ib_running cur = (vs_status st = ''running'') \<and>
     list_all (tap_seen (bq_vmid q) fs) (ib_taps cur)"

lemma run_BridgeIsolation_Read:
  assumes "run_state (BridgeIsolation_Read env t q) s = (Inr cur, s1)"
  shows "\<exists>es st c fs. log s1 = log s @ es \<and> read_spec (tg_node t) q cur es st c fs \<and>
    is_hookscript s1 = vc_hookscript c \<and> is_digest s1 = vc_digest c \<and> is_running s1 = (vs_status st = ''running'')"
proof -
  obtain r s0 where gv: "run_state (Client_GetVM env (tg_node t) (bq_vmid q)) s = (r, s0)" by force
  with assms obtain v where r: "r = Inr v" by (cases r) (auto simp: BridgeIsolation_Read_def GetVM_def)
  from run_GetVM_ok [OF gv [unfolded r]] obtain st c where v: "v = Some \<lparr>vm_status = st, vm_config = Some c\<rparr>"
    and s0: "s0 = s\<lparr>log := log s @ iso_seen (tg_node t) q st c []\<rparr>" by (auto simp: iso_seen_def)
  define s2 where "s2 = s0\<lparr>is_hookscript := vc_hookscript c, is_digest := vc_digest c, is_running := (vs_status st = ''running'')\<rparr>"
  define taps where "taps = (if vs_status st = ''running'' then read_taps env t (bq_vmid q) (bq_indices q) else (ret (Inr []) :: (bridgeiso, _) state))"
  obtain r2 s3 where tp: "run_state taps s2 = (r2, s3)" by force
  have "run_state (BridgeIsolation_Read env t q) s = (case r2 of Inl e \<Rightarrow> Inl e
      | Inr obs \<Rightarrow> Inr (isolation_text \<lparr>ib_hookscript = vc_hookscript c, ib_running = (vs_status st = ''running''), ib_taps = obs\<rparr>), s3)"
    using gv tp unfolding s2_def taps_def
    by (simp add: BridgeIsolation_Read_def GetVM_def r v requireVMConfig_def modify_def Let_def)
  with assms obtain obs where obs: "r2 = Inr obs" "s3 = s1"
    "cur = isolation_text \<lparr>ib_hookscript = vc_hookscript c, ib_running = (vs_status st = ''running''), ib_taps = obs\<rparr>"
    by (cases r2) auto
  have "traces taps (\<lambda>r es. list_all ssh_read es \<and> (\<forall>obs. r = Inr obs \<longrightarrow> list_all (tap_seen (bq_vmid q) es) obs))"
    unfolding taps_def by (auto intro: traces_read_taps traces_return)
  from traces_runD [OF this tp] obs(1) obtain fs where fs: "log s3 = log s2 @ fs" "list_all ssh_read fs"
    "list_all (tap_seen (bq_vmid q) fs) obs" by auto
  have "frames taps" unfolding taps_def by (auto intro: frames_read_taps frames_return)
  with tp have "sess.more s3 = sess.more s2" unfolding frames_def by (metis snd_conv)
  from more_iso [OF this] obs(2) have "is_hookscript s1 = vc_hookscript c" "is_digest s1 = vc_digest c"
    "is_running s1 = (vs_status st = ''running'')" by (simp_all add: s2_def)
  moreover have "log s1 = log s @ iso_seen (tg_node t) q st c fs"
    using fs(1) obs(2) by (simp add: s2_def s0 iso_seen_def)
  moreover have "read_spec (tg_node t) q cur (iso_seen (tg_node t) q st c fs) st c fs"
    using fs(2,3) by (simp add: read_spec_def obs(3) isolation_text_def list_all_iff)
  ultimately show ?thesis by blast
qed

lemma emits_BridgeIsolation_Read: "emits reads (BridgeIsolation_Read env t q)"
proof -
  have "emits reads (read_taps env t vmid idx)" for vmid idx
    unfolding emits_def using traces_read_taps by (rule traces_mono) (auto dest: ssh_reads_quiet)
  then show ?thesis unfolding BridgeIsolation_Read_def Let_def by (intro emits_intro) simp_all
qed

section \<open>As an operation of the engine\<close>

text \<open>A write of a run, and the attempt it belongs to: the last read of the VM, and what happened since.\<close>

definition bridge_allowed :: "string \<Rightarrow> iso_request \<Rightarrow> event list \<Rightarrow> event \<Rightarrow> bool" where
  "bridge_allowed node q pre e \<longleftrightarrow> (\<exists>hist st c mid. pre = hist @ iso_seen node q st c mid \<and> quiet_on_config mid \<and>
     bridge_step node q (vc_hookscript c) (vc_digest c) (vs_status st = ''running'') mid e)"

lemma looks_back_bridge_allowed: "looks_back (bridge_allowed node q)"
  unfolding looks_back_def bridge_allowed_def by (metis append.assoc)

definition seen_noop :: "string \<Rightarrow> iso_request \<Rightarrow> isolation_state \<Rightarrow> event list \<Rightarrow> bool" where
  "seen_noop node q cur es \<longleftrightarrow> (\<exists>st c fs. read_spec node q cur es st c fs)"

lemma gated_allowed:
  assumes "gated (bridge_step node q (vc_hookscript c) (vc_digest c) (vs_status st = ''running'')) es" and "quiet_on_config es"
    and "list_all ssh_read fs"
  shows "gated (bridge_allowed node q) (iso_seen node q st c fs @ es)"
proof (rule gated_after)
  show "gated (bridge_allowed node q) (iso_seen node q st c fs)"
    using assms(3) by (intro gated_reads) (auto simp: iso_seen_def reads_def dest: ssh_reads_quiet)
  show "gated (\<lambda>pre. bridge_allowed node q (iso_seen node q st c fs @ pre)) es"
    unfolding gated_def
  proof (intro allI impI)
    fix pre e post
    assume es: "es = pre @ e # post" and "is_write e"
    with assms(1) have "bridge_step node q (vc_hookscript c) (vc_digest c) (vs_status st = ''running'') pre e" by (rule gatedD)
    moreover have "quiet_on_config (fs @ pre)" using assms(2,3) es ssh_reads_quiet by (auto simp: quiet_on_config_def)
    ultimately show "bridge_allowed node q (iso_seen node q st c fs @ pre) e"
      unfolding bridge_allowed_def
      by (intro exI [of _ "[]"] exI [of _ st] exI [of _ c] exI [of _ "fs @ pre"]) (auto simp: iso_seen_def intro: bridge_step_append)
  qed
qed

lemma traces_BridgeIsolation_Apply: "traces (BridgeIsolation_Apply env t q) (\<lambda>r es. list_all remote es)"
  by (rule traces_runs, rule runs_mono [OF runs_BridgeIsolation_Apply])
    (auto simp: apply_spec_def quiet_on_config_def list_all_iff)

interpretation iso_op: op_attempt "BridgeIsolation env t q" "\<lambda>_ es. list_all remote es" "seen_noop (tg_node t) q"
    "BridgeIsolation_Satisfied q" "bridge_allowed (tg_node t) q" for env t q
proof (unfold_locales, goal_cases)
  case 1
  have "\<exists>es. log s' = log s @ es \<and> list_all reads es \<and> (\<forall>c. r = Inr c \<longrightarrow> seen_noop (tg_node t) q c es)"
    if "run_state (BridgeIsolation_Read env t q) s = (r, s')" for s r s'
  proof -
    from emitsD [OF emits_BridgeIsolation_Read that] obtain es where es: "log s' = log s @ es" "list_all reads es" by blast
    show ?thesis
    proof (cases r)
      case (Inr c)
      with run_BridgeIsolation_Read that es show ?thesis unfolding seen_noop_def by fastforce
    qed (use es in auto)
  qed
  then show ?case unfolding traces_def BridgeIsolation_def by (simp add: prod.collapse)
next
  case (8 s c s1 r s2)
  then have rd: "run_state (BridgeIsolation_Read env t q) s = (Inr c, s1)" and ap: "run_state (BridgeIsolation_Apply env t q) s1 = (r, s2)"
    by (simp_all add: BridgeIsolation_def)
  from run_BridgeIsolation_Read [OF rd] obtain es st cf fs where es: "log s1 = log s @ es" "read_spec (tg_node t) q c es st cf fs"
    and s1: "is_hookscript s1 = vc_hookscript cf" "is_digest s1 = vc_digest cf" "is_running s1 = (vs_status st = ''running'')" by blast
  from runsD [OF runs_BridgeIsolation_Apply ap] obtain gs where gs: "log s2 = log s1 @ gs" "apply_spec (tg_node t) q s1 r s2 gs" by blast
  have "gated (bridge_allowed (tg_node t) q) (es @ gs)"
    using es(2) gs(2) unfolding read_spec_def apply_spec_def s1 by (auto intro: gated_allowed)
  with es(1) gs(1) show ?case by auto
qed (simp_all add: BridgeIsolation_def traces_BridgeIsolation_Apply looks_back_bridge_allowed)

section \<open>What a run does\<close>

text \<open>
  C11: every write of a run belongs to an attempt that read the VM and nothing of its config since: it writes the
  script to the storage's own path, or, once the script is there, the wanted hookscript where the read showed
  another, under the read's digest or over SSH after that PUT was refused, or it isolates one of the requested
  taps of a VM that was running, once the hookscript is wired.
\<close>

theorem BridgeIsolation_ordered:
  assumes "run_state (Run env rp key (BridgeIsolation env t q) force) s = (res, s')"
  shows "\<exists>es. log s' = log s @ es \<and>
    (\<forall>before e after. es = before @ e # after \<longrightarrow> is_write e \<longrightarrow>
       (\<exists>hist st c mid. before = hist @ EStatus (qemu_path (tg_node t) (bq_vmid q) ''/status/current'') (Inr st) #
            EConfig (qemu_path (tg_node t) (bq_vmid q) ''/config'') (Inr (Some c)) # mid \<and>
          list_all (\<lambda>e. \<not> is_config_read e) mid \<and>
          bridge_step (tg_node t) q (vc_hookscript c) (vc_digest c) (vs_status st = ''running'') mid e))"
proof -
  from iso_op.Run_attempts_gated [OF assms] obtain es where "log s' = log s @ es" "gated (bridge_allowed (tg_node t) q) es" by blast
  moreover have "list_all (\<lambda>e. \<not> is_config_read e) mid" if "quiet_on_config mid" for mid
    using that by (auto simp: quiet_on_config_def list_all_iff)
  ultimately show ?thesis unfolding gated_def bridge_allowed_def iso_seen_def by blast
qed

definition all_isolated_seen :: "iso_request \<Rightarrow> event list \<Rightarrow> bool" where
  "all_isolated_seen q es \<longleftrightarrow> (\<forall>i \<in> set (bq_indices q). \<exists>a. EQuery (tap_command (TapDeviceName (bq_vmid q) i)) a \<in> set es \<and>
     tap_answer (TapDeviceName (bq_vmid q) i) a = Inr \<lparr>tp_exists = True, tp_isolated = True\<rparr>)"

lemma satisfied_seen:
  assumes "BridgeIsolation_Satisfied q cur" and "list_all (tap_seen (bq_vmid q) fs) (ib_taps cur)" and "ib_running cur"
  shows "all_isolated_seen q fs"
  unfolding all_isolated_seen_def
proof
  fix i
  assume "i \<in> set (bq_indices q)"
  with assms(1,3) obtain ob where ob: "map_of (rev (map (\<lambda>ob. (to_index ob, ob)) (ib_taps cur))) i = Some ob" "to_exists ob" "to_isolated ob"
    by (auto simp: BridgeIsolation_Satisfied_def Let_def list_all_iff split: option.splits)
  from map_of_SomeD [OF ob(1)] have "ob \<in> set (ib_taps cur)" "to_index ob = i" by auto
  moreover have "\<lparr>tp_exists = to_exists ob, tp_isolated = to_isolated ob\<rparr> = \<lparr>tp_exists = True, tp_isolated = True\<rparr>"
    using ob(2,3) by simp
  ultimately show "\<exists>a. EQuery (tap_command (TapDeviceName (bq_vmid q) i)) a \<in> set fs \<and>
     tap_answer (TapDeviceName (bq_vmid q) i) a = Inr \<lparr>tp_exists = True, tp_isolated = True\<rparr>"
    using assms(2) unfolding list_all_iff tap_seen_def by metis
qed

text \<open>
  A run that reports success ends with both parts in place.  When it reports a change, its last attempt read
  the VM, then put the script on the storage, wired the hookscript unless the read showed it wired, and, if the VM
  ran, isolated every requested tap; when it reports none, the read itself showed the hookscript wired and, if
  the VM ran, every requested tap isolated.
\<close>

theorem BridgeIsolation_success:
  assumes "run_state (Run env rp key (BridgeIsolation env t q) force) s = (Inr x, s')"
  shows "\<exists>pre st c mid fs post. log s' = log s @ pre @
      EStatus (qemu_path (tg_node t) (bq_vmid q) ''/status/current'') (Inr st) #
      EConfig (qemu_path (tg_node t) (bq_vmid q) ''/config'') (Inr (Some c)) # mid @ fs @ post \<and>
    (if Changed x
     then uploaded q fs \<and> (vc_hookscript c = wantedHookscript q \<or> wired (tg_node t) q (vc_digest c) fs) \<and>
          (vs_status st = ''running'' \<longrightarrow> isolated_all q fs)
     else vc_hookscript c = wantedHookscript q \<and> (vs_status st = ''running'' \<longrightarrow> all_isolated_seen q mid))"
proof (cases "Changed x")
  case True
  from iso_op.Run_applied [OF assms True] obtain s0 s1 s2 pre post where
    s0: "log s0 = log s @ pre" and rd: "run_state (BridgeIsolation_Read env t q) s0 = (Inr (Before x), s1)"
    and ap: "run_state (BridgeIsolation_Apply env t q) s1 = (None, s2)" and post: "log s' = log s2 @ post"
    by (auto simp: BridgeIsolation_def)
  from run_BridgeIsolation_Read [OF rd] obtain es st c mid where es: "log s1 = log s0 @ es"
    "read_spec (tg_node t) q (Before x) es st c mid" and s1: "is_hookscript s1 = vc_hookscript c" "is_digest s1 = vc_digest c"
    "is_running s1 = (vs_status st = ''running'')" by blast
  from runsD [OF runs_BridgeIsolation_Apply ap] obtain fs where fs: "log s2 = log s1 @ fs" "apply_spec (tg_node t) q s1 None s2 fs" by blast
  from fs(2) True show ?thesis
    using es s0 post fs(1) unfolding apply_spec_def s1 read_spec_def iso_seen_def
    by (intro exI [of _ pre] exI [of _ st] exI [of _ c] exI [of _ mid] exI [of _ fs] exI [of _ post]) simp
next
  case False
  from iso_op.Run_success [OF assms] False obtain pre mid post where es: "log s' = log s @ pre @ mid @ post"
    and sat: "BridgeIsolation_Satisfied q (Before x)" and seen: "seen_noop (tg_node t) q (Before x) mid" by auto
  from seen obtain st c fs where rs: "read_spec (tg_node t) q (Before x) mid st c fs" unfolding seen_noop_def by blast
  then have "vc_hookscript c = wantedHookscript q" "vs_status st = ''running'' \<longrightarrow> all_isolated_seen q fs"
    using sat satisfied_seen [OF sat, of fs] by (auto simp: read_spec_def BridgeIsolation_Satisfied_def)
  with rs es False show ?thesis unfolding read_spec_def iso_seen_def
    by (intro exI [of _ pre] exI [of _ st] exI [of _ c] exI [of _ fs] exI [of _ "[]"] exI [of _ post]) simp
qed

text \<open>
  An \<open>Apply\<close> leaves a mark exactly when the script was uploaded, whatever the outcome, so the
  report that something was written is never wrong about an attempt that failed half way.
\<close>

theorem BridgeIsolation_Wrote_iff:
  assumes "run_state (BridgeIsolation_Apply env t q) s = (r, s')"
  shows "\<exists>es. log s' = log s @ es \<and> (BridgeIsolation_Wrote s' \<longleftrightarrow> BridgeIsolation_Wrote s \<or> uploaded q es)"
proof -
  from runsD [OF runs_BridgeIsolation_Apply assms] obtain es fs where es: "log s' = log s @ es" "marks s fs s'"
    "uploaded q es \<longleftrightarrow> fs \<noteq> []" unfolding apply_spec_def by blast
  have "foldl appendOnce l fs = [] \<longleftrightarrow> l = [] \<and> fs = []" for l
    using set_foldl_appendOnce [of l fs] by (metis Un_empty set_empty)
  with es show ?thesis by (auto simp: BridgeIsolation_Wrote_def marks_def)
qed

section \<open>A run\<close>

text \<open>A running VM with one tap that is not isolated yet; every command over SSH works.\<close>

definition tap_listing :: string where
  "tap_listing = ''[{'' @ [CHR 0x22] @ ''isolated'' @ [CHR 0x22] @ '':false}]''"

definition iso_world :: env where
  "iso_world = calm\<lparr>e_status := (\<lambda>_ _. Inr \<lparr>vs_status = ''running'', vs_qmpstatus = ''running'', vs_rest = []\<rparr>),
     e_ssh := (\<lambda>_ _. Inr \<lparr>sr_stdout = tap_listing, sr_stderr = [], sr_exit = 0\<rparr>)\<rparr>"

definition demo_iso :: iso_request where
  "demo_iso = \<lparr>bq_vmid = 7, bq_indices = [0], bq_storage = ''local''\<rparr>"

definition iso_session :: bridgeiso where
  "iso_session = \<lparr>log = [], ssh_open = False, is_applied = [], is_digest = [], is_hookscript = [], is_running = False\<rparr>"

abbreviation demo_isolation :: "(gerror + isolation_state result) \<times> bridgeiso" where
  "demo_isolation \<equiv> run_state (Run iso_world ''roster.yaml'' demo_key (BridgeIsolation iso_world demo_ssh_target demo_iso) False) iso_session"

lemma demo_iso_fields: "bq_vmid demo_iso = 7" "bq_indices demo_iso = [0]" "bq_storage demo_iso = ''local''"
  by (simp_all add: demo_iso_def)

lemma demo_iso_valid: "BridgeIsolation_Validate demo_iso = None" "isSafeSnippetFilename (snippetFilename demo_iso)"
  "wantedHookscript demo_iso \<noteq> []"
  by code_simp+

lemma tap_listing_answer:
  "tap_answer tap (Inr \<lparr>sr_stdout = tap_listing, sr_stderr = [], sr_exit = 0\<rparr>) = Inr \<lparr>tp_exists = True, tp_isolated = False\<rparr>"
proof -
  have "decode_structs bridge_link_fields \<lparr>br_ifname = [], br_isolated = False\<rparr> (json_Unmarshal tap_listing) =
      Some [\<lparr>br_ifname = [], br_isolated = False\<rparr>]" by code_simp
  then show ?thesis by (simp add: tap_answer_def Let_def)
qed

lemma ssh_target: "tg_ssh demo_ssh_target = Some \<lparr>sa_user = ''root'', sa_host_key_fingerprint = ''fp'', sa_private_key_enc = ''k''\<rparr>"
  "tg_node demo_ssh_target = ''pve1''"
  by (simp_all add: demo_ssh_target_def demo_target_def)

lemma run_iso_dial: "\<exists>s'. run_state (dialSSH iso_world demo_ssh_target) s = (None, s') \<and> sess.more s' = sess.more s"
  by (simp add: dialSSH_def ssh_target run_simps primitive_defs iso_world_def set_ssh_open_def)

lemma run_iso_ssh:
  assumes "\<And>s. \<exists>s'. run_state fn s = (Inr x, s') \<and> sess.more s' = sess.more (s :: bridgeiso)"
  shows "\<exists>s'. run_state (withSSH iso_world demo_ssh_target fn) s = (Inr x, s') \<and> sess.more s' = sess.more s"
proof (cases "ssh_open s")
  case True
  with assms [of s] show ?thesis by (auto simp: withSSH_def get_ssh_open_def)
next
  case False
  obtain s1 where s1: "run_state (dialSSH iso_world demo_ssh_target) s = (None, s1)" "sess.more s1 = sess.more s"
    using run_iso_dial by blast
  obtain s2 where "run_state fn s1 = (Inr x, s2)" "sess.more s2 = sess.more s1" using assms [of s1] by blast
  with s1 False show ?thesis by (auto simp: withSSH_def get_ssh_open_def)
qed

lemma run_iso_Read:
  "\<exists>cur s'. run_state (BridgeIsolation_Read iso_world demo_ssh_target demo_iso) s = (Inr cur, s') \<and>
     \<not> BridgeIsolation_Satisfied demo_iso cur \<and> is_hookscript s' = [] \<and> is_running s'"
proof -
  have query: "\<exists>s'. run_state (Ssh_TapLinkState iso_world (TapDeviceName 7 0)) s = (Inr \<lparr>tp_exists = True, tp_isolated = False\<rparr>, s') \<and>
      sess.more s' = sess.more s" for s :: bridgeiso
    by (simp add: Ssh_TapLinkState_def TapDeviceName_def ssh_query_def run_perform iso_world_def tap_listing_answer)
  obtain s0 where gv: "run_state (Client_GetVM iso_world ''pve1'' 7) s = (Inr (Some \<lparr>vm_status = \<lparr>vs_status = ''running'', vs_qmpstatus = ''running'', vs_rest = []\<rparr>,
      vm_config = Some \<lparr>vc_tags = [], vc_digest = ''d1'', vc_hookscript = [], vc_rest = []\<rparr>\<rparr>), s0)"
    by (simp add: Client_GetVM_def primitive_defs run_simps iso_world_def)
  let ?s1 = "s0\<lparr>is_hookscript := [], is_digest := ''d1'', is_running := True\<rparr>"
  obtain s2 where s2: "run_state (TapLinkState iso_world demo_ssh_target (TapDeviceName 7 0)) ?s1 =
      (Inr \<lparr>tp_exists = True, tp_isolated = False\<rparr>, s2)" "sess.more s2 = sess.more ?s1"
    using run_iso_ssh [OF query, of ?s1] unfolding TapLinkState_def by blast
  from more_iso [OF s2(2)] have "is_hookscript s2 = []" "is_running s2" by simp_all
  then show ?thesis
    using gv s2(1) demo_iso_valid(3)
    by (auto simp: BridgeIsolation_Read_def GetVM_def requireVMConfig_def modify_def demo_iso_fields ssh_target
        BridgeIsolation_Satisfied_def isolation_text_def Let_def)
qed

lemma run_iso_Apply:
  assumes "is_hookscript s = []" and "is_running s"
  shows "\<exists>s'. run_state (BridgeIsolation_Apply iso_world demo_ssh_target demo_iso) s = (None, s')"
proof -
  have wrote: "\<exists>s'. run_state (Ssh_WriteFile iso_world (snippet_path b f) c ''0755'') s = (Inr (), s') \<and> sess.more s' = sess.more s"
    if "snippet_path b f \<noteq> []" for b f c :: string and s :: bridgeiso
    using that by (simp add: Ssh_WriteFile_def ssh_run_def run_perform iso_world_def write_answer_def)
  have "snippet_path ''/var/lib/vz'' (snippetFilename demo_iso) \<noteq> []" by code_simp
  note wrote = run_iso_ssh [OF wrote [OF this]]
  have isolate: "\<exists>s'. run_state (Ssh_SetBridgePortIsolated iso_world (TapDeviceName 7 0) True) s = (Inr (), s') \<and> sess.more s' = sess.more s"
    for s :: bridgeiso
    by (simp add: Ssh_SetBridgePortIsolated_def TapDeviceName_def ssh_run_def run_perform iso_world_def isolate_answer_def Let_def)
  let ?s1 = "s\<lparr>log := log s @ [EStoragePath (sconfig_path ''local'') (Inr ''/var/lib/vz'')]\<rparr>"
  have path: "run_state (GetStorageConfigPath iso_world ''local'') s = (Inr ''/var/lib/vz'', ?s1)"
    by (simp add: GetStorageConfigPath_def pc_spath_def run_perform iso_world_def)
  obtain s2 where s2: "run_state (withSSH iso_world demo_ssh_target (Ssh_WriteFile iso_world (snippet_path ''/var/lib/vz'' (snippetFilename demo_iso))
      (scriptContent demo_iso) ''0755'')) ?s1 = (Inr (), s2)" "sess.more s2 = sess.more ?s1" using wrote by blast
  have up: "run_state (UploadSnippet iso_world demo_ssh_target ''local'' (snippetFilename demo_iso) (scriptContent demo_iso)) s = (Inr (), s2)"
    using path s2(1) demo_iso_valid(2) by (simp add: UploadSnippet_def)
  let ?s3 = "is_applied_update (\<lambda>l. appendOnce l ''snippet'') s2"
  from more_iso [OF s2(2)] assms have s3: "is_hookscript ?s3 = []" "is_running ?s3" by simp_all
  have "run_state (SetVMConfigFieldCAS iso_world demo_ssh_target 7 ''hookscript'' v d) ?s3 =
      (None, ?s3\<lparr>log := log ?s3 @ [EHttp PUT (qemu_path ''pve1'' 7 ''/config'') (cas_form ''hookscript'' v d) (HAnswer 200 ''200 OK'' ''{}'' (Some (JObj ''{}'' [])))]\<rparr>)" for v d
    using hookscript_plain by (simp add: run_SetVMConfigFieldCAS ssh_target Let_def iso_world_def put_result_def)
  then obtain s4 where s4: "run_state (wire_hookscript iso_world demo_ssh_target demo_iso) ?s3 = (None, s4)"
    by (simp add: wire_hookscript_def State_Monad.get_def demo_iso_fields mark_iso_def modify_def)
  obtain s5 where "run_state (SetBridgePortIsolated iso_world demo_ssh_target (TapDeviceName 7 0) True) s4 = (Inr (), s5)"
    using run_iso_ssh [OF isolate] unfolding SetBridgePortIsolated_def by blast
  then show ?thesis
    using up s3 s4 demo_iso_valid(1,3)
    by (simp add: BridgeIsolation_Apply_def demo_iso_fields mark_iso_def modify_def State_Monad.get_def isolate_tap_def Let_def)
qed

lemma run_isolation: "\<exists>s' x. demo_isolation = (Inr x, s') \<and> Changed x"
proof -
  let ?oper = "BridgeIsolation iso_world demo_ssh_target demo_iso"
  obtain s1 where mut: "run_state (Mutation iso_world ''roster.yaml'' demo_key) iso_session =
      (Inr (kf_resource (filesFor ''roster.yaml'' demo_key)), s1)"
    by (simp add: Mutation_def ensureLockDir_def acquire_def Let_def primitive_defs run_simps iso_world_def iso_session_def)
  from run_iso_Read [of s1] obtain cur s2 where rd: "run_state (op_Read ?oper) s1 = (Inr cur, s2)"
    and unsat: "\<not> op_Satisfied ?oper s2 cur" and s2: "is_hookscript s2 = []" "is_running s2"
    by (auto simp: BridgeIsolation_def)
  from run_iso_Apply [OF s2] obtain s3 where ap: "run_state (op_Apply ?oper) s2 = (None, s3)" by (auto simp: BridgeIsolation_def)
  obtain a s5 where rr: "run_state (case op_ReRead ?oper of None \<Rightarrow> op_Read ?oper | Some m \<Rightarrow> m) s3 = (a, s5)" by force
  have chk: "run_state (run_check demo_key '': post-apply check: '' (op_PostApply ?oper)) s5 = (None, s5)"
    by (simp add: run_check_def BridgeIsolation_def)
  obtain x where "run_state (attempts (maxConflictRetries - 1) demo_key ?oper False) s1 = (Inr x, s5)" "Changed x"
    using run_attempts_applied [OF rd disjI2 [OF unsat] ap rr chk] by blast
  moreover obtain u s6 where "run_state (unlock iso_world (kf_resource (filesFor ''roster.yaml'' demo_key))) s5 = (u, s6)" by force
  ultimately show ?thesis using mut by (simp add: Run_def)
qed

theorem BridgeIsolation_ordered_witness:
  "\<exists>es. log (snd demo_isolation) = es \<and>
    (\<forall>before e after. es = before @ e # after \<longrightarrow> is_write e \<longrightarrow>
       (\<exists>hist st c mid. before = hist @ EStatus (qemu_path ''pve1'' 7 ''/status/current'') (Inr st) #
            EConfig (qemu_path ''pve1'' 7 ''/config'') (Inr (Some c)) # mid \<and>
          list_all (\<lambda>e. \<not> is_config_read e) mid \<and>
          bridge_step ''pve1'' demo_iso (vc_hookscript c) (vc_digest c) (vs_status st = ''running'') mid e))"
proof -
  have "log iso_session = []" by (simp add: iso_session_def)
  with BridgeIsolation_ordered [of iso_world "''roster.yaml''" demo_key demo_ssh_target demo_iso False iso_session
      "fst demo_isolation" "snd demo_isolation"] show ?thesis by (simp add: ssh_target demo_iso_fields)
qed

theorem BridgeIsolation_success_witness:
  "\<exists>pre c mid fs post. log (snd demo_isolation) = pre @
      EConfig (qemu_path ''pve1'' 7 ''/config'') (Inr (Some c)) # mid @ fs @ post \<and>
    uploaded demo_iso fs \<and> (vc_hookscript c = wantedHookscript demo_iso \<or> wired ''pve1'' demo_iso (vc_digest c) fs)"
proof -
  obtain s' x where run: "demo_isolation = (Inr x, s')" "Changed x" using run_isolation by blast
  have "log iso_session = []" by (simp add: iso_session_def)
  with BridgeIsolation_success [OF run(1)] run(2) obtain pre st c mid fs post where
    "log s' = (pre @ [EStatus (qemu_path ''pve1'' 7 ''/status/current'') (Inr st)]) @
      EConfig (qemu_path ''pve1'' 7 ''/config'') (Inr (Some c)) # mid @ fs @ post" "uploaded demo_iso fs"
    "vc_hookscript c = wantedHookscript demo_iso \<or> wired ''pve1'' demo_iso (vc_digest c) fs"
    by (auto simp: ssh_target demo_iso_fields)
  then show ?thesis unfolding run(1) snd_conv by blast
qed

theorem BridgeIsolation_Wrote_iff_witness:
  "\<exists>es. log (snd (run_state (BridgeIsolation_Apply iso_world demo_ssh_target demo_iso) iso_session)) = es \<and>
     (BridgeIsolation_Wrote (snd (run_state (BridgeIsolation_Apply iso_world demo_ssh_target demo_iso) iso_session)) \<longleftrightarrow>
        uploaded demo_iso es)"
proof -
  have "log iso_session = []" "\<not> BridgeIsolation_Wrote iso_session" by (simp_all add: iso_session_def BridgeIsolation_Wrote_def)
  with BridgeIsolation_Wrote_iff [OF surjective_pairing, of iso_world demo_ssh_target demo_iso iso_session] show ?thesis by auto
qed

end
