(* ===== verification/AccessLists.thy ===== *)
theory AccessLists
  imports Access KvRender LinkLayer
begin

text \<open>
  PVE's users, groups and ACL entries (\<open>internal/pve/access.go\<close>), as both the REST lists and root's
  \<open>pveum \<dots> list\<close> print them.  The lists are decoded strictly: a field that a decision rests on is never
  taken from a default.
\<close>

record access_user =
  au_userid :: string
  au_enabled :: bool
  au_comment :: string
  au_email :: string
  au_groups :: "string list"
  au_listed :: bool

record access_group =
  ag_groupid :: string
  ag_comment :: string
  ag_users :: "string list"
  ag_listed :: bool

record acl_entry =
  ac_path :: string
  ac_role :: string
  ac_type :: string
  ac_ugid :: string
  ac_propagate :: bool

section \<open>Fields\<close>

definition field_error :: "frag list \<Rightarrow> gerror" where
  "field_error what = Errorf (what @ [Lit '': '', Wrapped (Sentinel ErrUnverifiableRead)])"

definition requiredString :: "json gomap \<Rightarrow> string \<Rightarrow> gerror + string" where
  "requiredString e key =
     (case map_of e key of
        None \<Rightarrow> Inl (field_error [Lit ''no '', Quo key, Lit '' field''])
      | Some v \<Rightarrow>
          (case unmarshal_string v of
             None \<Rightarrow> Inl (field_error [Quo key, Lit '' is not a non-empty string''])
           | Some s \<Rightarrow> if s = [] then Inl (field_error [Quo key, Lit '' is not a non-empty string'']) else Inr s))"

definition optionalString :: "json gomap \<Rightarrow> string \<Rightarrow> gerror + string" where
  "optionalString e key =
     (case map_of e key of
        None \<Rightarrow> Inr []
      | Some v \<Rightarrow>
          if raw_text v = ''null'' then Inr []
          else (case unmarshal_string v of
              None \<Rightarrow> Inl (field_error [Quo key, Lit '' is not a string''])
            | Some s \<Rightarrow> Inr s))"

definition requiredBool :: "json gomap \<Rightarrow> string \<Rightarrow> gerror + bool" where
  "requiredBool e key =
     (case map_of e key of
        None \<Rightarrow> Inl (field_error [Lit ''no '', Quo key, Lit '' field''])
      | Some v \<Rightarrow>
          let t = strings_TrimSpace (raw_text v) in
          if t = ''1'' \<or> t = ''true'' then Inr True
          else if t = ''0'' \<or> t = ''false'' then Inr False
          else Inl (field_error [Quo key, Lit '' is '', Lit (raw_text v), Lit '', not 0 or 1'']))"

fun repeated_from :: "string list \<Rightarrow> string list \<Rightarrow> string" where
  "repeated_from seen [] = []"
| "repeated_from seen (v # vs) = (if v \<in> set seen then v else repeated_from (v # seen) vs)"

definition repeated :: "string list \<Rightarrow> string" where
  "repeated list = repeated_from [] list"

definition optionalList :: "json gomap \<Rightarrow> string \<Rightarrow> gerror + string list" where
  "optionalList e key =
     (case map_of e key of
        None \<Rightarrow> Inr []
      | Some v \<Rightarrow>
          if raw_text v = ''null'' then Inr []
          else (case unmarshal_string v of
              Some s \<Rightarrow> Inr (if s = [] then [] else strings_Split s CHR '','')
            | None \<Rightarrow>
                (case unmarshal_strings v of
                   None \<Rightarrow> Inl (field_error [Quo key, Lit '' is neither a string nor a list of strings''])
                 | Some list \<Rightarrow> Inr list)))"

text \<open>Whether an entry carries a list at all, possibly an empty one.\<close>

definition carries :: "json gomap \<Rightarrow> string \<Rightarrow> bool" where
  "carries e key \<longleftrightarrow> (case map_of e key of None \<Rightarrow> False | Some v \<Rightarrow> raw_text v \<noteq> ''null'')"

section \<open>Lists\<close>

fun object_entries :: "string \<Rightarrow> int \<Rightarrow> (bool \<times> json gomap) list \<Rightarrow> gerror + json gomap list" where
  "object_entries what i [] = Inr []"
| "object_entries what i ((notnil, e) # es) =
     (if \<not> notnil then Inl (field_error [Lit what, Lit '': entry '', Dec i, Lit '' is null''])
      else map_sum id ((#) e) (object_entries what (i + 1) es))"

text \<open>
  The answer is the value of a REST read, or what a command printed; the latter is trimmed, must begin as an array,
  and is then decoded.
\<close>

definition access_entries :: "string \<Rightarrow> json \<Rightarrow> gerror + json gomap list" where
  "access_entries what raw =
     (case raw of
        JArr t xs \<Rightarrow>
          if list_all (\<lambda>x. unmarshal_map x \<noteq> None) xs then object_entries what 0 (map (\<lambda>x. the (unmarshal_map x)) xs)
          else Inl (field_error [Lit what, Lit '': the answer is not an array of objects''])
      | _ \<Rightarrow> Inl (field_error [Lit what, Lit '': the answer is not a JSON array'']))"

definition parseAccessArray :: "string \<Rightarrow> string \<Rightarrow> gerror + json gomap list" where
  "parseAccessArray what raw =
     (let s = strings_TrimSpace raw in
      if \<not> strings_HasPrefix s ''['' then Inl (field_error [Lit what, Lit '': the answer is not a JSON array''])
      else case json_Unmarshal s of
          None \<Rightarrow> Inl (field_error [Lit what, Lit '': the answer is not an array of objects''])
        | Some j \<Rightarrow> access_entries what j)"

definition entry_failure :: "string \<Rightarrow> frag \<Rightarrow> gerror \<Rightarrow> gerror" where
  "entry_failure what which e = Errorf [Lit what, Lit '' entry '', which, Lit '': '', Wrapped e]"

definition user_entry :: "string \<Rightarrow> json gomap \<Rightarrow> gerror + access_user" where
  "user_entry uid e =
     (let failed = (\<lambda>x. Inl (entry_failure ''user list'' (Lit uid) x)) in
      case requiredBool e ''enable'' of
        Inl x \<Rightarrow> failed x
      | Inr en \<Rightarrow>
          (case optionalString e ''comment'' of
             Inl x \<Rightarrow> failed x
           | Inr comment \<Rightarrow>
               (case optionalString e ''email'' of
                  Inl x \<Rightarrow> failed x
                | Inr email \<Rightarrow>
                    (case optionalList e ''groups'' of
                       Inl x \<Rightarrow> failed x
                     | Inr groups \<Rightarrow>
                         if repeated groups \<noteq> [] then
                           Inl (Errorf [Lit ''user list entry '', Lit uid, Lit '': group '', Lit (repeated groups),
                             Lit '' is listed twice: '', Wrapped (Sentinel ErrUnverifiableRead)])
                         else Inr \<lparr>au_userid = uid, au_enabled = en, au_comment = comment, au_email = email,
                                   au_groups = groups, au_listed = carries e ''groups''\<rparr>))))"

fun users_from :: "int \<Rightarrow> string list \<Rightarrow> json gomap list \<Rightarrow> gerror + access_user list" where
  "users_from i seen [] = Inr []"
| "users_from i seen (e # es) =
     (case requiredString e ''userid'' of
        Inl x \<Rightarrow> Inl (entry_failure ''user list'' (Dec i) x)
      | Inr uid \<Rightarrow>
          if uid \<in> set seen then
            Inl (Errorf [Lit ''user list: user '', Lit uid, Lit '' is listed twice: '', Wrapped (Sentinel ErrUnverifiableRead)])
          else case user_entry uid e of
              Inl x \<Rightarrow> Inl x
            | Inr u \<Rightarrow> map_sum id ((#) u) (users_from (i + 1) (uid # seen) es))"

definition group_entry :: "string \<Rightarrow> json gomap \<Rightarrow> gerror + access_group" where
  "group_entry gid e =
     (let failed = (\<lambda>x. Inl (entry_failure ''group list'' (Lit gid) x)) in
      case optionalString e ''comment'' of
        Inl x \<Rightarrow> failed x
      | Inr comment \<Rightarrow>
          (case optionalList e ''users'' of
             Inl x \<Rightarrow> failed x
           | Inr users \<Rightarrow> Inr \<lparr>ag_groupid = gid, ag_comment = comment, ag_users = users, ag_listed = carries e ''users''\<rparr>))"

fun groups_from :: "int \<Rightarrow> string list \<Rightarrow> json gomap list \<Rightarrow> gerror + access_group list" where
  "groups_from i seen [] = Inr []"
| "groups_from i seen (e # es) =
     (case requiredString e ''groupid'' of
        Inl x \<Rightarrow> Inl (entry_failure ''group list'' (Dec i) x)
      | Inr gid \<Rightarrow>
          if gid \<in> set seen then
            Inl (Errorf [Lit ''group list: group '', Lit gid, Lit '' is listed twice: '', Wrapped (Sentinel ErrUnverifiableRead)])
          else case group_entry gid e of
              Inl x \<Rightarrow> Inl x
            | Inr g \<Rightarrow> map_sum id ((#) g) (groups_from (i + 1) (gid # seen) es))"

definition acl_of_entry :: "int \<Rightarrow> json gomap \<Rightarrow> gerror + acl_entry" where
  "acl_of_entry i e =
     (let failed = (\<lambda>x. Inl (entry_failure ''acl list'' (Dec i) x)) in
      case requiredString e ''path'' of
        Inl x \<Rightarrow> failed x
      | Inr path \<Rightarrow>
          (case requiredString e ''roleid'' of
             Inl x \<Rightarrow> failed x
           | Inr role \<Rightarrow>
               (case requiredString e ''type'' of
                  Inl x \<Rightarrow> failed x
                | Inr kind \<Rightarrow>
                    if kind \<noteq> ''user'' \<and> kind \<noteq> ''group'' \<and> kind \<noteq> ''token'' then
                      Inl (Errorf [Lit ''acl list entry '', Dec i, Lit '': type '', Quo kind, Lit '' is not user, group or token: '',
                        Wrapped (Sentinel ErrUnverifiableRead)])
                    else (case requiredString e ''ugid'' of
                        Inl x \<Rightarrow> failed x
                      | Inr ugid \<Rightarrow>
                          (case requiredBool e ''propagate'' of
                             Inl x \<Rightarrow> failed x
                           | Inr prop' \<Rightarrow> Inr \<lparr>ac_path = path, ac_role = role, ac_type = kind, ac_ugid = ugid, ac_propagate = prop'\<rparr>)))))"

fun acls_from :: "int \<Rightarrow> json gomap list \<Rightarrow> gerror + acl_entry list" where
  "acls_from i [] = Inr []"
| "acls_from i (e # es) =
     (case acl_of_entry i e of
        Inl x \<Rightarrow> Inl x
      | Inr a \<Rightarrow> map_sum id ((#) a) (acls_from (i + 1) es))"

definition users_of :: "gerror + json gomap list \<Rightarrow> gerror + access_user list" where
  "users_of r = (case r of Inl e \<Rightarrow> Inl e | Inr es \<Rightarrow> users_from 0 [] es)"

definition groups_of :: "gerror + json gomap list \<Rightarrow> gerror + access_group list" where
  "groups_of r = (case r of Inl e \<Rightarrow> Inl e | Inr es \<Rightarrow> groups_from 0 [] es)"

definition ParseAccessUsers :: "string \<Rightarrow> gerror + access_user list" where
  "ParseAccessUsers raw = users_of (parseAccessArray ''user list'' raw)"

definition ParseAccessGroups :: "string \<Rightarrow> gerror + access_group list" where
  "ParseAccessGroups raw = groups_of (parseAccessArray ''group list'' raw)"

definition ParseACLEntries :: "string \<Rightarrow> gerror + acl_entry list" where
  "ParseACLEntries raw =
     (case parseAccessArray ''acl list'' raw of Inl e \<Rightarrow> Inl e | Inr es \<Rightarrow> acls_from 0 es)"

section \<open>The lists over REST\<close>

definition Client_ListUsers :: "env \<Rightarrow> ('r sess_scheme, gerror + access_user list) state" where
  "Client_ListUsers env = do {
     r \<leftarrow> RawRequest env GET ''/access/users'' [(''full'', [''1''])];
     ret (case r of
         Inl e \<Rightarrow> Inl (Errorf [Lit ''list users: '', Wrapped e])
       | Inr raw \<Rightarrow> users_of (access_entries ''user list'' raw))
   }"

definition Client_ListGroups :: "env \<Rightarrow> ('r sess_scheme, gerror + access_group list) state" where
  "Client_ListGroups env = do {
     r \<leftarrow> RawRequest env GET ''/access/groups'' [];
     ret (case r of
         Inl e \<Rightarrow> Inl (Errorf [Lit ''list groups: '', Wrapped e])
       | Inr raw \<Rightarrow> groups_of (access_entries ''group list'' raw))
   }"

section \<open>Principals\<close>

text \<open>
  The patterns, on bytes: their negated classes let every byte of a non-ASCII rune through, and their
  space class is the ASCII one without the vertical tab.
\<close>

definition re_space :: "char \<Rightarrow> bool" where
  "re_space c \<longleftrightarrow> c \<in> {CHR 0x09, CHR 0x0A, CHR 0x0C, CHR 0x0D, CHR 0x20}"

definition letter :: "char \<Rightarrow> bool" where
  "letter c \<longleftrightarrow> is_lower c \<or> is_upper c"

definition name_from_letter :: "string \<Rightarrow> bool" where
  "name_from_letter s \<longleftrightarrow> (case s of c # d # cs \<Rightarrow> letter c \<and> list_all id_char (d # cs) | _ \<Rightarrow> False)"

definition userIDRE :: "string \<Rightarrow> bool" where
  "userIDRE s \<longleftrightarrow>
     (case strings_Cut s CHR ''@'' of
        (name, realm, ok) \<Rightarrow>
          ok \<and> name \<noteq> [] \<and> hd name \<noteq> CHR ''-'' \<and>
          list_all (\<lambda>c. \<not> re_space c \<and> c \<noteq> CHR '':'' \<and> c \<noteq> CHR ''/'') name \<and> name_from_letter realm)"

definition groupIDRE :: "string \<Rightarrow> bool" where
  "groupIDRE s \<longleftrightarrow> (case s of [] \<Rightarrow> False | c # cs \<Rightarrow> id_char c \<and> c \<noteq> CHR ''-'' \<and> list_all id_char cs)"

definition tokenNameRE :: "string \<Rightarrow> bool" where
  "tokenNameRE s \<longleftrightarrow> name_from_letter s"

definition hasSpaceOrControl :: "string \<Rightarrow> bool" where
  "hasSpaceOrControl s \<longleftrightarrow> list_ex (\<lambda>r. isSpace r \<or> isControl r) (runes s)"

definition principal_error :: "frag list \<Rightarrow> gerror" where
  "principal_error what = Errorf ([Wrapped (Sentinel ErrInvalidPrincipal), Lit '': ''] @ what)"

definition CheckUserID :: "string \<Rightarrow> gerror option" where
  "CheckUserID uid =
     (if \<not> userIDRE uid \<or> hasSpaceOrControl uid then
        Some (principal_error [Quo uid, Lit '' is not a user id (<name>@<realm>)''])
      else None)"

definition CheckGroupID :: "string \<Rightarrow> gerror option" where
  "CheckGroupID gid = (if \<not> groupIDRE gid then Some (principal_error [Quo gid, Lit '' is not a group id'']) else None)"

definition CheckTokenID :: "string \<Rightarrow> gerror option" where
  "CheckTokenID tid =
     (case strings_Cut tid CHR ''!'' of
        (user, name, ok) \<Rightarrow>
          if \<not> ok \<or> CheckUserID user \<noteq> None \<or> \<not> tokenNameRE name then
            Some (principal_error [Quo tid, Lit '' is not a token id (<name>@<realm>!<tokenname>)''])
          else None)"

section \<open>What a list that was accepted is\<close>

text \<open>
  The types of the entries: named once, and nothing a decision needs left to a default.  A user's groups are distinct
  unless the empty name, which PVE gives to none, is among them twice.
\<close>

definition wf_groups_of_user :: "string list \<Rightarrow> bool" where
  "wf_groups_of_user gs \<longleftrightarrow> distinct gs \<or> 2 \<le> count_list gs []"

definition wf_users :: "access_user list \<Rightarrow> bool" where
  "wf_users us \<longleftrightarrow> distinct (map au_userid us) \<and>
     list_all (\<lambda>u. au_userid u \<noteq> [] \<and> wf_groups_of_user (au_groups u) \<and> (\<not> au_listed u \<longrightarrow> au_groups u = [])) us"

definition wf_groups :: "access_group list \<Rightarrow> bool" where
  "wf_groups gs \<longleftrightarrow> distinct (map ag_groupid gs) \<and>
     list_all (\<lambda>g. ag_groupid g \<noteq> [] \<and> (\<not> ag_listed g \<longrightarrow> ag_users g = [])) gs"

definition wf_acls :: "acl_entry list \<Rightarrow> bool" where
  "wf_acls as \<longleftrightarrow> list_all (\<lambda>a. ac_path a \<noteq> [] \<and> ac_role a \<noteq> [] \<and> ac_ugid a \<noteq> [] \<and>
     ac_type a \<in> {''user'', ''group'', ''token''}) as"

lemma requiredString_Inr: "requiredString e key = Inr s \<Longrightarrow> s \<noteq> []"
  by (auto simp: requiredString_def split: option.splits if_splits)

lemma repeated_from_Nil:
  "repeated_from seen xs = [] \<Longrightarrow>
     distinct xs \<and> set xs \<inter> set seen = {} \<or> [] \<in> set seen \<and> [] \<in> set xs \<or> 2 \<le> count_list xs []"
proof (induction seen xs rule: repeated_from.induct)
  case (2 seen v vs)
  have in_count: "[] \<in> set vs \<Longrightarrow> 1 \<le> count_list vs []" by (metis One_nat_def Suc_leI count_list_0_iff gr0I)
  show ?case
  proof (cases "v \<in> set seen")
    case False
    with 2 have "distinct vs \<and> set vs \<inter> set (v # seen) = {} \<or> [] \<in> set (v # seen) \<and> [] \<in> set vs \<or> 2 \<le> count_list vs []" by simp
    with False in_count show ?thesis by auto
  qed (use 2 in auto)
qed simp

lemma repeated_Nil: "repeated gs = [] \<Longrightarrow> wf_groups_of_user gs"
  using repeated_from_Nil [of "[]" gs] by (auto simp: repeated_def wf_groups_of_user_def)

lemma optionalList_uncarried: "optionalList e key = Inr l \<Longrightarrow> \<not> carries e key \<Longrightarrow> l = []"
  by (auto simp: optionalList_def carries_def split: option.splits if_splits)

lemma user_entry_Inr:
  "user_entry uid e = Inr u \<Longrightarrow> au_userid u = uid \<and> wf_groups_of_user (au_groups u) \<and> (\<not> au_listed u \<longrightarrow> au_groups u = [])"
  by (auto simp: user_entry_def Let_def split: sum.splits if_splits dest: repeated_Nil optionalList_uncarried)

lemma users_from_wf:
  "users_from i seen es = Inr us \<Longrightarrow> wf_users us \<and> set (map au_userid us) \<inter> set seen = {}"
proof (induction i seen es arbitrary: us rule: users_from.induct)
  case (2 i seen e es)
  then obtain uid u vs where uid: "requiredString e ''userid'' = Inr uid" "uid \<notin> set seen" and u: "user_entry uid e = Inr u"
    and vs: "users_from (i + 1) (uid # seen) es = Inr vs" "us = u # vs"
    by (auto simp: map_sum_Inr split: sum.splits if_splits)
  from "2.IH" [OF uid u vs(1)] have "wf_users vs" "set (map au_userid vs) \<inter> set (uid # seen) = {}" by blast+
  with user_entry_Inr [OF u] requiredString_Inr [OF uid(1)] uid(2) show ?case
    by (auto simp: wf_users_def vs(2))
qed (simp add: wf_users_def)

lemma group_entry_Inr:
  "group_entry gid e = Inr g \<Longrightarrow> ag_groupid g = gid \<and> (\<not> ag_listed g \<longrightarrow> ag_users g = [])"
  by (auto simp: group_entry_def Let_def split: sum.splits dest: optionalList_uncarried)

lemma groups_from_wf:
  "groups_from i seen es = Inr gs \<Longrightarrow> wf_groups gs \<and> set (map ag_groupid gs) \<inter> set seen = {}"
proof (induction i seen es arbitrary: gs rule: groups_from.induct)
  case (2 i seen e es)
  then obtain gid g hs where gid: "requiredString e ''groupid'' = Inr gid" "gid \<notin> set seen" and g: "group_entry gid e = Inr g"
    and hs: "groups_from (i + 1) (gid # seen) es = Inr hs" "gs = g # hs"
    by (auto simp: map_sum_Inr split: sum.splits if_splits)
  from "2.IH" [OF gid g hs(1)] have "wf_groups hs" "set (map ag_groupid hs) \<inter> set (gid # seen) = {}" by blast+
  with group_entry_Inr [OF g] requiredString_Inr [OF gid(1)] gid(2) show ?case
    by (auto simp: wf_groups_def hs(2))
qed (simp add: wf_groups_def)

lemma acl_of_entry_Inr:
  "acl_of_entry i e = Inr a \<Longrightarrow> ac_path a \<noteq> [] \<and> ac_role a \<noteq> [] \<and> ac_ugid a \<noteq> [] \<and> ac_type a \<in> {''user'', ''group'', ''token''}"
  by (auto simp: acl_of_entry_def Let_def split: sum.splits if_splits dest: requiredString_Inr)

lemma acls_from_wf: "acls_from i es = Inr as \<Longrightarrow> wf_acls as"
  by (induction i es arbitrary: as rule: acls_from.induct)
    (auto simp: wf_acls_def map_sum_Inr split: sum.splits dest: acl_of_entry_Inr)

subsection \<open>What an accepted entry shows of the answer\<close>

text \<open>
  The fields of an answer's entry, as the fields of the value read from it: a text that must be
  there, one that may be left out, a flag, and a list of names that is marked as carried exactly
  when the entry has the key with a value other than null.
\<close>

definition shows_text :: "json gomap \<Rightarrow> string \<Rightarrow> string \<Rightarrow> bool" where
  "shows_text e key s \<longleftrightarrow> s \<noteq> [] \<and> (\<exists>v. map_of e key = Some v \<and> unmarshal_string v = Some s)"

definition shows_note :: "json gomap \<Rightarrow> string \<Rightarrow> string \<Rightarrow> bool" where
  "shows_note e key s \<longleftrightarrow>
     (s = [] \<and> (\<forall>v. map_of e key = Some v \<longrightarrow> raw_text v = ''null'')) \<or>
     (\<exists>v. map_of e key = Some v \<and> raw_text v \<noteq> ''null'' \<and> unmarshal_string v = Some s)"

definition shows_flag :: "json gomap \<Rightarrow> string \<Rightarrow> bool \<Rightarrow> bool" where
  "shows_flag e key b \<longleftrightarrow>
     (\<exists>v. map_of e key = Some v \<and>
        strings_TrimSpace (raw_text v) \<in> (if b then {''1'', ''true''} else {''0'', ''false''}))"

definition shows_names :: "json gomap \<Rightarrow> string \<Rightarrow> bool \<Rightarrow> string list \<Rightarrow> bool" where
  "shows_names e key carried l \<longleftrightarrow>
     (carried \<longleftrightarrow> (\<exists>v. map_of e key = Some v \<and> raw_text v \<noteq> ''null'')) \<and>
     (if carried
      then \<exists>v. map_of e key = Some v \<and>
        (case unmarshal_string v of
           Some s \<Rightarrow> l = (if s = [] then [] else strings_Split s CHR '','')
         | None \<Rightarrow> unmarshal_strings v = Some l)
      else l = [])"

lemma requiredString_shows: "requiredString e key = Inr s \<Longrightarrow> shows_text e key s"
  by (auto simp: requiredString_def shows_text_def split: option.splits if_splits)

lemma optionalString_shows: "optionalString e key = Inr s \<Longrightarrow> shows_note e key s"
  by (auto simp: optionalString_def shows_note_def split: option.splits if_splits)

lemma requiredBool_shows: "requiredBool e key = Inr b \<Longrightarrow> shows_flag e key b"
  by (auto simp: requiredBool_def shows_flag_def Let_def split: option.splits if_splits)

lemma optionalList_shows: "optionalList e key = Inr l \<Longrightarrow> shows_names e key (carries e key) l"
  by (auto simp: optionalList_def shows_names_def carries_def split: option.splits if_splits)

lemmas entry_shows = requiredString_shows optionalString_shows requiredBool_shows optionalList_shows

definition user_shown :: "json gomap \<Rightarrow> access_user \<Rightarrow> bool" where
  "user_shown e u \<longleftrightarrow>
     shows_text e ''userid'' (au_userid u) \<and> shows_flag e ''enable'' (au_enabled u) \<and>
     shows_note e ''comment'' (au_comment u) \<and> shows_note e ''email'' (au_email u) \<and>
     shows_names e ''groups'' (au_listed u) (au_groups u)"

definition group_shown :: "json gomap \<Rightarrow> access_group \<Rightarrow> bool" where
  "group_shown e g \<longleftrightarrow>
     shows_text e ''groupid'' (ag_groupid g) \<and> shows_note e ''comment'' (ag_comment g) \<and>
     shows_names e ''users'' (ag_listed g) (ag_users g)"

definition acl_shown :: "json gomap \<Rightarrow> acl_entry \<Rightarrow> bool" where
  "acl_shown e a \<longleftrightarrow>
     shows_text e ''path'' (ac_path a) \<and> shows_text e ''roleid'' (ac_role a) \<and> shows_text e ''type'' (ac_type a) \<and>
     shows_text e ''ugid'' (ac_ugid a) \<and> shows_flag e ''propagate'' (ac_propagate a)"

lemma user_entry_shown:
  "requiredString e ''userid'' = Inr uid \<Longrightarrow> user_entry uid e = Inr u \<Longrightarrow> user_shown e u"
  by (auto simp: user_entry_def user_shown_def Let_def entry_shows split: sum.splits if_splits)

lemma group_entry_shown:
  "requiredString e ''groupid'' = Inr gid \<Longrightarrow> group_entry gid e = Inr g \<Longrightarrow> group_shown e g"
  by (auto simp: group_entry_def group_shown_def Let_def entry_shows split: sum.splits)

lemma acl_of_entry_shown: "acl_of_entry i e = Inr a \<Longrightarrow> acl_shown e a"
  by (auto simp: acl_of_entry_def acl_shown_def Let_def entry_shows split: sum.splits if_splits)

lemma lists_shown:
  "users_from i seen es = Inr us \<Longrightarrow> list_all2 user_shown es us"
  "groups_from i seen es = Inr gs \<Longrightarrow> list_all2 group_shown es gs"
  "acls_from i es = Inr as \<Longrightarrow> list_all2 acl_shown es as"
proof -
  show "users_from i seen es = Inr us \<Longrightarrow> list_all2 user_shown es us"
    by (induction i seen es arbitrary: us rule: users_from.induct)
      (auto simp: map_sum_Inr user_entry_shown split: sum.splits if_splits)
  show "groups_from i seen es = Inr gs \<Longrightarrow> list_all2 group_shown es gs"
    by (induction i seen es arbitrary: gs rule: groups_from.induct)
      (auto simp: map_sum_Inr group_entry_shown split: sum.splits if_splits)
  show "acls_from i es = Inr as \<Longrightarrow> list_all2 acl_shown es as"
    by (induction i es arbitrary: as rule: acls_from.induct)
      (auto simp: map_sum_Inr acl_of_entry_shown split: sum.splits)
qed

text \<open>
  C34: a list that the parsers accept is well formed and shows exactly what the answer holds.  No user
  or group is named twice or has an empty name, and every ACL entry names a path, a role and a
  principal of one of the three kinds.  The entries are those of the answer, one for one and in order,
  each with the values the answer gives it; a member list is marked as carried exactly when the
  answer's entry has the key with a value other than null, it then holds the names of that value, and
  it is empty otherwise.
\<close>

theorem access_lists_wf:
  "case_sum (\<lambda>_. True)
     (\<lambda>us. wf_users us \<and> (\<exists>es. parseAccessArray ''user list'' raw = Inr es \<and> list_all2 user_shown es us))
     (ParseAccessUsers raw) \<and>
   case_sum (\<lambda>_. True)
     (\<lambda>gs. wf_groups gs \<and> (\<exists>es. parseAccessArray ''group list'' raw = Inr es \<and> list_all2 group_shown es gs))
     (ParseAccessGroups raw) \<and>
   case_sum (\<lambda>_. True)
     (\<lambda>as. wf_acls as \<and> (\<exists>es. parseAccessArray ''acl list'' raw = Inr es \<and> list_all2 acl_shown es as))
     (ParseACLEntries raw)"
  by (auto simp: ParseAccessUsers_def ParseAccessGroups_def ParseACLEntries_def users_of_def groups_of_def
      split: sum.splits dest: users_from_wf groups_from_wf acls_from_wf lists_shown)

text \<open>
  The check for a group that is listed twice misses one when the empty name is repeated before it.
\<close>

theorem repeated_group_missed:
  "ParseAccessUsers (concat [''[{'', [CHR 0x22], ''userid'', [CHR 0x22], '':'', [CHR 0x22], ''a@pve'', [CHR 0x22], '','',
      [CHR 0x22], ''enable'', [CHR 0x22], '':1,'', [CHR 0x22], ''groups'', [CHR 0x22], '':'', [CHR 0x22], '',,ops,ops'', [CHR 0x22], ''}]'']) =
   Inr [\<lparr>au_userid = ''a@pve'', au_enabled = True, au_comment = [], au_email = [],
      au_groups = [[], [], ''ops'', ''ops''], au_listed = True\<rparr>]"
  by code_simp

end
