(* ===== verification/GrantSpec.thy ===== *)
theory GrantSpec
  imports Grants AccessLists
begin

text \<open>
  The grants that bootstrap and \<open>acl grant\<close> are given (\<open>internal/bootstrap/bootstrap.go\<close>, \<open>rotation.go\<close>,
  \<open>deps.go\<close>): their syntax, the normal form of their paths and PVE's whitelist of paths, and the role list they
  are checked against.
\<close>

section \<open>Paths of the access tree\<close>

fun collapse_slashes :: "string \<Rightarrow> string" where
  "collapse_slashes [] = []"
| "collapse_slashes (c # cs) =
     (if c = CHR ''/'' \<and> (case cs of d # ds \<Rightarrow> d = CHR ''/'' | [] \<Rightarrow> False) then collapse_slashes cs
      else c # collapse_slashes cs)"

definition normalizeACLPath :: "string \<Rightarrow> string option" where
  "normalizeACLPath p =
     (if p = [] \<or> p = ''0'' then None
      else
        let p1 = strings_TrimSuffix (collapse_slashes p) ''/'';
            p2 = (if p1 = [] then ''/'' else p1);
            p3 = (if strings_HasPrefix p2 ''/'' then p2 else CHR ''/'' # p2)
        in if p3 \<noteq> [] \<and> list_all acl_char p3 then Some p3 else None)"

definition id_segment :: "string \<Rightarrow> bool" where
  "id_segment w \<longleftrightarrow> w \<noteq> [] \<and> list_all id_char w"

definition alnum_segment :: "string \<Rightarrow> bool" where
  "alnum_segment w \<longleftrightarrow> w \<noteq> [] \<and> list_all is_alnum w"

text \<open>A number that does not begin with a zero, with from one to four digits, or with three or more.\<close>

definition tag_segment :: "string \<Rightarrow> bool" where
  "tag_segment w \<longleftrightarrow> (case w of d # ds \<Rightarrow> is_digit d \<and> d \<noteq> CHR ''0'' \<and> list_all is_digit ds \<and> length ds \<le> 3 | [] \<Rightarrow> False)"

definition vmid_segment :: "string \<Rightarrow> bool" where
  "vmid_segment w \<longleftrightarrow> (case w of d # ds \<Rightarrow> is_digit d \<and> d \<noteq> CHR ''0'' \<and> list_all is_digit ds \<and> length ds \<ge> 2 | [] \<Rightarrow> False)"

text \<open>The whitelist, on the segments after the leading slash.\<close>

definition sdn_segments :: "string list \<Rightarrow> bool" where
  "sdn_segments ws =
     (case ws of
        [] \<Rightarrow> True
      | [k] \<Rightarrow> k \<in> set [''controllers'', ''dns'', ''fabrics'', ''ipams'', ''prefix-lists'', ''route-maps'', ''zones'']
      | [k, w] \<Rightarrow>
          if k = ''controllers'' then w \<noteq> [] \<and> list_all (\<lambda>c. is_alnum c \<or> c = CHR ''_'' \<or> c = CHR ''-'') w
          else if k = ''zones'' then id_segment w
          else k \<in> set [''dns'', ''fabrics'', ''ipams'', ''prefix-lists'', ''route-maps''] \<and> alnum_segment w
      | [k, w, x] \<Rightarrow> k = ''zones'' \<and> id_segment w \<and> id_segment x
      | [k, w, x, y] \<Rightarrow> k = ''zones'' \<and> id_segment w \<and> id_segment x \<and> tag_segment y
      | _ \<Rightarrow> False)"

definition check_segments :: "string list \<Rightarrow> bool" where
  "check_segments segs =
     (case segs of
        [] \<Rightarrow> False
      | k # ws \<Rightarrow>
          if k = [] then ws = []
          else if k = ''access'' then
            ws = [] \<or> hd ws \<in> {''groups'', ''realm''} \<and> length ws \<le> 2 \<and> list_all id_segment (tl ws)
          else if k = ''nodes'' \<or> k = ''storage'' then length ws \<le> 1 \<and> list_all id_segment ws
          else if k = ''pool'' then length ws \<le> 3 \<and> list_all id_segment ws
          else if k = ''mapping'' then length ws \<le> 2 \<and> list_all id_segment ws
          else if k = ''vms'' then length ws \<le> 1 \<and> list_all vmid_segment ws
          else if k = ''sdn'' then sdn_segments ws
          else False)"

definition aclCheckPathRE :: "string \<Rightarrow> bool" where
  "aclCheckPathRE p \<longleftrightarrow> (case p of [] \<Rightarrow> False | c # cs \<Rightarrow> c = CHR ''/'' \<and> check_segments (strings_Split cs CHR ''/''))"

definition checkedACLPath :: "string \<Rightarrow> gerror + string" where
  "checkedACLPath p =
     (let refused = Inl (Errorf [Wrapped (Sentinel ErrInvalidACLPath), Lit '' '', Quo p,
            Lit '': PVE would refuse it (normalize_path/check_path)'']) in
      case normalizeACLPath p of
        None \<Rightarrow> refused
      | Some n \<Rightarrow> if aclCheckPathRE n then Inr n else refused)"

section \<open>Grants\<close>

definition grantHint :: string where
  "grantHint = ''PATH:ROLE[:PRIVS[:PROPAGATE]]''"

definition spec_error :: "string \<Rightarrow> frag list \<Rightarrow> gerror" where
  "spec_error spec what = invalid_grant ([Lit '': --grant '', Quo spec, Lit '': ''] @ what)"

definition parse_propagate :: "string \<Rightarrow> string option \<Rightarrow> gerror + bool" where
  "parse_propagate spec f =
     (case f of
        None \<Rightarrow> Inr False
      | Some t \<Rightarrow>
          if t = ''0'' then Inr False else if t = ''1'' then Inr True
          else Inl (spec_error spec [Lit ''PROPAGATE must be 0 or 1'']))"

definition parseGrant :: "string \<Rightarrow> gerror + grant" where
  "parseGrant spec =
     (let f = strings_Split spec CHR '':'' in
      if length f < 2 \<or> length f > 4 then Inl (spec_error spec [Lit ''want '', Lit grantHint])
      else if f ! 0 = [] \<or> f ! 1 = [] then
        Inl (spec_error spec [Lit ''PATH and ROLE are required ('', Lit grantHint, Lit '')''])
      else if length f \<ge> 3 \<and> (f ! 2 = ''0'' \<or> f ! 2 = ''1'') then
        Inl (spec_error spec [Lit (f ! 2), Lit '' is not a privilege name; to set propagate, use PATH:ROLE::'', Lit (f ! 2)])
      else case parse_propagate spec (if length f = 4 then Some (f ! 3) else None) of
          Inl e \<Rightarrow> Inl e
        | Inr p \<Rightarrow> Inr \<lparr>g_path = f ! 0, g_role = f ! 1, g_propagate = p,
            g_privs = (if length f \<ge> 3 \<and> f ! 2 \<noteq> [] then Some (strings_Split (f ! 2) CHR '','') else None)\<rparr>)"

fun normalize_paths :: "grant list \<Rightarrow> gerror + grant list" where
  "normalize_paths [] = Inr []"
| "normalize_paths (g # gs) =
     (case checkedACLPath (g_path g) of
        Inl e \<Rightarrow> Inl e
      | Inr p \<Rightarrow> map_sum id ((#) (g\<lparr>g_path := p\<rparr>)) (normalize_paths gs))"

definition normalizeGrants :: "grant list \<Rightarrow> gerror + grant list" where
  "normalizeGrants gs =
     (case normalize_paths gs of
        Inl e \<Rightarrow> Inl e
      | Inr out \<Rightarrow> (case CheckGrants out of Some e \<Rightarrow> Inl e | None \<Rightarrow> Inr out))"

fun parse_specs :: "string list \<Rightarrow> gerror + grant list" where
  "parse_specs [] = Inr []"
| "parse_specs (s # specs) =
     (case parseGrant s of Inl e \<Rightarrow> Inl e | Inr g \<Rightarrow> map_sum id ((#) g) (parse_specs specs))"

definition ParseGrants :: "string list \<Rightarrow> gerror + grant list" where
  "ParseGrants specs =
     (if specs = [] then Inl (invalid_grant [Lit '': bootstrap requires at least one --grant '', Lit grantHint])
      else case parse_specs specs of Inl e \<Rightarrow> Inl e | Inr gs \<Rightarrow> normalizeGrants gs)"

section \<open>The role list\<close>

text \<open>\<open>strings.Fields\<close>: the words between the runes that are white space.\<close>

fun fields_of :: "string list \<Rightarrow> string \<Rightarrow> string list" where
  "fields_of [] w = (if w = [] then [] else [w])"
| "fields_of (r # rs) w =
     (if isSpace r then (if w = [] then fields_of rs [] else w # fields_of rs [])
      else fields_of rs (w @ r))"

definition strings_Fields :: "string \<Rightarrow> string list" where
  "strings_Fields s = fields_of (runes s) []"

definition firstWords :: "string \<Rightarrow> string" where
  "firstWords cmd = strings_Join (take 4 (strings_Fields cmd)) CHR 0x20"

definition printed :: "string \<Rightarrow> frag list \<Rightarrow> gerror" where
  "printed cmd what = Errorf (Lit (firstWords cmd) # Lit '' printed '' # what)"

definition decodeJSONArray :: "string \<Rightarrow> string \<Rightarrow> (json option \<Rightarrow> 'e list option) \<Rightarrow> gerror + 'e list" where
  "decodeJSONArray cmd stdout decode =
     (let trimmed = strings_TrimSpace stdout in
      if trimmed = [] then Inl (printed cmd [Lit ''nothing (expected a JSON array)''])
      else if trimmed = ''null'' then Inl (printed cmd [Lit ''null (expected a JSON array)''])
      else if \<not> strings_HasPrefix trimmed ''['' then
        Inl (printed cmd [Dec (int (length trimmed)), Lit '' bytes that are not a JSON array''])
      else case decode (json_Unmarshal trimmed) of
          None \<Rightarrow> Inl (printed cmd [Dec (int (length trimmed)), Lit '' bytes that do not parse as the expected JSON array''])
        | Some xs \<Rightarrow> Inr xs)"

record role_entry =
  re_roleid :: string
  re_privs :: "string option"

fun role_fields :: "(string \<times> json) list \<Rightarrow> role_entry \<Rightarrow> role_entry option" where
  "role_fields [] e = Some e"
| "role_fields ((k, j) # kvs) e =
     Option.bind
       (if names_field ''roleid'' k then map_option (\<lambda>s. e\<lparr>re_roleid := s\<rparr>) (unmarshal_text (re_roleid e) j)
        else if names_field ''privs'' k then
          (case j of JNull \<Rightarrow> Some (e\<lparr>re_privs := None\<rparr>) | JStr s \<Rightarrow> Some (e\<lparr>re_privs := Some s\<rparr>) | _ \<Rightarrow> None)
        else Some e)
       (role_fields kvs)"

definition parseRolePrivs :: "string option \<Rightarrow> gerror + string list" where
  "parseRolePrivs privs =
     (case privs of
        None \<Rightarrow> Inl (ErrorString (''the role list entry has no '' @ strconv_Quote ''privs'' @ '' field''))
      | Some s \<Rightarrow>
          if s = [] then Inr []
          else if list_all privNameRE (strings_Split s CHR '','') then Inr (strings_Split s CHR '','')
          else Inl (ErrorString (''the role list'' @ [CHR 0x27] @ ''s '' @ strconv_Quote ''privs'' @ '' holds a name that is not a privilege name'')))"

definition setDiff :: "string list \<Rightarrow> string list \<Rightarrow> string list \<times> string list" where
  "setDiff a b = (sort (filter (\<lambda>x. x \<notin> set b) a), sort (filter (\<lambda>x. x \<notin> set a) b))"

fun roles_from :: "string list gomap \<Rightarrow> role_entry list \<Rightarrow> gerror + string list gomap" where
  "roles_from out [] = Inr out"
| "roles_from out (r # rs) =
     (if map_of out (re_roleid r) \<noteq> None then
        Inl (Errorf [Lit ''role list: role '', Lit (re_roleid r), Lit '' is listed twice: '', Wrapped (Sentinel ErrUnverifiableRead)])
      else case parseRolePrivs (re_privs r) of
          Inl e \<Rightarrow> Inl (Errorf [Lit ''role '', Lit (re_roleid r), Lit '': '', Wrapped e])
        | Inr privs \<Rightarrow> roles_from (AList.update (re_roleid r) privs out) rs)"


section \<open>What the parser accepts\<close>

lemma collapse_slashes_id: "\<not> strings_Contains p ''//'' \<Longrightarrow> collapse_slashes p = p"
  unfolding strings_Contains_def
proof (induction p)
  case (Cons c cs)
  then have "\<not> sublist ''//'' cs" by (simp add: sublist_Cons_right)
  moreover have "\<not> (c = CHR ''/'' \<and> (case cs of d # ds \<Rightarrow> d = CHR ''/'' | [] \<Rightarrow> False))"
    using Cons.prems by (auto simp: sublist_Cons_right split: list.splits)
  ultimately show ?case using Cons.IH by simp
qed simp

lemma Grant_Check_path:
  assumes "Grant_Check g = None"
  shows "aclPathRE (g_path g)" "\<not> strings_Contains (g_path g) ''//''" "g_path g = ''/'' \<or> \<not> strings_HasSuffix (g_path g) ''/''"
  using assms by (auto simp: Grant_Check_def split: if_splits)

lemma normalizeACLPath_checked: "Grant_Check g = None \<Longrightarrow> normalizeACLPath (g_path g) = Some (g_path g)"
  using Grant_Check_path [of g]
  by (auto simp: normalizeACLPath_def Let_def collapse_slashes_id aclPathRE_def acl_char_def strings_TrimSuffix_def
      strings_HasSuffix_def strings_HasPrefix_def split: list.splits)

lemma checkedACLPath_Inr: "checkedACLPath p = Inr q \<Longrightarrow> aclCheckPathRE q"
  by (auto simp: checkedACLPath_def Let_def split: option.splits if_splits)

lemma normalize_paths_Inr:
  "normalize_paths gs = Inr out \<Longrightarrow> length out = length gs \<and> list_all (\<lambda>g. aclCheckPathRE (g_path g)) out \<and>
     map (\<lambda>g. (g_role g, g_propagate g, g_privs g)) out = map (\<lambda>g. (g_role g, g_propagate g, g_privs g)) gs"
  by (induction gs arbitrary: out) (auto simp: map_sum_Inr split: sum.splits dest: checkedACLPath_Inr)

lemma normalize_paths_fixed:
  "list_all (\<lambda>g. aclCheckPathRE (g_path g) \<and> Grant_Check g = None) gs \<Longrightarrow> normalize_paths gs = Inr gs"
  by (induction gs) (auto simp: checkedACLPath_def normalizeACLPath_checked)

lemma normalizeGrants_Inr:
  assumes "normalizeGrants gs = Inr out"
  shows "normalizeGrants out = Inr out" "length out = length gs" "out \<noteq> []" "distinct (map g_path out)"
    "list_all (\<lambda>g. aclCheckPathRE (g_path g) \<and> Grant_Check g = None) out"
    "map (\<lambda>g. (g_role g, g_propagate g, g_privs g)) out = map (\<lambda>g. (g_role g, g_propagate g, g_privs g)) gs"
proof -
  from assms have out: "normalize_paths gs = Inr out" "CheckGrants out = None"
    by (auto simp: normalizeGrants_def split: sum.splits option.splits)
  then show all: "list_all (\<lambda>g. aclCheckPathRE (g_path g) \<and> Grant_Check g = None) out" "length out = length gs"
    "out \<noteq> []" "distinct (map g_path out)"
    "map (\<lambda>g. (g_role g, g_propagate g, g_privs g)) out = map (\<lambda>g. (g_role g, g_propagate g, g_privs g)) gs"
    using normalize_paths_Inr [OF out(1)] check_grants_from_None [of "[]" out]
    by (auto simp: CheckGrants_def Grant_Check_None list_all_iff split: if_splits)
  show "normalizeGrants out = Inr out"
    using normalize_paths_fixed [OF all(1)] out(2) by (simp add: normalizeGrants_def)
qed

lemma parse_specs_length: "parse_specs specs = Inr gs \<Longrightarrow> length gs = length specs"
  by (induction specs arbitrary: gs) (auto simp: map_sum_Inr split: sum.splits)

text \<open>
  What the parser of the grants accepts is in the normal form that every later check starts from: one grant
  per argument, on a path of PVE's whitelist, no two on one path, and normalizing it again changes nothing.
\<close>

theorem ParseGrants_normal:
  assumes "ParseGrants specs = Inr gs"
  shows "normalizeGrants gs = Inr gs \<and> length gs = length specs \<and> distinct (map g_path gs) \<and>
    (\<forall>g \<in> set gs. aclCheckPathRE (g_path g) \<and> Grant_Check g = None)"
proof -
  from assms obtain hs where "parse_specs specs = Inr hs" "normalizeGrants hs = Inr gs"
    by (auto simp: ParseGrants_def split: if_splits sum.splits)
  with normalizeGrants_Inr [OF this(2)] parse_specs_length show ?thesis by (auto simp: list_all_iff)
qed

theorem ParseGrants_normal_witness:
  "\<exists>gs. ParseGrants [''vms//100/:PVEVMUser'', ''/storage:R:Datastore.Audit,Datastore.Allocate:1''] = Inr gs \<and>
     normalizeGrants gs = Inr gs \<and> map g_path gs = [''/vms/100'', ''/storage'']"
proof -
  have "ParseGrants [''vms//100/:PVEVMUser'', ''/storage:R:Datastore.Audit,Datastore.Allocate:1''] =
    Inr [\<lparr>g_path = ''/vms/100'', g_role = ''PVEVMUser'', g_propagate = False, g_privs = None\<rparr>,
      \<lparr>g_path = ''/storage'', g_role = ''R'', g_propagate = True, g_privs = Some [''Datastore.Audit'', ''Datastore.Allocate'']\<rparr>]"
    by code_simp
  with ParseGrants_normal [OF this] show ?thesis by simp
qed

text \<open>A grant in the syntax of the arguments, every part stated.\<close>

definition grant_text :: "grant \<Rightarrow> string" where
  "grant_text g =
     strings_Join [g_path g, g_role g, strings_Join (case g_privs g of None \<Rightarrow> [] | Some ps \<Rightarrow> ps) CHR '','',
       if g_propagate g then ''1'' else ''0''] CHR '':''"

lemma colon_not_in:
  "aclPathRE p \<Longrightarrow> CHR '':'' \<notin> set p" "roleIDRE r \<Longrightarrow> CHR '':'' \<notin> set r" "privNameRE v \<Longrightarrow> CHR '':'' \<notin> set v \<and> CHR '','' \<notin> set v"
  by (auto simp: aclPathRE_def acl_char_def roleIDRE_def id_char_def privNameRE_def is_alnum_def is_digit_def list_all_iff
      split: list.splits)

lemma set_strings_Join: "set (strings_Join ws c) \<subseteq> insert c (\<Union> (set ` set ws))"
  by (induction ws c rule: strings_Join.induct) auto

lemma privNameRE_no_flag: "privNameRE v \<Longrightarrow> v \<noteq> [] \<and> v \<noteq> ''0'' \<and> v \<noteq> ''1''"
  by (auto simp: privNameRE_def)

lemma joined_names: "list_all privNameRE ps \<Longrightarrow> ps \<noteq> [] \<Longrightarrow> strings_Join ps CHR '','' \<notin> {[], ''0'', ''1''}"
  by (cases ps; cases "tl ps") (auto dest: privNameRE_no_flag simp: append_eq_Cons_conv)

text \<open>
  C38: every grant that passes the checks can be written as an argument: the text of all its parts parses back to
  exactly that grant.
\<close>

theorem parseGrant_roundtrip:
  assumes "Grant_Check g = None"
  shows "parseGrant (grant_text g) = Inr g"
proof -
  let ?ps = "case g_privs g of None \<Rightarrow> [] | Some ps \<Rightarrow> ps"
  let ?f = "[g_path g, g_role g, strings_Join ?ps CHR '','', if g_propagate g then ''1'' else ''0'']"
  from assms have ok: "aclPathRE (g_path g)" "roleIDRE (g_role g)" "list_all privNameRE ?ps" "g_privs g \<noteq> Some []"
    by (auto simp: Grant_Check_def check_privs_None split: if_splits)
  have "CHR '':'' \<notin> set (strings_Join ?ps CHR '','')"
    using set_strings_Join [of ?ps "CHR '',''"] ok(3) colon_not_in(3) by (fastforce simp: list_all_iff)
  then have split: "strings_Split (grant_text g) CHR '':'' = ?f"
    unfolding grant_text_def using colon_not_in(1) [OF ok(1)] colon_not_in(2) [OF ok(2)]
    by (intro strings_Split_Join) (auto split: if_splits)
  have ne: "g_path g \<noteq> []" "g_role g \<noteq> []" using ok(1,2) by (auto simp: aclPathRE_def roleIDRE_def)
  show ?thesis
  proof (cases "g_privs g")
    case None
    with ne show ?thesis by (simp add: parseGrant_def split parse_propagate_def)
  next
    case (Some ps)
    with ok joined_names [of ps] have "strings_Join ps CHR '','' \<notin> {[], ''0'', ''1''}" by auto
    moreover have "strings_Split (strings_Join ps CHR '','') CHR '','' = ps"
      using ok Some colon_not_in(3) by (intro strings_Split_Join) (auto simp: list_all_iff)
    ultimately show ?thesis using ne Some by (simp add: parseGrant_def split parse_propagate_def)
  qed
qed

theorem parseGrant_roundtrip_witness:
  "parseGrant ''/pool/dev:Builder:VM.Allocate,VM.Audit:1'' =
     Inr \<lparr>g_path = ''/pool/dev'', g_role = ''Builder'', g_propagate = True, g_privs = Some [''VM.Allocate'', ''VM.Audit'']\<rparr>"
proof -
  let ?g = "\<lparr>g_path = ''/pool/dev'', g_role = ''Builder'', g_propagate = True, g_privs = Some [''VM.Allocate'', ''VM.Audit'']\<rparr>"
  have "Grant_Check ?g = None" "grant_text ?g = ''/pool/dev:Builder:VM.Allocate,VM.Audit:1''" by code_simp+
  with parseGrant_roundtrip [of ?g] show ?thesis by simp
qed

end
