(* ===== verification/RootAccess.thy ===== *)
theory RootAccess
  imports GrantSpec Engine
begin

text \<open>
  Root's own channel for PVE's users, groups and ACLs (\<open>internal/bootstrap/access.go\<close>): reads and writes of
  \<open>pveum\<close> over an SSH session that is dialled on first use, the grant of an ACL, and the check before a user
  joins a group.  Every \<open>pveum\<close> command that changes something is a command event; one that only lists is a
  query event.  The transport and the operator's answer to the password prompt are parameters, and so is how
  Unicode folds a rune beyond ASCII.
\<close>

section \<open>The channel\<close>

record rootaccess = sess +
  ra_password :: string
  ra_resolved :: bool

text \<open>How a dial ends, by the history, the address, the user, the password or the key, and the fingerprint.\<close>

record transport =
  tr_password :: "event list \<Rightarrow> string \<Rightarrow> string \<Rightarrow> string \<Rightarrow> string \<Rightarrow> gerror option"
  tr_pinned :: "event list \<Rightarrow> string \<Rightarrow> string \<Rightarrow> string \<Rightarrow> string \<Rightarrow> gerror option"

record access_options =
  ao_addr :: string
  ao_user :: string
  ao_key :: string
  ao_fingerprint :: string
  ao_password :: "(event list \<Rightarrow> gerror + string) option"
  ao_rest :: bool
  ao_own_token :: string
  ao_fold :: "string \<Rightarrow> string"

definition ResolveCredentials :: "access_options \<Rightarrow> ('r rootaccess_scheme, gerror option) state" where
  "ResolveCredentials cfg = do {
     s \<leftarrow> State_Monad.get;
     case ao_password cfg of
       None \<Rightarrow> ret None
     | Some ask \<Rightarrow>
         if ra_resolved s then ret None
         else (case ask (log s) of
             Inl e \<Rightarrow> ret (Some e)
           | Inr pw \<Rightarrow> do {
               _ \<leftarrow> modify (ra_password_update (\<lambda>_. pw));
               _ \<leftarrow> modify (ra_resolved_update (\<lambda>_. True));
               ret None
             })
   }"

definition RootAccess_root :: "transport \<Rightarrow> access_options \<Rightarrow> ('r rootaccess_scheme, gerror option) state" where
  "RootAccess_root tr cfg = do {
     opened \<leftarrow> get_ssh_open;
     if opened then ret None
     else case ao_password cfg of
         Some _ \<Rightarrow> do {
           e \<leftarrow> ResolveCredentials cfg;
           case e of
             Some err \<Rightarrow> ret (Some err)
           | None \<Rightarrow> do {
               s \<leftarrow> State_Monad.get;
               d \<leftarrow> perform (\<lambda>h. tr_password tr h (ao_addr cfg) ''root'' (ra_password s) (ao_fingerprint cfg)) (EDial (ao_addr cfg));
               case d of
                 Some err \<Rightarrow> ret (Some (Errorf [Lit ''connect as root with the password: '', Wrapped err]))
               | None \<Rightarrow> do { _ \<leftarrow> set_ssh_open True; ret None }
             }
         }
       | None \<Rightarrow> do {
           d \<leftarrow> perform (\<lambda>h. tr_pinned tr h (ao_addr cfg) (ao_user cfg) (ao_key cfg) (ao_fingerprint cfg)) (EDial (ao_addr cfg));
           case d of
             Some err \<Rightarrow> ret (Some (Errorf [Lit ''connect as '', Lit (ao_user cfg), Lit '' with the stored key: '', Wrapped err]))
           | None \<Rightarrow> do { _ \<leftarrow> set_ssh_open True; ret None }
         }
   }"

text \<open>\<open>send\<close> is the event that the command is.\<close>

definition rootRun ::
    "transport \<Rightarrow> access_options \<Rightarrow> (string \<Rightarrow> ('r rootaccess_scheme, gerror + ssh_result) state) \<Rightarrow> string \<Rightarrow>
     ('r rootaccess_scheme, gerror + ssh_result) state" where
  "rootRun tr cfg send cmd = do {
     e \<leftarrow> RootAccess_root tr cfg;
     case e of
       Some err \<Rightarrow> ret (Inl err)
     | None \<Rightarrow> do {
         res \<leftarrow> send cmd;
         ret (map_sum (\<lambda>err. Errorf [Lit ''run '', Lit (firstWords cmd), Lit '': '', Wrapped err]) id res)
       }
   }"

definition pveum_answer :: "string \<Rightarrow> gerror + ssh_result \<Rightarrow> gerror + string" where
  "pveum_answer cmd r =
     (case r of
        Inl e \<Rightarrow> Inl e
      | Inr res \<Rightarrow>
          if sr_exit res \<noteq> 0 then
            Inl (Errorf [Lit (firstWords cmd), Lit '' exited '', Dec (sr_exit res), Lit '': '', Lit (strings_TrimSpace (sr_stderr res))])
          else Inr (sr_stdout res))"

definition pveum ::
    "transport \<Rightarrow> access_options \<Rightarrow> (string \<Rightarrow> ('r rootaccess_scheme, gerror + ssh_result) state) \<Rightarrow> string \<Rightarrow>
     ('r rootaccess_scheme, gerror + string) state" where
  "pveum tr cfg send cmd = do { r \<leftarrow> rootRun tr cfg send cmd; ret (pveum_answer cmd r) }"

definition writeOutcomeUnknown :: "gerror \<Rightarrow> bool" where
  "writeOutcomeUnknown e \<longleftrightarrow>
     \<not> errors_Is e ErrNoCommandSent \<and> (errors_Is e ErrCommandTimedOut \<or> errors_Is e CtxDeadlineExceeded)"

definition write_outcome :: "gerror + string \<Rightarrow> gerror option" where
  "write_outcome r =
     (case r of
        Inr _ \<Rightarrow> None
      | Inl e \<Rightarrow>
          if writeOutcomeUnknown e then Some (Errorf [Wrapped (Sentinel ErrRootWriteOutcomeUnknown), Lit '': '', Wrapped e])
          else Some e)"

definition pveumWrite ::
    "env \<Rightarrow> transport \<Rightarrow> access_options \<Rightarrow> string \<Rightarrow> ('r rootaccess_scheme, gerror option) state" where
  "pveumWrite env tr cfg cmd = do { r \<leftarrow> pveum tr cfg (ssh_run env) cmd; ret (write_outcome r) }"

section \<open>Users and groups\<close>

definition refusedByToken :: "gerror \<Rightarrow> bool" where
  "refusedByToken e \<longleftrightarrow> HTTPStatus e = Some 401 \<or> HTTPStatus e = Some 403"

definition user_list_command :: string where
  "user_list_command = ''pveum user list --full 1 --output-format json''"

definition group_list_command :: string where
  "group_list_command = ''pveum group list --output-format json''"

definition role_list_command :: string where
  "role_list_command = ''pveum role list --output-format json''"

definition acl_list_command :: string where
  "acl_list_command = ''pveum acl list --output-format json''"

definition rootUsers :: "env \<Rightarrow> transport \<Rightarrow> access_options \<Rightarrow> ('r rootaccess_scheme, gerror + access_user list) state" where
  "rootUsers env tr cfg = do {
     out \<leftarrow> pveum tr cfg (ssh_query env) user_list_command;
     ret (case out of Inl e \<Rightarrow> Inl e | Inr t \<Rightarrow> ParseAccessUsers t)
   }"

definition rootGroups :: "env \<Rightarrow> transport \<Rightarrow> access_options \<Rightarrow> ('r rootaccess_scheme, gerror + access_group list) state" where
  "rootGroups env tr cfg = do {
     out \<leftarrow> pveum tr cfg (ssh_query env) group_list_command;
     ret (case out of Inl e \<Rightarrow> Inl e | Inr t \<Rightarrow> ParseAccessGroups t)
   }"

definition rootACLs :: "env \<Rightarrow> transport \<Rightarrow> access_options \<Rightarrow> ('r rootaccess_scheme, gerror + acl_entry list) state" where
  "rootACLs env tr cfg = do {
     out \<leftarrow> pveum tr cfg (ssh_query env) acl_list_command;
     ret (case out of Inl e \<Rightarrow> Inl e | Inr t \<Rightarrow> ParseACLEntries t)
   }"

text \<open>The token's view first, root's when that is refused or there is no token.\<close>

definition token_view_first ::
    "access_options \<Rightarrow> ('s, gerror + 'a) state \<Rightarrow> ('s, gerror + 'a) state \<Rightarrow> ('s, gerror + 'a) state" where
  "token_view_first cfg rest root =
     (if ao_rest cfg then do {
        r \<leftarrow> rest;
        case r of
          Inr x \<Rightarrow> ret (Inr x)
        | Inl e \<Rightarrow> if refusedByToken e then root else ret (Inl e)
      }
      else root)"

definition RootAccess_ListUsers ::
    "env \<Rightarrow> transport \<Rightarrow> access_options \<Rightarrow> ('r rootaccess_scheme, gerror + access_user list) state" where
  "RootAccess_ListUsers env tr cfg = token_view_first cfg (Client_ListUsers env) (rootUsers env tr cfg)"

definition RootAccess_ListGroups ::
    "env \<Rightarrow> transport \<Rightarrow> access_options \<Rightarrow> ('r rootaccess_scheme, gerror + access_group list) state" where
  "RootAccess_ListGroups env tr cfg = token_view_first cfg (Client_ListGroups env) (rootGroups env tr cfg)"

record user_spec =
  us_userid :: string
  us_enable :: bool
  us_comment :: "string option"
  us_email :: "string option"
  us_groups :: "string list"

definition optional_flag :: "string \<Rightarrow> string option \<Rightarrow> string" where
  "optional_flag name v = (case v of None \<Rightarrow> [] | Some t \<Rightarrow> '' --'' @ name @ '' '' @ ShellQuote t)"

definition userFlags :: "user_spec \<Rightarrow> string" where
  "userFlags u =
     '' --enable '' @ (if us_enable u then ''1'' else ''0'') @ optional_flag ''comment'' (us_comment u) @
     optional_flag ''email'' (us_email u)"

definition groups_flag :: "user_spec \<Rightarrow> string" where
  "groups_flag u = (if us_groups u = [] then [] else '' --groups '' @ ShellQuote (strings_Join (us_groups u) CHR '',''))"

definition add_user_command :: "user_spec \<Rightarrow> string" where
  "add_user_command u = ''pveum user add '' @ ShellQuote (us_userid u) @ userFlags u @ groups_flag u"

definition modify_user_command :: "user_spec \<Rightarrow> string" where
  "modify_user_command u =
     ''pveum user modify '' @ ShellQuote (us_userid u) @ userFlags u @ groups_flag u @
     (if us_groups u = [] then [] else '' --append 1'')"

definition add_group_command :: "string \<Rightarrow> string option \<Rightarrow> string" where
  "add_group_command gid comment = ''pveum group add '' @ ShellQuote gid @ optional_flag ''comment'' comment"

definition modify_group_command :: "string \<Rightarrow> string \<Rightarrow> string" where
  "modify_group_command gid comment = ''pveum group modify '' @ ShellQuote gid @ '' --comment '' @ ShellQuote comment"

definition AddUser :: "env \<Rightarrow> transport \<Rightarrow> access_options \<Rightarrow> user_spec \<Rightarrow> ('r rootaccess_scheme, gerror option) state" where
  "AddUser env tr cfg u = pveumWrite env tr cfg (add_user_command u)"

definition ModifyUser :: "env \<Rightarrow> transport \<Rightarrow> access_options \<Rightarrow> user_spec \<Rightarrow> ('r rootaccess_scheme, gerror option) state" where
  "ModifyUser env tr cfg u = pveumWrite env tr cfg (modify_user_command u)"

definition AddGroup ::
    "env \<Rightarrow> transport \<Rightarrow> access_options \<Rightarrow> string \<Rightarrow> string option \<Rightarrow> ('r rootaccess_scheme, gerror option) state" where
  "AddGroup env tr cfg gid comment = pveumWrite env tr cfg (add_group_command gid comment)"

definition ModifyGroup ::
    "env \<Rightarrow> transport \<Rightarrow> access_options \<Rightarrow> string \<Rightarrow> string \<Rightarrow> ('r rootaccess_scheme, gerror option) state" where
  "ModifyGroup env tr cfg gid comment = pveumWrite env tr cfg (modify_group_command gid comment)"

section \<open>Roles\<close>

definition EscalatingPrivileges :: "string list" where
  "EscalatingPrivileges =
     [''Permissions.Modify'', ''User.Modify'', ''Sys.Modify'', ''Realm.Allocate'', ''Sys.Console'', ''VM.Monitor'',
      ''Realm.AllocateUser'', ''Datastore.Allocate'', ''Mapping.Modify'']"

definition escalating :: "string list \<Rightarrow> string list" where
  "escalating privs = filter (\<lambda>p. p \<in> set privs) EscalatingPrivileges"

definition roles_answer :: "string \<Rightarrow> gerror + string list gomap" where
  "roles_answer stdout =
     (case decodeJSONArray role_list_command stdout (decode_structs role_fields \<lparr>re_roleid = [], re_privs = None\<rparr>) of
        Inl e \<Rightarrow> Inl e
      | Inr roles \<Rightarrow> roles_from [] roles)"

definition allRolePrivs :: "env \<Rightarrow> transport \<Rightarrow> access_options \<Rightarrow> ('r rootaccess_scheme, gerror + string list gomap) state" where
  "allRolePrivs env tr cfg = do {
     out \<leftarrow> pveum tr cfg (ssh_query env) role_list_command;
     ret (case out of Inl e \<Rightarrow> Inl e | Inr t \<Rightarrow> roles_answer t)
   }"

definition pinned_mismatch :: "grant \<Rightarrow> string list \<Rightarrow> gerror option" where
  "pinned_mismatch g privs =
     (case g_privs g of
        None \<Rightarrow> None
      | Some pinned \<Rightarrow>
          (case setDiff pinned privs of
             (missing, extra) \<Rightarrow>
               if missing \<noteq> [] \<or> extra \<noteq> [] then
                 Some (Errorf [Wrapped (Sentinel ErrPinnedPrivsMismatch), Lit '': '', Lit (g_role g), Lit '' at '', Lit (g_path g),
                   Lit '': pinned but not in the role ['', Lit (strings_Join missing CHR '',''),
                   Lit ''], in the role but not pinned ['', Lit (strings_Join extra CHR '',''), Lit '']; nothing was granted''])
               else None))"

fun role_privs_from :: "string list gomap \<Rightarrow> string list gomap \<Rightarrow> grant list \<Rightarrow> gerror + string list gomap" where
  "role_privs_from all_roles out [] = Inr out"
| "role_privs_from all_roles out (g # want) =
     (case (case map_of out (g_role g) of
              Some privs \<Rightarrow> Inr privs
            | None \<Rightarrow>
                (case map_of all_roles (g_role g) of
                   None \<Rightarrow> Inl (Errorf [Wrapped (Sentinel ErrUnknownRole), Lit '': '', Quo (g_role g)])
                 | Some privs \<Rightarrow>
                     if privs = [] then Inl (Errorf [Wrapped (Sentinel ErrRoleHasNoPrivileges), Lit '': '', Lit (g_role g)])
                     else Inr privs)) of
        Inl e \<Rightarrow> Inl e
      | Inr privs \<Rightarrow>
          (case pinned_mismatch g privs of
             Some e \<Rightarrow> Inl e
           | None \<Rightarrow> role_privs_from all_roles (AList.update (g_role g) privs out) want))"

definition rolePrivs ::
    "env \<Rightarrow> transport \<Rightarrow> access_options \<Rightarrow> grant list \<Rightarrow> ('r rootaccess_scheme, gerror + string list gomap) state" where
  "rolePrivs env tr cfg want = do {
     all_roles \<leftarrow> allRolePrivs env tr cfg;
     ret (case all_roles of Inl e \<Rightarrow> Inl e | Inr roles \<Rightarrow> role_privs_from roles [] want)
   }"


section \<open>What a command leaves in the log\<close>

fun is_dial :: "event \<Rightarrow> bool" where
  "is_dial (EDial a d) = True"
| "is_dial _ = False"

lemma dial_reads: "is_dial e \<Longrightarrow> reads e"
  by (cases e) (auto simp: reads_def)

lemma dials_read: "list_all is_dial es \<Longrightarrow> list_all reads es"
  by (auto simp: list_all_iff intro: dial_reads)

lemma no_write_in_dials: "list_all is_dial ds \<Longrightarrow> filter is_write ds = []"
  by (induction ds) (auto elim: is_dial.elims)

lemma emits_dials:
  "emits is_dial (ResolveCredentials cfg)" "emits is_dial (RootAccess_root tr cfg)"
  unfolding ResolveCredentials_def RootAccess_root_def
  by (intro emits_intro emits_perform emits_bind [OF emits_get]; simp)+

lemma traces_rootRun:
  assumes "\<And>c. send c = perform (\<lambda>h. e_ssh env h c) (ev c)"
  shows "traces (rootRun tr cfg send cmd)
    (\<lambda>r es. \<exists>ds. list_all is_dial ds \<and>
       (es = ds \<and> (\<exists>e. r = Inl e) \<or>
        (\<exists>a. es = ds @ [ev cmd a] \<and>
           r = map_sum (\<lambda>err. Errorf [Lit ''run '', Lit (firstWords cmd), Lit '': '', Wrapped err]) id a)))"
  unfolding rootRun_def assms
proof (rule traces_bind [OF emits_dials(2) [unfolded emits_def]], rule traces_case_option, goal_cases)
  case (1 x es)
  then show ?case by (intro traces_bind [OF traces_perform [where T = "\<lambda>a es. es = [ev cmd a]"]] traces_return) auto
next
  case (2 x es e)
  then show ?case by (intro traces_return) auto
qed

definition command_ended :: "gerror + ssh_result \<Rightarrow> string \<Rightarrow> bool" where
  "command_ended a out \<longleftrightarrow> (\<exists>res. a = Inr res \<and> sr_exit res = 0 \<and> sr_stdout res = out)"

lemma pveum_answer_Inr: "pveum_answer cmd (map_sum f id a) = Inr out \<longleftrightarrow> command_ended a out"
  by (cases a) (auto simp: pveum_answer_def command_ended_def)

lemma traces_pveum:
  assumes "\<And>c. send c = perform (\<lambda>h. e_ssh env h c) (ev c)"
  shows "traces (pveum tr cfg send cmd)
    (\<lambda>r es. \<exists>ds. list_all is_dial ds \<and>
       (es = ds \<and> (\<exists>e. r = Inl e) \<or> (\<exists>a. es = ds @ [ev cmd a] \<and> (\<forall>out. r = Inr out \<longleftrightarrow> command_ended a out))))"
  unfolding pveum_def
  by (intro traces_bind [OF traces_rootRun [OF assms]] traces_return)
    (auto simp: pveum_answer_Inr, auto simp: pveum_answer_def)

lemmas traces_query = traces_pveum [of "ssh_query env" env EQuery, OF ssh_query_def] for env
lemmas traces_command = traces_pveum [of "ssh_run env" env ESsh, OF ssh_run_def] for env

text \<open>A list that root read, as it shows in the log.\<close>

definition listed :: "string \<Rightarrow> (string \<Rightarrow> gerror + 'a) \<Rightarrow> 'a \<Rightarrow> event \<Rightarrow> bool" where
  "listed cmd parse x e \<longleftrightarrow> (\<exists>res. e = EQuery cmd (Inr res) \<and> sr_exit res = 0 \<and> parse (sr_stdout res) = Inr x)"

definition list_read :: "string \<Rightarrow> (string \<Rightarrow> gerror + 'a) \<Rightarrow> gerror + 'a \<Rightarrow> event list \<Rightarrow> bool" where
  "list_read cmd parse r es \<longleftrightarrow>
     list_all reads es \<and> (\<forall>x. r = Inr x \<longrightarrow> (\<exists>ds e. es = ds @ [e] \<and> listed cmd parse x e))"

lemma traces_list:
  "traces (do { out \<leftarrow> pveum tr cfg (ssh_query env) cmd; ret (case out of Inl e \<Rightarrow> Inl e | Inr t \<Rightarrow> parse t) })
     (list_read cmd parse)"
proof (intro traces_bind [OF traces_query] traces_return, elim exE conjE disjE, goal_cases)
  case (1 x es ds)
  then show ?case by (auto simp: list_read_def dials_read)
next
  case (2 x es ds a)
  then show ?case
    by (auto simp: list_read_def listed_def dials_read reads_def command_ended_def split: sum.splits)
qed

lemmas traces_root_lists =
  traces_list [where cmd = user_list_command and parse = ParseAccessUsers, folded rootUsers_def]
  traces_list [where cmd = group_list_command and parse = ParseAccessGroups, folded rootGroups_def]
  traces_list [where cmd = acl_list_command and parse = ParseACLEntries, folded rootACLs_def]
  traces_list [where cmd = role_list_command and parse = roles_answer, folded allRolePrivs_def]

text \<open>A write is at most one command, and it succeeded exactly when that command ended with status 0.\<close>

definition write_sent :: "string \<Rightarrow> gerror option \<Rightarrow> event list \<Rightarrow> bool" where
  "write_sent cmd r es \<longleftrightarrow>
     (\<exists>ds. list_all is_dial ds \<and> (es = ds \<and> r \<noteq> None \<or> (\<exists>a. es = ds @ [ESsh cmd a] \<and> (r = None \<longleftrightarrow> (\<exists>out. command_ended a out)))))"

lemma traces_pveumWrite: "traces (pveumWrite env tr cfg cmd) (write_sent cmd)"
  unfolding pveumWrite_def
proof (intro traces_bind [OF traces_command] traces_return, elim exE conjE disjE, goal_cases)
  case (1 x es ds e)
  then show ?case by (auto simp: write_sent_def write_outcome_def)
next
  case (2 x es ds a)
  then show ?case
    by (cases x) (auto simp: write_sent_def write_outcome_def intro!: exI [of _ ds])
qed

section \<open>The outcome of a write\<close>

text \<open>The session: one dial, and only when it is not open yet.\<close>

lemma root_dials_once:
  assumes "run_state (RootAccess_root tr cfg) s = (x, s1)"
  shows "\<exists>ds. log s1 = log s @ ds \<and> list_all is_dial ds \<and> length ds \<le> 1 \<and> (ssh_open s \<longrightarrow> ds = [] \<and> x = None)"
  using assms
  by (auto simp: RootAccess_root_def ResolveCredentials_def get_ssh_open_def set_ssh_open_def State_Monad.get_def
      run_modify perform_def split: prod.splits option.splits sum.splits if_splits)

text \<open>An answer of the transport that the command, once it was sent, ran out of time: its own bound or the caller's.\<close>

definition ran_out_of_time :: "gerror \<Rightarrow> bool" where
  "ran_out_of_time x \<longleftrightarrow>
     (\<exists>t \<in> {ErrCommandTimedOut, CtxDeadlineExceeded}. errors_Is x t) \<and> \<not> errors_Is x ErrNoCommandSent"

lemma write_outcome_unknown:
  fixes a :: "gerror + ssh_result" and cmd w :: string
  defines "r \<equiv> write_outcome (pveum_answer cmd (map_sum (\<lambda>err. Errorf [Lit ''run '', Lit w, Lit '': '', Wrapped err]) id a))"
  shows "a = Inl x \<Longrightarrow> \<exists>e. r = Some e \<and>
           (errors_Is e ErrRootWriteOutcomeUnknown \<longleftrightarrow> ran_out_of_time x \<or> errors_Is x ErrRootWriteOutcomeUnknown)"
    and "a = Inr res \<Longrightarrow> r = Some e \<Longrightarrow> \<not> errors_Is e ErrRootWriteOutcomeUnknown"
    and "r = None \<longleftrightarrow> (\<exists>res. a = Inr res \<and> sr_exit res = 0)"
  unfolding r_def
  by (cases a; auto simp: write_outcome_def pveum_answer_def writeOutcomeUnknown_def ran_out_of_time_def split: if_splits)+

text \<open>
  C35: a write that root sends is at most one command after at most one dial, which is made only when the
  session is not open; with an open session the command is sent.  The write is reported as done exactly when the
  command ended with status 0.  A command that PVE refused is never reported as one whose outcome is unknown;
  one that was sent and then ran out of time, by its own bound or by the caller's deadline, always is; and no other
  failure of the command is.
\<close>

theorem pveumWrite_outcome:
  assumes "run_state (pveumWrite env tr cfg cmd) s = (r, s')"
  shows "\<exists>ds. list_all is_dial ds \<and> length ds \<le> 1 \<and> (ssh_open s \<longrightarrow> ds = []) \<and>
    (log s' = log s @ ds \<and> r \<noteq> None \<and> \<not> ssh_open s \<or>
     (\<exists>a. log s' = log s @ ds @ [ESsh cmd a] \<and> (r = None \<longleftrightarrow> (\<exists>res. a = Inr res \<and> sr_exit res = 0)) \<and>
        (\<forall>res e. a = Inr res \<longrightarrow> r = Some e \<longrightarrow> \<not> errors_Is e ErrRootWriteOutcomeUnknown) \<and>
        (\<forall>x. a = Inl x \<longrightarrow>
           (\<exists>e. r = Some e \<and>
              (errors_Is e ErrRootWriteOutcomeUnknown \<longleftrightarrow> ran_out_of_time x \<or> errors_Is x ErrRootWriteOutcomeUnknown)))))"
proof -
  obtain x s1 where root: "run_state (RootAccess_root tr cfg) s = (x, s1)" by force
  from root_dials_once [OF root] obtain ds where ds: "log s1 = log s @ ds" "list_all is_dial ds" "length ds \<le> 1"
    "ssh_open s \<longrightarrow> ds = [] \<and> x = None" by blast
  show ?thesis
  proof (cases x)
    case None
    let ?a = "e_ssh env (log s1) cmd"
    from assms root None have "log s' = log s @ ds @ [ESsh cmd ?a]"
      and "r = write_outcome (pveum_answer cmd (map_sum (\<lambda>err. Errorf [Lit ''run '', Lit (firstWords cmd), Lit '': '', Wrapped err]) id ?a))"
      by (auto simp: pveumWrite_def pveum_def rootRun_def ssh_run_def perform_def ds(1))
    with ds(2,3,4) write_outcome_unknown [where cmd = cmd and w = "firstWords cmd" and a = ?a] show ?thesis
      by (intro exI [of _ ds]) auto
  next
    case (Some e)
    with assms root have "s' = s1" "r \<noteq> None"
      by (auto simp: pveumWrite_def pveum_def rootRun_def pveum_answer_def write_outcome_def)
    then have "log s' = log s @ ds" "r \<noteq> None" by (simp_all add: ds(1))
    with ds(2,3,4) Some show ?thesis by (intro exI [of _ ds]) auto
  qed
qed


text \<open>The tests: a transport that always connects, and one whose dial runs out of time.\<close>

definition connecting :: transport where
  "connecting = \<lparr>tr_password = (\<lambda>_ _ _ _ _. None), tr_pinned = (\<lambda>_ _ _ _ _. None)\<rparr>"

definition silent_node :: transport where
  "silent_node = connecting\<lparr>tr_pinned := (\<lambda>_ _ _ _ _. Some (Errorf [Lit ''dial tcp: '', Wrapped (Sentinel CtxDeadlineExceeded)]))\<rparr>"

definition demo_access :: access_options where
  "demo_access = \<lparr>ao_addr = ''pve1:22'', ao_user = ''root'', ao_key = ''key'', ao_fingerprint = ''SHA256:f'', ao_password = None,
     ao_rest = False, ao_own_token = ''pveforge@pve!main'', ao_fold = id\<rparr>"

definition demo_root :: rootaccess where
  "demo_root = \<lparr>log = [], ssh_open = False, ra_password = [], ra_resolved = False\<rparr>"

definition new_user :: user_spec where
  "new_user = \<lparr>us_userid = ''eve@pve'', us_enable = True, us_comment = None, us_email = None, us_groups = []\<rparr>"

text \<open>A world in which every command is sent and runs into the deadline of the caller.\<close>

definition overdue :: env where
  "overdue = calm\<lparr>e_ssh := (\<lambda>_ _. Inl (Errorf [Lit ''ssh: '', Wrapped (Sentinel CtxDeadlineExceeded)]))\<rparr>"

theorem pveumWrite_outcome_witness:
  "\<exists>ds a e. log (snd (run_state (pveumWrite overdue connecting demo_access ''pveum group add ops'') demo_root)) =
       ds @ [ESsh ''pveum group add ops'' a] \<and> list_all is_dial ds \<and> length ds \<le> 1 \<and>
     fst (run_state (pveumWrite overdue connecting demo_access ''pveum group add ops'') demo_root) = Some e \<and>
     errors_Is e ErrRootWriteOutcomeUnknown"
proof -
  let ?x = "Errorf [Lit ''ssh: '', Wrapped (Sentinel CtxDeadlineExceeded)]"
  let ?m = "pveumWrite overdue connecting demo_access ''pveum group add ops'' :: (rootaccess, gerror option) state"
  have log: "log (snd (run_state ?m demo_root)) = [EDial ''pve1:22'' None, ESsh ''pveum group add ops'' (Inl ?x)]"
    by (simp add: pveumWrite_def pveum_def rootRun_def RootAccess_root_def demo_access_def demo_root_def connecting_def run_simps
        ssh_run_def overdue_def)
  have late: "ran_out_of_time ?x" by (simp add: ran_out_of_time_def)
  from pveumWrite_outcome [OF surjective_pairing,
      where env = overdue and tr = connecting and cfg = demo_access and cmd = "''pveum group add ops''" and s = demo_root] late
  show ?thesis by (auto simp: log) (auto simp: demo_root_def)
qed

text \<open>
  A write whose session never opened, because the dial ran out of time, is reported as one whose outcome is
  unknown, although no command was sent.
\<close>

theorem dial_timeout_reported_unknown:
  "case run_state (AddUser calm silent_node demo_access new_user) demo_root of
     (r, s) \<Rightarrow> log s = [EDial ''pve1:22'' (Some (Errorf [Lit ''dial tcp: '', Wrapped (Sentinel CtxDeadlineExceeded)]))] \<and>
       (case r of Some e \<Rightarrow> errors_Is e ErrRootWriteOutcomeUnknown | None \<Rightarrow> False)"
  by (simp add: AddUser_def pveumWrite_def pveum_def rootRun_def RootAccess_root_def demo_access_def demo_root_def silent_node_def
      connecting_def run_simps pveum_answer_def write_outcome_def writeOutcomeUnknown_def)

section \<open>The commands as a shell reads them\<close>

definition command_words :: "string \<Rightarrow> string list option" where
  "command_words cmd = shell_words False False [] cmd"

datatype shell_word = Plain string | Quoted string

fun word_source :: "shell_word \<Rightarrow> string" where
  "word_source (Plain w) = w"
| "word_source (Quoted w) = ShellQuote w"

fun word_value :: "shell_word \<Rightarrow> string" where
  "word_value (Plain w) = w"
| "word_value (Quoted w) = w"

fun plain_word :: "shell_word \<Rightarrow> bool" where
  "plain_word (Plain w) \<longleftrightarrow> w \<noteq> [] \<and> list_all shell_plain w"
| "plain_word (Quoted w) \<longleftrightarrow> True"

definition spaced :: "shell_word list \<Rightarrow> string" where
  "spaced ws = concat (map (\<lambda>w. CHR 0x20 # word_source w) ws)"

lemma spaced_simps [simp]: "spaced [] = []" "spaced (w # ws) = CHR 0x20 # word_source w @ spaced ws" "spaced (vs @ ws) = spaced vs @ spaced ws"
  by (simp_all add: spaced_def)

lemma shell_words_source: "plain_word w \<Longrightarrow> shell_words False False [] (word_source w @ cs) = shell_words False True (word_value w) cs"
  by (cases w) (auto simp: shell_words_ShellQuote shell_words_plain)

lemma shell_words_spaced:
  "list_all plain_word ws \<Longrightarrow> shell_words False True v (spaced ws) = Some (v # map word_value ws)"
  by (induction ws arbitrary: v) (simp_all add: shell_words_source)

lemma command_words_spaced:
  "list_all plain_word (w # ws) \<Longrightarrow> command_words (word_source w @ spaced ws) = Some (map word_value (w # ws))"
  by (simp add: command_words_def shell_words_source shell_words_spaced)

lemma command_wordsI:
  "cmd = word_source w @ spaced ws \<Longrightarrow> list_all plain_word (w # ws) \<Longrightarrow> map word_value (w # ws) = vs \<Longrightarrow>
     command_words cmd = Some vs"
  using command_words_spaced by blast

definition optional_words :: "string \<Rightarrow> string option \<Rightarrow> string list" where
  "optional_words name v = (case v of None \<Rightarrow> [] | Some t \<Rightarrow> [''--'' @ name, t])"

definition user_words :: "string \<Rightarrow> user_spec \<Rightarrow> string list" where
  "user_words verb u =
     [''pveum'', ''user'', verb, us_userid u, ''--enable'', if us_enable u then ''1'' else ''0''] @
     optional_words ''comment'' (us_comment u) @ optional_words ''email'' (us_email u) @
     (if us_groups u = [] then [] else [''--groups'', strings_Join (us_groups u) CHR '',''])"

definition flag_forms :: "string \<Rightarrow> string option \<Rightarrow> shell_word list" where
  "flag_forms name v = (case v of None \<Rightarrow> [] | Some t \<Rightarrow> [Plain (''--'' @ name), Quoted t])"

lemma flag_forms:
  "optional_flag name v = spaced (flag_forms name v)" "map word_value (flag_forms name v) = optional_words name v"
  "list_all shell_plain name \<Longrightarrow> list_all plain_word (flag_forms name v)"
  by (auto simp: flag_forms_def optional_flag_def optional_words_def shell_plain_def split: option.splits)

lemma flag_names: "list_all shell_plain ''comment''" "list_all shell_plain ''email''"
  by code_simp+

definition user_forms :: "string \<Rightarrow> user_spec \<Rightarrow> shell_word list" where
  "user_forms verb u =
     [Plain ''user'', Plain verb, Quoted (us_userid u), Plain ''--enable'', Plain (if us_enable u then ''1'' else ''0'')] @
     flag_forms ''comment'' (us_comment u) @ flag_forms ''email'' (us_email u) @
     (if us_groups u = [] then [] else [Plain ''--groups'', Quoted (strings_Join (us_groups u) CHR '','')])"

lemma plain_literals:
  "list_all plain_word [Plain ''pveum'', Plain ''user'', Plain ''group'', Plain ''acl'', Plain ''add'', Plain ''modify'', Plain ''--enable'',
     Plain ''--groups'', Plain ''--users'', Plain ''--tokens'', Plain ''--roles'', Plain ''--propagate'', Plain ''--append'',
     Plain ''--comment'', Plain ''1'', Plain ''0'']"
  by code_simp

lemma user_forms:
  "verb \<in> {''add'', ''modify''} \<Longrightarrow> list_all plain_word (Plain ''pveum'' # user_forms verb u)"
  "map word_value (Plain ''pveum'' # user_forms verb u) = user_words verb u"
  "add_user_command u = word_source (Plain ''pveum'') @ spaced (user_forms ''add'' u)"
  "modify_user_command u = word_source (Plain ''pveum'') @
     spaced (user_forms ''modify'' u @ (if us_groups u = [] then [] else [Plain ''--append'', Plain ''1'']))"
  using plain_literals
  by (auto simp: user_forms_def user_words_def flag_forms flag_names add_user_command_def modify_user_command_def userFlags_def
      groups_flag_def)

text \<open>The commands that change users and groups, and those that list, as their words.\<close>

lemma user_group_commands_words:
  "command_words (add_user_command u) = Some (user_words ''add'' u) \<and>
   command_words (modify_user_command u) = Some (user_words ''modify'' u @ (if us_groups u = [] then [] else [''--append'', ''1''])) \<and>
   command_words (add_group_command gid comment) = Some ([''pveum'', ''group'', ''add'', gid] @ optional_words ''comment'' comment) \<and>
   command_words (modify_group_command gid text_of) = Some [''pveum'', ''group'', ''modify'', gid, ''--comment'', text_of]"
proof (intro conjI)
  show "command_words (add_user_command u) = Some (user_words ''add'' u)"
    by (rule command_wordsI [OF user_forms(3) user_forms(1) user_forms(2)]) simp
  show "command_words (modify_user_command u) = Some (user_words ''modify'' u @ (if us_groups u = [] then [] else [''--append'', ''1'']))"
    using user_forms(1) [of "''modify''" u] user_forms(2) [of "''modify''" u] plain_literals
    by (intro command_wordsI [OF user_forms(4)]) (auto simp del: plain_word.simps)
  show "command_words (add_group_command gid comment) = Some ([''pveum'', ''group'', ''add'', gid] @ optional_words ''comment'' comment)"
    using plain_literals flag_forms(2,3) flag_names
    by (intro command_wordsI [of _ "Plain ''pveum''" "[Plain ''group'', Plain ''add'', Quoted gid] @ flag_forms ''comment'' comment"])
      (auto simp: add_group_command_def flag_forms(1))
  show "command_words (modify_group_command gid text_of) = Some [''pveum'', ''group'', ''modify'', gid, ''--comment'', text_of]"
    using plain_literals
    by (intro command_wordsI [of _ "Plain ''pveum''" "[Plain ''group'', Plain ''modify'', Quoted gid, Plain ''--comment'', Quoted text_of]"])
      (auto simp: modify_group_command_def)
qed

lemma list_commands_words:
  "command_words user_list_command = Some [''pveum'', ''user'', ''list'', ''--full'', ''1'', ''--output-format'', ''json'']"
  "command_words group_list_command = Some [''pveum'', ''group'', ''list'', ''--output-format'', ''json'']"
  "command_words role_list_command = Some [''pveum'', ''role'', ''list'', ''--output-format'', ''json'']"
  "command_words acl_list_command = Some [''pveum'', ''acl'', ''list'', ''--output-format'', ''json'']"
  by code_simp+

end
