(* ===== verification/AclGrant.thy ===== *)
theory AclGrant
  imports RootAccess
begin

text \<open>
  The grant of an ACL to a principal and the check before a user joins a group
  (\<open>GrantACL\<close> and \<open>CheckGroupJoin\<close> of \<open>internal/bootstrap/access.go\<close>).
\<close>

section \<open>The grant of an ACL\<close>

record principal =
  pr_kind :: string
  pr_id :: string

record grant_request =
  gq_principal :: principal
  gq_grants :: "grant list"
  gq_allow :: bool

record grant_outcome =
  go_entries :: "acl_entry list"
  go_escalating :: "(grant \<times> string list) list"

definition CheckPrincipal :: "principal \<Rightarrow> gerror option" where
  "CheckPrincipal p =
     (if pr_kind p = ''user'' then CheckUserID (pr_id p)
      else if pr_kind p = ''group'' then CheckGroupID (pr_id p)
      else if pr_kind p = ''token'' then CheckTokenID (pr_id p)
      else Some (Errorf [Wrapped (Sentinel ErrInvalidPrincipal), Lit '': kind '', Quo (pr_kind p), Lit '' is not user, group or token'']))"

definition ownUser :: "access_options \<Rightarrow> string" where
  "ownUser cfg = fst (strings_Cut (ao_own_token cfg) CHR ''!'')"

definition self_grant :: "frag list \<Rightarrow> gerror" where
  "self_grant what = Errorf ([Wrapped (Sentinel ErrSelfGrant), Lit '': ''] @ what)"

definition owns_token :: string where
  "owns_token = '' owns the roster'' @ [CHR 0x27] @ ''s token''"

definition checkNotSelf :: "access_options \<Rightarrow> principal \<Rightarrow> gerror option" where
  "checkNotSelf cfg p =
     (if ao_own_token cfg = [] then None
      else if pr_kind p = ''token'' \<and> equal_fold (ao_fold cfg) (pr_id p) (ao_own_token cfg) then
        Some (self_grant [Lit (pr_id p), Lit '' is the roster'', Lit [CHR 0x27], Lit ''s own token''])
      else if pr_kind p = ''user'' \<and> equal_fold (ao_fold cfg) (pr_id p) (ownUser cfg) then
        Some (self_grant [Lit (pr_id p), Lit owns_token, Lit '' '', Lit (ao_own_token cfg)])
      else None)"

definition cannot_tell :: "string \<Rightarrow> string \<Rightarrow> string \<Rightarrow> gerror" where
  "cannot_tell gid own why =
     Errorf [Lit ''cannot tell whether group '', Lit gid, Lit '' holds '', Lit own, Lit why, Wrapped (Sentinel ErrUnverifiableRead)]"

definition member_check :: "access_options \<Rightarrow> string \<Rightarrow> access_group \<Rightarrow> gerror option" where
  "member_check cfg gid g =
     (if \<not> ag_listed g then
        Some (cannot_tell gid (ownUser cfg) ('', which'' @ owns_token @ '': the group list carries no members field for it: ''))
      else case find (\<lambda>u. equal_fold (ao_fold cfg) u (ownUser cfg)) (ag_users g) of
          Some u \<Rightarrow> Some (self_grant [Lit ''group '', Lit gid, Lit '' holds '', Lit u, Lit '', which'', Lit owns_token,
            Lit '' '', Lit (ao_own_token cfg)])
        | None \<Rightarrow> None)"

definition owner_check :: "access_options \<Rightarrow> string \<Rightarrow> access_user list \<Rightarrow> gerror option" where
  "owner_check cfg gid users =
     (case find (\<lambda>u. equal_fold (ao_fold cfg) (au_userid u) (ownUser cfg)) users of
        None \<Rightarrow> Some (cannot_tell gid (ownUser cfg) '': the user list has no entry for it: '')
      | Some u \<Rightarrow>
          if gid \<in> set (au_groups u) then
            Some (self_grant [Lit (au_userid u), Lit '', which'', Lit owns_token, Lit '' '', Lit (ao_own_token cfg), Lit '', is in group '', Lit gid])
          else None)"

definition checkGroupNotSelf ::
    "env \<Rightarrow> transport \<Rightarrow> access_options \<Rightarrow> string \<Rightarrow> ('r rootaccess_scheme, gerror option) state" where
  "checkGroupNotSelf env tr cfg gid = do {
     groups \<leftarrow> rootGroups env tr cfg;
     case groups of
       Inl e \<Rightarrow> ret (Some e)
     | Inr gs \<Rightarrow>
         (case find (\<lambda>g. ag_groupid g = gid) gs of
            None \<Rightarrow> ret (Some (Errorf [Wrapped (Sentinel ErrUnknownGroup), Lit '': '', Quo gid]))
          | Some g \<Rightarrow>
              if ownUser cfg = [] then ret None
              else (case member_check cfg gid g of
                  Some e \<Rightarrow> ret (Some e)
                | None \<Rightarrow> do {
                    users \<leftarrow> rootUsers env tr cfg;
                    ret (case users of Inl e \<Rightarrow> Some e | Inr us \<Rightarrow> owner_check cfg gid us)
                  }))
   }"

text \<open>What each grant confers: its pinned privileges, or its role's.\<close>

definition grant_privs :: "string list gomap \<Rightarrow> grant \<Rightarrow> string list" where
  "grant_privs roles g =
     (case g_privs g of
        Some ps \<Rightarrow> ps
      | None \<Rightarrow> (case map_of roles (g_role g) of Some ps \<Rightarrow> ps | None \<Rightarrow> []))"

fun escalations :: "string list gomap \<Rightarrow> bool \<Rightarrow> grant list \<Rightarrow> gerror + (grant \<times> string list) list" where
  "escalations roles allow [] = Inr []"
| "escalations roles allow (g # gs) =
     (let esc = escalating (grant_privs roles g) in
      if esc = [] then escalations roles allow gs
      else if \<not> allow then
        Inl (Errorf [Wrapped (Sentinel ErrEscalatingRole), Lit '': '', Lit (g_role g), Lit '' on '', Lit (g_path g), Lit '' confers '',
          Lit (strings_Join esc CHR '',''), Lit ''; pass --allow-escalating-role to grant it anyway (nothing was granted)''])
      else map_sum id ((#) (g, esc)) (escalations roles allow gs))"

definition acl_flag :: "string \<Rightarrow> string" where
  "acl_flag kind =
     (if kind = ''user'' then ''--users'' else if kind = ''group'' then ''--groups''
      else if kind = ''token'' then ''--tokens'' else [])"

definition acl_command :: "principal \<Rightarrow> grant \<Rightarrow> string" where
  "acl_command p g =
     ''pveum acl modify '' @ ShellQuote (g_path g) @ '' '' @ acl_flag (pr_kind p) @ '' '' @ ShellQuote (pr_id p) @
     '' --roles '' @ ShellQuote (g_role g) @ '' --propagate '' @ (if g_propagate g then ''1'' else ''0'')"

definition aclModify ::
    "env \<Rightarrow> transport \<Rightarrow> access_options \<Rightarrow> principal \<Rightarrow> grant \<Rightarrow> ('r rootaccess_scheme, gerror option) state" where
  "aclModify env tr cfg p g = pveumWrite env tr cfg (acl_command p g)"

definition grant_failure :: "string list \<Rightarrow> nat \<Rightarrow> grant \<Rightarrow> gerror \<Rightarrow> gerror" where
  "grant_failure applied total_grants g e =
     (let what = [Lit ''grant '', Dec (int (length applied) + 1), Lit '' of '', Dec (int total_grants), Lit '' ('', Lit (g_role g),
            Lit '' on '', Lit (g_path g)] in
      if errors_Is e ErrRootWriteOutcomeUnknown then
        Errorf (what @ [Lit '') timed out and may or may not have been applied, '',
          Lit (if applied = [] then ''none before it was applied'' else ''already applied before it: '' @ join_with ''; '' applied),
          Lit '': '', Wrapped e])
      else
        Errorf (what @ [Lit '') failed, '',
          Lit (if applied = [] then ''none was applied'' else ''already applied: '' @ join_with ''; '' applied),
          Lit '': '', Wrapped e]))"

text \<open>The grants that were applied name the position of the next one.\<close>

fun apply_grants ::
    "env \<Rightarrow> transport \<Rightarrow> access_options \<Rightarrow> principal \<Rightarrow> nat \<Rightarrow> string list \<Rightarrow> grant list \<Rightarrow>
     ('r rootaccess_scheme, gerror option) state" where
  "apply_grants env tr cfg p n applied [] = ret None"
| "apply_grants env tr cfg p n applied (g # gs) = do {
     e \<leftarrow> aclModify env tr cfg p g;
     case e of
       Some err \<Rightarrow> ret (Some (grant_failure applied n g err))
     | None \<Rightarrow> apply_grants env tr cfg p n (applied @ [g_role g @ '' on '' @ g_path g]) gs
   }"

definition acl_of_grant :: "principal \<Rightarrow> grant \<Rightarrow> acl_entry" where
  "acl_of_grant p g = \<lparr>ac_path = g_path g, ac_role = g_role g, ac_type = pr_kind p, ac_ugid = pr_id p, ac_propagate = g_propagate g\<rparr>"

fun confirm :: "principal \<Rightarrow> acl_entry list \<Rightarrow> grant list \<Rightarrow> gerror + acl_entry list" where
  "confirm p acls [] = Inr []"
| "confirm p acls (g # gs) =
     (if acl_of_grant p g \<in> set acls then map_sum id ((#) (acl_of_grant p g)) (confirm p acls gs)
      else Inl (Errorf [Wrapped (Sentinel ErrGrantNotConfirmed), Lit '': '', Lit (g_role g), Lit '' on '', Lit (g_path g),
        Lit '' for '', Lit (pr_kind p), Lit '' '', Lit (pr_id p), Lit '', propagate '',
        Lit (if g_propagate g then ''true'' else ''false'')]))"

definition read_back ::
    "env \<Rightarrow> transport \<Rightarrow> access_options \<Rightarrow> principal \<Rightarrow> grant list \<Rightarrow> (grant \<times> string list) list \<Rightarrow>
     ('r rootaccess_scheme, gerror + grant_outcome) state" where
  "read_back env tr cfg p want esc = do {
     acls \<leftarrow> rootACLs env tr cfg;
     ret (case acls of
         Inl e \<Rightarrow> Inl (Errorf [Lit ''read the ACL list back: '', Wrapped e])
       | Inr as \<Rightarrow>
           (case confirm p as want of
              Inl e \<Rightarrow> Inl e
            | Inr entries \<Rightarrow> Inr \<lparr>go_entries = entries, go_escalating = esc\<rparr>))
   }"

definition GrantACL ::
    "env \<Rightarrow> transport \<Rightarrow> access_options \<Rightarrow> grant_request \<Rightarrow> ('r rootaccess_scheme, gerror + grant_outcome) state" where
  "GrantACL env tr cfg q =
     (let p = gq_principal q in
      case CheckPrincipal p of
        Some e \<Rightarrow> ret (Inl e)
      | None \<Rightarrow>
          (case normalizeGrants (gq_grants q) of
             Inl e \<Rightarrow> ret (Inl e)
           | Inr want \<Rightarrow>
               (case checkNotSelf cfg p of
                  Some e \<Rightarrow> ret (Inl e)
                | None \<Rightarrow> do {
                    privs \<leftarrow> rolePrivs env tr cfg want;
                    case privs of
                      Inl e \<Rightarrow> ret (Inl e)
                    | Inr roles \<Rightarrow> do {
                        refused \<leftarrow> (if pr_kind p = ''group'' then checkGroupNotSelf env tr cfg (pr_id p) else ret None);
                        case refused of
                          Some e \<Rightarrow> ret (Inl e)
                        | None \<Rightarrow>
                            (case escalations roles (gq_allow q) want of
                               Inl e \<Rightarrow> ret (Inl e)
                             | Inr esc \<Rightarrow> do {
                                 failed \<leftarrow> apply_grants env tr cfg p (length want) [] want;
                                 case failed of
                                   Some e \<Rightarrow> ret (Inl e)
                                 | None \<Rightarrow> read_back env tr cfg p want esc
                               })
                      }
                  })))"

section \<open>Joining a group\<close>

record escalating_join =
  ej_group :: string
  ej_entry :: acl_entry
  ej_privs :: "string list"

fun held_roles :: "string list gomap \<Rightarrow> string \<Rightarrow> acl_entry list \<Rightarrow> gerror + escalating_join list" where
  "held_roles roles g [] = Inr []"
| "held_roles roles g (e # es) =
     (if ac_type e \<noteq> ''group'' \<or> ac_ugid e \<noteq> g then held_roles roles g es
      else case map_of roles (ac_role e) of
          None \<Rightarrow> Inl (Errorf [Lit ''group '', Lit g, Lit '' holds role '', Lit (ac_role e), Lit '' on '', Lit (ac_path e),
            Lit '', which the role list does not have: '', Wrapped (Sentinel ErrUnverifiableRead)])
        | Some privs \<Rightarrow>
            if escalating privs = [] then held_roles roles g es
            else map_sum id ((#) \<lparr>ej_group = g, ej_entry = e, ej_privs = escalating privs\<rparr>) (held_roles roles g es))"

fun joins_held :: "string list gomap \<Rightarrow> acl_entry list \<Rightarrow> string list \<Rightarrow> gerror + escalating_join list" where
  "joins_held roles acls [] = Inr []"
| "joins_held roles acls (g # gs) =
     (case held_roles roles g acls of
        Inl e \<Rightarrow> Inl e
      | Inr js \<Rightarrow> map_sum id ((@) js) (joins_held roles acls gs))"

definition join_text :: "escalating_join \<Rightarrow> string" where
  "join_text j =
     ''group '' @ ej_group j @ '' holds '' @ ac_role (ej_entry j) @ '' on '' @ ac_path (ej_entry j) @ '', which confers '' @
     strings_Join (ej_privs j) CHR '',''"

definition CheckGroupJoin ::
    "env \<Rightarrow> transport \<Rightarrow> access_options \<Rightarrow> string \<Rightarrow> string list \<Rightarrow> bool \<Rightarrow>
     ('r rootaccess_scheme, gerror + escalating_join list) state" where
  "CheckGroupJoin env tr cfg uid groups allow =
     (if ownUser cfg \<noteq> [] \<and> equal_fold (ao_fold cfg) uid (ownUser cfg) then
        ret (Inl (self_grant [Lit uid, Lit owns_token, Lit '' '', Lit (ao_own_token cfg),
          Lit '', and joining a group grants it that group'', Lit [CHR 0x27], Lit ''s ACLs'']))
      else if groups = [] then ret (Inr [])
      else do {
        roles \<leftarrow> allRolePrivs env tr cfg;
        case roles of
          Inl e \<Rightarrow> ret (Inl e)
        | Inr rs \<Rightarrow> do {
            acls \<leftarrow> rootACLs env tr cfg;
            ret (case acls of
                Inl e \<Rightarrow> Inl e
              | Inr as \<Rightarrow>
                  (case joins_held rs as groups of
                     Inl e \<Rightarrow> Inl e
                   | Inr js \<Rightarrow>
                       if js \<noteq> [] \<and> \<not> allow then
                         Inl (Errorf [Wrapped (Sentinel ErrEscalatingRole), Lit '': '', Lit (join_with ''; '' (map join_text js)),
                           Lit ''; joining a group grants what it holds; pass --allow-escalating-role to add '', Lit uid,
                           Lit '' anyway (nothing was changed)''])
                       else Inr js))
          }
      })"


section \<open>The writes of a grant\<close>

definition write_ok :: "string \<Rightarrow> event \<Rightarrow> bool" where
  "write_ok cmd e \<longleftrightarrow> (\<exists>res. e = ESsh cmd (Inr res) \<and> sr_exit res = 0)"

text \<open>The grants in their order, each once, up to the first that fails.\<close>

definition grants_sent :: "principal \<Rightarrow> grant list \<Rightarrow> gerror option \<Rightarrow> event list \<Rightarrow> bool" where
  "grants_sent p gs r es \<longleftrightarrow>
     list_all (\<lambda>e. is_dial e \<or> is_write e) es \<and>
     (\<exists>ws fs. filter is_write es = ws @ fs \<and> length ws \<le> length gs \<and>
        list_all2 (\<lambda>g e. write_ok (acl_command p g) e) (take (length ws) gs) ws \<and>
        (case r of
           None \<Rightarrow> length ws = length gs \<and> fs = []
         | Some e \<Rightarrow> length ws < length gs \<and> (fs = [] \<or> (\<exists>a. fs = [ESsh (acl_command p (gs ! length ws)) a]))))"

lemma write_sent_filter:
  assumes "write_sent cmd r es"
  shows "list_all (\<lambda>e. is_dial e \<or> is_write e) es"
    and "r = None \<Longrightarrow> \<exists>e. filter is_write es = [e] \<and> write_ok cmd e"
    and "r \<noteq> None \<Longrightarrow> filter is_write es = [] \<or> (\<exists>a. filter is_write es = [ESsh cmd a])"
  using assms no_write_in_dials by (auto simp: write_sent_def write_ok_def command_ended_def list_all_iff)

lemma grants_sent_Cons:
  assumes "write_sent (acl_command p g) None es" and "grants_sent p gs r fs"
  shows "grants_sent p (g # gs) r (es @ fs)"
proof -
  from write_sent_filter [OF assms(1)] obtain e where e: "filter is_write es = [e]" "write_ok (acl_command p g) e"
    "list_all (\<lambda>e. is_dial e \<or> is_write e) es" by auto
  from assms(2) obtain ws vs where ws: "filter is_write fs = ws @ vs" "length ws \<le> length gs"
    "list_all2 (\<lambda>g e. write_ok (acl_command p g) e) (take (length ws) gs) ws"
    "case r of None \<Rightarrow> length ws = length gs \<and> vs = []
       | Some x \<Rightarrow> length ws < length gs \<and> (vs = [] \<or> (\<exists>a. vs = [ESsh (acl_command p (gs ! length ws)) a]))"
    "list_all (\<lambda>e. is_dial e \<or> is_write e) fs"
    unfolding grants_sent_def by blast
  with e show ?thesis unfolding grants_sent_def
    by (intro conjI exI [of _ "e # ws"] exI [of _ vs]) (auto split: option.splits)
qed

lemma traces_apply_grants: "traces (apply_grants env tr cfg p n applied gs) (grants_sent p gs)"
proof (induction gs arbitrary: applied)
  case Nil
  show ?case by (auto simp: grants_sent_def intro!: traces_return)
next
  case (Cons g gs)
  show ?case
    unfolding apply_grants.simps aclModify_def
  proof (rule traces_bind [OF traces_pveumWrite], rule traces_case_option, goal_cases)
    case (1 x es)
    with Cons show ?case by (auto intro!: traces_mono [OF Cons] grants_sent_Cons)
  next
    case (2 x es e)
    then have "grants_sent p (g # gs) (Some (grant_failure applied n g e)) es"
      using write_sent_filter [OF 2(1)] unfolding grants_sent_def
      by (intro conjI exI [of _ "[]"] exI [of _ "filter is_write es"]) auto
    then show ?case by (auto intro: traces_return)
  qed
qed

lemma grants_sent_write:
  assumes "grants_sent p gs r es" and "e \<in> set es" and "is_write e"
  shows "\<exists>g a. g \<in> set gs \<and> e = ESsh (acl_command p g) a"
proof -
  from assms(1) obtain ws fs where ws: "filter is_write es = ws @ fs" "length ws \<le> length gs"
    "list_all2 (\<lambda>g e. write_ok (acl_command p g) e) (take (length ws) gs) ws"
    "fs = [] \<or> length ws < length gs \<and> (\<exists>a. fs = [ESsh (acl_command p (gs ! length ws)) a])"
    unfolding grants_sent_def by (cases r) auto
  from assms(2,3) have "e \<in> set ws \<union> set fs" using ws(1) by (metis Un_iff filter_set mem_Collect_eq set_append set_filter)
  then show ?thesis
  proof
    assume "e \<in> set ws"
    then obtain i where i: "i < length ws" "e = ws ! i" by (metis in_set_conv_nth)
    with ws(3) have "write_ok (acl_command p (take (length ws) gs ! i)) e" by (auto dest: list_all2_nthD2)
    moreover have "take (length ws) gs ! i \<in> set gs" using i ws(2) by (simp add: nth_mem)
    ultimately show ?thesis unfolding write_ok_def by blast
  next
    assume "e \<in> set fs"
    with ws(4) nth_mem show ?thesis by fastforce
  qed
qed

section \<open>What is known before the first write\<close>

text \<open>The specification of the guards: over the events before a write, and the definitions of the program only as parsers.\<close>

definition not_own :: "access_options \<Rightarrow> principal \<Rightarrow> bool" where
  "not_own cfg p \<longleftrightarrow>
     ao_own_token cfg = [] \<or>
     (pr_kind p = ''token'' \<longrightarrow> \<not> equal_fold (ao_fold cfg) (pr_id p) (ao_own_token cfg)) \<and>
     (pr_kind p = ''user'' \<longrightarrow> \<not> equal_fold (ao_fold cfg) (pr_id p) (ownUser cfg))"

definition role_basis :: "bool \<Rightarrow> grant list \<Rightarrow> event \<Rightarrow> bool" where
  "role_basis allow want e \<longleftrightarrow>
     (\<exists>roles. listed role_list_command roles_answer roles e \<and>
        (\<forall>g \<in> set want. \<exists>privs. map_of roles (g_role g) = Some privs \<and> privs \<noteq> [] \<and>
           (\<forall>ps. g_privs g = Some ps \<longrightarrow> set ps = set privs) \<and>
           (allow \<or> set privs \<inter> set EscalatingPrivileges = {})))"

definition group_basis :: "access_options \<Rightarrow> string \<Rightarrow> event list \<Rightarrow> bool" where
  "group_basis cfg gid before \<longleftrightarrow>
     (\<exists>gs g e. e \<in> set before \<and> listed group_list_command ParseAccessGroups gs e \<and> g \<in> set gs \<and> ag_groupid g = gid \<and>
        (ownUser cfg \<noteq> [] \<longrightarrow>
           ag_listed g \<and> (\<forall>u \<in> set (ag_users g). \<not> equal_fold (ao_fold cfg) u (ownUser cfg)) \<and>
           (\<exists>us u e'. e' \<in> set before \<and> listed user_list_command ParseAccessUsers us e' \<and> u \<in> set us \<and>
              equal_fold (ao_fold cfg) (au_userid u) (ownUser cfg) \<and> gid \<notin> set (au_groups u))))"

lemma group_basis_mono: "group_basis cfg gid fs \<Longrightarrow> set fs \<subseteq> set es \<Longrightarrow> group_basis cfg gid es"
  unfolding group_basis_def by (elim exE conjE) (intro exI conjI; blast)

lemma checkNotSelf_None: "checkNotSelf cfg p = None \<longleftrightarrow> not_own cfg p"
  by (auto simp: checkNotSelf_def not_own_def)

lemma sort_Nil: "sort xs = [] \<longleftrightarrow> xs = []" for xs :: "string list"
  by (metis length_0_conv length_sort)

lemma pinned_mismatch_None: "pinned_mismatch g privs = None \<longleftrightarrow> (\<forall>ps. g_privs g = Some ps \<longrightarrow> set ps = set privs)"
  by (auto simp: pinned_mismatch_def setDiff_def sort_Nil filter_empty_conv split: option.splits)

lemma role_privs_from_Inr:
  assumes "role_privs_from roles out want = Inr res"
    and "\<forall>r privs. map_of out r = Some privs \<longrightarrow> map_of roles r = Some privs \<and> privs \<noteq> []"
  shows "(\<forall>r privs. map_of out r = Some privs \<longrightarrow> map_of res r = Some privs) \<and>
    (\<forall>g \<in> set want. \<exists>privs. map_of res (g_role g) = Some privs \<and> map_of roles (g_role g) = Some privs \<and> privs \<noteq> [] \<and>
       pinned_mismatch g privs = None)"
  using assms
proof (induction roles out want rule: role_privs_from.induct)
  case (2 roles out g want)
  let ?look = "case map_of out (g_role g) of Some privs \<Rightarrow> Inr privs
    | None \<Rightarrow> (case map_of roles (g_role g) of
         None \<Rightarrow> Inl (Errorf [Wrapped (Sentinel ErrUnknownRole), Lit '': '', Quo (g_role g)])
       | Some privs \<Rightarrow> if privs = [] then Inl (Errorf [Wrapped (Sentinel ErrRoleHasNoPrivileges), Lit '': '', Lit (g_role g)])
                       else Inr privs)"
  from "2.prems"(1) obtain privs where look: "?look = Inr privs" and pin: "pinned_mismatch g privs = None"
    and rest: "role_privs_from roles (AList.update (g_role g) privs out) want = Inr res"
    by (auto split: sum.splits option.splits)
  from look "2.prems"(2) have privs: "map_of roles (g_role g) = Some privs" "privs \<noteq> []"
    "\<forall>ps. map_of out (g_role g) = Some ps \<longrightarrow> ps = privs"
    by (auto split: option.splits if_splits)
  have upd: "map_of (AList.update (g_role g) privs out) = (map_of out)(g_role g \<mapsto> privs)" by (simp add: update_conv')
  have "\<forall>r ps. map_of (AList.update (g_role g) privs out) r = Some ps \<longrightarrow> map_of roles r = Some ps \<and> ps \<noteq> []"
    using "2.prems"(2) privs by (simp add: upd)
  from "2.IH" [OF look pin rest this] have
    ih: "\<forall>r ps. ((map_of out)(g_role g \<mapsto> privs)) r = Some ps \<longrightarrow> map_of res r = Some ps"
    "\<forall>h \<in> set want. \<exists>ps. map_of res (g_role h) = Some ps \<and> map_of roles (g_role h) = Some ps \<and> ps \<noteq> [] \<and> pinned_mismatch h ps = None"
    unfolding upd by blast+
  from ih(1) have "map_of res (g_role g) = Some privs" by simp
  moreover have "map_of res r = Some ps" if "map_of out r = Some ps" for r ps
    using ih(1) privs(3) that by (cases "r = g_role g") auto
  ultimately show ?case using ih(2) privs pin by auto
qed simp

lemma escalating_Nil: "escalating privs = [] \<longleftrightarrow> set privs \<inter> set EscalatingPrivileges = {}"
  by (auto simp: escalating_def filter_empty_conv)

lemma escalations_Inr:
  "escalations roles allow want = Inr esc \<Longrightarrow> g \<in> set want \<Longrightarrow> allow \<or> escalating (grant_privs roles g) = []"
  by (induction roles allow want arbitrary: esc rule: escalations.induct) (auto simp: Let_def map_sum_Inr split: if_splits)


lemma escalations_reported:
  "escalations roles allow want = Inr esc \<Longrightarrow>
     set esc = {(g, escalating (grant_privs roles g)) | g. g \<in> set want \<and> escalating (grant_privs roles g) \<noteq> []}"
  by (induction roles allow want arbitrary: esc rule: escalations.induct) (auto simp: Let_def map_sum_Inr split: if_splits)

lemma traces_rolePrivs:
  "traces (rolePrivs env tr cfg want) (\<lambda>r es. list_all reads es \<and>
     (\<forall>res. r = Inr res \<longrightarrow> (\<exists>e roles. e \<in> set es \<and> listed role_list_command roles_answer roles e \<and>
        role_privs_from roles [] want = Inr res)))"
  unfolding rolePrivs_def
  by (intro traces_bind [OF traces_root_lists(4)] traces_return) (auto simp: list_read_def split: sum.splits, blast)

lemma find_Some: "find P xs = Some x \<Longrightarrow> x \<in> set xs \<and> P x"
  by (auto simp: find_Some_iff)

lemma member_check_None:
  "member_check cfg gid g = None \<longleftrightarrow> ag_listed g \<and> (\<forall>u \<in> set (ag_users g). \<not> equal_fold (ao_fold cfg) u (ownUser cfg))"
  by (auto simp: member_check_def find_None_iff split: option.splits dest!: find_Some)

lemma owner_check_None:
  "owner_check cfg gid us = None \<Longrightarrow>
     \<exists>u \<in> set us. equal_fold (ao_fold cfg) (au_userid u) (ownUser cfg) \<and> gid \<notin> set (au_groups u)"
  by (auto simp: owner_check_def dest!: find_Some split: option.splits if_splits)

lemma list_read_reads: "list_read cmd parse r es \<Longrightarrow> list_all reads es"
  by (simp add: list_read_def)

lemma list_read_Inr: "list_read cmd parse (Inr x) es \<Longrightarrow> \<exists>e \<in> set es. listed cmd parse x e"
  by (auto simp: list_read_def)

lemma traces_checkGroupNotSelf:
  "traces (checkGroupNotSelf env tr cfg gid) (\<lambda>r es. list_all reads es \<and> (r = None \<longrightarrow> group_basis cfg gid es))"
  unfolding checkGroupNotSelf_def
proof (rule traces_bind [OF traces_root_lists(2)], rule traces_case_sum, goal_cases)
  case (1 x es e)
  then show ?case by (auto intro!: traces_return dest: list_read_reads)
next
  case (2 x es gs)
  from 2 list_read_Inr list_read_reads obtain e where e: "e \<in> set es" "listed group_list_command ParseAccessGroups gs e" "list_all reads es"
    by metis
  show ?case
  proof (rule traces_case_option, goal_cases)
    case 1
    with e show ?case by (auto intro!: traces_return)
  next
    case (2 g)
    then have g: "g \<in> set gs" "ag_groupid g = gid" by (auto dest: find_Some)
    show ?case
    proof (rule traces_if, goal_cases)
      case 1
      with e g have "group_basis cfg gid es" unfolding group_basis_def by blast
      with e show ?case by (auto intro!: traces_return)
    next
      case own: 2
      show ?case
      proof (rule traces_case_option, goal_cases)
        case 1
        show ?case
        proof (rule traces_bind [OF traces_root_lists(1)], rule traces_return, goal_cases)
          case (1 y fs)
          have "group_basis cfg gid (es @ fs)" if "(case y of Inl e \<Rightarrow> Some e | Inr us \<Rightarrow> owner_check cfg gid us) = None"
          proof -
            from that obtain us where us: "y = Inr us" "owner_check cfg gid us = None" by (cases y) auto
            with 1 list_read_Inr obtain e' where e': "e' \<in> set fs" "listed user_list_command ParseAccessUsers us e'" by metis
            from owner_check_None [OF us(2)] e' e g \<open>member_check cfg gid g = None\<close> show ?thesis
              unfolding group_basis_def member_check_None set_append by blast
          qed
          with 1 e show ?case by (auto dest: list_read_reads)
        qed
      next
        case (2 e)
        with \<open>list_all reads es\<close> show ?case by (auto intro!: traces_return)
      qed
    qed
  qed
qed

lemma confirm_Inr: "confirm p acls want = Inr entries \<Longrightarrow> entries = map (acl_of_grant p) want \<and> (\<forall>g \<in> set want. acl_of_grant p g \<in> set acls)"
  by (induction want arbitrary: entries) (auto simp: map_sum_Inr split: if_splits)

lemma traces_read_back:
  "traces (read_back env tr cfg p want esc) (\<lambda>r es. list_all reads es \<and>
     (\<forall>out. r = Inr out \<longrightarrow> go_entries out = map (acl_of_grant p) want \<and> go_escalating out = esc \<and>
        (\<exists>d e acls. es = d @ [e] \<and> listed acl_list_command ParseACLEntries acls e \<and> (\<forall>g \<in> set want. acl_of_grant p g \<in> set acls))))"
  unfolding read_back_def
  by (intro traces_bind [OF traces_root_lists(3)] traces_return)
    (auto simp: list_read_def split: sum.splits dest!: confirm_Inr, blast)

text \<open>The log of a grant: the reads before the writes, the writes, the list read back.\<close>

definition grant_basis :: "access_options \<Rightarrow> grant_request \<Rightarrow> grant list \<Rightarrow> event list \<Rightarrow> bool" where
  "grant_basis cfg q want before \<longleftrightarrow>
     normalizeGrants (gq_grants q) = Inr want \<and> CheckPrincipal (gq_principal q) = None \<and> not_own cfg (gq_principal q) \<and>
     (\<exists>e \<in> set before. role_basis (gq_allow q) want e) \<and>
     (pr_kind (gq_principal q) = ''group'' \<longrightarrow> group_basis cfg (pr_id (gq_principal q)) before)"

definition reported :: "grant list \<Rightarrow> (grant \<times> string list) list \<Rightarrow> event \<Rightarrow> bool" where
  "reported want esc e \<longleftrightarrow>
     (\<exists>roles. listed role_list_command roles_answer roles e \<and>
        (\<forall>g \<in> set want. \<forall>privs. map_of roles (g_role g) = Some privs \<longrightarrow>
           (if set privs \<inter> set EscalatingPrivileges = {} then g \<notin> fst ` set esc
            else \<exists>ps. (g, ps) \<in> set esc \<and> set ps = set privs \<inter> set EscalatingPrivileges)))"

definition confirmed :: "grant_request \<Rightarrow> grant list \<Rightarrow> event list \<Rightarrow> event list \<Rightarrow> grant_outcome \<Rightarrow> bool" where
  "confirmed q want before after out \<longleftrightarrow>
     go_entries out = map (acl_of_grant (gq_principal q)) want \<and> (\<exists>e \<in> set before. reported want (go_escalating out) e) \<and>
     (\<exists>d e acls. after = d @ [e] \<and> listed acl_list_command ParseACLEntries acls e \<and>
        (\<forall>g \<in> set want. acl_of_grant (gq_principal q) g \<in> set acls))"

definition grant_log :: "access_options \<Rightarrow> grant_request \<Rightarrow> gerror + grant_outcome \<Rightarrow> event list \<Rightarrow> bool" where
  "grant_log cfg q r es \<longleftrightarrow>
     (\<exists>before sent after. es = before @ sent @ after \<and> list_all reads before \<and> list_all reads after \<and>
        (sent = [] \<and> after = [] \<and> (\<exists>e. r = Inl e) \<or>
         (\<exists>want ap. grant_basis cfg q want before \<and> grants_sent (gq_principal q) want ap sent \<and>
            (\<forall>out. r = Inr out \<longrightarrow> ap = None \<and> confirmed q want before after out))))"

lemma role_checks:
  assumes "role_privs_from roles [] want = Inr res" and "escalations res allow want = Inr esc"
    and "listed role_list_command roles_answer roles e"
  shows "role_basis allow want e" "reported want esc e"
proof -
  from role_privs_from_Inr [OF assms(1)] have res: "\<forall>g \<in> set want. \<exists>privs. map_of res (g_role g) = Some privs \<and>
      map_of roles (g_role g) = Some privs \<and> privs \<noteq> [] \<and> (\<forall>ps. g_privs g = Some ps \<longrightarrow> set ps = set privs)"
    by (simp add: pinned_mismatch_None)
  have eff: "set (grant_privs res g) = set privs" if "g \<in> set want" "map_of roles (g_role g) = Some privs" for g privs
    using res that by (fastforce simp: grant_privs_def split: option.splits)
  have esc_set: "set (escalating (grant_privs res g)) = set privs \<inter> set EscalatingPrivileges"
    if "g \<in> set want" "map_of roles (g_role g) = Some privs" for g privs
    using eff [OF that] by (auto simp: escalating_def)
  show "role_basis allow want e"
    unfolding role_basis_def using assms(3) res esc_set escalations_Inr [OF assms(2)]
    by (intro exI [of _ roles]) (metis empty_set)
  show "reported want esc e"
    unfolding reported_def escalations_reported [OF assms(2)]
  proof (intro exI [of _ roles] conjI assms(3) ballI allI impI)
    fix g privs assume g: "g \<in> set want" "map_of roles (g_role g) = Some privs"
    show "if set privs \<inter> set EscalatingPrivileges = {}
      then g \<notin> fst ` {(g, escalating (grant_privs res g)) |g. g \<in> set want \<and> escalating (grant_privs res g) \<noteq> []}
      else \<exists>ps. (g, ps) \<in> {(g, escalating (grant_privs res g)) |g. g \<in> set want \<and> escalating (grant_privs res g) \<noteq> []} \<and>
             set ps = set privs \<inter> set EscalatingPrivileges"
      using esc_set [OF g] g(1) by auto
  qed
qed


lemma grant_logI:
  assumes "list_all reads before" "list_all reads after" "grant_basis cfg q want before"
    and "grants_sent (gq_principal q) want ap sent"
    and "\<And>out. r = Inr out \<Longrightarrow> ap = None \<and> confirmed q want before after out"
  shows "grant_log cfg q r (before @ sent @ after)"
  unfolding grant_log_def
  by (rule exI [of _ before], rule exI [of _ sent], rule exI [of _ after],
      intro conjI refl assms(1,2) disjI2 exI [of _ want] exI [of _ ap] assms(3,4) allI impI) (use assms(5) in blast)+

lemma traces_GrantACL: "traces (GrantACL env tr cfg q) (grant_log cfg q)"
proof -
  let ?p = "gq_principal q"
  have stop: "grant_log cfg q (Inl e) es" if "list_all reads es" for e es
    using that unfolding grant_log_def by (intro exI [of _ es] exI [of _ "[]"]) simp
  have stopped: "traces (ret (Inl e)) (\<lambda>r fs. grant_log cfg q r (es @ fs))" if "list_all reads es" for e es
    by (rule traces_return) (simp add: stop that)
  show ?thesis
    unfolding GrantACL_def Let_def
  proof (intro traces_split traces_return)
    fix want
    assume checked: "CheckPrincipal ?p = None" "normalizeGrants (gq_grants q) = Inr want" "checkNotSelf cfg ?p = None"
    let ?group = "if pr_kind ?p = ''group'' then checkGroupNotSelf env tr cfg (pr_id ?p) else ret None"
    have group: "traces ?group (\<lambda>r es. list_all reads es \<and> (r = None \<longrightarrow> pr_kind ?p = ''group'' \<longrightarrow> group_basis cfg (pr_id ?p) es))"
      using traces_checkGroupNotSelf by (auto intro!: traces_return intro: traces_mono)
    show "traces (do {
        privs \<leftarrow> rolePrivs env tr cfg want;
        case privs of
          Inl e \<Rightarrow> ret (Inl e)
        | Inr roles \<Rightarrow> do {
            refused \<leftarrow> ?group;
            case refused of
              Some e \<Rightarrow> ret (Inl e)
            | None \<Rightarrow>
                (case escalations roles (gq_allow q) want of
                   Inl e \<Rightarrow> ret (Inl e)
                 | Inr esc \<Rightarrow> do {
                     failed \<leftarrow> apply_grants env tr cfg ?p (length want) [] want;
                     case failed of
                       Some e \<Rightarrow> ret (Inl e)
                     | None \<Rightarrow> read_back env tr cfg ?p want esc
                   })
          }
      }) (grant_log cfg q)"
    proof (rule traces_bind [OF traces_rolePrivs], rule traces_case_sum, goal_cases)
      case (1 x es e)
      then show ?case by (auto intro: stopped)
    next
      case (2 x es res)
      then obtain e roles where e: "e \<in> set es" "listed role_list_command roles_answer roles e"
        "role_privs_from roles [] want = Inr res" "list_all reads es" by blast
      show ?case
      proof (rule traces_bind [OF group], rule traces_case_option, goal_cases)
        case (1 y fs)
        show ?case
        proof (rule traces_case_sum, goal_cases)
          case (1 err)
          with e \<open>list_all reads fs \<and> _\<close> show ?case using stopped [of "es @ fs" err] by simp
        next
          case (2 esc)
          let ?before = "es @ fs"
          have before: "list_all reads ?before" using e 1 by simp
          have basis: "grant_basis cfg q want ?before" "\<exists>e \<in> set ?before. reported want esc e"
            using role_checks [OF e(3) 2 e(2)] e(1) 1 checked
            by (auto simp: grant_basis_def checkNotSelf_None intro: group_basis_mono)
          show ?case
          proof (rule traces_bind [OF traces_apply_grants], rule traces_case_option, goal_cases)
            case (1 ap ws)
            show ?case
            proof (rule traces_mono [OF traces_read_back], goal_cases)
              case after: (1 r d)
              have "grant_log cfg q r (?before @ ws @ d)"
                by (rule grant_logI [OF before _ basis(1)]) (use after basis(2) 1 in \<open>auto simp: confirmed_def\<close>)
              then show ?case by simp
            qed
          next
            case (2 ap ws err)
            have "grant_log cfg q (Inl err) (?before @ ws @ [])"
              by (rule grant_logI [OF before _ basis(1)]) (use 2 in auto)
            then show ?case by (auto intro: traces_return)
          qed
        qed
      next
        case (2 y fs err)
        with e show ?case using stopped [of "es @ fs" err] by simp
      qed
    qed
  qed (auto intro: stop)
qed


section \<open>The guards and the outcome of a grant\<close>

lemma grant_basis_mono: "grant_basis cfg q want fs \<Longrightarrow> set fs \<subseteq> set es \<Longrightarrow> grant_basis cfg q want es"
  unfolding grant_basis_def using group_basis_mono by blast

text \<open>
  C14: every write of a grant is the \<open>pveum acl modify\<close> of one of the requested grants, in its normal form, and is
  sent only after everything it rests on was seen: the principal is well formed and is neither the roster's token
  nor its user; the role list read as root has each role, with privileges, exactly the pinned ones where some are
  pinned, and none that escalates unless that was allowed; a group exists and, in the group list and in the user
  list, does not hold the token's user.
\<close>

theorem GrantACL_guarded:
  assumes "run_state (GrantACL env tr cfg q) s = (r, s')"
  shows "\<exists>es. log s' = log s @ es \<and>
    (\<forall>before e after. es = before @ e # after \<longrightarrow> is_write e \<longrightarrow>
       (\<exists>want g a. g \<in> set want \<and> e = ESsh (acl_command (gq_principal q) g) a \<and> grant_basis cfg q want before))"
proof -
  from traces_runD [OF traces_GrantACL assms] obtain es where es: "log s' = log s @ es" "grant_log cfg q r es" by blast
  have "\<exists>want g a. g \<in> set want \<and> e = ESsh (acl_command (gq_principal q) g) a \<and> grant_basis cfg q want pre"
    if split: "es = pre @ e # post" and e: "is_write e" for pre e post
  proof -
    from es(2) obtain before sent after where log: "es = before @ sent @ after" "list_all reads before" "list_all reads after"
      and cases: "sent = [] \<or> (\<exists>want ap. grant_basis cfg q want before \<and> grants_sent (gq_principal q) want ap sent)"
      unfolding grant_log_def by blast
    have no_write: "e \<notin> set before" "e \<notin> set after" using e log(2,3) by (auto simp: list_all_iff reads_def)
    with log(1) split have "e \<in> set sent" by (metis Un_iff in_set_conv_decomp set_append)
    with cases obtain want ap where want: "grant_basis cfg q want before" "grants_sent (gq_principal q) want ap sent" by auto
    from grants_sent_write [OF want(2) \<open>e \<in> set sent\<close> e] obtain g a where
      g: "g \<in> set want" "e = ESsh (acl_command (gq_principal q) g) a" by blast
    from log(1) split have "pre @ e # post = before @ (sent @ after)" by simp
    then have "set before \<subseteq> set pre" using no_write(1) by (auto simp: append_eq_append_conv2 Cons_eq_append_conv)
    with want(1) g show ?thesis by (blast intro: grant_basis_mono)
  qed
  with es(1) show ?thesis by blast
qed

text \<open>
  C32: a grant that succeeds was applied and seen: each requested grant was sent once, in order, by a command that
  ended with status 0, and the ACL list that root read after the last of them holds the exact entry of each; the
  escalating privileges that were let through are all reported.
\<close>

theorem GrantACL_success:
  assumes "run_state (GrantACL env tr cfg q) s = (Inr out, s')"
  shows "\<exists>want es d e acls. normalizeGrants (gq_grants q) = Inr want \<and> log s' = log s @ es \<and> es = d @ [e] \<and>
    list_all2 (\<lambda>g w. write_ok (acl_command (gq_principal q) g) w) want (filter is_write d) \<and>
    listed acl_list_command ParseACLEntries acls e \<and> set (go_entries out) \<subseteq> set acls \<and>
    go_entries out = map (acl_of_grant (gq_principal q)) want \<and> (\<exists>x \<in> set d. reported want (go_escalating out) x)"
proof -
  from traces_runD [OF traces_GrantACL assms] obtain es where es: "log s' = log s @ es" "grant_log cfg q (Inr out) es" by blast
  from es(2) obtain before sent after want ap where log: "es = before @ sent @ after" "list_all reads before" "list_all reads after"
    and want: "grant_basis cfg q want before" "grants_sent (gq_principal q) want ap sent" and ap: "ap = None"
    and conf: "confirmed q want before after out"
    unfolding grant_log_def by auto
  from conf have entries: "go_entries out = map (acl_of_grant (gq_principal q)) want"
    and rep: "\<exists>e \<in> set before. reported want (go_escalating out) e" by (simp_all add: confirmed_def)
  from conf obtain d e acls where after: "after = d @ [e]" "listed acl_list_command ParseACLEntries acls e"
    "\<forall>g \<in> set want. acl_of_grant (gq_principal q) g \<in> set acls" unfolding confirmed_def by blast
  have "filter is_write (before @ sent @ d) = filter is_write sent"
    using log(2,3) after(1) by (simp add: filter_write_reads)
  moreover have "list_all2 (\<lambda>g w. write_ok (acl_command (gq_principal q) g) w) want (filter is_write sent)"
    using want(2) ap unfolding grants_sent_def by fastforce
  moreover have "normalizeGrants (gq_grants q) = Inr want" using want(1) by (simp add: grant_basis_def)
  ultimately show ?thesis
    using es(1) log(1) after entries rep
    by (intro exI [of _ want] exI [of _ es] exI [of _ "before @ sent @ d"] exI [of _ e] exI [of _ acls]) auto
qed

definition quoted :: "string \<Rightarrow> string" where
  "quoted w = CHR 0x22 # w @ [CHR 0x22]"

definition roles_text :: string where
  "roles_text = ''[{'' @ quoted ''roleid'' @ '':'' @ quoted ''PVEVMUser'' @ '','' @ quoted ''privs'' @ '':'' @ quoted ''VM.Audit,VM.Console'' @ ''},{'' @
     quoted ''roleid'' @ '':'' @ quoted ''Admin'' @ '','' @ quoted ''privs'' @ '':'' @ quoted ''User.Modify'' @ ''}]''"

definition acls_text :: string where
  "acls_text = ''[{'' @ quoted ''path'' @ '':'' @ quoted ''/vms/100'' @ '','' @ quoted ''roleid'' @ '':'' @ quoted ''PVEVMUser'' @ '','' @
     quoted ''type'' @ '':'' @ quoted ''user'' @ '','' @ quoted ''ugid'' @ '':'' @ quoted ''eve@pve'' @ '','' @ quoted ''propagate'' @ '':0}]''"

definition access_world :: env where
  "access_world = calm\<lparr>e_ssh := (\<lambda>h cmd. Inr \<lparr>sr_stdout =
       (if cmd = role_list_command then roles_text else if cmd = acl_list_command then acls_text else []), sr_stderr = [], sr_exit = 0\<rparr>)\<rparr>"

definition eve_grant :: grant where
  "eve_grant = \<lparr>g_path = ''/vms/100'', g_role = ''PVEVMUser'', g_propagate = False, g_privs = None\<rparr>"

definition demo_grant :: grant_request where
  "demo_grant = \<lparr>gq_principal = \<lparr>pr_kind = ''user'', pr_id = ''eve@pve''\<rparr>, gq_grants = [eve_grant], gq_allow = False\<rparr>"

lemma demo_roles: "roles_answer roles_text = Inr [(''PVEVMUser'', [''VM.Audit'', ''VM.Console'']), (''Admin'', [''User.Modify''])]"
  by code_simp

lemma demo_acls: "ParseACLEntries acls_text = Inr [acl_of_grant (gq_principal demo_grant) eve_grant]"
  by code_simp

lemma demo_checks:
  "CheckPrincipal (gq_principal demo_grant) = None" "normalizeGrants (gq_grants demo_grant) = Inr [eve_grant]"
  "checkNotSelf demo_access (gq_principal demo_grant) = None" "pr_kind (gq_principal demo_grant) \<noteq> ''group''"
  "role_privs_from [(''PVEVMUser'', [''VM.Audit'', ''VM.Console'']), (''Admin'', [''User.Modify''])] [] [eve_grant] =
     Inr [(''PVEVMUser'', [''VM.Audit'', ''VM.Console''])]"
  "escalations [(''PVEVMUser'', [''VM.Audit'', ''VM.Console''])] (gq_allow demo_grant) [eve_grant] = Inr []"
  "role_list_command \<noteq> acl_list_command" "acl_list_command \<noteq> role_list_command" "acl_command (gq_principal demo_grant) eve_grant \<noteq> acl_list_command"
  by code_simp+

abbreviation demo_granting :: "(gerror + grant_outcome) \<times> rootaccess" where
  "demo_granting \<equiv> run_state (GrantACL access_world connecting demo_access demo_grant) demo_root"

lemma run_demo_grant: "\<exists>out s'. demo_granting = (Inr out, s')"
  by (simp add: GrantACL_def Let_def demo_checks rolePrivs_def allRolePrivs_def pveum_def rootRun_def RootAccess_root_def run_simps
      ssh_query_def ssh_run_def access_world_def pveum_answer_def demo_roles aclModify_def pveumWrite_def write_outcome_def
      read_back_def rootACLs_def demo_acls demo_access_def demo_root_def connecting_def
      demo_checks [unfolded demo_access_def] del: role_privs_from.simps escalations.simps)

theorem GrantACL_guarded_witness:
  "\<exists>es. log (snd demo_granting) = es \<and>
    (\<forall>before e after. es = before @ e # after \<longrightarrow> is_write e \<longrightarrow>
       (\<exists>want g a. g \<in> set want \<and> e = ESsh (acl_command (gq_principal demo_grant) g) a \<and> grant_basis demo_access demo_grant want before))"
proof -
  have "log demo_root = []" by (simp add: demo_root_def)
  with GrantACL_guarded [of access_world connecting demo_access demo_grant demo_root "fst demo_granting" "snd demo_granting"]
  show ?thesis by simp
qed

theorem GrantACL_success_witness:
  "\<exists>es d e acls. log (snd demo_granting) = es \<and> es = d @ [e] \<and>
    list_all2 (\<lambda>g w. write_ok (acl_command (gq_principal demo_grant) g) w) [eve_grant] (filter is_write d) \<and>
    listed acl_list_command ParseACLEntries acls e \<and> acl_of_grant (gq_principal demo_grant) eve_grant \<in> set acls"
proof -
  obtain out s' where run: "demo_granting = (Inr out, s')" using run_demo_grant by blast
  have "log demo_root = []" by (simp add: demo_root_def)
  with GrantACL_success [OF run] run show ?thesis unfolding demo_checks(2) by fastforce
qed

text \<open>
  A shell reads the command of a grant as exactly its words, whatever the path, the id and the role hold.
\<close>

lemma acl_command_words:
  assumes "CheckPrincipal p = None"
  shows "command_words (acl_command p g) =
    Some [''pveum'', ''acl'', ''modify'', g_path g, ''--'' @ pr_kind p @ ''s'', pr_id p, ''--roles'', g_role g, ''--propagate'',
      if g_propagate g then ''1'' else ''0'']"
proof -
  have kind: "pr_kind p \<in> {''user'', ''group'', ''token''}"
    using assms by (auto simp: CheckPrincipal_def split: if_splits)
  then have flag: "acl_flag (pr_kind p) = ''--'' @ pr_kind p @ ''s''" "plain_word (Plain (acl_flag (pr_kind p)))"
    using plain_literals by (auto simp: acl_flag_def)
  show ?thesis
    using plain_literals flag
    by (intro command_wordsI [of _ "Plain ''pveum''" "[Plain ''acl'', Plain ''modify'', Quoted (g_path g), Plain (acl_flag (pr_kind p)),
        Quoted (pr_id p), Plain ''--roles'', Quoted (g_role g), Plain ''--propagate'', Plain (if g_propagate g then ''1'' else ''0'')]"])
      (auto simp: acl_command_def simp del: plain_word.simps(1))
qed

text \<open>
  C36: whatever the ids, comments, group names, paths and roles of a request hold, a shell reads each
  \<open>pveum\<close> command of root's access as exactly the words it was meant to have: the lists, the commands that
  add or change a user or a group, and the one that grants an ACL to a principal that passed the checks.
  No text of a request is ever a word of its own, an option or a second command.
\<close>

theorem pveum_commands_words:
  assumes "CheckPrincipal p = None"
  shows "command_words (add_user_command u) = Some (user_words ''add'' u) \<and>
    command_words (modify_user_command u) = Some (user_words ''modify'' u @ (if us_groups u = [] then [] else [''--append'', ''1''])) \<and>
    command_words (add_group_command gid comment) = Some ([''pveum'', ''group'', ''add'', gid] @ optional_words ''comment'' comment) \<and>
    command_words (modify_group_command gid text_of) = Some [''pveum'', ''group'', ''modify'', gid, ''--comment'', text_of] \<and>
    command_words (acl_command p g) =
      Some [''pveum'', ''acl'', ''modify'', g_path g, ''--'' @ pr_kind p @ ''s'', pr_id p, ''--roles'', g_role g, ''--propagate'',
        if g_propagate g then ''1'' else ''0''] \<and>
    command_words user_list_command = Some [''pveum'', ''user'', ''list'', ''--full'', ''1'', ''--output-format'', ''json''] \<and>
    command_words group_list_command = Some [''pveum'', ''group'', ''list'', ''--output-format'', ''json''] \<and>
    command_words role_list_command = Some [''pveum'', ''role'', ''list'', ''--output-format'', ''json''] \<and>
    command_words acl_list_command = Some [''pveum'', ''acl'', ''list'', ''--output-format'', ''json'']"
  using user_group_commands_words acl_command_words [OF assms] list_commands_words by blast

text \<open>A user, a role and a path that a careless command would break in two.\<close>

theorem pveum_commands_words_witness:
  "command_words (acl_command (gq_principal demo_grant) (eve_grant\<lparr>g_path := ''/vms/1; reboot'', g_role := ''a b''\<rparr>)) =
     Some [''pveum'', ''acl'', ''modify'', ''/vms/1; reboot'', ''--users'', ''eve@pve'', ''--roles'', ''a b'', ''--propagate'', ''0''] \<and>
   command_words (add_user_command (new_user\<lparr>us_comment := Some ''x --enable 0''\<rparr>)) =
     Some [''pveum'', ''user'', ''add'', ''eve@pve'', ''--enable'', ''1'', ''--comment'', ''x --enable 0'']"
  using pveum_commands_words [OF demo_checks(1), of "new_user\<lparr>us_comment := Some ''x --enable 0''\<rparr>" _ _ _
      "eve_grant\<lparr>g_path := ''/vms/1; reboot'', g_role := ''a b''\<rparr>"]
  by (simp add: demo_grant_def eve_grant_def new_user_def user_words_def optional_words_def)

text \<open>
  Of two users whose ids differ only in the case of their letters, the check of the owner's groups looks at the
  first in the list, so it can pass for the token's user who is in the group.
\<close>

theorem owner_check_other_user:
  "ownUser demo_access = ''pveforge@pve'' \<and>
   owner_check demo_access ''ops''
     [\<lparr>au_userid = ''PVEforge@pve'', au_enabled = True, au_comment = [], au_email = [], au_groups = [], au_listed = True\<rparr>,
      \<lparr>au_userid = ''pveforge@pve'', au_enabled = True, au_comment = [], au_email = [], au_groups = [''ops''], au_listed = True\<rparr>] = None"
  by code_simp

section \<open>What a join rests on\<close>

text \<open>The roles a group holds, by the lists that root read: none escalates unless that is allowed.\<close>

definition join_basis :: "access_options \<Rightarrow> string \<Rightarrow> string list \<Rightarrow> bool \<Rightarrow> event list \<Rightarrow> bool" where
  "join_basis cfg uid groups allow before \<longleftrightarrow>
     (ownUser cfg = [] \<or> \<not> equal_fold (ao_fold cfg) uid (ownUser cfg)) \<and>
     (\<exists>roles acls e e'. e \<in> set before \<and> listed role_list_command roles_answer roles e \<and>
        e' \<in> set before \<and> listed acl_list_command ParseACLEntries acls e' \<and>
        (\<forall>a \<in> set acls. ac_type a = ''group'' \<and> ac_ugid a \<in> set groups \<longrightarrow>
           (\<exists>privs. map_of roles (ac_role a) = Some privs \<and> (allow \<or> set privs \<inter> set EscalatingPrivileges = {}))))"

lemma held_roles_Inr:
  "held_roles roles g acls = Inr js \<Longrightarrow>
     (\<forall>a \<in> set acls. ac_type a = ''group'' \<and> ac_ugid a = g \<longrightarrow>
        (\<exists>privs. map_of roles (ac_role a) = Some privs \<and> (js = [] \<longrightarrow> escalating privs = [])))"
  by (induction acls arbitrary: js) (auto simp: map_sum_Inr split: if_splits option.splits)

lemma joins_held_Inr:
  "joins_held roles acls groups = Inr js \<Longrightarrow>
     (\<forall>a \<in> set acls. ac_type a = ''group'' \<and> ac_ugid a \<in> set groups \<longrightarrow>
        (\<exists>privs. map_of roles (ac_role a) = Some privs \<and> (js = [] \<longrightarrow> escalating privs = [])))"
  by (induction groups arbitrary: js) (fastforce simp: map_sum_Inr split: sum.splits dest: held_roles_Inr)+

lemma traces_CheckGroupJoin:
  "traces (CheckGroupJoin env tr cfg uid groups allow) (\<lambda>r es. list_all reads es \<and>
     (\<forall>js. r = Inr js \<longrightarrow> groups \<noteq> [] \<longrightarrow> join_basis cfg uid groups allow es))"
  unfolding CheckGroupJoin_def
proof (intro traces_if traces_return, goal_cases)
  case 3
  show ?case
  proof (rule traces_bind [OF traces_root_lists(4)], rule traces_case_sum, goal_cases)
    case (1 x es e)
    then show ?case by (auto intro!: traces_return dest: list_read_reads)
  next
    case (2 x es roles)
    then obtain e where e: "e \<in> set es" "listed role_list_command roles_answer roles e" "list_all reads es"
      using list_read_Inr list_read_reads by metis
    show ?case
    proof (rule traces_bind [OF traces_root_lists(3)], rule traces_return, intro conjI allI impI, goal_cases)
      case (1 y fs)
      with e show ?case by (auto dest: list_read_reads)
    next
      case (2 y fs js)
      then obtain acls where acls: "y = Inr acls" "joins_held roles acls groups = Inr js" "js = [] \<or> allow"
        by (auto split: sum.splits if_splits)
      with 2 obtain e' where "e' \<in> set fs" "listed acl_list_command ParseACLEntries acls e'" using list_read_Inr by metis
      with e acls joins_held_Inr [OF acls(2)] \<open>\<not> (ownUser cfg \<noteq> [] \<and> _)\<close> show ?case
        unfolding join_basis_def
        by (intro conjI exI [of _ roles] exI [of _ acls] exI [of _ e] exI [of _ e']) (auto simp: escalating_Nil)
    qed
  qed
qed auto

end
