(* ===== verification/PveumEnsure.thy ===== *)
theory PveumEnsure
  imports AclGrant
begin

text \<open>
  Ensuring a user and a group (\<open>internal/idempotent/pveumaccess.go\<close>), over the interface of a client that lists,
  adds and modifies them; root's channel is such a client, and the check before a join is \<open>CheckGroupJoin\<close>, as
  \<open>cmd/pveforge/access.go\<close> puts them together.
\<close>

section \<open>Users\<close>

record 's user_client =
  uc_ListUsers :: "('s, gerror + access_user list) state"
  uc_AddUser :: "user_spec \<Rightarrow> ('s, gerror option) state"
  uc_ModifyUser :: "user_spec \<Rightarrow> ('s, gerror option) state"

record user_request =
  uq_userid :: string
  uq_enable :: "bool option"
  uq_comment :: "string option"
  uq_email :: "string option"
  uq_groups :: "string list"

record userensure = rootaccess +
  ue_found :: "access_user option"
  ue_read :: bool
  ue_joins :: "escalating_join list"

definition renderUser :: "access_user option \<Rightarrow> string" where
  "renderUser u =
     (case u of
        None \<Rightarrow> ''absent''
      | Some u \<Rightarrow>
          ''enable='' @ (if au_enabled u then ''true'' else ''false'') @ '' comment='' @ strconv_Quote (au_comment u) @
          '' email='' @ strconv_Quote (au_email u) @ '' groups='' @ strconv_Quote (strings_Join (sort (au_groups u)) CHR '',''))"

definition UserEnsure_Read :: "userensure user_client \<Rightarrow> user_request \<Rightarrow> (userensure, gerror + string) state" where
  "UserEnsure_Read client q = do {
     _ \<leftarrow> modify (ue_found_update (\<lambda>_. None));
     _ \<leftarrow> modify (ue_read_update (\<lambda>_. False));
     users \<leftarrow> uc_ListUsers client;
     case users of
       Inl e \<Rightarrow> ret (Inl e)
     | Inr us \<Rightarrow> do {
         _ \<leftarrow> modify (ue_read_update (\<lambda>_. True));
         _ \<leftarrow> (case find (\<lambda>u. au_userid u = uq_userid q) us of
                 None \<Rightarrow> ret ()
               | Some u \<Rightarrow> modify (ue_found_update (\<lambda>_. Some u)));
         s \<leftarrow> State_Monad.get;
         ret (Inr (renderUser (ue_found s)))
       }
   }"

fun missing_from :: "string list \<Rightarrow> string list \<Rightarrow> string list \<Rightarrow> string list" where
  "missing_from have_groups missing [] = missing"
| "missing_from have_groups missing (g # gs) =
     (if g \<notin> set have_groups \<and> g \<notin> set missing then missing_from have_groups (missing @ [g]) gs
      else missing_from have_groups missing gs)"

definition missingGroups :: "user_request \<Rightarrow> access_user option \<Rightarrow> string list" where
  "missingGroups q found = sort (missing_from (case found of None \<Rightarrow> [] | Some u \<Rightarrow> au_groups u) [] (uq_groups q))"

definition UserEnsure_Satisfied :: "user_request \<Rightarrow> access_user option \<Rightarrow> bool" where
  "UserEnsure_Satisfied q found =
     (case found of
        None \<Rightarrow> False
      | Some u \<Rightarrow>
          if uq_enable q \<noteq> None \<and> uq_enable q \<noteq> Some (au_enabled u) then False
          else if uq_comment q \<noteq> None \<and> uq_comment q \<noteq> Some (au_comment u) then False
          else if uq_email q \<noteq> None \<and> uq_email q \<noteq> Some (au_email u) then False
          else missingGroups q found = [])"

definition UserEnsure_PostApply :: "user_request \<Rightarrow> (userensure, gerror option) state" where
  "UserEnsure_PostApply q = do {
     s \<leftarrow> State_Monad.get;
     ret (if \<not> ue_read s \<or> UserEnsure_Satisfied q (ue_found s) then None
          else Some (ReadBackMismatchError ''user'' (uq_userid q) (renderUser (ue_found s))))
   }"

definition before_join :: "(string list \<Rightarrow> (userensure, gerror option) state) option \<Rightarrow> string list \<Rightarrow> (userensure, gerror option) state" where
  "before_join join groups =
     (case join of
        None \<Rightarrow> ret None
      | Some ask \<Rightarrow> if groups = [] then ret None else ask groups)"

text \<open>\<open>slices.Compact\<close> of a sorted list keeps one of each.\<close>

definition UserEnsure_Apply ::
    "userensure user_client \<Rightarrow> (string list \<Rightarrow> (userensure, gerror option) state) option \<Rightarrow> user_request \<Rightarrow> (userensure, gerror option) state" where
  "UserEnsure_Apply client join q = do {
     s \<leftarrow> State_Monad.get;
     case ue_found s of
       None \<Rightarrow> do {
         let groups = remdups_adj (sort (uq_groups q));
         e \<leftarrow> before_join join groups;
         case e of
           Some err \<Rightarrow> ret (Some err)
         | None \<Rightarrow> uc_AddUser client \<lparr>us_userid = uq_userid q, us_enable = (case uq_enable q of None \<Rightarrow> True | Some b \<Rightarrow> b),
             us_comment = uq_comment q, us_email = uq_email q, us_groups = groups\<rparr>
       }
     | Some u \<Rightarrow> do {
         let missing = missingGroups q (Some u);
         e \<leftarrow> before_join join missing;
         case e of
           Some err \<Rightarrow> ret (Some err)
         | None \<Rightarrow> uc_ModifyUser client \<lparr>us_userid = uq_userid q, us_enable = (case uq_enable q of None \<Rightarrow> au_enabled u | Some b \<Rightarrow> b),
             us_comment = uq_comment q, us_email = uq_email q, us_groups = missing\<rparr>
       }
   }"

definition UserEnsure ::
    "userensure user_client \<Rightarrow> (string list \<Rightarrow> (userensure, gerror option) state) option \<Rightarrow> user_request \<Rightarrow> (userensure, string) op" where
  "UserEnsure client join q =
     \<lparr>op_Read = UserEnsure_Read client q, op_Satisfied = (\<lambda>s _. UserEnsure_Satisfied q (ue_found s)),
      op_Apply = UserEnsure_Apply client join q, op_PostApply = Some (UserEnsure_PostApply q), op_ReRead = None,
      op_PostNoop = None\<rparr>"

section \<open>Groups\<close>

record 's group_client =
  gc_ListGroups :: "('s, gerror + access_group list) state"
  gc_AddGroup :: "string \<Rightarrow> string option \<Rightarrow> ('s, gerror option) state"
  gc_ModifyGroup :: "string \<Rightarrow> string \<Rightarrow> ('s, gerror option) state"

record group_request =
  gr_groupid :: string
  gr_comment :: "string option"

record groupensure = rootaccess +
  ge_found :: "access_group option"
  ge_read :: bool

definition renderGroup :: "access_group option \<Rightarrow> string" where
  "renderGroup g = (case g of None \<Rightarrow> ''absent'' | Some g \<Rightarrow> ''comment='' @ strconv_Quote (ag_comment g))"

definition GroupEnsure_Read :: "groupensure group_client \<Rightarrow> group_request \<Rightarrow> (groupensure, gerror + string) state" where
  "GroupEnsure_Read client q = do {
     _ \<leftarrow> modify (ge_found_update (\<lambda>_. None));
     _ \<leftarrow> modify (ge_read_update (\<lambda>_. False));
     groups \<leftarrow> gc_ListGroups client;
     case groups of
       Inl e \<Rightarrow> ret (Inl e)
     | Inr gs \<Rightarrow> do {
         _ \<leftarrow> modify (ge_read_update (\<lambda>_. True));
         _ \<leftarrow> (case find (\<lambda>g. ag_groupid g = gr_groupid q) gs of
                 None \<Rightarrow> ret ()
               | Some g \<Rightarrow> modify (ge_found_update (\<lambda>_. Some g)));
         s \<leftarrow> State_Monad.get;
         ret (Inr (renderGroup (ge_found s)))
       }
   }"

definition GroupEnsure_Satisfied :: "group_request \<Rightarrow> access_group option \<Rightarrow> bool" where
  "GroupEnsure_Satisfied q found \<longleftrightarrow>
     (case found of None \<Rightarrow> False | Some g \<Rightarrow> gr_comment q = None \<or> gr_comment q = Some (ag_comment g))"

definition GroupEnsure_PostApply :: "group_request \<Rightarrow> (groupensure, gerror option) state" where
  "GroupEnsure_PostApply q = do {
     s \<leftarrow> State_Monad.get;
     ret (if \<not> ge_read s \<or> GroupEnsure_Satisfied q (ge_found s) then None
          else Some (ReadBackMismatchError ''group'' (gr_groupid q) (renderGroup (ge_found s))))
   }"

definition GroupEnsure_Apply :: "groupensure group_client \<Rightarrow> group_request \<Rightarrow> (groupensure, gerror option) state" where
  "GroupEnsure_Apply client q = do {
     s \<leftarrow> State_Monad.get;
     case ge_found s of
       None \<Rightarrow> gc_AddGroup client (gr_groupid q) (gr_comment q)
     | Some g \<Rightarrow> (case gr_comment q of None \<Rightarrow> ret None | Some c \<Rightarrow> gc_ModifyGroup client (gr_groupid q) c)
   }"

definition GroupEnsure :: "groupensure group_client \<Rightarrow> group_request \<Rightarrow> (groupensure, string) op" where
  "GroupEnsure client q =
     \<lparr>op_Read = GroupEnsure_Read client q, op_Satisfied = (\<lambda>s _. GroupEnsure_Satisfied q (ge_found s)),
      op_Apply = GroupEnsure_Apply client q, op_PostApply = Some (GroupEnsure_PostApply q), op_ReRead = None,
      op_PostNoop = None\<rparr>"

section \<open>Over root's channel\<close>

definition root_user_client :: "env \<Rightarrow> transport \<Rightarrow> access_options \<Rightarrow> userensure user_client" where
  "root_user_client env tr cfg =
     \<lparr>uc_ListUsers = RootAccess_ListUsers env tr cfg, uc_AddUser = AddUser env tr cfg, uc_ModifyUser = ModifyUser env tr cfg\<rparr>"

definition root_group_client :: "env \<Rightarrow> transport \<Rightarrow> access_options \<Rightarrow> groupensure group_client" where
  "root_group_client env tr cfg =
     \<lparr>gc_ListGroups = RootAccess_ListGroups env tr cfg, gc_AddGroup = AddGroup env tr cfg, gc_ModifyGroup = ModifyGroup env tr cfg\<rparr>"

definition join_check :: "env \<Rightarrow> transport \<Rightarrow> access_options \<Rightarrow> string \<Rightarrow> bool \<Rightarrow> string list \<Rightarrow> (userensure, gerror option) state" where
  "join_check env tr cfg uid allow groups = do {
     r \<leftarrow> CheckGroupJoin env tr cfg uid groups allow;
     _ \<leftarrow> modify (ue_joins_update (\<lambda>_. case r of Inl _ \<Rightarrow> [] | Inr js \<Rightarrow> js));
     ret (case r of Inl e \<Rightarrow> Some e | Inr _ \<Rightarrow> None)
   }"

definition own_user_refusal :: "access_options \<Rightarrow> string \<Rightarrow> user_request \<Rightarrow> gerror option" where
  "own_user_refusal cfg targetID q =
     (if ao_own_token cfg \<noteq> [] \<and> equal_fold (ao_fold cfg) (ownUser cfg) (uq_userid q) then
        (if uq_enable q = Some False then
           Some (Errorf [Lit ''refusing to disable '', Lit (uq_userid q), Lit '': it owns the roster'', Lit [CHR 0x27], Lit ''s own token '',
             Lit (ao_own_token cfg), Lit '', so pveforge would lock itself out of '', Lit targetID])
         else if uq_groups q \<noteq> [] then
           Some (Errorf [Lit ''refusing --group for '', Lit (uq_userid q), Lit '': it owns the roster'', Lit [CHR 0x27], Lit ''s own token '',
             Lit (ao_own_token cfg), Lit '', and joining a group grants it that group'', Lit [CHR 0x27], Lit ''s ACLs''])
         else None)
      else None)"

definition ensure_user ::
    "env \<Rightarrow> transport \<Rightarrow> access_options \<Rightarrow> string \<Rightarrow> string \<Rightarrow> user_request \<Rightarrow> bool \<Rightarrow> (userensure, gerror + string result) state" where
  "ensure_user env tr cfg rosterPath targetID q allow =
     (case own_user_refusal cfg targetID q of
        Some e \<Rightarrow> ret (Inl e)
      | None \<Rightarrow> do {
          e \<leftarrow> ResolveCredentials cfg;
          case e of
            Some err \<Rightarrow> ret (Inl err)
          | None \<Rightarrow> Run env rosterPath \<lparr>ok_target_id = targetID, ok_kind = ''user'', ok_id = uq_userid q\<rparr>
              (UserEnsure (root_user_client env tr cfg) (Some (join_check env tr cfg (uq_userid q) allow)) q) False
        })"

definition ensure_group ::
    "env \<Rightarrow> transport \<Rightarrow> access_options \<Rightarrow> string \<Rightarrow> string \<Rightarrow> group_request \<Rightarrow> (groupensure, gerror + string result) state" where
  "ensure_group env tr cfg rosterPath targetID q = do {
     e \<leftarrow> ResolveCredentials cfg;
     case e of
       Some err \<Rightarrow> ret (Inl err)
     | None \<Rightarrow> Run env rosterPath \<lparr>ok_target_id = targetID, ok_kind = ''group'', ok_id = gr_groupid q\<rparr>
         (GroupEnsure (root_group_client env tr cfg) q) False
   }"

section \<open>What a client promises\<close>

lemma run_get_bind: "run_state (State_Monad.bind State_Monad.get f) s = run_state (f s) s"
  by (simp add: State_Monad.get_def)

lemma dial_remote: "is_dial e \<Longrightarrow> remote e"
  by (rule reads_remote [OF dial_reads])

lemma write_sent_remote: "write_sent cmd r es \<Longrightarrow> list_all remote es"
  by (auto simp: write_sent_def list_all_iff dial_remote) (simp_all add: remote_def)

lemma gated_write_sent:
  assumes "write_sent cmd r es" and "\<And>ds a. G ds (ESsh cmd a)"
  shows "gated G es"
proof -
  from assms(1) obtain ds a where ds: "list_all is_dial ds" and es: "es = ds \<or> es = ds @ [ESsh cmd a]" unfolding write_sent_def by blast
  have "gated (\<lambda>pre. G (ds @ pre)) [ESsh cmd a]" by (rule gated_Cons) (simp_all add: assms(2) gated_def)
  with es gated_reads [OF dials_read [OF ds]] show ?thesis by (auto intro: gated_after)
qed

lemma set_missing_from: "set (missing_from have_groups missing gs) = set missing \<union> (set gs - set have_groups)"
  by (induction have_groups missing gs rule: missing_from.induct) auto

lemma set_missingGroups: "set (missingGroups q (Some u)) = set (uq_groups q) - set (au_groups u)"
  by (simp add: missingGroups_def set_missing_from)

text \<open>The specification of the write, over what was seen before it and what a join rests on.\<close>

definition user_write ::
    "(access_user list \<Rightarrow> event list \<Rightarrow> bool) \<Rightarrow> (string list \<Rightarrow> event list \<Rightarrow> bool) \<Rightarrow> user_request \<Rightarrow> event list \<Rightarrow> event \<Rightarrow> bool" where
  "user_write Seen Joined q before e \<longleftrightarrow>
     (\<exists>us u a. Seen us before \<and> us_userid u = uq_userid q \<and> us_comment u = uq_comment q \<and> us_email u = uq_email q \<and>
        (us_groups u \<noteq> [] \<longrightarrow> Joined (us_groups u) before) \<and>
        (e = ESsh (add_user_command u) a \<and> uq_userid q \<notin> au_userid ` set us \<and> us_enable u = (uq_enable q \<noteq> Some False) \<and>
           set (us_groups u) = set (uq_groups q) \<or>
         e = ESsh (modify_user_command u) a \<and>
           (\<exists>x \<in> set us. au_userid x = uq_userid q \<and> us_enable u = (case uq_enable q of None \<Rightarrow> au_enabled x | Some b \<Rightarrow> b) \<and>
              set (us_groups u) = set (uq_groups q) - set (au_groups x))))"

lemma user_write_add:
  assumes "Seen us before" and "us_groups u \<noteq> [] \<longrightarrow> Joined (us_groups u) before" and "uq_userid q \<notin> au_userid ` set us"
    and "us_userid u = uq_userid q" "us_comment u = uq_comment q" "us_email u = uq_email q"
    and "us_enable u = (uq_enable q \<noteq> Some False)" and "set (us_groups u) = set (uq_groups q)"
  shows "user_write Seen Joined q before (ESsh (add_user_command u) a)"
  unfolding user_write_def using assms by blast

lemma user_write_modify:
  assumes "Seen us before" and "us_groups u \<noteq> [] \<longrightarrow> Joined (us_groups u) before" and "x \<in> set us" "au_userid x = uq_userid q"
    and "us_userid u = uq_userid q" "us_comment u = uq_comment q" "us_email u = uq_email q"
    and "us_enable u = (case uq_enable q of None \<Rightarrow> au_enabled x | Some b \<Rightarrow> b)"
    and "set (us_groups u) = set (uq_groups q) - set (au_groups x)"
  shows "user_write Seen Joined q before (ESsh (modify_user_command u) a)"
  unfolding user_write_def using assms by blast

definition user_meets :: "user_request \<Rightarrow> access_user list \<Rightarrow> bool" where
  "user_meets q us \<longleftrightarrow>
     (\<exists>u \<in> set us. au_userid u = uq_userid q \<and> (\<forall>b. uq_enable q = Some b \<longrightarrow> au_enabled u = b) \<and>
        (\<forall>c. uq_comment q = Some c \<longrightarrow> au_comment u = c) \<and> (\<forall>m. uq_email q = Some m \<longrightarrow> au_email u = m) \<and>
        set (uq_groups q) \<subseteq> set (au_groups u))"

lemma Satisfied_meets: "UserEnsure_Satisfied q (find (\<lambda>u. au_userid u = uq_userid q) us) \<Longrightarrow> user_meets q us"
proof -
  assume sat: "UserEnsure_Satisfied q (find (\<lambda>u. au_userid u = uq_userid q) us)"
  then obtain u where u: "find (\<lambda>u. au_userid u = uq_userid q) us = Some u"
    by (auto simp: UserEnsure_Satisfied_def split: option.splits)
  with sat have "missingGroups q (Some u) = []" "uq_enable q \<in> {None, Some (au_enabled u)}"
    "uq_comment q \<in> {None, Some (au_comment u)}" "uq_email q \<in> {None, Some (au_email u)}"
    by (auto simp: UserEnsure_Satisfied_def split: if_splits)
  with find_Some [OF u] set_missingGroups [of q u] show ?thesis unfolding user_meets_def by fastforce
qed

locale user_provider =
  fixes client :: "userensure user_client" and join :: "string list \<Rightarrow> (userensure, gerror option) state"
    and Seen :: "access_user list \<Rightarrow> event list \<Rightarrow> bool" and Joined :: "string list \<Rightarrow> event list \<Rightarrow> bool"
    and q :: user_request
  assumes list_traces: "traces (uc_ListUsers client) (\<lambda>r es. list_all reads es \<and> (\<forall>us. r = Inr us \<longrightarrow> Seen us es))"
    and list_keeps: "run_state (uc_ListUsers client) s = (r, s') \<Longrightarrow> rootaccess.more s' = rootaccess.more s"
    and join_traces: "gs \<noteq> [] \<Longrightarrow> traces (join gs) (\<lambda>r es. list_all reads es \<and> (r = None \<longrightarrow> Joined gs es))"
    and add_sent: "traces (uc_AddUser client u) (write_sent (add_user_command u))"
    and modify_sent: "traces (uc_ModifyUser client u) (write_sent (modify_user_command u))"
    and Seen_mono: "Seen us es \<Longrightarrow> set es \<subseteq> set fs \<Longrightarrow> Seen us fs"
    and Joined_mono: "Joined gs es \<Longrightarrow> set es \<subseteq> set fs \<Longrightarrow> Joined gs fs"
begin

lemma run_Read:
  assumes "run_state (UserEnsure_Read client q) s = (Inr c, s1)"
  shows "\<exists>us es. log s1 = log s @ es \<and> list_all reads es \<and> Seen us es \<and> ue_read s1 \<and>
    ue_found s1 = find (\<lambda>u. au_userid u = uq_userid q) us"
proof -
  let ?s0 = "s\<lparr>ue_found := None, ue_read := False\<rparr>"
  obtain r s2 where ls: "run_state (uc_ListUsers client) ?s0 = (r, s2)" by force
  with assms obtain us where r: "r = Inr us" by (cases r) (auto simp: UserEnsure_Read_def modify_def)
  from traces_runD [OF list_traces ls] r obtain es where es: "log s2 = log s @ es" "list_all reads es" "Seen us es" by auto
  have "ue_found s2 = None" using list_keeps [OF ls] by (cases s; cases s2) auto
  with assms ls r have "ue_found s1 = find (\<lambda>u. au_userid u = uq_userid q) us" "ue_read s1" "log s1 = log s2"
    by (auto simp: UserEnsure_Read_def modify_def State_Monad.get_def split: option.splits)
  with es show ?thesis by auto
qed

lemma traces_read: "traces (UserEnsure_Read client q) (\<lambda>_ es. list_all reads es)"
  unfolding UserEnsure_Read_def
  by (intro traces_bind [OF traces_modify] traces_bind [OF list_traces] traces_case_sum traces_case_option traces_return
      traces_bind [OF traces_get] traces_bind [where ?T1.0 = "\<lambda>_ es. es = []"] traces_mono [OF traces_modify]) auto

lemma traces_before_join:
  "traces (before_join (Some join) gs) (\<lambda>r es. list_all reads es \<and> (r = None \<longrightarrow> gs \<noteq> [] \<longrightarrow> Joined gs es))"
  unfolding before_join_def using join_traces by (auto intro!: traces_return intro: traces_mono)

lemma gated_join:
  assumes "Seen us es" and "list_all reads fs" and "gs \<noteq> [] \<longrightarrow> Joined gs fs" and "write_sent cmd r ws"
    and "\<And>before a. Seen us before \<Longrightarrow> (gs \<noteq> [] \<longrightarrow> Joined gs before) \<Longrightarrow> user_write Seen Joined q before (ESsh cmd a)"
  shows "gated (\<lambda>pre. user_write Seen Joined q (es @ pre)) (fs @ ws)"
proof (rule gated_after [OF gated_reads [OF assms(2)]], rule gated_write_sent [OF assms(4)])
  fix ds a
  show "user_write Seen Joined q (es @ fs @ ds) (ESsh cmd a)"
    by (rule assms(5)) (use assms(1,3) in \<open>auto intro: Seen_mono Joined_mono\<close>)
qed

lemma run_Apply:
  assumes "Seen us es" and "ue_found s1 = find (\<lambda>u. au_userid u = uq_userid q) us"
    and "run_state (UserEnsure_Apply client (Some join) q) s1 = (r, s2)"
  shows "\<exists>fs. log s2 = log s1 @ fs \<and> gated (\<lambda>pre. user_write Seen Joined q (es @ pre)) fs"
proof -
  have sent: "\<exists>fs. log s2 = log s1 @ fs \<and> gated (\<lambda>pre. user_write Seen Joined q (es @ pre)) fs"
    if run: "run_state (do { e \<leftarrow> before_join (Some join) gs; case e of Some err \<Rightarrow> ret (Some err) | None \<Rightarrow> m }) s1 = (r, s2)"
      and m: "traces m (write_sent cmd)"
      and ok: "\<And>before a. Seen us before \<Longrightarrow> (gs \<noteq> [] \<longrightarrow> Joined gs before) \<Longrightarrow> user_write Seen Joined q before (ESsh cmd a)"
    for gs m cmd
  proof -
    have "traces (do { e \<leftarrow> before_join (Some join) gs; case e of Some err \<Rightarrow> ret (Some err) | None \<Rightarrow> m })
        (\<lambda>_ fs. gated (\<lambda>pre. user_write Seen Joined q (es @ pre)) fs)"
    proof (rule traces_bind [OF traces_before_join], rule traces_case_option, goal_cases)
      case (1 x fs)
      then show ?case by (intro traces_mono [OF m]) (auto intro: gated_join [OF assms(1) _ _ _ ok])
    next
      case (2 x fs err)
      then show ?case by (auto intro!: traces_return gated_reads)
    qed
    from traces_runD [OF this run] show ?thesis .
  qed
  show ?thesis
  proof (cases "ue_found s1")
    case None
    with assms(2) have "find (\<lambda>u. au_userid u = uq_userid q) us = None" by simp
    then have absent: "uq_userid q \<notin> au_userid ` set us" by (auto simp: find_None_iff)
    have enabled: "(case uq_enable q of None \<Rightarrow> True | Some b \<Rightarrow> b) = (uq_enable q \<noteq> Some False)" by (cases "uq_enable q") auto
    show ?thesis
    proof (rule sent)
      show "run_state (do { e \<leftarrow> before_join (Some join) (remdups_adj (sort (uq_groups q)));
          case e of Some err \<Rightarrow> ret (Some err)
          | None \<Rightarrow> uc_AddUser client \<lparr>us_userid = uq_userid q, us_enable = (case uq_enable q of None \<Rightarrow> True | Some b \<Rightarrow> b),
             us_comment = uq_comment q, us_email = uq_email q, us_groups = remdups_adj (sort (uq_groups q))\<rparr> }) s1 = (r, s2)"
        using assms(3) unfolding UserEnsure_Apply_def Let_def run_get_bind by (simp only: None option.case)
    next
      fix before a
      assume "Seen us before" "remdups_adj (sort (uq_groups q)) \<noteq> [] \<longrightarrow> Joined (remdups_adj (sort (uq_groups q))) before"
      then show "user_write Seen Joined q before (ESsh (add_user_command
          \<lparr>us_userid = uq_userid q, us_enable = (case uq_enable q of None \<Rightarrow> True | Some b \<Rightarrow> b),
             us_comment = uq_comment q, us_email = uq_email q, us_groups = remdups_adj (sort (uq_groups q))\<rparr>) a)"
        by (intro user_write_add [OF _ _ absent]) (simp_all add: enabled)
    qed (rule add_sent)
  next
    case (Some u)
    with assms(2) have "find (\<lambda>u. au_userid u = uq_userid q) us = Some u" by simp
    from find_Some [OF this] have u: "u \<in> set us" "au_userid u = uq_userid q" by blast+
    show ?thesis
    proof (rule sent)
      show "run_state (do { e \<leftarrow> before_join (Some join) (missingGroups q (Some u));
          case e of Some err \<Rightarrow> ret (Some err)
          | None \<Rightarrow> uc_ModifyUser client \<lparr>us_userid = uq_userid q, us_enable = (case uq_enable q of None \<Rightarrow> au_enabled u | Some b \<Rightarrow> b),
             us_comment = uq_comment q, us_email = uq_email q, us_groups = missingGroups q (Some u)\<rparr> }) s1 = (r, s2)"
        using assms(3) unfolding UserEnsure_Apply_def Let_def run_get_bind by (simp only: Some option.case)
    next
      fix before a
      assume "Seen us before" "missingGroups q (Some u) \<noteq> [] \<longrightarrow> Joined (missingGroups q (Some u)) before"
      with u show "user_write Seen Joined q before (ESsh (modify_user_command
          \<lparr>us_userid = uq_userid q, us_enable = (case uq_enable q of None \<Rightarrow> au_enabled u | Some b \<Rightarrow> b),
             us_comment = uq_comment q, us_email = uq_email q, us_groups = missingGroups q (Some u)\<rparr>) a)"
        by (intro user_write_modify [where x = u]) (simp_all add: set_missingGroups)
    qed (rule modify_sent)
  qed
qed

lemma emits_Apply: "emits remote (UserEnsure_Apply client (Some join) q)"
proof -
  have "emits remote (before_join (Some join) gs)" for gs
    unfolding emits_def by (rule traces_mono [OF traces_before_join]) (auto simp: list_all_iff reads_remote)
  moreover have "emits remote (uc_AddUser client u)" "emits remote (uc_ModifyUser client u)" for u
    unfolding emits_def by (rule traces_mono [OF add_sent] traces_mono [OF modify_sent], erule write_sent_remote)+
  ultimately show ?thesis unfolding UserEnsure_Apply_def Let_def by (intro emits_intro)
qed

lemma user_write_looks_back: "looks_back (user_write Seen Joined q)"
  unfolding looks_back_def
proof (intro allI impI)
  fix before pre e
  assume "user_write Seen Joined q pre e"
  then show "user_write Seen Joined q (before @ pre) e"
    unfolding user_write_def by (elim exE conjE) (intro exI conjI; (assumption | auto intro: Seen_mono Joined_mono))
qed

sublocale user_op: op_attempt "UserEnsure client (Some join) q" "\<lambda>_ es. list_all remote es" "\<lambda>_ _. True" "\<lambda>_. True"
    "user_write Seen Joined q"
proof (unfold_locales, goal_cases)
  case (8 s c s1 r s2)
  then have rd: "run_state (UserEnsure_Read client q) s = (Inr c, s1)" and ap: "run_state (UserEnsure_Apply client (Some join) q) s1 = (r, s2)"
    by (simp_all add: UserEnsure_def)
  from run_Read [OF rd] obtain us es where es: "log s1 = log s @ es" "list_all reads es" "Seen us es"
    "ue_found s1 = find (\<lambda>u. au_userid u = uq_userid q) us" by blast
  from run_Apply [OF es(3,4) ap] obtain fs where "log s2 = log s1 @ fs" "gated (\<lambda>pre. user_write Seen Joined q (es @ pre)) fs" by blast
  with es show ?case by (intro exI [of _ "es @ fs"]) (auto intro: gated_after gated_reads)
qed (use traces_read emits_Apply user_write_looks_back in
    \<open>auto simp: UserEnsure_def UserEnsure_PostApply_def emits_def intro!: traces_bind [OF traces_get] traces_return\<close>)

text \<open>A run whose result reports no failed check ends with a list that has the user as requested.\<close>

lemma Run_meets:
  assumes "run_state (Run env rp key (UserEnsure client (Some join) q) False) s = (Inr x, s')"
    and "AfterErr x = None" and "PostApplyErr x = None"
  shows "\<exists>pre es post us. log s' = log s @ pre @ es @ post \<and> Seen us es \<and> user_meets q us"
proof -
  from user_op.Run_ended [OF assms(1)] obtain s0 s5 pre f u where pre: "log s0 = log s @ pre" and
    ended: "ended key (UserEnsure client (Some join) q) False x s0 s5" and s': "log s' = log s5 @ [EUnlock f u]" by blast
  have "\<exists>s2 s3 c pre'. log s2 = log s0 @ pre' \<and> run_state (UserEnsure_Read client q) s2 = (Inr c, s3) \<and>
      UserEnsure_Satisfied q (ue_found s3) \<and> (\<exists>post. log s5 = log s3 @ post)"
  proof (cases "Changed x")
    case False
    with ended obtain s1 where "run_state (UserEnsure_Read client q) s0 = (Inr (Before x), s1)"
      "UserEnsure_Satisfied q (ue_found s1)" "\<exists>post. log s5 = log s1 @ post" unfolding ended_def by (auto simp: UserEnsure_def)
    then show ?thesis by (intro exI [of _ s0] exI [of _ s1] exI [of _ "Before x"] exI [of _ "[]"]) simp
  next
    case True
    with ended obtain s1 s2 where rd: "run_state (UserEnsure_Read client q) s0 = (Inr (Before x), s1)"
      and ap: "run_state (UserEnsure_Apply client (Some join) q) s1 = (None, s2)"
      and rep: "reports_after key (UserEnsure client (Some join) q) x s2 s5" unfolding ended_def by (auto simp: UserEnsure_def)
    from traces_runD [OF traces_read rd] traces_runD [OF emits_Apply [unfolded emits_def] ap]
    obtain pre' where pre': "log s2 = log s0 @ pre'" by fastforce
    from rep obtain a s4 where a: "run_state (UserEnsure_Read client q) s2 = (a, s4)"
      "run_state (run_check key '': post-apply check: '' (Some (UserEnsure_PostApply q))) s4 = (PostApplyErr x, s5)"
      "AfterErr x = (case a of Inr _ \<Rightarrow> None | Inl e \<Rightarrow> Some (engine_error key '': re-read: '' e))"
      unfolding reports_after_def by (auto simp: UserEnsure_def)
    with assms(2) obtain c where c: "a = Inr c" by (cases a) auto
    from run_Read [OF a(1) [unfolded c]] have "ue_read s4" by blast
    with a(2) assms(3) have "UserEnsure_Satisfied q (ue_found s4)" "log s5 = log s4"
      by (auto simp: run_check_def UserEnsure_PostApply_def State_Monad.get_def split: if_splits)
    with a(1) c pre' show ?thesis by (intro exI [of _ s2] exI [of _ s4] exI [of _ c] exI [of _ pre']) auto
  qed
  then obtain s2 s3 c pre' post where end_state: "log s2 = log s0 @ pre'" "run_state (UserEnsure_Read client q) s2 = (Inr c, s3)"
    "UserEnsure_Satisfied q (ue_found s3)" "log s5 = log s3 @ post" by blast
  from run_Read [OF end_state(2)] obtain us es where es: "log s3 = log s2 @ es" "Seen us es"
    "ue_found s3 = find (\<lambda>u. au_userid u = uq_userid q) us" by blast
  with end_state pre s' Satisfied_meets [of q us] show ?thesis
    by (intro exI [of _ "pre @ pre'"] exI [of _ es] exI [of _ "post @ [EUnlock f u]"] exI [of _ us]) simp
qed

end


text \<open>The same for a group, whose write asks nothing first.\<close>

definition group_write :: "(access_group list \<Rightarrow> event list \<Rightarrow> bool) \<Rightarrow> group_request \<Rightarrow> event list \<Rightarrow> event \<Rightarrow> bool" where
  "group_write Seen q before e \<longleftrightarrow>
     (\<exists>gs a. Seen gs before \<and>
        (e = ESsh (add_group_command (gr_groupid q) (gr_comment q)) a \<and> gr_groupid q \<notin> ag_groupid ` set gs \<or>
         (\<exists>c. e = ESsh (modify_group_command (gr_groupid q) c) a \<and> gr_comment q = Some c \<and> gr_groupid q \<in> ag_groupid ` set gs)))"

locale group_provider =
  fixes client :: "groupensure group_client" and Seen :: "access_group list \<Rightarrow> event list \<Rightarrow> bool" and q :: group_request
  assumes list_traces: "traces (gc_ListGroups client) (\<lambda>r es. list_all reads es \<and> (\<forall>gs. r = Inr gs \<longrightarrow> Seen gs es))"
    and list_keeps: "run_state (gc_ListGroups client) s = (r, s') \<Longrightarrow> rootaccess.more s' = rootaccess.more s"
    and add_sent: "traces (gc_AddGroup client gid comment) (write_sent (add_group_command gid comment))"
    and modify_sent: "traces (gc_ModifyGroup client gid c) (write_sent (modify_group_command gid c))"
    and Seen_mono: "Seen gs es \<Longrightarrow> set es \<subseteq> set fs \<Longrightarrow> Seen gs fs"
begin

lemma run_Read:
  assumes "run_state (GroupEnsure_Read client q) s = (Inr c, s1)"
  shows "\<exists>gs es. log s1 = log s @ es \<and> list_all reads es \<and> Seen gs es \<and> ge_read s1 \<and>
    ge_found s1 = find (\<lambda>g. ag_groupid g = gr_groupid q) gs"
proof -
  let ?s0 = "s\<lparr>ge_found := None, ge_read := False\<rparr>"
  obtain r s2 where ls: "run_state (gc_ListGroups client) ?s0 = (r, s2)" by force
  with assms obtain gs where r: "r = Inr gs" by (cases r) (auto simp: GroupEnsure_Read_def modify_def)
  from traces_runD [OF list_traces ls] r obtain es where es: "log s2 = log s @ es" "list_all reads es" "Seen gs es" by auto
  have "ge_found s2 = None" using list_keeps [OF ls] by (cases s; cases s2) auto
  with assms ls r have "ge_found s1 = find (\<lambda>g. ag_groupid g = gr_groupid q) gs" "ge_read s1" "log s1 = log s2"
    by (auto simp: GroupEnsure_Read_def modify_def State_Monad.get_def split: option.splits)
  with es show ?thesis by auto
qed

lemma traces_read: "traces (GroupEnsure_Read client q) (\<lambda>_ es. list_all reads es)"
  unfolding GroupEnsure_Read_def
  by (intro traces_bind [OF traces_modify] traces_bind [OF list_traces] traces_case_sum traces_case_option traces_return
      traces_bind [OF traces_get] traces_bind [where ?T1.0 = "\<lambda>_ es. es = []"] traces_mono [OF traces_modify]) auto

lemma emits_Apply: "emits remote (GroupEnsure_Apply client q)"
proof -
  have "emits remote (gc_AddGroup client gid comment)" "emits remote (gc_ModifyGroup client gid c)" for gid comment c
    unfolding emits_def by (rule traces_mono [OF add_sent] traces_mono [OF modify_sent], erule write_sent_remote)+
  then show ?thesis unfolding GroupEnsure_Apply_def by (intro emits_intro)
qed

lemma run_Apply:
  assumes "Seen gs es" and "ge_found s1 = find (\<lambda>g. ag_groupid g = gr_groupid q) gs"
    and "run_state (GroupEnsure_Apply client q) s1 = (r, s2)"
  shows "\<exists>fs. log s2 = log s1 @ fs \<and> gated (\<lambda>pre. group_write Seen q (es @ pre)) fs"
proof -
  have sent: "\<exists>fs. log s2 = log s1 @ fs \<and> gated (\<lambda>pre. group_write Seen q (es @ pre)) fs"
    if "traces m (write_sent cmd)" "run_state m s1 = (r, s2)"
      and "\<And>before a. Seen gs before \<Longrightarrow> group_write Seen q before (ESsh cmd a)" for m cmd
  proof -
    from traces_runD [OF that(1,2)] obtain fs where fs: "log s2 = log s1 @ fs" "write_sent cmd r fs" by blast
    have "Seen gs (es @ ds)" for ds by (rule Seen_mono [OF assms(1)]) simp
    with fs gated_write_sent [OF fs(2), of "\<lambda>pre. group_write Seen q (es @ pre)"] that(3) show ?thesis by blast
  qed
  show ?thesis
  proof (cases "ge_found s1")
    case None
    with assms(2) have "find (\<lambda>g. ag_groupid g = gr_groupid q) gs = None" by simp
    then have "gr_groupid q \<notin> ag_groupid ` set gs" by (auto simp: find_None_iff)
    then have ok: "group_write Seen q before (ESsh (add_group_command (gr_groupid q) (gr_comment q)) a)" if "Seen gs before" for before a
      unfolding group_write_def using that by blast
    have run: "run_state (gc_AddGroup client (gr_groupid q) (gr_comment q)) s1 = (r, s2)"
      using assms(3) unfolding GroupEnsure_Apply_def run_get_bind None by simp
    show ?thesis by (rule sent [OF add_sent run ok])
  next
    case (Some g)
    with assms(2) have "find (\<lambda>g. ag_groupid g = gr_groupid q) gs = Some g" by simp
    from find_Some [OF this] have g: "g \<in> set gs" "ag_groupid g = gr_groupid q" by blast+
    show ?thesis
    proof (cases "gr_comment q")
      case None
      with Some assms(3) show ?thesis by (auto simp: GroupEnsure_Apply_def State_Monad.get_def gated_def)
    next
      case c: (Some c)
      have ok: "group_write Seen q before (ESsh (modify_group_command (gr_groupid q) c) a)" if "Seen gs before" for before a
        unfolding group_write_def using that g c by (metis imageI)
      have run: "run_state (gc_ModifyGroup client (gr_groupid q) c) s1 = (r, s2)"
        using assms(3) unfolding GroupEnsure_Apply_def run_get_bind Some c by simp
      show ?thesis by (rule sent [OF modify_sent run ok])
    qed
  qed
qed

lemma group_write_looks_back: "looks_back (group_write Seen q)"
  unfolding looks_back_def group_write_def using Seen_mono by (metis Un_upper2 set_append)

sublocale group_op: op_attempt "GroupEnsure client q" "\<lambda>_ es. list_all remote es" "\<lambda>_ _. True" "\<lambda>_. True" "group_write Seen q"
proof (unfold_locales, goal_cases)
  case (8 s c s1 r s2)
  then have rd: "run_state (GroupEnsure_Read client q) s = (Inr c, s1)" and ap: "run_state (GroupEnsure_Apply client q) s1 = (r, s2)"
    by (simp_all add: GroupEnsure_def)
  from run_Read [OF rd] obtain gs es where es: "log s1 = log s @ es" "list_all reads es" "Seen gs es"
    "ge_found s1 = find (\<lambda>g. ag_groupid g = gr_groupid q) gs" by blast
  from run_Apply [OF es(3,4) ap] obtain fs where "log s2 = log s1 @ fs" "gated (\<lambda>pre. group_write Seen q (es @ pre)) fs" by blast
  with es show ?case by (intro exI [of _ "es @ fs"]) (auto intro: gated_after gated_reads)
qed (use traces_read emits_Apply group_write_looks_back in
    \<open>auto simp: GroupEnsure_def GroupEnsure_PostApply_def emits_def intro!: traces_bind [OF traces_get] traces_return\<close>)

end

section \<open>Root's channel is such a client\<close>

definition keeps :: "('r rootaccess_scheme, 'a) state \<Rightarrow> bool" where
  "keeps m \<longleftrightarrow> (\<forall>s. rootaccess.more (snd (run_state m s)) = rootaccess.more s)"

lemma keepsD: "keeps m \<Longrightarrow> run_state m s = (r, s') \<Longrightarrow> rootaccess.more s' = rootaccess.more s"
  unfolding keeps_def by (metis snd_conv)

lemma keeps_frames: "frames m \<Longrightarrow> keeps m"
  unfolding frames_def keeps_def
proof (intro allI, goal_cases)
  case (1 s)
  then have "sess.more (snd (run_state m s)) = sess.more s" by blast
  then show ?case by (cases s; cases "snd (run_state m s)") auto
qed

lemma keeps_bind: "keeps m \<Longrightarrow> (\<And>x. keeps (f x)) \<Longrightarrow> keeps (State_Monad.bind m f)"
  unfolding keeps_def by (auto split: prod.splits) (metis snd_conv)

lemma keeps_cases:
  "keeps m \<Longrightarrow> keeps n \<Longrightarrow> keeps (if b then m else n)"
  "(\<And>e. keeps (f e)) \<Longrightarrow> (\<And>y. keeps (g y)) \<Longrightarrow> keeps (case r of Inl e \<Rightarrow> f e | Inr y \<Rightarrow> g y)"
  "keeps m \<Longrightarrow> (\<And>y. keeps (h y)) \<Longrightarrow> keeps (case z of None \<Rightarrow> m | Some y \<Rightarrow> h y)"
  by (auto split: sum.split option.split)

lemma keeps_prims:
  "keeps (State_Monad.return x)" "keeps State_Monad.get" "keeps (perform ask ev)" "keeps get_ssh_open" "keeps (set_ssh_open b)"
  "keeps (modify (ra_password_update f))" "keeps (modify (ra_resolved_update h))"
  by (auto simp: keeps_def run_simps State_Monad.get_def)

lemma keeps_root:
  "keeps (ResolveCredentials cfg)" "keeps (RootAccess_root tr cfg)" "keeps (pveum tr cfg (ssh_query env) cmd)"
proof -
  show res: "keeps (ResolveCredentials cfg)"
    unfolding ResolveCredentials_def by (intro keeps_bind keeps_cases keeps_prims)
  show root: "keeps (RootAccess_root tr cfg)"
    unfolding RootAccess_root_def by (intro keeps_bind keeps_cases keeps_prims res)
  show "keeps (pveum tr cfg (ssh_query env) cmd)"
    unfolding pveum_def rootRun_def ssh_query_def by (intro keeps_bind keeps_cases keeps_prims root)
qed

lemma keeps_lists:
  "keeps (RootAccess_ListUsers env tr cfg)" "keeps (RootAccess_ListGroups env tr cfg)"
  unfolding RootAccess_ListUsers_def RootAccess_ListGroups_def token_view_first_def Client_ListUsers_def Client_ListGroups_def
    rootUsers_def rootGroups_def
  by (intro keeps_bind keeps_cases keeps_prims keeps_root keeps_frames [OF frames_RawRequest])+

text \<open>A list of users or groups, over REST or as root.\<close>

definition users_seen :: "access_user list \<Rightarrow> event list \<Rightarrow> bool" where
  "users_seen us before \<longleftrightarrow>
     (\<exists>e \<in> set before. listed user_list_command ParseAccessUsers us e \<or>
        (\<exists>raw. answered ''/access/users'' [(''full'', [''1''])] raw e \<and> users_of (access_entries ''user list'' raw) = Inr us))"

definition groups_seen :: "access_group list \<Rightarrow> event list \<Rightarrow> bool" where
  "groups_seen gs before \<longleftrightarrow>
     (\<exists>e \<in> set before. listed group_list_command ParseAccessGroups gs e \<or>
        (\<exists>raw. answered ''/access/groups'' [] raw e \<and> groups_of (access_entries ''group list'' raw) = Inr gs))"

lemma seen_mono:
  "users_seen us es \<Longrightarrow> set es \<subseteq> set fs \<Longrightarrow> users_seen us fs" "groups_seen gs es \<Longrightarrow> set es \<subseteq> set fs \<Longrightarrow> groups_seen gs fs"
  unfolding users_seen_def groups_seen_def by blast+

lemma traces_token_view_first:
  assumes "traces rest (\<lambda>r es. list_all reads es \<and> (\<forall>x. r = Inr x \<longrightarrow> P x es))"
    and "traces root (\<lambda>r es. list_all reads es \<and> (\<forall>x. r = Inr x \<longrightarrow> P x es))" and "\<And>x es fs. P x fs \<Longrightarrow> P x (es @ fs)"
  shows "traces (token_view_first cfg rest root) (\<lambda>r es. list_all reads es \<and> (\<forall>x. r = Inr x \<longrightarrow> P x es))"
  unfolding token_view_first_def
  by (intro traces_if traces_bind [OF assms(1)] traces_case_sum traces_return assms(2))
    (auto intro: traces_mono [OF assms(2)] assms(3))

lemma traces_lists:
  "traces (RootAccess_ListUsers env tr cfg) (\<lambda>r es. list_all reads es \<and> (\<forall>us. r = Inr us \<longrightarrow> users_seen us es))"
  "traces (RootAccess_ListGroups env tr cfg) (\<lambda>r es. list_all reads es \<and> (\<forall>gs. r = Inr gs \<longrightarrow> groups_seen gs es))"
proof -
  have rest: "traces (Client_ListUsers env) (\<lambda>r es. list_all reads es \<and> (\<forall>us. r = Inr us \<longrightarrow> users_seen us es))"
    unfolding Client_ListUsers_def
    by (rule traces_GET) (auto simp: users_seen_def answered_def reads_def split: sum.splits)
  have root: "traces (rootUsers env tr cfg) (\<lambda>r es. list_all reads es \<and> (\<forall>us. r = Inr us \<longrightarrow> users_seen us es))"
    by (rule traces_mono [OF traces_root_lists(1)]) (auto simp: list_read_def users_seen_def)
  show "traces (RootAccess_ListUsers env tr cfg) (\<lambda>r es. list_all reads es \<and> (\<forall>us. r = Inr us \<longrightarrow> users_seen us es))"
    unfolding RootAccess_ListUsers_def
    by (rule traces_token_view_first [OF rest root]) (auto simp: users_seen_def)
  have rest: "traces (Client_ListGroups env) (\<lambda>r es. list_all reads es \<and> (\<forall>gs. r = Inr gs \<longrightarrow> groups_seen gs es))"
    unfolding Client_ListGroups_def
    by (rule traces_GET) (auto simp: groups_seen_def answered_def reads_def split: sum.splits)
  have root: "traces (rootGroups env tr cfg) (\<lambda>r es. list_all reads es \<and> (\<forall>gs. r = Inr gs \<longrightarrow> groups_seen gs es))"
    by (rule traces_mono [OF traces_root_lists(2)]) (auto simp: list_read_def groups_seen_def)
  show "traces (RootAccess_ListGroups env tr cfg) (\<lambda>r es. list_all reads es \<and> (\<forall>gs. r = Inr gs \<longrightarrow> groups_seen gs es))"
    unfolding RootAccess_ListGroups_def
    by (rule traces_token_view_first [OF rest root]) (auto simp: groups_seen_def)
qed

lemma join_basis_mono: "join_basis cfg uid gs allow es \<Longrightarrow> set es \<subseteq> set fs \<Longrightarrow> join_basis cfg uid gs allow fs"
  unfolding join_basis_def by blast

lemma traces_join_check:
  "gs \<noteq> [] \<Longrightarrow> traces (join_check env tr cfg uid allow gs) (\<lambda>r es. list_all reads es \<and> (r = None \<longrightarrow> join_basis cfg uid gs allow es))"
  unfolding join_check_def
  by (intro traces_bind [OF traces_CheckGroupJoin] traces_bind [OF traces_modify] traces_return) (auto split: sum.splits)

interpretation root_users: user_provider "root_user_client env tr cfg" "join_check env tr cfg (uq_userid q) allow" users_seen
    "\<lambda>gs. join_basis cfg (uq_userid q) gs allow" q for env tr cfg allow q
  by unfold_locales
    (simp_all add: root_user_client_def AddUser_def ModifyUser_def traces_lists traces_join_check traces_pveumWrite
      keepsD [OF keeps_lists(1)], auto intro: seen_mono join_basis_mono)

interpretation root_groups: group_provider "root_group_client env tr cfg" groups_seen q for env tr cfg q
  by unfold_locales
    (simp_all add: root_group_client_def AddGroup_def ModifyGroup_def traces_lists traces_pveumWrite
      keepsD [OF keeps_lists(2)], auto intro: seen_mono)


section \<open>The runs of a user and a group\<close>

lemma run_ResolveCredentials: "run_state (ResolveCredentials cfg) s = (e, s') \<Longrightarrow> log s' = log s"
  by (auto simp: ResolveCredentials_def State_Monad.get_def modify_def split: option.splits if_splits sum.splits)

text \<open>
  C15: every write of a run that ensures a user is one \<open>pveum user add\<close> or \<open>modify\<close> of that user, and it fits the user
  list this attempt read: a user is added only when the list has none of that id; a modify sends the state that was
  asked for, or else the one the list shows, and appends only groups the user is not in; the groups it joins are among
  the requested ones, and for these the role list and the ACL list read as root show no role that escalates, unless
  that was allowed.  The user that owns the roster's token joins no group and is never disabled.
\<close>

theorem ensure_user_guarded:
  assumes "run_state (ensure_user env tr cfg rosterPath targetID q allow) s = (r, s')"
  shows "\<exists>es. log s' = log s @ es \<and>
    (\<forall>before e after. es = before @ e # after \<longrightarrow> is_write e \<longrightarrow>
       user_write users_seen (\<lambda>gs. join_basis cfg (uq_userid q) gs allow) q before e \<and>
       (ao_own_token cfg \<noteq> [] \<and> equal_fold (ao_fold cfg) (ownUser cfg) (uq_userid q) \<longrightarrow> uq_enable q \<noteq> Some False))"
proof (cases "own_user_refusal cfg targetID q")
  case (Some e)
  with assms have "s' = s" by (simp add: ensure_user_def)
  then show ?thesis by simp
next
  case None
  obtain e s1 where res: "run_state (ResolveCredentials cfg) s = (e, s1)" by force
  note s1 = run_ResolveCredentials [OF res]
  have own: "ao_own_token cfg \<noteq> [] \<and> equal_fold (ao_fold cfg) (ownUser cfg) (uq_userid q) \<longrightarrow> uq_enable q \<noteq> Some False"
    using None by (auto simp: own_user_refusal_def split: if_splits)
  show ?thesis
  proof (cases e)
    case (Some err)
    with assms None res s1 show ?thesis by (auto simp: ensure_user_def)
  next
    case e: None
    with assms None res have "run_state (Run env rosterPath \<lparr>ok_target_id = targetID, ok_kind = ''user'', ok_id = uq_userid q\<rparr>
        (UserEnsure (root_user_client env tr cfg) (Some (join_check env tr cfg (uq_userid q) allow)) q) False) s1 = (r, s')"
      by (simp add: ensure_user_def)
    from root_users.user_op.Run_attempts_gated [OF this] obtain es where "log s' = log s1 @ es"
      "gated (user_write users_seen (\<lambda>gs. join_basis cfg (uq_userid q) gs allow) q) es" by blast
    with s1 own show ?thesis unfolding gated_def by (intro exI [of _ es]) simp
  qed
qed

text \<open>
  C33: a run that ensures a user and reports neither a failed re-read nor a failed check has read a user list in which
  that user has every value that was asked for and is in every requested group.
\<close>

theorem ensure_user_success:
  assumes "run_state (ensure_user env tr cfg rosterPath targetID q allow) s = (Inr x, s')"
    and "AfterErr x = None" and "PostApplyErr x = None"
  shows "\<exists>pre es post us. log s' = log s @ pre @ es @ post \<and> users_seen us es \<and>
    (\<exists>u \<in> set us. au_userid u = uq_userid q \<and> (\<forall>b. uq_enable q = Some b \<longrightarrow> au_enabled u = b) \<and>
       (\<forall>c. uq_comment q = Some c \<longrightarrow> au_comment u = c) \<and> (\<forall>m. uq_email q = Some m \<longrightarrow> au_email u = m) \<and>
       set (uq_groups q) \<subseteq> set (au_groups u))"
proof -
  have none: "own_user_refusal cfg targetID q = None"
  proof (rule ccontr)
    assume "own_user_refusal cfg targetID q \<noteq> None"
    with assms(1) show False by (auto simp: ensure_user_def)
  qed
  obtain e s1 where res: "run_state (ResolveCredentials cfg) s = (e, s1)" by force
  with assms(1) none have e: "e = None" by (cases e) (auto simp: ensure_user_def)
  with assms(1) none res have "run_state (Run env rosterPath \<lparr>ok_target_id = targetID, ok_kind = ''user'', ok_id = uq_userid q\<rparr>
      (UserEnsure (root_user_client env tr cfg) (Some (join_check env tr cfg (uq_userid q) allow)) q) False) s1 = (Inr x, s')"
    by (simp add: ensure_user_def)
  from root_users.Run_meets [OF this assms(2,3)] run_ResolveCredentials [OF res] show ?thesis
    unfolding user_meets_def by auto
qed

text \<open>
  Every write of a run that ensures a group adds it, when the group list read before has no such group, or sets
  the comment that was asked for on one the list has; nothing else is ever written.
\<close>

theorem ensure_group_guarded:
  assumes "run_state (ensure_group env tr cfg rosterPath targetID q) s = (r, s')"
  shows "\<exists>es. log s' = log s @ es \<and> (\<forall>before e after. es = before @ e # after \<longrightarrow> is_write e \<longrightarrow> group_write groups_seen q before e)"
proof -
  obtain e s1 where res: "run_state (ResolveCredentials cfg) s = (e, s1)" by force
  note s1 = run_ResolveCredentials [OF res]
  show ?thesis
  proof (cases e)
    case (Some err)
    with assms res s1 show ?thesis by (auto simp: ensure_group_def)
  next
    case None
    with assms res have "run_state (Run env rosterPath \<lparr>ok_target_id = targetID, ok_kind = ''group'', ok_id = gr_groupid q\<rparr>
        (GroupEnsure (root_group_client env tr cfg) q) False) s1 = (r, s')"
      by (simp add: ensure_group_def)
    from root_groups.group_op.Run_attempts_gated [OF this] s1 show ?thesis unfolding gated_def by auto
  qed
qed

section \<open>Two runs\<close>

definition users_text :: "bool \<Rightarrow> string" where
  "users_text there =
     ''['' @ (if there then ''{'' @ quoted ''userid'' @ '':'' @ quoted ''eve@pve'' @ '','' @ quoted ''enable'' @ '':1,'' @ quoted ''groups'' @ '':'' @
        quoted ''ops'' @ ''}'' else []) @ '']''"

fun adds_user :: "event \<Rightarrow> bool" where
  "adds_user (ESsh c a) = True"
| "adds_user _ = False"

definition ensure_world :: env where
  "ensure_world = access_world\<lparr>e_ssh := (\<lambda>h cmd. Inr \<lparr>sr_stdout =
       (if cmd = user_list_command then users_text (list_ex adds_user h)
        else if cmd = role_list_command then roles_text else if cmd = acl_list_command then acls_text else ''[]''),
     sr_stderr = [], sr_exit = 0\<rparr>)\<rparr>"

definition demo_user :: user_request where
  "demo_user = \<lparr>uq_userid = ''eve@pve'', uq_enable = None, uq_comment = None, uq_email = None, uq_groups = [''ops'']\<rparr>"

definition demo_group :: group_request where
  "demo_group = \<lparr>gr_groupid = ''ops'', gr_comment = Some ''operators''\<rparr>"

definition user_session :: userensure where
  "user_session = \<lparr>log = [], ssh_open = False, ra_password = [], ra_resolved = False, ue_found = None, ue_read = False, ue_joins = []\<rparr>"

definition group_session :: groupensure where
  "group_session = \<lparr>log = [], ssh_open = False, ra_password = [], ra_resolved = False, ge_found = None, ge_read = False\<rparr>"

abbreviation demo_ensuring :: "(gerror + string result) \<times> userensure" where
  "demo_ensuring \<equiv> run_state (ensure_user ensure_world connecting demo_access ''roster.yaml'' ''lab'' demo_user False) user_session"

abbreviation demo_grouping :: "(gerror + string result) \<times> groupensure" where
  "demo_grouping \<equiv> run_state (ensure_group ensure_world connecting demo_access ''roster.yaml'' ''lab'' demo_group) group_session"

theorem ensure_user_guarded_witness:
  "\<exists>es. log (snd demo_ensuring) = es \<and>
    (\<forall>before e after. es = before @ e # after \<longrightarrow> is_write e \<longrightarrow>
       user_write users_seen (\<lambda>gs. join_basis demo_access ''eve@pve'' gs False) demo_user before e)"
proof -
  have "log user_session = []" "uq_userid demo_user = ''eve@pve''" by (simp_all add: user_session_def demo_user_def)
  with ensure_user_guarded [of ensure_world connecting demo_access "''roster.yaml''" "''lab''" demo_user False user_session
      "fst demo_ensuring" "snd demo_ensuring"] show ?thesis by simp
qed

theorem ensure_group_guarded_witness:
  "\<exists>es. log (snd demo_grouping) = es \<and>
    (\<forall>before e after. es = before @ e # after \<longrightarrow> is_write e \<longrightarrow> group_write groups_seen demo_group before e)"
proof -
  have "log group_session = []" by (simp add: group_session_def)
  with ensure_group_guarded [of ensure_world connecting demo_access "''roster.yaml''" "''lab''" demo_group group_session
      "fst demo_grouping" "snd demo_grouping"] show ?thesis by simp
qed


lemma demo_users:
  "ParseAccessUsers (users_text False) = Inr []"
  "ParseAccessUsers (users_text True) = Inr [\<lparr>au_userid = ''eve@pve'', au_enabled = True, au_comment = [], au_email = [],
     au_groups = [''ops''], au_listed = True\<rparr>]"
  by code_simp+

lemma demo_commands:
  "user_list_command \<noteq> role_list_command" "user_list_command \<noteq> acl_list_command" "acl_list_command \<noteq> user_list_command"
  "role_list_command \<noteq> user_list_command" "own_user_refusal demo_access ''lab'' demo_user = None"
  "\<not> (ownUser demo_access \<noteq> [] \<and> equal_fold (ao_fold demo_access) ''eve@pve'' (ownUser demo_access))"
  "joins_held [(''PVEVMUser'', [''VM.Audit'', ''VM.Console'']), (''Admin'', [''User.Modify''])]
     [acl_of_grant (gq_principal demo_grant) eve_grant] [''ops''] = Inr []"
  by code_simp+

lemma demo_user_fields: "uq_userid demo_user = ''eve@pve''" "uq_groups demo_user = [''ops'']"
  by (simp_all add: demo_user_def)

lemma demo_access_fields: "ao_password demo_access = None" "ao_rest demo_access = False"
  by (simp_all add: demo_access_def)

lemma run_demo_list:
  fixes s :: userensure
  shows "\<exists>s'. run_state (RootAccess_ListUsers ensure_world connecting demo_access) s =
      (Inr (if list_ex adds_user (log s) then projr (ParseAccessUsers (users_text True)) else []), s') \<and>
    ssh_open s' \<and> list_ex adds_user (log s') = list_ex adds_user (log s)"
  by (simp add: RootAccess_ListUsers_def token_view_first_def rootUsers_def pveum_def rootRun_def RootAccess_root_def run_simps
      ssh_query_def demo_access_fields connecting_def ensure_world_def pveum_answer_def demo_users demo_commands)

lemma run_demo_user_read:
  fixes s :: userensure
  shows "\<exists>s' c. run_state (UserEnsure_Read (root_user_client ensure_world connecting demo_access) demo_user) s = (Inr c, s') \<and>
    ssh_open s' \<and> list_ex adds_user (log s') = list_ex adds_user (log s) \<and> ue_read s' \<and>
    ue_found s' = (if list_ex adds_user (log s) then Some (hd (projr (ParseAccessUsers (users_text True)))) else None)"
proof -
  let ?s0 = "s\<lparr>ue_found := None, ue_read := False\<rparr>"
  from run_demo_list [of ?s0] obtain s2 where ls: "run_state (RootAccess_ListUsers ensure_world connecting demo_access) ?s0 =
      (Inr (if list_ex adds_user (log s) then projr (ParseAccessUsers (users_text True)) else []), s2)"
    "ssh_open s2" "list_ex adds_user (log s2) = list_ex adds_user (log s)" by auto
  have "ue_found s2 = None" using keepsD [OF keeps_lists(1) ls(1)] by (cases s; cases s2) auto
  with ls show ?thesis
    by (simp add: UserEnsure_Read_def root_user_client_def modify_def demo_users State_Monad.get_def demo_user_def)
qed

lemma run_demo_join:
  fixes s :: userensure
  assumes "ssh_open s"
  shows "\<exists>s'. run_state (join_check ensure_world connecting demo_access ''eve@pve'' False [''ops'']) s = (None, s') \<and> ssh_open s'"
  using assms
  by (simp add: join_check_def CheckGroupJoin_def demo_commands allRolePrivs_def rootACLs_def pveum_def rootRun_def RootAccess_root_def
      run_simps ssh_query_def ensure_world_def pveum_answer_def demo_roles demo_acls demo_checks modify_def
      del: joins_held.simps)

lemma run_demo_add:
  fixes s :: userensure
  assumes "ssh_open s"
  shows "\<exists>s'. run_state (AddUser ensure_world connecting demo_access u) s = (None, s') \<and> list_ex adds_user (log s')"
  using assms
  by (simp add: AddUser_def pveumWrite_def pveum_def rootRun_def RootAccess_root_def run_simps ssh_run_def ensure_world_def
      pveum_answer_def write_outcome_def)

lemma run_ensuring: "\<exists>x s'. demo_ensuring = (Inr x, s') \<and> AfterErr x = None \<and> PostApplyErr x = None"
proof -
  let ?key = "\<lparr>ok_target_id = ''lab'', ok_kind = ''user'', ok_id = ''eve@pve''\<rparr>"
  let ?oper = "UserEnsure (root_user_client ensure_world connecting demo_access)
    (Some (join_check ensure_world connecting demo_access ''eve@pve'' False)) demo_user"
  obtain s1 where mut: "run_state (Mutation ensure_world ''roster.yaml'' ?key) user_session =
      (Inr (kf_resource (filesFor ''roster.yaml'' ?key)), s1)" and s1: "\<not> list_ex adds_user (log s1)"
    by (simp add: Mutation_def ensureLockDir_def acquire_def Let_def primitive_defs run_simps ensure_world_def access_world_def
        user_session_def)
  from run_demo_user_read [of s1] s1 obtain s2 c where rd: "run_state (op_Read ?oper) s1 = (Inr c, s2)"
    and s2: "ssh_open s2" "ue_found s2 = None" by (auto simp: UserEnsure_def)
  have unsat: "\<not> op_Satisfied ?oper s2 c" by (simp add: UserEnsure_def UserEnsure_Satisfied_def s2)
  have groups: "remdups_adj (sort (uq_groups demo_user)) = [''ops'']" by (simp add: demo_user_def)
  from run_demo_join [OF s2(1)] obtain s3 where jn: "run_state (join_check ensure_world connecting demo_access ''eve@pve'' False [''ops'']) s2 =
      (None, s3)" "ssh_open s3" by blast
  obtain s4 where ap: "run_state (op_Apply ?oper) s2 = (None, s4)" and s4: "list_ex adds_user (log s4)"
    using run_demo_add [OF jn(2)] by (auto simp: UserEnsure_def UserEnsure_Apply_def run_get_bind s2 groups before_join_def jn(1)
        root_user_client_def Let_def)
  from run_demo_user_read [of s4] s4 obtain s5 d where rr: "run_state (case op_ReRead ?oper of None \<Rightarrow> op_Read ?oper | Some m \<Rightarrow> m) s4 = (Inr d, s5)"
    and s5: "ue_found s5 = Some (hd (projr (ParseAccessUsers (users_text True))))" by (auto simp: UserEnsure_def)
  have sat: "UserEnsure_Satisfied demo_user (ue_found s5)" unfolding s5 by code_simp
  have chk: "run_state (run_check ?key '': post-apply check: '' (op_PostApply ?oper)) s5 = (None, s5)"
    by (simp add: run_check_def UserEnsure_def UserEnsure_PostApply_def run_get_bind sat)
  obtain u s6 where un: "run_state (unlock ensure_world (kf_resource (filesFor ''roster.yaml'' ?key))) s5 = (u, s6)" by force
  have "run_state (attempts (maxConflictRetries - 1) ?key ?oper False) s1 =
      (Inr \<lparr>Changed = True, Before = c, After = d, AfterErr = None, PostApplyErr = None\<rparr>, s5)"
    using rd unsat ap rr chk by (simp add: maxConflictRetries_def numeral_2_eq_2 attempt_cycle_def State_Monad.get_def)
  with mut un have "run_state (Run ensure_world ''roster.yaml'' ?key ?oper False) user_session =
      (Inr \<lparr>Changed = True, Before = c, After = d, AfterErr = None, PostApplyErr = None\<rparr>, s6)"
    by (simp add: Run_def)
  then show ?thesis
    by (simp add: ensure_user_def demo_commands ResolveCredentials_def run_get_bind demo_access_fields demo_user_fields)
qed

theorem ensure_user_success_witness:
  "\<exists>pre es post us. log (snd demo_ensuring) = pre @ es @ post \<and> users_seen us es \<and>
     (\<exists>u \<in> set us. au_userid u = ''eve@pve'' \<and> {''ops''} \<subseteq> set (au_groups u))"
proof -
  obtain x s' where run: "demo_ensuring = (Inr x, s')" "AfterErr x = None" "PostApplyErr x = None" using run_ensuring by blast
  have "log user_session = []" by (simp add: user_session_def)
  with ensure_user_success [OF run, unfolded demo_user_fields] obtain pre es post us u where
    "log s' = pre @ es @ post" "users_seen us es" "u \<in> set us" "au_userid u = ''eve@pve''" "{''ops''} \<subseteq> set (au_groups u)" by auto
  moreover have "snd demo_ensuring = s'" by (simp add: run(1))
  ultimately show ?thesis by metis
qed

end
