(* ===== verification/TomlSplice.thy ===== *)
theory TomlSplice
  imports GoPrelude "HOL-Library.Multiset"
begin

text \<open>
  The edits of the roster file (\<open>internal/roster/writeback.go\<close>, the part that composes text): the byte spans of
  a target, of its subtables and of their fields, the rendering of a field, and the splicing of edits.  The TOML
  parser is not part of the repository: what it yields for a text (its expressions with their byte offsets, and the
  error it stops at) is the parameter \<open>parse\<close>.  Offsets are natural numbers; the code keeps them in 32 bits, which
  is exact for a file below 4 GiB.
\<close>

section \<open>What the parser yields\<close>

type_synonym key_part = "string \<times> nat"

datatype toml_value =
    TString string
  | TInline "toml_kv list"
  | TArray "toml_value list"
  | TScalar
and toml_kv = KeyVal "key_part list" toml_value nat nat

datatype toml_expr =
    ETable "key_part list"
  | EArrayTable "key_part list"
  | EKeyValue toml_kv
  | EComment

type_synonym toml_parse = "string \<Rightarrow> toml_expr list \<times> gerror option"

datatype expr_kind = FTable | FArrayTable | FKeyValue

record flat_expr =
  fe_kind :: expr_kind
  fe_path :: "string list"
  fe_line :: nat
  fe_raw :: "nat \<times> nat"
  fe_value :: string

definition keyPath :: "key_part list \<Rightarrow> string list \<times> nat" where
  "keyPath ks = (map fst ks, case ks of [] \<Rightarrow> 0 | k # _ \<Rightarrow> snd k)"

primrec lineStart :: "string \<Rightarrow> nat \<Rightarrow> nat" where
  "lineStart data 0 = 0"
| "lineStart data (Suc i) = (if data ! i = CHR 0x0A then Suc i else lineStart data i)"

definition header :: "string \<Rightarrow> expr_kind \<Rightarrow> key_part list \<Rightarrow> flat_expr" where
  "header data k ks =
     \<lparr>fe_kind = k, fe_path = fst (keyPath ks), fe_line = lineStart data (snd (keyPath ks)), fe_raw = (0, 0), fe_value = []\<rparr>"

fun flat_of :: "string \<Rightarrow> toml_expr \<Rightarrow> flat_expr list" where
  "flat_of data (ETable ks) = [header data FTable ks]"
| "flat_of data (EArrayTable ks) = [header data FArrayTable ks]"
| "flat_of data (EKeyValue (KeyVal ks v off len)) =
     [\<lparr>fe_kind = FKeyValue, fe_path = fst (keyPath ks), fe_line = 0, fe_raw = (off, len),
       fe_value = (case v of TString s \<Rightarrow> s | _ \<Rightarrow> [])\<rparr>]"
| "flat_of data EComment = []"

definition flattenExpressions :: "toml_parse \<Rightarrow> string \<Rightarrow> gerror + flat_expr list" where
  "flattenExpressions parse data =
     (case parse data of
        (es, Some e) \<Rightarrow> Inl e
      | (es, None) \<Rightarrow> Inr (concat (map (flat_of data) es)))"

definition in_range :: "nat \<Rightarrow> nat \<Rightarrow> flat_expr \<Rightarrow> bool" where
  "in_range a b e =
     (if fe_kind e = FKeyValue then a \<le> fst (fe_raw e) \<and> fst (fe_raw e) < b
      else a \<le> fe_line e \<and> fe_line e < b)"

definition flattenExpressionsInRange :: "toml_parse \<Rightarrow> string \<Rightarrow> nat \<Rightarrow> nat \<Rightarrow> gerror + flat_expr list" where
  "flattenExpressionsInRange parse data a b = map_sum id (filter (in_range a b)) (flattenExpressions parse data)"

section \<open>Spans\<close>

lemma lineStart_le: "lineStart data i \<le> i"
  by (induction i) auto

function backOffLeadingBlankOrComments :: "string \<Rightarrow> nat \<Rightarrow> nat" where
  "backOffLeadingBlankOrComments data stop =
     (if stop = 0 then 0
      else
        let i = stop - 1 in
        if data ! i \<noteq> CHR 0x0A then stop
        else
          let start = lineStart data i; line = strings_TrimSpace (take (i - start) (drop start data)) in
          if line \<noteq> [] \<and> hd line \<noteq> CHR ''#'' then stop
          else backOffLeadingBlankOrComments data start)"
  by pat_completeness auto
termination
  by (relation "measure snd") (auto intro: le_less_trans [OF lineStart_le])

declare backOffLeadingBlankOrComments.simps [simp del]

lemma backOff_le: "backOffLeadingBlankOrComments data e \<le> e"
proof (induction data e rule: backOffLeadingBlankOrComments.induct)
  case (1 data e)
  show ?case
  proof (cases "e = 0 \<or> data ! (e - 1) \<noteq> CHR 0x0A")
    case True
    then show ?thesis by (subst backOffLeadingBlankOrComments.simps) (auto simp: Let_def)
  next
    case False
    let ?start = "lineStart data (e - 1)"
    let ?line = "strings_TrimSpace (take (e - 1 - ?start) (drop ?start data))"
    have "?start \<le> e" using lineStart_le [of data "e - 1"] by simp
    then show ?thesis
      using False 1 [OF _ refl _ refl refl] by (subst backOffLeadingBlankOrComments.simps) (auto simp: Let_def intro: order_trans)
  qed
qed

record target_block =
  tb_id :: string
  tb_start :: nat
  tb_end :: nat
  tb_own :: nat

definition close_block :: "target_block option \<Rightarrow> nat \<Rightarrow> target_block list \<Rightarrow> target_block list" where
  "close_block cur e blocks =
     (case cur of
        None \<Rightarrow> blocks
      | Some b \<Rightarrow> blocks @ [b\<lparr>tb_end := e, tb_own := if tb_own b = 0 then e else tb_own b\<rparr>])"

definition under_targets :: "string list \<Rightarrow> bool" where
  "under_targets p \<longleftrightarrow> length p > 1 \<and> hd p = ''targets''"

fun scan_blocks :: "string \<Rightarrow> flat_expr list \<Rightarrow> target_block list \<Rightarrow> target_block option \<Rightarrow> target_block list" where
  "scan_blocks data [] blocks cur = close_block cur (length data) blocks"
| "scan_blocks data (e # es) blocks cur =
     (let cut = backOffLeadingBlankOrComments data (fe_line e) in
      case fe_kind e of
        FArrayTable \<Rightarrow>
          if fe_path e = [''targets''] then
            scan_blocks data es (close_block cur cut blocks) (Some \<lparr>tb_id = [], tb_start = fe_line e, tb_end = 0, tb_own = 0\<rparr>)
          else if \<not> under_targets (fe_path e) then scan_blocks data es (close_block cur cut blocks) None
          else scan_blocks data es blocks cur
      | FTable \<Rightarrow>
          if under_targets (fe_path e) then
            scan_blocks data es blocks (map_option (\<lambda>b. if tb_own b = 0 then b\<lparr>tb_own := cut\<rparr> else b) cur)
          else scan_blocks data es (close_block cur cut blocks) None
      | FKeyValue \<Rightarrow>
          scan_blocks data es blocks
            (map_option (\<lambda>b. if tb_own b = 0 \<and> fe_path e = [''id''] \<and> tb_id b = [] then b\<lparr>tb_id := fe_value e\<rparr> else b) cur))"

fun missing_id :: "int \<Rightarrow> target_block list \<Rightarrow> gerror option" where
  "missing_id i [] = None"
| "missing_id i (b # bs) =
     (if tb_id b = [] then Some (Errorf [Lit ''target #'', Dec i, Lit '': missing required field id'']) else missing_id (i + 1) bs)"

definition findTargetBlocks :: "toml_parse \<Rightarrow> string \<Rightarrow> gerror + target_block list" where
  "findTargetBlocks parse data =
     (case flattenExpressions parse data of
        Inl e \<Rightarrow> Inl (Errorf [Lit ''parse roster: '', Wrapped e])
      | Inr es \<Rightarrow>
          (let blocks = scan_blocks data es [] None in
           case missing_id 0 blocks of Some e \<Rightarrow> Inl e | None \<Rightarrow> Inr blocks))"

definition findUniqueTargetBlock :: "toml_parse \<Rightarrow> string \<Rightarrow> string \<Rightarrow> gerror + target_block" where
  "findUniqueTargetBlock parse data targetID =
     (case findTargetBlocks parse data of
        Inl e \<Rightarrow> Inl e
      | Inr blocks \<Rightarrow>
          (case filter (\<lambda>b. tb_id b = targetID) blocks of
             [] \<Rightarrow> Inl (Errorf [Lit ''no target with id '', Quo targetID, Lit '' found in roster''])
           | [b] \<Rightarrow> Inr b
           | bs \<Rightarrow> Inl (Errorf [Lit ''ambiguous: '', Dec (int (length bs)), Lit '' targets with id '', Quo targetID, Lit '' found in roster''])))"

text \<open>A subtable ends where the next header begins, or where its target does.\<close>

fun subtable_from :: "string \<Rightarrow> target_block \<Rightarrow> string list \<Rightarrow> flat_expr list \<Rightarrow> (nat \<times> nat) option" where
  "subtable_from data b want [] = None"
| "subtable_from data b want (e # es) =
     (if fe_kind e \<noteq> FTable \<or> fe_path e \<noteq> want then subtable_from data b want es
      else Some (fe_line e,
        case find (\<lambda>n. fe_kind n = FTable \<or> fe_kind n = FArrayTable) es of
          None \<Rightarrow> tb_end b
        | Some n \<Rightarrow> backOffLeadingBlankOrComments data (fe_line n)))"

definition findSubtable :: "toml_parse \<Rightarrow> string \<Rightarrow> target_block \<Rightarrow> string \<Rightarrow> (nat \<times> nat) option" where
  "findSubtable parse data b sub =
     (case flattenExpressionsInRange parse data (tb_start b) (tb_end b) of
        Inl e \<Rightarrow> None
      | Inr es \<Rightarrow> subtable_from data b [''targets'', sub] es)"

definition findSubtableFields :: "toml_parse \<Rightarrow> string \<Rightarrow> nat \<times> nat \<Rightarrow> (nat \<times> nat) gomap" where
  "findSubtableFields parse data span =
     (case flattenExpressionsInRange parse data (fst span) (snd span) of
        Inl e \<Rightarrow> []
      | Inr es \<Rightarrow> gomap_of (map (\<lambda>e. (hd (fe_path e), fe_raw e)) (filter (\<lambda>e. fe_kind e = FKeyValue \<and> length (fe_path e) = 1) es)))"

section \<open>Fields\<close>

record tfield =
  tf_key :: string
  tf_value :: string
  tf_literal :: bool
  tf_raw :: bool

definition upper_hex :: "nat \<Rightarrow> char" where
  "upper_hex d = (if d < 10 then char_of (48 + d) else char_of (55 + d))"

text \<open>A rune that is not well-formed is written as the replacement character.\<close>

definition toml_rune :: "string \<Rightarrow> string" where
  "toml_rune r =
     (if rune_error r then [CHR 0xEF, CHR 0xBF, CHR 0xBD]
      else case r of
          [c] \<Rightarrow>
            if c = CHR 0x5C then [CHR 0x5C, CHR 0x5C]
            else if c = CHR 0x22 then [CHR 0x5C, CHR 0x22]
            else if c = CHR 0x08 then [CHR 0x5C, CHR ''b'']
            else if c = CHR 0x09 then [CHR 0x5C, CHR ''t'']
            else if c = CHR 0x0A then [CHR 0x5C, CHR ''n'']
            else if c = CHR 0x0C then [CHR 0x5C, CHR ''f'']
            else if c = CHR 0x0D then [CHR 0x5C, CHR ''r'']
            else if (of_char c :: nat) < 0x20 \<or> c = CHR 0x7F then
              [CHR 0x5C, CHR ''u'', CHR ''0'', CHR ''0'', upper_hex (of_char c div 16), upper_hex (of_char c mod 16)]
            else [c]
        | _ \<Rightarrow> r)"

definition quoteTOMLBasicString :: "string \<Rightarrow> string" where
  "quoteTOMLBasicString s = CHR 0x22 # concat (map toml_rune (runes s)) @ [CHR 0x22]"

definition ensureTrailingNewline :: "string \<Rightarrow> string" where
  "ensureTrailingNewline s = (if strings_HasSuffix s [CHR 0x0A] then s else s @ [CHR 0x0A])"

definition literal_text :: "string \<Rightarrow> string" where
  "literal_text v =
     [CHR 0x27, CHR 0x27, CHR 0x27, CHR 0x0A] @ ensureTrailingNewline v @ [CHR 0x27, CHR 0x27, CHR 0x27]"

definition field_renderValue :: "tfield \<Rightarrow> string" where
  "field_renderValue f =
     (if tf_literal f then literal_text (tf_value f)
      else if tf_raw f then tf_value f
      else quoteTOMLBasicString (tf_value f))"

definition field_render :: "tfield \<Rightarrow> string" where
  "field_render f = tf_key f @ '' = '' @ field_renderValue f @ [CHR 0x0A]"

section \<open>Edits\<close>

record edit =
  ed_start :: nat
  ed_end :: nat
  ed_text :: string

text \<open>The insertion of the code: an edit goes left past the edits that start after it (the list is reversed).\<close>

fun insert_edit :: "edit \<Rightarrow> edit list \<Rightarrow> edit list" where
  "insert_edit e [] = [e]"
| "insert_edit e (x # xs) = (if ed_start x > ed_start e then x # insert_edit e xs else e # x # xs)"

definition sort_edits :: "edit list \<Rightarrow> edit list" where
  "sort_edits es = rev (fold insert_edit es [])"

fun splice_from :: "string \<Rightarrow> nat \<Rightarrow> edit list \<Rightarrow> gerror + string" where
  "splice_from data cursor [] = Inr (drop cursor data)"
| "splice_from data cursor (e # es) =
     (if ed_start e < cursor then Inl (Errorf [Lit ''internal error: overlapping edits at offset '', Dec (int (ed_start e))])
      else map_sum id (\<lambda>rest. take (ed_start e - cursor) (drop cursor data) @ ed_text e @ rest) (splice_from data (ed_end e) es))"

definition applyEdits :: "string \<Rightarrow> edit list \<Rightarrow> gerror + string" where
  "applyEdits data es = (if es = [] then Inr data else splice_from data 0 (sort_edits es))"

definition replace_at :: "nat \<times> nat \<Rightarrow> tfield \<Rightarrow> edit" where
  "replace_at r f = \<lparr>ed_start = fst r, ed_end = fst r + snd r, ed_text = field_renderValue f\<rparr>"

text \<open>The edits of the fields that are there, and the rendering of those that are not.\<close>

definition field_edits :: "(nat \<times> nat) gomap \<Rightarrow> tfield list \<Rightarrow> edit list" where
  "field_edits existing fs =
     concat (map (\<lambda>f. case map_of existing (tf_key f) of Some r \<Rightarrow> [replace_at r f] | None \<Rightarrow> []) fs)"

definition appended_fields :: "(nat \<times> nat) gomap \<Rightarrow> tfield list \<Rightarrow> string" where
  "appended_fields existing fs = concat (map field_render (filter (\<lambda>f. map_of existing (tf_key f) = None) fs))"

definition applySubtableSplice :: "toml_parse \<Rightarrow> string \<Rightarrow> string \<Rightarrow> string \<Rightarrow> tfield list \<Rightarrow> gerror + string" where
  "applySubtableSplice parse data targetID sub fs =
     (case findUniqueTargetBlock parse data targetID of
        Inl e \<Rightarrow> Inl e
      | Inr b \<Rightarrow>
          (case findSubtable parse data b sub of
             None \<Rightarrow>
               applyEdits data [\<lparr>ed_start = tb_end b, ed_end = tb_end b,
                 ed_text = (if tb_end b > 0 \<and> data ! (tb_end b - 1) \<noteq> CHR 0x0A then [CHR 0x0A] else []) @
                   [CHR 0x0A] @ ''[targets.'' @ sub @ '']'' @ [CHR 0x0A] @ concat (map field_render fs)\<rparr>]
           | Some span \<Rightarrow>
               (let existing = findSubtableFields parse data span; added = appended_fields existing fs in
                applyEdits data (field_edits existing fs @
                  (if added = [] then [] else [\<lparr>ed_start = snd span, ed_end = snd span, ed_text = added\<rparr>])))))"

definition applyTargetFieldsSplice :: "toml_parse \<Rightarrow> string \<Rightarrow> string \<Rightarrow> tfield list \<Rightarrow> gerror + string" where
  "applyTargetFieldsSplice parse data targetID fs =
     (case findUniqueTargetBlock parse data targetID of
        Inl e \<Rightarrow> Inl e
      | Inr b \<Rightarrow>
          (let existing = findSubtableFields parse data (tb_start b, tb_own b);
               added = appended_fields existing fs;
               at = tb_own b
           in applyEdits data (field_edits existing fs @
                (if added = [] then []
                 else [\<lparr>ed_start = at, ed_end = at,
                   ed_text = (if at > 0 \<and> data ! (at - 1) \<noteq> CHR 0x0A then [CHR 0x0A] else []) @ added\<rparr>]))))"

definition applyClearToken :: "toml_parse \<Rightarrow> string \<Rightarrow> string \<Rightarrow> gerror + string" where
  "applyClearToken parse data targetID =
     (case findUniqueTargetBlock parse data targetID of
        Inl e \<Rightarrow> Inl e
      | Inr b \<Rightarrow>
          (case findSubtable parse data b ''token'' of
             None \<Rightarrow> Inr data
           | Some (start, stop) \<Rightarrow>
               (let s = (if start \<ge> 2 \<and> data ! (start - 1) = CHR 0x0A \<and> data ! (start - 2) = CHR 0x0A then start - 1 else start) in
                applyEdits data [\<lparr>ed_start = s, ed_end = stop, ed_text = []\<rparr>])))"

section \<open>What edits do\<close>

text \<open>The specification: a text cut into kept pieces and replaced ones.\<close>

fun woven :: "string list \<Rightarrow> string list \<Rightarrow> string" where
  "woven (k # ks) (p # ps) = k @ p @ woven ks ps"
| "woven ks ps = concat ks"

definition edit_ok :: "string \<Rightarrow> edit \<Rightarrow> bool" where
  "edit_ok data e \<longleftrightarrow> ed_start e \<le> ed_end e \<and> ed_end e \<le> length data"

definition covered :: "string \<Rightarrow> edit \<Rightarrow> string" where
  "covered data e = take (ed_end e - ed_start e) (drop (ed_start e) data)"

fun apart :: "edit list \<Rightarrow> bool" where
  "apart (e # f # es) = (ed_end e \<le> ed_start f \<and> apart (f # es))"
| "apart _ = True"

lemma splice_from_woven:
  assumes "splice_from data cursor es = Inr out" and "cursor \<le> length data" and "\<forall>e \<in> set es. edit_ok data e"
  shows "\<exists>ks. length ks = Suc (length es) \<and> drop cursor data = woven ks (map (covered data) es) \<and> out = woven ks (map ed_text es)"
  using assms
proof (induction es arbitrary: cursor out)
  case Nil
  then show ?case by (intro exI [of _ "[drop cursor data]"]) auto
next
  case (Cons e es)
  from Cons.prems obtain rest where rest: "splice_from data (ed_end e) es = Inr rest" "cursor \<le> ed_start e"
    "out = take (ed_start e - cursor) (drop cursor data) @ ed_text e @ rest"
    by (cases "splice_from data (ed_end e) es") (auto split: if_splits)
  from Cons.prems(3) have ok: "ed_start e \<le> ed_end e" "ed_end e \<le> length data" by (auto simp: edit_ok_def)
  from Cons.IH [OF rest(1)] ok Cons.prems(3) obtain ks where ks: "length ks = Suc (length es)"
    "drop (ed_end e) data = woven ks (map (covered data) es)" "rest = woven ks (map ed_text es)" by auto
  let ?k = "take (ed_start e - cursor) (drop cursor data)"
  have "drop cursor data = ?k @ drop (ed_start e) data"
    using rest(2) by (metis append_take_drop_id drop_drop le_add_diff_inverse2)
  moreover have "drop (ed_start e) data = covered data e @ drop (ed_end e) data"
    unfolding covered_def using ok(1) by (metis append_take_drop_id drop_drop le_add_diff_inverse2)
  ultimately show ?case using ks rest(3) by (intro exI [of _ "?k # ks"]) auto
qed

lemma sort_edits_perm: "mset (sort_edits es) = mset es"
proof -
  have ins: "mset (insert_edit e xs) = add_mset e (mset xs)" for e xs by (induction xs) auto
  have "mset (fold insert_edit es xs) = mset es + mset xs" for xs by (induction es arbitrary: xs) (auto simp: ins)
  then show ?thesis by (simp add: sort_edits_def)
qed

lemma sort_edits_sorted: "sorted (map ed_start (sort_edits es))"
proof -
  have ins: "sorted_wrt (\<ge>) (map ed_start xs) \<Longrightarrow> sorted_wrt (\<ge>) (map ed_start (insert_edit e xs))" for e xs
  proof (induction xs)
    case (Cons x xs)
    have "set (insert_edit e xs) = insert e (set xs)" by (induction xs) auto
    with Cons show ?case by auto
  qed simp
  have "sorted_wrt (\<ge>) (map ed_start xs) \<Longrightarrow> sorted_wrt (\<ge>) (map ed_start (fold insert_edit es xs))" for xs
    by (induction es arbitrary: xs) (auto simp: ins)
  from this [of "[]"] show ?thesis
    by (simp add: sort_edits_def rev_map [symmetric] sorted_wrt_rev)
qed

lemma splice_from_total:
  "(\<exists>out. splice_from data cursor es = Inr out) \<longleftrightarrow> (es = [] \<or> cursor \<le> ed_start (hd es) \<and> apart es)"
proof (induction es arbitrary: cursor)
  case (Cons e es)
  have "(\<exists>out. splice_from data cursor (e # es) = Inr out) \<longleftrightarrow>
      cursor \<le> ed_start e \<and> (\<exists>out. splice_from data (ed_end e) es = Inr out)"
    by (cases "splice_from data (ed_end e) es") auto
  also have "\<dots> \<longleftrightarrow> cursor \<le> ed_start e \<and> apart (e # es)"
    unfolding Cons.IH by (cases es) auto
  finally show ?case by simp
qed simp

text \<open>
  Edits in any order are applied or refused as a whole.  They are applied exactly when, in the order of their
  starts, each ends before the next begins; the new text is then the old one with the range of each edit
  replaced by its text and every other byte kept, in place.
\<close>

theorem applyEdits_exact:
  assumes "\<forall>e \<in> set es. edit_ok data e"
  shows "case applyEdits data es of
     Inl x \<Rightarrow> \<not> apart (sort_edits es)
   | Inr out \<Rightarrow> apart (sort_edits es) \<and> mset (sort_edits es) = mset es \<and> sorted (map ed_start (sort_edits es)) \<and>
       (\<exists>ks. length ks = Suc (length es) \<and> data = woven ks (map (covered data) (sort_edits es)) \<and>
          out = woven ks (map ed_text (sort_edits es)))"
proof -
  have len: "length (sort_edits es) = length es" using sort_edits_perm by (metis size_mset)
  have app: "applyEdits data es = splice_from data 0 (sort_edits es)"
    by (simp add: applyEdits_def sort_edits_def)
  have ok: "\<forall>e \<in> set (sort_edits es). edit_ok data e" using assms sort_edits_perm by (metis set_mset_mset)
  have total: "(\<exists>out. applyEdits data es = Inr out) \<longleftrightarrow> apart (sort_edits es)"
    unfolding app splice_from_total by (cases "sort_edits es") auto
  show ?thesis
  proof (cases "applyEdits data es")
    case (Inl x)
    with total show ?thesis by auto
  next
    case (Inr out)
    then have run: "splice_from data 0 (sort_edits es) = Inr out" by (simp add: app)
    from splice_from_woven [OF run] ok len obtain ks where ks: "length ks = Suc (length es)"
      "data = woven ks (map (covered data) (sort_edits es))" "out = woven ks (map ed_text (sort_edits es))" by auto
    have "apart (sort_edits es)" using total Inr by blast
    then show ?thesis unfolding Inr sum.case using ks sort_edits_perm sort_edits_sorted by blast
  qed
qed

theorem applyEdits_exact_witness:
  "apart (sort_edits [\<lparr>ed_start = 4, ed_end = 6, ed_text = ''new''\<rparr>, \<lparr>ed_start = 1, ed_end = 1, ed_text = ''+''\<rparr>]) \<and>
   applyEdits ''a = b.'' [\<lparr>ed_start = 4, ed_end = 6, ed_text = ''new''\<rparr>, \<lparr>ed_start = 1, ed_end = 1, ed_text = ''+''\<rparr>] = Inr ''a+ = new''"
proof -
  let ?es = "[\<lparr>ed_start = 4, ed_end = 6, ed_text = ''new''\<rparr>, \<lparr>ed_start = 1, ed_end = 1, ed_text = ''+''\<rparr>]"
  have run: "applyEdits ''a = b.'' ?es = Inr ''a+ = new''" by code_simp
  have "\<forall>e \<in> set ?es. edit_ok ''a = b.'' e" by (simp add: edit_ok_def)
  from applyEdits_exact [OF this] show ?thesis by (simp only: run sum.case simp_thms)
qed

section \<open>Quoted strings read back\<close>

text \<open>A TOML basic string as a reader takes it apart, as far as escapes of ASCII go.\<close>

fun short_escape :: "char \<Rightarrow> char option" where
  "short_escape c =
     (if c = CHR ''b'' then Some (CHR 0x08) else if c = CHR ''t'' then Some (CHR 0x09)
      else if c = CHR ''n'' then Some (CHR 0x0A) else if c = CHR ''f'' then Some (CHR 0x0C)
      else if c = CHR ''r'' then Some (CHR 0x0D) else if c = CHR 0x22 then Some (CHR 0x22)
      else if c = CHR 0x5C then Some (CHR 0x5C) else None)"

fun basic_string :: "string \<Rightarrow> string option" where
  "basic_string [] = None"
| "basic_string (c # cs) =
     (if c = CHR 0x22 then (if cs = [] then Some [] else None)
      else if c = CHR 0x5C then
        (case cs of
           [] \<Rightarrow> None
         | e # ds \<Rightarrow>
             if e = CHR ''u'' then
               (case map hex_digit (take 4 ds) of
                  [Some a, Some b, Some x, Some y] \<Rightarrow>
                    if a = 0 \<and> b = 0 \<and> x < 8 then map_option ((#) (char_of (16 * x + y))) (basic_string (drop 4 ds)) else None
                | _ \<Rightarrow> None)
             else (case short_escape e of
                 None \<Rightarrow> None
               | Some d \<Rightarrow> map_option ((#) d) (basic_string ds)))
      else if (of_char c :: nat) < 0x20 \<and> c \<noteq> CHR 0x09 \<or> c = CHR 0x7F then None
      else map_option ((#) c) (basic_string cs))"

definition toml_unquote :: "string \<Rightarrow> string option" where
  "toml_unquote t = (case t of c # cs \<Rightarrow> if c = CHR 0x22 then basic_string cs else None | [] \<Rightarrow> None)"

lemma basic_string_plain:
  "0x20 \<le> (of_char c :: nat) \<Longrightarrow> c \<notin> {CHR 0x22, CHR 0x5C, CHR 0x7F} \<Longrightarrow>
     basic_string (c # cs) = map_option ((#) c) (basic_string cs)"
  by auto

lemma basic_string_high:
  "\<forall>c \<in> set r. 0x80 \<le> (of_char c :: nat) \<Longrightarrow> basic_string (r @ rest) = map_option ((@) r) (basic_string rest)"
proof (induction r)
  case (Cons c r)
  then have "c \<notin> {CHR 0x22, CHR 0x5C, CHR 0x7F}" by auto
  with Cons show ?case using basic_string_plain [of c "r @ rest"]
    by (auto simp: option.map_comp comp_def simp del: basic_string.simps)
qed (cases "basic_string rest"; simp)

lemma control_escape:
  assumes "(of_char c :: nat) < 0x20 \<or> c = CHR 0x7F"
  shows "hex_digit (upper_hex (of_char c div 16)) = Some (of_char c div 16)"
    and "hex_digit (upper_hex (of_char c mod 16)) = Some (of_char c mod 16)"
proof -
  have "d < 16 \<Longrightarrow> hex_digit (upper_hex d) = Some d" for d :: nat
  proof -
    assume "d < 16"
    then have "d \<in> set [0..<16]" by simp
    moreover have "list_all (\<lambda>d. hex_digit (upper_hex d) = Some d) [0..<16]" by code_simp
    ultimately show ?thesis by (simp only: list_all_iff)
  qed
  with assms show "hex_digit (upper_hex (of_char c div 16)) = Some (of_char c div 16)"
    and "hex_digit (upper_hex (of_char c mod 16)) = Some (of_char c mod 16)" by auto
qed

lemma basic_string_rune:
  assumes "(\<exists>c. r = [c]) \<or> (\<forall>c \<in> set r. 0x80 \<le> (of_char c :: nat))" and "\<not> rune_error r"
  shows "basic_string (toml_rune r @ rest) = map_option ((@) r) (basic_string rest)"
proof (cases "\<exists>c. r = [c]")
  case True
  then obtain c where r: "r = [c]" by blast
  show ?thesis
  proof (cases "(of_char c :: nat) < 0x20 \<or> c = CHR 0x7F")
    case True
    note esc = control_escape [OF True]
    have "(of_char c :: nat) div 16 < 8" "16 * (of_char c div 16) + (of_char c :: nat) mod 16 = of_char c" using True by auto
    then show ?thesis
      using True assms(2) esc r
      by (auto simp: toml_rune_def hex_digit_def is_digit_def map_option_case split: option.splits)
  next
    case False
    then show ?thesis
      using assms(2) r by (auto simp: toml_rune_def map_option_case split: option.splits)
  qed
next
  case False
  with assms have "toml_rune r = r" "\<forall>c \<in> set r. 0x80 \<le> (of_char c :: nat)" by (auto simp: toml_rune_def split: list.splits)
  then show ?thesis by (simp add: basic_string_high)
qed

text \<open>
  A well-formed text reads back from the basic string it is rendered as, whatever quotes, escapes and control
  characters it holds; a byte that is not UTF-8 is read back as the replacement character.
\<close>

theorem quoteTOMLBasicString_roundtrip:
  assumes "utf8_valid s"
  shows "toml_unquote (quoteTOMLBasicString s) = Some s"
proof -
  have "basic_string (concat (map toml_rune rs) @ [CHR 0x22]) = Some (concat rs)"
    if "\<forall>r \<in> set rs. ((\<exists>c. r = [c]) \<or> (\<forall>c \<in> set r. 0x80 \<le> (of_char c :: nat))) \<and> \<not> rune_error r" for rs
    using that by (induction rs) (auto simp: basic_string_rune simp del: basic_string.simps, simp)
  moreover have "\<forall>r \<in> set (runes s). ((\<exists>c. r = [c]) \<or> (\<forall>c \<in> set r. 0x80 \<le> (of_char c :: nat))) \<and> \<not> rune_error r"
    using assms in_runes by (fastforce simp: utf8_valid_def list_all_iff)
  ultimately show ?thesis by (simp add: toml_unquote_def quoteTOMLBasicString_def concat_runes del: basic_string.simps)
qed

theorem quoteTOMLBasicString_roundtrip_witness:
  "toml_unquote (quoteTOMLBasicString [CHR ''a'', CHR 0x22, CHR 0x01, CHR 0x0A, CHR 0xC3, CHR 0xA9]) =
     Some [CHR ''a'', CHR 0x22, CHR 0x01, CHR 0x0A, CHR 0xC3, CHR 0xA9]"
  by (rule quoteTOMLBasicString_roundtrip) code_simp

text \<open>Such a byte does not come back, so the rendering is not faithful for every input.\<close>

theorem invalid_byte_not_read_back:
  "toml_unquote (quoteTOMLBasicString [CHR ''a'', CHR 0xFF]) = Some [CHR ''a'', CHR 0xEF, CHR 0xBF, CHR 0xBD]"
  by code_simp

section \<open>A token written and cleared\<close>

definition demo_roster :: string where
  "demo_roster = ''[[targets]]'' @ [CHR 0x0A] @ ''id = '' @ [CHR 0x22] @ ''a'' @ [CHR 0x22, CHR 0x0A]"

definition demo_token :: "tfield list" where
  "demo_token = [\<lparr>tf_key = ''id'', tf_value = ''r@pve!t'', tf_literal = False, tf_raw = False\<rparr>]"

definition demo_with_token :: string where
  "demo_with_token =
     demo_roster @ [CHR 0x0A] @ ''[targets.token]'' @ [CHR 0x0A] @ ''id = '' @ [CHR 0x22] @ ''r@pve!t'' @ [CHR 0x22, CHR 0x0A]"

text \<open>What a parser yields for these two texts.\<close>

definition demo_parse :: toml_parse where
  "demo_parse data =
     (let target = [EArrayTable [(''targets'', 2)], EKeyValue (KeyVal [(''id'', 12)] (TString ''a'') 17 3)];
          token = [ETable [(''targets'', 23), (''token'', 31)], EKeyValue (KeyVal [(''id'', 38)] (TString ''r@pve!t'') 43 9)]
      in if data = demo_roster then (target, None)
         else if data = demo_with_token then (target @ token, None)
         else ([], Some (ErrorString ''not one of the two texts'')))"

text \<open>The token's table goes to the end of the target, behind a blank line, and clearing it gives the old text.\<close>

theorem clear_undoes_append:
  "applySubtableSplice demo_parse demo_roster ''a'' ''token'' demo_token = Inr demo_with_token"
  "applyClearToken demo_parse demo_with_token ''a'' = Inr demo_roster"
  by code_simp+

end
