(* ===== verification/Spec2Isabelle.thy ===== *)
theory Spec2Isabelle
  imports VmDestroy VmShutdown VmTag VmFields VmClone Snapshot StorageVolume Grants AccessGuard NetFields BridgeIso PveumEnsure TomlSplice
begin

text \<open>
  Pveforge: a verification development for the core of \<open>pveforge\<close>, a Go program that changes
  virtual machines, snapshots, storage volumes, networks and access of a Proxmox VE cluster,
  idempotently and under locks.

  The program.  A command builds an operation (\<open>internal/idempotent\<close>), and the mutation engine
  (\<open>op.go\<close>) runs it: it takes the lock of the object (\<open>internal/lock\<close>), reads the state, stops when
  the operation is satisfied, applies it, reads again, and retries a bounded number of times after a
  conflict.  The operations talk to PVE through a client (\<open>internal/pve\<close>): raw REST requests, typed
  reads of go-proxmox, waits on tasks; a few root-only config fields are written over SSH
  (\<open>internal/sshexec\<close>), and the routed client (\<open>routed.go\<close>) picks the way.  Answers are read
  strictly: what a healthy PVE does not answer is an unverifiable read, never a default.

  How it is modelled.  \<open>GoPrelude\<close> holds Go's strings, errors, maps and JSON.  \<open>Wire\<close> is the
  boundary: every request, read, poll, wait, SSH command and file lock is an event, the outside
  world is a parameter \<open>env\<close> that answers each event from the history of all earlier ones, and a
  computation is a value of the state monad over a session with the log of events.  A theorem that
  holds for every \<open>env\<close> holds for every behaviour of PVE, of other writers and of the network; a
  theorem about what a run sends, and in which order, is a statement about the log.  Errors are
  values of \<open>gerror\<close>, which keeps the format of an error, so \<open>errors.Is\<close>, \<open>errors.As\<close> and its text
  are computed as Go computes them.  Code outside this repository (net/http, go-proxmox, x/crypto/ssh,
  flock(2), SHA-256, the clock) appears only as the answers of \<open>env\<close>.

  Theories and the code they model:
  \<^item> \<open>ShellLine\<close>: quoting of a shell word and field names (\<open>sshexec/shellquote.go\<close>, \<open>rootfields.go\<close>).
  \<^item> \<open>LockFile\<close>: lock files, waits and their errors (\<open>lock/lock.go\<close>); the positions of a session as an
    automaton over events; the histories in which the events of any number of runs interleave over a
    kernel lock table, and the interleaving of the positions as a step relation, with their invariants.
  \<^item> \<open>PveClient\<close>, \<open>PveTask\<close>, \<open>PveCluster\<close>: raw requests, error classes, config writes and lifecycle
    calls; the wait on a task; tags and free vmids (\<open>pve/rawrequest.go\<close>, \<open>notfound.go\<close>,
    \<open>vmconfig.go\<close>, \<open>vmcreate.go\<close>, \<open>vmclone.go\<close>, \<open>vmshutdown.go\<close>, \<open>vmdestroy.go\<close>, \<open>vms.go\<close>,
    \<open>storage.go\<close>, \<open>task.go\<close>, \<open>findbytag.go\<close>, \<open>nextvmid.go\<close>).
  \<^item> \<open>Routed\<close>: REST first and SSH for root-only fields (\<open>pve/routed.go\<close>).
  \<^item> \<open>Engine\<close>: \<open>Run\<close> and its retries (\<open>idempotent/op.go\<close>).  Its locales state what an operation
    promises: \<open>op_contract\<close> (reads only read, what an \<open>Apply\<close> may log) and \<open>op_attempt\<close> (what the writes
    of one attempt rest on); inside them the properties of whole runs are proved once, and every
    operation interprets them.
  \<^item> \<open>VmDestroy\<close>, \<open>VmShutdown\<close>, \<open>VmTag\<close>, \<open>VmCreate\<close>, \<open>VmClone\<close>, \<open>VmFields\<close>: the operations on VMs
    (\<open>idempotent/vmdestroy.go\<close>, \<open>vmshutdown.go\<close>, \<open>vmtag.go\<close>, \<open>vmconfig.go\<close>, \<open>vmcreate.go\<close>, \<open>vmclone.go\<close>,
    \<open>vmfields.go\<close>, \<open>vmfields_pending.go\<close>, \<open>vmfields_cloudinit.go\<close>, \<open>vmconverge.go\<close>); \<open>KvJson\<close> the
    arguments they are built from and \<open>KvRender\<close> the text their results are printed as
    (\<open>kvjson/kvjson.go\<close>, \<open>boolish.go\<close>); \<open>JsonText\<close> what \<open>encoding/json\<close> writes and reads.
  \<^item> \<open>NotFound\<close>: when an answer of PVE says that the thing asked for does not exist
    (\<open>pve/notfound.go\<close>, \<open>IsStorageNotFoundError\<close>); \<open>LinkLayer\<close>: kernel links read and bridge ports isolated
    over SSH (\<open>sshexec/linkstate.go\<close>, \<open>bridgelink.go\<close>, \<open>withSSH\<close> of \<open>routed.go\<close>).
  \<^item> \<open>NetStage\<close>: the calls on PVE's staged network changes, the transaction that an operation on them is,
    as an inductive relation between its result and its events, and the locale \<open>staged_op\<close> of the operations
    that refine it; \<open>NetBridge\<close>, \<open>NetFields\<close>: the two operations (\<open>idempotent/networkbridge.go\<close>,
    \<open>networkfields.go\<close>), each an interpretation of it.
  \<^item> \<open>Snapshot\<close>: list, create, rollback and cascade delete (\<open>pve/snapshot.go\<close>).
  \<^item> \<open>StorageOrphans\<close>, \<open>StorageVolume\<close>: which volumes the VMs claim, what is left over, and the
    operations that allocate and free volumes (\<open>pve/storageorphans.go\<close>, \<open>idempotent/storagevolume.go\<close>).
  \<^item> \<open>Access\<close>, \<open>Grants\<close>: permission, role, pool and storage reads, requested grants and the validation of a
    token against them (\<open>pve/client.go\<close>, \<open>pools.go\<close>, \<open>grant.go\<close>, \<open>validate.go\<close>); \<open>AccessGuard\<close>: the guard in
    front of every HTTP request that refuses writes of PVE's \<open>/access\<close> API (\<open>pve/client.go\<close>).
  \<^item> \<open>StorageConfig\<close>: the creation of a storage and of one of its content types
    (\<open>idempotent/storagecreate.go\<close>, \<open>storagecontent.go\<close>, the config calls of \<open>pve/storage.go\<close>).
  \<^item> \<open>Snippet\<close>, \<open>BridgeIso\<close>: a file written over SSH and the snippet a storage keeps of it
    (\<open>sshexec/writefile.go\<close>, \<open>UploadSnippet\<close> of \<open>pve/routed.go\<close>); the hookscript and the isolated taps of
    a VM (\<open>idempotent/bridgeisolation.go\<close>).
  \<^item> \<open>AccessLists\<close>, \<open>GrantSpec\<close>: the strict decoding of the user, group and ACL lists (\<open>pve/access.go\<close>);
    the grants of a command line, their checks and the role list (\<open>bootstrap/bootstrap.go\<close>, \<open>rotation.go\<close>).
  \<^item> \<open>RootAccess\<close>, \<open>AclGrant\<close>, \<open>PveumEnsure\<close>: root's channel, its \<open>pveum\<close> commands and their outcomes; the
    grant of an ACL and the checks before a group is joined (\<open>bootstrap/access.go\<close>); the operations that
    ensure a user and a group and the runs of the two commands (\<open>idempotent/pveumaccess.go\<close>,
    \<open>cmd/pveforge/access.go\<close>).  The locales \<open>user_provider\<close> and \<open>group_provider\<close> state what the operations
    need of the client that reads and writes users and groups; both give an \<open>op_attempt\<close>, and root's
    channel interprets them.
  \<^item> \<open>TomlSplice\<close>: the edits of the roster's text, as far as they compose text: the spans of targets,
    subtables and fields in it, the rendering of a field, the splicing of edits and the removal of a
    token's table (\<open>roster/writeback.go\<close>, \<open>tokenclear.go\<close>).  The expressions that the TOML parser yields
    are a parameter.

  What the lemmas show.  For each computation a \<open>traces\<close> lemma says which events it appends and what
  its result means in terms of them; \<open>gated\<close> says that every write is admitted by what comes before
  it in the log, and is preserved by the engine's loop because its admission looks back only.  The
  safety properties of whole runs (a destroy never deletes a running VM, a config write carries the
  digest just read, only unclaimed volumes are freed, a rollback only goes to the newest snapshot, a
  network change is committed only between two equal snapshots of what it must not touch) are
  instances of it.  A staged network change is also never left pending.
  The access lemmas say what root has read before it writes: a grant escalates nothing that was not
  allowed and never reaches the principal behind the roster's token, a user joins only groups whose roles
  were looked at, and a shell reads each command of root as the words of the request.
  The lock properties are invariants of the interleaving, by rule induction; mutual exclusion is stated
  of runs of the code, whose events the history holds.  The roster lemmas say that edits are applied
  or refused as a whole and keep every byte outside their ranges, and that a rendered string reads back.
  Witnesses evaluate the definitions on concrete worlds.

  Bounds.  The engine's retries are the recursion of \<open>attempts\<close> over the code's constant; the walk for
  a free vmid is a recursion over the code's thousand candidates; the wait on a task is a recursion over
  the ticks that fit its ceiling, after which the deadline answers, so neither needs fuel of its own.
  The decoder of JSON text takes its fuel from the length of the text, which is enough because
  every value consumes a byte.  All other loops are recursions over lists.

  Assumptions on the text of the program's values: strings are bytes; \<open>strconv.Quote\<close> is exact on ASCII
  and keeps other bytes; \<open>strings.ToLower\<close> lowers ASCII letters and the two other characters that lower to
  one, which decides every comparison the sources make; the folding that \<open>strings.EqualFold\<close> uses beyond
  ASCII is a parameter; the iteration order of a Go map is the order of an
  association list.

  Not modelled: the command line (flag parsing and output), the reading, locking and replacing of the
  roster file and its encryption, the bootstrap of a target and the rotation of its credentials, guest agent and inventory
  reads, schema discovery, and the SSH and TLS transports.  They are listed with the reason in the
  components of the manifest.
\<close>

end
